(* ===== verification/Prelude.thy ===== *)
theory Prelude
  imports Main "HOL-Library.Word" "HOL-Library.Monad_Syntax"
begin

text \<open>
  Shared vocabulary of the development.

  A C string is a \<open>string\<close> without its terminating NUL; a nullable pointer to a value is an
  \<open>option\<close>.  A computation that may fault (read out of bounds, dereference NULL) or loop for
  ever has an \<open>option\<close> result: \<open>None\<close> is the absence of a normal return, so every
  theorem that a routine works is stated as an equation with \<open>Some\<close>.

  The macros \<open>EQUAL\<close> and \<open>EQUALN\<close> of \<^verbatim>\<open>port/cpl_port.h\<close> (that is
  \<^verbatim>\<open>strcasecmp\<close> and \<^verbatim>\<open>strncasecmp\<close> in the C locale), \<^verbatim>\<open>isspace\<close> and the
  truncating division of C are defined here because every component uses them.
\<close>

named_theorems cstr "facts on C strings and characters"
named_theorems cint "facts on C integers"

section \<open>Characters and strings\<close>

type_synonym cstring = string

abbreviation NUL :: char where
  "NUL \<equiv> CHR 0x00"

definition code_of :: "char \<Rightarrow> nat" where
  "code_of c = of_char c"

definition c_isspace :: "char \<Rightarrow> bool" where
  "c_isspace c = (code_of c = 32 \<or> (9 \<le> code_of c \<and> code_of c \<le> 13))"

definition c_isdigit :: "char \<Rightarrow> bool" where
  "c_isdigit c = (48 \<le> code_of c \<and> code_of c \<le> 57)"

definition c_isupper :: "char \<Rightarrow> bool" where
  "c_isupper c = (65 \<le> code_of c \<and> code_of c \<le> 90)"

definition c_islower :: "char \<Rightarrow> bool" where
  "c_islower c = (97 \<le> code_of c \<and> code_of c \<le> 122)"

definition c_isalnum :: "char \<Rightarrow> bool" where
  "c_isalnum c = (c_isdigit c \<or> c_isupper c \<or> c_islower c)"

definition c_tolower :: "char \<Rightarrow> char" where
  "c_tolower c = (if c_isupper c then char_of (code_of c + 32) else c)"

definition EQUAL :: "cstring \<Rightarrow> cstring \<Rightarrow> bool" where
  "EQUAL a b = (map c_tolower a = map c_tolower b)"

text \<open>\<open>EQUALN a b n\<close> compares at most \<open>n\<close> characters; a string that ends earlier than the
  other within the first \<open>n\<close> differs from it at its NUL.\<close>

definition EQUALN :: "cstring \<Rightarrow> cstring \<Rightarrow> nat \<Rightarrow> bool" where
  "EQUALN a b n = (map c_tolower (take n a) = map c_tolower (take n b))"

text \<open>The character at an index of a C string, the NUL included; reading past it is a fault.\<close>

definition char_at :: "cstring \<Rightarrow> nat \<Rightarrow> char option" where
  "char_at s i = (if i < length s then Some (s ! i) else if i = length s then Some NUL else None)"

text \<open>A \<^verbatim>\<open>strchr\<close> test: the terminating NUL belongs to the searched string.\<close>

definition strchr_hit :: "cstring \<Rightarrow> char \<Rightarrow> bool" where
  "strchr_hit s c = (c \<in> set s \<or> c = NUL)"

definition c_string :: "cstring \<Rightarrow> bool" where
  "c_string s = (NUL \<notin> set s)"

lemma code_of_lt [cstr]: "code_of c < 256"
  by (simp add: code_of_def)

lemma code_of_char_of [cstr, simp]: "n < 256 \<Longrightarrow> code_of (char_of n) = n"
  by (simp add: code_of_def)

lemma code_of_eq_iff [cstr]: "code_of a = code_of b \<longleftrightarrow> a = b"
  by (simp add: code_of_def)

lemma char_of_code_of [cstr, simp]: "char_of (code_of c) = c"
  by (simp add: code_of_def)

lemma c_tolower_not_upper [cstr]: "\<not> c_isupper (c_tolower c)"
  by (auto simp: c_tolower_def c_isupper_def)

lemma c_tolower_idem [simp]: "c_tolower (c_tolower c) = c_tolower c"
  by (simp add: c_tolower_def [of "c_tolower c"] c_tolower_not_upper)

lemma c_tolower_of_not_upper: "\<not> c_isupper c \<Longrightarrow> c_tolower c = c"
  by (simp add: c_tolower_def)

text \<open>A character that is not a letter is the lower case of itself only.\<close>

lemma c_tolower_eq_nonletter:
  assumes "c_tolower c = d" and "\<not> c_islower d"
  shows "c = d"
  using assms by (auto simp: c_tolower_def c_isupper_def c_islower_def split: if_splits)

lemma EQUAL_refl [simp]: "EQUAL s s"
  by (simp add: EQUAL_def)

lemma EQUAL_sym: "EQUAL a b \<longleftrightarrow> EQUAL b a"
  by (auto simp: EQUAL_def)

lemma EQUAL_trans: "EQUAL a b \<Longrightarrow> EQUAL b c \<Longrightarrow> EQUAL a c"
  by (simp add: EQUAL_def)

lemma EQUAL_length: "EQUAL a b \<Longrightarrow> length a = length b"
  unfolding EQUAL_def by (metis length_map)

lemma EQUALN_refl [simp]: "EQUALN s s n"
  by (simp add: EQUALN_def)

text \<open>Comparing over the whole length of the second string: the first one starts with it, up to
  case.\<close>

lemma EQUALN_length_iff:
  "EQUALN s name (length name) \<longleftrightarrow>
     length name \<le> length s \<and> EQUAL (take (length name) s) name"
proof
  assume h: "EQUALN s name (length name)"
  then have "length (take (length name) s) = length name"
    unfolding EQUALN_def by (metis length_map take_all order_refl)
  with h show "length name \<le> length s \<and> EQUAL (take (length name) s) name"
    by (auto simp: EQUALN_def EQUAL_def)
qed (simp add: EQUALN_def EQUAL_def)

lemma EQUALN_append: "EQUALN (a @ r) b (length b) \<longleftrightarrow> EQUAL a b" if "length a = length b"
  using that by (simp add: EQUALN_def EQUAL_def)

section \<open>Integers\<close>

text \<open>C division truncates towards zero.\<close>

definition c_div :: "int \<Rightarrow> int \<Rightarrow> int" where
  "c_div a b = sgn a * sgn b * (\<bar>a\<bar> div \<bar>b\<bar>)"

lemma c_div_nonneg [cint]: "0 \<le> a \<Longrightarrow> 0 < b \<Longrightarrow> c_div a b = a div b"
  by (cases "a = 0") (auto simp: c_div_def)

text \<open>The value a 32-bit two's complement \<^verbatim>\<open>int\<close> holds after an operation.\<close>

definition to_i32 :: "int \<Rightarrow> int" where
  "to_i32 x = (x + 2 ^ 31) mod 2 ^ 32 - 2 ^ 31"

lemma to_i32_id [cint]: "- (2 ^ 31) \<le> x \<Longrightarrow> x < 2 ^ 31 \<Longrightarrow> to_i32 x = x"
  by (simp add: to_i32_def)

lemma to_i32_range [cint]: "- (2 ^ 31) \<le> to_i32 x \<and> to_i32 x < 2 ^ 31"
proof -
  have "0 \<le> (x + 2 ^ 31) mod (2 ^ 32 :: int)" and "(x + 2 ^ 31) mod (2 ^ 32 :: int) < 2 ^ 32"
    by simp_all
  then show ?thesis by (simp add: to_i32_def)
qed

lemma to_i32_wrap [cint]:
  assumes "2 ^ 31 \<le> x" and "x < 2 ^ 31 + 2 ^ 32"
  shows "to_i32 x = x - 2 ^ 32"
proof -
  have "(x + 2 ^ 31) mod 2 ^ 32 = (x + 2 ^ 31 - 2 ^ 32) mod 2 ^ 32" using assms(1) by (intro mod_pos_geq) auto
  also have "\<dots> = x + 2 ^ 31 - 2 ^ 32" using assms by (intro mod_pos_pos_trivial) auto
  finally show ?thesis by (simp add: to_i32_def)
qed

text \<open>The value a 64-bit unsigned integer holds after an operation.\<close>

definition to_u64 :: "int \<Rightarrow> int" where
  "to_u64 n = n mod 2 ^ 64"

lemma to_u64_id [cint]: "0 \<le> n \<Longrightarrow> n < 2 ^ 64 \<Longrightarrow> to_u64 n = n"
  by (simp add: to_u64_def)

lemma to_u64_neg [cint]:
  assumes "- (2 ^ 64) \<le> n" and "n < 0"
  shows "to_u64 n = n + 2 ^ 64"
proof -
  have "n mod 2 ^ 64 = (n + 2 ^ 64) mod 2 ^ 64" by simp
  also have "\<dots> = n + 2 ^ 64" using assms by (intro mod_pos_pos_trivial) auto
  finally show ?thesis by (simp add: to_u64_def)
qed

lemma to_u64_range [cint]: "0 \<le> to_u64 n \<and> to_u64 n < 2 ^ 64"
  by (simp add: to_u64_def)

section \<open>Lists\<close>

lemma take_Suc_nth: "n < length xs \<Longrightarrow> take (Suc n) xs = take n xs @ [xs ! n]"
  by (rule take_Suc_conv_app_nth)

lemma list_update_middle: "(xs @ y # zs)[length xs := v] = xs @ v # zs"
  by (induction xs) simp_all

lemma nth_append_middle [simp]: "(xs @ y # zs) ! length xs = y"
  by (induction xs) simp_all

lemma find_SomeD: "find P xs = Some x \<Longrightarrow> P x \<and> x \<in> set xs"
  by (induction xs) (auto split: if_splits)

lemma find_NoneD: "find P xs = None \<Longrightarrow> x \<in> set xs \<Longrightarrow> \<not> P x"
  by (simp add: find_None_iff)

end
