(* ===== verification/Csl.thy ===== *)
theory Csl
  imports Prelude
begin

text \<open>
  String lists, \<^verbatim>\<open>port/cpl_string.cpp\<close>.  A \<^verbatim>\<open>char **\<close> is a
  \<open>cstring list option\<close>: \<open>None\<close> is the NULL pointer, \<open>Some xs\<close> an array holding
  the strings \<open>xs\<close> and then a NULL entry.  The routines that move entries inside the array
  (insertion and removal) are modelled on the array itself, a list of \<open>cstring option\<close> of
  one slot more than there are strings, with every index checked; the ones that only walk it
  recurse on the strings.
\<close>

type_synonym csl = "cstring list option"

definition csl_items :: "csl \<Rightarrow> cstring list" where
  "csl_items l = (case l of None \<Rightarrow> [] | Some xs \<Rightarrow> xs)"

lemma csl_items_simps [simp]: "csl_items None = []" "csl_items (Some xs) = xs"
  by (simp_all add: csl_items_def)

section \<open>Building, counting, fetching\<close>

definition CSLAddString :: "csl \<Rightarrow> cstring option \<Rightarrow> csl" where
  "CSLAddString papszStrList pszNewString =
     (case pszNewString of
        None \<Rightarrow> papszStrList
      | Some s \<Rightarrow>
          (case papszStrList of None \<Rightarrow> Some [s] | Some xs \<Rightarrow> Some (xs @ [s])))"

fun CSLCount_loop :: "cstring list \<Rightarrow> int \<Rightarrow> int" where
  "CSLCount_loop [] nItems = nItems"
| "CSLCount_loop (_ # xs) nItems = CSLCount_loop xs (nItems + 1)"

definition CSLCount :: "csl \<Rightarrow> int" where
  "CSLCount papszStrList =
     (case papszStrList of None \<Rightarrow> 0 | Some xs \<Rightarrow> CSLCount_loop xs 0)"

fun CSLGetField_loop :: "cstring list \<Rightarrow> nat \<Rightarrow> cstring" where
  "CSLGetField_loop [] _ = ''''"
| "CSLGetField_loop (x # _) 0 = x"
| "CSLGetField_loop (_ # xs) (Suc n) = CSLGetField_loop xs n"

definition CSLGetField :: "csl \<Rightarrow> int \<Rightarrow> cstring" where
  "CSLGetField papszStrList iField =
     (case papszStrList of
        None \<Rightarrow> ''''
      | Some xs \<Rightarrow> (if iField < 0 then '''' else CSLGetField_loop xs (nat iField)))"

definition CSLDuplicate :: "csl \<Rightarrow> csl" where
  "CSLDuplicate papszStrList =
     (if CSLCount papszStrList = 0 then None else Some (csl_items papszStrList))"

lemma CSLCount_loop_eq: "CSLCount_loop xs n = n + int (length xs)"
  by (induction xs arbitrary: n) simp_all

lemma CSLCount_eq [simp]: "CSLCount l = int (length (csl_items l))"
  by (simp add: CSLCount_def CSLCount_loop_eq split: option.split)

lemma CSLGetField_loop_eq: "CSLGetField_loop xs n = (if n < length xs then xs ! n else '''')"
  by (induction xs n rule: CSLGetField_loop.induct) auto

lemma csl_items_CSLAddString [simp]: "csl_items (CSLAddString l (Some s)) = csl_items l @ [s]"
  by (simp add: CSLAddString_def split: option.split)

lemma csl_items_CSLDuplicate [simp]: "csl_items (CSLDuplicate l) = csl_items l"
  by (simp add: CSLDuplicate_def)

section \<open>Inserting and removing inside the array\<close>

text \<open>The array behind \<open>Some xs\<close>, and the strings an array holds: those before its first
  NULL.\<close>

definition slots_of :: "cstring list \<Rightarrow> cstring option list" where
  "slots_of xs = map Some xs @ [None]"

fun strings_of :: "cstring option list \<Rightarrow> cstring list" where
  "strings_of (Some s # as) = s # strings_of as"
| "strings_of _ = []"

text \<open>\<^verbatim>\<open>*ppszDst-- = *ppszSrc--\<close>, \<open>k\<close> times; an index outside the array is a fault.\<close>

fun slots_shift_up :: "'a list \<Rightarrow> int \<Rightarrow> int \<Rightarrow> nat \<Rightarrow> 'a list option" where
  "slots_shift_up arr s d 0 = Some arr"
| "slots_shift_up arr s d (Suc k) =
     (if 0 \<le> s \<and> s < int (length arr) \<and> 0 \<le> d \<and> d < int (length arr)
      then slots_shift_up (arr[nat d := arr ! nat s]) (s - 1) (d - 1) k
      else None)"

fun slots_store :: "cstring option list \<Rightarrow> nat \<Rightarrow> cstring list \<Rightarrow> cstring option list" where
  "slots_store arr d [] = arr"
| "slots_store arr d (x # xs) = slots_store (arr[d := Some x]) (Suc d) xs"

definition CSLInsertStrings :: "csl \<Rightarrow> int \<Rightarrow> csl \<Rightarrow> csl option" where
  "CSLInsertStrings papszStrList nInsertAtLineNo papszNewLines =
     (let nToInsert = CSLCount papszNewLines in
      if papszNewLines = None \<or> nToInsert = 0 then Some papszStrList
      else
        let nSrcLines = CSLCount papszStrList;
            nDstLines = nSrcLines + nToInsert;
            arr = slots_of (csl_items papszStrList) @ replicate (nat nToInsert) None;
            at = (if nInsertAtLineNo = -1 \<or> nInsertAtLineNo > nSrcLines
                  then nSrcLines else nInsertAtLineNo)
        in do {
             arr1 \<leftarrow> slots_shift_up arr nSrcLines nDstLines (nat (nSrcLines - at + 1));
             Some (Some (strings_of (slots_store arr1 (nat at) (csl_items papszNewLines))))
           })"

definition CSLInsertString :: "csl \<Rightarrow> int \<Rightarrow> cstring option \<Rightarrow> csl option" where
  "CSLInsertString papszStrList nInsertAtLineNo pszNewLine =
     CSLInsertStrings papszStrList nInsertAtLineNo
       (Some (case pszNewLine of None \<Rightarrow> [] | Some s \<Rightarrow> [s]))"

text \<open>The loop of the caller that does not want the strings,
  \<^verbatim>\<open>CPLFree(*ppszDst); *ppszDst = NULL\<close> \<open>k\<close> times (the pointer does not move): the array
  left and the strings freed, \<^verbatim>\<open>free(NULL)\<close> being no operation.\<close>

fun slots_free_at ::
    "cstring option list \<Rightarrow> int \<Rightarrow> nat \<Rightarrow> (cstring option list \<times> cstring list) option" where
  "slots_free_at arr d 0 = Some (arr, [])"
| "slots_free_at arr d (Suc k) =
     (if 0 \<le> d \<and> d < int (length arr)
      then do {
             (arr', freed) \<leftarrow> slots_free_at (arr[nat d := None]) d k;
             Some (arr', (case arr ! nat d of None \<Rightarrow> freed | Some x \<Rightarrow> x # freed))
           }
      else None)"

text \<open>The loop of the caller that wants them,
  \<^verbatim>\<open>(*ppapszRetStrings)[i] = *ppszDst; *ppszDst = NULL; ppszDst++\<close>.\<close>

fun slots_take_out ::
    "cstring option list \<Rightarrow> int \<Rightarrow> nat \<Rightarrow> (cstring option list \<times> cstring option list) option" where
  "slots_take_out arr d 0 = Some (arr, [])"
| "slots_take_out arr d (Suc k) =
     (if 0 \<le> d \<and> d < int (length arr)
      then do {
             (arr', out) \<leftarrow> slots_take_out (arr[nat d := None]) (d + 1) k;
             Some (arr', arr ! nat d # out)
           }
      else None)"

text \<open>\<^verbatim>\<open>for( ; *ppszSrc != NULL; ppszSrc++, ppszDst++) *ppszDst = *ppszSrc; *ppszDst = *ppszSrc\<close>.\<close>

function slots_shift_down ::
    "cstring option list \<Rightarrow> nat \<Rightarrow> nat \<Rightarrow> cstring option list option" where
  "slots_shift_down arr s d =
     (if s < length arr \<and> d < length arr
      then (case arr ! s of
              None \<Rightarrow> Some (arr[d := None])
            | Some x \<Rightarrow> slots_shift_down (arr[d := Some x]) (Suc s) (Suc d))
      else None)"
  by pat_completeness auto
termination
  by (relation "measure (\<lambda>(arr, s, d). length arr - s)") auto

declare slots_shift_down.simps [simp del]

text \<open>The result: the list, what \<^verbatim>\<open>*ppapszRetStrings\<close> is set to (\<open>None\<close> when the routine
  does not set it), and the strings freed.\<close>

definition CSLRemoveStrings :: "csl \<Rightarrow> int \<Rightarrow> int \<Rightarrow> bool \<Rightarrow> (csl \<times> csl \<times> cstring list) option" where
  "CSLRemoveStrings papszStrList nFirstLineToDelete nNumToRemove bRetStrings =
     (let nSrcLines = CSLCount papszStrList;
          nDstLines = nSrcLines - nNumToRemove
      in if nNumToRemove < 1 \<or> nSrcLines = 0 then Some (papszStrList, None, [])
         else if nDstLines < 1 then Some (None, None, csl_items papszStrList)
         else
           let arr = slots_of (csl_items papszStrList) in do {
             (arr1, out, freed) \<leftarrow>
               (if \<not> bRetStrings
                then map_option (\<lambda>(a, freed). (a, None, freed))
                       (slots_free_at arr nFirstLineToDelete (nat nNumToRemove))
                else map_option (\<lambda>(a, out). (a, Some (strings_of (out @ [None])), []))
                       (slots_take_out arr nFirstLineToDelete (nat nNumToRemove)));
             let first = (if nFirstLineToDelete = -1 \<or> nFirstLineToDelete > nSrcLines
                          then nDstLines else nFirstLineToDelete);
             arr2 \<leftarrow> slots_shift_down arr1 (nat (first + nNumToRemove)) (nat first);
             Some (Some (strings_of arr2), out, freed)
           })"

subsection \<open>Facts on the array\<close>

lemma length_slots_of [simp]: "length (slots_of xs) = Suc (length xs)"
  by (simp add: slots_of_def)

lemma strings_of_append_None: "strings_of (map Some xs @ None # r) = xs"
  by (induction xs) simp_all

text \<open>Moving up from the last entry never overwrites an entry still to be read.\<close>

lemma slots_shift_up_nth:
  assumes "int k \<le> s + 1" and "s \<le> d" and "d < int (length arr)"
  shows "\<exists>arr'. slots_shift_up arr s d k = Some arr' \<and> length arr' = length arr \<and>
           (\<forall>j < length arr. arr' ! j =
              (if d - int k < int j \<and> int j \<le> d then arr ! nat (int j - (d - s)) else arr ! j))"
  using assms
proof (induction k arbitrary: arr s d)
  case 0
  then show ?case by auto
next
  case (Suc k)
  let ?arr1 = "arr[nat d := arr ! nat s]"
  have "int k \<le> (s - 1) + 1" and "s - 1 \<le> d - 1" and "d - 1 < int (length ?arr1)"
    using Suc.prems by simp_all
  note ih = Suc.IH [OF this]
  obtain arr' where
    arr': "slots_shift_up ?arr1 (s - 1) (d - 1) k = Some arr'" "length arr' = length ?arr1" and
    nth: "\<forall>j < length ?arr1. arr' ! j =
      (if d - 1 - int k < int j \<and> int j \<le> d - 1
       then ?arr1 ! nat (int j - (d - 1 - (s - 1))) else ?arr1 ! j)"
    using ih by (elim exE conjE) (rule that)
  have "arr' ! j = (if d - int (Suc k) < int j \<and> int j \<le> d then arr ! nat (int j - (d - s)) else arr ! j)"
    if "j < length arr" for j
  proof -
    have at_j: "arr' ! j = (if d - 1 - int k < int j \<and> int j \<le> d - 1
       then ?arr1 ! nat (int j - (d - 1 - (s - 1))) else ?arr1 ! j)"
      using nth [rule_format, of j] that by (simp only: length_list_update)
    consider "int j = d" | "int j \<noteq> d" "d - 1 - int k < int j" "int j \<le> d - 1"
      | "int j \<noteq> d" "\<not> (d - 1 - int k < int j \<and> int j \<le> d - 1)"
      by linarith
    then show ?thesis
    proof cases
      case 1
      then have "j = nat d" by simp
      with 1 at_j that show ?thesis by simp
    next
      case 2
      then have "nat (int j - (d - s)) \<noteq> nat d" using Suc.prems by linarith
      with 2 at_j show ?thesis by simp
    next
      case 3
      then have ne: "j \<noteq> nat d" and out: "\<not> (d - int (Suc k) < int j \<and> int j \<le> d)"
        using Suc.prems by auto
      have "arr' ! j = ?arr1 ! j"
        using at_j 3(2) by (simp only: if_False)
      with ne out show ?thesis by (simp only: if_not_P nth_list_update_neq not_False_eq_True)
    qed
  qed
  moreover have "slots_shift_up arr s d (Suc k) = Some arr'"
    using arr'(1) Suc.prems by simp
  ultimately show ?case
    using arr'(2) by simp
qed

lemma slots_store_eq:
  assumes "d + length xs \<le> length arr"
  shows "slots_store arr d xs = take d arr @ map Some xs @ drop (d + length xs) arr"
  using assms
proof (induction xs arbitrary: arr d)
  case Nil
  then show ?case by simp
next
  case (Cons x xs)
  then have "slots_store arr d (x # xs) =
      take (Suc d) (arr[d := Some x]) @ map Some xs @ drop (Suc d + length xs) (arr[d := Some x])"
    by simp
  with Cons.prems show ?case by (simp add: take_Suc_conv_app_nth)
qed

text \<open>Insertion at \<open>n\<close>: the first \<open>n\<close> strings, the new ones, the rest.\<close>

lemma insert_slots:
  assumes n: "n \<le> length xs"
  shows "\<exists>arr1. slots_shift_up (slots_of xs @ replicate (length ys) None)
             (int (length xs)) (int (length xs + length ys)) (length xs - n + 1) = Some arr1 \<and>
           strings_of (slots_store arr1 n ys) = take n xs @ ys @ drop n xs"
proof -
  let ?arr = "slots_of xs @ replicate (length ys) None"
  have pre: "int (length xs - n + 1) \<le> int (length xs) + 1"
    "int (length xs) \<le> int (length xs + length ys)" "int (length xs + length ys) < int (length ?arr)"
    by simp_all
  from slots_shift_up_nth [OF pre] obtain arr1 where
    arr1: "slots_shift_up ?arr (int (length xs)) (int (length xs + length ys)) (length xs - n + 1) = Some arr1"
      "length arr1 = length ?arr" and
    nth: "\<And>j. j < length ?arr \<Longrightarrow> arr1 ! j =
      (if int (length xs + length ys) - int (length xs - n + 1) < int j \<and> int j \<le> int (length xs + length ys)
       then ?arr ! nat (int j - int (length ys)) else ?arr ! j)"
    by auto
  have "drop (n + length ys) arr1 = map Some (drop n xs) @ [None]"
  proof (rule nth_equalityI)
    fix i
    assume "i < length (drop (n + length ys) arr1)"
    then have i: "n + length ys + i < length ?arr" using arr1(2) by simp
    have "nat (int (n + length ys + i) - int (length ys)) = n + i" by simp
    then have "arr1 ! (n + length ys + i) = ?arr ! (n + i)"
      using nth [OF i] n i by auto
    moreover have "drop (n + length ys) arr1 ! i = arr1 ! (n + length ys + i)"
      using i arr1(2) by simp
    ultimately show "drop (n + length ys) arr1 ! i = (map Some (drop n xs) @ [None]) ! i"
      using i n by (auto simp: slots_of_def nth_append)
  qed (use arr1(2) n in simp)
  moreover have "take n arr1 = map Some (take n xs)"
  proof (rule nth_equalityI)
    fix i
    assume "i < length (take n arr1)"
    then have i: "i < n" by simp
    then have "arr1 ! i = ?arr ! i"
      using nth [of i] n by auto
    with i n show "take n arr1 ! i = map Some (take n xs) ! i"
      by (simp add: slots_of_def nth_append)
  qed (use arr1(2) n in simp)
  ultimately have "slots_store arr1 n ys = map Some (take n xs @ ys @ drop n xs) @ None # []"
    using arr1(2) n by (subst slots_store_eq) simp_all
  with arr1(1) show ?thesis
    by (metis strings_of_append_None)
qed

text \<open>Taking out \<open>k\<close> entries leaves NULLs behind; moving the tail down over them closes the gap.\<close>

lemma slots_take_out_eq:
  assumes "d + k \<le> length arr"
  shows "slots_take_out arr (int d) k =
    Some (take d arr @ replicate k None @ drop (d + k) arr, take k (drop d arr))"
  using assms
proof (induction k arbitrary: arr d)
  case 0
  then show ?case by simp
next
  case (Suc k)
  let ?arr1 = "arr[d := None]"
  have "slots_take_out ?arr1 (int (Suc d)) k =
      Some (take (Suc d) ?arr1 @ replicate k None @ drop (Suc d + k) ?arr1, take k (drop (Suc d) ?arr1))"
    using Suc.prems by (intro Suc.IH) simp
  moreover have "take (Suc d) ?arr1 = take d arr @ [None]"
    using Suc.prems by (simp add: take_Suc_conv_app_nth)
  moreover have "take (Suc k) (drop d arr) = arr ! d # take k (drop (Suc d) arr)"
    using Suc.prems by (simp add: Cons_nth_drop_Suc [symmetric])
  ultimately show ?case
    using Suc.prems by (simp add: algebra_simps)
qed

text \<open>The loop that frees stays on one slot: it frees what the slot holds at first, nothing after.\<close>

lemma slots_free_at_None:
  "d < length arr \<Longrightarrow> arr ! d = None \<Longrightarrow> slots_free_at arr (int d) k = Some (arr, [])"
proof (induction k)
  case (Suc k)
  then have "arr[d := None] = arr" by (metis list_update_id)
  with Suc show ?case by simp
qed simp

lemma slots_free_at_eq:
  assumes "d < length arr" and "arr ! d = Some x" and "0 < k"
  shows "slots_free_at arr (int d) k = Some (arr[d := None], [x])"
proof (cases k)
  case (Suc n)
  have "slots_free_at (arr[d := None]) (int d) n = Some (arr[d := None], [])"
    using assms(1) by (intro slots_free_at_None) simp_all
  with assms Suc show ?thesis by simp
qed (use assms in simp)

lemma slots_shift_down_eq:
  assumes "gap \<noteq> []"
  shows "\<exists>arr'. slots_shift_down (map Some ws @ gap @ map Some zs @ [None])
             (length ws + length gap) (length ws) = Some arr' \<and> strings_of arr' = ws @ zs"
  using assms
proof (induction zs arbitrary: ws gap)
  case Nil
  obtain g gap' where g: "gap = g # gap'" using Nil.prems by (cases gap) auto
  let ?arr = "map Some ws @ gap @ map Some [] @ [None]"
  have src: "?arr ! (length ws + length gap) = None"
    using nth_append_middle [of "map Some ws @ gap" None "[]"] by simp
  have upd: "?arr[length ws := None] = map Some ws @ None # (gap' @ [None])"
    using list_update_middle [of "map Some ws"] g by simp
  show ?case
    unfolding slots_shift_down.simps [of ?arr] src using upd by (simp add: strings_of_append_None)
next
  case (Cons z zs)
  obtain g gap' where g: "gap = g # gap'" using Cons.prems by (cases gap) auto
  let ?arr = "map Some ws @ gap @ map Some (z # zs) @ [None]"
  have src: "?arr ! (length ws + length gap) = Some z"
    using nth_append_middle [of "map Some ws @ gap" "Some z" "map Some zs @ [None]"] by simp
  have upd: "?arr[length ws := Some z] =
      map Some (ws @ [z]) @ (gap' @ [Some z]) @ map Some zs @ [None]"
    using list_update_middle [of "map Some ws"] g by simp
  have step: "slots_shift_down ?arr (length ws + length gap) (length ws) =
      slots_shift_down (map Some (ws @ [z]) @ (gap' @ [Some z]) @ map Some zs @ [None])
        (length (ws @ [z]) + length (gap' @ [Some z])) (length (ws @ [z]))"
    unfolding slots_shift_down.simps [of ?arr] src option.case upd using g by simp
  show ?case
    unfolding step using Cons.IH [of "gap' @ [Some z]" "ws @ [z]"] by simp
qed

section \<open>Searching\<close>

text \<open>\<^verbatim>\<open>strstr(hay, needle) != NULL\<close>.\<close>

fun strstr_hit :: "cstring \<Rightarrow> cstring \<Rightarrow> bool" where
  "strstr_hit hay needle =
     (take (length needle) hay = needle \<or>
      (case hay of [] \<Rightarrow> False | _ # r \<Rightarrow> strstr_hit r needle))"

declare strstr_hit.simps [simp del]

fun index_loop :: "(cstring \<Rightarrow> bool) \<Rightarrow> cstring list \<Rightarrow> int \<Rightarrow> int" where
  "index_loop p [] i = -1"
| "index_loop p (x # xs) i = (if p x then i else index_loop p xs (i + 1))"

definition CSLFindString :: "csl \<Rightarrow> cstring \<Rightarrow> int" where
  "CSLFindString papszList pszTarget =
     (case papszList of None \<Rightarrow> -1 | Some xs \<Rightarrow> index_loop (\<lambda>x. EQUAL x pszTarget) xs 0)"

definition CSLPartialFindString :: "csl \<Rightarrow> cstring option \<Rightarrow> int" where
  "CSLPartialFindString papszHaystack pszNeedle =
     (case (papszHaystack, pszNeedle) of
        (Some xs, Some n) \<Rightarrow> index_loop (\<lambda>x. strstr_hit x n) xs 0
      | _ \<Rightarrow> -1)"

text \<open>What the index loops return: the first position that satisfies the test, or -1.\<close>

lemma index_loop_cases:
  assumes "0 \<le> i"
  shows "(index_loop p xs i = -1 \<and> (\<forall>x \<in> set xs. \<not> p x)) \<or>
    (\<exists>n < length xs. index_loop p xs i = i + int n \<and> p (xs ! n) \<and> (\<forall>m < n. \<not> p (xs ! m)))"
  using assms
proof (induction xs arbitrary: i)
  case Nil
  then show ?case by simp
next
  case (Cons x xs)
  show ?case
  proof (cases "p x")
    case True
    then show ?thesis by (intro disjI2 exI [of _ 0]) simp
  next
    case False
    from Cons.IH [of "i + 1"] Cons.prems consider
      "index_loop p xs (i + 1) = -1" "\<forall>x \<in> set xs. \<not> p x"
      | n where "n < length xs" "index_loop p xs (i + 1) = i + 1 + int n" "p (xs ! n)"
          "\<forall>m < n. \<not> p (xs ! m)"
      by auto
    then show ?thesis
    proof cases
      case 1
      with False show ?thesis by simp
    next
      case 2
      then have "\<forall>m < Suc n. \<not> p ((x # xs) ! m)"
        using False by (auto simp: less_Suc_eq_0_disj)
      with 2 False show ?thesis by (intro disjI2 exI [of _ "Suc n"]) simp
    qed
  qed
qed

section \<open>Name and value pairs\<close>

definition sep_char :: "char \<Rightarrow> bool" where
  "sep_char c = (c = CHR ''='' \<or> c = CHR '':'')"

text \<open>The test of every routine of this group: the entry starts with the name, up to case, and
  \<open>=\<close> or \<open>:\<close> follows.\<close>

definition nv_match :: "cstring \<Rightarrow> cstring \<Rightarrow> bool" where
  "nv_match entry name =
     (EQUALN entry name (length name) \<and>
      (case char_at entry (length name) of Some c \<Rightarrow> sep_char c | None \<Rightarrow> False))"

fun CSLFetchNameValue_loop :: "cstring list \<Rightarrow> cstring \<Rightarrow> cstring option" where
  "CSLFetchNameValue_loop [] pszName = None"
| "CSLFetchNameValue_loop (x # xs) pszName =
     (if nv_match x pszName then Some (drop (length pszName + 1) x)
      else CSLFetchNameValue_loop xs pszName)"

definition CSLFetchNameValue :: "csl \<Rightarrow> cstring option \<Rightarrow> cstring option" where
  "CSLFetchNameValue papszStrList pszName =
     (case (papszStrList, pszName) of
        (Some xs, Some n) \<Rightarrow> CSLFetchNameValue_loop xs n
      | _ \<Rightarrow> None)"

definition CSLFindName :: "csl \<Rightarrow> cstring option \<Rightarrow> int" where
  "CSLFindName papszStrList pszName =
     (case (papszStrList, pszName) of
        (Some xs, Some n) \<Rightarrow> index_loop (\<lambda>x. nv_match x n) xs 0
      | _ \<Rightarrow> -1)"

fun CSLFetchNameValueMultiple_loop :: "cstring list \<Rightarrow> cstring \<Rightarrow> csl \<Rightarrow> csl" where
  "CSLFetchNameValueMultiple_loop [] pszName papszValues = papszValues"
| "CSLFetchNameValueMultiple_loop (x # xs) pszName papszValues =
     CSLFetchNameValueMultiple_loop xs pszName
       (if nv_match x pszName then CSLAddString papszValues (Some (drop (length pszName + 1) x))
        else papszValues)"

definition CSLFetchNameValueMultiple :: "csl \<Rightarrow> cstring option \<Rightarrow> csl" where
  "CSLFetchNameValueMultiple papszStrList pszName =
     (case (papszStrList, pszName) of
        (Some xs, Some n) \<Rightarrow> CSLFetchNameValueMultiple_loop xs n None
      | _ \<Rightarrow> None)"

definition CSLAddNameValue :: "csl \<Rightarrow> cstring option \<Rightarrow> cstring option \<Rightarrow> csl" where
  "CSLAddNameValue papszStrList pszName pszValue =
     (case (pszName, pszValue) of
        (Some n, Some v) \<Rightarrow> CSLAddString papszStrList (Some (n @ ''='' @ v))
      | _ \<Rightarrow> papszStrList)"

text \<open>The walk of \<open>CSLSetNameValue\<close>: \<open>None\<close> when no entry matches, otherwise the list with the
  first match rewritten (keeping its separator) or closed up over.\<close>

fun CSLSetNameValue_loop ::
    "cstring list \<Rightarrow> cstring \<Rightarrow> cstring option \<Rightarrow> cstring list option" where
  "CSLSetNameValue_loop [] pszName pszValue = None"
| "CSLSetNameValue_loop (x # xs) pszName pszValue =
     (if nv_match x pszName
      then Some (case pszValue of
                   None \<Rightarrow> xs
                 | Some v \<Rightarrow> (pszName @ [x ! length pszName] @ v) # xs)
      else map_option (Cons x) (CSLSetNameValue_loop xs pszName pszValue))"

definition CSLSetNameValue :: "csl \<Rightarrow> cstring option \<Rightarrow> cstring option \<Rightarrow> csl" where
  "CSLSetNameValue papszList pszName pszValue =
     (case pszName of
        None \<Rightarrow> papszList
      | Some n \<Rightarrow>
          (case CSLSetNameValue_loop (csl_items papszList) n pszValue of
             Some xs \<Rightarrow> Some xs
           | None \<Rightarrow>
               (if pszValue = None then papszList
                else CSLAddNameValue papszList pszName pszValue)))"

definition blank :: "char \<Rightarrow> bool" where
  "blank c = (c = CHR '' '' \<or> c = CHR 0x09)"

fun sep_index :: "cstring \<Rightarrow> nat \<Rightarrow> nat option" where
  "sep_index [] i = None"
| "sep_index (c # cs) i = (if sep_char c then Some i else sep_index cs (Suc i))"

text \<open>The loop that is to trim the key starts at the NUL the routine has just stored.\<close>

fun key_trim_loop :: "cstring \<Rightarrow> nat \<Rightarrow> cstring" where
  "key_trim_loop buf 0 = buf"
| "key_trim_loop buf (Suc i) =
     (if blank (buf ! Suc i) then key_trim_loop (buf[Suc i := NUL]) i else buf)"

text \<open>The result: the value pointer (\<open>None\<close> for NULL) and the key stored through \<open>ppszKey\<close>.\<close>

definition CPLParseNameValue :: "cstring \<Rightarrow> (cstring \<times> cstring) option" where
  "CPLParseNameValue pszNameValue =
     (case sep_index pszNameValue 0 of
        None \<Rightarrow> None
      | Some i \<Rightarrow>
          let pszValue = dropWhile blank (drop (i + 1) pszNameValue);
              buf = key_trim_loop (take i pszNameValue @ [NUL]) i
          in Some (pszValue, takeWhile (\<lambda>c. c \<noteq> NUL) buf))"

fun CSLMerge_loop :: "csl \<Rightarrow> cstring list \<Rightarrow> csl" where
  "CSLMerge_loop papszOrig [] = papszOrig"
| "CSLMerge_loop papszOrig (x # xs) =
     CSLMerge_loop
       (case CPLParseNameValue x of
          None \<Rightarrow> CSLSetNameValue papszOrig None None
        | Some (pszValue, pszKey) \<Rightarrow> CSLSetNameValue papszOrig (Some pszKey) (Some pszValue)) xs"

definition CSLMerge :: "csl \<Rightarrow> csl \<Rightarrow> csl" where
  "CSLMerge papszOrig papszOverride =
     (case papszOverride of
        None \<Rightarrow> papszOrig
      | Some xs \<Rightarrow>
          (if papszOrig = None then CSLDuplicate papszOverride else CSLMerge_loop papszOrig xs))"

definition CSLSetNameValueSeparator :: "csl \<Rightarrow> cstring \<Rightarrow> csl" where
  "CSLSetNameValueSeparator papszList pszSeparator =
     map_option (map (\<lambda>line. case CPLParseNameValue line of
                          None \<Rightarrow> line
                        | Some (pszValue, pszKey) \<Rightarrow> pszKey @ pszSeparator @ pszValue)) papszList"

definition CSLTestBoolean :: "cstring \<Rightarrow> bool" where
  "CSLTestBoolean pszValue =
     (\<not> (EQUAL pszValue ''NO'' \<or> EQUAL pszValue ''FALSE'' \<or> EQUAL pszValue ''OFF''
         \<or> EQUAL pszValue ''0''))"

definition CSLFetchBoolean :: "csl \<Rightarrow> cstring \<Rightarrow> bool \<Rightarrow> bool" where
  "CSLFetchBoolean papszStrList pszKey bDefault =
     (if CSLFindString papszStrList pszKey \<noteq> -1 then True
      else case CSLFetchNameValue papszStrList (Some pszKey) of
             None \<Rightarrow> bDefault
           | Some pszValue \<Rightarrow> CSLTestBoolean pszValue)"

end
