(* ===== verification/Name_Value_Store.thy ===== *)
theory Name_Value_Store
  imports Main
begin

text \<open>
  The contract the clients of a name/value container rely on: what a lookup returns after a
  store, and that a store keeps the container's invariant.  Storing \<open>None\<close> removes.  Two
  containers of the program honour it: a string list of \<open>NAME=VALUE\<close> entries
  (theory \<open>Csl_Facts\<close>) and the metadata of a dataset or band, keyed by domain and name
  (theory \<open>Multi_Domain_Facts\<close>).
\<close>

locale name_value_store =
  fixes get :: "'s \<Rightarrow> 'k \<Rightarrow> 'v option"
    and put :: "'s \<Rightarrow> 'k \<Rightarrow> 'v option \<Rightarrow> 's"
    and same_key :: "'k \<Rightarrow> 'k \<Rightarrow> bool"
    and valid_key :: "'k \<Rightarrow> bool"
    and ok :: "'s \<Rightarrow> bool"
  assumes same_key_refl: "same_key k k"
    and same_key_sym: "same_key k k' \<Longrightarrow> same_key k' k"
    and same_key_trans: "same_key k k' \<Longrightarrow> same_key k' k'' \<Longrightarrow> same_key k k''"
    and get_put: "ok s \<Longrightarrow> valid_key k \<Longrightarrow> valid_key k' \<Longrightarrow>
          get (put s k v) k' = (if same_key k k' then v else get s k')"
    and ok_put: "ok s \<Longrightarrow> valid_key k \<Longrightarrow> ok (put s k v)"
begin

lemma last_put_wins:
  "ok s \<Longrightarrow> valid_key k \<Longrightarrow> valid_key k' \<Longrightarrow> get (put (put s k v) k w) k' = get (put s k w) k'"
  by (simp add: get_put ok_put)

lemma puts_commute:
  assumes "ok s" and "valid_key k" and "valid_key k'" and "valid_key x" and "\<not> same_key k k'"
  shows "get (put (put s k v) k' w) x = get (put (put s k' w) k v) x"
proof -
  have "\<not> (same_key k x \<and> same_key k' x)"
    using assms(5) same_key_sym same_key_trans by blast
  with assms show ?thesis by (auto simp: get_put ok_put)
qed

text \<open>Storing a sequence of pairs: the invariant is kept and the last pair with the key wins.\<close>

lemma ok_put_all:
  "ok s \<Longrightarrow> \<forall>(k, v) \<in> set kvs. valid_key k \<Longrightarrow> ok (fold (\<lambda>(k, v) s. put s k v) kvs s)"
  by (induction kvs arbitrary: s) (auto simp: ok_put)

lemma get_put_all:
  assumes "ok s" and "\<forall>(k, v) \<in> set kvs. valid_key k" and "valid_key x"
  shows "get (fold (\<lambda>(k, v) s. put s k v) kvs s) x =
    (case find (\<lambda>(k, v). same_key k x) (rev kvs) of None \<Rightarrow> get s x | Some (k, v) \<Rightarrow> v)"
  using assms
proof (induction kvs rule: rev_induct)
  case Nil
  then show ?case by simp
next
  case (snoc kv kvs)
  obtain k v where kv: "kv = (k, v)" by fastforce
  have "ok (fold (\<lambda>(k, v) s. put s k v) kvs s)"
    using snoc.prems by (intro ok_put_all) auto
  with snoc kv show ?case by (auto simp: get_put)
qed

end

end
