(* ===== verification/Csl_Facts.thy ===== *)
theory Csl_Facts
  imports Csl Name_Value_Store
begin

text \<open>
  What the string list routines do: insertion and removal against the list they denote, and the
  \<open>NAME=VALUE\<close> entries as a name/value store, by an interpretation of the locale
  \<open>name_value_store\<close> on \<open>CSLFetchNameValue\<close> and \<open>CSLSetNameValue\<close>.
\<close>

section \<open>Insertion and removal\<close>

lemma CSLInsertStrings_Some:
  assumes "ys \<noteq> []" and "n \<le> length (csl_items l)"
  shows "CSLInsertStrings l (int n) (Some ys) =
    Some (Some (take n (csl_items l) @ ys @ drop n (csl_items l)))"
proof -
  obtain arr1 where arr1: "slots_shift_up (slots_of (csl_items l) @ replicate (length ys) None)
      (int (length (csl_items l))) (int (length (csl_items l) + length ys))
      (length (csl_items l) - n + 1) = Some arr1"
    and res: "strings_of (slots_store arr1 n ys) = take n (csl_items l) @ ys @ drop n (csl_items l)"
    using insert_slots [OF assms(2), of ys] by blast
  have "nat (int (length (csl_items l)) - int n + 1) = length (csl_items l) - n + 1"
    using assms(2) by simp
  then show ?thesis
    using arr1 res assms by (simp add: CSLInsertStrings_def Let_def)
qed

text \<open>
  C28.  \<open>CSLInsertStrings\<close> never leaves its array and, for every position the documentation
  allows (-1 or at least 0, positions past the end meaning the end), returns the strings before
  the position, the new strings in order, and the strings from the position on.
\<close>

theorem CSLInsertStrings_inserts:
  assumes "ys \<noteq> []" and "-1 \<le> at"
  shows "CSLInsertStrings l at (Some ys) =
    (let xs = csl_items l;
         n = (if at = -1 \<or> at > int (length xs) then length xs else nat at)
     in Some (Some (take n xs @ ys @ drop n xs)))"
proof (cases "at = -1 \<or> at > int (length (csl_items l))")
  case True
  then have "CSLInsertStrings l at (Some ys) =
      CSLInsertStrings l (int (length (csl_items l))) (Some ys)"
    by (auto simp: CSLInsertStrings_def Let_def)
  with True assms(1) show ?thesis
    by (auto simp: CSLInsertStrings_Some Let_def)
next
  case False
  then obtain n where "at = int n" and "n \<le> length (csl_items l)"
    using assms(2) by (intro that [of "nat at"]) auto
  with CSLInsertStrings_Some [OF assms(1) this(2)] show ?thesis
    by (simp add: Let_def)
qed

theorem CSLInsertStrings_inserts_witness:
  "CSLInsertStrings (Some [''a'', ''b'']) 1 (Some [''x'', ''y'']) =
     Some (Some [''a'', ''x'', ''y'', ''b''])"
  using CSLInsertStrings_inserts [of "[''x'', ''y'']" 1 "Some [''a'', ''b'']"] by (simp add: Let_def)

lemma CSLRemoveStrings_ret:
  assumes "0 < num" and "first + num \<le> length xs" and "num < length xs"
  shows "CSLRemoveStrings (Some xs) (int first) (int num) True =
    Some (Some (take first xs @ drop (first + num) xs), Some (take num (drop first xs)), [])"
proof -
  let ?gap = "replicate num (None :: cstring option)"
  have out: "slots_take_out (slots_of xs) (int first) num =
      Some (map Some (take first xs) @ ?gap @ map Some (drop (first + num) xs) @ [None],
            map Some (take num (drop first xs)))"
    using slots_take_out_eq [of first num "slots_of xs"] assms
    by (simp add: slots_of_def take_map drop_map)
  obtain arr2 where arr2: "slots_shift_down
      (map Some (take first xs) @ ?gap @ map Some (drop (first + num) xs) @ [None])
      (length (take first xs) + length ?gap) (length (take first xs)) = Some arr2"
    and res: "strings_of arr2 = take first xs @ drop (first + num) xs"
    using slots_shift_down_eq [of ?gap "take first xs" "drop (first + num) xs"] assms by auto
  have len: "length (take first xs) = first" using assms by simp
  have out': "strings_of (map Some (take num (drop first xs)) @ [None]) = take num (drop first xs)"
    by (rule strings_of_append_None)
  show ?thesis
    using assms arr2 res out out' unfolding len
    by (cases "xs = []") (simp_all add: CSLRemoveStrings_def Let_def nat_int_add)
qed

lemma CSLRemoveStrings_free:
  assumes "0 < num" and "first + num \<le> length xs" and "num < length xs"
  shows "CSLRemoveStrings (Some xs) (int first) (int num) False =
    Some (Some (take first xs @ drop (first + num) xs), None, [xs ! first])"
proof -
  define gap where "gap = None # map Some (take (num - 1) (drop (Suc first) xs))"
  have lt: "first < length xs" using assms by simp
  have "slots_of xs = map Some (take first xs) @ Some (xs ! first) #
      map Some (take (num - 1) (drop (Suc first) xs)) @ map Some (drop (first + num) xs) @ [None]"
  proof -
    have "xs = take first xs @ xs ! first # drop (Suc first) xs"
      using lt by (metis id_take_nth_drop)
    moreover have "drop (Suc first) xs =
        take (num - 1) (drop (Suc first) xs) @ drop (first + num) xs"
      using assms(1) append_take_drop_id [of "num - 1" "drop (Suc first) xs"]
      by (simp add: add.commute)
    ultimately show ?thesis
      by (metis slots_of_def map_append list.map(2) append_assoc append_Cons)
  qed
  then have upd: "(slots_of xs)[first := None] =
      map Some (take first xs) @ gap @ map Some (drop (first + num) xs) @ [None]"
    using list_update_middle [of "map Some (take first xs)"] lt by (simp add: gap_def)
  have freed: "slots_free_at (slots_of xs) (int first) num =
      Some (map Some (take first xs) @ gap @ map Some (drop (first + num) xs) @ [None], [xs ! first])"
    unfolding upd [symmetric] using lt assms(1)
    by (intro slots_free_at_eq) (simp_all add: slots_of_def nth_append)
  obtain arr2 where arr2: "slots_shift_down
      (map Some (take first xs) @ gap @ map Some (drop (first + num) xs) @ [None])
      (length (take first xs) + length gap) (length (take first xs)) = Some arr2"
    and res: "strings_of arr2 = take first xs @ drop (first + num) xs"
    using slots_shift_down_eq [of gap "take first xs" "drop (first + num) xs"] by (auto simp: gap_def)
  have len: "length (take first xs) = first" "length gap = num" using assms by (simp_all add: gap_def)
  show ?thesis
    using assms arr2 res freed unfolding len
    by (cases "xs = []") (simp_all add: CSLRemoveStrings_def Let_def nat_int_add)
qed

text \<open>
  C29.  Removing the strings just inserted, at any position from 0 to the length of the list,
  gives back both lists when the list they were inserted into is not empty: the original one and,
  as the caller asks for the removed strings, the inserted one, so that nothing is lost, duplicated
  or reordered by the two in-place moves.  When it is empty, all the strings are removed, and the
  call destroys them: it returns NULL and does not set \<^verbatim>\<open>*ppapszRetStrings\<close>.
\<close>

theorem CSLRemoveStrings_undoes_insert:
  assumes "ys \<noteq> []" and "n \<le> length xs"
    and "CSLInsertStrings (Some xs) (int n) (Some ys) = Some l"
  shows "CSLRemoveStrings l (int n) (int (length ys)) True =
    Some (if xs = [] then (None, None, ys) else (Some xs, Some ys, []))"
proof -
  have l: "l = Some (take n xs @ ys @ drop n xs)"
    using assms CSLInsertStrings_Some [of ys n "Some xs"] by simp
  show ?thesis
  proof (cases "xs = []")
    case True
    with l assms(1) show ?thesis by (cases ys) (simp_all add: CSLRemoveStrings_def CSLCount_def)
  next
    case False
    then have "CSLRemoveStrings (Some (take n xs @ ys @ drop n xs)) (int n) (int (length ys)) True =
        Some (Some (take n (take n xs @ ys @ drop n xs) @
                    drop (n + length ys) (take n xs @ ys @ drop n xs)),
              Some (take (length ys) (drop n (take n xs @ ys @ drop n xs))), [])"
      using assms by (subst CSLRemoveStrings_ret) auto
    with False l assms(2) show ?thesis by simp
  qed
qed

theorem CSLRemoveStrings_undoes_insert_witness:
  "CSLRemoveStrings (Some [''a'', ''x'', ''y'', ''b'']) 1 2 True =
     Some (Some [''a'', ''b''], Some [''x'', ''y''], [])"
  using CSLRemoveStrings_undoes_insert [of "[''x'', ''y'']" 1 "[''a'', ''b'']"]
    CSLInsertStrings_Some [of "[''x'', ''y'']" 1 "Some [''a'', ''b'']"] by simp

text \<open>
  The documentation of \<open>CSLRemoveStrings\<close> says that -1 as the first line removes the last
  strings.  The routine normalises the index only after it has walked from it, so for every list
  of which some strings stay it reads and frees the slot before the array.
\<close>

theorem CSLRemoveStrings_minus_one_faults:
  assumes "0 < num" and "num < length xs"
  shows "CSLRemoveStrings (Some xs) (-1) (int num) ret = None"
proof -
  have "slots_take_out (slots_of xs) (-1) num = None" "slots_free_at (slots_of xs) (-1) num = None"
    using assms(1) by (cases num; simp)+
  with assms show ?thesis by (cases "xs = []") (simp_all add: CSLRemoveStrings_def Let_def)
qed

theorem CSLRemoveStrings_minus_one_faults_witness:
  "CSLRemoveStrings (Some [''a'', ''b'', ''c'']) (-1) 1 False = None"
  using CSLRemoveStrings_minus_one_faults [of 1 "[''a'', ''b'', ''c'']" False] by simp

text \<open>
  When the caller does not ask for the removed strings, \<open>CSLRemoveStrings\<close> shortens the list
  as it should but frees the first of the removed strings only: the pointer of the freeing loop
  does not advance, and the other removed strings are overwritten in the array without being
  freed.
\<close>

theorem CSLRemoveStrings_frees_first_only:
  assumes "0 < num" and "first + num \<le> length xs" and "num < length xs"
  shows "CSLRemoveStrings (Some xs) (int first) (int num) False =
    Some (Some (take first xs @ drop (first + num) xs), None, [xs ! first])"
  using assms by (rule CSLRemoveStrings_free)

theorem CSLRemoveStrings_frees_first_only_witness:
  "CSLRemoveStrings (Some [''a'', ''b'', ''c'', ''d'']) 1 2 False = Some (Some [''a'', ''d''], None, [''b''])"
  using CSLRemoveStrings_frees_first_only [of 2 1 "[''a'', ''b'', ''c'', ''d'']"] by simp

section \<open>The entries as a name/value store\<close>

definition has_sep :: "cstring \<Rightarrow> bool" where
  "has_sep e = (\<exists>c \<in> set e. sep_char c)"

definition entry_key :: "cstring \<Rightarrow> cstring" where
  "entry_key e = takeWhile (\<lambda>c. \<not> sep_char c) e"

definition entry_value :: "cstring \<Rightarrow> cstring" where
  "entry_value e = tl (dropWhile (\<lambda>c. \<not> sep_char c) e)"

text \<open>A usable name: no separator in it.\<close>

definition nv_name :: "cstring \<Rightarrow> bool" where
  "nv_name n = (\<forall>c \<in> set n. \<not> sep_char c)"

text \<open>No two entries with the same name, up to case.\<close>

definition folded_keys :: "cstring list \<Rightarrow> cstring list" where
  "folded_keys xs = map (\<lambda>e. map c_tolower (entry_key e)) (filter has_sep xs)"

definition nv_unique :: "csl \<Rightarrow> bool" where
  "nv_unique l = distinct (folded_keys (csl_items l))"

lemma sep_char_tolower: "sep_char (c_tolower c) \<longleftrightarrow> sep_char c"
proof -
  have "\<not> c_islower CHR ''=''" "\<not> c_islower CHR '':''"
    by (simp_all add: c_islower_def code_of_def)
  moreover have "c_tolower CHR ''='' = CHR ''=''" "c_tolower CHR '':'' = CHR '':''"
    by (simp_all add: c_tolower_def c_isupper_def code_of_def)
  ultimately show ?thesis
    unfolding sep_char_def by (metis c_tolower_eq_nonletter)
qed

lemma EQUAL_nv_name:
  assumes "EQUAL a b"
  shows "nv_name a \<longleftrightarrow> nv_name b"
proof -
  have "nv_name s \<longleftrightarrow> (\<forall>c \<in> set (map c_tolower s). \<not> sep_char c)" for s
    by (auto simp: nv_name_def sep_char_tolower)
  with assms show ?thesis unfolding EQUAL_def by metis
qed

lemma entry_split:
  assumes "has_sep e"
  obtains c where "sep_char c" and "e = entry_key e @ c # entry_value e"
proof -
  from assms have ne: "dropWhile (\<lambda>c. \<not> sep_char c) e \<noteq> []"
    by (auto simp: has_sep_def dropWhile_eq_Nil_conv)
  then obtain c r where r: "dropWhile (\<lambda>c. \<not> sep_char c) e = c # r"
    by (cases "dropWhile (\<lambda>c. \<not> sep_char c) e") auto
  have "sep_char c" using hd_dropWhile [OF ne] r by simp
  moreover have "e = entry_key e @ c # entry_value e"
    using takeWhile_dropWhile_id [of "\<lambda>c. \<not> sep_char c" e] r
    by (simp add: entry_key_def entry_value_def)
  ultimately show thesis by (rule that)
qed

lemma nv_name_entry_key: "nv_name (entry_key e)"
  by (auto simp: nv_name_def entry_key_def dest: set_takeWhileD)

lemma entry_of_pair:
  assumes "nv_name n" and "sep_char c"
  shows "entry_key (n @ c # v) = n" and "entry_value (n @ c # v) = v" and "has_sep (n @ c # v)"
  using assms by (auto simp: entry_key_def entry_value_def has_sep_def nv_name_def
      takeWhile_append dropWhile_append takeWhile_eq_all_conv dropWhile_eq_Nil_conv)

text \<open>The prefix comparison of the code is a comparison of whole names.\<close>

lemma nv_match_iff:
  assumes "nv_name n"
  shows "nv_match e n \<longleftrightarrow> has_sep e \<and> EQUAL (entry_key e) n"
proof
  assume "nv_match e n"
  then obtain c where len: "length n \<le> length e" and eq: "EQUAL (take (length n) e) n"
    and at: "char_at e (length n) = Some c" and c: "sep_char c"
    by (auto simp: nv_match_def EQUALN_length_iff split: option.splits)
  have "c \<noteq> NUL" using c by (auto simp: sep_char_def)
  with at have lt: "length n < length e" and e_n: "e ! length n = c"
    by (auto simp: char_at_def split: if_splits)
  then have e: "e = take (length n) e @ c # drop (Suc (length n)) e"
    by (metis append_take_drop_id Cons_nth_drop_Suc)
  have "nv_name (take (length n) e)" using EQUAL_nv_name [OF eq] assms by simp
  note parts = entry_of_pair [OF this c, of "drop (Suc (length n)) e", unfolded e [symmetric]]
  from parts(1,3) eq show "has_sep e \<and> EQUAL (entry_key e) n" by simp
next
  assume h: "has_sep e \<and> EQUAL (entry_key e) n"
  then obtain k c v where c: "sep_char c" and e: "e = k @ c # v" and k: "k = entry_key e"
    using entry_split by metis
  have eq: "EQUAL k n" using h k by simp
  then have len: "length k = length n" by (rule EQUAL_length)
  have "EQUALN e n (length n)" using eq len by (simp add: e EQUALN_append)
  moreover have "char_at e (length n) = Some c" by (simp add: e char_at_def flip: len)
  ultimately show "nv_match e n" using c by (simp add: nv_match_def)
qed

lemma nv_match_value:
  assumes "nv_name n" and "nv_match e n"
  shows "drop (length n + 1) e = entry_value e"
proof -
  from assms have h: "has_sep e" "EQUAL (entry_key e) n" by (simp_all add: nv_match_iff)
  then obtain k c v where e: "e = k @ c # v" and k: "k = entry_key e" and v: "v = entry_value e"
    using entry_split by metis
  have "length k = length n" using h(2) k EQUAL_length by simp
  then have "drop (length n + 1) e = v" by (simp add: e flip: \<open>length k = length n\<close>)
  with v show ?thesis by simp
qed

lemma nv_match_same_name:
  assumes "nv_name n" and "nv_name n'" and "nv_match e n"
  shows "nv_match e n' \<longleftrightarrow> EQUAL n n'"
  using assms EQUAL_sym EQUAL_trans by (metis nv_match_iff)

lemma nv_match_pair:
  assumes "nv_name n" and "nv_name n'" and "sep_char c"
  shows "nv_match (n @ c # v) n' \<longleftrightarrow> EQUAL n n'"
  using assms by (simp add: nv_match_iff entry_of_pair)

lemma matched_sep: "nv_match e n \<Longrightarrow> sep_char (e ! length n)"
  by (auto simp: nv_match_def char_at_def sep_char_def split: option.splits if_splits)

lemma folded_keys_match:
  assumes "nv_name n"
  shows "(\<exists>e \<in> set xs. nv_match e n) \<longleftrightarrow> map c_tolower n \<in> set (folded_keys xs)"
  using assms by (force simp: folded_keys_def nv_match_iff EQUAL_def image_iff)

lemma fetch_loop_None_iff:
  "CSLFetchNameValue_loop xs n = None \<longleftrightarrow> (\<forall>e \<in> set xs. \<not> nv_match e n)"
  by (induction xs) auto

lemma set_loop_None_iff:
  "CSLSetNameValue_loop xs n w = None \<longleftrightarrow> (\<forall>e \<in> set xs. \<not> nv_match e n)"
  by (induction xs) auto

lemma fetch_loop_append:
  "CSLFetchNameValue_loop (xs @ ys) n =
    (case CSLFetchNameValue_loop xs n of None \<Rightarrow> CSLFetchNameValue_loop ys n | Some v \<Rightarrow> Some v)"
  by (induction xs) auto

lemma fetch_pair:
  assumes "nv_name n" and "nv_name n'" and "sep_char c"
  shows "CSLFetchNameValue_loop ((n @ c # v) # xs) n' =
    (if EQUAL n n' then Some v else CSLFetchNameValue_loop xs n')"
  using assms nv_match_value [OF assms(2), of "n @ c # v"]
  by (simp add: nv_match_pair entry_of_pair)

lemma fetch_after_set_loop:
  assumes n: "nv_name n" and n': "nv_name n'"
    and "CSLSetNameValue_loop xs n (Some v) = Some ys"
  shows "CSLFetchNameValue_loop ys n' =
    (if EQUAL n n' then Some v else CSLFetchNameValue_loop xs n')"
  using assms(3)
proof (induction xs arbitrary: ys)
  case Nil
  then show ?case by simp
next
  case (Cons x xs)
  show ?case
  proof (cases "nv_match x n")
    case True
    with Cons.prems have "ys = (n @ (x ! length n) # v) # xs" by simp
    with True show ?thesis
      using fetch_pair [OF n n' matched_sep [OF True]] nv_match_same_name [OF n n' True]
      by simp
  next
    case False
    with Cons.prems obtain zs where "CSLSetNameValue_loop xs n (Some v) = Some zs" "ys = x # zs"
      by auto
    moreover have "EQUAL n n' \<Longrightarrow> \<not> nv_match x n'"
      using False n n' nv_match_same_name EQUAL_sym by blast
    ultimately show ?thesis using Cons.IH by auto
  qed
qed

lemma fetch_after_remove_loop:
  assumes n: "nv_name n" and n': "nv_name n'" and "distinct (folded_keys xs)"
    and "CSLSetNameValue_loop xs n None = Some ys"
  shows "CSLFetchNameValue_loop ys n' =
    (if EQUAL n n' then None else CSLFetchNameValue_loop xs n')"
  using assms(3,4)
proof (induction xs arbitrary: ys)
  case Nil
  then show ?case by simp
next
  case (Cons x xs)
  show ?case
  proof (cases "nv_match x n")
    case True
    with Cons.prems(2) have ys: "ys = xs" by simp
    from True n have x: "has_sep x" "map c_tolower (entry_key x) = map c_tolower n"
      by (simp_all add: nv_match_iff EQUAL_def)
    with Cons.prems(1) have "map c_tolower n \<notin> set (folded_keys xs)"
      by (simp add: folded_keys_def)
    then have none: "\<forall>e \<in> set xs. \<not> nv_match e n" using folded_keys_match [OF n] by blast
    have "CSLFetchNameValue_loop xs n' = None" if "EQUAL n n'"
      using none that n n' nv_match_same_name EQUAL_sym by (metis fetch_loop_None_iff)
    with ys show ?thesis using nv_match_same_name [OF n n' True] by auto
  next
    case False
    with Cons.prems(2) obtain zs where "CSLSetNameValue_loop xs n None = Some zs" "ys = x # zs"
      by auto
    moreover have "EQUAL n n' \<Longrightarrow> \<not> nv_match x n'"
      using False n n' nv_match_same_name EQUAL_sym by blast
    moreover have "distinct (folded_keys xs)"
      using Cons.prems(1) by (simp add: folded_keys_def split: if_splits)
    ultimately show ?thesis using Cons.IH by auto
  qed
qed

lemma folded_keys_set_loop:
  assumes "nv_name n" and "CSLSetNameValue_loop xs n (Some v) = Some ys"
  shows "folded_keys ys = folded_keys xs"
  using assms(2)
proof (induction xs arbitrary: ys)
  case Nil
  then show ?case by simp
next
  case (Cons x xs)
  show ?case
  proof (cases "nv_match x n")
    case True
    with Cons.prems have "ys = (n @ (x ! length n) # v) # xs" by simp
    with True show ?thesis
      using entry_of_pair [OF assms(1) matched_sep [OF True], of v] nv_match_iff [OF assms(1)]
      by (simp add: folded_keys_def EQUAL_def)
  next
    case False
    with Cons show ?thesis by (auto simp: folded_keys_def)
  qed
qed

lemma folded_keys_remove_loop:
  assumes "CSLSetNameValue_loop xs n None = Some ys"
  shows "distinct (folded_keys xs) \<Longrightarrow> distinct (folded_keys ys) \<and> set (folded_keys ys) \<subseteq> set (folded_keys xs)"
  using assms
proof (induction xs arbitrary: ys)
  case Nil
  then show ?case by simp
next
  case (Cons x xs)
  show ?case
  proof (cases "nv_match x n")
    case True
    with Cons.prems show ?thesis by (auto simp: folded_keys_def)
  next
    case False
    with Cons.prems(2) obtain zs where "CSLSetNameValue_loop xs n None = Some zs" "ys = x # zs"
      by auto
    with Cons show ?thesis by (auto simp: folded_keys_def split: if_splits)
  qed
qed

text \<open>The shape of the list after a store.\<close>

lemma CSLSetNameValue_cases:
  obtains (found) ys where "CSLSetNameValue_loop (csl_items l) n w = Some ys"
      "CSLSetNameValue l (Some n) w = Some ys"
  | (absent) "\<forall>e \<in> set (csl_items l). \<not> nv_match e n" "w = None" "CSLSetNameValue l (Some n) w = l"
  | (added) v where "\<forall>e \<in> set (csl_items l). \<not> nv_match e n" "w = Some v"
      "csl_items (CSLSetNameValue l (Some n) w) = csl_items l @ [n @ CHR ''='' # v]"
proof (cases "CSLSetNameValue_loop (csl_items l) n w")
  case None
  then have "\<forall>e \<in> set (csl_items l). \<not> nv_match e n" by (simp add: set_loop_None_iff)
  with None absent added show thesis
    by (cases w) (simp_all add: CSLSetNameValue_def CSLAddNameValue_def)
next
  case (Some ys)
  then show thesis using found by (simp add: CSLSetNameValue_def)
qed

lemma CSLFetchNameValue_items:
  "CSLFetchNameValue l (Some n) = CSLFetchNameValue_loop (csl_items l) n"
  by (simp add: CSLFetchNameValue_def split: option.split)

lemma CSLFetch_after_Set:
  assumes u: "nv_unique l" and n: "nv_name n" and n': "nv_name n'"
  shows "CSLFetchNameValue (CSLSetNameValue l (Some n) w) (Some n') =
    (if EQUAL n n' then w else CSLFetchNameValue l (Some n'))"
proof (cases rule: CSLSetNameValue_cases [of l n w])
  case (found ys)
  then show ?thesis
    using fetch_after_set_loop [OF n n'] fetch_after_remove_loop [OF n n'] u
    by (cases w) (simp_all add: CSLFetchNameValue_items nv_unique_def)
next
  case absent
  then have "EQUAL n n' \<Longrightarrow> CSLFetchNameValue l (Some n') = None"
    using n n' nv_match_same_name EQUAL_sym by (metis CSLFetchNameValue_items fetch_loop_None_iff)
  with absent show ?thesis by auto
next
  case (added v)
  then have "EQUAL n n' \<Longrightarrow> CSLFetchNameValue_loop (csl_items l) n' = None"
    using n n' nv_match_same_name EQUAL_sym by (metis fetch_loop_None_iff)
  moreover have "CSLFetchNameValue_loop [n @ CHR ''='' # v] n' = (if EQUAL n n' then Some v else None)"
    using fetch_pair [OF n n', of "CHR ''=''" v "[]"] by (simp add: sep_char_def)
  ultimately show ?thesis using added
    by (auto simp: CSLFetchNameValue_items fetch_loop_append split: option.split)
qed

lemma CSLSetNameValue_unique:
  assumes u: "nv_unique l" and n: "nv_name n"
  shows "nv_unique (CSLSetNameValue l (Some n) w)"
proof (cases rule: CSLSetNameValue_cases [of l n w])
  case (found ys)
  then show ?thesis
    using folded_keys_set_loop [OF n] folded_keys_remove_loop u
    by (cases w) (auto simp: nv_unique_def)
next
  case absent
  with u show ?thesis by simp
next
  case (added v)
  then have "map c_tolower n \<notin> set (folded_keys (csl_items l))"
    using folded_keys_match [OF n] by blast
  with added u entry_of_pair [OF n, of "CHR ''=''" v] show ?thesis
    by (simp add: nv_unique_def folded_keys_def sep_char_def)
qed

interpretation csl: name_value_store
  "\<lambda>l n. CSLFetchNameValue l (Some n)" "\<lambda>l n w. CSLSetNameValue l (Some n) w" EQUAL nv_name nv_unique
  by unfold_locales
    (auto simp: CSLFetch_after_Set CSLSetNameValue_unique EQUAL_sym intro: EQUAL_trans)

text \<open>
  C13.  A string list of \<open>NAME=VALUE\<close> entries behaves as a map from names, up to case, to values:
  after \<open>CSLSetNameValue\<close> the name has the value stored (none, if it was removed) and every other
  name the value it had, as long as names hold no separator and occur once.
\<close>

theorem CSL_fetch_after_set:
  assumes "nv_unique l" and "nv_name n" and "nv_name n'"
  shows "CSLFetchNameValue (CSLSetNameValue l (Some n) w) (Some n') =
    (if EQUAL n n' then w else CSLFetchNameValue l (Some n'))"
  using assms by (rule csl.get_put)

theorem CSL_fetch_after_set_witness:
  "CSLFetchNameValue (CSLSetNameValue (Some [''NAME:x'', ''b=2'']) (Some ''name'') (Some ''y'')) (Some ''Name'') = Some ''y''"
proof -
  have "nv_unique (Some [''NAME:x'', ''b=2''])" "nv_name ''name''" "nv_name ''Name''" "EQUAL ''name'' ''Name''"
    by code_simp+
  then show ?thesis using CSL_fetch_after_set by simp
qed

section \<open>Parsing an entry, merging lists\<close>

lemma sep_index_eq:
  "sep_index s i = (if has_sep s then Some (i + length (entry_key s)) else None)"
  by (induction s arbitrary: i) (auto simp: has_sep_def entry_key_def)

lemma CPLParseNameValue_eq:
  assumes "c_string s"
  shows "CPLParseNameValue s =
    (if has_sep s then Some (dropWhile blank (entry_value s), entry_key s) else None)"
proof (cases "has_sep s")
  case True
  then obtain k c v where s: "s = k @ c # v" and k: "k = entry_key s" and v: "v = entry_value s"
    using entry_split by metis
  have at: "sep_index s 0 = Some (length k)" using True k by (simp add: sep_index_eq)
  have "blank NUL = False" by (simp add: blank_def)
  then have "key_trim_loop (k @ [NUL]) (length k) = k @ [NUL]"
    by (cases "length k") (simp_all, metis nth_append_length)
  moreover have "takeWhile (\<lambda>c. c \<noteq> NUL) (k @ [NUL]) = k"
    using assms by (auto simp: s c_string_def takeWhile_append takeWhile_eq_all_conv)
  ultimately show ?thesis
    using True at by (simp add: CPLParseNameValue_def Let_def flip: k v) (simp add: s)
next
  case False
  then show ?thesis by (simp add: CPLParseNameValue_def sep_index_eq)
qed

text \<open>
  \<open>CPLParseNameValue\<close> splits an entry at its first separator and strips the blanks that
  start the value.  The key is returned as it stands: the loop that is to strip the blanks before
  the separator tests the NUL just stored and stops at once, so blanks at the end of a key stay,
  although the documentation says that white space is stripped from around the delimiter.
\<close>

theorem CPLParseNameValue_result:
  assumes "c_string s"
  shows "CPLParseNameValue s =
    (if has_sep s then Some (dropWhile blank (entry_value s), entry_key s) else None)"
  using assms by (rule CPLParseNameValue_eq)

theorem CPLParseNameValue_result_witness:
  "CPLParseNameValue ''key =  v'' = Some (''v'', ''key '')"
proof -
  have "c_string ''key =  v''" "has_sep ''key =  v''" "entry_key ''key =  v'' = ''key ''"
    "dropWhile blank (entry_value ''key =  v'') = ''v''"
    by code_simp+
  then show ?thesis using CPLParseNameValue_result by simp
qed

text \<open>The pairs a list denotes, in order.\<close>

definition parsed_pairs :: "cstring list \<Rightarrow> (cstring \<times> cstring option) list" where
  "parsed_pairs xs =
     map (\<lambda>e. (entry_key e, Some (dropWhile blank (entry_value e)))) (filter has_sep xs)"

lemma CSLMerge_loop_fold:
  assumes "\<forall>e \<in> set xs. c_string e"
  shows "CSLMerge_loop l xs = fold (\<lambda>(k, v) l. CSLSetNameValue l (Some k) v) (parsed_pairs xs) l"
  using assms
  by (induction xs arbitrary: l)
    (simp_all add: parsed_pairs_def CPLParseNameValue_eq CSLSetNameValue_def [of _ None])

lemma find_rev_unique:
  assumes "\<And>a b. a \<in> set xs \<Longrightarrow> b \<in> set xs \<Longrightarrow> P a \<Longrightarrow> P b \<Longrightarrow> a = b"
  shows "find P (rev xs) = find P xs"
proof (cases "find P xs")
  case None
  then have "find P (rev xs) = None" by (simp add: find_None_iff)
  with None show ?thesis by simp
next
  case (Some a)
  then have a: "P a" "a \<in> set xs" by (auto dest: find_SomeD)
  then obtain b where b: "find P (rev xs) = Some b"
    by (cases "find P (rev xs)") (auto simp: find_None_iff)
  then have "P b" "b \<in> set xs" by (auto dest: find_SomeD)
  with a assms Some b show ?thesis by simp
qed

lemma find_parsed_pairs:
  assumes "nv_name x"
  shows "find (\<lambda>(k, v). EQUAL k x) (parsed_pairs xs) =
    map_option (\<lambda>e. (entry_key e, Some (dropWhile blank (entry_value e)))) (find (\<lambda>e. nv_match e x) xs)"
  using assms by (induction xs) (auto simp: parsed_pairs_def nv_match_iff)

lemma CSLFetchNameValue_loop_find:
  assumes "nv_name x"
  shows "CSLFetchNameValue_loop xs x = map_option entry_value (find (\<lambda>e. nv_match e x) xs)"
  using assms nv_match_value by (induction xs) auto

lemma parsed_pairs_unique:
  assumes "distinct (folded_keys xs)" and "p \<in> set (parsed_pairs xs)" and "q \<in> set (parsed_pairs xs)"
    and "EQUAL (fst p) (fst q)"
  shows "p = q"
proof -
  let ?f = "\<lambda>e. map c_tolower (entry_key e)"
  let ?g = "\<lambda>e. (entry_key e, Some (dropWhile blank (entry_value e)))"
  obtain a b where ab: "a \<in> set (filter has_sep xs)" "b \<in> set (filter has_sep xs)" "p = ?g a" "q = ?g b"
    using assms(2,3) unfolding parsed_pairs_def set_map by blast
  have "inj_on ?f (set (filter has_sep xs))"
    using assms(1) unfolding folded_keys_def distinct_map by blast
  moreover have "?f a = ?f b" using assms(4) ab by (simp add: EQUAL_def)
  ultimately have "a = b" using ab(1,2) by (rule inj_onD)
  with ab show ?thesis by simp
qed

text \<open>
  C27.  \<open>CSLMerge\<close> gives the override list precedence: a name the second list assigns has, after
  the merge, the value assigned there (less its leading blanks), and any other name keeps the
  value it had in the first list.
\<close>

theorem CSLMerge_override:
  assumes "nv_unique (Some xs)" and "nv_unique (Some ys)" and "\<forall>e \<in> set ys. c_string e"
    and "nv_name x"
  shows "CSLFetchNameValue (CSLMerge (Some xs) (Some ys)) (Some x) =
    (case CSLFetchNameValue (Some ys) (Some x) of
       None \<Rightarrow> CSLFetchNameValue (Some xs) (Some x)
     | Some v \<Rightarrow> Some (dropWhile blank v))"
proof -
  have valid: "\<forall>(k, v) \<in> set (parsed_pairs ys). nv_name k"
    by (auto simp: parsed_pairs_def nv_name_entry_key)
  have "find (\<lambda>(k, v). EQUAL k x) (rev (parsed_pairs ys)) = find (\<lambda>(k, v). EQUAL k x) (parsed_pairs ys)"
    using assms(2) EQUAL_sym EQUAL_trans
    by (intro find_rev_unique parsed_pairs_unique [of ys]) (auto simp: nv_unique_def)
  then show ?thesis
    using csl.get_put_all [OF assms(1) valid assms(4)] assms(3,4)
    by (simp add: CSLMerge_def CSLMerge_loop_fold find_parsed_pairs CSLFetchNameValue_items
        CSLFetchNameValue_loop_find split: option.split)
qed

theorem CSLMerge_override_witness:
  "CSLFetchNameValue (CSLMerge (Some [''a=1'', ''b=2'']) (Some [''A= 5'', ''c=7''])) (Some ''a'') = Some ''5''"
proof -
  have h: "nv_unique (Some [''a=1'', ''b=2''])" "nv_unique (Some [''A= 5'', ''c=7''])"
    "\<forall>e \<in> set [''A= 5'', ''c=7'']. c_string e" "nv_name ''a''"
    by code_simp+
  have "CSLFetchNameValue (Some [''A= 5'', ''c=7'']) (Some ''a'') = Some '' 5''"
    "dropWhile blank '' 5'' = ''5''"
    by code_simp+
  then show ?thesis using CSLMerge_override [OF h] by simp
qed

end
