(* ===== verification/Codec.thy ===== *)
theory Codec
  imports Main
begin

text \<open>
  The contract of an encoding that works symbol by symbol: the decoder, in front of the code of a
  symbol, returns the symbol and goes on behind it.  The escaping schemes of
  \<open>CPLEscapeString\<close> and the hexadecimal encoding are interpretations (theory
  \<open>Cpl_Escape\<close>).
\<close>

locale symbol_codec =
  fixes enc :: "'a \<Rightarrow> 'b list"
    and dec :: "'b list \<Rightarrow> 'a list option"
    and codable :: "'a \<Rightarrow> bool"
  assumes dec_Nil: "dec [] = Some []"
    and dec_enc: "codable x \<Longrightarrow> dec (enc x @ r) = map_option (Cons x) (dec r)"
begin

lemma dec_concat: "\<forall>x \<in> set xs. codable x \<Longrightarrow> dec (concat (map enc xs)) = Some xs"
  by (induction xs) (simp_all add: dec_Nil dec_enc)

lemma concat_inj:
  "\<forall>x \<in> set xs. codable x \<Longrightarrow> \<forall>x \<in> set ys. codable x \<Longrightarrow>
    concat (map enc xs) = concat (map enc ys) \<Longrightarrow> xs = ys"
  by (metis dec_concat option.inject)

end

end
