(* ===== verification/Cpl_Escape.thy ===== *)
theory Cpl_Escape
  imports Prelude Codec
begin

text \<open>
  Escaping, hexadecimal encoding and the classification of values,
  \<^verbatim>\<open>port/cpl_string.cpp\<close> (\<open>CPLEscapeString\<close> to \<open>CPLGetValueType\<close>).

  The input of \<open>CPLEscapeString\<close> is an array of bytes: its characters are read up to the
  length given, or up to the first NUL.  \<^verbatim>\<open>char\<close> is signed, as on the platforms the
  program is built for.
\<close>

unbundle bit_operations_syntax

section \<open>Escaping\<close>

text \<open>The values of the \<^verbatim>\<open>CPLES_\<close> macros of \<^verbatim>\<open>port/cpl_string.h\<close>.\<close>

abbreviation CPLES_BackslashQuotable :: int where "CPLES_BackslashQuotable \<equiv> 0"
abbreviation CPLES_XML :: int where "CPLES_XML \<equiv> 1"
abbreviation CPLES_URL :: int where "CPLES_URL \<equiv> 2"
abbreviation CPLES_SQL :: int where "CPLES_SQL \<equiv> 3"
abbreviation CPLES_CSV :: int where "CPLES_CSV \<equiv> 4"

text \<open>The C string at the start of an array; \<open>None\<close> when the array holds no NUL.\<close>

definition c_str :: "char list \<Rightarrow> cstring option" where
  "c_str mem = (if NUL \<in> set mem then Some (takeWhile (\<lambda>c. c \<noteq> NUL) mem) else None)"

definition esc_backslash :: "char \<Rightarrow> cstring" where
  "esc_backslash c =
     (if c = NUL then [CHR 0x5C, CHR ''0'']
      else if c = CHR 0x0A then [CHR 0x5C, CHR ''n'']
      else if c = CHR 0x22 then [CHR 0x5C, CHR 0x22]
      else if c = CHR 0x5C then [CHR 0x5C, CHR 0x5C]
      else [c])"

definition esc_xml :: "char \<Rightarrow> cstring" where
  "esc_xml c =
     (if c = CHR ''<'' then ''&lt;''
      else if c = CHR ''>'' then ''&gt;''
      else if c = CHR ''&'' then ''&amp;''
      else if c = CHR 0x22 then ''&quot;''
      else [c])"

definition esc_sql :: "char \<Rightarrow> cstring" where
  "esc_sql c = (if c = CHR 0x27 then [CHR 0x27, CHR 0x27] else [c])"

definition esc_csv :: "char \<Rightarrow> cstring" where
  "esc_csv c =
     (if c = CHR 0x22 then [CHR 0x22, CHR 0x22] else if c = CHR 0x0D then [] else [c])"

definition achHex :: cstring where
  "achHex = ''0123456789ABCDEF''"

fun hex_digits :: "nat \<Rightarrow> nat \<Rightarrow> cstring" where
  "hex_digits 0 n = []"
| "hex_digits (Suc k) n = hex_digits k (n div 16) @ [achHex ! (n mod 16)]"

text \<open>\<^verbatim>\<open>sprintf("%%%02X", c)\<close>: the character is promoted to a signed \<^verbatim>\<open>int\<close> and
  printed as an unsigned one, in eight digits when it is negative.\<close>

definition percent_02X :: "char \<Rightarrow> cstring" where
  "percent_02X c =
     CHR 0x25 #
     (if code_of c < 128 then hex_digits 2 (code_of c)
      else hex_digits 8 (2 ^ 32 - 256 + code_of c))"

definition url_plain :: "char \<Rightarrow> bool" where
  "url_plain c = (c_islower c \<or> c_isupper c \<or> c_isdigit c \<or> c = CHR ''_'')"

text \<open>Storing characters in the output buffer; a store behind its end is a fault.\<close>

definition buf_puts :: "char list \<Rightarrow> nat \<Rightarrow> cstring \<Rightarrow> char list option" where
  "buf_puts buf i s =
     (if i + length s \<le> length buf then Some (take i buf @ s @ drop (i + length s) buf) else None)"

fun esc_url_loop :: "char list \<Rightarrow> char list \<Rightarrow> nat \<Rightarrow> char list option" where
  "esc_url_loop [] buf iOut = buf_puts buf iOut [NUL]"
| "esc_url_loop (c # cs) buf iOut =
     (if url_plain c
      then do { buf' \<leftarrow> buf_puts buf iOut [c]; esc_url_loop cs buf' (iOut + 1) }
      else do { buf' \<leftarrow> buf_puts buf iOut (percent_02X c @ [NUL]); esc_url_loop cs buf' (iOut + 3) })"

text \<open>The loop of the other schemes: what a character becomes is stored behind what is there, and
  \<open>iOut\<close> moves behind it.\<close>

fun esc_loop :: "(char \<Rightarrow> cstring) \<Rightarrow> char list \<Rightarrow> char list \<Rightarrow> nat \<Rightarrow> (char list \<times> nat) option" where
  "esc_loop f [] buf iOut = Some (buf, iOut)"
| "esc_loop f (c # cs) buf iOut = do {
     buf' \<leftarrow> buf_puts buf iOut (f c);
     esc_loop f cs buf' (iOut + length (f c))
   }"

definition esc_string :: "(char \<Rightarrow> cstring) \<Rightarrow> char list \<Rightarrow> char list \<Rightarrow> char list option" where
  "esc_string f bytes buf = do {
     (buf', iOut) \<leftarrow> esc_loop f bytes buf 0;
     buf_puts buf' iOut [NUL]
   }"

text \<open>The CSV scheme: the searches and the plain copy run to the first NUL of the input, the loop
  to the length given.\<close>

definition esc_csv_string :: "char list \<Rightarrow> char list \<Rightarrow> char list \<Rightarrow> char list option" where
  "esc_csv_string pszInput bytes buf = do {
     s \<leftarrow> c_str pszInput;
     (if CHR 0x22 \<notin> set s \<and> CHR '','' \<notin> set s \<and> CHR 0x0A \<notin> set s \<and> CHR 0x0D \<notin> set s
      then buf_puts buf 0 (s @ [NUL])
      else do {
        buf' \<leftarrow> buf_puts buf 0 [CHR 0x22];
        (buf', iOut) \<leftarrow> esc_loop esc_csv bytes buf' 1;
        buf_puts buf' iOut [CHR 0x22, NUL]
      })
   }"

text \<open>The result is what \<open>CPLStrdup\<close> copies: the buffer up to its first NUL.  An unknown scheme
  reports an error and gives the empty string.  The buffer has \<open>6 * nLength + 1\<close> bytes, computed
  in an \<^verbatim>\<open>int\<close>; a length for which that overflows, or a negative one other than -1, does not
  return.\<close>

definition CPLEscapeString :: "char list \<Rightarrow> int \<Rightarrow> int \<Rightarrow> cstring option" where
  "CPLEscapeString pszInput nLength nScheme = do {
     n \<leftarrow> (if nLength = -1 then map_option length (c_str pszInput)
           else if 0 \<le> nLength then Some (nat nLength) else None);
     bytes \<leftarrow> (if n \<le> length pszInput then Some (take n pszInput) else None);
     _ \<leftarrow> (if int (n * 6 + 1) < 2 ^ 31 then Some () else None);
     let pszOutput = replicate (n * 6 + 1) NUL;
     out \<leftarrow>
       (if nScheme = CPLES_BackslashQuotable then esc_string esc_backslash bytes pszOutput
        else if nScheme = CPLES_URL then esc_url_loop bytes pszOutput 0
        else if nScheme = CPLES_XML then esc_string esc_xml bytes pszOutput
        else if nScheme = CPLES_SQL then esc_string esc_sql bytes pszOutput
        else if nScheme = CPLES_CSV then esc_csv_string pszInput bytes pszOutput
        else buf_puts pszOutput 0 [NUL]);
     c_str out
   }"

text \<open>The loops of \<open>CPLUnescapeString\<close>: the bytes they store, in order.  A backslash at the end
  of the input makes the loop step over the terminating NUL: a read out of bounds.\<close>

function unesc_xml :: "cstring \<Rightarrow> cstring" where
  "unesc_xml s =
     (case s of
        [] \<Rightarrow> []
      | c # cs \<Rightarrow>
          (if EQUALN s ''&lt;'' 4 then CHR ''<'' # unesc_xml (drop 4 s)
           else if EQUALN s ''&gt;'' 4 then CHR ''>'' # unesc_xml (drop 4 s)
           else if EQUALN s ''&amp;'' 5 then CHR ''&'' # unesc_xml (drop 5 s)
           else if EQUALN s ''&quot;'' 6 then CHR 0x22 # unesc_xml (drop 6 s)
           else c # unesc_xml cs))"
  by pat_completeness auto
termination
  by (relation "measure length") auto

declare unesc_xml.simps [simp del]

definition hex_value :: "char \<Rightarrow> nat option" where
  "hex_value c =
     (if 65 \<le> code_of c \<and> code_of c \<le> 70 then Some (code_of c - 65 + 10)
      else if 97 \<le> code_of c \<and> code_of c \<le> 102 then Some (code_of c - 97 + 10)
      else if 48 \<le> code_of c \<and> code_of c \<le> 57 then Some (code_of c - 48)
      else None)"

definition hex_or_0 :: "char \<Rightarrow> nat" where
  "hex_or_0 c = (case hex_value c of Some h \<Rightarrow> h | None \<Rightarrow> 0)"

fun unesc_url :: "cstring \<Rightarrow> cstring" where
  "unesc_url [] = []"
| "unesc_url (c # cs) =
     (case (c = CHR 0x25, cs) of
        (True, a # b # r) \<Rightarrow> char_of (16 * hex_or_0 a + hex_or_0 b) # unesc_url r
      | _ \<Rightarrow> (if c = CHR ''+'' then CHR '' '' # unesc_url cs else c # unesc_url cs))"

fun unesc_sql :: "cstring \<Rightarrow> cstring" where
  "unesc_sql [] = []"
| "unesc_sql (c # cs) =
     (case (c = CHR 0x27, cs) of
        (True, d # r) \<Rightarrow> (if d = CHR 0x27 then d # unesc_sql r else c # unesc_sql cs)
      | _ \<Rightarrow> c # unesc_sql cs)"

fun unesc_backslash :: "cstring \<Rightarrow> cstring option" where
  "unesc_backslash [] = Some []"
| "unesc_backslash (c # cs) =
     (if c = CHR 0x5C
      then (case cs of
              [] \<Rightarrow> None
            | d # r \<Rightarrow> map_option
                (Cons (if d = CHR ''n'' then CHR 0x0A else if d = CHR ''0'' then NUL else d))
                (unesc_backslash r))
      else map_option (Cons c) (unesc_backslash cs))"

text \<open>The output buffer is as long as the input with its NUL; every byte is stored at \<open>iOut\<close>, the
  terminating NUL behind the last one.  The result is the bytes in front of it: their number is
  what \<^verbatim>\<open>*pnLength\<close> is set to.\<close>

definition CPLUnescapeString :: "cstring \<Rightarrow> int \<Rightarrow> cstring option" where
  "CPLUnescapeString pszInput nScheme = do {
     let pszOutput = replicate (length pszInput + 1) NUL;
     stored \<leftarrow> (if nScheme = CPLES_XML then Some (unesc_xml pszInput)
                else if nScheme = CPLES_URL then Some (unesc_url pszInput)
                else if nScheme = CPLES_SQL then Some (unesc_sql pszInput)
                else unesc_backslash pszInput);
     (pszOutput, iOut) \<leftarrow> esc_loop (\<lambda>c. [c]) stored pszOutput 0;
     pszOutput \<leftarrow> buf_puts pszOutput iOut [NUL];
     Some (take iOut pszOutput)
   }"

section \<open>Hexadecimal\<close>

type_synonym byte = "8 word"

definition hex_of_byte :: "byte \<Rightarrow> cstring" where
  "hex_of_byte b =
     [achHex ! unat (drop_bit 4 (b AND 0xF0)), achHex ! unat (b AND 0x0F)]"

text \<open>Reading more bytes than the array has is a fault.\<close>

definition CPLBinaryToHex :: "nat \<Rightarrow> byte list \<Rightarrow> cstring option" where
  "CPLBinaryToHex nBytes pabyData =
     (if nBytes \<le> length pabyData
      then Some (concat (map hex_of_byte (take nBytes pabyData))) else None)"

fun CPLHexToBinary :: "cstring \<Rightarrow> byte list" where
  "CPLHexToBinary (a # b # r) =
     (case (hex_value a, hex_value b) of
        (Some h, Some l) \<Rightarrow> (of_nat h * 16 + of_nat l) # CPLHexToBinary r
      | _ \<Rightarrow> [])"
| "CPLHexToBinary _ = []"

section \<open>The type of a value\<close>

datatype CPLValueType = CPL_VALUE_STRING | CPL_VALUE_REAL | CPL_VALUE_INTEGER

record value_scan =
  bFoundDot :: bool
  bFoundExponent :: bool
  bIsLastCharExponent :: bool
  bIsReal :: bool

fun value_loop :: "cstring \<Rightarrow> value_scan \<Rightarrow> CPLValueType" where
  "value_loop [] st = (if bIsReal st then CPL_VALUE_REAL else CPL_VALUE_INTEGER)"
| "value_loop (c # cs) st =
     (if c_isdigit c then value_loop cs (st\<lparr>bIsLastCharExponent := False\<rparr>)
      else if c_isspace c
      then (if dropWhile c_isspace (c # cs) = []
            then (if bIsReal st then CPL_VALUE_REAL else CPL_VALUE_INTEGER)
            else CPL_VALUE_STRING)
      else if c = CHR ''-'' \<or> c = CHR ''+''
      then (if bIsLastCharExponent st then value_loop cs (st\<lparr>bIsLastCharExponent := False\<rparr>)
            else CPL_VALUE_STRING)
      else if c = CHR ''.''
      then (if \<not> bFoundDot st \<and> \<not> bIsLastCharExponent st
            then value_loop cs (st\<lparr>bIsReal := True, bFoundDot := True, bIsLastCharExponent := False\<rparr>)
            else CPL_VALUE_STRING)
      else if c = CHR ''D'' \<or> c = CHR ''d'' \<or> c = CHR ''E'' \<or> c = CHR ''e''
      then (if \<not> bFoundExponent st
            then value_loop cs (st\<lparr>bIsReal := True, bFoundExponent := True, bIsLastCharExponent := True\<rparr>)
            else CPL_VALUE_STRING)
      else CPL_VALUE_STRING)"

definition skip_sign :: "cstring \<Rightarrow> cstring" where
  "skip_sign s =
     (case s of c # cs \<Rightarrow> (if c = CHR ''+'' \<or> c = CHR ''-'' then cs else s) | [] \<Rightarrow> s)"

definition CPLGetValueType :: "cstring option \<Rightarrow> CPLValueType" where
  "CPLGetValueType pszValue =
     (case pszValue of
        None \<Rightarrow> CPL_VALUE_STRING
      | Some s \<Rightarrow>
          value_loop (dropWhile c_isspace (skip_sign s))
            \<lparr>bFoundDot = False, bFoundExponent = False, bIsLastCharExponent = False, bIsReal = False\<rparr>)"

end
