(* ===== verification/Cpl_Escape_Facts.thy ===== *)
theory Cpl_Escape_Facts
  imports Cpl_Escape
begin

text \<open>
  Round trips of the escaping schemes and of the hexadecimal encoding, as interpretations of
  \<open>symbol_codec\<close>; what the URL scheme does to bytes from 128 on; which strings are
  integers for \<open>CPLGetValueType\<close>.
\<close>

section \<open>The codecs\<close>

lemma unesc_xml_Nil [simp]: "unesc_xml [] = []"
  by (simp add: unesc_xml.simps)

lemma c_tolower_amp: "c_tolower c = CHR ''&'' \<longleftrightarrow> c = CHR ''&''"
proof
  show "c_tolower c = CHR ''&'' \<Longrightarrow> c = CHR ''&''"
    by (rule c_tolower_eq_nonletter) (simp_all add: c_islower_def code_of_def)
qed (simp add: c_tolower_def c_isupper_def code_of_def)

lemma unesc_xml_plain: "c \<noteq> CHR ''&'' \<Longrightarrow> unesc_xml (c # r) = c # unesc_xml r"
  using c_tolower_amp [of c] by (subst unesc_xml.simps) (auto simp: EQUALN_def c_tolower_def c_isupper_def code_of_def)

lemma EQUALN_entity:
  "EQUALN (e @ r) f n = EQUALN e f n" if "n \<le> length e"
  using that by (simp add: EQUALN_def)

lemma unesc_xml_entities:
  "unesc_xml (''&lt;'' @ r) = CHR ''<'' # unesc_xml r"
  "unesc_xml (''&gt;'' @ r) = CHR ''>'' # unesc_xml r"
  "unesc_xml (''&amp;'' @ r) = CHR ''&'' # unesc_xml r"
  "unesc_xml (''&quot;'' @ r) = CHR 0x22 # unesc_xml r"
  by (subst unesc_xml.simps, simp add: EQUALN_def c_tolower_def c_isupper_def code_of_def)+

interpretation xml: symbol_codec esc_xml "\<lambda>s. Some (unesc_xml s)" "\<lambda>c. True"
proof unfold_locales
  show "Some (unesc_xml (esc_xml c @ r)) = map_option (Cons c) (Some (unesc_xml r))" for c r
    using unesc_xml_entities unesc_xml_plain [of c] by (simp add: esc_xml_def)
qed simp

interpretation sql: symbol_codec esc_sql "\<lambda>s. Some (unesc_sql s)" "\<lambda>c. True"
  by unfold_locales (simp_all add: esc_sql_def)

interpretation backslash: symbol_codec esc_backslash unesc_backslash "\<lambda>c. True"
  by unfold_locales (simp_all add: esc_backslash_def)

text \<open>What the URL scheme makes of a character.  From 128 on the eight digits of the negative
  \<^verbatim>\<open>int\<close> start with FF, and the rest of them is overwritten.\<close>

definition enc_url :: "char \<Rightarrow> cstring" where
  "enc_url c =
     (if url_plain c then [c]
      else if code_of c < 128 then CHR 0x25 # hex_digits 2 (code_of c)
      else ''%FF'')"

lemma less_16_cases: "(n::nat) < 16 \<Longrightarrow> n \<in> {0,1,2,3,4,5,6,7,8,9,10,11,12,13,14,15}"
  by simp presburger

lemma hex_value_achHex: "n < 16 \<Longrightarrow> hex_value (achHex ! n) = Some n"
  by (drule less_16_cases) (auto simp: achHex_def hex_value_def code_of_def)

lemma hex_digits_2: "hex_digits 2 n = [achHex ! (n div 16 mod 16), achHex ! (n mod 16)]"
  by (simp add: numeral_2_eq_2)

lemma unesc_url_pair:
  assumes "n < 256"
  shows "unesc_url (CHR 0x25 # hex_digits 2 n @ r) = char_of n # unesc_url r"
proof -
  have "hex_or_0 (achHex ! (n div 16 mod 16)) = n div 16" "hex_or_0 (achHex ! (n mod 16)) = n mod 16"
    using assms by (simp_all add: hex_or_0_def hex_value_achHex)
  moreover have "16 * (n div 16) + n mod 16 = n" by simp
  ultimately show ?thesis by (simp add: hex_digits_2)
qed

lemma url_plain_chars: "url_plain c \<Longrightarrow> c \<noteq> CHR 0x25 \<and> c \<noteq> CHR ''+''"
  by (auto simp: url_plain_def c_islower_def c_isupper_def c_isdigit_def code_of_def)

interpretation url: symbol_codec enc_url "\<lambda>s. Some (unesc_url s)" "\<lambda>c. code_of c < 128"
proof unfold_locales
  fix c r
  assume c: "code_of c < 128"
  show "Some (unesc_url (enc_url c @ r)) = map_option (Cons c) (Some (unesc_url r))"
  proof (cases "url_plain c")
    case True
    with url_plain_chars [OF True] show ?thesis by (simp add: enc_url_def)
  next
    case False
    with c unesc_url_pair [of "code_of c" r] show ?thesis by (simp add: enc_url_def)
  qed
qed simp

section \<open>The URL buffer\<close>

lemma hex_digits_all_F: "hex_digits k (16 ^ k - 1) = replicate k (CHR ''F'')"
proof (induction k)
  case (Suc k)
  have "(16::nat) ^ Suc k - 1 = 15 + (16 ^ k - 1) * 16"
    using one_le_power [of "16::nat" k] by (simp add: diff_mult_distrib)
  then have "(16 ^ Suc k - 1) div 16 = (16::nat) ^ k - 1" "(16 ^ Suc k - 1) mod 16 = (15::nat)"
    by (simp_all only: div_mult_self1 mod_mult_self1) simp_all
  moreover have "achHex ! 15 = CHR ''F''" by (simp add: achHex_def)
  ultimately show ?case
    by (simp only: hex_digits.simps Suc replicate_append_same [symmetric] replicate_Suc)
qed simp

lemma hex_digits_8_negative:
  assumes "128 \<le> k" and "k < 256"
  shows "hex_digits 8 (2 ^ 32 - 256 + k) =
    ''FFFFFF'' @ [achHex ! (k div 16 mod 16), achHex ! (k mod 16)]"
proof -
  define m :: nat where "m = 2 ^ 32 - 256 + k"
  have m: "m = k + 268435440 * 16" by (simp add: m_def)
  have d: "m div 16 = k div 16 + 16777215 * 16" unfolding m by simp
  have d2: "m mod 16 = k mod 16" unfolding m by (rule mod_mult_self1)
  have e1: "m div 16 mod 16 = k div 16 mod 16" unfolding d by (rule mod_mult_self1)
  have e2: "m div 16 div 16 = 16777215" unfolding d using assms(2) by simp
  note e = e1 e2
  have F6: "hex_digits 6 16777215 = ''FFFFFF''"
  proof -
    have "(16::nat) ^ 6 - 1 = 16777215" by simp
    moreover have "replicate 6 (CHR ''F'') = ''FFFFFF''" by code_simp
    ultimately show ?thesis using hex_digits_all_F [of 6] by (simp only:)
  qed
  have n8: "(8::nat) = Suc (Suc 6)" by simp
  have "hex_digits 8 m = ''FFFFFF'' @ [achHex ! (k div 16 mod 16), achHex ! (k mod 16)]"
    unfolding n8 hex_digits.simps e d2 F6 by simp
  then show ?thesis by (simp only: m_def)
qed

lemma length_enc_url: "length (enc_url c) \<le> 3"
  by (simp add: enc_url_def hex_digits_2)

lemma percent_02X_cases:
  obtains t where "\<not> url_plain c \<Longrightarrow> percent_02X c = enc_url c @ t" "\<not> url_plain c \<Longrightarrow> length (enc_url c) = 3"
    "length t \<le> 6" "code_of c < 128 \<Longrightarrow> t = []"
proof (cases "code_of c < 128")
  case True
  then show thesis
    by (intro that [of "[]"]) (simp_all add: percent_02X_def enc_url_def hex_digits_2)
next
  case False
  then have k: "128 \<le> code_of c" "code_of c < 256" by (simp_all add: code_of_lt)
  let ?t = "''FFFF'' @ [achHex ! (code_of c div 16 mod 16), achHex ! (code_of c mod 16)]"
  show thesis
    using False hex_digits_8_negative [OF k]
    by (intro that [of ?t]) (simp_all add: percent_02X_def enc_url_def)
qed

lemma buf_puts_Some:
  assumes "i + length s \<le> length buf" and "take i buf = acc" and "s = t @ u"
  shows "\<exists>buf'. buf_puts buf i s = Some buf' \<and> length buf' = length buf \<and>
    take (i + length t) buf' = acc @ t"
  using assms by (auto simp: buf_puts_def)

text \<open>The room every step needs, and what is in the buffer after it.\<close>

lemma esc_url_loop_eq:
  assumes "take i buf = acc" and "i \<le> length buf" and "i + 3 * length cs + 1 \<le> length buf"
    and "\<forall>c \<in> set cs. 128 \<le> code_of c \<longrightarrow> i + 3 * length cs + 7 \<le> length buf"
  shows "\<exists>out. esc_url_loop cs buf i = Some (acc @ concat (map enc_url cs) @ NUL # out)"
  using assms
proof (induction cs arbitrary: buf i acc)
  case Nil
  then show ?case by (simp add: buf_puts_def)
next
  case (Cons c cs)
  let ?s = "if url_plain c then [c] else percent_02X c @ [NUL]"
  obtain t where t: "\<not> url_plain c \<Longrightarrow> percent_02X c = enc_url c @ t"
    "\<not> url_plain c \<Longrightarrow> length (enc_url c) = 3" "length t \<le> 6" "code_of c < 128 \<Longrightarrow> t = []"
    using percent_02X_cases [of c] by blast
  define u where "u = (if url_plain c then [] else t @ [NUL])"
  have s: "?s = enc_url c @ u" using t(1) by (simp add: u_def enc_url_def)
  have len: "length (enc_url c) = (if url_plain c then 1 else 3)" using t(2) by (simp add: enc_url_def)
  have room: "i + length ?s \<le> length buf"
  proof (cases "url_plain c \<or> code_of c < 128")
    case True
    with Cons.prems(3) s len t(4) show ?thesis by (auto simp: u_def)
  next
    case False
    with Cons.prems(4) s len t(3) show ?thesis by (auto simp: u_def)
  qed
  obtain buf' where buf': "buf_puts buf i ?s = Some buf'" "length buf' = length buf"
    "take (i + length (enc_url c)) buf' = acc @ enc_url c"
    using buf_puts_Some [OF room Cons.prems(1) s] by blast
  have "\<exists>out. esc_url_loop cs buf' (i + length (enc_url c)) =
      Some ((acc @ enc_url c) @ concat (map enc_url cs) @ NUL # out)"
    using Cons.prems(2-4) buf'(2,3) len by (intro Cons.IH) (auto split: if_splits)
  moreover have "esc_url_loop (c # cs) buf i = esc_url_loop cs buf' (i + length (enc_url c))"
    using buf'(1) len by (cases "url_plain c") (simp_all add: Let_def)
  ultimately show ?case by simp
qed

lemma enc_url_no_NUL: "NUL \<notin> set (enc_url c)"
proof -
  have "achHex ! n \<noteq> NUL" if "n < 16" for n
    using less_16_cases [OF that] by (auto simp: achHex_def)
  then have "achHex ! (n mod 16) \<noteq> NUL" for n :: nat by simp
  then have "NUL \<notin> set (hex_digits 2 n)" for n by (auto simp: hex_digits_2 dest: sym)
  moreover have "\<not> url_plain NUL"
    by (simp add: url_plain_def c_islower_def c_isupper_def c_isdigit_def code_of_def)
  ultimately show ?thesis by (auto simp: enc_url_def)
qed

lemma c_str_append: "NUL \<notin> set s \<Longrightarrow> c_str (s @ NUL # r) = Some s"
  by (simp add: c_str_def takeWhile_append takeWhile_eq_all_conv)

lemma no_NUL_concat: "\<forall>c \<in> set bs. NUL \<notin> set (f c) \<Longrightarrow> NUL \<notin> set (concat (map f bs))"
  by auto

lemma CPLEscapeString_url:
  assumes "int (length bs * 6 + 1) < 2 ^ 31"
    and "2 \<le> length bs \<or> (\<forall>b \<in> set bs. code_of b < 128)"
  shows "CPLEscapeString (bs @ r) (int (length bs)) CPLES_URL = Some (concat (map enc_url bs))"
proof -
  obtain out where "esc_url_loop bs (replicate (length bs * 6 + 1) NUL) 0 =
      Some ([] @ concat (map enc_url bs) @ NUL # out)"
    using esc_url_loop_eq [of 0 "replicate (length bs * 6 + 1) NUL" "[]" bs] assms(2) by fastforce
  moreover have "c_str (concat (map enc_url bs) @ NUL # out) = Some (concat (map enc_url bs))"
    by (intro c_str_append no_NUL_concat) (simp add: enc_url_no_NUL)
  ultimately show ?thesis using assms(1) by (simp add: CPLEscapeString_def)
qed

section \<open>The buffers of the other schemes\<close>

lemma esc_loop_eq:
  assumes "take i buf = acc" and "i + length (concat (map f cs)) \<le> length buf"
  shows "\<exists>buf'. esc_loop f cs buf i = Some (buf', i + length (concat (map f cs))) \<and>
    length buf' = length buf \<and> take (i + length (concat (map f cs))) buf' = acc @ concat (map f cs)"
  using assms
proof (induction cs arbitrary: buf i acc)
  case (Cons c cs)
  then obtain b where b: "buf_puts buf i (f c) = Some b" "length b = length buf"
    "take (i + length (f c)) b = acc @ f c"
    using buf_puts_Some [of i "f c" buf acc "f c" "[]"] by auto
  from Cons.IH [OF b(3)] Cons.prems(2) b(2) obtain b' where
    "esc_loop f cs b (i + length (f c)) = Some (b', i + length (f c) + length (concat (map f cs)))"
    "length b' = length buf"
    "take (i + length (f c) + length (concat (map f cs))) b' = (acc @ f c) @ concat (map f cs)"
    by auto
  with b(1) show ?case by (simp add: add.assoc)
qed simp

text \<open>A store behind what the loop stored, and the contents of the buffer up to it.\<close>

lemma esc_loop_then_puts:
  assumes "take i buf = acc" and "i + length (concat (map f cs)) + length e \<le> length buf"
  shows "\<exists>r. Option.bind (esc_loop f cs buf i) (\<lambda>(b, j). buf_puts b j e) =
    Some (acc @ concat (map f cs) @ e @ r)"
proof -
  let ?j = "i + length (concat (map f cs))"
  obtain b where b: "esc_loop f cs buf i = Some (b, ?j)" "length b = length buf"
    "take ?j b = acc @ concat (map f cs)"
    using esc_loop_eq [OF assms(1), of f cs] assms(2) by auto
  then have "buf_puts b ?j e = Some (acc @ concat (map f cs) @ e @ drop (?j + length e) b)"
    using assms(2) by (simp add: buf_puts_def)
  with b(1) show ?thesis by auto
qed

lemma length_concat_le:
  "\<forall>c \<in> set cs. length (f c) \<le> k \<Longrightarrow> length (concat (map f cs)) \<le> length cs * k"
  by (induction cs) auto

lemma esc_string_eq:
  assumes "\<forall>c. length (f c) \<le> k" and "length cs * k + 1 \<le> length buf"
  shows "\<exists>r. esc_string f cs buf = Some (concat (map f cs) @ NUL # r)"
proof -
  have "length (concat (map f cs)) \<le> length cs * k" using assms(1) by (intro length_concat_le) simp
  then show ?thesis
    using esc_loop_then_puts [of 0 buf "[]" f cs "[NUL]"] assms(2) by (auto simp: esc_string_def)
qed

lemma length_escapes:
  "length (esc_backslash c) \<le> 6" "length (esc_xml c) \<le> 6" "length (esc_sql c) \<le> 6" "length (esc_csv c) \<le> 2"
  by (simp_all add: esc_backslash_def esc_xml_def esc_sql_def esc_csv_def)

lemma CPLEscapeString_plain:
  assumes "int (length bs * 6 + 1) < 2 ^ 31" and "NUL \<notin> set (concat (map f bs))"
    and "(nScheme, f) \<in> {(CPLES_BackslashQuotable, esc_backslash), (CPLES_XML, esc_xml), (CPLES_SQL, esc_sql)}"
  shows "CPLEscapeString (bs @ r) (int (length bs)) nScheme = Some (concat (map f bs))"
proof -
  have "\<forall>c. length (f c) \<le> 6" using assms(3) length_escapes by auto
  then obtain q where "esc_string f bs (replicate (length bs * 6 + 1) NUL) = Some (concat (map f bs) @ NUL # q)"
    using esc_string_eq [of f 6 bs "replicate (length bs * 6 + 1) NUL"] by auto
  then show ?thesis
    using assms(1,3) c_str_append [OF assms(2), of q] by (auto simp: CPLEscapeString_def)
qed

section \<open>The buffer of the unescaping\<close>

lemma length_unesc_xml: "length (unesc_xml s) \<le> length s"
proof (induction s rule: length_induct)
  case (1 s)
  show ?case
  proof (cases s)
    case (Cons c cs)
    have "length (unesc_xml (drop n s)) \<le> length cs" if "0 < n" for n
    proof -
      have "length (unesc_xml (drop n s)) \<le> length (drop n s)"
        using 1 Cons that by (intro mp [OF spec [OF 1, of "drop n s"]]) simp
      with Cons that show ?thesis by simp
    qed
    from this [of 1] this [of 4] this [of 5] this [of 6] show ?thesis
      unfolding Cons by (subst unesc_xml.simps) (simp split: if_split)
  qed simp
qed

lemma length_unesc_url: "length (unesc_url s) \<le> length s"
proof (induction s rule: length_induct)
  case (1 s)
  then have *: "length (unesc_url t) \<le> length t" if "length t < length s" for t using that by blast
  show ?case
  proof (cases s)
    case (Cons c cs)
    then have "length (unesc_url cs) \<le> length cs" by (intro *) simp
    moreover have "length (unesc_url r) \<le> length r" if "cs = a # b # r" for a b r
      using that Cons by (intro *) simp
    ultimately show ?thesis
      unfolding Cons by (auto split: bool.split list.split intro: le_SucI)
  qed simp
qed

lemma length_unesc_sql: "length (unesc_sql s) \<le> length s"
proof (induction s rule: length_induct)
  case (1 s)
  then have *: "length (unesc_sql t) \<le> length t" if "length t < length s" for t using that by blast
  show ?case
  proof (cases s)
    case (Cons c cs)
    then have "length (unesc_sql cs) \<le> length cs" by (intro *) simp
    moreover have "length (unesc_sql r) \<le> length r" if "cs = d # r" for d r
      using that Cons by (intro *) simp
    ultimately show ?thesis
      unfolding Cons by (auto split: bool.split list.split intro: le_SucI)
  qed simp
qed

lemma length_unesc_backslash: "\<forall>t. unesc_backslash s = Some t \<longrightarrow> length t \<le> length s"
proof (induction s rule: length_induct)
  case (1 s)
  show ?case
  proof (cases s)
    case (Cons c cs)
    have "\<forall>t. unesc_backslash cs = Some t \<longrightarrow> length t \<le> length cs" using 1 Cons by simp
    moreover have "\<forall>t. unesc_backslash r = Some t \<longrightarrow> length t \<le> length r" if "cs = d # r" for d r
      using that 1 Cons by simp
    ultimately show ?thesis
      unfolding Cons by (cases cs) (auto intro: le_SucI)
  qed simp
qed

text \<open>No scheme overruns the buffer: the call gives the bytes its loop stores.\<close>

lemma CPLUnescapeString_eq:
  "CPLUnescapeString s nScheme =
     (if nScheme = CPLES_XML then Some (unesc_xml s)
      else if nScheme = CPLES_URL then Some (unesc_url s)
      else if nScheme = CPLES_SQL then Some (unesc_sql s)
      else unesc_backslash s)"
proof -
  let ?buf = "replicate (length s + 1) NUL"
  have "Option.bind (esc_loop (\<lambda>c. [c]) t ?buf 0)
      (\<lambda>(b, i). Option.bind (buf_puts b i [NUL]) (\<lambda>b'. Some (take i b'))) = Some t"
    if "length t \<le> length s" for t
  proof -
    have "concat (map (\<lambda>c. [c]) t) = t" by (induction t) auto
    then obtain b where "esc_loop (\<lambda>c. [c]) t ?buf 0 = Some (b, length t)" "length b = length s + 1"
      "take (length t) b = t"
      using esc_loop_eq [of 0 ?buf "[]" "\<lambda>c. [c]" t] le_SucI [OF \<open>length t \<le> length s\<close>] by (simp del: replicate.simps) blast
    then show ?thesis using that by (simp add: buf_puts_def)
  qed
  note stored = this
  show ?thesis
  proof (cases "unesc_backslash s")
    case None
    then show ?thesis
      using stored [OF length_unesc_xml] stored [OF length_unesc_url] stored [OF length_unesc_sql]
      by (simp add: CPLUnescapeString_def Let_def)
  next
    case (Some t)
    then have "length t \<le> length s" using length_unesc_backslash by blast
    with Some show ?thesis
      using stored [OF length_unesc_xml] stored [OF length_unesc_url] stored [OF length_unesc_sql] stored [of t]
      by (simp add: CPLUnescapeString_def Let_def)
  qed
qed

text \<open>The bytes a scheme is documented to preserve: any byte in a string constant, any but NUL in
  XML and SQL text; the URL scheme keeps what is below 128.\<close>

definition scheme_accepts :: "int \<Rightarrow> char \<Rightarrow> bool" where
  "scheme_accepts nScheme c =
     (nScheme = CPLES_BackslashQuotable \<or>
      (nScheme = CPLES_XML \<or> nScheme = CPLES_SQL) \<and> c \<noteq> NUL \<or>
      nScheme = CPLES_URL \<and> code_of c < 128)"

text \<open>
  C23.  \<open>CPLUnescapeString\<close> undoes \<open>CPLEscapeString\<close>: the bytes escaped with the backslash, XML,
  URL or SQL scheme come back, with their number, whatever follows them in the input array.  Every
  store of both calls is checked against the buffer: six bytes per input byte and one more are
  enough for the escaped text, and the length of the escaped text and one more for the bytes that
  come back.  The XML and SQL schemes take bytes other than NUL, the URL scheme those below 128.
\<close>

theorem CPLEscape_unescape_roundtrip:
  assumes "0 \<le> nScheme" and "nScheme \<le> 3" and "\<forall>b \<in> set bs. scheme_accepts nScheme b"
    and "int (length bs * 6 + 1) < 2 ^ 31"
  shows "Option.bind (CPLEscapeString (bs @ r) (int (length bs)) nScheme)
           (\<lambda>s. CPLUnescapeString s nScheme) = Some bs"
proof -
  from assms(1,2) consider "nScheme = 0" | "nScheme = 1" | "nScheme = 2" | "nScheme = 3" by linarith
  then show ?thesis
  proof cases
    case 1
    have "NUL \<notin> set (concat (map esc_backslash bs))"
      by (intro no_NUL_concat) (simp add: esc_backslash_def)
    with 1 CPLEscapeString_plain [OF assms(4), of esc_backslash nScheme r] backslash.dec_concat [of bs]
    show ?thesis by (simp add: CPLUnescapeString_eq)
  next
    case 2
    have "NUL \<notin> set (concat (map esc_xml bs))"
      using assms(3) 2 by (intro no_NUL_concat) (auto simp: esc_xml_def scheme_accepts_def)
    with 2 CPLEscapeString_plain [OF assms(4), of esc_xml nScheme r] xml.dec_concat [of bs]
    show ?thesis by (simp add: CPLUnescapeString_eq)
  next
    case 3
    then have "\<forall>b \<in> set bs. code_of b < 128" using assms(3) by (simp add: scheme_accepts_def)
    with 3 CPLEscapeString_url [OF assms(4), of r] url.dec_concat [of bs]
    show ?thesis by (simp add: CPLUnescapeString_eq)
  next
    case 4
    have "NUL \<notin> set (concat (map esc_sql bs))"
      using assms(3) 4 by (intro no_NUL_concat) (auto simp: esc_sql_def scheme_accepts_def)
    with 4 CPLEscapeString_plain [OF assms(4), of esc_sql nScheme r] sql.dec_concat [of bs]
    show ?thesis by (simp add: CPLUnescapeString_eq)
  qed
qed

theorem CPLEscape_unescape_roundtrip_witness:
  "Option.bind (CPLEscapeString (''a<b&'' @ [NUL]) 4 1) (\<lambda>s. CPLUnescapeString s 1) = Some ''a<b&''"
  using CPLEscape_unescape_roundtrip [of 1 "''a<b&''" "[NUL]"] by (simp add: scheme_accepts_def)

text \<open>
  The URL scheme does not keep a byte from 128 on: promoted to a negative \<^verbatim>\<open>int\<close> it is
  printed with eight digits, of which the first two stay, so in an input of two bytes or more
  every such byte becomes \<^verbatim>\<open>%FF\<close>, and escaping a single one writes behind the seven bytes
  allocated for it.
\<close>

theorem CPLEscapeString_url_high_bytes:
  assumes "int (length bs * 6 + 1) < 2 ^ 31" and "bs \<noteq> []" and "\<forall>b \<in> set bs. 128 \<le> code_of b"
  shows "CPLEscapeString (bs @ r) (int (length bs)) CPLES_URL =
    (if length bs = 1 then None else Some (concat (replicate (length bs) ''%FF'')))"
proof (cases "length bs = 1")
  case True
  then obtain b where b: "bs = [b]" by (cases bs) auto
  then have k: "128 \<le> code_of b" "code_of b < 256" using assms(3) by (simp_all add: code_of_lt)
  have "\<not> url_plain b"
  proof -
    have "code_of CHR ''_'' < 128" by (simp add: code_of_def)
    with k show ?thesis
      by (auto simp: url_plain_def c_islower_def c_isupper_def c_isdigit_def)
  qed
  with k b show ?thesis
    using hex_digits_8_negative [OF k] by (simp add: CPLEscapeString_def buf_puts_def percent_02X_def)
next
  case False
  then have "2 \<le> length bs" using assms(2) by (cases bs; cases "tl bs") auto
  moreover have "map enc_url bs = map (\<lambda>_. ''%FF'') bs"
  proof (rule map_cong [OF refl])
    fix b
    assume "b \<in> set bs"
    with assms(3) have k: "128 \<le> code_of b" by simp
    have "code_of CHR ''_'' < 128" by (simp add: code_of_def)
    with k show "enc_url b = ''%FF''"
      by (auto simp: enc_url_def url_plain_def c_islower_def c_isupper_def c_isdigit_def)
  qed
  ultimately show ?thesis
    using CPLEscapeString_url [OF assms(1)] False by (simp add: map_replicate_const)
qed

theorem CPLEscapeString_url_high_bytes_witness:
  "CPLEscapeString [CHR 0xE9, CHR 0xE8, NUL] 2 CPLES_URL = Some ''%FF%FF''"
  using CPLEscapeString_url_high_bytes [of "[CHR 0xE9, CHR 0xE8]" "[NUL]"]
  by (simp add: code_of_def numeral_2_eq_2)

section \<open>Hexadecimal\<close>

lemma and_15_mod: "(n::nat) AND 15 = n mod 16"
proof -
  have "n AND mask 4 = take_bit 4 n" by (simp only: take_bit_eq_mask)
  then show ?thesis by (simp add: mask_eq_exp_minus_1 take_bit_eq_mod)
qed

lemma unat_byte_less: "unat (b :: byte) < 256"
  using unsigned_less [of b, where ?'a = nat] by simp

lemma byte_low: "unat (b AND 0x0F :: byte) = unat b mod 16"
  by (simp only: unsigned_and_eq) (simp add: and_15_mod)

lemma byte_high: "unat (drop_bit 4 (b AND 0xF0 :: byte)) = unat b div 16"
proof -
  have "drop_bit 4 (unat b AND 240) = drop_bit 4 (unat b) AND drop_bit 4 240"
    by (rule drop_bit_and)
  also have "\<dots> = unat b div 16 mod 16" by (simp add: drop_bit_eq_div and_15_mod)
  also have "\<dots> = unat b div 16" using unat_byte_less [of b] by simp
  finally show ?thesis by (simp only: unat_drop_bit_eq unsigned_and_eq) simp
qed

interpretation hex: symbol_codec hex_of_byte "\<lambda>s. Some (CPLHexToBinary s)" "\<lambda>b. True"
proof unfold_locales
  fix b :: byte and r
  have h: "unat b div 16 < 16" using unat_byte_less [of b] by simp
  have hx: "hex_of_byte b = [achHex ! (unat b div 16), achHex ! (unat b mod 16)]"
    by (simp only: hex_of_byte_def byte_low byte_high)
  have "of_nat (unat b div 16) * 16 + of_nat (unat b mod 16) = (of_nat (unat b) :: byte)"
    by (metis (mono_tags) of_nat_add of_nat_mult of_nat_numeral div_mult_mod_eq)
  then show "Some (CPLHexToBinary (hex_of_byte b @ r)) = map_option (Cons b) (Some (CPLHexToBinary r))"
    using h by (simp add: hx hex_value_achHex)
qed simp

text \<open>
  \<open>CPLHexToBinary\<close> undoes \<open>CPLBinaryToHex\<close> on every array of bytes, and the hexadecimal text
  has two digits a byte.
\<close>

theorem CPLHexToBinary_undoes_BinaryToHex:
  "map_option (\<lambda>s. (length s, CPLHexToBinary s)) (CPLBinaryToHex (length bs) (bs @ r)) =
    Some (2 * length bs, bs)"
proof -
  have "length (concat (map hex_of_byte bs)) = 2 * length bs"
    by (induction bs) (simp_all add: hex_of_byte_def)
  then show ?thesis using hex.dec_concat [of bs] by (simp add: CPLBinaryToHex_def)
qed

section \<open>The type of a value\<close>

lemma dropWhile_spaces_digit:
  "c_isdigit c \<Longrightarrow> \<not> c_isspace c"
  by (auto simp: c_isdigit_def c_isspace_def)

lemma value_loop_real: "bIsReal st \<Longrightarrow> value_loop s st \<noteq> CPL_VALUE_INTEGER"
  by (induction s st rule: value_loop.induct) auto

lemma value_loop_integer:
  assumes "\<not> bIsReal st" and "\<not> bIsLastCharExponent st"
  shows "value_loop s st = CPL_VALUE_INTEGER \<longleftrightarrow>
    (\<forall>c \<in> set (dropWhile c_isdigit s). c_isspace c)"
  using assms
proof (induction s arbitrary: st)
  case Nil
  then show ?case by simp
next
  case (Cons c cs)
  have sp: "\<not> c_isspace CHR ''-''" "\<not> c_isspace CHR ''+''" "\<not> c_isspace CHR ''.''"
    by (simp_all add: c_isspace_def code_of_def)
  show ?case
  proof (cases "c_isdigit c")
    case True
    with Cons show ?thesis by simp
  next
    case False
    have "dropWhile c_isspace (c # cs) = [] \<longleftrightarrow> (\<forall>x \<in> set (c # cs). c_isspace x)"
      by (rule dropWhile_eq_Nil_conv)
    with False Cons.prems sp show ?thesis
      by (auto simp: value_loop_real)
  qed
qed

text \<open>
  \<open>CPLGetValueType\<close> calls a string an integer exactly when it is an optional sign, white
  space, digits and white space.  The digits may be missing: the empty string, a lone sign and
  blanks are integers too.
\<close>

theorem CPLGetValueType_integer_iff:
  "CPLGetValueType (Some s) = CPL_VALUE_INTEGER \<longleftrightarrow>
    (\<forall>c \<in> set (dropWhile c_isdigit (dropWhile c_isspace (skip_sign s))). c_isspace c)"
  by (simp add: CPLGetValueType_def value_loop_integer)

theorem CPLGetValueType_integer_iff_witness:
  "CPLGetValueType (Some ''-12 '') = CPL_VALUE_INTEGER \<and> CPLGetValueType (Some ''1 2'') \<noteq> CPL_VALUE_INTEGER"
proof -
  have "\<forall>c \<in> set (dropWhile c_isdigit (dropWhile c_isspace (skip_sign ''-12 ''))). c_isspace c"
    "\<not> (\<forall>c \<in> set (dropWhile c_isdigit (dropWhile c_isspace (skip_sign ''1 2''))). c_isspace c)"
    by code_simp+
  then show ?thesis using CPLGetValueType_integer_iff by blast
qed

end
