(* ===== verification/Csl_Tokenize.thy ===== *)
theory Csl_Tokenize
  imports Csl
begin

text \<open>
  Tokenizing, \<^verbatim>\<open>CSLTokenizeString2\<close> of \<^verbatim>\<open>port/cpl_string.cpp\<close> and its two front ends.

  The token buffer is the list of the characters stored so far and its capacity
  \<open>nTokenMax\<close>, both kept from one token to the next as in the code; a store at or behind the
  capacity is a fault.  The list of tokens has a capacity of its own, \<open>nRetMax\<close>.  Capacities are values of type
  \<^verbatim>\<open>int\<close>; one that wraps around to a negative number is a size that no memory has, and \<open>CPLRealloc\<close>
  ends the program: \<open>None\<close>.
\<close>

section \<open>The flags\<close>

text \<open>The bits of the \<^verbatim>\<open>CSLT_\<close> macros of \<^verbatim>\<open>port/cpl_string.h\<close>.\<close>

abbreviation CSLT_HONOURSTRINGS :: "int \<Rightarrow> bool" where "CSLT_HONOURSTRINGS n \<equiv> bit n 0"
abbreviation CSLT_ALLOWEMPTYTOKENS :: "int \<Rightarrow> bool" where "CSLT_ALLOWEMPTYTOKENS n \<equiv> bit n 1"
abbreviation CSLT_PRESERVEQUOTES :: "int \<Rightarrow> bool" where "CSLT_PRESERVEQUOTES n \<equiv> bit n 2"
abbreviation CSLT_PRESERVEESCAPES :: "int \<Rightarrow> bool" where "CSLT_PRESERVEESCAPES n \<equiv> bit n 3"
abbreviation CSLT_STRIPLEADSPACES :: "int \<Rightarrow> bool" where "CSLT_STRIPLEADSPACES n \<equiv> bit n 4"
abbreviation CSLT_STRIPENDSPACES :: "int \<Rightarrow> bool" where "CSLT_STRIPENDSPACES n \<equiv> bit n 5"

abbreviation QUOTE :: char where "QUOTE \<equiv> CHR 0x22"
abbreviation BACKSLASH :: char where "BACKSLASH \<equiv> CHR 0x5C"

section \<open>One token\<close>

record tok_buf =
  pszToken :: "char list"
  nTokenMax :: int

text \<open>\<^verbatim>\<open>pszToken[nTokenLen++] = c\<close>.\<close>

definition tok_put :: "char \<Rightarrow> tok_buf \<Rightarrow> tok_buf option" where
  "tok_put c b =
     (if int (length (pszToken b)) < nTokenMax b then Some (b\<lparr>pszToken := pszToken b @ [c]\<rparr>) else None)"

text \<open>A capacity after it has been enlarged.\<close>

definition grown :: "int \<Rightarrow> int option" where
  "grown nMax = (let n = to_i32 (nMax * 2 + 10) in if n \<le> 0 then None else Some n)"

definition tok_grow :: "tok_buf \<Rightarrow> tok_buf option" where
  "tok_grow b =
     (if nTokenMax b - 3 \<le> int (length (pszToken b))
      then do { n \<leftarrow> grown (nTokenMax b); Some (b\<lparr>nTokenMax := n\<rparr>) } else Some b)"

text \<open>The character at the pointer after the test for an escape, the rest behind it, and the
  buffer, to which the backslash may have been added.\<close>

definition tok_escape ::
    "int \<Rightarrow> bool \<Rightarrow> char \<Rightarrow> cstring \<Rightarrow> tok_buf \<Rightarrow> (char \<times> cstring \<times> tok_buf) option" where
  "tok_escape nCSLTFlags bInString c cs b =
     (if bInString \<and> c = BACKSLASH
      then (case cs of
              [] \<Rightarrow> Some (c, cs, b)
            | d # r \<Rightarrow>
                (if d = QUOTE \<or> d = BACKSLASH
                 then do {
                        b' \<leftarrow> (if CSLT_PRESERVEESCAPES nCSLTFlags then tok_put c b else Some b);
                        Some (d, r, b')
                      }
                 else Some (c, cs, b)))
      else Some (c, cs, b))"

lemma tok_escape_shorter:
  "tok_escape n i c cs b = Some (d, r, b') \<Longrightarrow> length r \<le> length cs"
  by (auto simp: tok_escape_def split: if_splits list.splits Option.bind_splits)

text \<open>The inner loop: the rest of the input behind the token, \<open>bInString\<close> and the buffer.\<close>

function tok_loop ::
    "int \<Rightarrow> cstring \<Rightarrow> cstring \<Rightarrow> bool \<Rightarrow> bool \<Rightarrow> tok_buf \<Rightarrow> (cstring \<times> bool \<times> tok_buf) option" where
  "tok_loop nCSLTFlags pszDelimiters [] bInString bStartString b = Some ([], bInString, b)"
| "tok_loop nCSLTFlags pszDelimiters (c # cs) bInString bStartString b =
     (if \<not> bInString \<and> c \<in> set pszDelimiters then Some (cs, bInString, b)
      else if CSLT_HONOURSTRINGS nCSLTFlags \<and> c = QUOTE
      then (case (if CSLT_PRESERVEQUOTES nCSLTFlags then tok_put c b else Some b) of
              None \<Rightarrow> None
            | Some b' \<Rightarrow> tok_loop nCSLTFlags pszDelimiters cs (\<not> bInString) bStartString b')
      else (case tok_escape nCSLTFlags bInString c cs b of
              None \<Rightarrow> None
            | Some (d, r, b1) \<Rightarrow>
                (if \<not> bInString \<and> CSLT_STRIPLEADSPACES nCSLTFlags \<and> bStartString \<and> c_isspace d
                 then tok_loop nCSLTFlags pszDelimiters r bInString bStartString b1
                 else (case Option.bind (tok_grow b1) (tok_put d) of
                         None \<Rightarrow> None
                       | Some b2 \<Rightarrow> tok_loop nCSLTFlags pszDelimiters r bInString False b2))))"
  by pat_completeness auto
termination
  by (relation "measure (\<lambda>(n, d, s, i, st, b). length s)")
    (auto dest!: tok_escape_shorter simp: less_Suc_eq_le)

lemma tok_loop_length:
  "tok_loop n d s i st b = Some (r, i', b') \<Longrightarrow> length r \<le> length s - 1"
proof (induction n d s i st b rule: tok_loop.induct)
  case (2 n d c cs i st b)
  consider (delim) "\<not> i \<and> c \<in> set d"
    | (quote) "\<not> (\<not> i \<and> c \<in> set d)" "CSLT_HONOURSTRINGS n \<and> c = QUOTE"
    | (other) "\<not> (\<not> i \<and> c \<in> set d)" "\<not> (CSLT_HONOURSTRINGS n \<and> c = QUOTE)" by blast
  then show ?case
  proof cases
    case delim
    with 2 show ?thesis by simp
  next
    case quote
    with 2(4) obtain b1 where
      "(if CSLT_PRESERVEQUOTES n then tok_put c b else Some b) = Some b1"
      "tok_loop n d cs (\<not> i) st b1 = Some (r, i', b')"
      by (auto split: option.splits)
    with 2(1) [OF quote] show ?thesis by force
  next
    case other
    with 2(4) obtain e q b1 where e: "tok_escape n i c cs b = Some (e, q, b1)"
      by (auto split: option.splits)
    have q: "length q \<le> length cs" using e by (rule tok_escape_shorter)
    show ?thesis
    proof (cases "\<not> i \<and> CSLT_STRIPLEADSPACES n \<and> st \<and> c_isspace e")
      case True
      with 2(2) [OF other e refl refl True] 2(4) other e q show ?thesis by auto
    next
      case False
      with 2(4) other e obtain b2 where b2: "Option.bind (tok_grow b1) (tok_put e) = Some b2"
        "tok_loop n d q i False b2 = Some (r, i', b')"
        by (auto split: option.splits)
      with 2(3) [OF other e refl refl False b2(1)] q show ?thesis by auto
    qed
  qed
qed simp

lemma tok_loop_shorter:
  "tok_loop n d s i st b = Some (r, i', b') \<Longrightarrow> s \<noteq> [] \<Longrightarrow> length r < length s"
  using tok_loop_length [of n d s i st b r i' b'] by (cases s) auto

definition strip_end :: "cstring \<Rightarrow> cstring" where
  "strip_end s = rev (dropWhile c_isspace (rev s))"

text \<open>The inner loop from an empty token, the blanks at its end dropped, its NUL stored.\<close>

definition next_token ::
    "int \<Rightarrow> cstring \<Rightarrow> cstring \<Rightarrow> int \<Rightarrow> (cstring \<times> cstring \<times> int) option" where
  "next_token nCSLTFlags pszDelimiters pszString nMax = do {
     (r, bInString, b) \<leftarrow> tok_loop nCSLTFlags pszDelimiters pszString False True
                             \<lparr>pszToken = [], nTokenMax = nMax\<rparr>;
     let tok = (if \<not> bInString \<and> CSLT_STRIPENDSPACES nCSLTFlags then strip_end (pszToken b)
                else pszToken b);
     (if int (length tok) < nTokenMax b then Some (r, tok, nTokenMax b) else None)
   }"

lemma next_token_shorter:
  "next_token n d s m = Some (r, tok, m') \<Longrightarrow> s \<noteq> [] \<Longrightarrow> length r < length s"
  by (auto simp: next_token_def Let_def split: Option.bind_splits if_splits dest: tok_loop_shorter)

section \<open>All tokens\<close>

record ret_list =
  papszRetList :: "cstring list"
  nRetMax :: int

text \<open>A token and the NULL behind it are stored.\<close>

definition ret_put :: "cstring \<Rightarrow> ret_list \<Rightarrow> ret_list option" where
  "ret_put tok l = do {
     n \<leftarrow> (if int (length (papszRetList l)) \<ge> nRetMax l - 1 then grown (nRetMax l) else Some (nRetMax l));
     (if int (length (papszRetList l)) + 1 < n then Some \<lparr>papszRetList = papszRetList l @ [tok], nRetMax = n\<rparr> else None)
   }"

function tok_all :: "int \<Rightarrow> cstring \<Rightarrow> cstring \<Rightarrow> int \<Rightarrow> ret_list \<Rightarrow> ret_list option" where
  "tok_all nCSLTFlags pszDelimiters pszString nMax ret =
     (if pszString = [] then Some ret
      else (case next_token nCSLTFlags pszDelimiters pszString nMax of
              None \<Rightarrow> None
            | Some (r, tok, nMax') \<Rightarrow>
                (case (if tok \<noteq> [] \<or> CSLT_ALLOWEMPTYTOKENS nCSLTFlags then ret_put tok ret else Some ret) of
                   None \<Rightarrow> None
                 | Some ret' \<Rightarrow> tok_all nCSLTFlags pszDelimiters r nMax' ret')))"
  by pat_completeness auto
termination
  by (relation "measure (\<lambda>(n, d, s, m, acc). length s)") (auto dest: next_token_shorter)

declare tok_all.simps [simp del]

text \<open>The loop guards against a NULL input, the test behind it does not: \<open>None\<close>.\<close>

definition CSLTokenizeString2 :: "cstring option \<Rightarrow> cstring \<Rightarrow> int \<Rightarrow> cstring list option" where
  "CSLTokenizeString2 pszString pszDelimiters nCSLTFlags =
     (case pszString of
        None \<Rightarrow> None
      | Some s \<Rightarrow> do {
          ret \<leftarrow> tok_all nCSLTFlags pszDelimiters s 10 \<lparr>papszRetList = [], nRetMax = 0\<rparr>;
          ret \<leftarrow> (if CSLT_ALLOWEMPTYTOKENS nCSLTFlags \<and> papszRetList ret \<noteq> [] \<and> last s \<in> set pszDelimiters
                 then ret_put [] ret else Some ret);
          Some (papszRetList ret)
        })"

definition CSLTokenizeString :: "cstring option \<Rightarrow> cstring list option" where
  "CSLTokenizeString pszString = CSLTokenizeString2 pszString '' '' 1"

definition CSLTokenizeStringComplex ::
    "cstring option \<Rightarrow> cstring \<Rightarrow> bool \<Rightarrow> bool \<Rightarrow> cstring list option" where
  "CSLTokenizeStringComplex pszString pszDelimiters bHonourStrings bAllowEmptyTokens =
     CSLTokenizeString2 pszString pszDelimiters
       ((if bHonourStrings then 1 else 0) + (if bAllowEmptyTokens then 2 else 0))"

section \<open>The buffers suffice unless quotes or escapes are kept\<close>

text \<open>The capacities of both buffers are 10, 30, 70 and so on; the largest one that an \<^verbatim>\<open>int\<close> holds is
  \<open>1342177270\<close>.  Texts of up to \<open>max_text\<close> characters need no larger one.\<close>

definition capacity :: "int \<Rightarrow> bool" where
  "capacity n = (\<exists>k \<le> 26. n = 20 * 2 ^ k - 10)"

definition max_text :: nat where
  "max_text = 1342177267"

lemma capacity_10: "capacity 10"
  unfolding capacity_def by (rule exI [of _ 0]) simp

lemma capacity_bounds:
  assumes "capacity n"
  shows "10 \<le> n" and "n \<le> 1342177270"
proof -
  obtain k where k: "k \<le> 26" "n = 20 * 2 ^ k - 10" using assms by (auto simp: capacity_def)
  have "(2 :: int) ^ k \<le> 2 ^ 26" by (rule power_increasing [OF k(1)]) simp
  then show "n \<le> 1342177270" using k(2) by simp
  have "(1 :: int) \<le> 2 ^ k" by simp
  then show "10 \<le> n" using k(2) by linarith
qed

lemma grown_capacity:
  assumes "capacity n" and "n < 1342177270"
  shows "grown n = Some (n * 2 + 10)" and "capacity (n * 2 + 10)"
proof -
  obtain k where k: "k \<le> 26" "n = 20 * 2 ^ k - 10" using assms(1) by (auto simp: capacity_def)
  have "k \<noteq> 26" using k(2) assms(2) by auto
  then have k': "Suc k \<le> 26" "n * 2 + 10 = 20 * 2 ^ Suc k - 10" using k by simp_all
  then show c: "capacity (n * 2 + 10)" unfolding capacity_def by blast
  show "grown n = Some (n * 2 + 10)"
    using capacity_bounds [OF c] capacity_bounds(1) [OF assms(1)] by (simp add: grown_def to_i32_id)
qed

lemma grown_beyond: "grown 1342177270 = None"
  by (simp add: grown_def to_i32_def)

definition roomy :: "tok_buf \<Rightarrow> bool" where
  "roomy b = (capacity (nTokenMax b) \<and> int (length (pszToken b)) + 3 \<le> nTokenMax b)"

lemma empty_roomy: "capacity m \<Longrightarrow> roomy \<lparr>pszToken = [], nTokenMax = m\<rparr>"
  using capacity_bounds(1) [of m] by (simp add: roomy_def)

lemma tok_put_grown:
  assumes "roomy b" and "length (pszToken b) < max_text"
  obtains b' where "Option.bind (tok_grow b) (tok_put c) = Some b'" and "roomy b'"
    and "pszToken b' = pszToken b @ [c]"
proof (cases "nTokenMax b - 3 \<le> int (length (pszToken b))")
  case True
  have cap: "capacity (nTokenMax b)" "nTokenMax b < 1342177270"
    using assms True by (simp_all add: roomy_def max_text_def)
  show thesis
    by (rule that [of "b\<lparr>nTokenMax := nTokenMax b * 2 + 10, pszToken := pszToken b @ [c]\<rparr>"])
      (use True assms(1) grown_capacity [OF cap] capacity_bounds(1) [OF cap(1)] in
        \<open>simp_all add: roomy_def tok_put_def tok_grow_def\<close>)
next
  case False
  with that [of "b\<lparr>pszToken := pszToken b @ [c]\<rparr>"] assms(1) show thesis
    by (simp add: roomy_def tok_put_def tok_grow_def)
qed

lemma tok_escape_plain:
  assumes "\<not> CSLT_PRESERVEESCAPES n"
  obtains d r where "tok_escape n i c cs b = Some (d, r, b)"
  using assms by (fastforce simp: tok_escape_def split: list.split)

lemma tok_loop_roomy:
  assumes "\<not> CSLT_PRESERVEQUOTES n" and "\<not> CSLT_PRESERVEESCAPES n" and "roomy b"
    and "length (pszToken b) + length s \<le> max_text"
  shows "\<exists>r i' b'. tok_loop n d s i st b = Some (r, i', b') \<and> roomy b'"
  using assms
proof (induction n d s i st b rule: tok_loop.induct)
  case (2 n dl c cs i st b)
  obtain e r where e: "tok_escape n i c cs b = Some (e, r, b)"
    using tok_escape_plain [OF 2(5)] by blast
  have r: "length r \<le> length cs" using e by (rule tok_escape_shorter)
  have lt: "length (pszToken b) < max_text" using 2(7) by simp
  obtain b' where b': "Option.bind (tok_grow b) (tok_put e) = Some b'" "roomy b'" "pszToken b' = pszToken b @ [e]"
    by (rule tok_put_grown [OF 2(6) lt])
  have len: "length (pszToken b) + length cs \<le> max_text" "length (pszToken b) + length r \<le> max_text"
    "length (pszToken b') + length r \<le> max_text" using 2(7) r b'(3) by simp_all
  show ?case
    using 2(1-6) e b'(1,2) len by (auto split del: if_split split: if_split)
qed simp

lemma length_strip_end: "length (strip_end s) \<le> length s"
  unfolding strip_end_def by (metis length_rev length_dropWhile_le)

lemma next_token_Some:
  assumes "\<not> CSLT_PRESERVEQUOTES n" and "\<not> CSLT_PRESERVEESCAPES n" and "capacity m" and "length s \<le> max_text"
  shows "\<exists>r tok m'. next_token n d s m = Some (r, tok, m') \<and> capacity m'"
proof -
  have start: "length (pszToken \<lparr>pszToken = [], nTokenMax = m\<rparr>) + length s \<le> max_text" using assms(4) by simp
  obtain r i b where b: "tok_loop n d s False True \<lparr>pszToken = [], nTokenMax = m\<rparr> = Some (r, i, b)" "roomy b"
    using tok_loop_roomy [OF assms(1,2) empty_roomy [OF assms(3)] start] by blast
  have "int (length (strip_end (pszToken b))) \<le> int (length (pszToken b))" using length_strip_end by simp
  with b show ?thesis by (auto simp: next_token_def roomy_def Let_def)
qed

text \<open>The list of tokens has room for one token for each character of the text.\<close>

definition ret_ok :: "ret_list \<Rightarrow> bool" where
  "ret_ok l = (nRetMax l = 0 \<and> papszRetList l = [] \<or>
     capacity (nRetMax l) \<and> int (length (papszRetList l)) < nRetMax l)"

lemma ret_put_ok:
  assumes "ret_ok l" and "length (papszRetList l) \<le> max_text"
  obtains l' where "ret_put tok l = Some l'" "ret_ok l'" "papszRetList l' = papszRetList l @ [tok]"
proof -
  consider (first) "nRetMax l = 0" "papszRetList l = []"
    | (grow) "capacity (nRetMax l)" "int (length (papszRetList l)) = nRetMax l - 1"
    | (room) "capacity (nRetMax l)" "int (length (papszRetList l)) < nRetMax l - 1"
    using assms(1) by (force simp: ret_ok_def)
  then show thesis
  proof cases
    case first
    have "grown 0 = Some 10" by (simp add: grown_def to_i32_def)
    then show thesis using that [of "\<lparr>papszRetList = [tok], nRetMax = 10\<rparr>"] first capacity_10
      by (simp add: ret_put_def ret_ok_def)
  next
    case grow
    then have lt: "nRetMax l < 1342177270" using assms(2) by (simp add: max_text_def)
    show thesis
      by (rule that [of "\<lparr>papszRetList = papszRetList l @ [tok], nRetMax = nRetMax l * 2 + 10\<rparr>"])
        (use grow grown_capacity [OF grow(1) lt] capacity_bounds(1) [OF grow(1)] in \<open>simp_all add: ret_put_def ret_ok_def\<close>)
  next
    case room
    then show thesis using that [of "\<lparr>papszRetList = papszRetList l @ [tok], nRetMax = nRetMax l\<rparr>"]
      by (simp add: ret_put_def ret_ok_def)
  qed
qed

lemma tok_all_Some:
  assumes "\<not> CSLT_PRESERVEQUOTES n" and "\<not> CSLT_PRESERVEESCAPES n" and "capacity m" and "ret_ok l"
    and "length (papszRetList l) + length s \<le> max_text"
  shows "\<exists>l'. tok_all n d s m l = Some l' \<and> ret_ok l' \<and> length (papszRetList l') \<le> max_text"
  using assms
proof (induction n d s m l rule: tok_all.induct)
  case (1 n d s m l)
  show ?case
  proof (cases "s = []")
    case False
    obtain r tok m' where nt: "next_token n d s m = Some (r, tok, m')" "capacity m'"
      using next_token_Some [OF 1(2-4), of s d] 1(6) by auto
    have r: "length r < length s" by (rule next_token_shorter [OF nt(1) False])
    let ?P = "tok \<noteq> [] \<or> CSLT_ALLOWEMPTYTOKENS n"
    obtain l1 where l1: "(if ?P then ret_put tok l else Some l) = Some l1" "ret_ok l1"
      "length (papszRetList l1) + length r \<le> max_text"
    proof (cases ?P)
      case True
      obtain l1 where "ret_put tok l = Some l1" "ret_ok l1" "papszRetList l1 = papszRetList l @ [tok]"
        using ret_put_ok [OF 1(5) add_leD1 [OF 1(6)]] by blast
      then show thesis using that True 1(6) r by simp
    next
      case False
      then show thesis using that [of l] 1(5,6) r by simp
    qed
    have "tok_all n d s m l = tok_all n d r m' l1" using False nt(1) l1(1) by (subst tok_all.simps) simp
    then show ?thesis using 1(1) [OF False nt(1) refl refl l1(1) 1(2,3) nt(2) l1(2,3)] by simp
  qed (use 1 in \<open>simp add: tok_all.simps\<close>)
qed

section \<open>Without string constants: splitting at delimiters\<close>

fun segments :: "cstring \<Rightarrow> cstring \<Rightarrow> cstring list" where
  "segments d [] = [[]]"
| "segments d (c # cs) =
     (if c \<in> set d then [] # segments d cs
      else (c # hd (segments d cs)) # tl (segments d cs))"

definition strip_token :: "int \<Rightarrow> cstring \<Rightarrow> cstring" where
  "strip_token n t =
     (let t' = (if CSLT_STRIPLEADSPACES n then dropWhile c_isspace t else t)
      in if CSLT_STRIPENDSPACES n then strip_end t' else t')"

definition reference_tokens :: "int \<Rightarrow> cstring \<Rightarrow> cstring \<Rightarrow> cstring list" where
  "reference_tokens n d s =
     (let toks = map (strip_token n) (segments d s)
      in if CSLT_ALLOWEMPTYTOKENS n then (if s = [] then [] else toks)
         else filter (\<lambda>t. t \<noteq> []) toks)"

lemma segments_not_Nil [simp]: "segments d s \<noteq> []"
  by (cases s) simp_all

lemma segments_first:
  "segments d s =
    takeWhile (\<lambda>c. c \<notin> set d) s #
      (case dropWhile (\<lambda>c. c \<notin> set d) s of [] \<Rightarrow> [] | _ # r \<Rightarrow> segments d r)"
  by (induction s) simp_all

lemma segments_last:
  "last s \<in> set d \<Longrightarrow> s \<noteq> [] \<Longrightarrow> tl (segments d s) \<noteq> [] \<and> last (segments d s) = []"
  by (induction s) (auto split: if_splits simp: last_tl)

lemma strip_token_Nil [simp]: "strip_token n [] = []"
  by (simp add: strip_token_def strip_end_def)

lemma tok_loop_plain:
  assumes "\<not> CSLT_HONOURSTRINGS n" and "roomy b" and "length (pszToken b) + length s \<le> max_text"
  shows "\<exists>b'. tok_loop n d s False st b =
      Some ((case dropWhile (\<lambda>c. c \<notin> set d) s of [] \<Rightarrow> [] | _ # r \<Rightarrow> r), False, b') \<and> roomy b' \<and>
    pszToken b' = pszToken b @
      (let t = takeWhile (\<lambda>c. c \<notin> set d) s
       in if CSLT_STRIPLEADSPACES n \<and> st then dropWhile c_isspace t else t)"
  using assms(2,3)
proof (induction s arbitrary: st b)
  case Nil
  then show ?case by simp
next
  case (Cons c cs)
  have esc: "tok_escape n False c cs b = Some (c, cs, b)" by (simp add: tok_escape_def)
  have lt: "length (pszToken b) < max_text" using Cons.prems(2) by simp
  obtain b1 where b1: "Option.bind (tok_grow b) (tok_put c) = Some b1" "roomy b1" "pszToken b1 = pszToken b @ [c]"
    by (rule tok_put_grown [OF Cons.prems(1) lt])
  have len: "length (pszToken b) + length cs \<le> max_text" "length (pszToken b1) + length cs \<le> max_text"
    using Cons.prems(2) b1(3) by simp_all
  show ?case
  proof (cases "c \<in> set d")
    case True
    with Cons.prems show ?thesis by simp
  next
    case False
    show ?thesis
    proof (cases "CSLT_STRIPLEADSPACES n \<and> st \<and> c_isspace c")
      case True
      with False assms(1) esc Cons.IH [OF Cons.prems(1) len(1), of st] show ?thesis by (simp add: Let_def)
    next
      case no_skip: False
      then have "tok_loop n d (c # cs) False st b = tok_loop n d cs False False b1"
        using False assms(1) esc b1(1) by auto
      with no_skip False b1(3) Cons.IH [OF b1(2) len(2), of False] show ?thesis by (auto simp: Let_def)
    qed
  qed
qed

lemma next_token_plain:
  assumes "\<not> CSLT_HONOURSTRINGS n" and "capacity m" and "length s \<le> max_text"
  shows "\<exists>m'. next_token n d s m =
      Some ((case dropWhile (\<lambda>c. c \<notin> set d) s of [] \<Rightarrow> [] | _ # r \<Rightarrow> r),
            strip_token n (takeWhile (\<lambda>c. c \<notin> set d) s), m') \<and> capacity m'"
proof -
  have start: "length (pszToken \<lparr>pszToken = [], nTokenMax = m\<rparr>) + length s \<le> max_text" using assms(3) by simp
  from tok_loop_plain [OF assms(1) empty_roomy [OF assms(2)] start, of d True] obtain b' where b':
    "tok_loop n d s False True \<lparr>pszToken = [], nTokenMax = m\<rparr> =
      Some ((case dropWhile (\<lambda>c. c \<notin> set d) s of [] \<Rightarrow> [] | _ # r \<Rightarrow> r), False, b')" "roomy b'"
    "pszToken b' = (let t = takeWhile (\<lambda>c. c \<notin> set d) s
       in if CSLT_STRIPLEADSPACES n then dropWhile c_isspace t else t)"
    by auto
  have "int (length (strip_end (pszToken b'))) \<le> int (length (pszToken b'))" using length_strip_end by simp
  with b' show ?thesis by (auto simp: next_token_def roomy_def strip_token_def Let_def)
qed

lemma tok_all_plain:
  assumes "\<not> CSLT_HONOURSTRINGS n" and "capacity m" and "ret_ok l" and "length (papszRetList l) + length s \<le> max_text"
  shows "\<exists>l'. tok_all n d s m l = Some l' \<and> ret_ok l' \<and> length (papszRetList l') \<le> max_text \<and> papszRetList l' =
    papszRetList l @ filter (\<lambda>t. t \<noteq> [] \<or> CSLT_ALLOWEMPTYTOKENS n)
      (map (strip_token n)
        (if s = [] \<or> last s \<in> set d then butlast (segments d s) else segments d s))"
  using assms(2-4)
proof (induction "length s" arbitrary: s m l rule: less_induct)
  case less
  show ?case
  proof (cases "s = []")
    case False
    let ?t = "takeWhile (\<lambda>c. c \<notin> set d) s"
    let ?r = "case dropWhile (\<lambda>c. c \<notin> set d) s of [] \<Rightarrow> [] | _ # r \<Rightarrow> r"
    let ?tok = "strip_token n ?t"
    obtain m' where nt: "next_token n d s m = Some (?r, ?tok, m')" "capacity m'"
      using next_token_plain [OF assms(1) less.prems(1)] less.prems(3) by (metis add_leD2)
    have shorter: "length ?r < length s" by (rule next_token_shorter [OF nt(1) False])
    let ?P = "?tok \<noteq> [] \<or> CSLT_ALLOWEMPTYTOKENS n"
    obtain l1 where l1: "(if ?P then ret_put ?tok l else Some l) = Some l1" "ret_ok l1"
      "papszRetList l1 = papszRetList l @ filter (\<lambda>t. t \<noteq> [] \<or> CSLT_ALLOWEMPTYTOKENS n) [?tok]"
    proof (cases ?P)
      case True
      have le: "length (papszRetList l) \<le> max_text" using less.prems(3) by simp
      obtain l1 where "ret_put ?tok l = Some l1" "ret_ok l1" "papszRetList l1 = papszRetList l @ [?tok]"
        by (rule ret_put_ok [OF less.prems(2) le])
      then show thesis using that True by simp
    next
      case False
      then show thesis using that [of l] less.prems(2) by simp
    qed
    have len: "length (papszRetList l1) + length ?r \<le> max_text" using less.prems(3) l1(3) shorter by simp
    have step: "tok_all n d s m l = tok_all n d ?r m' l1" using False nt(1) l1(1) by (subst tok_all.simps) simp
    obtain l2 where l2: "tok_all n d ?r m' l1 = Some l2" "ret_ok l2" "length (papszRetList l2) \<le> max_text"
      "papszRetList l2 = papszRetList l1 @ filter (\<lambda>t. t \<noteq> [] \<or> CSLT_ALLOWEMPTYTOKENS n)
        (map (strip_token n) (if ?r = [] \<or> last ?r \<in> set d then butlast (segments d ?r) else segments d ?r))"
      using less.hyps [OF shorter nt(2) l1(2) len] by blast
    have "(if s = [] \<or> last s \<in> set d then butlast (segments d s) else segments d s) =
      ?t # (if ?r = [] \<or> last ?r \<in> set d then butlast (segments d ?r) else segments d ?r)"
    proof (cases "dropWhile (\<lambda>c. c \<notin> set d) s")
      case Nil
      then have "last s \<notin> set d" using False by (simp add: dropWhile_eq_Nil_conv)
      moreover have "segments d s = [?t]" by (subst segments_first) (simp only: Nil list.case)
      moreover have "?r = []" by (simp only: Nil list.case)
      ultimately show ?thesis using False by (simp only: butlast.simps) simp
    next
      case (Cons c r)
      then have s: "s = ?t @ c # r" by (metis takeWhile_dropWhile_id)
      have c: "c \<in> set d" using hd_dropWhile [of "\<lambda>c. c \<notin> set d" s] Cons by simp
      have seg: "segments d s = ?t # segments d r" using Cons by (subst segments_first) simp
      have lst: "last s = (if r = [] then c else last r)" by (subst s) simp
      show ?thesis using False Cons c lst by (simp add: seg)
    qed
    then show ?thesis using step l2 l1(3) by simp
  qed (use less.prems in \<open>simp add: tok_all.simps\<close>)
qed

text \<open>
  C19.  Without \<open>CSLT_HONOURSTRINGS\<close>, \<open>CSLTokenizeString2\<close> returns, for every string of at most \<open>max_text\<close>
  (1342177267) characters, its pieces between delimiters, stripped as the flags ask, in order;
  the empty ones only if they are allowed (then a trailing delimiter counts an empty last one and
  the empty string has no token at all).  A longer token makes the capacity of its buffer overflow.
\<close>

theorem CSLTokenizeString2_splits:
  assumes "\<not> CSLT_HONOURSTRINGS n" and "length s \<le> max_text"
  shows "CSLTokenizeString2 (Some s) d n = Some (reference_tokens n d s)"
proof -
  let ?l = "\<lparr>papszRetList = [], nRetMax = 0\<rparr>"
  have start: "ret_ok ?l" "length (papszRetList ?l) + length s \<le> max_text" using assms(2) by (simp_all add: ret_ok_def)
  obtain l where l: "tok_all n d s 10 ?l = Some l" "ret_ok l" "length (papszRetList l) \<le> max_text"
    "papszRetList l = filter (\<lambda>t. t \<noteq> [] \<or> CSLT_ALLOWEMPTYTOKENS n)
      (map (strip_token n) (if s = [] \<or> last s \<in> set d then butlast (segments d s) else segments d s))"
    using tok_all_plain [OF assms(1) capacity_10 start, of d] by auto
  obtain l' where l': "ret_put [] l = Some l'" "papszRetList l' = papszRetList l @ [[]]"
    using ret_put_ok [OF l(2,3)] by blast
  show ?thesis
  proof (cases "s = []")
    case True
    then show ?thesis using l(1,4)
      by (simp add: CSLTokenizeString2_def reference_tokens_def Let_def)
  next
    case False
    have ap: "butlast (segments d s) @ [last (segments d s)] = segments d s" by simp
    have m: "map (strip_token n) (segments d s) =
        map (strip_token n) (butlast (segments d s)) @ [[]]" if "last s \<in> set d"
      using segments_last [OF that False, THEN conjunct2] by (subst ap [symmetric]) (simp only: map_append list.map strip_token_Nil)
    show ?thesis
      using False m l l' segments_last [OF _ False, of d]
      by (auto simp: CSLTokenizeString2_def reference_tokens_def Let_def)
  qed
qed

theorem CSLTokenizeString2_splits_witness:
  "CSLTokenizeString2 (Some ''a, b,,'') '','' 18 = Some (''a'' # ''b'' # replicate 2 [])"
proof -
  have "\<not> CSLT_HONOURSTRINGS 18" "reference_tokens 18 '','' ''a, b,,'' = ''a'' # ''b'' # replicate 2 []"
    by code_simp+
  then show ?thesis using CSLTokenizeString2_splits by (simp add: max_text_def)
qed

text \<open>
  C24.  Without \<open>CSLT_PRESERVEQUOTES\<close> and \<open>CSLT_PRESERVEESCAPES\<close> neither the token buffer nor the list of tokens
  is overrun, their capacities do not overflow, and the loops end: every string of at most \<open>max_text\<close> characters is
  tokenized, quotes and escapes included.
\<close>

theorem CSLTokenizeString2_safe:
  assumes "\<not> CSLT_PRESERVEQUOTES n" and "\<not> CSLT_PRESERVEESCAPES n" and "length s \<le> max_text"
  shows "\<exists>toks. CSLTokenizeString2 (Some s) d n = Some toks"
proof -
  let ?l = "\<lparr>papszRetList = [], nRetMax = 0\<rparr>"
  have start: "ret_ok ?l" "length (papszRetList ?l) + length s \<le> max_text" using assms(3) by (simp_all add: ret_ok_def)
  obtain l where l: "tok_all n d s 10 ?l = Some l" "ret_ok l" "length (papszRetList l) \<le> max_text"
    using tok_all_Some [OF assms(1,2) capacity_10 start] by blast
  obtain l' where "ret_put [] l = Some l'" using ret_put_ok [OF l(2,3)] by blast
  then show ?thesis using l(1) by (simp add: CSLTokenizeString2_def)
qed

theorem CSLTokenizeString2_safe_witness:
  "\<exists>toks. CSLTokenizeString2 (Some (QUOTE # BACKSLASH # QUOTE # ''a b'')) ''  '' 1 = Some toks"
  using CSLTokenizeString2_safe [of 1 "QUOTE # BACKSLASH # QUOTE # ''a b''" "''  ''"] by (simp add: max_text_def)

text \<open>The bound is sharp: a longer text without delimiters overflows the capacity of the token buffer.\<close>

lemma CSLTokenizeString2_long_token:
  assumes "\<not> CSLT_HONOURSTRINGS n" and "\<not> CSLT_STRIPLEADSPACES n" and "set s \<inter> set d = {}" and "max_text < length s"
  shows "CSLTokenizeString2 (Some s) d n = None"
proof -
  have loop: "roomy b' \<and> pszToken b' = pszToken b @ t"
    if "tok_loop n d t False st b = Some (r, i, b')" "roomy b" "set t \<inter> set d = {}" for t st b r i b'
    using that
  proof (induction t arbitrary: st b)
    case (Cons c cs)
    have "tok_escape n False c cs b = Some (c, cs, b)" by (simp add: tok_escape_def)
    then obtain b1 where b1: "Option.bind (tok_grow b) (tok_put c) = Some b1" "tok_loop n d cs False False b1 = Some (r, i, b')"
      using Cons.prems(1,3) assms(1,2) by (auto split: option.splits)
    have "length (pszToken b) < max_text"
    proof (rule ccontr)
      assume h: "\<not> length (pszToken b) < max_text"
      then have "nTokenMax b = 1342177270"
        using Cons.prems(2) capacity_bounds(2) [of "nTokenMax b"] by (auto simp: roomy_def max_text_def)
      then have "tok_grow b = None" using h by (simp add: tok_grow_def grown_beyond max_text_def)
      then show False using b1(1) by simp
    qed
    then have "roomy b1" "pszToken b1 = pszToken b @ [c]"
      using tok_put_grown [OF Cons.prems(2), of c] b1(1) by (metis option.inject)+
    then show ?case using Cons.IH [OF b1(2)] Cons.prems(3) by simp
  qed simp
  have start: "roomy \<lparr>pszToken = [], nTokenMax = 10\<rparr>" by (rule empty_roomy [OF capacity_10])
  have "tok_loop n d s False True \<lparr>pszToken = [], nTokenMax = 10\<rparr> = None"
  proof (rule ccontr)
    assume "\<not> ?thesis"
    then obtain r i b where b: "tok_loop n d s False True \<lparr>pszToken = [], nTokenMax = 10\<rparr> = Some (r, i, b)"
      by (cases "tok_loop n d s False True \<lparr>pszToken = [], nTokenMax = 10\<rparr>") auto
    have "roomy b \<and> pszToken b = s" using loop [OF b start assms(3)] by simp
    then show False using assms(4) capacity_bounds(2) [of "nTokenMax b"] by (auto simp: roomy_def max_text_def)
  qed
  moreover have "s \<noteq> []" using assms(4) by auto
  ultimately show ?thesis by (simp add: CSLTokenizeString2_def tok_all.simps next_token_def)
qed

text \<open>
  With \<open>CSLT_PRESERVEQUOTES\<close> a quote is stored without the test that extends the buffer: a
  run of ten quotes or more, within the ten bytes the buffer starts with, overruns it.
\<close>

theorem CSLTokenizeString2_quotes_overflow:
  assumes "CSLT_HONOURSTRINGS n" and "CSLT_PRESERVEQUOTES n" and "QUOTE \<notin> set d" and "10 \<le> k"
    and "\<not> CSLT_STRIPENDSPACES n"
  shows "CSLTokenizeString2 (Some (replicate k QUOTE)) d n = None"
proof -
  have loop: "tok_loop n d (replicate j QUOTE) i st b =
      (if int (length (pszToken b) + j) \<le> nTokenMax b
       then Some ([], (if even j then i else \<not> i), b\<lparr>pszToken := pszToken b @ replicate j QUOTE\<rparr>)
       else None)" if "int (length (pszToken b)) \<le> nTokenMax b" for j i st b
    using that assms(1-3)
    by (induction j arbitrary: i b) (auto simp: tok_put_def)
  have "next_token n d (replicate k QUOTE) 10 = None"
    using assms(4,5) by (simp add: next_token_def loop Let_def)
  moreover have "replicate k QUOTE \<noteq> []" using assms(4) by (cases k) auto
  ultimately show ?thesis by (simp add: CSLTokenizeString2_def tok_all.simps)
qed

theorem CSLTokenizeString2_quotes_overflow_witness:
  "CSLTokenizeString2 (Some (replicate 10 QUOTE)) '','' 5 = None"
proof -
  have "CSLT_HONOURSTRINGS 5" "CSLT_PRESERVEQUOTES 5" "\<not> CSLT_STRIPENDSPACES 5" by code_simp+
  then show ?thesis using CSLTokenizeString2_quotes_overflow by simp
qed

end
