(* ===== verification/Mini_Xml.thy ===== *)
theory Mini_Xml
  imports Cpl_Escape Csl_Tokenize
begin

text \<open>
  The XML parser, serializer and tree operations of \<^verbatim>\<open>port/cpl_minixml.cpp\<close>.

  A node is its type, its value and the list of its children; the \<^verbatim>\<open>psNext\<close> chain of a node
  is the rest of the list it stands in, so a pointer to the first of a chain of nodes is a list,
  NULL the empty one.  The parse context holds the input from the current offset on.  Whether an
  error has been reported is part of the state (it decides the result), the text of the report is
  not.
\<close>

section \<open>Nodes and the parse context\<close>

datatype CPLXMLNodeType = CXT_Element | CXT_Text | CXT_Attribute | CXT_Comment | CXT_Literal

datatype CPLXMLNode = XMLNode (eType: CPLXMLNodeType) (pszValue: cstring) (psChild: "CPLXMLNode list")

datatype XMLTokenType =
  TNone | TString | TOpen | TClose | TEqual | TToken | TSlashClose | TQuestionClose | TComment | TLiteral

text \<open>\<open>papsStack\<close> holds the values of the open elements, the innermost one first; these elements
  are the last nodes of the tree at each level from the root.\<close>

record ParseContext =
  pszInput :: cstring
  bInElement :: bool
  papsStack :: "cstring list"
  psFirstNode :: "CPLXMLNode list"
  bError :: bool

definition CPLCreateXMLNode :: "CPLXMLNodeType \<Rightarrow> cstring \<Rightarrow> CPLXMLNode" where
  "CPLCreateXMLNode eTyp pszText = XMLNode eTyp pszText []"

section \<open>Reading tokens\<close>

text \<open>The loops of \<open>ReadToken\<close>.  Each returns the token and the input behind it; the end of the
  input reads as NUL again and again.\<close>

text \<open>Up to a closing string, for comments and CDATA sections.\<close>

fun read_until_str :: "cstring \<Rightarrow> cstring \<Rightarrow> cstring \<Rightarrow> cstring \<times> cstring" where
  "read_until_str close [] tok = (tok, [])"
| "read_until_str close (c # s) tok =
     (if EQUALN (c # s) close (length close) then (tok, c # s)
      else read_until_str close s (tok @ [c]))"

text \<open>\<open>ReadChar\<close>: the character, NUL at the end, and the input behind it.\<close>

definition ReadChar :: "cstring \<Rightarrow> char \<times> cstring" where
  "ReadChar s = (case s of [] \<Rightarrow> (NUL, []) | c # r \<Rightarrow> (c, r))"

definition UnreadChar :: "char \<Rightarrow> cstring \<Rightarrow> cstring" where
  "UnreadChar chToUnread s = (if chToUnread = NUL then s else chToUnread # s)"

lemma length_ReadChar: "length (snd (ReadChar s)) \<le> length s"
  by (simp add: ReadChar_def split: list.split)

text \<open>The loop over the declarations of a DOCTYPE, a \<^verbatim>\<open>do ... while\<close> with no test for the end of
  the input.  It is written as it stands, as a partial function: whether it returns is proved.\<close>

partial_function (option) read_subset :: "cstring \<Rightarrow> cstring \<Rightarrow> (cstring \<times> cstring) option" where
  "read_subset s tok =
     (let chNext = fst (ReadChar s); r = snd (ReadChar s); tok' = tok @ [chNext] in
      if chNext \<noteq> CHR '']'' \<and> \<not> EQUALN r '']>'' 2 then read_subset r tok' else Some (tok', r))"

declare read_subset.simps [code]

text \<open>On an exhausted input every round reads NUL and leaves the input as it is: by fixpoint
  induction no result is ever reached.\<close>

lemma read_subset_input_left: "read_subset s tok = Some res \<Longrightarrow> s \<noteq> []"
  by (erule read_subset.raw_induct [rotated])
    (auto simp: Let_def ReadChar_def EQUALN_def split: if_splits, blast)

lemma read_subset_Nil [simp]: "read_subset [] tok = None"
  using read_subset_input_left [of "[]" tok] by (cases "read_subset [] tok") auto

lemma read_subset_Cons [simp]:
  "read_subset (c # s) tok =
     (if c = CHR '']'' \<or> EQUALN s '']>'' 2 then Some (tok @ [c], s) else read_subset s (tok @ [c]))"
  by (subst read_subset.simps) (simp add: ReadChar_def Let_def)

lemma read_subset_shorter: "read_subset s tok = Some (tok', r) \<Longrightarrow> length r < length s"
  by (induction s arbitrary: tok) (auto split: if_splits dest: less_SucI)

text \<open>One round of the loop over a DOCTYPE up to its test for quotes: an opening bracket takes the
  declarations, the character behind them (meant to be the closing bracket) and one more.  The
  result is \<open>chNext\<close>, the token and the input.\<close>

definition doctype_char :: "char \<Rightarrow> cstring \<Rightarrow> cstring \<Rightarrow> (char \<times> cstring \<times> cstring) option" where
  "doctype_char c s tok =
     (if c = CHR ''['' then do {
        (tok1, s1) \<leftarrow> read_subset s (tok @ [c]);
        let (c2, s2) = ReadChar s1;
        let (c3, s3) = ReadChar s2;
        Some (c3, tok1 @ [c2], s3)
      }
      else Some (c, tok, s))"

lemma doctype_char_length: "doctype_char c s tok = Some (c', tok', r) \<Longrightarrow> length r \<le> length s"
  by (auto simp: doctype_char_def ReadChar_def split: if_splits Option.bind_splits list.splits
      dest!: read_subset_shorter)

text \<open>The loop over a DOCTYPE: the token, the rest of the input, and whether its end was hit.\<close>

function read_doctype :: "cstring \<Rightarrow> bool \<Rightarrow> cstring \<Rightarrow> (cstring \<times> cstring \<times> bool) option" where
  "read_doctype [] bInQuotes tok = Some (tok, [], True)"
| "read_doctype (c # s) bInQuotes tok =
     (case doctype_char c s tok of
        None \<Rightarrow> None
      | Some (chNext, tok2, s2) \<Rightarrow>
          (let bInQuotes' = (if chNext = CHR 0x22 then \<not> bInQuotes else bInQuotes)
           in if chNext = CHR ''>'' \<and> \<not> bInQuotes' then Some (tok2 @ [CHR ''>''], s2, False)
              else read_doctype s2 bInQuotes' (tok2 @ [chNext])))"
  by pat_completeness auto
termination
  by (relation "measure (\<lambda>(s, q, tok). length s)")
    (auto dest!: doctype_char_length simp: less_Suc_eq_le)

text \<open>A quoted value: the token, the rest, and whether the closing quote was found.\<close>

fun read_quoted :: "char \<Rightarrow> cstring \<Rightarrow> cstring \<Rightarrow> cstring \<times> cstring \<times> bool" where
  "read_quoted q [] tok = (tok, [], False)"
| "read_quoted q (c # s) tok = (if c = q then (tok, s, True) else read_quoted q s (tok @ [c]))"

text \<open>Text up to an angle bracket, which is read and put back.\<close>

fun read_text :: "cstring \<Rightarrow> cstring \<Rightarrow> cstring \<times> cstring" where
  "read_text [] tok = (tok, [])"
| "read_text (c # s) tok =
     (if c = CHR ''<'' then (tok, UnreadChar c s) else read_text s (tok @ [c]))"

definition name_char :: "char \<Rightarrow> bool" where
  "name_char c =
     (c_isupper c \<or> c_islower c \<or> c = CHR ''-'' \<or> c = CHR ''_'' \<or> c = CHR ''.''
      \<or> c = CHR '':'' \<or> c_isdigit c)"

fun read_name :: "cstring \<Rightarrow> cstring \<Rightarrow> cstring \<times> cstring" where
  "read_name [] tok = (tok, [])"
| "read_name (c # s) tok =
     (if name_char c then read_name s (tok @ [c]) else (tok, UnreadChar c s))"

text \<open>The unescaping call with the XML scheme gives \<open>unesc_xml\<close> of its argument
  (\<open>CPLUnescapeString_eq\<close> in \<open>Cpl_Escape_Facts\<close>); the result is never longer than the token
  it is copied over.\<close>

definition unescape_token :: "cstring \<Rightarrow> cstring" where
  "unescape_token tok = (if CHR ''&'' \<in> set tok then unesc_xml tok else tok)"

text \<open>The single tokens of interest: the type, the input behind it and the new \<open>bInElement\<close>.\<close>

definition read_single :: "char \<Rightarrow> cstring \<Rightarrow> bool \<Rightarrow> (XMLTokenType \<times> cstring \<times> bool) option" where
  "read_single chNext s bIn =
     (if chNext = CHR ''<'' \<and> \<not> bIn then Some (TOpen, s, True)
      else if chNext = CHR ''>'' \<and> bIn then Some (TClose, s, False)
      else if chNext = CHR ''='' \<and> bIn then Some (TEqual, s, bIn)
      else if chNext = CHR ''/'' \<and> bIn \<and> take 1 s = ''>'' then Some (TSlashClose, drop 1 s, False)
      else if chNext = CHR ''?'' \<and> bIn \<and> take 1 s = ''>'' then Some (TQuestionClose, drop 1 s, False)
      else None)"

definition ReadToken :: "ParseContext \<Rightarrow> (XMLTokenType \<times> cstring \<times> ParseContext) option" where
  "ReadToken psContext =
     (case dropWhile c_isspace (pszInput psContext) of
        [] \<Rightarrow> Some (TNone, [], psContext\<lparr>pszInput := []\<rparr>)
      | chNext # s \<Rightarrow>
          let bIn = bInElement psContext in
          if chNext = CHR ''<'' \<and> EQUALN s ''!--'' 3 then
            (let (tok, r) = read_until_str ''-->'' (drop 3 s) []
             in Some (TComment, tok, psContext\<lparr>pszInput := drop 3 r\<rparr>))
          else if chNext = CHR ''<'' \<and> EQUALN s ''!DOCTYPE'' 8 then
            (case read_doctype s False ''<'' of
               None \<Rightarrow> None
             | Some (tok, r, bEof) \<Rightarrow>
                 Some (TLiteral, tok, psContext\<lparr>pszInput := r, bError := bError psContext \<or> bEof\<rparr>))
          else if chNext = CHR ''<'' \<and> EQUALN s ''![CDATA['' 8 then
            (let (tok, r) = read_until_str '']]>'' (drop 8 s) []
             in Some (TString, tok, psContext\<lparr>pszInput := drop 3 r\<rparr>))
          else (case read_single chNext s bIn of
            Some (ty, r, bIn') \<Rightarrow> Some (ty, [], psContext\<lparr>pszInput := r, bInElement := bIn'\<rparr>)
          | None \<Rightarrow>
            if bIn \<and> (chNext = CHR 0x22 \<or> chNext = CHR 0x27) then
              (let (tok, r, bClosed) = read_quoted chNext s []
               in Some (if bClosed then TString else TNone, unescape_token tok,
                        psContext\<lparr>pszInput := r, bError := bError psContext \<or> \<not> bClosed\<rparr>))
            else if \<not> bIn then
              (let (tok, r) = read_text s [chNext]
               in Some (TString, unescape_token tok, psContext\<lparr>pszInput := r\<rparr>))
            else
              (let (tok, r) = read_name s [chNext]
               in Some (TToken, tok, psContext\<lparr>pszInput := r\<rparr>))))"

section \<open>Building the tree\<close>

text \<open>Attaching a node behind the last child of the innermost open element, or at the top
  level.\<close>

fun attach_at :: "nat \<Rightarrow> CPLXMLNode \<Rightarrow> CPLXMLNode list \<Rightarrow> CPLXMLNode list" where
  "attach_at n psNode [] = [psNode]"
| "attach_at 0 psNode (x # xs) = x # xs @ [psNode]"
| "attach_at (Suc n) psNode [x] =
     [XMLNode (eType x) (pszValue x) (attach_at n psNode (psChild x))]"
| "attach_at (Suc n) psNode (x # y # zs) = x # attach_at (Suc n) psNode (y # zs)"

definition AttachNode :: "CPLXMLNode \<Rightarrow> ParseContext \<Rightarrow> ParseContext" where
  "AttachNode psNode psContext =
     psContext\<lparr>psFirstNode := attach_at (length (papsStack psContext)) psNode (psFirstNode psContext)\<rparr>"

definition PushNode :: "CPLXMLNode \<Rightarrow> ParseContext \<Rightarrow> ParseContext" where
  "PushNode psNode psContext = psContext\<lparr>papsStack := pszValue psNode # papsStack psContext\<rparr>"

definition PopNode :: "ParseContext \<Rightarrow> ParseContext" where
  "PopNode psContext = psContext\<lparr>papsStack := tl (papsStack psContext)\<rparr>"

definition ReportError :: "ParseContext \<Rightarrow> ParseContext" where
  "ReportError psContext = psContext\<lparr>bError := True\<rparr>"

text \<open>The branches of the main loop.  \<open>Inl\<close> is a \<^verbatim>\<open>break\<close>, always after a report.\<close>

definition on_TOpen :: "ParseContext \<Rightarrow> (ParseContext + ParseContext) option" where
  "on_TOpen ctx = do {
     (ty, tok, ctx1) \<leftarrow> ReadToken ctx;
     (if ty \<noteq> TToken then Some (Inl (ReportError ctx1))
      else if take 1 tok \<noteq> ''/'' then
        (let psElement = CPLCreateXMLNode CXT_Element tok
         in Some (Inr (PushNode psElement (AttachNode psElement ctx1))))
      else
        (case papsStack ctx1 of
           [] \<Rightarrow> Some (Inl (ReportError ctx1))
         | opened # _ \<Rightarrow>
             (if \<not> EQUAL (drop 1 tok) opened then Some (Inl (ReportError ctx1))
              else do {
                (ty2, _, ctx2) \<leftarrow> ReadToken ctx1;
                Some (if ty2 \<noteq> TClose then Inl (ReportError ctx2) else Inr (PopNode ctx2))
              })))
   }"

definition on_TToken :: "cstring \<Rightarrow> ParseContext \<Rightarrow> (ParseContext + ParseContext) option" where
  "on_TToken tok ctx = do {
     let ctx0 = AttachNode (CPLCreateXMLNode CXT_Attribute tok) ctx;
     (ty1, _, ctx1) \<leftarrow> ReadToken ctx0;
     (if ty1 \<noteq> TEqual then Some (Inl (ReportError ctx1))
      else do {
        (ty2, tok2, ctx2) \<leftarrow> ReadToken ctx1;
        Some (if ty2 \<noteq> TString \<and> ty2 \<noteq> TToken then Inl (ReportError ctx2)
              else Inr (ctx2\<lparr>psFirstNode :=
                         attach_at (Suc (length (papsStack ctx2)))
                           (CPLCreateXMLNode CXT_Text tok2) (psFirstNode ctx2)\<rparr>))
      })
   }"

definition on_token ::
    "XMLTokenType \<Rightarrow> cstring \<Rightarrow> ParseContext \<Rightarrow> (ParseContext + ParseContext) option" where
  "on_token ty tok ctx =
     (case ty of
        TOpen \<Rightarrow> on_TOpen ctx
      | TToken \<Rightarrow> on_TToken tok ctx
      | TClose \<Rightarrow> Some (if papsStack ctx = [] then Inl (ReportError ctx) else Inr ctx)
      | TSlashClose \<Rightarrow>
          Some (if papsStack ctx = [] then Inl (ReportError ctx) else Inr (PopNode ctx))
      | TQuestionClose \<Rightarrow>
          Some (case papsStack ctx of
                  [] \<Rightarrow> Inl (ReportError ctx)
                | opened # _ \<Rightarrow> (if take 1 opened \<noteq> ''?'' then Inl (ReportError ctx) else Inr (PopNode ctx)))
      | TComment \<Rightarrow> Some (Inr (AttachNode (CPLCreateXMLNode CXT_Comment tok) ctx))
      | TLiteral \<Rightarrow> Some (Inr (AttachNode (CPLCreateXMLNode CXT_Literal tok) ctx))
      | TString \<Rightarrow>
          Some (if \<not> bInElement ctx then Inr (AttachNode (CPLCreateXMLNode CXT_Text tok) ctx)
                else Inl (ReportError ctx))
      | _ \<Rightarrow> Some (Inl (ReportError ctx)))"

subsection \<open>Every token consumes input\<close>

lemma read_until_str_length: "length (snd (read_until_str cl s tok)) \<le> length s"
  by (induction cl s tok rule: read_until_str.induct) auto

lemma read_doctype_length: "read_doctype s q tok = Some (tok', r, e) \<Longrightarrow> length r \<le> length s"
proof (induction s q tok rule: read_doctype.induct)
  case (2 c s q tok)
  from 2(2) obtain ch tok2 s2 where x: "doctype_char c s tok = Some (ch, tok2, s2)"
    by (auto split: option.splits)
  have s2: "length s2 \<le> length s" using x by (rule doctype_char_length)
  let ?q = "if ch = CHR 0x22 then \<not> q else q"
  show ?case
  proof (cases "ch = CHR ''>'' \<and> \<not> ?q")
    case True
    with 2(2) x s2 show ?thesis by (auto simp: Let_def split: if_splits)
  next
    case False
    with 2(2) x have "read_doctype s2 ?q (tok2 @ [ch]) = Some (tok', r, e)"
      by (simp add: Let_def del: if_split)
    from 2(1) [OF x refl refl refl False this] s2 show ?thesis by simp
  qed
qed simp

lemma read_quoted_length: "length (fst (snd (read_quoted q s tok))) \<le> length s"
  by (induction q s tok rule: read_quoted.induct) auto

lemma read_text_length: "length (snd (read_text s tok)) \<le> length s"
  by (induction s tok rule: read_text.induct) (auto simp: UnreadChar_def)

lemma read_name_length: "length (snd (read_name s tok)) \<le> length s"
  by (induction s tok rule: read_name.induct) (auto simp: UnreadChar_def)

lemma ReadToken_length:
  assumes "ReadToken ctx = Some (ty, tok, ctx')"
  shows "length (pszInput ctx') \<le> length (pszInput ctx) \<and>
    (ty \<noteq> TNone \<longrightarrow> length (pszInput ctx') < length (pszInput ctx))"
proof (cases "dropWhile c_isspace (pszInput ctx)")
  case Nil
  with assms show ?thesis by (auto simp: ReadToken_def)
next
  case (Cons c s)
  have len: "Suc (length s) \<le> length (pszInput ctx)"
    using length_dropWhile_le [of c_isspace "pszInput ctx"] Cons by simp
  have drops: "length (drop k (snd (read_until_str cl (drop j s) []))) \<le> length s" for k j cl
    using read_until_str_length [of cl "drop j s" "[]"] by simp
  let ?bIn = "bInElement ctx"
  let ?comment = "c = CHR ''<'' \<and> EQUALN s ''!--'' 3"
  let ?doctype = "c = CHR ''<'' \<and> EQUALN s ''!DOCTYPE'' 8"
  let ?cdata = "c = CHR ''<'' \<and> EQUALN s ''![CDATA['' 8"
  note unfolded = assms [unfolded ReadToken_def Cons list.case Let_def case_prod_beta]
  consider (comment) ?comment | (doctype) "\<not> ?comment" ?doctype
    | (cdata) "\<not> ?comment" "\<not> ?doctype" ?cdata
    | (single) ty' r b where "\<not> ?comment" "\<not> ?doctype" "\<not> ?cdata" "read_single c s ?bIn = Some (ty', r, b)"
    | (other) "\<not> ?comment" "\<not> ?doctype" "\<not> ?cdata" "read_single c s ?bIn = None"
    by (cases "read_single c s ?bIn") auto
  then have "length (pszInput ctx') \<le> length s"
  proof cases
    case comment
    with unfolded drops [of 3 "''-->''" 3] show ?thesis by auto
  next
    case doctype
    obtain t r e where d: "read_doctype s False ''<'' = Some (t, r, e)"
      using unfolded doctype by (cases "read_doctype s False ''<''") auto
    then show ?thesis using unfolded doctype read_doctype_length [OF d] by auto
  next
    case cdata
    with unfolded drops [of 3 "'']]>''" 8] show ?thesis by auto
  next
    case single
    then have "length r \<le> length s" by (auto simp: read_single_def split: if_splits)
    with unfolded single show ?thesis by auto
  next
    case other
    have "length (fst (snd (read_quoted c s []))) \<le> length s" "length (snd (read_text s [c])) \<le> length s"
      "length (snd (read_name s [c])) \<le> length s"
      by (rule read_quoted_length read_text_length read_name_length)+
    with unfolded other show ?thesis by (auto split: if_splits)
  qed
  with len show ?thesis by simp
qed

lemma on_token_length:
  assumes "on_token ty tok ctx = Some (Inr ctx')"
  shows "length (pszInput ctx') \<le> length (pszInput ctx)"
  using assms
  by (cases ty)
    (auto simp: on_token_def on_TOpen_def on_TToken_def PopNode_def AttachNode_def PushNode_def Let_def
      split: if_splits Option.bind_splits list.splits dest!: ReadToken_length intro: le_trans)

section \<open>The parser\<close>

function xml_loop :: "ParseContext \<Rightarrow> ParseContext option" where
  "xml_loop ctx =
     (case ReadToken ctx of
        None \<Rightarrow> None
      | Some (ty, tok, ctx1) \<Rightarrow>
          (if ty = TNone then Some ctx1
           else (case on_token ty tok ctx1 of
                   None \<Rightarrow> None
                 | Some (Inl ctx2) \<Rightarrow> Some ctx2
                 | Some (Inr ctx2) \<Rightarrow> xml_loop ctx2)))"
  by pat_completeness auto
termination
proof (relation "measure (\<lambda>ctx. length (pszInput ctx))", goal_cases)
  case (2 ctx a ty b tok ctx1 r ctx2)
  then show ?case using ReadToken_length [of ctx ty tok ctx1] on_token_length [of ty tok ctx1 ctx2] by simp
qed simp

declare xml_loop.simps [simp del]

text \<open>The result is the chain of the top level nodes, NULL after an error; \<open>None\<close> means that the
  parser does not return.\<close>

definition CPLParseXMLString :: "cstring option \<Rightarrow> CPLXMLNode list option" where
  "CPLParseXMLString pszString =
     (case pszString of
        None \<Rightarrow> Some []
      | Some s \<Rightarrow> do {
          ctx \<leftarrow> xml_loop \<lparr>pszInput = s, bInElement = False, papsStack = [], psFirstNode = [], bError = False\<rparr>;
          Some (if bError ctx \<or> papsStack ctx \<noteq> [] then [] else psFirstNode ctx)
        })"

section \<open>The serializer\<close>

text \<open>The output buffer: its text and its size.  \<open>nLength\<close> is brought to the end of the text at
  every entry, so every store is at the end of the text; it must leave room for the NUL.\<close>

record xml_out =
  pszText :: cstring
  nMaxLength :: nat

definition GrowBuffer :: "nat \<Rightarrow> xml_out \<Rightarrow> xml_out" where
  "GrowBuffer nNeeded b =
     (if nMaxLength b \<le> nNeeded + 1 then b\<lparr>nMaxLength := max (nMaxLength b * 2) (nNeeded + 1)\<rparr> else b)"

definition out_put :: "cstring \<Rightarrow> xml_out \<Rightarrow> xml_out option" where
  "out_put s b =
     (if length (pszText b) + length s < nMaxLength b then Some (b\<lparr>pszText := pszText b @ s\<rparr>) else None)"

abbreviation spaces :: "nat \<Rightarrow> cstring" where
  "spaces n \<equiv> replicate n (CHR '' '')"

fun CPLSerializeXMLNode :: "CPLXMLNode \<Rightarrow> nat \<Rightarrow> xml_out \<Rightarrow> xml_out option"
  and serialize_attributes :: "CPLXMLNode list \<Rightarrow> xml_out \<Rightarrow> xml_out option"
  and serialize_children :: "CPLXMLNode list \<Rightarrow> nat \<Rightarrow> bool \<Rightarrow> xml_out \<Rightarrow> (bool \<times> xml_out) option" where
  "CPLSerializeXMLNode (XMLNode ty v kids) nIndent b =
     (let b0 = GrowBuffer (length v + length (pszText b) + 40 + nIndent) b
      in case ty of
        CXT_Text \<Rightarrow> do {
          esc \<leftarrow> CPLEscapeString (v @ [NUL]) (-1) CPLES_XML;
          out_put esc (GrowBuffer (length esc + length (pszText b0)) b0)
        }
      | CXT_Attribute \<Rightarrow> do {
          b1 \<leftarrow> out_put ('' '' @ v @ [CHR ''='', CHR 0x22]) b0;
          b2 \<leftarrow> (case kids of [] \<Rightarrow> Some b1 | k # _ \<Rightarrow> CPLSerializeXMLNode k 0 b1);
          out_put [CHR 0x22] b2
        }
      | CXT_Comment \<Rightarrow> out_put (spaces nIndent @ ''<!--'' @ v @ ''-->'' @ [CHR 0x0A]) b0
      | CXT_Literal \<Rightarrow> out_put (spaces nIndent @ v @ [CHR 0x0A]) b0
      | CXT_Element \<Rightarrow> do {
          b1 \<leftarrow> out_put (spaces nIndent @ ''<'' @ v) b0;
          b2 \<leftarrow> serialize_attributes kids b1;
          (if \<forall>k \<in> set kids. eType k = CXT_Attribute
           then out_put ((if take 1 v = ''?'' then ''?>'' else ''/>'') @ [CHR 0x0A]) b2
           else do {
             b3 \<leftarrow> out_put ''>'' b2;
             (bJustText, b4) \<leftarrow> serialize_children kids nIndent True b3;
             let b5 = GrowBuffer (length v + length (pszText b4) + 40 + nIndent) b4;
             out_put ((if bJustText then [] else spaces nIndent) @ ''</'' @ v @ ''>'' @ [CHR 0x0A]) b5
           })
        })"
| "serialize_attributes [] b = Some b"
| "serialize_attributes (k # ks) b =
     (if eType k = CXT_Attribute
      then do { b' \<leftarrow> CPLSerializeXMLNode k 0 b; serialize_attributes ks b' }
      else serialize_attributes ks b)"
| "serialize_children [] nIndent bJustText b = Some (bJustText, b)"
| "serialize_children (k # ks) nIndent bJustText b =
     (if eType k = CXT_Attribute then serialize_children ks nIndent bJustText b
      else if eType k \<noteq> CXT_Text \<and> bJustText
      then do {
        b1 \<leftarrow> out_put [CHR 0x0A] b;
        b2 \<leftarrow> CPLSerializeXMLNode k (nIndent + 2) b1;
        serialize_children ks nIndent False b2
      }
      else do {
        b2 \<leftarrow> CPLSerializeXMLNode k (nIndent + 2) b;
        serialize_children ks nIndent bJustText b2
      })"

fun serialize_chain :: "CPLXMLNode list \<Rightarrow> xml_out \<Rightarrow> xml_out option" where
  "serialize_chain [] b = Some b"
| "serialize_chain (n # ns) b = do { b' \<leftarrow> CPLSerializeXMLNode n 0 b; serialize_chain ns b' }"

definition CPLSerializeXMLTree :: "CPLXMLNode list \<Rightarrow> cstring option" where
  "CPLSerializeXMLTree psNode =
     map_option pszText (serialize_chain psNode \<lparr>pszText = [], nMaxLength = 100\<rparr>)"

end
