(* ===== verification/Mini_Xml_Facts.thy ===== *)
theory Mini_Xml_Facts
  imports Mini_Xml Cpl_Escape_Facts
begin

text \<open>
  Parsing what the serializer writes.  The text of a tree is defined without the output buffer;
  the serializer is shown to produce it when no attribute value grows beyond the slack of the
  buffer, and the parser to read it back, for the trees a document can denote.
\<close>

section \<open>The text of a tree\<close>

abbreviation xml_esc :: "cstring \<Rightarrow> cstring" where
  "xml_esc v \<equiv> concat (map esc_xml v)"

fun xml_text :: "CPLXMLNode \<Rightarrow> nat \<Rightarrow> cstring"
  and attributes_text :: "CPLXMLNode list \<Rightarrow> cstring"
  and children_text :: "CPLXMLNode list \<Rightarrow> nat \<Rightarrow> bool \<Rightarrow> cstring" where
  "xml_text (XMLNode ty v kids) ind =
     (case ty of
        CXT_Text \<Rightarrow> xml_esc v
      | CXT_Attribute \<Rightarrow>
          '' '' @ v @ [CHR ''='', CHR 0x22] @ (case kids of [] \<Rightarrow> [] | k # _ \<Rightarrow> xml_text k 0) @ [CHR 0x22]
      | CXT_Comment \<Rightarrow> spaces ind @ ''<!--'' @ v @ ''-->'' @ [CHR 0x0A]
      | CXT_Literal \<Rightarrow> spaces ind @ v @ [CHR 0x0A]
      | CXT_Element \<Rightarrow>
          spaces ind @ ''<'' @ v @ attributes_text kids @
          (if \<forall>k \<in> set kids. eType k = CXT_Attribute
           then (if take 1 v = ''?'' then ''?>'' else ''/>'') @ [CHR 0x0A]
           else ''>'' @ children_text kids ind True @
             (if \<forall>k \<in> set kids. eType k \<in> {CXT_Attribute, CXT_Text} then [] else spaces ind) @
             ''</'' @ v @ ''>'' @ [CHR 0x0A]))"
| "attributes_text [] = []"
| "attributes_text (k # ks) =
     (if eType k = CXT_Attribute then xml_text k 0 else []) @ attributes_text ks"
| "children_text [] ind just = []"
| "children_text (k # ks) ind just =
     (if eType k = CXT_Attribute then children_text ks ind just
      else (if eType k \<noteq> CXT_Text \<and> just then [CHR 0x0A] else []) @ xml_text k (ind + 2) @
        children_text ks ind (just \<and> eType k = CXT_Text))"

section \<open>The trees of documents\<close>

text \<open>Names as the tokenizer reads them, text that does not start with a blank, comments without
  their own end, a DOCTYPE without quotes or declarations; attributes first, each with its value,
  then nothing, one text, or elements and comments.\<close>

definition xml_name :: "cstring \<Rightarrow> bool" where
  "xml_name n = (n \<noteq> [] \<and> (\<forall>c \<in> set n. name_char c))"

definition plain_doctype :: "cstring \<Rightarrow> bool" where
  "plain_doctype v =
     (take 9 v = ''<!DOCTYPE'' \<and> drop 9 v \<noteq> [] \<and> last (drop 9 v) = CHR ''>'' \<and>
       (\<forall>c \<in> set (butlast (drop 9 v)). c \<noteq> CHR ''>'' \<and> c \<noteq> CHR 0x22 \<and> c \<noteq> CHR ''[''))"

fun xml_attribute :: "CPLXMLNode \<Rightarrow> bool" where
  "xml_attribute (XMLNode CXT_Attribute n [XMLNode CXT_Text v []]) = (xml_name n \<and> c_string v)"
| "xml_attribute _ = False"

fun xml_leaf_text :: "CPLXMLNode \<Rightarrow> bool" where
  "xml_leaf_text (XMLNode CXT_Text v []) = (c_string v \<and> v \<noteq> [] \<and> \<not> c_isspace (v ! 0))"
| "xml_leaf_text _ = False"

text \<open>\<open>xml_item t\<close>: \<open>t\<close> is an element, a comment or a DOCTYPE.\<close>

function xml_item :: "CPLXMLNode \<Rightarrow> bool" where
  "xml_item (XMLNode ty v kids) =
     (case ty of
        CXT_Comment \<Rightarrow> kids = [] \<and> c_string v \<and> \<not> strstr_hit v ''-->''
      | CXT_Literal \<Rightarrow> kids = [] \<and> plain_doctype v
      | CXT_Element \<Rightarrow>
          (let as = takeWhile xml_attribute kids; cs = dropWhile xml_attribute kids
           in (if take 1 v = ''?'' then xml_name (drop 1 v) \<and> cs = [] else xml_name v) \<and>
              ((length cs = 1 \<and> list_all xml_leaf_text cs) \<or> (\<forall>t \<in> set cs. xml_item t)))
      | _ \<Rightarrow> False)"
  by pat_completeness auto
termination
proof (relation "measure size", goal_cases)
  case (2 ty v kids as cs t)
  then have "t \<in> set kids" by (metis set_dropWhileD)
  then have "size t \<le> size_list size kids" by (rule size_list_estimation') simp
  then show ?case by simp
qed simp

declare xml_item.simps [simp del]

section \<open>Tokens of serialized text\<close>

lemma name_char_plain:
  assumes "name_char c"
  shows "c \<noteq> NUL \<and> \<not> c_isspace c \<and> c \<noteq> CHR ''<'' \<and> c \<noteq> CHR ''>'' \<and> c \<noteq> CHR ''='' \<and> c \<noteq> CHR ''/'' \<and>
    c \<noteq> CHR ''?'' \<and> c \<noteq> CHR 0x22 \<and> c \<noteq> CHR 0x27 \<and> c \<noteq> CHR ''!''"
  using assms by (auto simp: name_char_def c_isspace_def c_isupper_def c_islower_def c_isdigit_def code_of_def)

text \<open>What stops a name.\<close>

definition ends_name :: "cstring \<Rightarrow> bool" where
  "ends_name r = (r \<noteq> [] \<and> \<not> name_char (r ! 0) \<and> r ! 0 \<noteq> NUL)"

lemma ends_name_Cons [simp]:
  "c \<in> {CHR ''>'', CHR ''='', CHR ''/'', CHR ''?'', CHR '' ''} \<Longrightarrow> ends_name (c # r)"
  by (auto simp: ends_name_def name_char_def c_isupper_def c_islower_def c_isdigit_def code_of_def)

lemma read_name_eq:
  assumes "\<forall>c \<in> set n. name_char c" and "ends_name r"
  shows "read_name (n @ r) tok = (tok @ n, r)"
  using assms
proof (induction n arbitrary: tok)
  case Nil
  then show ?case by (cases r) (auto simp: UnreadChar_def ends_name_def)
qed simp

lemma read_quoted_eq:
  "q \<notin> set v \<Longrightarrow> read_quoted q (v @ q # r) tok = (tok @ v, r, True)"
  by (induction v arbitrary: tok) auto

lemma read_text_eq:
  "CHR ''<'' \<notin> set v \<Longrightarrow> read_text (v @ CHR ''<'' # r) tok = (tok @ v, CHR ''<'' # r)"
  by (induction v arbitrary: tok) (auto simp: UnreadChar_def)

lemma EQUALN_same [simp]: "EQUALN (cl @ r) cl (length cl)"
  by (simp add: EQUALN_def)

lemma strstr_hit_Cons: "\<not> strstr_hit (c # s) n \<Longrightarrow> \<not> strstr_hit s n"
  by (subst (asm) strstr_hit.simps) simp

lemma not_arrow: "\<not> EQUALN (v @ ''-->'' @ r) ''-->'' 3" if "v \<noteq> []" "\<not> strstr_hit v ''-->''" for v r
proof -
  have low: "c_tolower c = CHR ''-'' \<longleftrightarrow> c = CHR ''-''" "c_tolower c = CHR ''>'' \<longleftrightarrow> c = CHR ''>''" for c
    using c_tolower_eq_nonletter [of c "CHR ''-''"] c_tolower_eq_nonletter [of c "CHR ''>''"]
    by (auto simp: c_islower_def c_tolower_def c_isupper_def code_of_def)
  have id: "c_tolower (CHR ''-'') = CHR ''-''" "c_tolower (CHR ''>'') = CHR ''>''" by (simp_all add: low)
  have no: "take 3 v \<noteq> ''-->''"
    using that(2) by (subst (asm) strstr_hit.simps) (simp add: numeral_3_eq_3)
  show ?thesis
  proof (cases v)
    case (Cons a w)
    note a = Cons
    show ?thesis
    proof (cases w)
      case Nil
      then show ?thesis using a by (simp add: EQUALN_def low id)
    next
      case (Cons b x)
      note b = Cons
      show ?thesis
      proof (cases x)
        case Nil
        then show ?thesis using a b by (simp add: EQUALN_def low id)
      next
        case (Cons c y)
        then show ?thesis using a b no by (simp add: EQUALN_def low id numeral_3_eq_3)
      qed
    qed
  qed (use that in simp)
qed

lemma read_until_str_arrow:
  assumes "\<not> strstr_hit v ''-->''"
  shows "read_until_str ''-->'' (v @ ''-->'' @ r) tok = (tok @ v, ''-->'' @ r)"
  using assms
proof (induction v arbitrary: tok)
  case Nil
  have "EQUALN (''-->'' @ r) ''-->'' (length ''-->'')" by (rule EQUALN_same)
  then show ?case by simp
next
  case (Cons c v)
  have "\<not> EQUALN ((c # v) @ ''-->'' @ r) ''-->'' 3" using Cons.prems by (intro not_arrow) simp_all
  with Cons.IH [OF strstr_hit_Cons [OF Cons.prems]] show ?case by (simp add: numeral_3_eq_3)
qed

lemma read_doctype_eq:
  assumes "\<forall>c \<in> set w. c \<noteq> CHR ''>'' \<and> c \<noteq> CHR 0x22 \<and> c \<noteq> CHR ''[''"
  shows "read_doctype (w @ CHR ''>'' # r) False tok = Some (tok @ w @ ''>'', r, False)"
  using assms by (induction w arbitrary: tok) (auto simp: doctype_char_def)

lemma esc_xml_no_quote: "CHR 0x22 \<notin> set (xml_esc v)" "CHR ''<'' \<notin> set (xml_esc v)"
  by (auto simp: esc_xml_def split: if_splits)

lemma unescape_token_esc: "unescape_token (xml_esc v) = v"
proof -
  have "unesc_xml (xml_esc v) = v" using xml.dec_concat [of v] by simp
  moreover have "xml_esc v = v" if "CHR ''&'' \<notin> set (xml_esc v)"
    using that by (induction v) (auto simp: esc_xml_def split: if_splits)
  ultimately show ?thesis by (auto simp: unescape_token_def)
qed

section \<open>The last node at a depth\<close>

fun depth_ok :: "nat \<Rightarrow> CPLXMLNode list \<Rightarrow> bool" where
  "depth_ok 0 F = True"
| "depth_ok (Suc d) F = (F \<noteq> [] \<and> depth_ok d (psChild (last F)))"

lemma attach_at_0 [simp]: "attach_at 0 x F = F @ [x]"
  by (cases F) simp_all

lemma attach_at_snoc [simp]:
  "attach_at (Suc d) x (F @ [y]) = F @ [XMLNode (eType y) (pszValue y) (attach_at d x (psChild y))]"
proof (induction F)
  case (Cons z F)
  then show ?case by (cases F) simp_all
qed simp

lemma attach_at_attach:
  "depth_ok d F \<Longrightarrow>
    attach_at (Suc d) x (attach_at d (XMLNode ty v cs) F) = attach_at d (XMLNode ty v (cs @ [x])) F"
proof (induction d arbitrary: F)
  case (Suc d)
  then obtain G y where "F = G @ [y]" by (cases F rule: rev_cases) auto
  with Suc show ?case by simp
qed simp

lemma depth_ok_attach: "depth_ok d F \<Longrightarrow> depth_ok (Suc d) (attach_at d x F)"
proof (induction d arbitrary: F)
  case (Suc d)
  then obtain G y where "F = G @ [y]" by (cases F rule: rev_cases) auto
  with Suc show ?case by simp
qed simp

lemma depth_ok_pred: "depth_ok (Suc d) F \<Longrightarrow> depth_ok d F"
  by (induction d arbitrary: F) auto

lemma depth_ok_same: "depth_ok d F \<Longrightarrow> depth_ok d (attach_at d x F)"
  by (rule depth_ok_pred) (rule depth_ok_attach)

lemma depth_ok_fold: "depth_ok d F \<Longrightarrow> depth_ok d (fold (attach_at d) xs F)"
  by (induction xs arbitrary: F) (simp_all add: depth_ok_same)

lemma fold_attach_at:
  "depth_ok d F \<Longrightarrow>
    fold (attach_at (Suc d)) xs (attach_at d (XMLNode ty v cs) F) = attach_at d (XMLNode ty v (cs @ xs)) F"
  by (induction xs arbitrary: cs) (simp_all add: attach_at_attach)

section \<open>Parsing the text\<close>

abbreviation outside :: "cstring \<Rightarrow> cstring list \<Rightarrow> CPLXMLNode list \<Rightarrow> ParseContext" where
  "outside s st F \<equiv>
     \<lparr>pszInput = s, bInElement = False, papsStack = st, psFirstNode = F, bError = False\<rparr>"

abbreviation inside :: "cstring \<Rightarrow> cstring list \<Rightarrow> CPLXMLNode list \<Rightarrow> ParseContext" where
  "inside s st F \<equiv>
     \<lparr>pszInput = s, bInElement = True, papsStack = st, psFirstNode = F, bError = False\<rparr>"

lemma ReadToken_space:
  "c_isspace c \<Longrightarrow>
    ReadToken \<lparr>pszInput = c # s, bInElement = b, papsStack = st, psFirstNode = F, bError = False\<rparr> =
    ReadToken \<lparr>pszInput = s, bInElement = b, papsStack = st, psFirstNode = F, bError = False\<rparr>"
proof (cases "dropWhile c_isspace s")
  case Nil
  assume c: "c_isspace c"
  show ?thesis
    by (simp only: ReadToken_def ParseContext.simps dropWhile.simps c if_True Nil list.case)
next
  case (Cons x y)
  assume "c_isspace c"
  with Cons show ?thesis by (auto simp: ReadToken_def Let_def split: prod.split option.split)
qed

lemma xml_loop_space: "c_isspace c \<Longrightarrow> xml_loop (outside (c # s) st F) = xml_loop (outside s st F)"
  by (subst (1 2) xml_loop.simps) (simp add: ReadToken_space)

lemma xml_loop_spaces: "xml_loop (outside (spaces n @ s) st F) = xml_loop (outside s st F)"
  by (induction n) (simp_all add: xml_loop_space c_isspace_def code_of_def)

lemma xml_loop_newline: "xml_loop (outside (CHR 0x0A # s) st F) = xml_loop (outside s st F)"
  by (rule xml_loop_space) (simp add: c_isspace_def code_of_def)

lemma EQUALN_first: "s \<noteq> [] \<Longrightarrow> s ! 0 \<noteq> CHR ''!'' \<Longrightarrow> \<not> EQUALN s (CHR ''!'' # w) (Suc n)"
  using c_tolower_eq_nonletter [of "s ! 0" "CHR ''!''"]
  by (cases s) (auto simp: EQUALN_def c_islower_def c_tolower_def c_isupper_def code_of_def)

lemma not_markup:
  assumes "s \<noteq> []" and "s ! 0 \<noteq> CHR ''!''"
  shows "\<not> EQUALN s ''!--'' 3" "\<not> EQUALN s ''!DOCTYPE'' 8" "\<not> EQUALN s ''![CDATA['' 8"
  using EQUALN_first [OF assms] by (simp_all add: numeral_eq_Suc)

lemma ReadToken_open:
  "s \<noteq> [] \<Longrightarrow> s ! 0 \<noteq> CHR ''!'' \<Longrightarrow>
    ReadToken (outside (CHR ''<'' # s) st F) = Some (TOpen, [], inside s st F)"
  by (simp add: ReadToken_def not_markup read_single_def c_isspace_def code_of_def)

lemma ReadToken_close: "ReadToken (inside (CHR ''>'' # s) st F) = Some (TClose, [], outside s st F)"
  by (simp add: ReadToken_def read_single_def c_isspace_def code_of_def)

lemma ReadToken_slash: "ReadToken (inside (''/>'' @ s) st F) = Some (TSlashClose, [], outside s st F)"
  by (simp add: ReadToken_def read_single_def c_isspace_def code_of_def)

lemma ReadToken_question: "ReadToken (inside (''?>'' @ s) st F) = Some (TQuestionClose, [], outside s st F)"
  by (simp add: ReadToken_def read_single_def c_isspace_def code_of_def)

lemma ReadToken_equal: "ReadToken (inside (CHR ''='' # s) st F) = Some (TEqual, [], inside s st F)"
  by (simp add: ReadToken_def read_single_def c_isspace_def code_of_def)

lemma ReadToken_quoted:
  "ReadToken (inside (CHR 0x22 # xml_esc v @ CHR 0x22 # s) st F) = Some (TString, v, inside s st F)"
  by (simp add: ReadToken_def read_single_def c_isspace_def code_of_def
      read_quoted_eq [OF esc_xml_no_quote(1)] unescape_token_esc)

text \<open>A name, or one of \<open>/\<close> and \<open>?\<close> and a name.\<close>

definition name_start :: "char \<Rightarrow> cstring \<Rightarrow> bool" where
  "name_start c n = (name_char c \<or> (c = CHR ''/'' \<or> c = CHR ''?'') \<and> n \<noteq> [])"

lemma ReadToken_name:
  assumes "name_start c n" and "\<forall>x \<in> set n. name_char x" and "ends_name r"
  shows "ReadToken (inside (c # n @ r) st F) = Some (TToken, c # n, inside r st F)"
proof -
  have c: "\<not> c_isspace c" "c \<noteq> CHR ''<''" "c \<noteq> CHR ''>''" "c \<noteq> CHR ''=''" "c \<noteq> CHR 0x22" "c \<noteq> CHR 0x27"
    using assms(1) name_char_plain [of c] by (auto simp: name_start_def c_isspace_def code_of_def)
  have "take 1 (n @ r) \<noteq> ''>''" if "c = CHR ''/'' \<or> c = CHR ''?''"
  proof -
    have "n \<noteq> []" using that assms(1) name_char_plain [of c] by (auto simp: name_start_def)
    then show ?thesis using assms(2) name_char_plain by (cases n) auto
  qed
  then have "read_single c (n @ r) True = None" using c by (auto simp: read_single_def)
  with c read_name_eq [OF assms(2,3), of "[c]"] show ?thesis
    by (simp add: ReadToken_def)
qed

lemma ReadToken_text:
  assumes "xml_esc v \<noteq> []" and "\<not> c_isspace (xml_esc v ! 0)"
  shows "ReadToken (outside (xml_esc v @ CHR ''<'' # r) st F) =
    Some (TString, v, outside (CHR ''<'' # r) st F)"
proof -
  obtain c w where cw: "xml_esc v = c # w" using assms(1) by (cases "xml_esc v") auto
  with esc_xml_no_quote(2) [of v] have lt: "c \<noteq> CHR ''<''" "CHR ''<'' \<notin> set w" by auto
  have "unescape_token (c # w) = v" using unescape_token_esc [of v] cw by simp
  with cw lt assms(2) read_text_eq [OF lt(2), of r "[c]"] show ?thesis
    by (simp add: ReadToken_def read_single_def)
qed

text \<open>One step of the main loop.\<close>

lemma xml_loop_step:
  "ReadToken ctx = Some (ty, tok, ctx1) \<Longrightarrow> ty \<noteq> TNone \<Longrightarrow> on_token ty tok ctx1 = Some (Inr ctx2) \<Longrightarrow>
    xml_loop ctx = xml_loop ctx2"
  by (subst xml_loop.simps) simp

lemma parse_attribute:
  assumes "xml_attribute a" and "depth_ok (length st) F"
  shows "xml_loop (inside (xml_text a 0 @ r) st F) = xml_loop (inside r st (attach_at (length st) a F))"
proof -
  obtain n v where a: "a = XMLNode CXT_Attribute n [XMLNode CXT_Text v []]" and n: "xml_name n"
    and v: "c_string v"
    using assms(1) by (cases a rule: xml_attribute.cases) auto
  obtain c m where cm: "n = c # m" "name_char c" "\<forall>x \<in> set m. name_char x"
    using n by (cases n) (auto simp: xml_name_def)
  let ?r = "CHR 0x22 # xml_esc v @ CHR 0x22 # r"
  let ?F = "attach_at (length st) (XMLNode CXT_Attribute n []) F"
  have tx: "xml_text a 0 @ r = CHR '' '' # c # m @ CHR ''='' # ?r" by (simp add: a cm)
  have "name_start c m" using cm(2) by (simp add: name_start_def)
  from ReadToken_name [OF this cm(3), of "CHR ''='' # ?r" st F]
  have "ReadToken (inside (c # m @ CHR ''='' # ?r) st F) = Some (TToken, n, inside (CHR ''='' # ?r) st F)"
    by (simp add: cm(1))
  moreover have "ReadToken (inside (CHR '' '' # c # m @ CHR ''='' # ?r) st F) =
      ReadToken (inside (c # m @ CHR ''='' # ?r) st F)"
    by (rule ReadToken_space) (simp add: c_isspace_def code_of_def)
  ultimately have t1: "ReadToken (inside (xml_text a 0 @ r) st F) = Some (TToken, n, inside (CHR ''='' # ?r) st F)"
    by (simp only: tx)
  have "on_token TToken n (inside (CHR ''='' # ?r) st F) =
      Some (Inr (inside r st (attach_at (Suc (length st)) (XMLNode CXT_Text v []) ?F)))"
    by (simp add: on_token_def on_TToken_def AttachNode_def CPLCreateXMLNode_def ReadToken_equal
        ReadToken_quoted)
  then have "on_token TToken n (inside (CHR ''='' # ?r) st F) = Some (Inr (inside r st (attach_at (length st) a F)))"
    using attach_at_attach [OF assms(2)] by (simp add: a)
  with t1 show ?thesis by (intro xml_loop_step) simp_all
qed

lemma xml_attribute_type: "xml_attribute a \<Longrightarrow> eType a = CXT_Attribute"
  by (cases a rule: xml_attribute.cases) auto

lemma parse_attributes:
  "\<forall>a \<in> set as. xml_attribute a \<Longrightarrow> depth_ok (length st) F \<Longrightarrow>
    xml_loop (inside (attributes_text as @ r) st F) =
    xml_loop (inside r st (fold (attach_at (length st)) as F))"
proof (induction as arbitrary: F)
  case (Cons a as)
  then show ?case
    using parse_attribute [of a st F "attributes_text as @ r"]
    by (simp add: xml_attribute_type depth_ok_same)
qed simp

text \<open>The text of an attribute list starts with a blank, so a name in front of it ends there.\<close>

lemma attributes_text_first:
  assumes "\<forall>a \<in> set as. xml_attribute a" and "ends_name r"
  shows "ends_name (attributes_text as @ r)"
proof (cases as)
  case (Cons a bs)
  then have "xml_attribute a" using assms(1) by simp
  then obtain n v where "a = XMLNode CXT_Attribute n [XMLNode CXT_Text v []]"
    by (cases a rule: xml_attribute.cases) auto
  with Cons show ?thesis by simp
qed (use assms in simp)

lemma attributes_text_append:
  "\<forall>a \<in> set as. xml_attribute a \<Longrightarrow> \<forall>c \<in> set cs. eType c \<noteq> CXT_Attribute \<Longrightarrow>
    attributes_text (as @ cs) = attributes_text as"
  by (induction as) (simp, induction cs, simp_all)

lemma children_text_append:
  "\<forall>a \<in> set as. xml_attribute a \<Longrightarrow> children_text (as @ cs) ind just = children_text cs ind just"
  by (induction as) (simp_all add: xml_attribute_type)

lemma xml_item_type: "xml_item t \<Longrightarrow> eType t \<in> {CXT_Element, CXT_Comment, CXT_Literal}"
  by (cases t; cases "eType t") (simp_all add: xml_item.simps)

lemma xml_leaf_text_type: "xml_leaf_text t \<Longrightarrow> eType t = CXT_Text"
  by (cases t rule: xml_leaf_text.cases) auto

text \<open>The opening of an element up to its attributes, and its closing tag.\<close>

lemma parse_open:
  assumes "v = c # m" and "name_start c m" and "c \<noteq> CHR ''/''" and "\<forall>x \<in> set m. name_char x"
    and "\<forall>a \<in> set as. xml_attribute a" and "depth_ok (length st) F"
    and "ends_name r"
  shows "xml_loop (outside (spaces ind @ ''<'' @ v @ attributes_text as @ r) st F) =
    xml_loop (inside r (v # st) (attach_at (length st) (XMLNode CXT_Element v as) F))"
proof -
  let ?r = "attributes_text as @ r"
  let ?F = "attach_at (length st) (XMLNode CXT_Element v []) F"
  have c: "c \<noteq> CHR ''!''" using assms(2) name_char_plain [of c] by (auto simp: name_start_def)
  have t1: "ReadToken (outside (CHR ''<'' # v @ ?r) st F) = Some (TOpen, [], inside (v @ ?r) st F)"
    using c assms(1) by (intro ReadToken_open) simp_all
  have t2: "ReadToken (inside (v @ ?r) st F) = Some (TToken, v, inside ?r st F)"
    using ReadToken_name [OF assms(2,4)] attributes_text_first [OF assms(5,7)] assms(1) by simp
  have "take 1 v \<noteq> ''/''" using assms(1,3) by simp
  then have "on_token TOpen [] (inside (v @ ?r) st F) = Some (Inr (inside ?r (v # st) ?F))"
    by (simp add: on_token_def on_TOpen_def t2 AttachNode_def PushNode_def CPLCreateXMLNode_def)
  with t1 have "xml_loop (outside (CHR ''<'' # v @ ?r) st F) = xml_loop (inside ?r (v # st) ?F)"
    by (intro xml_loop_step) simp_all
  also have "\<dots> = xml_loop (inside r (v # st) (fold (attach_at (Suc (length st))) as ?F))"
    using parse_attributes [OF assms(5), of "v # st" ?F] depth_ok_attach [OF assms(6)] by simp
  also have "fold (attach_at (Suc (length st))) as ?F = attach_at (length st) (XMLNode CXT_Element v as) F"
    using fold_attach_at [OF assms(6)] by simp
  finally show ?thesis by (simp add: xml_loop_spaces)
qed

lemma parse_close:
  assumes "xml_name v"
  shows "xml_loop (outside (''</'' @ v @ ''>'' @ r) (v # st) F) = xml_loop (outside r st F)"
proof -
  obtain c m where cm: "v = c # m" using assms(1) by (cases v) (auto simp: xml_name_def)
  have t1: "ReadToken (outside (''</'' @ v @ ''>'' @ r) (v # st) F) =
      Some (TOpen, [], inside (CHR ''/'' # v @ ''>'' @ r) (v # st) F)"
    using ReadToken_open [of "CHR ''/'' # v @ ''>'' @ r" "v # st" F] by simp
  have "name_start (CHR ''/'') v" using cm by (simp add: name_start_def)
  then have t2: "ReadToken (inside (CHR ''/'' # v @ ''>'' @ r) (v # st) F) =
      Some (TToken, CHR ''/'' # v, inside (''>'' @ r) (v # st) F)"
    using assms by (intro ReadToken_name) (simp_all add: xml_name_def)
  have t3: "ReadToken (inside (''>'' @ r) (v # st) F) = Some (TClose, [], outside r (v # st) F)"
    using ReadToken_close [of r "v # st" F] by simp
  have "on_token TOpen [] (inside (CHR ''/'' # v @ ''>'' @ r) (v # st) F) = Some (Inr (outside r st F))"
    using t2 t3 by (simp add: on_token_def on_TOpen_def PopNode_def)
  with t1 show ?thesis by (intro xml_loop_step) simp_all
qed

section \<open>Parsing an item\<close>

lemma parse_comment:
  assumes "\<not> strstr_hit v ''-->''"
  shows "xml_loop (outside (spaces ind @ ''<!--'' @ v @ ''-->'' @ [CHR 0x0A] @ r) st F) =
    xml_loop (outside r st (attach_at (length st) (XMLNode CXT_Comment v []) F))"
proof -
  let ?s = "''!--'' @ v @ ''-->'' @ [CHR 0x0A] @ r"
  have "EQUALN ?s ''!--'' (length ''!--'')" by (rule EQUALN_same)
  moreover have "read_until_str ''-->'' (v @ ''-->'' @ [CHR 0x0A] @ r) [] = (v, ''-->'' @ [CHR 0x0A] @ r)"
    using read_until_str_arrow [OF assms, of "[CHR 0x0A] @ r" "[]"] by simp
  ultimately have "ReadToken (outside (CHR ''<'' # ?s) st F) = Some (TComment, v, outside (CHR 0x0A # r) st F)"
    by (simp add: ReadToken_def c_isspace_def code_of_def numeral_3_eq_3)
  then have "xml_loop (outside (CHR ''<'' # ?s) st F) =
      xml_loop (outside (CHR 0x0A # r) st (attach_at (length st) (XMLNode CXT_Comment v []) F))"
    by (rule xml_loop_step) (simp_all add: on_token_def AttachNode_def CPLCreateXMLNode_def)
  then show ?thesis by (simp add: xml_loop_spaces xml_loop_newline)
qed

lemma parse_doctype:
  assumes "plain_doctype v"
  shows "xml_loop (outside (spaces ind @ v @ [CHR 0x0A] @ r) st F) =
    xml_loop (outside r st (attach_at (length st) (XMLNode CXT_Literal v []) F))"
proof -
  obtain w where v: "v = ''<!DOCTYPE'' @ w @ ''>''"
    and w: "\<forall>c \<in> set w. c \<noteq> CHR ''>'' \<and> c \<noteq> CHR 0x22 \<and> c \<noteq> CHR ''[''"
  proof (rule that)
    have "drop 9 v = butlast (drop 9 v) @ ''>''"
      using assms append_butlast_last_id [of "drop 9 v"] by (simp add: plain_doctype_def)
    then show "v = ''<!DOCTYPE'' @ butlast (drop 9 v) @ ''>''"
      using assms append_take_drop_id [of 9 v] by (metis plain_doctype_def)
  qed (use assms in \<open>simp add: plain_doctype_def\<close>)
  define s where "s = ''!DOCTYPE'' @ w @ ''>'' @ [CHR 0x0A] @ r"
  have "EQUALN s ''!DOCTYPE'' 8"
    using EQUALN_same [of "''!DOCTYPE''" "w @ ''>'' @ [CHR 0x0A] @ r"] by (simp add: numeral_eq_Suc s_def)
  moreover have "c_tolower (CHR ''D'') \<noteq> CHR ''-''" "c_tolower (CHR ''-'') = CHR ''-''"
    using c_tolower_eq_nonletter [of "CHR ''D''" "CHR ''-''"]
    by (auto simp: c_islower_def c_tolower_def [of "CHR ''-''"] c_isupper_def code_of_def)
  then have "\<not> EQUALN s ''!--'' 3" by (simp add: EQUALN_def numeral_3_eq_3 s_def)
  moreover have "read_doctype s False ''<'' = Some (v, CHR 0x0A # r, False)"
    using read_doctype_eq [of "''!DOCTYPE'' @ w" "CHR 0x0A # r" "''<''"] w v by (simp add: s_def)
  ultimately have "ReadToken (outside (CHR ''<'' # s) st F) = Some (TLiteral, v, outside (CHR 0x0A # r) st F)"
    by (simp add: ReadToken_def c_isspace_def code_of_def)
  then have "xml_loop (outside (CHR ''<'' # s) st F) =
      xml_loop (outside (CHR 0x0A # r) st (attach_at (length st) (XMLNode CXT_Literal v []) F))"
    by (rule xml_loop_step) (simp_all add: on_token_def AttachNode_def CPLCreateXMLNode_def)
  moreover have "v @ [CHR 0x0A] @ r = CHR ''<'' # s" by (simp add: v s_def)
  ultimately show ?thesis by (simp only: xml_loop_spaces xml_loop_newline)
qed

text \<open>An element without children ends with \<open>/>\<close> or \<open>?>\<close>.\<close>

lemma parse_empty_end:
  assumes "v \<noteq> []"
  shows "xml_loop (inside ((if take 1 v = ''?'' then ''?>'' else ''/>'') @ [CHR 0x0A] @ r) (v # st) F) =
    xml_loop (outside r st F)"
proof (cases "take 1 v = ''?''")
  case True
  have "xml_loop (inside (''?>'' @ [CHR 0x0A] @ r) (v # st) F) = xml_loop (outside (CHR 0x0A # r) st F)"
    using True xml_loop_step [OF ReadToken_question [of "CHR 0x0A # r" "v # st" F]]
    by (simp add: on_token_def PopNode_def)
  with True show ?thesis by (simp add: xml_loop_newline)
next
  case False
  have "xml_loop (inside (''/>'' @ [CHR 0x0A] @ r) (v # st) F) = xml_loop (outside (CHR 0x0A # r) st F)"
    using xml_loop_step [OF ReadToken_slash [of "CHR 0x0A # r" "v # st" F]]
    by (simp add: on_token_def PopNode_def)
  with False show ?thesis by (simp add: xml_loop_newline)
qed

lemma parse_start_end:
  "xml_loop (inside (CHR ''>'' # r) (v # st) F) = xml_loop (outside r (v # st) F)"
  using xml_loop_step [OF ReadToken_close [of r "v # st" F]] by (simp add: on_token_def)

lemma parse_leaf_text:
  assumes "xml_leaf_text t"
  shows "xml_loop (outside (xml_text t ind @ ''</'' @ r) st F) =
    xml_loop (outside (''</'' @ r) st (attach_at (length st) t F))"
proof -
  obtain v where t: "t = XMLNode CXT_Text v []" and v: "v \<noteq> []" "\<not> c_isspace (v ! 0)"
    using assms by (cases t rule: xml_leaf_text.cases) auto
  then obtain c w where cw: "v = c # w" by (cases v) auto
  have "xml_esc v \<noteq> [] \<and> \<not> c_isspace (xml_esc v ! 0)"
    using v cw by (auto simp: esc_xml_def c_isspace_def code_of_def)
  then have "ReadToken (outside (xml_esc v @ CHR ''<'' # CHR ''/'' # r) st F) =
      Some (TString, v, outside (''</'' @ r) st F)"
    using ReadToken_text [of v "CHR ''/'' # r" st F] by simp
  then have "xml_loop (outside (xml_esc v @ CHR ''<'' # CHR ''/'' # r) st F) =
      xml_loop (outside (''</'' @ r) st (attach_at (length st) t F))"
    by (rule xml_loop_step) (simp_all add: on_token_def AttachNode_def CPLCreateXMLNode_def t)
  with t show ?thesis by simp
qed

lemma parse_items:
  assumes "\<And>t ind r st F. t \<in> set ts \<Longrightarrow> depth_ok (length st) F \<Longrightarrow>
      xml_loop (outside (xml_text t ind @ r) st F) = xml_loop (outside r st (attach_at (length st) t F))"
    and "\<forall>t \<in> set ts. xml_item t" and "depth_ok (length st) F"
  shows "xml_loop (outside (children_text ts ind just @ r) st F) =
    xml_loop (outside r st (fold (attach_at (length st)) ts F))"
  using assms
proof (induction ts arbitrary: F just)
  case (Cons t ts)
  have ty: "eType t \<noteq> CXT_Attribute" "eType t \<noteq> CXT_Text"
    using Cons.prems(2) xml_item_type [of t] by auto
  have "xml_loop (outside (children_text (t # ts) ind just @ r) st F) =
      xml_loop (outside (xml_text t (ind + 2) @ children_text ts ind False @ r) st F)"
    using ty by (cases just) (simp_all add: xml_loop_newline)
  also have "\<dots> = xml_loop (outside (children_text ts ind False @ r) st (attach_at (length st) t F))"
    using Cons.prems(1) [of t st F] Cons.prems(3) by simp
  also have "\<dots> = xml_loop (outside r st (fold (attach_at (length st)) (t # ts) F))"
    using Cons.IH [of "attach_at (length st) t F" False] Cons.prems depth_ok_same by simp
  finally show ?case .
qed simp

lemma name_of_item:
  assumes "if take 1 v = ''?'' then xml_name (drop 1 v) \<and> cs = [] else xml_name v"
  obtains c m where "v = c # m" "name_start c m" "c \<noteq> CHR ''/''" "\<forall>x \<in> set m. name_char x"
proof (cases "take 1 v = ''?''")
  case True
  then obtain m where "v = CHR ''?'' # m" by (cases v) auto
  with assms True that [of "CHR ''?''" m] show thesis by (simp add: xml_name_def name_start_def)
next
  case False
  then obtain c m where "v = c # m" "name_char c" "\<forall>x \<in> set m. name_char x"
    using assms by (cases v) (auto simp: xml_name_def)
  with that [of c m] name_char_plain [of c] show thesis by (simp add: name_start_def)
qed

lemma parse_item:
  "xml_item t \<Longrightarrow> depth_ok (length st) F \<Longrightarrow>
    xml_loop (outside (xml_text t ind @ r) st F) = xml_loop (outside r st (attach_at (length st) t F))"
proof (induction t arbitrary: ind r st F rule: xml_item.induct)
  case (1 ty v kids)
  show ?case
  proof (cases ty)
    case CXT_Comment
    with 1(2) parse_comment [of v ind r st F] show ?thesis by (simp add: xml_item.simps)
  next
    case CXT_Literal
    with 1(2) parse_doctype [of v ind r st F] show ?thesis by (simp add: xml_item.simps)
  next
    case CXT_Element
    define as where "as = takeWhile xml_attribute kids"
    define cs where "cs = dropWhile xml_attribute kids"
    have kids: "kids = as @ cs" by (simp add: as_def cs_def)
    have as: "\<forall>a \<in> set as. xml_attribute a" by (auto simp: as_def dest: set_takeWhileD)
    note item = 1(2) [unfolded xml_item.simps CXT_Element CPLXMLNodeType.case Let_def, folded cs_def]
    have nm: "if take 1 v = ''?'' then xml_name (drop 1 v) \<and> cs = [] else xml_name v"
      using item by (rule conjunct1)
    have cs: "(\<exists>t. cs = [t] \<and> xml_leaf_text t) \<or> (\<forall>t \<in> set cs. xml_item t)"
      using item by (auto simp: length_Suc_conv)
    obtain c m where cm: "v = c # m" "name_start c m" "c \<noteq> CHR ''/''" "\<forall>x \<in> set m. name_char x"
      using name_of_item [OF nm] by blast
    have no_attr: "\<forall>t \<in> set cs. eType t \<noteq> CXT_Attribute"
      using cs xml_item_type xml_leaf_text_type by fastforce
    have all_attr: "(\<forall>k \<in> set kids. eType k = CXT_Attribute) \<longleftrightarrow> cs = []"
      using as no_attr xml_attribute_type by (cases cs) (auto simp: kids)
    let ?F = "attach_at (length st) (XMLNode CXT_Element v as) F"
    note opened = parse_open [OF cm as 1(3)]
    have at: "attributes_text kids = attributes_text as"
      using as no_attr by (simp add: kids attributes_text_append)
    have ct: "children_text kids ind True = children_text cs ind True"
      using as by (simp add: kids children_text_append)
    show ?thesis
    proof (cases "cs = []")
      case True
      let ?e = "(if take 1 v = ''?'' then ''?>'' else ''/>'') @ [CHR 0x0A] @ r"
      have "ends_name ?e" by simp
      note opened [OF this, of ind]
      also have "xml_loop (inside ?e (v # st) ?F) = xml_loop (outside r st ?F)"
        using cm(1) by (intro parse_empty_end) simp
      finally have "xml_loop (outside (spaces ind @ ''<'' @ v @ attributes_text as @ ?e) st F) =
          xml_loop (outside r st ?F)" .
      moreover have "xml_text (XMLNode ty v kids) ind @ r = spaces ind @ ''<'' @ v @ attributes_text as @ ?e"
        by (simp add: CXT_Element all_attr True at)
      ultimately show ?thesis using kids True CXT_Element by (simp only: append_Nil2)
    next
      case False
      then have nm': "xml_name v" using nm by (auto split: if_splits)
      let ?close = "''</'' @ v @ ''>'' @ [CHR 0x0A] @ r"
      let ?just = "\<forall>k \<in> set kids. eType k \<in> {CXT_Attribute, CXT_Text}"
      have body: "xml_loop (outside (children_text cs ind True @ (if ?just then [] else spaces ind) @ ?close)
            (v # st) ?F) = xml_loop (outside ?close (v # st) (attach_at (length st) (XMLNode CXT_Element v kids) F))"
        using cs
      proof
        assume "\<exists>t. cs = [t] \<and> xml_leaf_text t"
        then obtain t where t: "cs = [t]" "xml_leaf_text t" by blast
        then have ?just using as xml_attribute_type xml_leaf_text_type by (auto simp: kids)
        with t xml_leaf_text_type [OF t(2)]
          parse_leaf_text [OF t(2), of "ind + 2" "v @ ''>'' @ [CHR 0x0A] @ r" "v # st" ?F]
          attach_at_attach [OF 1(3)] show ?thesis by (simp add: kids)
      next
        assume items: "\<forall>t \<in> set cs. xml_item t"
        obtain t where t: "t \<in> set cs" using False by (cases cs) auto
        then have "eType t \<notin> {CXT_Attribute, CXT_Text}" using items xml_item_type [of t] by auto
        with t have "\<not> ?just" by (auto simp: kids)
        have IH: "xml_loop (outside (xml_text t ind @ r) st F) = xml_loop (outside r st (attach_at (length st) t F))"
          if "t \<in> set cs" "depth_ok (length st) F" for t ind r st F
          using 1(1) [OF CXT_Element refl refl] items that by (simp add: cs_def)
        have "depth_ok (length (v # st)) ?F" using depth_ok_attach [OF 1(3)] by simp
        note items_parsed = parse_items [OF IH items this, of ind True "spaces ind @ ?close"]
        have sp: "(if ?just then [] else spaces ind) = spaces ind" using \<open>\<not> ?just\<close> by (rule if_not_P)
        show ?thesis
          unfolding sp using items_parsed fold_attach_at [OF 1(3), of cs CXT_Element v as]
          by (simp add: kids xml_loop_spaces)
      qed
      let ?body = "children_text cs ind True @ (if ?just then [] else spaces ind) @ ?close"
      let ?G = "attach_at (length st) (XMLNode CXT_Element v kids) F"
      have "ends_name (CHR ''>'' # ?body)" by simp
      note opened [OF this, of ind]
      also note parse_start_end
      also note body
      also have "xml_loop (outside ?close (v # st) ?G) = xml_loop (outside r st ?G)"
        using parse_close [OF nm', of "CHR 0x0A # r"] by (simp add: xml_loop_newline)
      finally have "xml_loop (outside (spaces ind @ ''<'' @ v @ attributes_text as @ CHR ''>'' # ?body) st F) =
          xml_loop (outside r st ?G)" .
      moreover have "xml_text (XMLNode ty v kids) ind @ r =
          spaces ind @ ''<'' @ v @ attributes_text as @ CHR ''>'' # ?body"
        by (simp add: CXT_Element all_attr False at ct)
      ultimately show ?thesis using CXT_Element by (simp only:)
    qed
  qed (use 1(2) in \<open>simp_all add: xml_item.simps\<close>)
qed

lemma parse_document:
  assumes "\<forall>t \<in> set ts. xml_item t"
  shows "CPLParseXMLString (Some (concat (map (\<lambda>t. xml_text t 0) ts))) = Some ts"
proof -
  have loop: "xml_loop (outside (concat (map (\<lambda>t. xml_text t 0) ts)) [] F) = xml_loop (outside [] [] (F @ ts))" for F
    using assms
  proof (induction ts arbitrary: F)
    case (Cons t ts)
    then show ?case using parse_item [of t "[]" F 0 "concat (map (\<lambda>t. xml_text t 0) ts)"] by simp
  qed simp
  have "xml_loop (outside [] [] ts) = Some (outside [] [] ts)"
    by (simp add: xml_loop.simps ReadToken_def)
  then show ?thesis using loop [of "[]"] by (simp add: CPLParseXMLString_def)
qed

section \<open>What the serializer writes\<close>

text \<open>Texts short enough for the size computation of \<open>CPLEscapeString\<close>, and attribute values that
  escaping lengthens by at most 30 characters.\<close>

fun xml_fits :: "CPLXMLNode \<Rightarrow> bool" where
  "xml_fits (XMLNode ty v kids) =
     (c_string v \<and>
      (ty = CXT_Text \<longrightarrow> int (length v * 6 + 1) < 2 ^ 31) \<and>
      (ty = CXT_Attribute \<longrightarrow>
        (\<forall>k \<in> set kids. length (xml_esc (pszValue k)) \<le> length (pszValue k) + 30)) \<and>
      (\<forall>k \<in> set kids. xml_fits k))"

lemma escape_value:
  assumes "c_string v" and "int (length v * 6 + 1) < 2 ^ 31"
  shows "CPLEscapeString (v @ [NUL]) (-1) CPLES_XML = Some (xml_esc v)"
proof -
  have "c_str (v @ [NUL]) = Some v" using assms(1) c_str_append [of v "[]"] by (simp add: c_string_def)
  then have "CPLEscapeString (v @ [NUL]) (-1) CPLES_XML = CPLEscapeString (v @ [NUL]) (int (length v)) CPLES_XML"
    by (simp add: CPLEscapeString_def)
  also have "NUL \<notin> set (xml_esc v)"
    using assms(1) by (intro no_NUL_concat) (auto simp: esc_xml_def c_string_def)
  then have "CPLEscapeString (v @ [NUL]) (int (length v)) CPLES_XML = Some (xml_esc v)"
    using assms(2) by (intro CPLEscapeString_plain) simp_all
  finally show ?thesis .
qed

text \<open>Room behind the text of a buffer.\<close>

definition has_room :: "nat \<Rightarrow> xml_out \<Rightarrow> bool" where
  "has_room k b = (length (pszText b) + k < nMaxLength b)"

lemma GrowBuffer_text [simp]: "pszText (GrowBuffer n b) = pszText b"
  by (simp add: GrowBuffer_def)

lemma GrowBuffer_room: "n = length (pszText b) + k \<Longrightarrow> has_room k (GrowBuffer n b)"
  by (auto simp: has_room_def GrowBuffer_def)

lemma GrowBuffer_keeps: "has_room k b \<Longrightarrow> has_room k (GrowBuffer n b)"
  by (auto simp: has_room_def GrowBuffer_def)

lemma out_put_room:
  assumes "has_room k b" and "length s \<le> k"
  obtains b' where "out_put s b = Some b'" and "pszText b' = pszText b @ s" and "has_room (k - length s) b'"
  using assms by (auto simp: has_room_def out_put_def)

lemma has_room_mono: "has_room k b \<Longrightarrow> j \<le> k \<Longrightarrow> has_room j b"
  by (auto simp: has_room_def)

lemma serialize_text:
  assumes "c_string v" and "int (length v * 6 + 1) < 2 ^ 31"
  shows "\<exists>b'. CPLSerializeXMLNode (XMLNode CXT_Text v kids) ind b = Some b' \<and>
    pszText b' = pszText b @ xml_esc v \<and>
    (length (xml_esc v) \<le> length v + 30 \<longrightarrow> has_room 10 b')"
proof -
  let ?b0 = "GrowBuffer (length v + length (pszText b) + 40 + ind) b"
  let ?b1 = "GrowBuffer (length (xml_esc v) + length (pszText ?b0)) ?b0"
  have 0: "has_room (length v + 40 + ind) ?b0" by (rule GrowBuffer_room) simp
  have 1: "has_room (length (xml_esc v)) ?b1" by (rule GrowBuffer_room) simp
  have 2: "has_room (length v + 40 + ind) ?b1" by (rule GrowBuffer_keeps [OF 0])
  obtain b' where b': "out_put (xml_esc v) ?b1 = Some b'" "pszText b' = pszText b @ xml_esc v"
    using out_put_room [OF 1 order_refl] by (metis GrowBuffer_text)
  have "has_room 10 b'" if "length (xml_esc v) \<le> length v + 30"
  proof -
    have le: "length (xml_esc v) \<le> length v + 40 + ind" using that by simp
    obtain b'' where "out_put (xml_esc v) ?b1 = Some b''" "has_room (length v + 40 + ind - length (xml_esc v)) b''"
      using out_put_room [OF 2 le] by blast
    with b'(1) that show ?thesis by (auto intro: has_room_mono)
  qed
  with b' show ?thesis by (simp add: escape_value [OF assms] Let_def)
qed

lemma serialize_attribute:
  assumes "xml_attribute a" and "xml_fits a"
  shows "\<exists>b'. CPLSerializeXMLNode a 0 b = Some b' \<and> pszText b' = pszText b @ xml_text a 0 \<and> has_room 9 b'"
proof -
  obtain n v where a: "a = XMLNode CXT_Attribute n [XMLNode CXT_Text v []]"
    using assms(1) by (cases a rule: xml_attribute.cases) auto
  let ?b0 = "GrowBuffer (length n + length (pszText b) + 40 + 0) b"
  have r0: "has_room (length n + 40) ?b0" by (rule GrowBuffer_room) simp
  have len: "length ('' '' @ n @ [CHR ''='', CHR 0x22]) \<le> length n + 40" by simp
  obtain b1 where b1: "out_put ('' '' @ n @ [CHR ''='', CHR 0x22]) ?b0 = Some b1"
    "pszText b1 = pszText b @ '' '' @ n @ [CHR ''='', CHR 0x22]"
    using out_put_room [OF r0 len] by auto
  obtain b2 where b2: "CPLSerializeXMLNode (XMLNode CXT_Text v []) 0 b1 = Some b2"
    "pszText b2 = pszText b1 @ xml_esc v" "has_room 10 b2"
    using serialize_text [of v "[]" 0 b1] assms(2) a by auto
  obtain b3 where b3: "out_put [CHR 0x22] b2 = Some b3" "pszText b3 = pszText b2 @ [CHR 0x22]" "has_room 9 b3"
    using out_put_room [OF b2(3), of "[CHR 0x22]"] by auto
  have "CPLSerializeXMLNode a 0 b = Some b3"
    using b1(1) b2(1) b3(1) by (simp add: a Let_def del: CPLSerializeXMLNode.simps(1))
      (subst CPLSerializeXMLNode.simps, simp add: Let_def del: CPLSerializeXMLNode.simps(1))
  with b1 b2 b3 show ?thesis by (simp add: a)
qed

lemma serialize_attributes_eq:
  "\<forall>a \<in> set as. xml_attribute a \<and> xml_fits a \<Longrightarrow> has_room 9 b \<Longrightarrow>
    \<exists>b'. serialize_attributes as b = Some b' \<and> pszText b' = pszText b @ attributes_text as \<and> has_room 9 b'"
proof (induction as arbitrary: b)
  case (Cons a as)
  then obtain b1 where b1: "CPLSerializeXMLNode a 0 b = Some b1" "pszText b1 = pszText b @ xml_text a 0"
    "has_room 9 b1" using serialize_attribute [of a b] by auto
  with Cons.IH [of b1] Cons.prems show ?case by (auto simp: xml_attribute_type)
qed simp

lemma serialize_attributes_append:
  "\<forall>c \<in> set cs. eType c \<noteq> CXT_Attribute \<Longrightarrow> serialize_attributes (as @ cs) b = serialize_attributes as b"
proof (induction as arbitrary: b)
  case Nil
  then show ?case by (induction cs) simp_all
next
  case (Cons a as)
  then have "serialize_attributes (as @ cs) = serialize_attributes as" by (intro ext) simp
  then show ?case by simp
qed

lemma serialize_children_append:
  "\<forall>a \<in> set as. xml_attribute a \<Longrightarrow>
    serialize_children (as @ cs) ind just b = serialize_children cs ind just b"
  by (induction as) (simp_all add: xml_attribute_type)

lemma serialize_items:
  assumes "\<And>t ind b. t \<in> set ts \<Longrightarrow>
      \<exists>b'. CPLSerializeXMLNode t ind b = Some b' \<and> pszText b' = pszText b @ xml_text t ind"
    and "\<forall>t \<in> set ts. xml_item t" and "just \<longrightarrow> has_room 2 b"
  shows "\<exists>b'. serialize_children ts ind just b = Some (just \<and> ts = [], b') \<and>
    pszText b' = pszText b @ children_text ts ind just"
  using assms
proof (induction ts arbitrary: just b)
  case (Cons t ts)
  have ty: "eType t \<noteq> CXT_Attribute" "eType t \<noteq> CXT_Text"
    using Cons.prems(2) xml_item_type [of t] by auto
  obtain b1 where b1: "(if just then out_put [CHR 0x0A] b else Some b) = Some b1"
    "pszText b1 = pszText b @ (if just then [CHR 0x0A] else [])"
    using Cons.prems(3) out_put_room [of 2 b "[CHR 0x0A]"] by (cases just) auto
  obtain b2 where b2: "CPLSerializeXMLNode t (ind + 2) b1 = Some b2"
    "pszText b2 = pszText b1 @ xml_text t (ind + 2)"
    using Cons.prems(1) [of t "ind + 2" b1] by auto
  obtain b3 where b3: "serialize_children ts ind False b2 = Some (False, b3)"
    "pszText b3 = pszText b2 @ children_text ts ind False"
    using Cons.IH [of False b2] Cons.prems by auto
  with b1 b2 ty show ?case by (cases just) auto
qed simp

lemma serialize_item:
  "xml_item t \<Longrightarrow> xml_fits t \<Longrightarrow>
    \<exists>b'. CPLSerializeXMLNode t ind b = Some b' \<and> pszText b' = pszText b @ xml_text t ind"
proof (induction t arbitrary: ind b rule: xml_item.induct)
  case (1 ty v kids)
  let ?b0 = "GrowBuffer (length v + length (pszText b) + 40 + ind) b"
  have r0: "has_room (length v + 40 + ind) ?b0" by (rule GrowBuffer_room) simp
  show ?case
  proof (cases ty)
    case CXT_Comment
    have "length (spaces ind @ ''<!--'' @ v @ ''-->'' @ [CHR 0x0A]) \<le> length v + 40 + ind" by simp
    from out_put_room [OF r0 this] CXT_Comment show ?thesis by (auto simp: Let_def)
  next
    case CXT_Literal
    have "length (spaces ind @ v @ [CHR 0x0A]) \<le> length v + 40 + ind" by simp
    from out_put_room [OF r0 this] CXT_Literal show ?thesis by (auto simp: Let_def)
  next
    case CXT_Element
    define as where "as = takeWhile xml_attribute kids"
    define cs where "cs = dropWhile xml_attribute kids"
    have kids: "kids = as @ cs" by (simp add: as_def cs_def)
    have as: "\<forall>a \<in> set as. xml_attribute a" by (auto simp: as_def dest: set_takeWhileD)
    have fits: "\<forall>k \<in> set kids. xml_fits k" using 1(3) by simp
    note item = 1(2) [unfolded xml_item.simps CXT_Element CPLXMLNodeType.case Let_def, folded cs_def]
    have cs: "(\<exists>t. cs = [t] \<and> xml_leaf_text t) \<or> (\<forall>t \<in> set cs. xml_item t)"
      using item by (auto simp: length_Suc_conv)
    have no_attr: "\<forall>t \<in> set cs. eType t \<noteq> CXT_Attribute"
      using cs xml_item_type xml_leaf_text_type by fastforce
    have all_attr: "(\<forall>k \<in> set kids. eType k = CXT_Attribute) \<longleftrightarrow> cs = []"
      using as no_attr xml_attribute_type by (cases cs) (auto simp: kids)
    have le: "length (spaces ind @ ''<'' @ v) \<le> length v + 40 + ind" by simp
    obtain b1 where b1: "out_put (spaces ind @ ''<'' @ v) ?b0 = Some b1"
      "pszText b1 = pszText ?b0 @ spaces ind @ ''<'' @ v"
      "has_room (length v + 40 + ind - length (spaces ind @ ''<'' @ v)) b1"
      by (rule out_put_room [OF r0 le])
    have room1: "has_room 9 b1" by (rule has_room_mono [OF b1(3)]) simp
    have at: "attributes_text kids = attributes_text as"
      using as no_attr by (simp add: kids attributes_text_append)
    have sa: "serialize_attributes kids b1 = serialize_attributes as b1"
      using no_attr by (simp add: kids serialize_attributes_append)
    have "\<forall>a \<in> set as. xml_attribute a \<and> xml_fits a" using as fits by (simp add: kids)
    from serialize_attributes_eq [OF this room1] obtain b2 where b2: "serialize_attributes kids b1 = Some b2"
      "pszText b2 = pszText b1 @ attributes_text kids" "has_room 9 b2"
      by (auto simp: at sa)
    show ?thesis
    proof (cases "cs = []")
      case True
      let ?e = "(if take 1 v = ''?'' then ''?>'' else ''/>'') @ [CHR 0x0A]"
      have "length ?e \<le> 9" by simp
      from out_put_room [OF b2(3) this] obtain b3 where b3: "out_put ?e b2 = Some b3"
        "pszText b3 = pszText b2 @ ?e" by blast
      have "CPLSerializeXMLNode (XMLNode ty v kids) ind b = Some b3"
        using b1(1) b2(1) b3(1) all_attr True by (simp add: CXT_Element Let_def)
      moreover have "xml_text (XMLNode ty v kids) ind = spaces ind @ ''<'' @ v @ attributes_text kids @ ?e"
        using all_attr True by (simp add: CXT_Element)
      ultimately show ?thesis using b1(2) b2(2) b3(2) by simp
    next
      case False
      obtain b3 where b3: "out_put ''>'' b2 = Some b3" "pszText b3 = pszText b2 @ ''>''" "has_room 8 b3"
        using out_put_room [OF b2(3), of "''>''"] by auto
      let ?just = "\<forall>k \<in> set kids. eType k \<in> {CXT_Attribute, CXT_Text}"
      have "\<exists>b4. serialize_children kids ind True b3 = Some (?just, b4) \<and>
          pszText b4 = pszText b3 @ children_text kids ind True"
        using cs
      proof
        assume "\<exists>t. cs = [t] \<and> xml_leaf_text t"
        then obtain t where t: "cs = [t]" "xml_leaf_text t" by blast
        then obtain w where w: "t = XMLNode CXT_Text w []" by (cases t rule: xml_leaf_text.cases) auto
        have ?just using as xml_attribute_type by (auto simp: kids t w)
        moreover have "xml_fits t" using fits t by (simp add: kids)
        moreover obtain b4 where "CPLSerializeXMLNode t (ind + 2) b3 = Some b4" "pszText b4 = pszText b3 @ xml_esc w"
          using serialize_text [of w "[]" "ind + 2" b3] \<open>xml_fits t\<close> w by auto
        ultimately show ?thesis
          using as by (simp add: kids t w serialize_children_append children_text_append del: CPLSerializeXMLNode.simps)
      next
        assume items: "\<forall>t \<in> set cs. xml_item t"
        obtain t where t: "t \<in> set cs" using False by (cases cs) auto
        then have "eType t \<notin> {CXT_Attribute, CXT_Text}" using items xml_item_type [of t] by auto
        with t have nj: "\<not> ?just" by (auto simp: kids)
        have "\<exists>b'. CPLSerializeXMLNode t ind b = Some b' \<and> pszText b' = pszText b @ xml_text t ind"
          if "t \<in> set cs" for t ind b
        proof -
          have "xml_fits t" using fits that by (simp add: kids)
          with 1(1) [OF CXT_Element refl refl, of t] items that show ?thesis by (simp add: cs_def)
        qed
        note written = serialize_items [OF this items, of True b3 ind]
        have jf: "?just = False" "(True \<and> cs = []) = False" using nj False by blast+
        have kk: "serialize_children kids ind True b3 = serialize_children cs ind True b3"
          "children_text kids ind True = children_text cs ind True"
          using as by (simp_all add: kids serialize_children_append children_text_append)
        show ?thesis
          unfolding jf(1) kk using written has_room_mono [OF b3(3), of 2] by (simp add: jf(2) False)
      qed
      then obtain b4 where b4: "serialize_children kids ind True b3 = Some (?just, b4)"
        "pszText b4 = pszText b3 @ children_text kids ind True" by blast
      let ?b5 = "GrowBuffer (length v + length (pszText b4) + 40 + ind) b4"
      let ?e = "(if ?just then [] else spaces ind) @ ''</'' @ v @ ''>'' @ [CHR 0x0A]"
      have r5: "has_room (length v + 40 + ind) ?b5" by (rule GrowBuffer_room) simp
      have le5: "length ?e \<le> length v + 40 + ind" by simp
      obtain b6 where b6: "out_put ?e ?b5 = Some b6" "pszText b6 = pszText ?b5 @ ?e"
        by (rule out_put_room [OF r5 le5])
      have some_child: "(\<forall>k \<in> set kids. eType k = CXT_Attribute) = False" using all_attr False by blast
      have "CPLSerializeXMLNode (XMLNode ty v kids) ind b = Some b6"
        using b1(1) b2(1) b3(1) b4(1) b6(1) by (simp add: some_child CXT_Element Let_def del: insert_iff)
      moreover have "xml_text (XMLNode ty v kids) ind =
          spaces ind @ ''<'' @ v @ attributes_text kids @ ''>'' @ children_text kids ind True @ ?e"
        by (simp add: some_child CXT_Element del: insert_iff)
      ultimately show ?thesis using b1(2) b2(2) b3(2) b4(2) b6(2) by (simp del: insert_iff)
    qed
  qed (use 1(2) in \<open>simp_all add: xml_item.simps\<close>)
qed

lemma serialize_document:
  assumes "\<forall>t \<in> set ts. xml_item t \<and> xml_fits t"
  shows "CPLSerializeXMLTree ts = Some (concat (map (\<lambda>t. xml_text t 0) ts))"
proof -
  have "\<exists>b'. serialize_chain ts b = Some b' \<and> pszText b' = pszText b @ concat (map (\<lambda>t. xml_text t 0) ts)" for b
    using assms
  proof (induction ts arbitrary: b)
    case (Cons t ts)
    then obtain b1 where "CPLSerializeXMLNode t 0 b = Some b1" "pszText b1 = pszText b @ xml_text t 0"
      using serialize_item [of t 0 b] by auto
    with Cons.IH [of b1] Cons.prems show ?case by auto
  qed simp
  then show ?thesis by (fastforce simp: CPLSerializeXMLTree_def)
qed

text \<open>
  C1.  Parsing what \<open>CPLSerializeXMLTree\<close> writes gives the document back: for every chain of
  elements, comments and DOCTYPE literals (attributes first, names as the tokenizer reads them,
  one text or nested items as content) whose values fit, the serializer stays inside its buffer
  and \<open>CPLParseXMLString\<close> returns the same chain.
\<close>

theorem CPLParse_Serialize_roundtrip:
  assumes "\<forall>t \<in> set ts. xml_item t \<and> xml_fits t"
  shows "Option.bind (CPLSerializeXMLTree ts) (\<lambda>s. CPLParseXMLString (Some s)) = Some ts"
  using serialize_document [OF assms] parse_document [of ts] assms by simp

theorem CPLParse_Serialize_roundtrip_witness:
  "let doc = [XMLNode CXT_Element ''?xml'' [XMLNode CXT_Attribute ''version'' [XMLNode CXT_Text ''1.0'' []]],
              XMLNode CXT_Element ''a'' [XMLNode CXT_Comment '' c '' [],
                XMLNode CXT_Element ''b'' [XMLNode CXT_Text ''x < y & z'' []]]]
   in Option.bind (CPLSerializeXMLTree doc) (\<lambda>s. CPLParseXMLString (Some s)) = Some doc"
proof -
  let ?doc = "[XMLNode CXT_Element ''?xml'' [XMLNode CXT_Attribute ''version'' [XMLNode CXT_Text ''1.0'' []]],
      XMLNode CXT_Element ''a'' [XMLNode CXT_Comment '' c '' [],
        XMLNode CXT_Element ''b'' [XMLNode CXT_Text ''x < y & z'' []]]]"
  have "\<forall>t \<in> set ?doc. xml_item t \<and> xml_fits t" by code_simp
  from CPLParse_Serialize_roundtrip [OF this] show ?thesis by (simp only: Let_def)
qed

section \<open>Where it does not work\<close>

lemma xml_esc_quotes: "length (xml_esc (replicate n (CHR 0x22))) = 6 * n"
  by (induction n) (simp_all add: esc_xml_def)

lemma concat_esc_quotes: "length (concat (replicate n (esc_xml (CHR 0x22)))) = 6 * n"
  by (induction n) (simp_all add: esc_xml_def)

text \<open>
  The slack of the output buffer is reserved before the value of an attribute is escaped and
  is used up by the escaping: an attribute whose value is 66 quotes or more leaves no room for
  the closing quote, which the serializer writes behind the buffer.
\<close>

theorem CPLSerializeXMLTree_quotes_overflow:
  assumes "66 \<le> n" and "int (n * 6 + 1) < 2 ^ 31"
  shows "CPLSerializeXMLTree [XMLNode CXT_Element ''a''
    [XMLNode CXT_Attribute ''b'' [XMLNode CXT_Text (replicate n (CHR 0x22)) []]]] = None"
proof -
  let ?v = "replicate n (CHR 0x22)"
  have esc: "CPLEscapeString (?v @ [NUL]) (-1) CPLES_XML = Some (xml_esc ?v)"
    using assms by (intro escape_value) (auto simp: c_string_def)
  show ?thesis
    using assms(1) by (simp add: CPLSerializeXMLTree_def Let_def esc GrowBuffer_def out_put_def concat_esc_quotes)
qed

theorem CPLSerializeXMLTree_quotes_overflow_witness:
  "CPLSerializeXMLTree [XMLNode CXT_Element ''a''
    [XMLNode CXT_Attribute ''b'' [XMLNode CXT_Text (replicate 66 (CHR 0x22)) []]]] = None"
  by (rule CPLSerializeXMLTree_quotes_overflow) simp_all

lemma read_subset_None: "CHR '']'' \<notin> set s \<Longrightarrow> read_subset s tok = None"
proof (induction s arbitrary: tok)
  case (Cons c s)
  have "\<not> EQUALN s '']>'' 2"
  proof
    assume "EQUALN s '']>'' 2"
    then obtain x r where "s = x # r" "c_tolower x = c_tolower (CHR '']'')"
      by (cases s) (auto simp: EQUALN_def numeral_2_eq_2)
    moreover have "c_tolower (CHR '']'') = CHR '']''" "\<not> c_islower (CHR '']'')"
      by (simp_all add: c_tolower_def c_isupper_def c_islower_def code_of_def)
    ultimately have "x = CHR '']''" using c_tolower_eq_nonletter by metis
    with Cons.prems \<open>s = x # r\<close> show False by simp
  qed
  with Cons show ?case by auto
qed simp

lemma ReadToken_doctype_None:
  assumes "CHR '']'' \<notin> set w"
  shows "ReadToken (outside (''<!DOCTYPE['' @ w) st F) = None"
proof -
  define s where "s = ''!DOCTYPE['' @ w"
  have "EQUALN s ''!DOCTYPE'' 8"
    using EQUALN_same [of "''!DOCTYPE''" "''['' @ w"] by (simp add: numeral_eq_Suc s_def)
  moreover have "c_tolower (CHR ''D'') \<noteq> CHR ''-''" "c_tolower (CHR ''-'') = CHR ''-''"
    using c_tolower_eq_nonletter [of "CHR ''D''" "CHR ''-''"]
    by (auto simp: c_islower_def c_tolower_def [of "CHR ''-''"] c_isupper_def code_of_def)
  then have "\<not> EQUALN s ''!--'' 3" by (simp add: EQUALN_def numeral_3_eq_3 s_def)
  moreover have "read_doctype s False ''<'' = None"
    by (simp add: s_def doctype_char_def read_subset_None [OF assms])
  ultimately have "ReadToken (outside (CHR ''<'' # s) st F) = None"
    by (simp add: ReadToken_def c_isspace_def code_of_def)
  then show ?thesis by (simp add: s_def)
qed



section \<open>Where the parser returns\<close>

lemma set_read_until_str: "set (snd (read_until_str cl s tok)) \<subseteq> set s"
  by (induction cl s tok rule: read_until_str.induct) auto

lemma set_read_quoted: "set (fst (snd (read_quoted q s tok))) \<subseteq> set s"
  by (induction q s tok rule: read_quoted.induct) auto

lemma set_read_text: "set (snd (read_text s tok)) \<subseteq> set s"
  by (induction s tok rule: read_text.induct) (auto simp: UnreadChar_def)

lemma set_read_name: "set (snd (read_name s tok)) \<subseteq> set s"
  by (induction s tok rule: read_name.induct) (auto simp: UnreadChar_def split: if_splits)

lemma read_doctype_returns:
  "CHR ''['' \<notin> set s \<Longrightarrow> \<exists>t r e. read_doctype s q tok = Some (t, r, e) \<and> set r \<subseteq> set s"
proof (induction s arbitrary: q tok)
  case (Cons c s)
  then have "doctype_char c s tok = Some (c, tok, s)" by (auto simp: doctype_char_def)
  moreover have "\<exists>t r e. read_doctype s q' tok' = Some (t, r, e) \<and> set r \<subseteq> set s" for q' tok'
    using Cons by simp
  ultimately show ?case by (auto simp: Let_def) (metis (no_types, lifting) subset_insertI2)+
qed auto

definition no_bracket :: "ParseContext \<Rightarrow> bool" where
  "no_bracket ctx = (CHR ''['' \<notin> set (pszInput ctx))"

lemma ReadToken_returns:
  assumes "no_bracket ctx"
  shows "\<exists>ty tok ctx'. ReadToken ctx = Some (ty, tok, ctx') \<and> no_bracket ctx'"
proof (cases "dropWhile c_isspace (pszInput ctx)")
  case Nil
  show ?thesis by (simp only: ReadToken_def Nil list.case) (simp add: no_bracket_def)
next
  case (Cons c s)
  have br: "CHR ''['' \<notin> set s"
    using assms Cons set_dropWhileD [of _ c_isspace "pszInput ctx"] by (auto simp: no_bracket_def)
  have drops: "CHR ''['' \<notin> set (drop k (snd (read_until_str cl (drop j s) [])))" for k j cl
    using br set_read_until_str [of cl "drop j s" "[]"] set_drop_subset by fastforce
  obtain t r e where d: "read_doctype s False ''<'' = Some (t, r, e)" "set r \<subseteq> set s"
    using read_doctype_returns [OF br] by blast
  have single: "\<And>ty r b. read_single c s (bInElement ctx) = Some (ty, r, b) \<Longrightarrow> CHR ''['' \<notin> set r"
    using br set_drop_subset [of 1 s] by (auto simp: read_single_def split: if_splits)
  have "CHR ''['' \<notin> set (fst (snd (read_quoted c s [])))" "CHR ''['' \<notin> set (snd (read_text s [c]))"
    "CHR ''['' \<notin> set (snd (read_name s [c]))"
    using br set_read_quoted set_read_text set_read_name by fast+
  then show ?thesis
    using drops d br single
    by (auto simp: ReadToken_def Cons no_bracket_def Let_def case_prod_beta split: option.split)
qed

lemma on_token_returns:
  assumes "no_bracket ctx"
  shows "\<exists>r. on_token ty tok ctx = Some r \<and> (\<forall>ctx'. r = Inr ctx' \<longrightarrow> no_bracket ctx')"
proof -
  obtain ty1 tok1 ctx1 where t1: "ReadToken ctx = Some (ty1, tok1, ctx1)" "no_bracket ctx1"
    using ReadToken_returns [OF assms] by blast
  obtain ty2 tok2 ctx2 where t2: "ReadToken ctx1 = Some (ty2, tok2, ctx2)" "no_bracket ctx2"
    using ReadToken_returns [OF t1(2)] by blast
  have "no_bracket (AttachNode (CPLCreateXMLNode CXT_Attribute tok) ctx)"
    using assms by (simp add: no_bracket_def AttachNode_def)
  from ReadToken_returns [OF this] obtain ty3 tok3 ctx3 where t3:
    "ReadToken (AttachNode (CPLCreateXMLNode CXT_Attribute tok) ctx) = Some (ty3, tok3, ctx3)"
    "no_bracket ctx3" by blast
  obtain ty4 tok4 ctx4 where t4: "ReadToken ctx3 = Some (ty4, tok4, ctx4)" "no_bracket ctx4"
    using ReadToken_returns [OF t3(2)] by blast
  show ?thesis
    using assms t1 t2 t3 t4
    by (cases ty)
      (auto simp: on_token_def on_TOpen_def on_TToken_def no_bracket_def AttachNode_def PushNode_def
        PopNode_def Let_def split: list.split)
qed

lemma xml_loop_returns: "no_bracket ctx \<Longrightarrow> xml_loop ctx \<noteq> None"
proof (induction ctx rule: xml_loop.induct)
  case (1 ctx)
  obtain ty tok ctx1 where t: "ReadToken ctx = Some (ty, tok, ctx1)" "no_bracket ctx1"
    using ReadToken_returns [OF 1(2)] by blast
  obtain r where r: "on_token ty tok ctx1 = Some r" "\<forall>ctx'. r = Inr ctx' \<longrightarrow> no_bracket ctx'"
    using on_token_returns [OF t(2)] by blast
  show ?case
  proof (cases r)
    case (Inl a)
    with t r show ?thesis by (subst xml_loop.simps) simp
  next
    case (Inr ctx2)
    then have "ty \<noteq> TNone \<Longrightarrow> xml_loop ctx2 \<noteq> None"
      using 1(1) [OF t(1) refl refl _ r(1) Inr] r(2) Inr by simp
    with t r Inr show ?thesis by (subst xml_loop.simps) simp
  qed
qed

text \<open>
  C25.  The parser returns on every document without an opening bracket, however malformed: every
  token consumes input, and only the declarations of a DOCTYPE can keep it from returning.
\<close>

theorem CPLParseXMLString_returns:
  assumes "CHR ''['' \<notin> set s"
  shows "\<exists>doc. CPLParseXMLString (Some s) = Some doc"
  using xml_loop_returns [of "outside s [] []"] assms
  by (auto simp: no_bracket_def CPLParseXMLString_def)

theorem CPLParseXMLString_returns_witness:
  "\<exists>doc. CPLParseXMLString (Some ''<a b='' ) = Some doc"
  by (rule CPLParseXMLString_returns) simp

end
