(* ===== verification/Mini_Xml_Tree.thy ===== *)
theory Mini_Xml_Tree
  imports Mini_Xml
begin

text \<open>
  The operations on XML trees of \<^verbatim>\<open>port/cpl_minixml.cpp\<close>: searching, values by path,
  adding and removing children, copying, namespaces.  A node passed with its siblings is a list
  whose first element is the node.
\<close>

section \<open>Searching\<close>

definition named_node :: "CPLXMLNode \<Rightarrow> cstring \<Rightarrow> bool" where
  "named_node n pszElement =
     ((eType n = CXT_Element \<or> eType n = CXT_Attribute) \<and> EQUAL pszElement (pszValue n))"

definition side_search :: "cstring \<Rightarrow> bool" where
  "side_search s = (take 1 s = ''='')"

definition drop_equal :: "cstring \<Rightarrow> cstring" where
  "drop_equal s = (if side_search s then drop 1 s else s)"

function (sequential) CPLSearchXMLNode :: "CPLXMLNode list \<Rightarrow> cstring \<Rightarrow> CPLXMLNode option"
  and search_children :: "CPLXMLNode list \<Rightarrow> cstring \<Rightarrow> CPLXMLNode option"
  and search_siblings :: "CPLXMLNode list \<Rightarrow> cstring \<Rightarrow> CPLXMLNode option" where
  "CPLSearchXMLNode [] pszElement = None"
| "CPLSearchXMLNode (n # sibs) pszElement =
     (if named_node n (drop_equal pszElement) then Some n
      else case search_children (psChild n) (drop_equal pszElement) of
             Some r \<Rightarrow> Some r
           | None \<Rightarrow> (if side_search pszElement then search_siblings sibs (drop_equal pszElement)
                     else None))"
| "search_children [] pszElement = None"
| "search_children (c # cs) pszElement =
     (if named_node c pszElement then Some c
      else case (if psChild c \<noteq> [] then CPLSearchXMLNode (c # cs) pszElement else None) of
             Some r \<Rightarrow> Some r
           | None \<Rightarrow> search_children cs pszElement)"
| "search_siblings [] pszElement = None"
| "search_siblings (r # rs) pszElement =
     (case CPLSearchXMLNode (r # rs) pszElement of
        Some x \<Rightarrow> Some x
      | None \<Rightarrow> search_siblings rs pszElement)"
  by pat_completeness auto
termination
proof (relation "measure (\<lambda>x. case x of
      Inl (ns, e) \<Rightarrow> 2 * size_list size ns
    | Inr (Inl (ns, e)) \<Rightarrow> 2 * size_list size ns + 1
    | Inr (Inr (ns, e)) \<Rightarrow> 2 * size_list size ns + 1)", goal_cases)
  case (2 n sibs e)
  then show ?case by (cases n) simp
next
  case (3 n sibs e)
  then show ?case by (cases n) simp
qed simp_all

section \<open>Values by path\<close>

definition path_match :: "cstring \<Rightarrow> CPLXMLNode \<Rightarrow> bool" where
  "path_match tok c = (eType c \<noteq> CXT_Text \<and> EQUAL tok (pszValue c))"

text \<open>The walk along the tokens: \<open>cands\<close> are the nodes the next token is looked for among.\<close>

fun get_loop :: "CPLXMLNode \<Rightarrow> CPLXMLNode list \<Rightarrow> cstring list \<Rightarrow> CPLXMLNode option" where
  "get_loop psRoot cands [] = Some psRoot"
| "get_loop psRoot cands (t # ts) =
     (case find (path_match t) cands of
        None \<Rightarrow> None
      | Some c \<Rightarrow> get_loop c (psChild c) ts)"

definition path_tokens :: "cstring \<Rightarrow> cstring list option" where
  "path_tokens pszPath =
     (if CHR ''.'' \<in> set pszPath then CSLTokenizeStringComplex (Some pszPath) ''.'' False False
      else Some [pszPath])"

text \<open>\<open>None\<close> is a fault (there is none), \<open>Some None\<close> the NULL result.\<close>

definition CPLGetXMLNode :: "CPLXMLNode list \<Rightarrow> cstring option \<Rightarrow> CPLXMLNode option option" where
  "CPLGetXMLNode psRoot pszPath =
     (case (psRoot, pszPath) of
        (r # sibs, Some path) \<Rightarrow> do {
          toks \<leftarrow> path_tokens (drop_equal path);
          Some (get_loop r (if side_search path then r # sibs else psChild r) toks)
        }
      | _ \<Rightarrow> Some None)"

text \<open>An attribute without a child is a fault: its value is read without a test.\<close>

definition CPLGetXMLValue ::
    "CPLXMLNode list \<Rightarrow> cstring option \<Rightarrow> cstring option \<Rightarrow> cstring option option" where
  "CPLGetXMLValue psRoot pszPath pszDefault = do {
     psTarget \<leftarrow> (if pszPath = None \<or> pszPath = Some []
                  then Some (case psRoot of [] \<Rightarrow> None | r # _ \<Rightarrow> Some r)
                  else CPLGetXMLNode psRoot pszPath);
     (case psTarget of
        None \<Rightarrow> Some pszDefault
      | Some n \<Rightarrow>
          (if eType n = CXT_Attribute
           then (case psChild n of [] \<Rightarrow> None | c # _ \<Rightarrow> Some (Some (pszValue c)))
           else if eType n = CXT_Element
           then (case dropWhile (\<lambda>c. eType c = CXT_Attribute) (psChild n) of
                   [c] \<Rightarrow> Some (if eType c = CXT_Text then Some (pszValue c) else pszDefault)
                 | _ \<Rightarrow> Some pszDefault)
           else Some pszDefault))
   }"

fun first_index :: "('a \<Rightarrow> bool) \<Rightarrow> 'a list \<Rightarrow> nat option" where
  "first_index p [] = None"
| "first_index p (x # xs) = (if p x then Some 0 else map_option Suc (first_index p xs))"

text \<open>The end of \<open>CPLSetXMLValue\<close>: the first text child is set, or a new one appended.\<close>

definition set_text_child :: "CPLXMLNode \<Rightarrow> cstring \<Rightarrow> CPLXMLNode" where
  "set_text_child n val =
     XMLNode (eType n) (pszValue n)
       (case first_index (\<lambda>c. eType c = CXT_Text) (psChild n) of
          Some i \<Rightarrow> (psChild n)[i := XMLNode CXT_Text val (psChild (psChild n ! i))]
        | None \<Rightarrow> psChild n @ [CPLCreateXMLNode CXT_Text val])"

definition is_hash :: "cstring \<Rightarrow> bool" where
  "is_hash t = (take 1 t = ''#'')"

definition unhash :: "cstring \<Rightarrow> cstring" where
  "unhash t = (if is_hash t then drop 1 t else t)"

text \<open>The walk of \<open>CPLSetXMLValue\<close>: whether it succeeded, and the node with the nodes created on
  the way, which stay when it fails.\<close>

fun set_loop :: "CPLXMLNode \<Rightarrow> cstring list \<Rightarrow> cstring \<Rightarrow> bool \<times> CPLXMLNode" where
  "set_loop n [] val = (True, set_text_child n val)"
| "set_loop n (t # ts) val =
     (if eType n \<noteq> CXT_Element then (False, n)
      else case first_index (path_match (unhash t)) (psChild n) of
             Some i \<Rightarrow>
               (let (ok, c) = set_loop (psChild n ! i) ts val
                in (ok, XMLNode (eType n) (pszValue n) ((psChild n)[i := c])))
           | None \<Rightarrow>
               (let (ok, c) = set_loop (CPLCreateXMLNode
                                 (if is_hash t then CXT_Attribute else CXT_Element) (unhash t)) ts val
                in (ok, XMLNode (eType n) (pszValue n) (psChild n @ [c]))))"

definition CPLSetXMLValue :: "CPLXMLNode \<Rightarrow> cstring option \<Rightarrow> cstring \<Rightarrow> (bool \<times> CPLXMLNode) option" where
  "CPLSetXMLValue psRoot pszPath pszVal = do {
     toks \<leftarrow> CSLTokenizeStringComplex pszPath ''.'' False False;
     Some (set_loop psRoot toks pszVal)
   }"

section \<open>Children and siblings\<close>

text \<open>\<open>psChild\<close> comes with its siblings; a node inserted before others loses its own, a node
  put at the end keeps them.\<close>

fun add_child_loop :: "CPLXMLNode list \<Rightarrow> CPLXMLNode list \<Rightarrow> CPLXMLNode list" where
  "add_child_loop (x # y # zs) new =
     (if eType (hd new) = CXT_Attribute \<and> eType y \<noteq> CXT_Attribute then x # hd new # y # zs
      else x # add_child_loop (y # zs) new)"
| "add_child_loop xs new = xs @ new"

definition CPLAddXMLChild :: "CPLXMLNode \<Rightarrow> CPLXMLNode list \<Rightarrow> CPLXMLNode" where
  "CPLAddXMLChild psParent new =
     XMLNode (eType psParent) (pszValue psParent)
       (case psChild psParent of
          [] \<Rightarrow> new
        | c # cs \<Rightarrow>
            (if eType (hd new) = CXT_Attribute \<and> eType c \<noteq> CXT_Attribute then hd new # c # cs
             else add_child_loop (c # cs) new))"

text \<open>The child is given by its position, which stands for its address.\<close>

definition CPLRemoveXMLChild :: "CPLXMLNode \<Rightarrow> nat \<Rightarrow> bool \<times> CPLXMLNode" where
  "CPLRemoveXMLChild psParent i =
     (if i < length (psChild psParent)
      then (True, XMLNode (eType psParent) (pszValue psParent)
                    (take i (psChild psParent) @ drop (Suc i) (psChild psParent)))
      else (False, psParent))"

definition CPLAddXMLSibling :: "CPLXMLNode list \<Rightarrow> CPLXMLNode list \<Rightarrow> CPLXMLNode list" where
  "CPLAddXMLSibling psOlderSibling psNewSibling =
     (if psOlderSibling = [] then [] else psOlderSibling @ psNewSibling)"

definition CPLCreateXMLElementAndValue :: "CPLXMLNode option \<Rightarrow> cstring \<Rightarrow> cstring \<Rightarrow> CPLXMLNode" where
  "CPLCreateXMLElementAndValue psParent pszName val =
     (let psElement = XMLNode CXT_Element pszName [CPLCreateXMLNode CXT_Text val]
      in case psParent of
           None \<Rightarrow> psElement
         | Some p \<Rightarrow> XMLNode (eType p) (pszValue p) (psChild p @ [psElement]))"

fun CPLCloneXMLTree :: "CPLXMLNode list \<Rightarrow> CPLXMLNode list" where
  "CPLCloneXMLTree [] = []"
| "CPLCloneXMLTree (XMLNode ty v kids # ns) =
     (case CPLCreateXMLNode ty v of
        XMLNode ty' v' _ \<Rightarrow> XMLNode ty' v' (if kids \<noteq> [] then CPLCloneXMLTree kids else []))
     # CPLCloneXMLTree ns"

section \<open>Names\<close>

definition strip_name :: "cstring option \<Rightarrow> cstring \<Rightarrow> cstring" where
  "strip_name pszNamespace v =
     (case pszNamespace of
        Some ns \<Rightarrow>
          (if EQUALN ns v (length ns) \<and> char_at v (length ns) = Some (CHR '':'')
           then drop (length ns + 1) v else v)
      | None \<Rightarrow> (case dropWhile (\<lambda>c. c \<noteq> CHR '':'') v of [] \<Rightarrow> v | _ # r \<Rightarrow> r))"

fun strip_chain :: "cstring option \<Rightarrow> CPLXMLNode list \<Rightarrow> CPLXMLNode list" where
  "strip_chain ns [] = []"
| "strip_chain ns (XMLNode ty v kids # rest) =
     XMLNode ty (if ty = CXT_Element \<or> ty = CXT_Attribute then strip_name ns v else v)
       (strip_chain ns kids) # strip_chain ns rest"

definition CPLStripXMLNamespace :: "CPLXMLNode list \<Rightarrow> cstring option \<Rightarrow> bool \<Rightarrow> CPLXMLNode list" where
  "CPLStripXMLNamespace psRoot pszNamespace bRecurse =
     (if bRecurse then strip_chain pszNamespace psRoot
      else case psRoot of
             [] \<Rightarrow> []
           | r # rest \<Rightarrow>
               XMLNode (eType r)
                 (if eType r = CXT_Element \<or> eType r = CXT_Attribute
                  then strip_name pszNamespace (pszValue r) else pszValue r)
                 (psChild r) # rest)"

definition CPLCleanXMLElementName :: "cstring option \<Rightarrow> cstring option" where
  "CPLCleanXMLElementName pszTarget =
     map_option (map (\<lambda>c. if 128 \<le> code_of c \<or> c_isalnum c \<or> c = CHR ''_'' \<or> c = CHR ''.''
                          then c else CHR ''_'')) pszTarget"

section \<open>Facts\<close>

lemma first_index_Some:
  "first_index p xs = Some i \<Longrightarrow> i < length xs \<and> p (xs ! i) \<and> (\<forall>j < i. \<not> p (xs ! j))"
proof (induction xs arbitrary: i)
  case (Cons x xs)
  show ?case
  proof (cases "p x")
    case False
    with Cons.prems obtain k where "first_index p xs = Some k" "i = Suc k" by auto
    with Cons.IH [of k] False show ?thesis by (auto simp: less_Suc_eq_0_disj)
  qed (use Cons.prems in auto)
qed simp

lemma first_index_find: "first_index p xs = None \<longleftrightarrow> find p xs = None"
  "first_index p xs = Some i \<Longrightarrow> find p xs = Some (xs ! i)"
  by (induction xs arbitrary: i) auto

lemma find_update:
  "first_index p xs = Some i \<Longrightarrow> p y \<Longrightarrow> find p (xs[i := y]) = Some y"
  by (induction xs arbitrary: i) (auto split: if_splits)

lemma find_snoc: "find p xs = None \<Longrightarrow> p y \<Longrightarrow> find p (xs @ [y]) = Some y"
  by (induction xs) auto

lemma set_loop_same_name: "set_loop n ts val = (ok, n') \<Longrightarrow> eType n' = eType n \<and> pszValue n' = pszValue n"
  by (cases ts) (auto simp: set_text_child_def split: if_splits option.splits prod.splits)

text \<open>The node the walk ends at holds the value as its first text.\<close>

lemma get_after_set_node:
  assumes "set_loop n ts val = (True, n')"
  shows "\<exists>m. get_loop n' (psChild n') (map unhash ts) = Some m \<and>
    (\<exists>kids. find (\<lambda>c. eType c = CXT_Text) (psChild m) = Some (XMLNode CXT_Text val kids))"
  using assms
proof (induction ts arbitrary: n n')
  case Nil
  let ?p = "\<lambda>c. eType c = CXT_Text"
  have n': "n' = set_text_child n val" using Nil by simp
  show ?case
  proof (cases "first_index ?p (psChild n)")
    case None
    then show ?thesis using find_snoc [of ?p "psChild n"] first_index_find(1) [of ?p "psChild n"] n'
      by (simp add: set_text_child_def CPLCreateXMLNode_def)
  next
    case (Some i)
    with n' find_update [OF Some, of "XMLNode CXT_Text val (psChild (psChild n ! i))"] show ?thesis
      by (simp add: set_text_child_def)
  qed
next
  case (Cons t ts)
  then have el: "eType n = CXT_Element" by (auto split: if_splits)
  let ?p = "path_match (unhash t)"
  show ?case
  proof (cases "first_index ?p (psChild n)")
    case (Some i)
    with Cons.prems el obtain c where c: "set_loop (psChild n ! i) ts val = (True, c)"
      "n' = XMLNode (eType n) (pszValue n) ((psChild n)[i := c])"
      by (auto split: prod.splits)
    have "?p c"
      using first_index_Some [OF Some] set_loop_same_name [OF c(1)] by (simp add: path_match_def)
    with find_update [OF Some] c(2) Cons.IH [OF c(1)] show ?thesis by simp
  next
    case None
    let ?new = "CPLCreateXMLNode (if is_hash t then CXT_Attribute else CXT_Element) (unhash t)"
    from None Cons.prems el obtain c where c: "set_loop ?new ts val = (True, c)"
      "n' = XMLNode (eType n) (pszValue n) (psChild n @ [c])"
      by (auto split: prod.splits)
    have "?p c"
      using set_loop_same_name [OF c(1)] by (simp add: path_match_def CPLCreateXMLNode_def)
    with None c(2) Cons.IH [OF c(1)] find_snoc [of ?p "psChild n"] show ?thesis
      by (simp add: first_index_find)
  qed
qed

text \<open>A path that was absent: the node reached is new and holds the value alone.\<close>

lemma get_after_set_fresh:
  assumes "set_loop n ts val = (True, n')" and "ts \<noteq> []"
    and "psChild n = [] \<or> get_loop n (psChild n) (map unhash ts) = None"
  shows "\<exists>m. get_loop n' (psChild n') (map unhash ts) = Some m \<and> eType m \<in> {CXT_Element, CXT_Attribute} \<and>
    psChild m = [XMLNode CXT_Text val []]"
  using assms
proof (induction ts arbitrary: n n')
  case (Cons t ts)
  then have el: "eType n = CXT_Element" by (auto split: if_splits)
  let ?p = "path_match (unhash t)"
  show ?case
  proof (cases "first_index ?p (psChild n)")
    case (Some i)
    with Cons.prems(1) el obtain c where c: "set_loop (psChild n ! i) ts val = (True, c)"
      "n' = XMLNode (eType n) (pszValue n) ((psChild n)[i := c])"
      by (auto split: prod.splits)
    have "psChild n \<noteq> []" using first_index_Some [OF Some] by auto
    then have abs: "get_loop (psChild n ! i) (psChild (psChild n ! i)) (map unhash ts) = None"
      using Cons.prems(3) first_index_find(2) [OF Some] by simp
    then have "ts \<noteq> []" by auto
    have "?p c"
      using first_index_Some [OF Some] set_loop_same_name [OF c(1)] by (simp add: path_match_def)
    with find_update [OF Some] c(2) Cons.IH [OF c(1) \<open>ts \<noteq> []\<close> disjI2 [OF abs]] show ?thesis by simp
  next
    case None
    let ?new = "CPLCreateXMLNode (if is_hash t then CXT_Attribute else CXT_Element) (unhash t)"
    from None Cons.prems(1) el obtain c where c: "set_loop ?new ts val = (True, c)"
      "n' = XMLNode (eType n) (pszValue n) (psChild n @ [c])"
      by (auto split: prod.splits)
    have "?p c"
      using set_loop_same_name [OF c(1)] by (simp add: path_match_def CPLCreateXMLNode_def)
    then have at_c: "get_loop n' (psChild n') (map unhash (t # ts)) = get_loop c (psChild c) (map unhash ts)"
      using None c(2) find_snoc [of ?p "psChild n"] by (simp add: first_index_find)
    show ?thesis
    proof (cases "ts = []")
      case True
      with c(1) at_c show ?thesis by (auto simp: set_text_child_def CPLCreateXMLNode_def)
    next
      case False
      have "psChild ?new = []" by (simp add: CPLCreateXMLNode_def)
      with Cons.IH [OF c(1) False] at_c show ?thesis by simp
    qed
  qed
qed simp

text \<open>
  C31.  Setting a value by a path that does not exist yet creates it: when \<open>CPLSetXMLValue\<close>
  returns TRUE, \<open>CPLGetXMLValue\<close> with the same path (an attribute without its hash sign) returns
  the value.
\<close>

theorem CPLGetXMLValue_after_Set:
  assumes "CSLTokenizeStringComplex (Some p) ''.'' False False = Some ts" and "ts \<noteq> []"
    and "path_tokens q = Some (map unhash ts)" and "q \<noteq> []" and "\<not> side_search q"
    and "CPLGetXMLNode [root] (Some q) = Some None"
    and "CPLSetXMLValue root (Some p) val = Some (True, root')"
  shows "CPLGetXMLValue [root'] (Some q) dflt = Some (Some val)"
proof -
  have "drop_equal q = q" using assms(5) by (simp add: drop_equal_def)
  then have none: "get_loop root (psChild root) (map unhash ts) = None"
    using assms(3,5,6) by (simp add: CPLGetXMLNode_def)
  have "set_loop root ts val = (True, root')" using assms(1,7) by (simp add: CPLSetXMLValue_def)
  from get_after_set_fresh [OF this assms(2) disjI2 [OF none]] obtain m where
    "get_loop root' (psChild root') (map unhash ts) = Some m" "eType m \<in> {CXT_Element, CXT_Attribute}"
    "psChild m = [XMLNode CXT_Text val []]" by blast
  then show ?thesis
    using assms(3-5) \<open>drop_equal q = q\<close> by (auto simp: CPLGetXMLValue_def CPLGetXMLNode_def)
qed

theorem CPLGetXMLValue_after_Set_witness:
  "CPLGetXMLValue [snd (the (CPLSetXMLValue (XMLNode CXT_Element ''r'' []) (Some ''a.#b'') ''v''))] (Some ''a.b'') None = Some (Some ''v'')"
proof -
  have "CSLTokenizeStringComplex (Some ''a.#b'') ''.'' False False = Some [''a'', ''#b'']"
    "path_tokens ''a.b'' = Some (map unhash [''a'', ''#b''])" "\<not> side_search ''a.b''"
    "CPLGetXMLNode [XMLNode CXT_Element ''r'' []] (Some ''a.b'') = Some None"
    "CPLSetXMLValue (XMLNode CXT_Element ''r'' []) (Some ''a.#b'') ''v'' =
      Some (True, snd (the (CPLSetXMLValue (XMLNode CXT_Element ''r'' []) (Some ''a.#b'') ''v'')))"
    by code_simp+
  from CPLGetXMLValue_after_Set [OF this(1) _ this(2) _ this(3-5)] show ?thesis by simp
qed

text \<open>Attributes first, as \<open>CPLAddXMLChild\<close> keeps them.\<close>

definition attributes_first :: "CPLXMLNode list \<Rightarrow> bool" where
  "attributes_first kids =
     (\<forall>k \<in> set (dropWhile (\<lambda>c. eType c = CXT_Attribute) kids). eType k \<noteq> CXT_Attribute)"

lemma attributes_first_Cons:
  "attributes_first (x # xs) \<longleftrightarrow>
    (if eType x = CXT_Attribute then attributes_first xs else \<forall>k \<in> set xs. eType k \<noteq> CXT_Attribute)"
  by (simp add: attributes_first_def)

lemma dropWhile_takeWhile_append: "dropWhile p (takeWhile p xs @ ys) = dropWhile p ys"
  by (induction xs) auto

lemma dropWhile_idem: "dropWhile p (dropWhile p xs) = dropWhile p xs"
  by (induction xs) simp_all

lemma add_child_loop_other:
  "eType c \<noteq> CXT_Attribute \<Longrightarrow> add_child_loop xs [c] = xs @ [c]"
  by (induction xs "[c]" rule: add_child_loop.induct) simp_all

lemma add_child_loop_attribute:
  "eType c = CXT_Attribute \<Longrightarrow> eType (hd xs) = CXT_Attribute \<Longrightarrow> xs \<noteq> [] \<Longrightarrow>
    add_child_loop xs [c] =
      takeWhile (\<lambda>k. eType k = CXT_Attribute) xs @ c # dropWhile (\<lambda>k. eType k = CXT_Attribute) xs"
  by (induction xs "[c]" rule: add_child_loop.induct) auto

text \<open>
  \<open>CPLAddXMLChild\<close> puts an attribute behind the attributes the parent starts with and any
  other node at the end, so a parent whose attributes come first stays so.
\<close>

theorem CPLAddXMLChild_places:
  assumes "attributes_first (psChild p)"
  shows "psChild (CPLAddXMLChild p [c]) =
      (if eType c = CXT_Attribute
       then takeWhile (\<lambda>k. eType k = CXT_Attribute) (psChild p) @ c #
              dropWhile (\<lambda>k. eType k = CXT_Attribute) (psChild p)
       else psChild p @ [c]) \<and>
    attributes_first (psChild (CPLAddXMLChild p [c]))"
proof -
  have place: "psChild (CPLAddXMLChild p [c]) =
      (if eType c = CXT_Attribute
       then takeWhile (\<lambda>k. eType k = CXT_Attribute) (psChild p) @ c #
              dropWhile (\<lambda>k. eType k = CXT_Attribute) (psChild p)
       else psChild p @ [c])"
    by (cases "psChild p")
      (simp_all add: CPLAddXMLChild_def add_child_loop_other add_child_loop_attribute
        del: add_child_loop.simps)
  have "attributes_first (takeWhile (\<lambda>k. eType k = CXT_Attribute) xs @ c # dropWhile (\<lambda>k. eType k = CXT_Attribute) xs)"
    if "attributes_first xs" "eType c = CXT_Attribute" for xs
    using that(1) unfolding attributes_first_def dropWhile_takeWhile_append dropWhile.simps that(2)
    by (simp only: simp_thms if_True dropWhile_idem)
  moreover have "attributes_first (xs @ [c])" if "attributes_first xs" "eType c \<noteq> CXT_Attribute" for xs
  proof (cases "\<forall>x \<in> set xs. eType x = CXT_Attribute")
    case True
    then have "dropWhile (\<lambda>k. eType k = CXT_Attribute) (xs @ [c]) = [c]"
      using that(2) by (subst dropWhile_append2) simp_all
    with that(2) show ?thesis by (simp add: attributes_first_def)
  next
    case False
    then have "dropWhile (\<lambda>k. eType k = CXT_Attribute) (xs @ [c]) =
        dropWhile (\<lambda>k. eType k = CXT_Attribute) xs @ [c]"
      by (simp only: dropWhile_append if_False)
    with that(1) show ?thesis
      unfolding attributes_first_def using that(2) by (simp only: set_append list.set ball_Un) blast
  qed
  ultimately show ?thesis using place assms by simp
qed

theorem CPLAddXMLChild_places_witness:
  "psChild (CPLAddXMLChild (XMLNode CXT_Element ''e'' [XMLNode CXT_Attribute ''a'' [], XMLNode CXT_Comment ''c'' []])
      [XMLNode CXT_Attribute ''b'' []]) =
    [XMLNode CXT_Attribute ''a'' [], XMLNode CXT_Attribute ''b'' [], XMLNode CXT_Comment ''c'' []]"
  using CPLAddXMLChild_places [of "XMLNode CXT_Element ''e'' [XMLNode CXT_Attribute ''a'' [], XMLNode CXT_Comment ''c'' []]"
      "XMLNode CXT_Attribute ''b'' []"]
  by (simp add: attributes_first_def)

lemma CPLCloneXMLTree_same: "CPLCloneXMLTree ns = ns"
  by (induction ns rule: CPLCloneXMLTree.induct) (auto simp: CPLCreateXMLNode_def)

end
