(* ===== verification/Band_Table.thy ===== *)
theory Band_Table
  imports Prelude
begin

text \<open>
  The block table of a raster band, \<^verbatim>\<open>gcore/gdalrasterband.cpp\<close>: its layout
  (\<open>InitBlockInfo\<close>) and the two ways a block is found in it, directly or through grids of 64 by
  64 blocks.  A pointer to a block is an address; an index outside a table is a fault.
\<close>

unbundle bit_operations_syntax

definition SUBBLOCK_SIZE :: int where "SUBBLOCK_SIZE = 64"
definition TO_SUBBLOCK :: "int \<Rightarrow> int" where "TO_SUBBLOCK x = drop_bit 6 x"
definition WITHIN_SUBBLOCK :: "int \<Rightarrow> int" where "WITHIN_SUBBLOCK x = x AND 0x3f"
definition INT_MAX :: int where "INT_MAX = 2 ^ 31 - 1"

type_synonym addr = nat

text \<open>The array behind \<open>papoBlocks\<close>: of blocks, or of grids.\<close>

datatype block_array = Blocks "addr option list" | Grids "addr option list option list"

record band =
  nRasterXSize :: int
  nRasterYSize :: int
  nBlockXSize :: int
  nBlockYSize :: int
  nDataTypeBits :: int
  bReadOnly :: bool
  nSubBlocksPerRow :: int
  nBlocksPerRow :: int
  nSubBlocksPerColumn :: int
  nBlocksPerColumn :: int
  bSubBlockingActive :: bool
  papoBlocks :: "block_array option"
  nBlockReads :: int

section \<open>Layout\<close>

text \<open>The constructor.\<close>

definition GDALRasterBand :: band where
  "GDALRasterBand =
     \<lparr>nRasterXSize = 0, nRasterYSize = 0, nBlockXSize = -1, nBlockYSize = -1, nDataTypeBits = 8,
      bReadOnly = True, nSubBlocksPerRow = 0, nBlocksPerRow = 0, nSubBlocksPerColumn = 0,
      nBlocksPerColumn = 0, bSubBlockingActive = False, papoBlocks = None, nBlockReads = 0\<rparr>"

definition GetBlockSize :: "band \<Rightarrow> int \<times> int" where
  "GetBlockSize b =
     (if nBlockXSize b \<le> 0 \<or> nBlockYSize b \<le> 0 then (0, 0) else (nBlockXSize b, nBlockYSize b))"

text \<open>The products are computed in an \<^verbatim>\<open>int\<close> where the code computes them in one; allocation is
  taken to succeed.\<close>

definition InitBlockInfo :: "band \<Rightarrow> bool \<times> band" where
  "InitBlockInfo b =
     (if papoBlocks b \<noteq> None then (True, b)
      else if nBlockXSize b \<le> 0 \<or> nBlockYSize b \<le> 0 then (False, b)
      else if nRasterXSize b \<le> 0 \<or> nRasterYSize b \<le> 0 then (False, b)
      else if (nBlockXSize b \<ge> 10000 \<or> nBlockYSize b \<ge> 10000) \<and>
              to_i32 (to_i32 (nBlockXSize b * nBlockYSize b) * c_div (nDataTypeBits b) 8) \<noteq>
              nBlockXSize b * nBlockYSize b * c_div (nDataTypeBits b) 8
           then (False, b)
      else if nRasterXSize b > INT_MAX - (nBlockXSize b - 1) then (False, b)
      else if nRasterYSize b > INT_MAX - (nBlockYSize b - 1) then (False, b)
      else
        let perRow = c_div (nRasterXSize b + nBlockXSize b - 1) (nBlockXSize b);
            perColumn = c_div (nRasterYSize b + nBlockYSize b - 1) (nBlockYSize b);
            b1 = b\<lparr>nBlocksPerRow := perRow, nBlocksPerColumn := perColumn\<rparr>
        in if perRow < c_div SUBBLOCK_SIZE 2
           then (let b2 = b1\<lparr>bSubBlockingActive := False\<rparr>
                 in if perRow < c_div INT_MAX perColumn
                    then (True, b2\<lparr>papoBlocks := Some (Blocks (replicate (nat (perRow * perColumn)) None))\<rparr>)
                    else (False, b2))
           else if perRow > INT_MAX - (SUBBLOCK_SIZE + 1) then (False, b1)
           else if perColumn > INT_MAX - (SUBBLOCK_SIZE + 1) then (False, b1)
           else
             let subRow = c_div (perRow + SUBBLOCK_SIZE + 1) SUBBLOCK_SIZE;
                 subColumn = c_div (perColumn + SUBBLOCK_SIZE + 1) SUBBLOCK_SIZE;
                 b2 = b1\<lparr>bSubBlockingActive := True, nSubBlocksPerRow := subRow,
                         nSubBlocksPerColumn := subColumn\<rparr>
             in if subRow < c_div INT_MAX subColumn
                then (True, b2\<lparr>papoBlocks := Some (Grids (replicate (nat (subRow * subColumn)) None))\<rparr>)
                else (False, b2))"

section \<open>Finding a block\<close>

definition block_index :: "band \<Rightarrow> int \<Rightarrow> int \<Rightarrow> int" where
  "block_index b x y = x + y * nBlocksPerRow b"

definition sub_index :: "band \<Rightarrow> int \<Rightarrow> int \<Rightarrow> int" where
  "sub_index b x y = TO_SUBBLOCK x + TO_SUBBLOCK y * nSubBlocksPerRow b"

definition in_sub_index :: "int \<Rightarrow> int \<Rightarrow> int" where
  "in_sub_index x y = WITHIN_SUBBLOCK x + WITHIN_SUBBLOCK y * SUBBLOCK_SIZE"

text \<open>Reading and writing \<^verbatim>\<open>arr[i]\<close>.\<close>

definition at_index :: "'a list \<Rightarrow> int \<Rightarrow> 'a option" where
  "at_index arr i = (if 0 \<le> i \<and> i < int (length arr) then Some (arr ! nat i) else None)"

definition put_index :: "'a list \<Rightarrow> int \<Rightarrow> 'a \<Rightarrow> 'a list option" where
  "put_index arr i v = (if 0 \<le> i \<and> i < int (length arr) then Some (arr[nat i := v]) else None)"

text \<open>The slot of a block: \<open>Some None\<close> is a NULL slot or a missing grid.\<close>

definition get_slot :: "band \<Rightarrow> int \<Rightarrow> int \<Rightarrow> addr option option" where
  "get_slot b x y =
     (case papoBlocks b of
        None \<Rightarrow> None
      | Some (Blocks arr) \<Rightarrow> at_index arr (block_index b x y)
      | Some (Grids grids) \<Rightarrow> do {
          g \<leftarrow> at_index grids (sub_index b x y);
          (case g of None \<Rightarrow> Some None | Some grid \<Rightarrow> at_index grid (in_sub_index x y))
        })"

text \<open>Storing into the slot; a missing grid is created as \<open>AdoptBlock\<close> does, cleared to NULL.\<close>

definition set_slot :: "band \<Rightarrow> int \<Rightarrow> int \<Rightarrow> addr option \<Rightarrow> band option" where
  "set_slot b x y v =
     (case papoBlocks b of
        None \<Rightarrow> None
      | Some (Blocks arr) \<Rightarrow> do {
          arr' \<leftarrow> put_index arr (block_index b x y) v;
          Some (b\<lparr>papoBlocks := Some (Blocks arr')\<rparr>)
        }
      | Some (Grids grids) \<Rightarrow> do {
          g \<leftarrow> at_index grids (sub_index b x y);
          let grid = (case g of None \<Rightarrow> replicate (nat (SUBBLOCK_SIZE * SUBBLOCK_SIZE)) None
                      | Some grid \<Rightarrow> grid);
          grid' \<leftarrow> put_index grid (in_sub_index x y) v;
          grids' \<leftarrow> put_index grids (sub_index b x y) (Some grid');
          Some (b\<lparr>papoBlocks := Some (Grids grids')\<rparr>)
        })"

definition in_band :: "band \<Rightarrow> int \<Rightarrow> int \<Rightarrow> bool" where
  "in_band b x y = (0 \<le> x \<and> x < nBlocksPerRow b \<and> 0 \<le> y \<and> y < nBlocksPerColumn b)"

section \<open>The table as a map from offsets to blocks\<close>

text \<open>Arrays of the right size.\<close>

definition table_ok :: "band \<Rightarrow> bool" where
  "table_ok b =
     (0 < nBlocksPerRow b \<and> 0 < nBlocksPerColumn b \<and>
      (case papoBlocks b of
         None \<Rightarrow> False
       | Some (Blocks arr) \<Rightarrow> int (length arr) = nBlocksPerRow b * nBlocksPerColumn b
       | Some (Grids grids) \<Rightarrow>
           int (length grids) = nSubBlocksPerRow b * nSubBlocksPerColumn b \<and>
           nBlocksPerRow b \<le> SUBBLOCK_SIZE * nSubBlocksPerRow b \<and>
           nBlocksPerColumn b \<le> SUBBLOCK_SIZE * nSubBlocksPerColumn b \<and>
           (\<forall>g \<in> set grids. case g of None \<Rightarrow> True | Some grid \<Rightarrow> length grid = 4096)))"

lemma TO_SUBBLOCK_div: "TO_SUBBLOCK x = x div 64"
  by (simp add: TO_SUBBLOCK_def drop_bit_eq_div)

lemma WITHIN_SUBBLOCK_mod: "WITHIN_SUBBLOCK x = x mod 64"
proof -
  have "x AND mask 6 = take_bit 6 x" by (simp only: take_bit_eq_mask)
  then show ?thesis by (simp add: WITHIN_SUBBLOCK_def mask_eq_exp_minus_1 take_bit_eq_mod)
qed

lemma grid_index_range:
  assumes "0 \<le> x" and "x < w" and "0 \<le> y" and "y < (h::int)"
  shows "0 \<le> x + y * w \<and> x + y * w < w * h"
proof -
  have "y * w \<le> (h - 1) * w" using assms by (intro mult_right_mono) auto
  with assms show ?thesis by (auto simp: algebra_simps)
qed

lemma grid_index_inj:
  assumes "0 \<le> x" and "x < w" and "0 \<le> x'" and "x' < (w::int)" and "x + y * w = x' + y' * w"
  shows "x = x' \<and> y = y'"
proof -
  have "(x + y * w) mod w = x" "(x' + y' * w) mod w = x'" using assms(1-4) by simp_all
  with assms(5) have "x = x'" by simp
  with assms show ?thesis by auto
qed

lemma in_sub_index_range: "0 \<le> in_sub_index x y \<and> in_sub_index x y < 4096"
  using grid_index_range [of "x mod 64" 64 "y mod 64" 64]
  by (simp add: in_sub_index_def WITHIN_SUBBLOCK_mod SUBBLOCK_SIZE_def)

lemma in_sub_index_inj: "in_sub_index x y = in_sub_index x' y' \<Longrightarrow> x mod 64 = x' mod 64 \<and> y mod 64 = y' mod 64"
  using grid_index_inj [of "x mod 64" 64 "x' mod 64" "y mod 64" "y' mod 64"]
  by (simp add: in_sub_index_def WITHIN_SUBBLOCK_mod SUBBLOCK_SIZE_def)

lemma sub_position:
  assumes "0 \<le> x" and "x < w" and "w \<le> 64 * (n::int)"
  shows "0 \<le> x div 64 \<and> x div 64 < n"
  using assms by auto

lemma sub_index_range:
  assumes "table_ok b" and "papoBlocks b = Some (Grids grids)" and "in_band b x y"
  shows "0 \<le> sub_index b x y \<and> sub_index b x y < int (length grids)"
  using assms grid_index_range [of "x div 64" "nSubBlocksPerRow b" "y div 64" "nSubBlocksPerColumn b"]
    sub_position [of x "nBlocksPerRow b" "nSubBlocksPerRow b"]
    sub_position [of y "nBlocksPerColumn b" "nSubBlocksPerColumn b"]
  by (simp add: table_ok_def in_band_def sub_index_def TO_SUBBLOCK_div SUBBLOCK_SIZE_def)

lemma at_index_put_index:
  assumes "put_index arr i v = Some arr'"
  shows "at_index arr' j = (if i = j then Some v else at_index arr j)" and "length arr' = length arr"
  using assms by (auto simp: put_index_def at_index_def nth_list_update split: if_splits)

lemma get_slot_returns:
  assumes "table_ok b" and "in_band b x y"
  shows "\<exists>v. get_slot b x y = Some v"
proof (cases "papoBlocks b")
  case None
  with assms show ?thesis by (simp add: table_ok_def)
next
  case (Some t)
  show ?thesis
  proof (cases t)
    case (Blocks arr)
    with assms Some show ?thesis
      using grid_index_range [of x "nBlocksPerRow b" y "nBlocksPerColumn b"]
      by (simp add: get_slot_def table_ok_def in_band_def at_index_def block_index_def)
  next
    case (Grids grids)
    with Some sub_index_range [OF assms(1) _ assms(2)] have r: "0 \<le> sub_index b x y" "sub_index b x y < int (length grids)"
      by simp_all
    then have "grids ! nat (sub_index b x y) \<in> set grids" by simp
    with assms Some Grids have "case grids ! nat (sub_index b x y) of None \<Rightarrow> True | Some grid \<Rightarrow> length grid = 4096"
      by (auto simp: table_ok_def)
    with r Some Grids in_sub_index_range [of x y] show ?thesis
      by (auto simp: get_slot_def at_index_def split: option.split)
  qed
qed

text \<open>Two blocks of a band never share a slot.\<close>

lemma same_slot:
  assumes "table_ok b" and "papoBlocks b = Some (Grids grids)" and "in_band b x y" and "in_band b x' y'"
    and "sub_index b x y = sub_index b x' y'" and "in_sub_index x y = in_sub_index x' y'"
  shows "x = x' \<and> y = y'"
proof -
  have "x mod 64 = x' mod 64" "y mod 64 = y' mod 64" using in_sub_index_inj [OF assms(6)] by auto
  moreover have "x div 64 = x' div 64 \<and> y div 64 = y' div 64"
    using assms(1-5) sub_position [of x "nBlocksPerRow b" "nSubBlocksPerRow b"]
      sub_position [of x' "nBlocksPerRow b" "nSubBlocksPerRow b"]
    by (intro grid_index_inj [where w = "nSubBlocksPerRow b"])
      (simp_all add: table_ok_def in_band_def sub_index_def TO_SUBBLOCK_div SUBBLOCK_SIZE_def)
  ultimately show ?thesis by (metis mult_div_mod_eq)
qed

lemma set_slot_returns:
  assumes "table_ok b" and "in_band b x y"
  shows "\<exists>b'. set_slot b x y v = Some b' \<and> table_ok b' \<and> papoBlocks b' \<noteq> None \<and>
    b' = b\<lparr>papoBlocks := papoBlocks b'\<rparr> \<and>
    (\<forall>x' y'. in_band b x' y' \<longrightarrow> get_slot b' x' y' = (if x' = x \<and> y' = y then Some v else get_slot b x' y'))"
proof (cases "papoBlocks b")
  case None
  with assms show ?thesis by (simp add: table_ok_def)
next
  case (Some t)
  show ?thesis
  proof (cases t)
    case (Blocks arr)
    have range: "0 \<le> block_index b x y" "block_index b x y < int (length arr)"
      using assms Some Blocks grid_index_range [of x "nBlocksPerRow b" y "nBlocksPerColumn b"]
      by (simp_all add: table_ok_def in_band_def block_index_def)
    then obtain arr' where arr': "put_index arr (block_index b x y) v = Some arr'"
      by (simp add: put_index_def)
    let ?b' = "b\<lparr>papoBlocks := Some (Blocks arr')\<rparr>"
    have "get_slot ?b' x' y' = (if x' = x \<and> y' = y then Some v else get_slot b x' y')" if "in_band b x' y'" for x' y'
    proof -
      have "block_index b x y = block_index b x' y' \<longleftrightarrow> x' = x \<and> y' = y"
        using assms(2) that grid_index_inj [of x "nBlocksPerRow b" x' y y']
        by (auto simp: in_band_def block_index_def)
      then show ?thesis
        using at_index_put_index(1) [OF arr', of "block_index b x' y'"] Some Blocks
        by (auto simp: get_slot_def block_index_def)
    qed
    moreover have "table_ok ?b'"
      using assms(1) Some Blocks at_index_put_index(2) [OF arr'] by (simp add: table_ok_def)
    ultimately show ?thesis using Some Blocks arr' by (auto simp: set_slot_def)
  next
    case (Grids grids)
    let ?i = "sub_index b x y" and ?k = "in_sub_index x y"
    have i: "0 \<le> ?i" "?i < int (length grids)"
      using sub_index_range [OF assms(1) _ assms(2)] Some Grids by auto
    define grid where "grid = (case grids ! nat ?i of
        None \<Rightarrow> replicate (nat (SUBBLOCK_SIZE * SUBBLOCK_SIZE)) None | Some grid \<Rightarrow> grid)"
    have "grids ! nat ?i \<in> set grids" using i by simp
    then have len: "length grid = 4096"
      using assms(1) Some Grids
      by (auto simp: grid_def table_ok_def SUBBLOCK_SIZE_def split: option.splits)
    then obtain grid' where grid': "put_index grid ?k v = Some grid'"
      using in_sub_index_range [of x y] by (simp add: put_index_def)
    obtain grids' where grids': "put_index grids ?i (Some grid') = Some grids'"
      using i by (simp add: put_index_def)
    let ?b' = "b\<lparr>papoBlocks := Some (Grids grids')\<rparr>"
    have set: "set_slot b x y v = Some ?b'"
      using Some Grids i grid' grids' by (simp add: set_slot_def at_index_def grid_def Let_def)
    have "table_ok ?b'"
    proof -
      have "length grid' = 4096" using at_index_put_index(2) [OF grid'] len by simp
      moreover have "set grids' \<subseteq> insert (Some grid') (set grids)"
        using grids' i by (auto simp: put_index_def dest: set_update_subset_insert [THEN subsetD])
      ultimately show ?thesis
        using assms(1) Some Grids at_index_put_index(2) [OF grids'] by (fastforce simp: table_ok_def)
    qed
    moreover have "get_slot ?b' x' y' = (if x' = x \<and> y' = y then Some v else get_slot b x' y')"
      if xy': "in_band b x' y'" for x' y'
    proof (cases "sub_index b x' y' = ?i")
      case True
      have new: "get_slot ?b' x' y' = at_index grid' (in_sub_index x' y')"
        using True at_index_put_index(1) [OF grids', of "sub_index b x' y'"]
        by (simp add: get_slot_def sub_index_def)
      have old: "get_slot b x' y' = at_index grid (in_sub_index x' y')"
        using True Some Grids i in_sub_index_range [of x' y']
        by (auto simp: get_slot_def at_index_def grid_def SUBBLOCK_SIZE_def split: option.split)
      have "?k = in_sub_index x' y' \<longleftrightarrow> x' = x \<and> y' = y"
        using same_slot [OF assms(1) _ assms(2) xy'] Some Grids True by auto
      with new old at_index_put_index(1) [OF grid', of "in_sub_index x' y'"] show ?thesis by auto
    next
      case False
      then have "get_slot ?b' x' y' = get_slot b x' y'"
        using at_index_put_index(1) [OF grids', of "sub_index b x' y'"] Some Grids
        by (simp add: get_slot_def sub_index_def)
      with False show ?thesis by auto
    qed
    ultimately show ?thesis using set by auto
  qed
qed

lemma c_div_ceil:
  assumes "0 < n" and "0 < k"
  shows "0 < c_div (n + k - 1) k"
  using assms by (simp add: c_div_nonneg pos_imp_zdiv_pos_iff)

lemma c_div_sub:
  assumes "0 < n"
  shows "n \<le> 64 * c_div (n + 64 + 1) 64" and "0 < c_div (n + 64 + 1) 64"
  using assms by (simp_all add: c_div_nonneg)

lemma InitBlockInfo_ok:
  assumes "papoBlocks b = None \<or> table_ok b" and "InitBlockInfo b = (True, b')"
  shows "table_ok b' \<and> (papoBlocks b \<noteq> None \<longrightarrow> b' = b)"
proof (cases "papoBlocks b")
  case None
  then have pos: "0 < nBlockXSize b" "0 < nBlockYSize b" "0 < nRasterXSize b" "0 < nRasterYSize b"
    using assms(2) by (auto simp: InitBlockInfo_def split: if_splits)
  let ?r = "c_div (nRasterXSize b + nBlockXSize b - 1) (nBlockXSize b)"
  let ?c = "c_div (nRasterYSize b + nBlockYSize b - 1) (nBlockYSize b)"
  have rc: "0 < ?r" "0 < ?c" using c_div_ceil pos by simp_all
  have sub: "?r \<le> 64 * c_div (?r + 64 + 1) 64" "0 < c_div (?r + 64 + 1) 64"
    "?c \<le> 64 * c_div (?c + 64 + 1) 64" "0 < c_div (?c + 64 + 1) 64"
    using c_div_sub [OF rc(1)] c_div_sub [OF rc(2)] by simp_all
  have t: "table_ok b'"
    using assms(2) None rc sub
    by (auto simp: InitBlockInfo_def Let_def table_ok_def SUBBLOCK_SIZE_def split: if_splits)
  with None show ?thesis by simp
next
  case (Some t)
  with assms show ?thesis by (auto simp: InitBlockInfo_def)
qed

text \<open>A sequence of stores into the table.\<close>

fun set_slots :: "((int \<times> int) \<times> addr option) list \<Rightarrow> band \<Rightarrow> band option" where
  "set_slots [] b = Some b"
| "set_slots (((x, y), v) # ps) b = do { b \<leftarrow> set_slot b x y v; set_slots ps b }"

lemma set_slots_returns:
  assumes "table_ok b" and "\<forall>((x, y), v) \<in> set ps. in_band b x y"
  shows "\<exists>b'. set_slots ps b = Some b' \<and> table_ok b' \<and> b' = b\<lparr>papoBlocks := papoBlocks b'\<rparr> \<and>
    (\<forall>x y. in_band b x y \<longrightarrow> get_slot b' x y =
       (case map_of (rev ps) (x, y) of None \<Rightarrow> get_slot b x y | Some v \<Rightarrow> Some v))"
  using assms
proof (induction ps arbitrary: b)
  case (Cons p ps)
  obtain x y v where p: "p = ((x, y), v)" by (metis surj_pair)
  obtain b1 where b1: "set_slot b x y v = Some b1" "table_ok b1" "b1 = b\<lparr>papoBlocks := papoBlocks b1\<rparr>"
    "\<And>x' y'. in_band b x' y' \<Longrightarrow> get_slot b1 x' y' = (if x' = x \<and> y' = y then Some v else get_slot b x' y')"
    using set_slot_returns [OF Cons.prems(1), of x y v] Cons.prems(2) p by auto
  have "nBlocksPerRow b1 = nBlocksPerRow b" "nBlocksPerColumn b1 = nBlocksPerColumn b"
    using b1(3) by (metis band.simps(8,10) band.update_convs(12) band.surjective)+
  then have in1: "in_band b1 x' y' = in_band b x' y'" for x' y' by (simp add: in_band_def)
  have "\<forall>((x, y), v) \<in> set ps. in_band b1 x y" using Cons.prems(2) in1 by auto
  then obtain b2 where b2: "set_slots ps b1 = Some b2" "table_ok b2" "b2 = b1\<lparr>papoBlocks := papoBlocks b2\<rparr>"
    "\<And>x y. in_band b x y \<Longrightarrow> get_slot b2 x y =
       (case map_of (rev ps) (x, y) of None \<Rightarrow> get_slot b1 x y | Some v \<Rightarrow> Some v)"
    using Cons.IH [OF b1(2)] in1 by auto
  have "b2 = b\<lparr>papoBlocks := papoBlocks b2\<rparr>" using b1(3) b2(3) by (metis band.surjective band.update_convs(12))
  moreover have "get_slot b2 x' y' = (case map_of (rev (p # ps)) (x', y') of None \<Rightarrow> get_slot b x' y' | Some v \<Rightarrow> Some v)"
    if "in_band b x' y'" for x' y'
    using b2(4) [OF that] b1(4) [OF that] p by (auto simp: map_add_def split: option.split)
  ultimately show ?case using b1(1) b2(1,2) p by auto
qed simp

text \<open>
  C18.  The block table of a band is a map from block offsets to blocks, with and without
  sub-blocking: once \<open>InitBlockInfo\<close> has succeeded, no sequence of stores at offsets of the band leaves the
  arrays, and afterwards every offset of the band holds the block stored last at it, or NULL when none was.
\<close>

theorem band_table_is_map:
  assumes "papoBlocks b0 = None" and "InitBlockInfo b0 = (True, b)"
    and "\<forall>((x, y), v) \<in> set ps. in_band b x y" and "in_band b x y"
  shows "\<exists>b'. set_slots ps b = Some b' \<and>
    get_slot b' x y = Some (case map_of (rev ps) (x, y) of None \<Rightarrow> None | Some v \<Rightarrow> v)"
proof -
  have t: "table_ok b" using InitBlockInfo_ok [of b0 b] assms by blast
  obtain s where s: "get_slot b x y = Some s" using get_slot_returns [OF t assms(4)] by blast
  have "s = None"
    using s assms(1,2)
    by (auto simp: InitBlockInfo_def Let_def get_slot_def at_index_def split: if_splits)
  then show ?thesis using set_slots_returns [OF t assms(3)] assms(4) s by (auto split: option.split)
qed

text \<open>Three stores into the same grid of a band with sub-blocking, two of them at one offset.\<close>

theorem band_table_is_map_witness:
  "let b = snd (InitBlockInfo (GDALRasterBand\<lparr>nRasterXSize := 100, nRasterYSize := 5, nBlockXSize := 1, nBlockYSize := 1\<rparr>))
   in \<exists>b'. set_slots [((70, 3), Some 7), ((71, 3), Some 8), ((70, 3), Some 9)] b = Some b' \<and> get_slot b' 70 3 = Some (Some 9)"
proof -
  let ?b0 = "GDALRasterBand\<lparr>nRasterXSize := 100, nRasterYSize := 5, nBlockXSize := 1, nBlockYSize := 1\<rparr>"
  have "papoBlocks ?b0 = None" "fst (InitBlockInfo ?b0)" "in_band (snd (InitBlockInfo ?b0)) 70 3"
    "in_band (snd (InitBlockInfo ?b0)) 71 3"
    by (simp_all add: GDALRasterBand_def InitBlockInfo_def Let_def c_div_def SUBBLOCK_SIZE_def INT_MAX_def
        to_i32_def in_band_def)
  moreover from this(2) have "InitBlockInfo ?b0 = (True, snd (InitBlockInfo ?b0))"
    by (metis (full_types) prod.collapse)
  ultimately show ?thesis
    using band_table_is_map [of ?b0 _ "[((70, 3), Some 7), ((71, 3), Some 8), ((70, 3), Some 9)]" 70 3]
    by (simp add: Let_def)
qed

end
