(* ===== verification/Block_Lru.thy ===== *)
theory Block_Lru
  imports Band_Table
begin

text \<open>
  Cached blocks and the list that orders them by use, \<^verbatim>\<open>gcore/gdalrasterblock.cpp\<close>: the
  class \<open>GDALRasterBlock\<close>, and \<open>Detach\<close> and \<open>Touch\<close> on the doubly linked list from
  \<open>poNewest\<close> to \<open>poOldest\<close>.  Blocks live on a heap; dereferencing an address that is not
  allocated is a fault, the result \<open>None\<close>.
\<close>

text \<open>\<open>'d\<close> is the contents of a buffer.  \<open>eTypeBits\<close> is \<open>GDALGetDataTypeSize (eType)\<close>.\<close>

record 'd block =
  eTypeBits :: int
  bDirty :: bool
  nLockCount :: int
  nXOff :: int
  nYOff :: int
  nXSize :: int
  nYSize :: int
  pData :: "'d option"
  poBand :: "nat option"
  poNext :: "addr option"
  poPrevious :: "addr option"

record 'd heap =
  heap_blocks :: "addr \<rightharpoonup> 'd block"
  poNewest :: "addr option"
  poOldest :: "addr option"

definition block_at :: "addr \<Rightarrow> ('d, 'm) heap_scheme \<Rightarrow> 'd block option" where
  "block_at a s = heap_blocks s a"

definition set_block :: "addr \<Rightarrow> ('d block \<Rightarrow> 'd block) \<Rightarrow> ('d, 'm) heap_scheme \<Rightarrow> ('d, 'm) heap_scheme option" where
  "set_block a f s =
     (case heap_blocks s a of
        None \<Rightarrow> None
      | Some b \<Rightarrow> Some (s\<lparr>heap_blocks := (heap_blocks s)(a \<mapsto> f b)\<rparr>))"

text \<open>Storing through a pointer that may be NULL, in which case nothing is stored.\<close>

definition set_through :: "addr option \<Rightarrow> ('d block \<Rightarrow> 'd block) \<Rightarrow> ('d, 'm) heap_scheme \<Rightarrow> ('d, 'm) heap_scheme option" where
  "set_through p f s = (case p of None \<Rightarrow> Some s | Some a \<Rightarrow> set_block a f s)"

section \<open>The operations\<close>

text \<open>The two statements of \<open>Detach\<close> and \<open>Touch\<close> that link the neighbours of a block to each
  other.\<close>

definition bypass :: "addr \<Rightarrow> ('d, 'm) heap_scheme \<Rightarrow> ('d, 'm) heap_scheme option" where
  "bypass this s = do {
     b \<leftarrow> block_at this s;
     s \<leftarrow> set_through (poPrevious b) (\<lambda>p. p\<lparr>poNext := poNext b\<rparr>) s;
     b \<leftarrow> block_at this s;
     set_through (poNext b) (\<lambda>n. n\<lparr>poPrevious := poPrevious b\<rparr>) s
   }"

definition Detach :: "addr \<Rightarrow> ('d, 'm) heap_scheme \<Rightarrow> ('d, 'm) heap_scheme option" where
  "Detach this s = do {
     b \<leftarrow> block_at this s;
     let s = (if poOldest s = Some this then s\<lparr>poOldest := poPrevious b\<rparr> else s);
     let s = (if poNewest s = Some this then s\<lparr>poNewest := poNext b\<rparr> else s);
     s \<leftarrow> bypass this s;
     set_block this (\<lambda>b. b\<lparr>poPrevious := None, poNext := None\<rparr>) s
   }"

definition Touch :: "addr \<Rightarrow> ('d, 'm) heap_scheme \<Rightarrow> ('d, 'm) heap_scheme option" where
  "Touch this s =
     (if poNewest s = Some this then Some s
      else do {
        b \<leftarrow> block_at this s;
        let s = (if poOldest s = Some this then s\<lparr>poOldest := poPrevious b\<rparr> else s);
        s \<leftarrow> bypass this s;
        s \<leftarrow> set_block this (\<lambda>b. b\<lparr>poPrevious := None, poNext := poNewest s\<rparr>) s;
        s \<leftarrow> set_through (poNewest s) (\<lambda>n. n\<lparr>poPrevious := Some this\<rparr>) s;
        let s = s\<lparr>poNewest := Some this\<rparr>;
        Some (if poOldest s = None then s\<lparr>poOldest := Some this\<rparr> else s)
      })"

definition AddLock :: "addr \<Rightarrow> ('d, 'm) heap_scheme \<Rightarrow> ('d, 'm) heap_scheme option" where
  "AddLock a = set_block a (\<lambda>b. b\<lparr>nLockCount := nLockCount b + 1\<rparr>)"

definition DropLock :: "addr \<Rightarrow> ('d, 'm) heap_scheme \<Rightarrow> ('d, 'm) heap_scheme option" where
  "DropLock a = set_block a (\<lambda>b. b\<lparr>nLockCount := nLockCount b - 1\<rparr>)"

definition MarkDirty :: "addr \<Rightarrow> ('d, 'm) heap_scheme \<Rightarrow> ('d, 'm) heap_scheme option" where
  "MarkDirty a = set_block a (\<lambda>b. b\<lparr>bDirty := True\<rparr>)"

definition MarkClean :: "addr \<Rightarrow> ('d, 'm) heap_scheme \<Rightarrow> ('d, 'm) heap_scheme option" where
  "MarkClean a = set_block a (\<lambda>b. b\<lparr>bDirty := False\<rparr>)"

definition SafeLockBlock :: "addr option \<Rightarrow> ('d, 'm) heap_scheme \<Rightarrow> (bool \<times> ('d, 'm) heap_scheme) option" where
  "SafeLockBlock p s =
     (case p of
        None \<Rightarrow> Some (False, s)
      | Some a \<Rightarrow> do { s \<leftarrow> AddLock a s; s \<leftarrow> Touch a s; Some (True, s) })"

text \<open>The search of \<open>FlushCacheBlock\<close> for the oldest block that nobody has locked.  The list is
  finite unless it is cyclic; a walk round a cycle of locked blocks does not return.\<close>

partial_function (option) find_unlocked :: "('d, 'm) heap_scheme \<Rightarrow> addr option \<Rightarrow> addr option option" where
  "find_unlocked s poTarget =
     (case poTarget of
        None \<Rightarrow> Some None
      | Some a \<Rightarrow> do {
          b \<leftarrow> block_at a s;
          if nLockCount b > 0 then find_unlocked s (poPrevious b) else Some (Some a)
        })"

section \<open>The list as a sequence of addresses\<close>

definition head_or :: "addr list \<Rightarrow> addr option \<Rightarrow> addr option" where
  "head_or xs n = (case xs of [] \<Rightarrow> n | x # _ \<Rightarrow> Some x)"

primrec last_or :: "addr option \<Rightarrow> addr list \<Rightarrow> addr option" where
  "last_or p [] = p"
| "last_or p (x # xs) = last_or (Some x) xs"

text \<open>The neighbours of a block, and a segment of the list: the blocks \<open>xs\<close> linked to each
  other, to \<open>p\<close> before and to \<open>n\<close> behind.\<close>

definition neighbours :: "('d, 'm) heap_scheme \<Rightarrow> addr \<rightharpoonup> addr option \<times> addr option" where
  "neighbours s a = map_option (\<lambda>b. (poPrevious b, poNext b)) (heap_blocks s a)"

primrec links :: "(addr \<rightharpoonup> addr option \<times> addr option) \<Rightarrow> addr option \<Rightarrow> addr list \<Rightarrow> addr option \<Rightarrow> bool" where
  "links g p [] n = True"
| "links g p (x # xs) n = (g x = Some (p, head_or xs n) \<and> links g (Some x) xs n)"

text \<open>The list is \<open>xs\<close>, newest first, and a block outside it has no neighbours.\<close>

definition lru :: "('d, 'm) heap_scheme \<Rightarrow> addr list \<Rightarrow> bool" where
  "lru s xs =
     (distinct xs \<and> links (neighbours s) None xs None \<and>
      poNewest s = head_or xs None \<and> poOldest s = last_or None xs \<and>
      (\<forall>a. a \<notin> set xs \<longrightarrow> neighbours s a = None \<or> neighbours s a = Some (None, None)))"

text \<open>What a block holds besides its neighbours.\<close>

definition unlinked :: "'d block \<Rightarrow> 'd block" where
  "unlinked b = b\<lparr>poNext := None, poPrevious := None\<rparr>"

definition contents :: "('d, 'm) heap_scheme \<Rightarrow> addr \<rightharpoonup> 'd block" where
  "contents s a = map_option unlinked (heap_blocks s a)"

lemma head_or_simps [simp]: "head_or [] n = n" "head_or (x # xs) n = Some x"
  by (simp_all add: head_or_def)

lemma head_or_append [simp]: "head_or (xs @ ys) n = head_or xs (head_or ys n)"
  by (cases xs) simp_all

lemma last_or_append [simp]: "last_or p (xs @ ys) = last_or (last_or p xs) ys"
  by (induction xs arbitrary: p) simp_all

lemma last_or_cases: "last_or p xs = (if xs = [] then p else Some (last xs))"
  by (induction xs arbitrary: p) auto

lemma links_append: "links g p (xs @ ys) n \<longleftrightarrow> links g p xs (head_or ys n) \<and> links g (last_or p xs) ys n"
  by (induction xs arbitrary: p) auto

lemma links_frame: "links g p xs n \<Longrightarrow> a \<notin> set xs \<Longrightarrow> links (g(a := v)) p xs n"
  by (induction xs arbitrary: p) auto

lemma links_live: "links g p xs n \<Longrightarrow> a \<in> set xs \<Longrightarrow> \<exists>v. g a = Some v"
  by (induction xs arbitrary: p) auto

text \<open>Changing the pointer out of a segment at its end, and at its front.\<close>

lemma links_set_end:
  assumes "links g p (xs @ [x]) n" and "x \<notin> set xs"
  shows "links (g(x \<mapsto> (last_or p xs, n'))) p (xs @ [x]) n'"
  using assms links_frame [of g p xs "Some x" x] by (simp add: links_append)

lemma links_set_front:
  assumes "links g p (x # xs) n" and "x \<notin> set xs"
  shows "links (g(x \<mapsto> (p', head_or xs n))) p' (x # xs) n"
  using assms links_frame [of g "Some x" xs n x] by simp

lemma set_block_neighbours:
  assumes "neighbours s a = Some (p, n)"
    and "\<And>b. poPrevious b = p \<Longrightarrow> poNext b = n \<Longrightarrow> poPrevious (f b) = p' \<and> poNext (f b) = n' \<and> unlinked (f b) = unlinked b"
  shows "\<exists>s'. set_block a f s = Some s' \<and> neighbours s' = (neighbours s)(a \<mapsto> (p', n')) \<and>
    contents s' = contents s \<and> s' = s\<lparr>heap_blocks := heap_blocks s'\<rparr>"
proof -
  obtain b where b: "heap_blocks s a = Some b" "poPrevious b = p" "poNext b = n"
    using assms(1) by (auto simp: neighbours_def)
  let ?s = "s\<lparr>heap_blocks := (heap_blocks s)(a \<mapsto> f b)\<rparr>"
  have "set_block a f s = Some ?s" using b by (simp add: set_block_def)
  moreover have "neighbours ?s = (neighbours s)(a \<mapsto> (p', n'))"
    using assms(2) [of b] b by (auto simp: neighbours_def fun_eq_iff)
  moreover have "contents ?s = contents s"
    using assms(2) [of b] b by (auto simp: contents_def fun_eq_iff)
  ultimately show ?thesis by (intro exI [of _ ?s]) simp
qed

lemma set_next_through:
  assumes "links (neighbours s) None us m" and "distinct us"
  shows "\<exists>s'. set_through (last_or None us) (\<lambda>p. p\<lparr>poNext := n\<rparr>) s = Some s' \<and>
    links (neighbours s') None us n \<and> (\<forall>a. a \<notin> set us \<longrightarrow> neighbours s' a = neighbours s a) \<and>
    contents s' = contents s \<and> s' = s\<lparr>heap_blocks := heap_blocks s'\<rparr>"
proof (cases us rule: rev_cases)
  case Nil
  then show ?thesis by (simp add: set_through_def)
next
  case (snoc us' u)
  then have "neighbours s u = Some (last_or None us', m)" using assms(1) by (simp add: links_append)
  then obtain s' where "set_block u (\<lambda>p. p\<lparr>poNext := n\<rparr>) s = Some s'"
    "neighbours s' = (neighbours s)(u \<mapsto> (last_or None us', n))" "contents s' = contents s"
    "s' = s\<lparr>heap_blocks := heap_blocks s'\<rparr>"
    using set_block_neighbours [of s u "last_or None us'" m "\<lambda>p. p\<lparr>poNext := n\<rparr>" "last_or None us'" n]
    by (auto simp: unlinked_def)
  with snoc assms links_set_end [of "neighbours s" None us' u m n] show ?thesis
    by (simp add: set_through_def)
qed

lemma set_prev_through:
  assumes "links (neighbours s) m vs None" and "distinct vs"
  shows "\<exists>s'. set_through (head_or vs None) (\<lambda>n. n\<lparr>poPrevious := p\<rparr>) s = Some s' \<and>
    links (neighbours s') p vs None \<and> (\<forall>a. a \<notin> set vs \<longrightarrow> neighbours s' a = neighbours s a) \<and>
    contents s' = contents s \<and> s' = s\<lparr>heap_blocks := heap_blocks s'\<rparr>"
proof (cases vs)
  case Nil
  then show ?thesis by (simp add: set_through_def)
next
  case (Cons v vs')
  then have "neighbours s v = Some (m, head_or vs' None)" using assms(1) by simp
  then obtain s' where "set_block v (\<lambda>n. n\<lparr>poPrevious := p\<rparr>) s = Some s'"
    "neighbours s' = (neighbours s)(v \<mapsto> (p, head_or vs' None))" "contents s' = contents s"
    "s' = s\<lparr>heap_blocks := heap_blocks s'\<rparr>"
    using set_block_neighbours [of s v m "head_or vs' None" "\<lambda>n. n\<lparr>poPrevious := p\<rparr>" p "head_or vs' None"]
    by (auto simp: unlinked_def)
  with Cons assms links_set_front [of "neighbours s" m v vs' None p] show ?thesis
    by (simp add: set_through_def)
qed

text \<open>A change of the list pointers alone.\<close>

definition relinked :: "('d, 'm) heap_scheme \<Rightarrow> ('d, 'm) heap_scheme \<Rightarrow> bool" where
  "relinked s s' =
     (contents s' = contents s \<and> heap.more s' = heap.more s)"

lemma links_cong: "links g p xs n \<Longrightarrow> \<forall>a \<in> set xs. g' a = g a \<Longrightarrow> links g' p xs n"
  by (induction xs arbitrary: p) auto

lemma block_at_neighbours:
  assumes "neighbours s a = Some (p, n)"
  shows "\<exists>b. block_at a s = Some b \<and> poPrevious b = p \<and> poNext b = n"
  using assms by (auto simp: neighbours_def block_at_def)

text \<open>The core of both operations: the neighbours of \<open>x\<close> are linked to each other.\<close>

lemma bypass_links:
  assumes "distinct (us @ x # vs)" and "links (neighbours s) None us m" and "links (neighbours s) k vs None"
    and "neighbours s x = Some (last_or None us, head_or vs None)"
  shows "\<exists>s'. bypass x s = Some s' \<and>
    links (neighbours s') None (us @ vs) None \<and>
    (\<forall>a. a \<notin> set us \<union> set vs \<longrightarrow> neighbours s' a = neighbours s a) \<and>
    contents s' = contents s \<and> s' = s\<lparr>heap_blocks := heap_blocks s'\<rparr>"
proof -
  obtain b where b: "block_at x s = Some b" "poPrevious b = last_or None us" "poNext b = head_or vs None"
    using block_at_neighbours assms(4) by blast
  obtain s1 where s1: "set_through (last_or None us) (\<lambda>p. p\<lparr>poNext := head_or vs None\<rparr>) s = Some s1"
    "links (neighbours s1) None us (head_or vs None)" "\<forall>a. a \<notin> set us \<longrightarrow> neighbours s1 a = neighbours s a"
    "contents s1 = contents s" "s1 = s\<lparr>heap_blocks := heap_blocks s1\<rparr>"
    using set_next_through [OF assms(2), of "head_or vs None"] assms(1) by auto
  have "neighbours s1 x = Some (last_or None us, head_or vs None)" using s1(3) assms(1,4) by auto
  then obtain b1 where b1: "block_at x s1 = Some b1" "poPrevious b1 = last_or None us" "poNext b1 = head_or vs None"
    using block_at_neighbours by blast
  have "links (neighbours s1) k vs None" by (rule links_cong [OF assms(3)]) (use s1(3) assms(1) in auto)
  then obtain s2 where s2: "set_through (head_or vs None) (\<lambda>n. n\<lparr>poPrevious := last_or None us\<rparr>) s1 = Some s2"
    "links (neighbours s2) (last_or None us) vs None" "\<forall>a. a \<notin> set vs \<longrightarrow> neighbours s2 a = neighbours s1 a"
    "contents s2 = contents s1" "s2 = s1\<lparr>heap_blocks := heap_blocks s2\<rparr>"
    using set_prev_through [of s1 k vs "last_or None us"] assms(1) by auto
  have "links (neighbours s2) None us (head_or vs None)"
    by (rule links_cong [OF s1(2)]) (use s2(3) assms(1) in auto)
  moreover have "s2 = s\<lparr>heap_blocks := heap_blocks s2\<rparr>"
    using s1(5) s2(5) by (metis heap.surjective heap.update_convs(1))
  ultimately show ?thesis
    using b b1 s1 s2 by (intro exI [of _ s2]) (auto simp: links_append bypass_def)
qed

lemma list_pointers [simp]:
  "neighbours (s\<lparr>poOldest := p\<rparr>) = neighbours s" "neighbours (s\<lparr>poNewest := p\<rparr>) = neighbours s"
  "contents (s\<lparr>poOldest := p\<rparr>) = contents s" "contents (s\<lparr>poNewest := p\<rparr>) = contents s"
  "block_at a (s\<lparr>poOldest := p\<rparr>) = block_at a s" "block_at a (s\<lparr>poNewest := p\<rparr>) = block_at a s"
  by (auto simp: neighbours_def contents_def block_at_def)

lemma head_or_eq: "distinct (us @ x # vs) \<Longrightarrow> head_or (us @ x # vs) None = Some x \<longleftrightarrow> us = []"
  by (cases us) auto

lemma last_or_eq: "distinct (us @ x # vs) \<Longrightarrow> last_or None (us @ x # vs) = Some x \<longleftrightarrow> vs = []"
  by (cases vs rule: rev_cases) auto

lemma not_an_end: "x \<notin> set xs \<Longrightarrow> head_or xs None \<noteq> Some x \<and> last_or None xs \<noteq> Some x"
  by (cases xs) (auto simp: last_or_cases)

lemma relinked_trans: "relinked s s1 \<Longrightarrow> relinked s1 s2 \<Longrightarrow> relinked s s2"
  by (simp add: relinked_def)

text \<open>The first half of both operations, on a block in the list.\<close>

lemma bypass_lru:
  assumes "lru s (us @ x # vs)" and "neighbours s' = neighbours s"
  shows "\<exists>s2. bypass x s'  = Some s2 \<and>
    links (neighbours s2) None (us @ vs) None \<and> neighbours s2 x = Some (last_or None us, head_or vs None) \<and>
    (\<forall>a. a \<notin> set (us @ vs) \<longrightarrow> neighbours s2 a = neighbours s a) \<and>
    contents s2 = contents s' \<and> s2 = s'\<lparr>heap_blocks := heap_blocks s2\<rparr>"
proof -
  have d: "distinct (us @ x # vs)" and "links (neighbours s) None (us @ x # vs) None"
    using assms(1) by (simp_all add: lru_def)
  then have "links (neighbours s') None us (Some x)" "links (neighbours s') (Some x) vs None"
    "neighbours s' x = Some (last_or None us, head_or vs None)"
    by (simp_all add: assms(2) links_append)
  from bypass_links [OF d this] d this(3) show ?thesis by (auto simp: assms(2))
qed

lemma lru_member_split:
  assumes "lru s xs" and "x \<in> set xs"
  obtains us vs where "xs = us @ x # vs" "distinct (us @ x # vs)" "removeAll x xs = us @ vs"
    "x \<notin> set us" "x \<notin> set vs"
proof -
  obtain us vs where "xs = us @ x # vs" using assms(2) by (auto dest: split_list)
  moreover from this have "distinct (us @ x # vs)" using assms(1) by (simp add: lru_def)
  ultimately show thesis by (auto intro: that)
qed

lemma lru_outside:
  assumes "lru s xs" and "x \<notin> set xs" and "block_at x s = Some b"
  shows "neighbours s x = Some (None, None)" "poPrevious b = None" "poNext b = None"
  using assms by (auto simp: lru_def neighbours_def block_at_def)

lemma Detach_lru:
  assumes "lru s xs" and "block_at x s = Some b"
  shows "\<exists>s'. Detach x s = Some s' \<and> lru s' (removeAll x xs) \<and> relinked s s'"
proof (cases "x \<in> set xs")
  case True
  then obtain us vs where xs: "xs = us @ x # vs" "distinct (us @ x # vs)" "removeAll x xs = us @ vs"
    using lru_member_split [OF assms(1)] by metis
  have b: "poPrevious b = last_or None us" "poNext b = head_or vs None"
    using assms xs by (auto simp: lru_def links_append neighbours_def block_at_def)
  define s1 where "s1 = (if poOldest s = Some x then s\<lparr>poOldest := poPrevious b\<rparr> else s)"
  define s2 where "s2 = (if poNewest s1 = Some x then s1\<lparr>poNewest := poNext b\<rparr> else s1)"
  have n2: "neighbours s2 = neighbours s" and c2: "contents s2 = contents s" and b2: "block_at x s2 = Some b"
    using assms(2) by (simp_all add: s1_def s2_def)
  have ends: "poNewest s2 = head_or (us @ vs) None" "poOldest s2 = last_or None (us @ vs)"
    using assms(1) xs(1) b head_or_eq [OF xs(2)] last_or_eq [OF xs(2)]
    by (cases us; cases vs rule: rev_cases; simp add: s1_def s2_def lru_def)+
  obtain s3 where s3: "bypass x s2 = Some s3" "links (neighbours s3) None (us @ vs) None" "neighbours s3 x = Some (last_or None us, head_or vs None)"
    "\<forall>a. a \<notin> set (us @ vs) \<longrightarrow> neighbours s3 a = neighbours s a" "contents s3 = contents s2"
    "s3 = s2\<lparr>heap_blocks := heap_blocks s3\<rparr>"
    using bypass_lru [of s us x vs s2] assms(1) xs(1) n2 b2 by auto
  obtain s4 where s4: "set_block x (\<lambda>b. b\<lparr>poPrevious := None, poNext := None\<rparr>) s3 = Some s4"
    "neighbours s4 = (neighbours s3)(x \<mapsto> (None, None))" "contents s4 = contents s3"
    "s4 = s3\<lparr>heap_blocks := heap_blocks s4\<rparr>"
    using set_block_neighbours [OF s3(3), of "\<lambda>b. b\<lparr>poPrevious := None, poNext := None\<rparr>" None None]
    by (auto simp: unlinked_def)
  have "Detach x s = bypass x s2 \<bind> set_block x (\<lambda>b. b\<lparr>poPrevious := None, poNext := None\<rparr>)"
    by (simp add: Detach_def Let_def assms(2) s2_def s1_def)
  then have "Detach x s = Some s4" by (simp add: s3(1) s4(1))
  moreover have "links (neighbours s4) None (us @ vs) None"
    using links_frame [OF s3(2), of x] xs(2) s4(2) by auto
  moreover have "poNewest s4 = poNewest s2" "poOldest s4 = poOldest s2"
    by (subst s4(4), subst s3(6), simp)+
  moreover have "relinked s s4"
    unfolding relinked_def
  proof
    show "contents s4 = contents s" by (simp add: s4(3) s3(5) c2)
    show "heap.more s4 = heap.more s"
      by (subst s4(4), subst s3(6)) (simp add: s1_def s2_def)
  qed
  ultimately show ?thesis
    using assms(1) xs s3(4) s4(2) ends by (intro exI [of _ s4]) (auto simp: lru_def)
next
  case False
  have "heap_blocks s x = Some b" "poPrevious b = None" "poNext b = None"
    using assms(2) lru_outside [OF assms(1) False assms(2)] by (simp_all add: block_at_def)
  moreover have "poNewest s \<noteq> Some x" "poOldest s \<noteq> Some x"
    using not_an_end [OF False] assms(1) by (auto simp: lru_def)
  moreover from calculation have "set_block x (\<lambda>b. b\<lparr>poPrevious := None, poNext := None\<rparr>) s = Some s"
    by (simp add: set_block_def fun_upd_idem)
  ultimately have "Detach x s = Some s"
    using assms(2) by (simp add: Detach_def bypass_def set_through_def Let_def)
  then show ?thesis using assms(1) False by (simp add: relinked_def)
qed

text \<open>\<open>Touch\<close> makes the block the newest one.\<close>

lemma push_front:
  assumes "links (neighbours s) None ys None" and "distinct ys" and "x \<notin> set ys"
    and "neighbours s x = Some (p, n)" and "poNewest s = head_or ys None"
  shows "\<exists>s'. do {
       s \<leftarrow> set_block x (\<lambda>b. b\<lparr>poPrevious := None, poNext := poNewest s\<rparr>) s;
       set_through (poNewest s) (\<lambda>n. n\<lparr>poPrevious := Some x\<rparr>) s
     } = Some s' \<and>
    links (neighbours s') None (x # ys) None \<and> (\<forall>a. a \<notin> set (x # ys) \<longrightarrow> neighbours s' a = neighbours s a) \<and>
    contents s' = contents s \<and> s' = s\<lparr>heap_blocks := heap_blocks s'\<rparr>"
proof -
  obtain s1 where s1: "set_block x (\<lambda>b. b\<lparr>poPrevious := None, poNext := poNewest s\<rparr>) s = Some s1"
    "neighbours s1 = (neighbours s)(x \<mapsto> (None, head_or ys None))" "contents s1 = contents s"
    "s1 = s\<lparr>heap_blocks := heap_blocks s1\<rparr>"
    using set_block_neighbours [OF assms(4), of "\<lambda>b. b\<lparr>poPrevious := None, poNext := poNewest s\<rparr>" None "head_or ys None"]
    by (auto simp: unlinked_def assms(5))
  have new: "poNewest s1 = head_or ys None" by (subst s1(4)) (simp add: assms(5))
  have "links (neighbours s1) None ys None" using links_frame [OF assms(1) assms(3)] s1(2) by simp
  then obtain s2 where s2: "set_through (head_or ys None) (\<lambda>n. n\<lparr>poPrevious := Some x\<rparr>) s1 = Some s2"
    "links (neighbours s2) (Some x) ys None" "\<forall>a. a \<notin> set ys \<longrightarrow> neighbours s2 a = neighbours s1 a"
    "contents s2 = contents s1" "s2 = s1\<lparr>heap_blocks := heap_blocks s2\<rparr>"
    using set_prev_through [of s1 None ys "Some x"] assms(2) by auto
  have "s2 = s\<lparr>heap_blocks := heap_blocks s2\<rparr>" by (subst s2(5), subst s1(4)) simp
  then show ?thesis using s1 s2 new assms(3) by (intro exI [of _ s2]) auto
qed

lemma Touch_lru:
  assumes "lru s xs" and "block_at x s = Some b"
  shows "\<exists>s'. Touch x s = Some s' \<and> lru s' (x # removeAll x xs) \<and> relinked s s'"
proof (cases "poNewest s = Some x")
  case True
  then obtain ys where "xs = x # ys" using assms(1) by (cases xs) (auto simp: lru_def)
  then show ?thesis using assms(1) True by (auto simp: Touch_def relinked_def lru_def)
next
  case False
  define s1 where "s1 = (if poOldest s = Some x then s\<lparr>poOldest := poPrevious b\<rparr> else s)"
  have n1: "neighbours s1 = neighbours s" and c1: "contents s1 = contents s" and b1: "block_at x s1 = Some b"
    and h1: "poNewest s1 = poNewest s"
    using assms(2) by (simp_all add: s1_def)
  let ?ys = "removeAll x xs"
  have "\<exists>s2. bypass x s1 = Some s2 \<and> links (neighbours s2) None ?ys None \<and> (\<exists>v. neighbours s2 x = Some v) \<and>
    (\<forall>a. a \<notin> set xs \<longrightarrow> neighbours s2 a = neighbours s a) \<and> contents s2 = contents s1 \<and>
    s2 = s1\<lparr>heap_blocks := heap_blocks s2\<rparr> \<and> poNewest s1 = head_or ?ys None \<and> poOldest s1 = last_or None ?ys"
  proof (cases "x \<in> set xs")
    case True
    then obtain us vs where xs: "xs = us @ x # vs" "distinct (us @ x # vs)" "removeAll x xs = us @ vs"
      using lru_member_split [OF assms(1)] by metis
    have "poPrevious b = last_or None us"
      using assms xs by (auto simp: lru_def links_append neighbours_def block_at_def)
    moreover have "us \<noteq> []" using False assms(1) xs(1) by (auto simp: lru_def)
    ultimately have "poNewest s1 = head_or (us @ vs) None \<and> poOldest s1 = last_or None (us @ vs)"
      using assms(1) xs(1) last_or_eq [OF xs(2)] h1
      by (cases us; cases vs rule: rev_cases; simp add: s1_def lru_def)
    with bypass_lru [of s us x vs s1] assms(1) xs n1 show ?thesis by auto
  next
    case False
    note out = lru_outside [OF assms(1) False assms(2)]
    have "bypass x s1 = Some s1" using b1 out by (simp add: bypass_def set_through_def)
    moreover have "s1 = s" using not_an_end [OF False] assms(1) by (simp add: s1_def lru_def)
    ultimately show ?thesis using assms(1) out False by (auto simp: lru_def)
  qed
  then obtain s2 p n where s2: "bypass x s1 = Some s2" "links (neighbours s2) None ?ys None"
    "neighbours s2 x = Some (p, n)" "\<forall>a. a \<notin> set xs \<longrightarrow> neighbours s2 a = neighbours s a"
    "contents s2 = contents s1" "s2 = s1\<lparr>heap_blocks := heap_blocks s2\<rparr>"
    "poNewest s1 = head_or ?ys None" "poOldest s1 = last_or None ?ys"
    by auto
  have e2: "poNewest s2 = head_or ?ys None" "poOldest s2 = last_or None ?ys"
    by (subst s2(6), simp add: s2(7,8))+
  have d: "distinct ?ys" and nx: "x \<notin> set ?ys" using assms(1) by (simp_all add: lru_def distinct_removeAll)
  obtain s3 where s3: "(do {
       s \<leftarrow> set_block x (\<lambda>b. b\<lparr>poPrevious := None, poNext := poNewest s2\<rparr>) s2;
       set_through (poNewest s) (\<lambda>n. n\<lparr>poPrevious := Some x\<rparr>) s }) = Some s3"
    "links (neighbours s3) None (x # ?ys) None" "\<forall>a. a \<notin> set (x # ?ys) \<longrightarrow> neighbours s3 a = neighbours s2 a"
    "contents s3 = contents s2" "s3 = s2\<lparr>heap_blocks := heap_blocks s3\<rparr>"
    using push_front [OF s2(2) d nx s2(3) e2(1)] by blast
  have o3: "poOldest s3 = last_or None ?ys" by (subst s3(5)) (simp add: e2)
  define s4 where "s4 = s3\<lparr>poNewest := Some x\<rparr>"
  define s5 where "s5 = (if poOldest s4 = None then s4\<lparr>poOldest := Some x\<rparr> else s4)"
  obtain y where y: "set_block x (\<lambda>b. b\<lparr>poPrevious := None, poNext := poNewest s2\<rparr>) s2 = Some y"
    "set_through (poNewest y) (\<lambda>n. n\<lparr>poPrevious := Some x\<rparr>) y = Some s3"
    using s3(1) by (auto simp: bind_eq_Some_conv)
  have "Touch x s = Some s5"
    using False assms(2) s2(1) [unfolded s1_def] y
    by (cases "poOldest s = Some x") (simp_all add: Touch_def Let_def s4_def s5_def)
  moreover have "poOldest s5 = last_or None (x # ?ys)"
    using o3 by (auto simp: s5_def s4_def last_or_cases split: if_splits)
  moreover have "relinked s s5"
    unfolding relinked_def
  proof
    show "contents s5 = contents s" by (simp add: s5_def s4_def s3(4) s2(5) c1)
    have "heap.more s5 = heap.more s3" by (simp add: s5_def s4_def)
    also have "\<dots> = heap.more s" by (subst s3(5), subst s2(6)) (simp add: s1_def)
    finally show "heap.more s5 = heap.more s" .
  qed
  moreover have "neighbours s5 = neighbours s3" "poNewest s5 = Some x" by (simp_all add: s5_def s4_def)
  ultimately show ?thesis
    using assms(1) s3(2,3) s2(4) by (intro exI [of _ s5]) (auto simp: lru_def distinct_removeAll)
qed

section \<open>The oldest unlocked block\<close>

definition unlocked :: "('d, 'm) heap_scheme \<Rightarrow> addr \<Rightarrow> bool" where
  "unlocked s a = (case block_at a s of None \<Rightarrow> False | Some b \<Rightarrow> nLockCount b \<le> 0)"

lemma find_unlocked_segment:
  assumes "links (neighbours s) None us n"
  shows "find_unlocked s (last_or None us) = Some (find (unlocked s) (rev us))"
  using assms
proof (induction us arbitrary: n rule: rev_induct)
  case Nil
  show ?case by (subst find_unlocked.simps) simp
next
  case (snoc u us)
  then have "neighbours s u = Some (last_or None us, n)" and us: "links (neighbours s) None us (Some u)"
    by (simp_all add: links_append)
  then obtain b where "block_at u s = Some b" "poPrevious b = last_or None us"
    using block_at_neighbours by blast
  moreover from this have "unlocked s u \<longleftrightarrow> nLockCount b \<le> 0" by (simp add: unlocked_def)
  ultimately show ?case
    using snoc.IH [OF us] by (subst find_unlocked.simps) simp
qed

lemma find_unlocked_lru:
  assumes "lru s xs"
  shows "find_unlocked s (poOldest s) = Some (find (unlocked s) (rev xs))"
  using assms find_unlocked_segment [of s xs None] by (simp add: lru_def)

text \<open>
  C17.  The list of cached blocks is kept in order of use: on a list in order, \<open>Touch\<close> makes a
  block the newest one and \<open>Detach\<close> takes it out, whether or not it was in the list and
  wherever it was; the other blocks keep their order, and nothing but the list changes.
\<close>

theorem Touch_and_Detach_keep_order:
  assumes "lru s xs" and "block_at x s = Some b"
  shows "(\<exists>s'. Touch x s = Some s' \<and> lru s' (x # removeAll x xs) \<and>
      contents s' = contents s \<and> heap.more s' = heap.more s) \<and>
    (\<exists>s'. Detach x s = Some s' \<and> lru s' (removeAll x xs) \<and>
      contents s' = contents s \<and> heap.more s' = heap.more s)"
  using Touch_lru [OF assms] Detach_lru [OF assms] by (simp add: relinked_def)

text \<open>A new block.\<close>

definition new_block :: "int \<Rightarrow> nat \<Rightarrow> int \<times> int \<Rightarrow> int \<Rightarrow> int \<Rightarrow> 'd block" where
  "new_block bits k sz x y =
     \<lparr>eTypeBits = bits, bDirty = False, nLockCount = 0, nXOff = x, nYOff = y, nXSize = fst sz,
      nYSize = snd sz, pData = None, poBand = Some k, poNext = None, poPrevious = None\<rparr>"

theorem Touch_and_Detach_keep_order_witness:
  "let b = new_block 8 0 (2, 2) 0 0 :: nat block;
       s = \<lparr>heap_blocks = [4 \<mapsto> b\<lparr>poNext := Some 7\<rparr>, 7 \<mapsto> b\<lparr>poPrevious := Some 4\<rparr>],
            poNewest = Some 4, poOldest = Some 7\<rparr>
   in \<exists>s'. Touch 7 s = Some s' \<and> lru s' [7, 4]"
proof -
  let ?b = "new_block 8 0 (2, 2) 0 0 :: nat block"
  let ?s = "\<lparr>heap_blocks = [4 \<mapsto> ?b\<lparr>poNext := Some 7\<rparr>, 7 \<mapsto> ?b\<lparr>poPrevious := Some 4\<rparr>],
            poNewest = Some 4, poOldest = Some 7\<rparr>"
  have "lru ?s [4, 7]" by (auto simp: lru_def neighbours_def new_block_def)
  moreover have "block_at 7 ?s = Some (?b\<lparr>poPrevious := Some 4\<rparr>)" by (simp add: block_at_def)
  ultimately show ?thesis using Touch_and_Detach_keep_order [of ?s "[4, 7]" 7]
    by (simp add: Let_def) blast
qed

end
