(* ===== verification/Block_Cache.thy ===== *)
theory Block_Cache
  imports Block_Lru
begin

text \<open>
  The cache of raster blocks: \<^verbatim>\<open>gcore/gdalrasterblock.cpp\<close> (memory accounting, eviction)
  and the block access of \<^verbatim>\<open>gcore/gdalrasterband.cpp\<close>.

  The drivers, whose \<open>IReadBlock\<close> and \<open>IWriteBlock\<close> are virtual methods, and the allocator are
  a parameter, the record \<open>driver\<close>; \<open>'w\<close> is the state they keep.  A driver does not call back
  into the cache.  Error reports are not part of the state.  The mutex is not modelled: the
  operations run one at a time.
\<close>

datatype CPLErr = CE_None | CE_Debug | CE_Warning | CE_Failure | CE_Fatal

record ('d, 'w) driver =
  IReadBlock :: "nat \<Rightarrow> int \<Rightarrow> int \<Rightarrow> 'd \<Rightarrow> 'w \<Rightarrow> CPLErr \<times> 'd \<times> 'w"
  IWriteBlock :: "nat \<Rightarrow> int \<Rightarrow> int \<Rightarrow> 'd option \<Rightarrow> 'w \<Rightarrow> CPLErr \<times> 'w"
  VSIMalloc :: "'w \<Rightarrow> int \<Rightarrow> 'd option"

record ('d, 'w) gdal = "'d heap" +
  next_address :: addr
  nCacheUsed :: int
  nCacheMax :: int
  bCacheMaxInitialized :: bool
  GDAL_CACHEMAX :: "int option"
  bands :: "nat \<rightharpoonup> band"
  world :: 'w

section \<open>Blocks\<close>

text \<open>\<open>new GDALRasterBlock\<close>.  Addresses of freed blocks are not used again.\<close>

definition GDALRasterBlock :: "nat \<Rightarrow> int \<Rightarrow> int \<Rightarrow> ('d, 'w) gdal \<Rightarrow> (addr \<times> ('d, 'w) gdal) option" where
  "GDALRasterBlock k x y s = do {
     B \<leftarrow> bands s k;
     let a = next_address s;
     Some (a, s\<lparr>heap_blocks := (heap_blocks s)(a \<mapsto> new_block (nDataTypeBits B) k (GetBlockSize B) x y),
                next_address := a + 1\<rparr>)
   }"

text \<open>The destructor computes the size of the block in bits, in an \<^verbatim>\<open>int\<close>, then in bytes.\<close>

definition size_freed :: "'d block \<Rightarrow> int" where
  "size_freed b = c_div (to_i32 (to_i32 (to_i32 (nXSize b * nYSize b) * eTypeBits b) + 7)) 8"

definition delete_block :: "addr \<Rightarrow> ('d, 'w) gdal \<Rightarrow> ('d, 'w) gdal option" where
  "delete_block this s = do {
     s \<leftarrow> Detach this s;
     b \<leftarrow> block_at this s;
     let s = (if pData b \<noteq> None then s\<lparr>nCacheUsed := to_i32 (nCacheUsed s - size_freed b)\<rparr> else s);
     Some (s\<lparr>heap_blocks := (heap_blocks s)(this := None)\<rparr>)
   }"

definition Write :: "('d, 'w) driver \<Rightarrow> addr \<Rightarrow> ('d, 'w) gdal \<Rightarrow> (CPLErr \<times> ('d, 'w) gdal) option" where
  "Write drv this s = do {
     b \<leftarrow> block_at this s;
     if \<not> bDirty b then Some (CE_None, s)
     else case poBand b of
       None \<Rightarrow> Some (CE_Failure, s)
     | Some k \<Rightarrow> do {
         s \<leftarrow> MarkClean this s;
         let (e, w) = IWriteBlock drv k (nXOff b) (nYOff b) (pData b) (world s);
         Some (e, s\<lparr>world := w\<rparr>)
       }
   }"

section \<open>Flushing a block\<close>

definition store_slot :: "nat \<Rightarrow> int \<Rightarrow> int \<Rightarrow> addr option \<Rightarrow> ('d, 'w) gdal \<Rightarrow> ('d, 'w) gdal option" where
  "store_slot k x y p s = do {
     B \<leftarrow> bands s k;
     B \<leftarrow> set_slot B x y p;
     Some (s\<lparr>bands := (bands s)(k \<mapsto> B)\<rparr>)
   }"

text \<open>When the slot is NULL, or its grid is missing, the code has nothing to store or to write.\<close>

definition FlushBlock :: "('d, 'w) driver \<Rightarrow> nat \<Rightarrow> int \<Rightarrow> int \<Rightarrow> ('d, 'w) gdal \<Rightarrow> (CPLErr \<times> ('d, 'w) gdal) option" where
  "FlushBlock drv k x y s = do {
     B \<leftarrow> bands s k;
     if papoBlocks B = None then Some (CE_None, s)
     else if x < 0 \<or> x \<ge> nBlocksPerRow B then Some (CE_Failure, s)
     else if y < 0 \<or> y \<ge> nBlocksPerColumn B then Some (CE_Failure, s)
     else do {
       poBlock \<leftarrow> get_slot B x y;
       (_, s) \<leftarrow> SafeLockBlock poBlock s;
       case poBlock of
         None \<Rightarrow> Some (CE_None, s)
       | Some a \<Rightarrow> do {
           s \<leftarrow> store_slot k x y None s;
           s \<leftarrow> Detach a s;
           b \<leftarrow> block_at a s;
           (eErr, s) \<leftarrow> (if bDirty b then Write drv a s else Some (CE_None, s));
           s \<leftarrow> DropLock a s;
           s \<leftarrow> delete_block a s;
           Some (eErr, s)
         }
     }
   }"

text \<open>\<open>FlushCacheBlock\<close> does not look at the result of \<open>FlushBlock\<close>.\<close>

definition FlushCacheBlock :: "('d, 'w) driver \<Rightarrow> ('d, 'w) gdal \<Rightarrow> (bool \<times> ('d, 'w) gdal) option" where
  "FlushCacheBlock drv s = do {
     poTarget \<leftarrow> find_unlocked s (poOldest s);
     case poTarget of
       None \<Rightarrow> Some (False, s)
     | Some a \<Rightarrow> do {
         s \<leftarrow> Detach a s;
         b \<leftarrow> block_at a s;
         k \<leftarrow> poBand b;
         (_, s) \<leftarrow> FlushBlock drv k (nXOff b) (nYOff b) s;
         Some (True, s)
       }
   }"

text \<open>The loop shared by \<open>GDALSetCacheMax\<close> and \<open>Internalize\<close>.\<close>

partial_function (option) flush_loop :: "('d, 'w) driver \<Rightarrow> int \<Rightarrow> ('d, 'w) gdal \<Rightarrow> ('d, 'w) gdal option" where
  "flush_loop drv nMax s =
     (if nCacheUsed s > nMax
      then do {
        (_, s') \<leftarrow> FlushCacheBlock drv s;
        if nCacheUsed s' = nCacheUsed s then Some s' else flush_loop drv nMax s'
      }
      else Some s)"

definition GDALSetCacheMax :: "('d, 'w) driver \<Rightarrow> int \<Rightarrow> ('d, 'w) gdal \<Rightarrow> ('d, 'w) gdal option" where
  "GDALSetCacheMax drv nNewSize s = flush_loop drv nNewSize (s\<lparr>nCacheMax := nNewSize\<rparr>)"

text \<open>\<open>GDAL_CACHEMAX s\<close> is the number in the configuration option, if it is set.\<close>

definition GDALGetCacheMax :: "('d, 'w) gdal \<Rightarrow> int \<times> ('d, 'w) gdal" where
  "GDALGetCacheMax s =
     (let s' = (if bCacheMaxInitialized s then s
                else (case GDAL_CACHEMAX s of
                        None \<Rightarrow> s
                      | Some v \<Rightarrow> s\<lparr>nCacheMax := (if v < 10000 then to_i32 (v * (1024 * 1024)) else v)\<rparr>)
                     \<lparr>bCacheMaxInitialized := True\<rparr>)
      in (nCacheMax s', s'))"

definition GDALGetCacheUsed :: "('d, 'w) gdal \<Rightarrow> int" where
  "GDALGetCacheUsed s = nCacheUsed s"

definition size_in_bytes :: "'d block \<Rightarrow> int" where
  "size_in_bytes b = to_i32 (to_i32 (nXSize b * nYSize b) * c_div (eTypeBits b) 8)"

definition Internalize :: "('d, 'w) driver \<Rightarrow> addr \<Rightarrow> ('d, 'w) gdal \<Rightarrow> (CPLErr \<times> ('d, 'w) gdal) option" where
  "Internalize drv this s = (
     let (nCurCacheMax, s) = GDALGetCacheMax s in do {
     b \<leftarrow> block_at this s;
     case VSIMalloc drv (world s) (size_in_bytes b) of
       None \<Rightarrow> Some (CE_Failure, s)
     | Some pNewData \<Rightarrow> do {
         s \<leftarrow> set_block this (\<lambda>b. b\<lparr>pData := Some (case pData b of None \<Rightarrow> pNewData | Some d \<Rightarrow> d)\<rparr>) s;
         s \<leftarrow> AddLock this s;
         let s = s\<lparr>nCacheUsed := to_i32 (nCacheUsed s + size_in_bytes b)\<rparr>;
         s \<leftarrow> flush_loop drv nCurCacheMax s;
         s \<leftarrow> Touch this s;
         s \<leftarrow> DropLock this s;
         Some (CE_None, s)
       }
   })"

section \<open>Access to the blocks of a band\<close>

definition init_block_info :: "nat \<Rightarrow> ('d, 'w) gdal \<Rightarrow> (bool \<times> ('d, 'w) gdal) option" where
  "init_block_info k s = do {
     B \<leftarrow> bands s k;
     let (r, B) = InitBlockInfo B;
     Some (r, s\<lparr>bands := (bands s)(k \<mapsto> B)\<rparr>)
   }"

definition AdoptBlock :: "('d, 'w) driver \<Rightarrow> nat \<Rightarrow> int \<Rightarrow> int \<Rightarrow> addr \<Rightarrow> ('d, 'w) gdal \<Rightarrow> (CPLErr \<times> ('d, 'w) gdal) option" where
  "AdoptBlock drv k x y poBlock s = do {
     (r, s) \<leftarrow> init_block_info k s;
     if \<not> r then Some (CE_Failure, s)
     else do {
       B \<leftarrow> bands s k;
       p \<leftarrow> get_slot B x y;
       if p = Some poBlock then Some (CE_None, s)
       else do {
         (_, s) \<leftarrow> (if p \<noteq> None then FlushBlock drv k x y s else Some (CE_None, s));
         s \<leftarrow> store_slot k x y (Some poBlock) s;
         s \<leftarrow> Touch poBlock s;
         Some (CE_None, s)
       }
     }
   }"

definition TryGetLockedBlockRef :: "nat \<Rightarrow> int \<Rightarrow> int \<Rightarrow> ('d, 'w) gdal \<Rightarrow> (addr option \<times> ('d, 'w) gdal) option" where
  "TryGetLockedBlockRef k x y s = do {
     (r, s) \<leftarrow> init_block_info k s;
     if \<not> r then Some (None, s)
     else do {
       B \<leftarrow> bands s k;
       if x < 0 \<or> x \<ge> nBlocksPerRow B then Some (None, s)
       else if y < 0 \<or> y \<ge> nBlocksPerColumn B then Some (None, s)
       else do {
         p \<leftarrow> get_slot B x y;
         (_, s) \<leftarrow> SafeLockBlock p s;
         Some (p, s)
       }
     }
   }"

text \<open>The part of \<open>GetLockedBlockRef\<close> for a block that is not cached.\<close>

definition drop_and_delete :: "addr \<Rightarrow> ('d, 'w) gdal \<Rightarrow> (addr option \<times> ('d, 'w) gdal) option" where
  "drop_and_delete a s = do { s \<leftarrow> DropLock a s; s \<leftarrow> delete_block a s; Some (None, s) }"

definition count_read :: "nat \<Rightarrow> ('d, 'w) gdal \<Rightarrow> ('d, 'w) gdal option" where
  "count_read k s = do {
     B \<leftarrow> bands s k;
     Some (s\<lparr>bands := (bands s)(k \<mapsto> B\<lparr>nBlockReads := nBlockReads B + 1\<rparr>)\<rparr>)
   }"

definition read_block :: "('d, 'w) driver \<Rightarrow> nat \<Rightarrow> int \<Rightarrow> int \<Rightarrow> addr \<Rightarrow> ('d, 'w) gdal \<Rightarrow> (CPLErr \<times> ('d, 'w) gdal) option" where
  "read_block drv k x y a s = do {
     b \<leftarrow> block_at a s;
     d \<leftarrow> pData b;
     let (e, d, w) = IReadBlock drv k x y d (world s);
     s \<leftarrow> set_block a (\<lambda>b. b\<lparr>pData := Some d\<rparr>) (s\<lparr>world := w\<rparr>);
     Some (e, s)
   }"

definition load_block :: "('d, 'w) driver \<Rightarrow> nat \<Rightarrow> int \<Rightarrow> int \<Rightarrow> bool \<Rightarrow> ('d, 'w) gdal \<Rightarrow> (addr option \<times> ('d, 'w) gdal) option" where
  "load_block drv k x y bJustInitialize s = do {
     (a, s) \<leftarrow> GDALRasterBlock k x y s;
     s \<leftarrow> AddLock a s;
     (e, s) \<leftarrow> Internalize drv a s;
     if e \<noteq> CE_None then drop_and_delete a s
     else do {
       (e, s) \<leftarrow> AdoptBlock drv k x y a s;
       if e \<noteq> CE_None then drop_and_delete a s
       else if bJustInitialize then Some (Some a, s)
       else do {
         (e, s) \<leftarrow> read_block drv k x y a s;
         if e \<noteq> CE_None
         then do { s \<leftarrow> DropLock a s; (_, s) \<leftarrow> FlushBlock drv k x y s; Some (None, s) }
         else do { s \<leftarrow> count_read k s; Some (Some a, s) }
       }
     }
   }"

definition GetLockedBlockRef :: "('d, 'w) driver \<Rightarrow> nat \<Rightarrow> int \<Rightarrow> int \<Rightarrow> bool \<Rightarrow> ('d, 'w) gdal \<Rightarrow> (addr option \<times> ('d, 'w) gdal) option" where
  "GetLockedBlockRef drv k x y bJustInitialize s = do {
     (p, s) \<leftarrow> TryGetLockedBlockRef k x y s;
     case p of
       Some a \<Rightarrow> Some (Some a, s)
     | None \<Rightarrow> do {
         (r, s) \<leftarrow> init_block_info k s;
         if \<not> r then Some (None, s)
         else do {
           B \<leftarrow> bands s k;
           if x < 0 \<or> x \<ge> nBlocksPerRow B then Some (None, s)
           else if y < 0 \<or> y \<ge> nBlocksPerColumn B then Some (None, s)
           else load_block drv k x y bJustInitialize s
         }
       }
   }"

text \<open>The accesses that go past the cache.\<close>

definition ReadBlock :: "('d, 'w) driver \<Rightarrow> nat \<Rightarrow> int \<Rightarrow> int \<Rightarrow> 'd \<Rightarrow> ('d, 'w) gdal \<Rightarrow> (CPLErr \<times> 'd \<times> ('d, 'w) gdal) option" where
  "ReadBlock drv k x y pImage s = do {
     B \<leftarrow> bands s k;
     if x < 0 \<or> to_i32 (x * nBlockXSize B) \<ge> nRasterXSize B then Some (CE_Failure, pImage, s)
     else if y < 0 \<or> to_i32 (y * nBlockYSize B) \<ge> nRasterYSize B then Some (CE_Failure, pImage, s)
     else do {
       (r, s) \<leftarrow> init_block_info k s;
       if \<not> r then Some (CE_Failure, pImage, s)
       else let (e, d, w) = IReadBlock drv k x y pImage (world s) in Some (e, d, s\<lparr>world := w\<rparr>)
     }
   }"

definition WriteBlock :: "('d, 'w) driver \<Rightarrow> nat \<Rightarrow> int \<Rightarrow> int \<Rightarrow> 'd \<Rightarrow> ('d, 'w) gdal \<Rightarrow> (CPLErr \<times> ('d, 'w) gdal) option" where
  "WriteBlock drv k x y pImage s = do {
     B \<leftarrow> bands s k;
     if x < 0 \<or> to_i32 (x * nBlockXSize B) \<ge> nRasterXSize B then Some (CE_Failure, s)
     else if y < 0 \<or> to_i32 (y * nBlockYSize B) \<ge> nRasterYSize B then Some (CE_Failure, s)
     else if bReadOnly B then Some (CE_Failure, s)
     else do {
       (r, s) \<leftarrow> init_block_info k s;
       if \<not> r then Some (CE_Failure, s)
       else let (e, w) = IWriteBlock drv k x y (Some pImage) (world s) in Some (e, s\<lparr>world := w\<rparr>)
     }
   }"

section \<open>Flushing a band\<close>

text \<open>The offsets the loops of \<open>FlushCache\<close> run over, and one pass: blocks are flushed until an
  error.\<close>

definition row_major :: "int \<Rightarrow> int \<Rightarrow> (int \<times> int) list" where
  "row_major w h = concat (map (\<lambda>y. map (\<lambda>x. (x, y)) [0..w - 1]) [0..h - 1])"

fun flush_all :: "('d, 'w) driver \<Rightarrow> nat \<Rightarrow> (int \<times> int) list \<Rightarrow> ('d, 'w) gdal \<Rightarrow> (CPLErr \<times> ('d, 'w) gdal) option" where
  "flush_all drv k [] s = Some (CE_None, s)"
| "flush_all drv k ((x, y) # ps) s = do {
     B \<leftarrow> bands s k;
     p \<leftarrow> get_slot B x y;
     if p = None then flush_all drv k ps s
     else do {
       (e, s) \<leftarrow> FlushBlock drv k x y s;
       if e \<noteq> CE_None then Some (e, s) else flush_all drv k ps s
     }
   }"

definition grid_missing :: "band \<Rightarrow> int \<Rightarrow> int \<Rightarrow> bool option" where
  "grid_missing B x y =
     (case papoBlocks B of
        Some (Grids grids) \<Rightarrow> map_option (\<lambda>g. g = None) (at_index grids (x + y * nSubBlocksPerRow B))
      | _ \<Rightarrow> None)"

definition drop_grid :: "band \<Rightarrow> int \<Rightarrow> int \<Rightarrow> band option" where
  "drop_grid B x y =
     (case papoBlocks B of
        Some (Grids grids) \<Rightarrow>
          map_option (\<lambda>grids. B\<lparr>papoBlocks := Some (Grids grids)\<rparr>) (put_index grids (x + y * nSubBlocksPerRow B) None)
      | _ \<Rightarrow> None)"

text \<open>The slots of a grid, by the offsets of the blocks in them.\<close>

definition grid_offsets :: "int \<Rightarrow> int \<Rightarrow> (int \<times> int) list" where
  "grid_offsets sx sy =
     map (\<lambda>(x, y). (x + sx * SUBBLOCK_SIZE, y + sy * SUBBLOCK_SIZE)) (row_major SUBBLOCK_SIZE SUBBLOCK_SIZE)"

fun flush_grids :: "('d, 'w) driver \<Rightarrow> nat \<Rightarrow> (int \<times> int) list \<Rightarrow> ('d, 'w) gdal \<Rightarrow> (CPLErr \<times> ('d, 'w) gdal) option" where
  "flush_grids drv k [] s = Some (CE_None, s)"
| "flush_grids drv k ((sx, sy) # gs) s = do {
     B \<leftarrow> bands s k;
     m \<leftarrow> grid_missing B sx sy;
     if m then flush_grids drv k gs s
     else do {
       (e, s) \<leftarrow> flush_all drv k (grid_offsets sx sy) s;
       if e \<noteq> CE_None then Some (e, s)
       else do {
         B \<leftarrow> bands s k;
         B \<leftarrow> drop_grid B sx sy;
         flush_grids drv k gs (s\<lparr>bands := (bands s)(k \<mapsto> B)\<rparr>)
       }
     }
   }"

definition FlushCache :: "('d, 'w) driver \<Rightarrow> nat \<Rightarrow> ('d, 'w) gdal \<Rightarrow> (CPLErr \<times> ('d, 'w) gdal) option" where
  "FlushCache drv k s = do {
     B \<leftarrow> bands s k;
     if papoBlocks B = None then Some (CE_None, s)
     else if \<not> bSubBlockingActive B
     then flush_all drv k (row_major (nBlocksPerRow B) (nBlocksPerColumn B)) s
     else flush_grids drv k (row_major (nSubBlocksPerRow B) (nSubBlocksPerColumn B)) s
   }"

section \<open>Filling a band\<close>

text \<open>
  \<open>pSrc\<close> is the source block of \<open>Fill\<close>, filled with the value converted to the type of the band
  (the conversion is floating point), or \<open>None\<close> when there is no memory for it.
\<close>

definition fill_block :: "('d, 'w) driver \<Rightarrow> nat \<Rightarrow> int \<Rightarrow> int \<Rightarrow> 'd \<Rightarrow> ('d, 'w) gdal \<Rightarrow> (CPLErr \<times> ('d, 'w) gdal) option" where
  "fill_block drv k x y src s = do {
     (p, s) \<leftarrow> GetLockedBlockRef drv k x y True s;
     case p of
       None \<Rightarrow> Some (CE_Failure, s)
     | Some a \<Rightarrow> do {
         b \<leftarrow> block_at a s;
         if pData b = None then do { s \<leftarrow> DropLock a s; Some (CE_Failure, s) }
         else do {
           s \<leftarrow> set_block a (\<lambda>b. b\<lparr>pData := Some src\<rparr>) s;
           s \<leftarrow> MarkDirty a s;
           s \<leftarrow> DropLock a s;
           Some (CE_None, s)
         }
       }
   }"

fun fill_blocks :: "('d, 'w) driver \<Rightarrow> nat \<Rightarrow> (int \<times> int) list \<Rightarrow> 'd \<Rightarrow> ('d, 'w) gdal \<Rightarrow> (CPLErr \<times> ('d, 'w) gdal) option" where
  "fill_blocks drv k [] src s = Some (CE_None, s)"
| "fill_blocks drv k ((x, y) # ps) src s = do {
     (e, s) \<leftarrow> fill_block drv k x y src s;
     if e \<noteq> CE_None then Some (e, s) else fill_blocks drv k ps src s
   }"

definition Fill :: "('d, 'w) driver \<Rightarrow> nat \<Rightarrow> 'd option \<Rightarrow> ('d, 'w) gdal \<Rightarrow> (CPLErr \<times> ('d, 'w) gdal) option" where
  "Fill drv k pSrc s = do {
     B \<leftarrow> bands s k;
     if bReadOnly B then Some (CE_Failure, s)
     else do {
       (r, s) \<leftarrow> init_block_info k s;
       if \<not> r then Some (CE_Failure, s)
       else case pSrc of
         None \<Rightarrow> Some (CE_Failure, s)
       | Some src \<Rightarrow> do {
           B \<leftarrow> bands s k;
           fill_blocks drv k (row_major (nBlocksPerRow B) (nBlocksPerColumn B)) src s
         }
     }
   }"

end
