(* ===== verification/Block_Cache_Facts.thy ===== *)
theory Block_Cache_Facts
  imports Block_Cache
begin

text \<open>
  The block cache is a map from block positions to blocks, with the list of its blocks in order
  of use: every operation keeps the two in step, faults on no state the code can build, and
  evicts the block that was used least recently.
\<close>

section \<open>Lifting to the cache state\<close>

lemma gdal_more:
  assumes "heap.more s' = heap.more (s :: ('d, 'w) gdal)"
  shows "next_address s' = next_address s" "nCacheUsed s' = nCacheUsed s" "nCacheMax s' = nCacheMax s"
    "bCacheMaxInitialized s' = bCacheMaxInitialized s" "GDAL_CACHEMAX s' = GDAL_CACHEMAX s"
    "bands s' = bands s" "world s' = world s"
  using assms by (cases s; cases s'; simp)+

text \<open>The part of the state that no block operation changes.\<close>

definition settings :: "('d, 'w) gdal \<Rightarrow> addr \<times> int \<times> bool \<times> int option" where
  "settings s = (next_address s, nCacheMax s, bCacheMaxInitialized s, GDAL_CACHEMAX s)"

lemma settings_more: "heap.more s' = heap.more s \<Longrightarrow> settings s' = settings s"
  using gdal_more [of s' s] by (simp add: settings_def)

lemma other_fields [simp]:
  fixes s :: "('d, 'w) gdal"
  shows "neighbours (s\<lparr>bands := m\<rparr>) = neighbours s" "neighbours (s\<lparr>world := w\<rparr>) = neighbours s"
    "neighbours (s\<lparr>nCacheUsed := n\<rparr>) = neighbours s"
    "contents (s\<lparr>bands := m\<rparr>) = contents s" "contents (s\<lparr>world := w\<rparr>) = contents s"
    "contents (s\<lparr>nCacheUsed := n\<rparr>) = contents s"
    "settings (s\<lparr>bands := m\<rparr>) = settings s" "settings (s\<lparr>world := w\<rparr>) = settings s"
    "settings (s\<lparr>nCacheUsed := n\<rparr>) = settings s"
    "neighbours (s\<lparr>nCacheMax := n\<rparr>) = neighbours s" "contents (s\<lparr>nCacheMax := n\<rparr>) = contents s"
    "neighbours (s\<lparr>bCacheMaxInitialized := b\<rparr>) = neighbours s" "contents (s\<lparr>bCacheMaxInitialized := b\<rparr>) = contents s"
  by (simp_all add: neighbours_def contents_def settings_def fun_eq_iff)

lemma lru_other_fields [simp]:
  fixes s :: "('d, 'w) gdal"
  shows "lru (s\<lparr>bands := m\<rparr>) xs = lru s xs" "lru (s\<lparr>world := w\<rparr>) xs = lru s xs"
    "lru (s\<lparr>nCacheUsed := n\<rparr>) xs = lru s xs" "lru (s\<lparr>nCacheMax := n\<rparr>) xs = lru s xs"
    "lru (s\<lparr>bCacheMaxInitialized := b\<rparr>) xs = lru s xs"
  by (simp_all add: lru_def)

lemma unlinked_fields [simp]:
  "eTypeBits (unlinked b) = eTypeBits b" "bDirty (unlinked b) = bDirty b"
  "nLockCount (unlinked b) = nLockCount b" "nXOff (unlinked b) = nXOff b" "nYOff (unlinked b) = nYOff b"
  "nXSize (unlinked b) = nXSize b" "nYSize (unlinked b) = nYSize b" "pData (unlinked b) = pData b"
  "poBand (unlinked b) = poBand b"
  by (simp_all add: unlinked_def)

lemma size_freed_unlinked [simp]: "size_freed (unlinked b) = size_freed b"
  by (simp add: size_freed_def)

lemma contents_block:
  assumes "contents s a = Some c"
  obtains b where "block_at a s = Some b" "unlinked b = c"
  using assms by (auto simp: contents_def block_at_def)

lemma contents_live: "block_at a s = Some b \<Longrightarrow> contents s a = Some (unlinked b)"
  by (simp add: contents_def block_at_def)

lemma lru_cong:
  "neighbours s' = neighbours s \<Longrightarrow> poNewest s' = poNewest s \<Longrightarrow> poOldest s' = poOldest s \<Longrightarrow> lru s xs \<Longrightarrow> lru s' xs"
  by (simp add: lru_def)

text \<open>A change of a block that is not a change of its neighbours.\<close>

lemma set_block_contents:
  assumes "contents s a = Some c"
    and "\<And>b. unlinked (f b) = f (unlinked b) \<and> poNext (f b) = poNext b \<and> poPrevious (f b) = poPrevious b"
  shows "\<exists>s'. set_block a f s = Some s' \<and> contents s' = (contents s)(a \<mapsto> f c) \<and>
    (\<forall>xs. lru s xs \<longrightarrow> lru s' xs) \<and> heap.more s' = heap.more s"
proof -
  obtain b where b: "heap_blocks s a = Some b" "unlinked b = c"
    using assms(1) by (auto simp: contents_def)
  let ?s = "s\<lparr>heap_blocks := (heap_blocks s)(a \<mapsto> f b)\<rparr>"
  have "set_block a f s = Some ?s" using b by (simp add: set_block_def)
  moreover have "contents ?s = (contents s)(a \<mapsto> f c)"
    using b assms(2) by (auto simp: contents_def fun_eq_iff)
  moreover have "neighbours ?s = neighbours s"
    using b assms(2) by (auto simp: neighbours_def fun_eq_iff)
  ultimately show ?thesis
    by (intro exI [of _ ?s]) (auto intro: lru_cong [of ?s s])
qed

lemma Detach_contents:
  assumes "lru s xs" and "contents s a = Some c"
  shows "\<exists>s'. Detach a s = Some s' \<and> lru s' (removeAll a xs) \<and> contents s' = contents s \<and> heap.more s' = heap.more s"
  using Detach_lru [OF assms(1)] contents_block [OF assms(2)] by (metis relinked_def)

lemma Touch_contents:
  assumes "lru s xs" and "contents s a = Some c"
  shows "\<exists>s'. Touch a s = Some s' \<and> lru s' (a # removeAll a xs) \<and> contents s' = contents s \<and> heap.more s' = heap.more s"
  using Touch_lru [OF assms(1)] contents_block [OF assms(2)] by (metis relinked_def)

lemma SafeLockBlock_contents:
  assumes "lru s xs" and "contents s a = Some c"
  shows "\<exists>s'. SafeLockBlock (Some a) s = Some (True, s') \<and> lru s' (a # removeAll a xs) \<and>
    contents s' = (contents s)(a \<mapsto> c\<lparr>nLockCount := nLockCount c + 1\<rparr>) \<and> heap.more s' = heap.more s"
proof -
  obtain s1 where s1: "AddLock a s = Some s1" "contents s1 = (contents s)(a \<mapsto> c\<lparr>nLockCount := nLockCount c + 1\<rparr>)"
    "lru s1 xs" "heap.more s1 = heap.more s"
    using set_block_contents [OF assms(2), of "\<lambda>b. b\<lparr>nLockCount := nLockCount b + 1\<rparr>"] assms(1)
    by (auto simp: AddLock_def unlinked_def)
  have "contents s1 a = Some (c\<lparr>nLockCount := nLockCount c + 1\<rparr>)" by (simp add: s1(2))
  from Touch_contents [OF s1(3) this] s1 show ?thesis by (auto simp: SafeLockBlock_def)
qed

text \<open>Deleting a block.\<close>

lemma delete_block_contents:
  assumes "lru s xs" and "contents s a = Some c"
  shows "\<exists>s'. delete_block a s = Some s' \<and> lru s' (removeAll a xs) \<and> contents s' = (contents s)(a := None) \<and>
    nCacheUsed s' = (if pData c \<noteq> None then to_i32 (nCacheUsed s - size_freed c) else nCacheUsed s) \<and>
    bands s' = bands s \<and> world s' = world s \<and> settings s' = settings s"
proof -
  obtain s1 where s1: "Detach a s = Some s1" "lru s1 (removeAll a xs)" "contents s1 = contents s" "heap.more s1 = heap.more s"
    using Detach_contents [OF assms] by blast
  then obtain b where b: "block_at a s1 = Some b" "unlinked b = c" using assms(2) contents_block [of s1 a] by metis
  define s2 where "s2 = (if pData b \<noteq> None then s1\<lparr>nCacheUsed := to_i32 (nCacheUsed s1 - size_freed b)\<rparr> else s1)"
  define s3 where "s3 = s2\<lparr>heap_blocks := (heap_blocks s2)(a := None)\<rparr>"
  have d: "delete_block a s = Some s3" by (simp add: delete_block_def s1(1) b(1) Let_def s2_def s3_def)
  have "a \<notin> set (removeAll a xs)" by simp
  have n3: "neighbours s3 = (neighbours s1)(a := None)" and c3: "contents s3 = (contents s1)(a := None)"
    and e3: "poNewest s3 = poNewest s1" "poOldest s3 = poOldest s1"
    by (auto simp: s3_def s2_def neighbours_def contents_def fun_eq_iff)
  have "lru s3 (removeAll a xs)"
    using s1(2) n3 e3 links_frame [of "neighbours s1" None "removeAll a xs" None a None] by (auto simp: lru_def)
  moreover have "nCacheUsed s3 = (if pData c \<noteq> None then to_i32 (nCacheUsed s - size_freed c) else nCacheUsed s)"
    using b(2) gdal_more(2) [OF s1(4)] by (auto simp: s3_def s2_def)
  moreover have "bands s3 = bands s" "world s3 = world s" "settings s3 = settings s"
    using gdal_more [OF s1(4)] by (simp_all add: s3_def s2_def settings_def)
  ultimately show ?thesis using d c3 s1(3) by (intro exI [of _ s3]) simp
qed

section \<open>The cache as a map\<close>

text \<open>The block that is cached for a position.\<close>

definition cached :: "('d, 'w) gdal \<Rightarrow> nat \<Rightarrow> int \<Rightarrow> int \<Rightarrow> addr option" where
  "cached s k x y =
     (case bands s k of
        None \<Rightarrow> None
      | Some B \<Rightarrow> if in_band B x y then (case get_slot B x y of None \<Rightarrow> None | Some p \<Rightarrow> p) else None)"

definition bands_ok :: "('d, 'w) gdal \<Rightarrow> bool" where
  "bands_ok s = (\<forall>k B. bands s k = Some B \<longrightarrow> papoBlocks B = None \<or> table_ok B)"

text \<open>A map from positions changed at one of them.\<close>

definition at_position :: "(nat \<Rightarrow> int \<Rightarrow> int \<Rightarrow> 'v) \<Rightarrow> nat \<Rightarrow> int \<Rightarrow> int \<Rightarrow> 'v \<Rightarrow> nat \<Rightarrow> int \<Rightarrow> int \<Rightarrow> 'v" where
  "at_position f k x y v = (\<lambda>k' x' y'. if k' = k \<and> x' = x \<and> y' = y then v else f k' x' y')"

lemma at_position_apply [simp]:
  "at_position f k x y v k' x' y' = (if k' = k \<and> x' = x \<and> y' = y then v else f k' x' y')"
  by (simp add: at_position_def)

text \<open>The layout of a band: all of it but the blocks in its table and the count of its reads.\<close>

definition layout_of :: "('d, 'w) gdal \<Rightarrow> nat \<rightharpoonup> band \<times> bool" where
  "layout_of s k = map_option (\<lambda>B. (B\<lparr>papoBlocks := None, nBlockReads := 0\<rparr>, papoBlocks B = None)) (bands s k)"

text \<open>What \<open>FlushBlock\<close> does to the driver: a dirty block is written.\<close>

definition written :: "('d, 'w) driver \<Rightarrow> nat \<Rightarrow> 'd block \<Rightarrow> 'w \<Rightarrow> CPLErr \<times> 'w" where
  "written drv k c w =
     (if bDirty c then IWriteBlock drv k (nXOff c) (nYOff c) (pData c) w else (CE_None, w))"

lemma initialised:
  "get_slot B x y = Some v \<Longrightarrow> papoBlocks B \<noteq> None" "table_ok B \<Longrightarrow> papoBlocks B \<noteq> None"
  by (cases "papoBlocks B"; simp add: get_slot_def table_ok_def)+

lemma bands_okD: "bands_ok s \<Longrightarrow> bands s k = Some B \<Longrightarrow> papoBlocks B = None \<or> table_ok B"
  unfolding bands_ok_def by blast

lemma cachedE:
  assumes "cached s k x y = Some a" and "bands_ok s"
  obtains B where "bands s k = Some B" "in_band B x y" "get_slot B x y = Some (Some a)" "table_ok B"
    "papoBlocks B \<noteq> None"
proof -
  obtain B where B: "bands s k = Some B" "in_band B x y" "get_slot B x y = Some (Some a)"
    using assms(1) by (auto simp: cached_def split: option.splits if_splits)
  note initialised(1) [OF this(3)]
  moreover have "table_ok B" using bands_okD [OF assms(2) B(1)] calculation by simp
  ultimately show thesis using B by (intro that)
qed

lemma in_band_layout [simp]: "in_band (B\<lparr>papoBlocks := p\<rparr>) x y = in_band B x y"
  by (simp add: in_band_def)

lemma store_slot_cached:
  assumes "bands s k = Some B" and "table_ok B" and "in_band B x y" and "bands_ok s"
  shows "\<exists>m. store_slot k x y v s = Some (s\<lparr>bands := m\<rparr>) \<and> bands_ok (s\<lparr>bands := m\<rparr>) \<and>
    layout_of (s\<lparr>bands := m\<rparr>) = layout_of s \<and>
    cached (s\<lparr>bands := m\<rparr>) = at_position (cached s) k x y v"
proof -
  obtain B' where B': "set_slot B x y v = Some B'" "table_ok B'" "papoBlocks B' \<noteq> None"
    "B' = B\<lparr>papoBlocks := papoBlocks B'\<rparr>"
    "\<And>x' y'. in_band B x' y' \<Longrightarrow> get_slot B' x' y' = (if x' = x \<and> y' = y then Some v else get_slot B x' y')"
    using set_slot_returns [OF assms(2,3), of v] by blast
  let ?s = "s\<lparr>bands := (bands s)(k \<mapsto> B')\<rparr>"
  have "store_slot k x y v s = Some ?s" by (simp add: store_slot_def assms(1) B'(1))
  moreover have "bands_ok ?s" using assms(4) B'(2) by (simp add: bands_ok_def)
  moreover have "papoBlocks B \<noteq> None" using assms(2) by (rule initialised)
  then have "layout_of ?s = layout_of s"
    using assms(1) B'(3) by (subst B'(4)) (auto simp: layout_of_def fun_eq_iff)
  moreover have inb: "in_band B' x' y' = in_band B x' y'" for x' y' by (subst B'(4)) simp
  have "cached ?s k' x' y' = (if k' = k \<and> x' = x \<and> y' = y then v else cached s k' x' y')" for k' x' y'
    using assms(1,3) B'(5) [of x' y'] by (auto simp: cached_def inb)
  ultimately show ?thesis by (intro exI [of _ "(bands s)(k \<mapsto> B')"]) (auto simp: fun_eq_iff)
qed

lemma Write_contents:
  assumes "contents s a = Some c" and "poBand c = Some k"
  shows "\<exists>s'. (do {
       b \<leftarrow> block_at a s;
       if bDirty b then Write drv a s else Some (CE_None, s)
     }) = Some (fst (written drv k c (world s)), s') \<and>
    contents s' = (contents s)(a \<mapsto> c\<lparr>bDirty := False\<rparr>) \<and> (\<forall>xs. lru s xs \<longrightarrow> lru s' xs) \<and>
    world s' = snd (written drv k c (world s)) \<and> bands s' = bands s \<and> nCacheUsed s' = nCacheUsed s \<and>
    settings s' = settings s"
proof -
  obtain b where b: "block_at a s = Some b" "unlinked b = c" using contents_block [OF assms(1)] .
  have bc: "bDirty b = bDirty c" "poBand b = Some k" "nXOff b = nXOff c" "nYOff b = nYOff c" "pData b = pData c"
    using b(2) assms(2) by auto
  show ?thesis
  proof (cases "bDirty c")
    case False
    then have "c\<lparr>bDirty := False\<rparr> = c" by (cases c) simp
    then show ?thesis using False b bc assms(1) by (auto simp: written_def)
  next
    case True
    obtain s1 where s1: "MarkClean a s = Some s1" "contents s1 = (contents s)(a \<mapsto> c\<lparr>bDirty := False\<rparr>)"
      "\<And>xs. lru s xs \<Longrightarrow> lru s1 xs" "heap.more s1 = heap.more s"
      using set_block_contents [OF assms(1), of "\<lambda>b. b\<lparr>bDirty := False\<rparr>"]
      by (auto simp: MarkClean_def unlinked_def)
    note m = gdal_more [OF s1(4)]
    obtain e w where ew: "IWriteBlock drv k (nXOff c) (nYOff c) (pData c) (world s) = (e, w)" by fastforce
    let ?s = "s1\<lparr>world := w\<rparr>"
    have "Write drv a s = Some (e, ?s)"
      using True b bc s1(1) ew m by (simp add: Write_def Let_def)
    moreover have "settings s1 = settings s" using s1(4) by (rule settings_more)
    ultimately show ?thesis
      using True b bc s1 ew m by (intro exI [of _ ?s]) (simp add: written_def)
  qed
qed

lemma cached_bands: "bands s' = bands s \<Longrightarrow> cached s' = cached s \<and> bands_ok s' = bands_ok s \<and> layout_of s' = layout_of s"
  by (simp add: cached_def bands_ok_def layout_of_def fun_eq_iff)

section \<open>Flushing\<close>

text \<open>What flushing the block \<open>c\<close> at address \<open>a\<close>, cached for a position, does to the state.\<close>

definition flushed :: "('d, 'w) driver \<Rightarrow> nat \<Rightarrow> int \<Rightarrow> int \<Rightarrow> addr \<Rightarrow> 'd block \<Rightarrow> ('d, 'w) gdal \<Rightarrow> ('d, 'w) gdal \<Rightarrow> bool" where
  "flushed drv k x y a c s s' =
     (contents s' = (contents s)(a := None) \<and>
      cached s' = at_position (cached s) k x y None \<and>
      bands_ok s' \<and> layout_of s' = layout_of s \<and> settings s' = settings s \<and>
      nCacheUsed s' = (if pData c \<noteq> None then to_i32 (nCacheUsed s - size_freed c) else nCacheUsed s) \<and>
      world s' = snd (written drv k c (world s)))"

lemma FlushBlock_cached:
  assumes "lru s xs" and "bands_ok s" and "cached s k x y = Some a" and "contents s a = Some c"
    and "poBand c = Some k"
  shows "\<exists>s'. FlushBlock drv k x y s = Some (fst (written drv k c (world s)), s') \<and>
    lru s' (removeAll a xs) \<and> flushed drv k x y a c s s'"
proof -
  obtain B where B: "bands s k = Some B" "in_band B x y" "get_slot B x y = Some (Some a)" "table_ok B"
    "papoBlocks B \<noteq> None"
    using cachedE [OF assms(3,2)] .
  obtain s1 where s1: "SafeLockBlock (Some a) s = Some (True, s1)" "lru s1 (a # removeAll a xs)"
    "contents s1 = (contents s)(a \<mapsto> c\<lparr>nLockCount := nLockCount c + 1\<rparr>)" "heap.more s1 = heap.more s"
    using SafeLockBlock_contents [OF assms(1,4)] by blast
  note m1 = gdal_more [OF s1(4)] settings_more [OF s1(4)]
  have t1: "bands s1 k = Some B" "bands_ok s1" using B(1) assms(2) m1(6) by (simp_all add: bands_ok_def)
  obtain m where m: "store_slot k x y None s1 = Some (s1\<lparr>bands := m\<rparr>)" "bands_ok (s1\<lparr>bands := m\<rparr>)"
    "layout_of (s1\<lparr>bands := m\<rparr>) = layout_of s1"
    "cached (s1\<lparr>bands := m\<rparr>) = at_position (cached s1) k x y None"
    using store_slot_cached [OF t1(1) B(4,2) t1(2), of None] by blast
  let ?s2 = "s1\<lparr>bands := m\<rparr>" and ?c = "c\<lparr>nLockCount := nLockCount c + 1\<rparr>"
  have "contents ?s2 a = Some ?c" "lru ?s2 (a # removeAll a xs)" using s1(2,3) by simp_all
  then obtain s3 where s3: "Detach a ?s2 = Some s3" "lru s3 (removeAll a xs)" "contents s3 = contents s1"
    "heap.more s3 = heap.more ?s2"
    using Detach_contents [of ?s2 "a # removeAll a xs" a ?c] by (auto simp: removeAll_filter_not_eq)
  note m3 = gdal_more [OF s3(4)] settings_more [OF s3(4)]
  have w: "written drv k ?c = written drv k c" by (simp add: written_def fun_eq_iff)
  obtain s4 where s4: "(do {
       b \<leftarrow> block_at a s3;
       if bDirty b then Write drv a s3 else Some (CE_None, s3)
     }) = Some (fst (written drv k c (world s3)), s4)"
    "contents s4 = (contents s3)(a \<mapsto> ?c\<lparr>bDirty := False\<rparr>)" "lru s4 (removeAll a xs)"
    "world s4 = snd (written drv k c (world s3))" "bands s4 = bands s3" "nCacheUsed s4 = nCacheUsed s3"
    "settings s4 = settings s3"
    using Write_contents [of s3 a ?c k drv] s3(2,3) s1(3) assms(5) w by auto
  have "contents s4 a = Some (?c\<lparr>bDirty := False\<rparr>)" by (simp add: s4(2))
  then obtain s5 where s5: "DropLock a s4 = Some s5" "contents s5 = (contents s4)(a \<mapsto> c\<lparr>bDirty := False\<rparr>)"
    "lru s5 (removeAll a xs)" "heap.more s5 = heap.more s4"
    using set_block_contents [of s4 a "?c\<lparr>bDirty := False\<rparr>" "\<lambda>b. b\<lparr>nLockCount := nLockCount b - 1\<rparr>"] s4(3)
    by (auto simp: DropLock_def unlinked_def)
  note m5 = gdal_more [OF s5(4)] settings_more [OF s5(4)]
  have "contents s5 a = Some (c\<lparr>bDirty := False\<rparr>)" by (simp add: s5(2))
  then obtain s6 where s6: "delete_block a s5 = Some s6" "lru s6 (removeAll a xs)" "contents s6 = (contents s5)(a := None)"
    "nCacheUsed s6 = (if pData c \<noteq> None then to_i32 (nCacheUsed s5 - size_freed (c\<lparr>bDirty := False\<rparr>)) else nCacheUsed s5)"
    "bands s6 = bands s5" "world s6 = world s5" "settings s6 = settings s5"
    using delete_block_contents [OF s5(3), of a "c\<lparr>bDirty := False\<rparr>"] by auto
  have size: "size_freed (c\<lparr>bDirty := False\<rparr>) = size_freed c" by (simp add: size_freed_def)
  obtain b where b: "block_at a s3 = Some b" using s3(3) s1(3) contents_block [of s3 a] by (metis fun_upd_same)
  have "FlushBlock drv k x y s = Some (fst (written drv k c (world s)), s6)"
    using B s1(1) m(1) s3(1) b s4(1) s5(1) s6(1) m1(7) m3(7)
    by (auto simp: FlushBlock_def in_band_def not_less bind_eq_Some_conv)
  moreover have bands6: "bands s6 = bands ?s2" using s6(5) m5(6) s4(5) m3(6) by simp
  have "contents s6 = (contents s)(a := None)" using s6(3) s5(2) s4(2) s3(3) s1(3) by (simp add: fun_eq_iff)
  moreover have "cached s1 = cached s" "layout_of s1 = layout_of s" using cached_bands [of s1 s] m1(6) by simp_all
  then have "cached s6 = at_position (cached s) k x y None"
    "bands_ok s6" "layout_of s6 = layout_of s"
    using cached_bands [OF bands6] m by (simp_all only: simp_thms)
  ultimately show ?thesis
    using s6 size m5 s4 m3 m1 by (intro exI [of _ s6]) (simp add: flushed_def)
qed

end
