(* ===== verification/Block_Evict.thy ===== *)
theory Block_Evict
  imports Block_Cache_Facts
begin

text \<open>
  Eviction: the invariant of the cache, the choice of the block \<open>FlushCacheBlock\<close> evicts, the
  loop that brings the memory used under its limit, and the account of that memory.
\<close>

section \<open>The invariant\<close>

text \<open>The blocks \<open>T\<close> are those in the tables of the bands, and each knows where it is.\<close>

definition tables_ok :: "('d, 'w) gdal \<Rightarrow> addr set \<Rightarrow> bool" where
  "tables_ok s T =
     (bands_ok s \<and>
      (\<forall>k x y a. cached s k x y = Some a \<longrightarrow> a \<in> T \<and>
         (\<exists>c. contents s a = Some c \<and> poBand c = Some k \<and> nXOff c = x \<and> nYOff c = y \<and> pData c \<noteq> None)) \<and>
      (\<forall>a \<in> T. \<exists>k x y. cached s k x y = Some a) \<and>
      (\<forall>a. contents s a \<noteq> None \<longrightarrow> a < next_address s))"

text \<open>The list holds the same blocks.\<close>

definition cache_ok :: "('d, 'w) gdal \<Rightarrow> addr list \<Rightarrow> bool" where
  "cache_ok s xs = (lru s xs \<and> tables_ok s (set xs))"

lemma tables_okD:
  assumes "tables_ok s T" and "cached s k x y = Some a"
  shows "a \<in> T" and "bands_ok s" and
    "\<exists>c. contents s a = Some c \<and> poBand c = Some k \<and> nXOff c = x \<and> nYOff c = y \<and> pData c \<noteq> None"
  using assms unfolding tables_ok_def by blast+

lemma tables_ok_owner:
  assumes "tables_ok s T" and "a \<in> T"
  obtains k x y c where "cached s k x y = Some a" "contents s a = Some c" "poBand c = Some k"
    "nXOff c = x" "nYOff c = y" "pData c \<noteq> None"
proof -
  obtain k x y where "cached s k x y = Some a" using assms unfolding tables_ok_def by blast
  with tables_okD(3) [OF assms(1) this] that show thesis by blast
qed

lemma fresh_address:
  assumes "cache_ok s xs"
  shows "next_address s \<notin> set xs"
proof
  assume "next_address s \<in> set xs"
  then obtain c where "contents s (next_address s) = Some c"
    using assms tables_ok_owner [of s "set xs"] by (metis cache_ok_def)
  then show False using assms unfolding cache_ok_def tables_ok_def by (metis less_irrefl not_None_eq)
qed

lemma tables_ok_cong:
  assumes "tables_ok s T" and "contents s' = contents s" and "bands s' = bands s" and "next_address s' = next_address s"
  shows "tables_ok s' T"
  using assms(1) cached_bands [OF assms(3)] assms(2,4) by (simp add: tables_ok_def)

text \<open>A change of a block outside the tables.\<close>

lemma tables_ok_other:
  assumes "tables_ok s T" and "contents s' = (contents s)(a \<mapsto> c)" and "a \<notin> T" and "contents s a \<noteq> None"
    and "bands s' = bands s" and "next_address s' = next_address s"
  shows "tables_ok s' T"
proof -
  have eq: "cached s' = cached s" "bands_ok s' = bands_ok s" using cached_bands [OF assms(5)] by simp_all
  have same: "contents s' a' = contents s a'" if "a' \<in> T" for a' using assms(2,3) that by auto
  have "\<exists>c. contents s' a' = Some c \<and> poBand c = Some k \<and> nXOff c = x \<and> nYOff c = y \<and> pData c \<noteq> None"
    if "cached s k x y = Some a'" for k x y a'
    using tables_okD [OF assms(1) that] same by simp
  moreover have "a' < next_address s'" if "contents s' a' \<noteq> None" for a'
  proof -
    have "contents s a' \<noteq> None" using that assms(2,4) by (cases "a' = a") auto
    then show ?thesis using assms(1,6) unfolding tables_ok_def by simp
  qed
  ultimately show ?thesis using assms(1) tables_okD(1) [OF assms(1)] unfolding tables_ok_def eq by blast
qed

lemma tables_ok_flushed:
  assumes "tables_ok s T" and "cached s k x y = Some a" and "flushed drv k x y a c s s'"
  shows "tables_ok s' (T - {a})"
proof -
  have c': "cached s' = at_position (cached s) k x y None"
    and h': "contents s' = (contents s)(a := None)" and "bands_ok s'" and n': "next_address s' = next_address s"
    using assms(3) by (simp_all add: flushed_def settings_def)
  have other: "a' \<noteq> a" if "cached s k' x' y' = Some a'" "\<not> (k' = k \<and> x' = x \<and> y' = y)" for k' x' y' a'
    using tables_okD(3) [OF assms(1) that(1)] tables_okD(3) [OF assms(1,2)] that(2) by auto
  have "a' \<in> T - {a} \<and> (\<exists>c. contents s' a' = Some c \<and> poBand c = Some k' \<and> nXOff c = x' \<and> nYOff c = y' \<and> pData c \<noteq> None)"
    if "cached s' k' x' y' = Some a'" for k' x' y' a'
  proof -
    have old: "cached s k' x' y' = Some a'" "\<not> (k' = k \<and> x' = x \<and> y' = y)"
      using that by (auto simp: c' split: if_splits)
    then show ?thesis using other [OF old] tables_okD [OF assms(1) old(1)] by (simp add: h')
  qed
  moreover have "\<exists>k x y. cached s' k x y = Some a'" if mem: "a' \<in> T - {a}" for a'
  proof -
    obtain k' x' y' where "cached s k' x' y' = Some a'" using assms(1) mem unfolding tables_ok_def by blast
    then show ?thesis using mem assms(2) by (intro exI [of _ k'] exI [of _ x'] exI [of _ y']) (auto simp: c')
  qed
  moreover have "\<forall>a. contents s' a \<noteq> None \<longrightarrow> a < next_address s'"
    using assms(1) unfolding tables_ok_def by (auto simp: h' n')
  ultimately show ?thesis using \<open>bands_ok s'\<close> unfolding tables_ok_def by blast
qed

lemma flushed_relinked:
  assumes "flushed drv k x y a c s1 s'" and "contents s1 = contents s" and "heap.more s1 = heap.more s"
  shows "flushed drv k x y a c s s'"
  using assms(1,2) gdal_more [OF assms(3)] settings_more [OF assms(3)] cached_bands [of s1 s]
  by (simp add: flushed_def)

section \<open>The block that is evicted\<close>

text \<open>The least recently used block that nobody has locked.\<close>

definition victim :: "('d, 'w) gdal \<Rightarrow> addr list \<Rightarrow> addr option" where
  "victim s xs = find (unlocked s) (rev xs)"

text \<open>The block \<open>a\<close>, and no other, is flushed out of the cache.\<close>

definition evicted :: "('d, 'w) driver \<Rightarrow> addr \<Rightarrow> ('d, 'w) gdal \<Rightarrow> ('d, 'w) gdal \<Rightarrow> bool" where
  "evicted drv a s s' =
     (\<exists>k x y c. cached s k x y = Some a \<and> contents s a = Some c \<and> poBand c = Some k \<and>
        nXOff c = x \<and> nYOff c = y \<and> pData c \<noteq> None \<and> flushed drv k x y a c s s')"

lemma FlushCacheBlock_evicts:
  assumes "cache_ok s xs"
  shows "case victim s xs of
      None \<Rightarrow> FlushCacheBlock drv s = Some (False, s)
    | Some a \<Rightarrow> \<exists>s'. FlushCacheBlock drv s = Some (True, s') \<and> cache_ok s' (removeAll a xs) \<and> evicted drv a s s'"
proof (cases "victim s xs")
  case None
  then show ?thesis
    using find_unlocked_lru [of s xs] assms by (simp add: victim_def FlushCacheBlock_def cache_ok_def)
next
  case (Some a)
  have l: "lru s xs" and t: "tables_ok s (set xs)" using assms by (simp_all add: cache_ok_def)
  have "a \<in> set xs" using Some find_SomeD [of "unlocked s" "rev xs" a] by (simp add: victim_def)
  then obtain k x y c where c: "cached s k x y = Some a" "contents s a = Some c" "poBand c = Some k"
    "nXOff c = x" "nYOff c = y" "pData c \<noteq> None"
    using tables_ok_owner [OF t] by metis
  obtain s1 where s1: "Detach a s = Some s1" "lru s1 (removeAll a xs)" "contents s1 = contents s"
    "heap.more s1 = heap.more s"
    using Detach_contents [OF l c(2)] by blast
  note b1 = gdal_more(6) [OF s1(4)]
  obtain b where b: "block_at a s1 = Some b" "unlinked b = c" using s1(3) c(2) contents_block [of s1 a] by metis
  have pos: "poBand b = Some k" "nXOff b = x" "nYOff b = y" using b(2) c(3-5) by auto
  have "bands_ok s1" "cached s1 k x y = Some a" "contents s1 a = Some c"
    using cached_bands [OF b1] tables_okD(2) [OF t c(1)] c s1(3) by simp_all
  then obtain s2 where s2: "FlushBlock drv k x y s1 = Some (fst (written drv k c (world s1)), s2)"
    "lru s2 (removeAll a (removeAll a xs))" "flushed drv k x y a c s1 s2"
    using FlushBlock_cached [OF s1(2)] c(3) by metis
  have f: "flushed drv k x y a c s s2" using flushed_relinked [OF s2(3) s1(3,4)] .
  have "FlushCacheBlock drv s = Some (True, s2)"
    using find_unlocked_lru [OF l] Some s1(1) b(1) pos s2(1) by (simp add: FlushCacheBlock_def victim_def)
  moreover have "cache_ok s2 (removeAll a xs)"
    using s2(2) tables_ok_flushed [OF t c(1) f] by (simp add: cache_ok_def)
  ultimately show ?thesis using Some c f unfolding evicted_def by fastforce
qed

section \<open>The loop of evictions\<close>

text \<open>A sequence of evictions, each of the least recently used unlocked block of its state.\<close>

inductive evictions :: "('d, 'w) driver \<Rightarrow> ('d, 'w) gdal \<Rightarrow> addr list \<Rightarrow> ('d, 'w) gdal \<Rightarrow> addr list \<Rightarrow> bool"
  for drv where
  stop: "evictions drv s xs s xs"
| evict: "victim s xs = Some a \<Longrightarrow> evicted drv a s s1 \<Longrightarrow> cache_ok s1 (removeAll a xs) \<Longrightarrow>
    evictions drv s1 (removeAll a xs) s' ys \<Longrightarrow> evictions drv s xs s' ys"

lemma evicted_frame:
  assumes "evicted drv a s s'"
  shows "contents s' = (contents s)(a := None)" and "settings s' = settings s" and "layout_of s' = layout_of s"
  using assms by (auto simp: evicted_def flushed_def)

lemma unlocked_contents: "unlocked s a = (case contents s a of None \<Rightarrow> False | Some c \<Rightarrow> nLockCount c \<le> 0)"
  by (simp add: unlocked_def contents_def block_at_def split: option.split)

text \<open>Only unlocked blocks are evicted, and the others are left alone.\<close>

lemma evictions_frame:
  assumes "evictions drv s xs s' ys"
  shows "settings s' = settings s \<and> layout_of s' = layout_of s \<and> set ys \<subseteq> set xs \<and>
    (\<forall>a. contents s' a = contents s a \<or> (contents s' a = None \<and> a \<in> set xs \<and> unlocked s a)) \<and>
    (\<forall>a \<in> set xs. a \<notin> set ys \<longrightarrow> unlocked s a)"
  using assms
proof (induction rule: evictions.induct)
  case (stop s xs)
  then show ?case by simp
next
  case (evict s xs a s1 s' ys)
  have a: "a \<in> set xs" "unlocked s a"
    using evict.hyps(1) find_SomeD [of "unlocked s" "rev xs" a] by (simp_all add: victim_def)
  have u: "unlocked s1 b \<longleftrightarrow> b \<noteq> a \<and> unlocked s b" for b
    using evicted_frame(1) [OF evict.hyps(2)] by (simp add: unlocked_contents)
  show ?case
  proof (intro conjI allI ballI impI)
    fix b
    show "contents s' b = contents s b \<or> (contents s' b = None \<and> b \<in> set xs \<and> unlocked s b)"
    proof (cases "b = a")
      case True
      with a evict.IH evicted_frame(1) [OF evict.hyps(2)] show ?thesis by (metis fun_upd_same)
    next
      case False
      have "contents s' b = contents s1 b \<or> (contents s' b = None \<and> b \<in> set (removeAll a xs) \<and> unlocked s1 b)"
        using evict.IH by blast
      with False evicted_frame(1) [OF evict.hyps(2)] u [of b] show ?thesis by simp
    qed
  next
    fix b
    assume "b \<in> set xs" and "b \<notin> set ys"
    then show "unlocked s b" using evict.IH a u by (cases "b = a") auto
  qed (use evict.IH evicted_frame [OF evict.hyps(2)] in auto)
qed

lemma c_div_abs: "\<bar>c_div a b\<bar> \<le> \<bar>a\<bar>"
proof -
  have "\<bar>a\<bar> div \<bar>b\<bar> \<le> \<bar>a\<bar>" using zdiv_mono2 [of "\<bar>a\<bar>" 1 "\<bar>b\<bar>"] by (cases "b = 0") simp_all
  then show ?thesis by (auto simp: c_div_def abs_mult abs_sgn_eq pos_imp_zdiv_nonneg_iff)
qed

lemma size_freed_range: "\<bar>size_freed b\<bar> < 2 ^ 32"
proof -
  have bound: "\<bar>to_i32 v\<bar> \<le> 2 ^ 31" for v using to_i32_range [of v] by linarith
  have "\<bar>size_freed b\<bar> \<le> 2 ^ 31"
    unfolding size_freed_def by (rule order_trans [OF c_div_abs bound])
  then show ?thesis by simp
qed

lemma to_i32_no_change:
  assumes "to_i32 (u - z) = u" and "\<bar>z\<bar> < 2 ^ 32"
  shows "z = 0"
proof -
  have "(u - z + 2 ^ 31) mod 2 ^ 32 = u + 2 ^ 31" using assms(1) by (simp add: to_i32_def)
  then have "(2 ^ 32 :: int) dvd (u - z + 2 ^ 31) - (u + 2 ^ 31)" by (metis mod_eq_dvd_iff mod_mod_trivial)
  then have "(2 ^ 32 :: int) dvd z" by simp
  then show ?thesis using assms(2) zdvd_not_zless [of "\<bar>z\<bar>" "2 ^ 32"] by (cases "z = 0") auto
qed

text \<open>The loop ends on every state, whatever the driver does.\<close>

lemma flush_loop_returns:
  assumes "cache_ok s xs"
  shows "\<exists>s' ys. flush_loop drv n s = Some s' \<and> cache_ok s' ys \<and> evictions drv s xs s' ys \<and>
    ((\<forall>a \<in> set xs. \<forall>c. contents s a = Some c \<longrightarrow> size_freed c \<noteq> 0) \<longrightarrow> nCacheUsed s' \<le> n \<or> victim s' ys = None)"
  using assms
proof (induction "length xs" arbitrary: s xs rule: less_induct)
  case less
  show ?case
  proof (cases "nCacheUsed s \<le> n")
    case True
    then show ?thesis using less.prems(1) by (subst flush_loop.simps) (auto intro: evictions.stop)
  next
    case False
    show ?thesis
    proof (cases "victim s xs")
      case None
      then show ?thesis using less.prems(1) False FlushCacheBlock_evicts [OF less.prems(1), of drv]
        by (subst flush_loop.simps) (auto intro: evictions.stop)
    next
      case (Some a)
      then obtain s1 where s1: "FlushCacheBlock drv s = Some (True, s1)" "cache_ok s1 (removeAll a xs)"
        "evicted drv a s s1"
        using FlushCacheBlock_evicts [OF less.prems(1), of drv] by auto
      have a: "a \<in> set xs" using Some find_SomeD [of "unlocked s" "rev xs" a] by (simp add: victim_def)
      obtain c where c: "contents s a = Some c" "nCacheUsed s1 = to_i32 (nCacheUsed s - size_freed c)"
        using s1(3) by (auto simp: evicted_def flushed_def)
      note step = evictions.evict [OF Some s1(3,2)]
      show ?thesis
      proof (cases "nCacheUsed s1 = nCacheUsed s")
        case True
        then have "size_freed c = 0" using c(2) to_i32_no_change [OF _ size_freed_range] by metis
        then have "\<not> (\<forall>a \<in> set xs. \<forall>c. contents s a = Some c \<longrightarrow> size_freed c \<noteq> 0)" using a c(1) by blast
        moreover have "flush_loop drv n s = Some s1" using False s1(1) True by (subst flush_loop.simps) simp
        ultimately show ?thesis using s1(2) step [OF evictions.stop] by blast
      next
        case progress: False
        have "length (removeAll a xs) < length xs" using a by (simp add: length_removeAll_less)
        from less.hyps [OF this s1(2)] obtain s' ys where s': "flush_loop drv n s1 = Some s'" "cache_ok s' ys"
          "evictions drv s1 (removeAll a xs) s' ys"
          "(\<forall>b \<in> set (removeAll a xs). \<forall>c. contents s1 b = Some c \<longrightarrow> size_freed c \<noteq> 0) \<longrightarrow>
             nCacheUsed s' \<le> n \<or> victim s' ys = None"
          by blast
        have "flush_loop drv n s = Some s'" using False s1(1) s'(1) progress by (subst flush_loop.simps) simp
        moreover have "nCacheUsed s' \<le> n \<or> victim s' ys = None"
          if "\<forall>a \<in> set xs. \<forall>c. contents s a = Some c \<longrightarrow> size_freed c \<noteq> 0"
          using s'(4) that evicted_frame(1) [OF s1(3)] by auto
        ultimately show ?thesis using s'(2) step [OF s'(3)] by blast
      qed
    qed
  qed
qed

text \<open>No unlocked block is left when there is no victim.\<close>

lemma victim_None: "victim s xs = None \<longleftrightarrow> (\<forall>a \<in> set xs. \<not> unlocked s a)"
  by (auto simp: victim_def find_None_iff)

section \<open>The account of the memory used\<close>

text \<open>Blocks whose size in bits is an \<^verbatim>\<open>int\<close>: those below 256 MB.\<close>

definition small :: "'d block \<Rightarrow> bool" where
  "small c = (0 < nXSize c \<and> 0 < nYSize c \<and> 0 < eTypeBits c \<and> eTypeBits c mod 8 = 0 \<and>
     nXSize c * nYSize c * eTypeBits c + 7 < 2 ^ 31)"

lemma small_sizes:
  assumes "small c"
  shows "size_freed c = size_in_bytes c" and "0 < size_in_bytes c"
proof -
  let ?n = "nXSize c * nYSize c" and ?t = "eTypeBits c"
  have n: "0 < ?n" and t: "0 < ?t" and b: "?n * ?t + 7 < 2 ^ 31" and t8: "?t = 8 * (?t div 8)"
    using assms by (auto simp: small_def)
  have q: "0 < ?t div 8" using t t8 by linarith
  have "?n \<le> ?n * ?t" using n t mult_left_mono [of 1 ?t ?n] by linarith
  then have i1: "to_i32 ?n = ?n" using n b by (intro to_i32_id) auto
  have pos: "0 < ?n * ?t" "0 < ?n * (?t div 8)" using mult_pos_pos [OF n t] mult_pos_pos [OF n q] .
  have i2: "to_i32 (?n * ?t) = ?n * ?t" using pos b by (intro to_i32_id) auto
  have i3: "to_i32 (?n * ?t + 7) = ?n * ?t + 7" using pos b by (intro to_i32_id) auto
  have "?n * (?t div 8) \<le> ?n * ?t" using n t by (intro mult_left_mono) auto
  then have i4: "to_i32 (?n * (?t div 8)) = ?n * (?t div 8)" using pos b by (intro to_i32_id) auto
  have "(?n * ?t + 7) div 8 = (8 * (?n * (?t div 8)) + 7) div 8" using t8 by (metis mult.left_commute)
  also have "\<dots> = ?n * (?t div 8)" by simp
  finally have "(?n * ?t + 7) div 8 = ?n * (?t div 8)" .
  then show "size_freed c = size_in_bytes c"
    using n t pos i1 i2 i3 i4 by (simp add: size_freed_def size_in_bytes_def c_div_nonneg)
  show "0 < size_in_bytes c" using t pos i1 i4 by (simp add: size_in_bytes_def c_div_nonneg)
qed

definition bytes_of :: "('d, 'w) gdal \<Rightarrow> addr \<Rightarrow> int" where
  "bytes_of s a = (case contents s a of None \<Rightarrow> 0 | Some c \<Rightarrow> size_in_bytes c)"

text \<open>\<open>nCacheUsed\<close> is the number of bytes of the cached blocks, and an \<^verbatim>\<open>int\<close> can hold it.\<close>

definition cached_bytes :: "('d, 'w) gdal \<Rightarrow> addr list \<Rightarrow> int" where
  "cached_bytes s xs = (\<Sum>a \<leftarrow> xs. bytes_of s a)"

definition accounted :: "('d, 'w) gdal \<Rightarrow> addr list \<Rightarrow> bool" where
  "accounted s xs = (nCacheUsed s = cached_bytes s xs \<and> cached_bytes s xs < 2 ^ 31)"

definition all_small :: "('d, 'w) gdal \<Rightarrow> addr list \<Rightarrow> bool" where
  "all_small s xs = (\<forall>a \<in> set xs. case contents s a of None \<Rightarrow> False | Some c \<Rightarrow> small c)"

lemma cached_bytes_nonneg: "all_small s xs \<Longrightarrow> 0 \<le> cached_bytes s xs"
  unfolding cached_bytes_def
  by (rule sum_list_nonneg) (auto simp: all_small_def bytes_of_def split: option.splits dest!: small_sizes(2) bspec)

lemma sum_list_removeAll:
  assumes "distinct xs" and "a \<in> set xs"
  shows "(\<Sum>b \<leftarrow> removeAll a xs. f b) = (\<Sum>b \<leftarrow> xs. f b) - (f a :: int)"
  using assms by (simp add: distinct_remove1_removeAll [symmetric] sum_list_map_remove1)

text \<open>An eviction keeps the account.\<close>

lemma evicted_accounted:
  assumes "evicted drv a s s'" and "accounted s xs" and "all_small s xs" and "a \<in> set xs" and "distinct xs"
  shows "accounted s' (removeAll a xs)" and "all_small s' (removeAll a xs)"
proof -
  obtain c where c: "contents s a = Some c" "nCacheUsed s' = to_i32 (nCacheUsed s - size_freed c)"
    using assms(1) by (auto simp: evicted_def flushed_def)
  have h: "contents s' = (contents s)(a := None)" by (rule evicted_frame(1) [OF assms(1)])
  have "small c" using assms(3,4) c(1) by (auto simp: all_small_def split: option.splits)
  then have a: "bytes_of s a = size_freed c" "0 < bytes_of s a" using c(1) by (simp_all add: bytes_of_def small_sizes)
  show small: "all_small s' (removeAll a xs)" using assms(3) by (auto simp: all_small_def h)
  have "cached_bytes s' (removeAll a xs) = (\<Sum>b \<leftarrow> removeAll a xs. bytes_of s b)"
    unfolding cached_bytes_def by (rule arg_cong [where f = sum_list], rule map_cong) (auto simp: bytes_of_def h)
  then have sum: "cached_bytes s' (removeAll a xs) = cached_bytes s xs - bytes_of s a"
    using assms(4,5) by (simp add: sum_list_removeAll cached_bytes_def del: removeAll.simps)
  moreover have "to_i32 (cached_bytes s xs - bytes_of s a) = cached_bytes s xs - bytes_of s a"
    using cached_bytes_nonneg [OF small] assms(2) a(2) sum by (intro to_i32_id) (auto simp: accounted_def)
  ultimately show "accounted s' (removeAll a xs)"
    using assms(2) c(2) a by (simp add: accounted_def)
qed

lemma evictions_accounted:
  assumes "evictions drv s xs s' ys" and "distinct xs" and "accounted s xs" and "all_small s xs"
  shows "accounted s' ys \<and> all_small s' ys \<and> distinct ys"
  using assms
proof (induction rule: evictions.induct)
  case (evict s xs a s1 s' ys)
  have "a \<in> set xs"
    using evict.hyps(1) find_SomeD [of "unlocked s" "rev xs" a] by (simp add: victim_def)
  then show ?case
    using evict.IH evicted_accounted [OF evict.hyps(2)] evict.prems by (simp add: distinct_removeAll)
qed simp

section \<open>Repeated evictions\<close>

text \<open>\<open>n\<close> calls of \<open>GDALFlushCacheBlock\<close>.\<close>

primrec FlushCacheBlocks :: "('d, 'w) driver \<Rightarrow> nat \<Rightarrow> ('d, 'w) gdal \<Rightarrow> ('d, 'w) gdal option" where
  "FlushCacheBlocks drv 0 s = Some s"
| "FlushCacheBlocks drv (Suc n) s = do { (_, s) \<leftarrow> FlushCacheBlock drv s; FlushCacheBlocks drv n s }"

section \<open>Properties\<close>

text \<open>
  C5.  Eviction is least recently used first: \<open>FlushCacheBlock\<close> flushes the unlocked block that
  is nearest to the old end of the list, through the table of its band, and nothing else; with
  every block locked it changes nothing and returns FALSE.  It never faults, and list and tables
  stay in step, whatever the driver answers.
\<close>

theorem FlushCacheBlock_evicts_oldest:
  assumes "cache_ok s xs"
  shows "case find (unlocked s) (rev xs) of
      None \<Rightarrow> FlushCacheBlock drv s = Some (False, s)
    | Some a \<Rightarrow> \<exists>s'. FlushCacheBlock drv s = Some (True, s') \<and> cache_ok s' (removeAll a xs) \<and>
        contents s' = (contents s)(a := None) \<and> (\<forall>k x y. cached s k x y \<noteq> Some a \<longrightarrow> cached s' k x y = cached s k x y)"
proof (cases "find (unlocked s) (rev xs)")
  case None
  then show ?thesis using FlushCacheBlock_evicts [OF assms, of drv] by (simp add: victim_def)
next
  case (Some a)
  then obtain s' where s': "FlushCacheBlock drv s = Some (True, s')" "cache_ok s' (removeAll a xs)" "evicted drv a s s'"
    using FlushCacheBlock_evicts [OF assms, of drv] by (auto simp: victim_def)
  have "cached s' k x y = cached s k x y" if "cached s k x y \<noteq> Some a" for k x y
    using s'(3) that by (auto simp: evicted_def flushed_def)
  then show ?thesis using Some s' evicted_frame(1) [OF s'(3)] by auto
qed

text \<open>A cache of one block, for the witnesses.\<close>

definition one_block_band :: band where
  "one_block_band = GDALRasterBand\<lparr>nRasterXSize := 1, nRasterYSize := 1, nBlockXSize := 1, nBlockYSize := 1,
     nBlocksPerRow := 1, nBlocksPerColumn := 1, papoBlocks := Some (Blocks [Some 0])\<rparr>"

definition one_block :: "nat block" where
  "one_block = (new_block 8 0 (1, 1) 0 0)\<lparr>pData := Some 7, bDirty := True\<rparr>"

definition one_block_cache :: "(nat, nat) gdal" where
  "one_block_cache =
     \<lparr>heap_blocks = [0 \<mapsto> one_block], poNewest = Some 0, poOldest = Some 0, next_address = 1, nCacheUsed = 1,
      nCacheMax = 100, bCacheMaxInitialized = True, GDAL_CACHEMAX = None, bands = [0 \<mapsto> one_block_band], world = 0\<rparr>"

definition counting_driver :: "(nat, nat) driver" where
  "counting_driver =
     \<lparr>IReadBlock = (\<lambda>k x y d w. (CE_None, w, w)), IWriteBlock = (\<lambda>k x y d w. (CE_None, w + 1)),
      VSIMalloc = (\<lambda>w n. Some 0)\<rparr>"

lemma one_block_cached: "cached one_block_cache k x y = (if k = 0 \<and> x = 0 \<and> y = 0 then Some 0 else None)"
  by (auto simp: cached_def one_block_cache_def one_block_band_def GDALRasterBand_def in_band_def get_slot_def
      at_index_def block_index_def)

lemma one_block_contents: "contents one_block_cache = [0 \<mapsto> one_block]"
  by (auto simp: contents_def one_block_cache_def one_block_def new_block_def unlinked_def fun_eq_iff)

lemma one_block_cache_ok: "cache_ok one_block_cache [0]"
proof -
  have "bands_ok one_block_cache"
    by (simp add: bands_ok_def one_block_cache_def one_block_band_def GDALRasterBand_def table_ok_def)
  moreover have "lru one_block_cache [0]"
    by (simp add: lru_def one_block_cache_def neighbours_def one_block_def new_block_def)
  moreover have "next_address one_block_cache = 1" by (simp add: one_block_cache_def)
  ultimately show ?thesis
    by (auto simp: cache_ok_def tables_ok_def one_block_cached one_block_contents split: if_splits)
      (simp_all add: one_block_def new_block_def)
qed

lemma one_block_unlocked: "unlocked one_block_cache 0"
  by (simp add: unlocked_contents one_block_contents one_block_def new_block_def)

theorem FlushCacheBlock_evicts_oldest_witness:
  "\<exists>s'. FlushCacheBlock counting_driver one_block_cache = Some (True, s') \<and> cache_ok s' []"
  using FlushCacheBlock_evicts_oldest [OF one_block_cache_ok, of counting_driver] one_block_unlocked by auto

text \<open>
  C30.  Evictions drain the cache: after as many calls of \<open>FlushCacheBlock\<close> as there are unlocked
  blocks, or more, exactly the locked blocks are left, in their order and unchanged, whatever the
  driver answers.
\<close>

theorem FlushCacheBlock_drains:
  assumes "cache_ok s xs" and "length (filter (unlocked s) xs) \<le> n"
  shows "\<exists>s'. FlushCacheBlocks drv n s = Some s' \<and> cache_ok s' (filter (\<lambda>a. \<not> unlocked s a) xs) \<and>
    (\<forall>a. \<not> unlocked s a \<longrightarrow> contents s' a = contents s a)"
  using assms
proof (induction n arbitrary: s xs)
  case 0
  then have "filter (\<lambda>a. \<not> unlocked s a) xs = xs" by (simp add: filter_empty_conv)
  then show ?case using "0.prems"(1) by simp
next
  case (Suc n)
  note e = FlushCacheBlock_evicts [OF Suc.prems(1), of drv]
  show ?case
  proof (cases "victim s xs")
    case None
    then have all: "filter (\<lambda>a. \<not> unlocked s a) xs = xs" "filter (unlocked s) xs = []"
      by (simp_all add: victim_None filter_empty_conv)
    then obtain s' where "FlushCacheBlocks drv n s = Some s'" "cache_ok s' (filter (\<lambda>a. \<not> unlocked s a) xs)"
      "\<forall>a. \<not> unlocked s a \<longrightarrow> contents s' a = contents s a"
      using Suc.IH [OF Suc.prems(1)] by auto
    then show ?thesis using e None by simp
  next
    case (Some a)
    then obtain s1 where s1: "FlushCacheBlock drv s = Some (True, s1)" "cache_ok s1 (removeAll a xs)" "evicted drv a s s1"
      using e by auto
    have a: "a \<in> set xs" "unlocked s a" using Some find_SomeD [of "unlocked s" "rev xs" a] by (simp_all add: victim_def)
    have h: "contents s1 = (contents s)(a := None)" by (rule evicted_frame(1) [OF s1(3)])
    then have u: "unlocked s1 b \<longleftrightarrow> unlocked s b \<and> b \<noteq> a" for b by (simp add: unlocked_contents)
    have "filter (unlocked s1) (removeAll a xs) = removeAll a (filter (unlocked s) xs)"
      by (induction xs) (auto simp: u)
    moreover have "length (removeAll a (filter (unlocked s) xs)) < length (filter (unlocked s) xs)"
      using a by (intro length_removeAll_less) simp
    ultimately have "length (filter (unlocked s1) (removeAll a xs)) \<le> n" using Suc.prems(2) by simp
    then obtain s' where s': "FlushCacheBlocks drv n s1 = Some s'" "cache_ok s' (filter (\<lambda>b. \<not> unlocked s1 b) (removeAll a xs))"
      "\<forall>b. \<not> unlocked s1 b \<longrightarrow> contents s' b = contents s1 b"
      using Suc.IH [OF s1(2)] by blast
    have "filter (\<lambda>b. \<not> unlocked s1 b) (removeAll a xs) = filter (\<lambda>b. \<not> unlocked s b) xs"
      using a(2) by (induction xs) (auto simp: u)
    moreover have "contents s' b = contents s b" if "\<not> unlocked s b" for b
      using s'(3) u [of b] that a(2) by (auto simp: h)
    ultimately show ?thesis using s' s1(1) by simp
  qed
qed

theorem FlushCacheBlock_drains_witness:
  "\<exists>s'. FlushCacheBlocks counting_driver 3 one_block_cache = Some s' \<and> cache_ok s' []"
  using FlushCacheBlock_drains [OF one_block_cache_ok, of 3 counting_driver] one_block_unlocked by auto

text \<open>With 2 GiB or more in the cache the account has wrapped to a negative number, and the call
  evicts nothing: only the limit is changed.\<close>

lemma GDALSetCacheMax_wrapped_account:
  assumes "nCacheUsed s = to_i32 (cached_bytes s xs)" and "2 ^ 31 \<le> cached_bytes s xs"
    and "cached_bytes s xs < 2 ^ 32" and "0 \<le> n"
  shows "GDALSetCacheMax drv n s = Some (s\<lparr>nCacheMax := n\<rparr>)"
proof -
  have "to_i32 (cached_bytes s xs) < 0" using assms(2,3) by (subst to_i32_wrap) auto
  with assms(1,4) show ?thesis by (simp add: GDALSetCacheMax_def flush_loop.simps)
qed

text \<open>
  C6.  \<open>GDALSetCacheMax\<close> returns on every cache whose blocks have less than 256 MB each and less
  than 2 GiB together, so that the account of the memory used is exact.  Afterwards the cached
  blocks have no more bytes than the new limit, or only locked blocks are left; none that was
  locked has been evicted and no block has come in; the account is exact again, and list and
  tables are in step.
\<close>

theorem GDALSetCacheMax_obeyed:
  assumes "cache_ok s xs" and "all_small s xs"
    and "nCacheUsed s = cached_bytes s xs" and "cached_bytes s xs < 2 ^ 31"
  shows "\<exists>s' ys. GDALSetCacheMax drv n s = Some s' \<and> nCacheMax s' = n \<and> cache_ok s' ys \<and>
    nCacheUsed s' = cached_bytes s' ys \<and>
    (cached_bytes s' ys \<le> n \<or> (\<forall>a \<in> set ys. \<not> unlocked s' a)) \<and>
    set ys \<subseteq> set xs \<and> (\<forall>a \<in> set xs. a \<notin> set ys \<longrightarrow> unlocked s a)"
proof -
  let ?s = "s\<lparr>nCacheMax := n\<rparr>"
  have eq: "unlocked ?s = unlocked s" by (simp add: unlocked_def block_at_def fun_eq_iff)
  have ok: "cache_ok ?s xs" using assms(1) tables_ok_cong [of s "set xs" ?s] by (simp add: cache_ok_def)
  have acc: "accounted ?s xs" "all_small ?s xs"
    using assms(2-4) by (simp_all add: accounted_def cached_bytes_def bytes_of_def all_small_def)
  have "\<forall>a \<in> set xs. \<forall>c. contents ?s a = Some c \<longrightarrow> size_freed c \<noteq> 0"
    using assms(2) small_sizes by (fastforce simp: all_small_def split: option.splits)
  then obtain s' ys where s': "flush_loop drv n ?s = Some s'" "cache_ok s' ys" "evictions drv ?s xs s' ys"
    "nCacheUsed s' \<le> n \<or> victim s' ys = None"
    using flush_loop_returns [OF ok, of drv n] by blast
  have "distinct xs" using assms(1) by (simp add: cache_ok_def lru_def)
  then have "nCacheUsed s' = cached_bytes s' ys"
    using evictions_accounted [OF s'(3) _ acc] by (simp add: accounted_def)
  moreover have "settings s' = settings ?s" "\<forall>a \<in> set xs. a \<notin> set ys \<longrightarrow> unlocked s a"
    using evictions_frame [OF s'(3)] by (simp_all add: eq)
  moreover have "set ys \<subseteq> set xs" using s'(3) by (induction rule: evictions.induct) auto
  ultimately show ?thesis
    using s' by (intro exI [of _ s'] exI [of _ ys]) (auto simp: GDALSetCacheMax_def settings_def victim_None)
qed

theorem GDALSetCacheMax_obeyed_witness:
  "\<exists>s' ys. GDALSetCacheMax counting_driver 0 one_block_cache = Some s' \<and> cache_ok s' ys \<and>
    (cached_bytes s' ys \<le> 0 \<or> (\<forall>a \<in> set ys. \<not> unlocked s' a))"
proof -
  have "bytes_of one_block_cache 0 = 1"
    by (simp add: bytes_of_def one_block_contents one_block_def new_block_def size_in_bytes_def to_i32_def c_div_def)
  then have "cached_bytes one_block_cache [0] = 1" by (simp add: cached_bytes_def)
  moreover have "nCacheUsed one_block_cache = 1" by (simp add: one_block_cache_def)
  moreover have "all_small one_block_cache [0]"
    by (simp add: all_small_def one_block_contents one_block_def new_block_def small_def)
  ultimately show ?thesis
    using GDALSetCacheMax_obeyed [OF one_block_cache_ok, of counting_driver 0] by auto
qed

text \<open>
  C34.  An eviction does not report a failed write: when the driver refuses to write the dirty block
  that is evicted, \<open>FlushCacheBlock\<close> returns TRUE, the block is gone and the driver has not got
  its data.
\<close>

theorem FlushCacheBlock_loses_unwritten_data:
  assumes "\<And>k x y d w. IWriteBlock drv k x y d w = (CE_Failure, w)"
    and "cache_ok s xs" and "find (unlocked s) (rev xs) = Some a"
  shows "\<exists>s'. FlushCacheBlock drv s = Some (True, s') \<and> contents s' a = None \<and> world s' = world s"
proof -
  obtain s' where s': "FlushCacheBlock drv s = Some (True, s')" "evicted drv a s s'"
    using FlushCacheBlock_evicts [OF assms(2), of drv] assms(3) by (auto simp: victim_def)
  have "snd (written drv k c w) = w" for k c w by (simp add: written_def assms(1))
  then have "world s' = world s" using s'(2) by (auto simp: evicted_def flushed_def)
  then show ?thesis using s' evicted_frame(1) [OF s'(2)] by simp
qed

theorem FlushCacheBlock_loses_unwritten_data_witness:
  "let drv = counting_driver\<lparr>IWriteBlock := \<lambda>k x y d w. (CE_Failure, w)\<rparr>
   in \<exists>s'. FlushCacheBlock drv one_block_cache = Some (True, s') \<and> contents s' 0 = None \<and> world s' = 0"
proof -
  let ?drv = "counting_driver\<lparr>IWriteBlock := \<lambda>k x y d w. (CE_Failure, w)\<rparr>"
  have "IWriteBlock ?drv k x y d w = (CE_Failure, w)" for k x y d w by simp
  moreover have "find (unlocked one_block_cache) (rev [0]) = Some 0" using one_block_unlocked by simp
  moreover have "world one_block_cache = 0" by (simp add: one_block_cache_def)
  ultimately show ?thesis
    using FlushCacheBlock_loses_unwritten_data [of ?drv, OF _ one_block_cache_ok] by (simp add: Let_def)
qed

text \<open>
  From 256 MB on the destructor miscounts: it computes the size of the block in bits, which is
  no \<^verbatim>\<open>int\<close> any more, so that flushing a block increases the count of the memory used.
\<close>

theorem FlushBlock_big_block_counts_up:
  assumes "cache_ok s xs" and "cached s k x y = Some a" and "contents s a = Some c"
    and "0 \<le> nXSize c * nYSize c" and "nXSize c * nYSize c < 2 ^ 31"
    and "2 ^ 31 \<le> nXSize c * nYSize c * eTypeBits c" and "nXSize c * nYSize c * eTypeBits c < 2 ^ 32 - 16"
    and "- (2 ^ 31) \<le> nCacheUsed s" and "nCacheUsed s < 2 ^ 30"
  shows "\<exists>e s'. FlushBlock drv k x y s = Some (e, s') \<and> contents s' = (contents s)(a := None) \<and>
    nCacheUsed s < nCacheUsed s'"
proof -
  let ?p = "nXSize c * nYSize c * eTypeBits c"
  have l: "lru s xs" and t: "tables_ok s (set xs)" using assms(1) by (simp_all add: cache_ok_def)
  have c: "poBand c = Some k" "pData c \<noteq> None" using tables_okD(3) [OF t assms(2)] assms(3) by auto
  obtain s' where s': "FlushBlock drv k x y s = Some (fst (written drv k c (world s)), s')" "flushed drv k x y a c s s'"
    using FlushBlock_cached [OF l tables_okD(2) [OF t assms(2)] assms(2,3) c(1)] by blast
  have n: "to_i32 (nXSize c * nYSize c) = nXSize c * nYSize c" using assms(4,5) by (intro to_i32_id) auto
  have p: "to_i32 ?p = ?p - 2 ^ 32" using assms(6,7) by (intro to_i32_wrap) auto
  have p7: "to_i32 (?p - 2 ^ 32 + 7) = ?p - 2 ^ 32 + 7" using assms(6,7) by (intro to_i32_id) auto
  have neg: "?p - 2 ^ 32 + 7 < 0" using assms(7) by simp
  have "size_freed c = c_div (?p - 2 ^ 32 + 7) 8" by (simp only: size_freed_def n p p7)
  then have f: "size_freed c = - ((2 ^ 32 - 7 - ?p) div 8)" using neg by (simp add: c_div_def)
  have "1 \<le> (2 ^ 32 - 7 - ?p) div 8" using assms(7) by simp
  moreover have "(2 ^ 32 - 7 - ?p) div 8 \<le> 2 ^ 31 div 8" using assms(6) by (intro zdiv_mono1) auto
  ultimately have b: "1 \<le> - size_freed c" "- size_freed c \<le> 2 ^ 28" using f by auto
  then have "to_i32 (nCacheUsed s - size_freed c) = nCacheUsed s - size_freed c"
    using assms(8,9) by (intro to_i32_id) auto
  then have "nCacheUsed s' = nCacheUsed s - size_freed c" using s'(2) c(2) by (simp add: flushed_def)
  then show ?thesis using s' b(1) by (auto simp: flushed_def)
qed

definition big_block_cache :: "(nat, nat) gdal" where
  "big_block_cache = one_block_cache\<lparr>heap_blocks := [0 \<mapsto> one_block\<lparr>eTypeBits := 32, nXSize := 8192, nYSize := 8192\<rparr>],
     nCacheUsed := 268435456\<rparr>"

theorem FlushBlock_big_block_counts_up_witness:
  "\<exists>e s'. FlushBlock counting_driver 0 0 0 big_block_cache = Some (e, s') \<and> contents s' 0 = None \<and>
    268435456 < nCacheUsed s'"
proof -
  let ?c = "one_block\<lparr>eTypeBits := 32, nXSize := 8192, nYSize := 8192\<rparr>"
  have "bands big_block_cache = bands one_block_cache" by (simp add: big_block_cache_def)
  then have cached: "cached big_block_cache = cached one_block_cache" "bands_ok big_block_cache"
    using cached_bands tables_okD(2) [of one_block_cache "{0}" 0 0 0 0] one_block_cache_ok
    by (auto simp: cache_ok_def one_block_cached)
  have h: "contents big_block_cache = [0 \<mapsto> ?c]"
    by (auto simp: contents_def big_block_cache_def one_block_def new_block_def unlinked_def fun_eq_iff)
  have "lru big_block_cache [0]"
    by (simp add: lru_def big_block_cache_def one_block_cache_def neighbours_def one_block_def new_block_def)
  then have "cache_ok big_block_cache [0]"
    using cached by (auto simp: cache_ok_def tables_ok_def one_block_cached h split: if_splits)
      (simp_all add: one_block_def new_block_def big_block_cache_def one_block_cache_def)
  moreover have "cached big_block_cache 0 0 0 = Some 0" "contents big_block_cache 0 = Some ?c"
    by (simp_all add: cached one_block_cached h)
  moreover have "nCacheUsed big_block_cache = 268435456" by (simp add: big_block_cache_def)
  ultimately show ?thesis
    using FlushBlock_big_block_counts_up [of big_block_cache "[0]" 0 0 0 0 ?c counting_driver] by fastforce
qed

text \<open>
  The limit set by the configuration option in megabytes is exact up to 2047; from 2048 to 4095
  the product wraps around and the limit is negative, so that nothing stays in the cache.
\<close>

theorem GDALGetCacheMax_megabytes:
  assumes "\<not> bCacheMaxInitialized s" and "GDAL_CACHEMAX s = Some v"
  shows "(0 \<le> v \<and> v < 2048 \<longrightarrow> fst (GDALGetCacheMax s) = v * 2 ^ 20) \<and>
    (2048 \<le> v \<and> v < 4096 \<longrightarrow> fst (GDALGetCacheMax s) = (v - 4096) * 2 ^ 20 \<and> fst (GDALGetCacheMax s) < 0)"
proof -
  have "fst (GDALGetCacheMax s) = to_i32 (v * 1048576)" if "v < 4096"
    using assms that by (simp add: GDALGetCacheMax_def Let_def)
  moreover have "to_i32 (v * 1048576) = v * 1048576" if "0 \<le> v" "v < 2048"
    using that by (intro to_i32_id) auto
  moreover have "to_i32 (v * 1048576) = (v - 4096) * 1048576" if "2048 \<le> v" "v < 4096"
    using that to_i32_wrap [of "v * 1048576"] by simp
  ultimately show ?thesis by auto
qed

theorem GDALGetCacheMax_megabytes_witness:
  "fst (GDALGetCacheMax (one_block_cache\<lparr>bCacheMaxInitialized := False, GDAL_CACHEMAX := Some 4000\<rparr>)) = - (96 * 2 ^ 20)"
  using GDALGetCacheMax_megabytes [of "one_block_cache\<lparr>bCacheMaxInitialized := False, GDAL_CACHEMAX := Some 4000\<rparr>" 4000]
  by simp

end
