(* ===== verification/Block_Access.thy ===== *)
theory Block_Access
  imports Block_Evict
begin

text \<open>
  Access to blocks: \<open>GetLockedBlockRef\<close> and the functions it calls, on every driver.
\<close>

section \<open>Preparing the table of a band\<close>

lemma InitBlockInfo_cases:
  assumes "InitBlockInfo B = (r, B')" and "papoBlocks B = None \<or> table_ok B"
  shows "(r \<longrightarrow> table_ok B') \<and> (papoBlocks B' = None \<or> table_ok B') \<and> (papoBlocks B \<noteq> None \<longrightarrow> r \<and> B' = B) \<and>
    (papoBlocks B = None \<longrightarrow> (\<forall>x y. in_band B' x y \<longrightarrow> get_slot B' x y = None \<or> get_slot B' x y = Some None))"
proof (cases r)
  case True
  with assms have t: "table_ok B'" using InitBlockInfo_ok [of B B'] by simp
  moreover have "papoBlocks B \<noteq> None \<Longrightarrow> B' = B" using True assms InitBlockInfo_ok [of B B'] by simp
  moreover have "get_slot B' x y = None \<or> get_slot B' x y = Some None" if "papoBlocks B = None" for x y
    using assms(1) that True
    by (auto simp: InitBlockInfo_def Let_def get_slot_def at_index_def split: if_splits)
  ultimately show ?thesis using True by simp
next
  case False
  with assms(1) have "papoBlocks B = None \<and> papoBlocks B' = None"
    by (auto simp: InitBlockInfo_def Let_def split: if_splits)
  with False show ?thesis by (simp add: get_slot_def)
qed

lemma init_block_info_cached:
  assumes "bands s k = Some B" and "bands_ok s"
  shows "\<exists>r B'. init_block_info k s = Some (r, s\<lparr>bands := (bands s)(k \<mapsto> B')\<rparr>) \<and> InitBlockInfo B = (r, B') \<and>
    bands_ok (s\<lparr>bands := (bands s)(k \<mapsto> B')\<rparr>) \<and> cached (s\<lparr>bands := (bands s)(k \<mapsto> B')\<rparr>) = cached s \<and>
    (r \<longrightarrow> table_ok B') \<and> (papoBlocks B \<noteq> None \<longrightarrow> r \<and> B' = B)"
proof -
  obtain r B' where i: "InitBlockInfo B = (r, B')" by fastforce
  note c = InitBlockInfo_cases [OF i bands_okD [OF assms(2,1)]]
  let ?s = "s\<lparr>bands := (bands s)(k \<mapsto> B')\<rparr>"
  have "bands_ok ?s" using assms(2) c by (auto simp: bands_ok_def)
  moreover have "cached ?s k' x y = cached s k' x y" for k' x y
  proof (cases "k' = k \<and> papoBlocks B = None")
    case True
    then have "get_slot B x y = None" by (simp add: get_slot_def)
    moreover have "in_band B' x y \<Longrightarrow> get_slot B' x y = None \<or> get_slot B' x y = Some None"
      using c True by simp
    ultimately show ?thesis using True assms(1) by (auto simp: cached_def)
  next
    case False
    then show ?thesis using c assms(1) by (auto simp: cached_def)
  qed
  then have "cached ?s = cached s" by (intro ext)
  ultimately show ?thesis using c i assms(1) by (simp add: init_block_info_def Let_def)
qed

lemma initialised_band:
  assumes "table_ok B"
  shows "InitBlockInfo B = (True, B)"
  using initialised(2) [OF assms] by (simp add: InitBlockInfo_def)

lemma table_slot:
  assumes "bands s k = Some B" and "table_ok B" and "in_band B x y"
  shows "get_slot B x y = Some (cached s k x y)"
  using get_slot_returns [OF assms(2,3)] assms(1,3) by (auto simp: cached_def)

section \<open>A new block\<close>

lemma new_block_contents:
  assumes "lru s xs" and "tables_ok s T" and "bands s k = Some B" and "a = next_address s"
  shows "\<exists>s'. GDALRasterBlock k x y s = Some (a, s') \<and> lru s' xs \<and> tables_ok s' T \<and>
    contents s' = (contents s)(a \<mapsto> new_block (nDataTypeBits B) k (GetBlockSize B) x y) \<and>
    bands s' = bands s \<and> world s' = world s \<and> nCacheUsed s' = nCacheUsed s \<and> contents s a = None \<and>
    settings s' = settings (s\<lparr>next_address := Suc a\<rparr>)"
proof -
  let ?c = "new_block (nDataTypeBits B) k (GetBlockSize B) x y :: 'a block"
  let ?s = "s\<lparr>heap_blocks := (heap_blocks s)(a \<mapsto> ?c), next_address := Suc a\<rparr>"
  have none: "contents s a = None" using assms(2,4) unfolding tables_ok_def by (metis less_irrefl)
  have c: "contents ?s = (contents s)(a \<mapsto> ?c)" "unlinked ?c = ?c"
    by (auto simp: contents_def fun_eq_iff new_block_def unlinked_def)
  have n: "neighbours ?s = (neighbours s)(a \<mapsto> (None, None))"
    by (auto simp: neighbours_def fun_eq_iff new_block_def)
  have "a \<notin> set xs"
    using none assms(1) links_live [of "neighbours s" None xs None a]
    by (auto simp: lru_def neighbours_def contents_def)
  then have "lru ?s xs" using assms(1) links_frame [of "neighbours s" None xs None a] by (auto simp: lru_def n)
  moreover have "cached ?s = cached s" "bands_ok ?s = bands_ok s" using cached_bands [of ?s s] by simp_all
  then have "tables_ok ?s T"
    using assms(2,4) none unfolding tables_ok_def c(1) by (fastforce simp: less_Suc_eq)
  ultimately show ?thesis
    using assms(3,4) c none by (intro exI [of _ ?s]) (simp add: GDALRasterBlock_def Let_def settings_def)
qed

section \<open>Internalize\<close>

lemma GDALGetCacheMax_frame:
  assumes "GDALGetCacheMax s = (n, s')"
  shows "contents s' = contents s" "lru s' xs = lru s xs" "bands s' = bands s" "world s' = world s"
    "nCacheUsed s' = nCacheUsed s" "next_address s' = next_address s"
  using assms
  by (auto simp: GDALGetCacheMax_def Let_def split: if_splits option.splits)

text \<open>The state in which \<open>Internalize\<close> evicts blocks: the new one has its buffer and is counted.\<close>

definition counted :: "addr \<Rightarrow> 'd block \<Rightarrow> 'd \<Rightarrow> ('d, 'w) gdal \<Rightarrow> ('d, 'w) gdal \<Rightarrow> bool" where
  "counted a c d s s0 =
     (contents s0 = (contents s)(a \<mapsto> c\<lparr>pData := Some d, nLockCount := nLockCount c + 1\<rparr>) \<and>
      bands s0 = bands s \<and> world s0 = world s \<and> nCacheUsed s0 = to_i32 (nCacheUsed s + size_in_bytes c))"

lemma Internalize_none:
  assumes "cache_ok s xs" and "contents s a = Some c" and "VSIMalloc drv (world s) (size_in_bytes c) = None"
  shows "\<exists>s'. Internalize drv a s = Some (CE_Failure, s') \<and> cache_ok s' xs \<and> contents s' = contents s \<and>
    bands s' = bands s \<and> world s' = world s \<and> nCacheUsed s' = nCacheUsed s"
proof -
  obtain n s1 where n: "GDALGetCacheMax s = (n, s1)" by fastforce
  note f = GDALGetCacheMax_frame [OF n]
  obtain b where b: "block_at a s1 = Some b" "unlinked b = c" using contents_block [of s1 a c] f(1) assms(2) by metis
  have "size_in_bytes b = size_in_bytes c" using b(2) by (auto simp: size_in_bytes_def)
  then have "Internalize drv a s = Some (CE_Failure, s1)"
    using n b(1) assms(3) f(4) by (simp add: Internalize_def)
  moreover have "cache_ok s1 xs"
    using assms(1) f tables_ok_cong [of s "set xs" s1] by (simp add: cache_ok_def)
  ultimately show ?thesis using f by blast
qed

lemma Internalize_some:
  assumes "cache_ok s xs" and "contents s a = Some c" and "a \<notin> set xs" and "pData c = None"
    and "VSIMalloc drv (world s) (size_in_bytes c) = Some d"
  shows "\<exists>s0 s1 s' ys. Internalize drv a s = Some (CE_None, s') \<and> counted a c d s s0 \<and> cache_ok s0 xs \<and>
    evictions drv s0 xs s1 ys \<and> cache_ok s1 ys \<and> lru s' (a # ys) \<and>
    contents s' = (contents s1)(a \<mapsto> c\<lparr>pData := Some d\<rparr>) \<and> bands s' = bands s1 \<and> world s' = world s1 \<and>
    nCacheUsed s' = nCacheUsed s1 \<and> settings s' = settings s1"
proof -
  obtain n s1 where n: "GDALGetCacheMax s = (n, s1)" by fastforce
  note f = GDALGetCacheMax_frame [OF n]
  have c1: "contents s1 a = Some c" using f(1) assms(2) by simp
  obtain b where b: "block_at a s1 = Some b" "unlinked b = c" using contents_block [OF c1] .
  have bc: "size_in_bytes b = size_in_bytes c" using b(2) by (auto simp: size_in_bytes_def)
  let ?fill = "\<lambda>b. b\<lparr>pData := Some (case pData b of None \<Rightarrow> d | Some d \<Rightarrow> d)\<rparr>"
  let ?c3 = "c\<lparr>pData := Some d, nLockCount := nLockCount c + 1\<rparr>"
  obtain s2 where s2: "set_block a ?fill s1 = Some s2" "contents s2 = (contents s1)(a \<mapsto> c\<lparr>pData := Some d\<rparr>)"
    "\<And>xs. lru s1 xs \<Longrightarrow> lru s2 xs" "heap.more s2 = heap.more s1"
    using set_block_contents [OF c1, of ?fill] assms(4) by (auto simp: unlinked_def)
  have "contents s2 a = Some (c\<lparr>pData := Some d\<rparr>)" by (simp add: s2(2))
  then obtain s3 where s3: "AddLock a s2 = Some s3" "contents s3 = (contents s2)(a \<mapsto> ?c3)"
    "\<And>xs. lru s2 xs \<Longrightarrow> lru s3 xs" "heap.more s3 = heap.more s2"
    using set_block_contents [of s2 a "c\<lparr>pData := Some d\<rparr>" "\<lambda>b. b\<lparr>nLockCount := nLockCount b + 1\<rparr>"]
    by (auto simp: AddLock_def unlinked_def)
  note m2 = gdal_more [OF s2(4)] and m3 = gdal_more [OF s3(4)]
  define s0 where "s0 = s3\<lparr>nCacheUsed := to_i32 (nCacheUsed s3 + size_in_bytes b)\<rparr>"
  have c0: "contents s0 = (contents s)(a \<mapsto> ?c3)" by (simp add: s0_def s3(2) s2(2) f(1))
  then have counted: "counted a c d s s0"
    using m2 m3 f bc by (simp add: counted_def s0_def)
  have "tables_ok s0 (set xs)"
    using assms(1) tables_ok_other [OF _ c0 assms(3)] assms(2) m2 m3 f by (simp add: cache_ok_def s0_def)
  then have ok0: "cache_ok s0 xs" using assms(1) f(2) s2(3) s3(3) by (simp add: cache_ok_def s0_def)
  then obtain s4 ys where s4: "flush_loop drv n s0 = Some s4" "cache_ok s4 ys" "evictions drv s0 xs s4 ys"
    using flush_loop_returns by blast
  note ev = evictions_frame [OF s4(3)]
  have ys: "a \<notin> set ys" using ev assms(3) by auto
  have "contents s4 a = contents s0 a" using ev assms(3) by blast
  then have c4: "contents s4 a = Some ?c3" using c0 by simp
  then obtain s5 where s5: "Touch a s4 = Some s5" "lru s5 (a # ys)" "contents s5 = contents s4" "heap.more s5 = heap.more s4"
    using Touch_contents [of s4 ys a ?c3] s4(2) ys by (auto simp: cache_ok_def)
  then obtain s6 where s6: "DropLock a s5 = Some s6" "contents s6 = (contents s5)(a \<mapsto> c\<lparr>pData := Some d\<rparr>)"
    "lru s6 (a # ys)" "heap.more s6 = heap.more s5"
    using set_block_contents [of s5 a ?c3 "\<lambda>b. b\<lparr>nLockCount := nLockCount b - 1\<rparr>"] c4
    by (auto simp: DropLock_def unlinked_def)
  note m5 = gdal_more [OF s5(4)] settings_more [OF s5(4)] and m6 = gdal_more [OF s6(4)] settings_more [OF s6(4)]
  have "Internalize drv a s = Some (CE_None, s6)"
    using n b(1) assms(5) f(4) bc s2(1) s3(1) s4(1) s5(1) s6(1) by (simp add: Internalize_def Let_def s0_def)
  then show ?thesis
    using counted ok0 s4 s6 s5(3) m5 m6
    by (intro exI [of _ s0] exI [of _ s4] exI [of _ s6] exI [of _ ys]) simp
qed

text \<open>A change of a block that leaves it in its place.\<close>

lemma set_block_tables:
  assumes "cache_ok s xs" and "contents s a = Some c"
    and "\<And>b. unlinked (f b) = f (unlinked b) \<and> poNext (f b) = poNext b \<and> poPrevious (f b) = poPrevious b"
    and "poBand (f c) = poBand c" and "nXOff (f c) = nXOff c" and "nYOff (f c) = nYOff c"
    and "pData c \<noteq> None \<Longrightarrow> pData (f c) \<noteq> None"
  shows "\<exists>s'. set_block a f s = Some s' \<and> cache_ok s' xs \<and> contents s' = (contents s)(a \<mapsto> f c) \<and>
    heap.more s' = heap.more s"
proof -
  obtain s1 where s1: "set_block a f s = Some s1" "contents s1 = (contents s)(a \<mapsto> f c)"
    "\<And>xs. lru s xs \<Longrightarrow> lru s1 xs" "heap.more s1 = heap.more s"
    using set_block_contents [OF assms(2), of f] assms(3) by auto
  note m1 = gdal_more [OF s1(4)]
  have eq: "cached s1 = cached s" "bands_ok s1 = bands_ok s" using cached_bands [of s1 s] m1(6) by simp_all
  have "\<exists>c. contents s1 a' = Some c \<and> poBand c = Some k' \<and> nXOff c = x' \<and> nYOff c = y' \<and> pData c \<noteq> None"
    if "cached s k' x' y' = Some a'" for k' x' y' a'
    using tables_okD(3) [of s "set xs", OF _ that] assms(1,2,4-7) by (auto simp: s1(2) cache_ok_def)
  then have "tables_ok s1 (set xs)"
    using assms(1,2) m1(1) unfolding cache_ok_def tables_ok_def eq by (auto simp: s1(2))
  then show ?thesis using s1 assms(1) by (auto simp: cache_ok_def)
qed

section \<open>Adopting and reading a block\<close>

lemma tables_ok_stored:
  assumes "tables_ok s T" and "cached s k x y = None" and "cached s' = at_position (cached s) k x y (Some a)"
    and "bands_ok s'" and "contents s' = contents s" and "next_address s' = next_address s"
    and "contents s a = Some c" and "poBand c = Some k" and "nXOff c = x" and "nYOff c = y" and "pData c \<noteq> None"
  shows "tables_ok s' (insert a T)"
proof -
  have "a' \<in> insert a T \<and> (\<exists>c. contents s' a' = Some c \<and> poBand c = Some k' \<and> nXOff c = x' \<and> nYOff c = y' \<and> pData c \<noteq> None)"
    if "cached s' k' x' y' = Some a'" for k' x' y' a'
  proof (cases "k' = k \<and> x' = x \<and> y' = y")
    case True
    then have "a' = a" using that assms(3) by simp
    then show ?thesis using True assms(5,7-11) by simp
  next
    case False
    then have "cached s k' x' y' = Some a'" using that assms(3) by auto
    then show ?thesis using tables_okD [OF assms(1), of k' x' y' a'] assms(5) by simp
  qed
  moreover have "\<exists>k x y. cached s' k x y = Some a'" if mem: "a' \<in> insert a T" for a'
  proof (cases "a' = a")
    case True
    then have "cached s' k x y = Some a'" by (simp add: assms(3))
    then show ?thesis by blast
  next
    case False
    then obtain k' x' y' where k': "cached s k' x' y' = Some a'"
      using mem assms(1) unfolding tables_ok_def by blast
    then have "cached s' k' x' y' = Some a'" using assms(2) by (auto simp: assms(3))
    then show ?thesis by blast
  qed
  moreover have "a' < next_address s'" if "contents s' a' \<noteq> None" for a'
    using that assms(1,5,6) unfolding tables_ok_def by simp
  ultimately show ?thesis using assms(4) unfolding tables_ok_def by blast
qed

lemma AdoptBlock_empty:
  assumes "lru s (a # ys)" and "tables_ok s (set ys)" and "contents s a = Some c" and "poBand c = Some k"
    and "nXOff c = x" and "nYOff c = y" and "pData c \<noteq> None" and "bands s k = Some B" and "table_ok B"
    and "in_band B x y" and "cached s k x y = None"
  shows "\<exists>s'. AdoptBlock drv k x y a s = Some (CE_None, s') \<and> cache_ok s' (a # ys) \<and> contents s' = contents s \<and>
    cached s' = at_position (cached s) k x y (Some a) \<and> layout_of s' = layout_of s \<and> settings s' = settings s \<and>
    nCacheUsed s' = nCacheUsed s \<and> world s' = world s"
proof -
  have ok: "bands_ok s" using assms(2) by (simp add: tables_ok_def)
  have i: "init_block_info k s = Some (True, s)"
    using assms(8) initialised_band [OF assms(9)] by (simp add: init_block_info_def fun_upd_idem)
  obtain m where m: "store_slot k x y (Some a) s = Some (s\<lparr>bands := m\<rparr>)" "bands_ok (s\<lparr>bands := m\<rparr>)"
    "layout_of (s\<lparr>bands := m\<rparr>) = layout_of s" "cached (s\<lparr>bands := m\<rparr>) = at_position (cached s) k x y (Some a)"
    using store_slot_cached [OF assms(8,9,10) ok] by blast
  let ?s = "s\<lparr>bands := m\<rparr>"
  have "lru ?s (a # ys)" "contents ?s a = Some c" using assms(1,3) by simp_all
  moreover have "a \<notin> set ys" using assms(1) by (simp add: lru_def)
  ultimately obtain s2 where s2: "Touch a ?s = Some s2" "lru s2 (a # ys)" "contents s2 = contents s"
    "heap.more s2 = heap.more ?s"
    using Touch_contents [of ?s "a # ys" a c] by auto
  note m2 = gdal_more [OF s2(4)] settings_more [OF s2(4)]
  have c2: "cached s2 = at_position (cached s) k x y (Some a)" "bands_ok s2" "layout_of s2 = layout_of s"
    using cached_bands [OF m2(6)] m by simp_all
  have "AdoptBlock drv k x y a s = Some (CE_None, s2)"
    using i assms(8,11) table_slot [OF assms(8,9,10)] m(1) s2(1) by (simp add: AdoptBlock_def)
  moreover have "next_address s2 = next_address s" using m2(1) by simp
  then have "tables_ok s2 (insert a (set ys))"
    using tables_ok_stored [OF assms(2,11) c2(1,2) s2(3) _ assms(3-7)] by simp
  ultimately show ?thesis using s2 c2 m2 by (intro exI [of _ s2]) (simp add: cache_ok_def)
qed

lemma read_block_contents:
  assumes "cache_ok s xs" and "contents s a = Some c" and "pData c = Some d"
    and "IReadBlock drv k x y d (world s) = (e, d', w')"
  shows "\<exists>s'. read_block drv k x y a s = Some (e, s') \<and> cache_ok s' xs \<and>
    contents s' = (contents s)(a \<mapsto> c\<lparr>pData := Some d'\<rparr>) \<and> bands s' = bands s \<and> world s' = w' \<and>
    nCacheUsed s' = nCacheUsed s \<and> settings s' = settings s"
proof -
  obtain b where b: "block_at a s = Some b" "unlinked b = c" using contents_block [OF assms(2)] .
  have d: "pData b = Some d" using b(2) assms(3) by auto
  let ?s = "s\<lparr>world := w'\<rparr>"
  have "cache_ok ?s xs" "contents ?s a = Some c"
    using assms(1,2) tables_ok_cong [of s "set xs" ?s] by (simp_all add: cache_ok_def)
  then obtain s2 where s2: "set_block a (\<lambda>b. b\<lparr>pData := Some d'\<rparr>) ?s = Some s2" "cache_ok s2 xs"
    "contents s2 = (contents s)(a \<mapsto> c\<lparr>pData := Some d'\<rparr>)" "heap.more s2 = heap.more ?s"
    using set_block_tables [of ?s xs a c "\<lambda>b. b\<lparr>pData := Some d'\<rparr>"] by (auto simp: unlinked_def)
  note m2 = gdal_more [OF s2(4)] settings_more [OF s2(4)]
  have "read_block drv k x y a s = Some (e, s2)" using b(1) d assms(4) s2(1) by (simp add: read_block_def Let_def)
  then show ?thesis using s2 m2 by (intro exI [of _ s2]) simp
qed

section \<open>Loading a block\<close>

definition fresh_block :: "band \<Rightarrow> nat \<Rightarrow> int \<Rightarrow> int \<Rightarrow> 'd block" where
  "fresh_block B k x y = (new_block (nDataTypeBits B) k (GetBlockSize B) x y)\<lparr>nLockCount := 1\<rparr>"

lemma fresh_block_fields [simp]:
  "nLockCount (fresh_block B k x y) = 1" "poBand (fresh_block B k x y) = Some k" "nXOff (fresh_block B k x y) = x"
  "nYOff (fresh_block B k x y) = y" "pData (fresh_block B k x y) = None" "bDirty (fresh_block B k x y) = False"
  by (simp_all add: fresh_block_def new_block_def)

text \<open>The buffer as it is after the driver was asked for the block, or was not.\<close>

definition fetched :: "('d, 'w) driver \<Rightarrow> nat \<Rightarrow> int \<Rightarrow> int \<Rightarrow> bool \<Rightarrow> 'd \<Rightarrow> 'w \<Rightarrow> CPLErr \<times> 'd \<times> 'w" where
  "fetched drv k x y j d w = (if j then (CE_None, d, w) else IReadBlock drv k x y d w)"

text \<open>
  What loading the block \<open>c\<close> at the address \<open>a\<close> does: its buffer is allocated, unlocked blocks
  are evicted to make room, and the driver fills the buffer, or fails.
\<close>

definition load_failed :: "('d, 'w) driver \<Rightarrow> ('d, 'w) gdal \<Rightarrow> addr list \<Rightarrow> ('d, 'w) gdal \<Rightarrow> addr list \<Rightarrow> bool" where
  "load_failed drv s xs s' ys =
     (ys = xs \<and> contents s' = contents s \<and> cached s' = cached s \<and> world s' = world s \<and> nCacheUsed s' = nCacheUsed s)"

definition room_made :: "('d, 'w) driver \<Rightarrow> addr \<Rightarrow> 'd block \<Rightarrow> 'd \<Rightarrow> ('d, 'w) gdal \<Rightarrow> addr list \<Rightarrow> ('d, 'w) gdal \<Rightarrow> addr list \<Rightarrow> bool" where
  "room_made drv a c d s xs s1 ys =
     (\<exists>s0. counted a c d s s0 \<and> cache_ok s0 xs \<and> evictions drv s0 xs s1 ys \<and> cache_ok s1 ys)"

definition load_done :: "addr \<Rightarrow> 'd block \<Rightarrow> 'd \<Rightarrow> 'w \<Rightarrow> ('d, 'w) gdal \<Rightarrow> addr list \<Rightarrow> ('d, 'w) gdal \<Rightarrow> addr list \<Rightarrow> bool" where
  "load_done a c d' w' s1 ys s' zs =
     (zs = a # ys \<and> contents s' = (contents s1)(a \<mapsto> c\<lparr>pData := Some d'\<rparr>) \<and> world s' = w' \<and>
      cached s' = at_position (cached s1) (the (poBand c)) (nXOff c) (nYOff c) (Some a) \<and>
      nCacheUsed s' = nCacheUsed s1)"

definition load_undone :: "addr \<Rightarrow> 'd block \<Rightarrow> 'w \<Rightarrow> ('d, 'w) gdal \<Rightarrow> addr list \<Rightarrow> ('d, 'w) gdal \<Rightarrow> addr list \<Rightarrow> bool" where
  "load_undone a c w' s1 ys s' zs =
     (zs = ys \<and> contents s' = (contents s1)(a := None) \<and> world s' = w' \<and> cached s' = cached s1 \<and>
      nCacheUsed s' = to_i32 (nCacheUsed s1 - size_freed c))"

lemma load_block_fresh:
  assumes "cache_ok s xs" and "bands s k = Some B"
  shows "\<exists>s1. (do { (a, s) \<leftarrow> GDALRasterBlock k x y s; s \<leftarrow> AddLock a s; Some (a, s) }) = Some (next_address s, s1) \<and>
    cache_ok s1 xs \<and> contents s1 = (contents s)(next_address s \<mapsto> fresh_block B k x y) \<and> bands s1 = bands s \<and>
    world s1 = world s \<and> nCacheUsed s1 = nCacheUsed s \<and> contents s (next_address s) = None \<and> next_address s \<notin> set xs"
proof -
  let ?a = "next_address s" and ?c = "new_block (nDataTypeBits B) k (GetBlockSize B) x y :: 'a block"
  have l: "lru s xs" and t: "tables_ok s (set xs)" using assms(1) by (simp_all add: cache_ok_def)
  obtain s1 where s1: "GDALRasterBlock k x y s = Some (?a, s1)" "lru s1 xs" "tables_ok s1 (set xs)"
    "contents s1 = (contents s)(?a \<mapsto> ?c)" "bands s1 = bands s" "world s1 = world s" "nCacheUsed s1 = nCacheUsed s"
    "contents s ?a = None"
    using new_block_contents [OF l t assms(2) refl] by blast
  have "?a \<notin> set xs"
    using t s1(8) unfolding tables_ok_def by (metis not_None_eq tables_okD(3) t)
  moreover have "contents s1 ?a = Some ?c" by (simp add: s1(4))
  then obtain s2 where s2: "AddLock ?a s1 = Some s2" "contents s2 = (contents s1)(?a \<mapsto> fresh_block B k x y)"
    "lru s2 xs" "heap.more s2 = heap.more s1"
    using set_block_contents [of s1 ?a ?c "\<lambda>b. b\<lparr>nLockCount := nLockCount b + 1\<rparr>"] s1(2)
    by (auto simp: AddLock_def unlinked_def fresh_block_def new_block_def)
  note m2 = gdal_more [OF s2(4)]
  moreover have "tables_ok s2 (set xs)"
    by (rule tables_ok_other [OF s1(3) s2(2)]) (use calculation s1(4) m2 in auto)
  ultimately show ?thesis using s1 s2 by (intro exI [of _ s2]) (simp add: cache_ok_def)
qed

definition load_result :: "('d, 'w) driver \<Rightarrow> nat \<Rightarrow> int \<Rightarrow> int \<Rightarrow> bool \<Rightarrow> band \<Rightarrow> ('d, 'w) gdal \<Rightarrow> addr list \<Rightarrow>
    addr option \<Rightarrow> ('d, 'w) gdal \<Rightarrow> addr list \<Rightarrow> bool" where
  "load_result drv k x y j B s xs p s' ys' =
     (let a = next_address s; c = fresh_block B k x y in
      case VSIMalloc drv (world s) (size_in_bytes c) of
        None \<Rightarrow> p = None \<and> load_failed drv s xs s' ys'
      | Some d \<Rightarrow> \<exists>s1 ys e d' w'. room_made drv a c d s xs s1 ys \<and> fetched drv k x y j d (world s1) = (e, d', w') \<and>
          (if e = CE_None then p = Some a \<and> load_done a c d' w' s1 ys s' ys'
           else p = None \<and> load_undone a c w' s1 ys s' ys'))"

lemma drop_and_delete_contents:
  assumes "lru s xs" and "contents s a = Some c" and "pData c = None"
  shows "\<exists>s'. drop_and_delete a s = Some (None, s') \<and> lru s' (removeAll a xs) \<and> contents s' = (contents s)(a := None) \<and>
    bands s' = bands s \<and> world s' = world s \<and> nCacheUsed s' = nCacheUsed s \<and> next_address s' = next_address s"
proof -
  obtain s1 where s1: "DropLock a s = Some s1" "contents s1 = (contents s)(a \<mapsto> c\<lparr>nLockCount := nLockCount c - 1\<rparr>)"
    "lru s1 xs" "heap.more s1 = heap.more s"
    using set_block_contents [OF assms(2), of "\<lambda>b. b\<lparr>nLockCount := nLockCount b - 1\<rparr>"] assms(1)
    by (auto simp: DropLock_def unlinked_def)
  note m1 = gdal_more [OF s1(4)]
  have "contents s1 a = Some (c\<lparr>nLockCount := nLockCount c - 1\<rparr>)" by (simp add: s1(2))
  from delete_block_contents [OF s1(3) this] obtain s2 where "delete_block a s1 = Some s2" "lru s2 (removeAll a xs)"
    "contents s2 = (contents s1)(a := None)" "bands s2 = bands s1" "world s2 = world s1" "nCacheUsed s2 = nCacheUsed s1"
    "settings s2 = settings s1"
    using assms(3) by auto
  then show ?thesis using s1 m1 by (intro exI [of _ s2]) (simp add: drop_and_delete_def settings_def)
qed

lemma DropLock_tables:
  assumes "cache_ok s xs" and "contents s a = Some c"
  shows "\<exists>s'. DropLock a s = Some s' \<and> cache_ok s' xs \<and>
    contents s' = (contents s)(a \<mapsto> c\<lparr>nLockCount := nLockCount c - 1\<rparr>) \<and> heap.more s' = heap.more s"
  unfolding DropLock_def by (rule set_block_tables [OF assms]) (simp_all add: unlinked_def)

lemma load_block_starts:
  assumes "cache_ok s xs" and "bands s k = Some B" and "a = next_address s"
  obtains s1 s2 where "GDALRasterBlock k x y s = Some (a, s1)" "AddLock a s1 = Some s2" "cache_ok s2 xs"
    "contents s2 = (contents s)(a \<mapsto> fresh_block B k x y)" "bands s2 = bands s" "world s2 = world s"
    "nCacheUsed s2 = nCacheUsed s" "contents s a = None" "a \<notin> set xs"
  using load_block_fresh [OF assms(1,2), of x y] assms(3) by (auto simp: bind_eq_Some_conv)

lemma load_block_no_memory:
  fixes s :: "('d, 'w) gdal"
  assumes "cache_ok s xs" and "bands s k = Some B"
    and "VSIMalloc drv (world s) (size_in_bytes (fresh_block B k x y :: 'd block)) = None"
  shows "\<exists>s'. load_block drv k x y j s = Some (None, s') \<and> cache_ok s' xs \<and> layout_of s' = layout_of s \<and>
    load_failed drv s xs s' xs"
proof -
  let ?a = "next_address s" and ?c = "fresh_block B k x y :: 'd block"
  obtain s1 s2 where s2: "GDALRasterBlock k x y s = Some (?a, s1)" "AddLock ?a s1 = Some s2" "cache_ok s2 xs"
    "contents s2 = (contents s)(?a \<mapsto> ?c)" "bands s2 = bands s" "world s2 = world s"
    "nCacheUsed s2 = nCacheUsed s" "contents s ?a = None" "?a \<notin> set xs"
    using load_block_starts [OF assms(1,2) refl, of x y] by metis
  have c2: "contents s2 ?a = Some ?c" by (simp add: s2(4))
  obtain s3 where s3: "Internalize drv ?a s2 = Some (CE_Failure, s3)" "cache_ok s3 xs" "contents s3 = contents s2"
    "bands s3 = bands s2" "world s3 = world s2" "nCacheUsed s3 = nCacheUsed s2"
    using Internalize_none [OF s2(3) c2] s2(6) assms(3) by metis
  have l3: "lru s3 xs" and t3: "tables_ok s3 (set xs)" and c3: "contents s3 ?a = Some ?c"
    using s3(2,3) c2 by (simp_all add: cache_ok_def)
  obtain s4 where s4: "drop_and_delete ?a s3 = Some (None, s4)" "lru s4 (removeAll ?a xs)"
    "contents s4 = (contents s3)(?a := None)" "bands s4 = bands s3" "world s4 = world s3"
    "nCacheUsed s4 = nCacheUsed s3" "next_address s4 = next_address s3"
    using drop_and_delete_contents [OF l3 c3] by auto
  have cs: "contents s4 = contents s" using s4(3) s3(3) s2(4,8) by (auto simp: fun_eq_iff)
  have "load_block drv k x y j s = Some (None, s4)" using s2(1,2) s3(1) s4(1) by (simp add: load_block_def)
  moreover have "tables_ok s4 (set xs)"
  proof -
    have eq: "cached s4 = cached s3" "bands_ok s4 = bands_ok s3" using cached_bands [of s4 s3] s4(4) by simp_all
    have "\<exists>c. contents s4 a = Some c \<and> poBand c = Some k' \<and> nXOff c = x' \<and> nYOff c = y' \<and> pData c \<noteq> None"
      if "cached s3 k' x' y' = Some a" for k' x' y' a
    proof -
      have "a \<noteq> ?a" using tables_okD(1) [OF t3 that] s2(9) by auto
      then show ?thesis using tables_okD(3) [OF t3 that] s4(3) by simp
    qed
    then show ?thesis using t3 s4(3,7) unfolding tables_ok_def eq by (auto split: if_splits)
  qed
  then have "cache_ok s4 xs" using s4(2) s2(9) by (simp add: cache_ok_def)
  moreover have "cached s4 = cached s" "layout_of s4 = layout_of s"
    using cached_bands [of s4 s] s4(4) s3(4) s2(5) by simp_all
  ultimately show ?thesis using cs s4(5,6) s3(5,6) s2(6,7) by (intro exI [of _ s4]) (simp add: load_failed_def)
qed

lemma evictions_cached:
  assumes "evictions drv s xs s' ys"
  shows "cached s' k x y = Some a \<Longrightarrow> cached s k x y = Some a"
  using assms
proof (induction rule: evictions.induct)
  case (evict s xs b s1 s' ys)
  then have "cached s1 k x y = Some a" by simp
  with evict.hyps(2) show ?case by (auto simp: evicted_def flushed_def split: if_splits)
qed simp

lemma same_layout:
  assumes "layout_of s' = layout_of s" and "bands s k = Some B" and "table_ok B" and "bands_ok s'"
  obtains B' where "bands s' k = Some B'" "table_ok B'" "\<And>x y. in_band B' x y = in_band B x y"
proof -
  have "layout_of s' k = layout_of s k" by (simp add: assms(1))
  then obtain B' where B': "bands s' k = Some B'"
    "B'\<lparr>papoBlocks := None, nBlockReads := 0\<rparr> = B\<lparr>papoBlocks := None, nBlockReads := 0\<rparr>" "papoBlocks B' \<noteq> None"
    using assms(2) initialised(2) [OF assms(3)] by (auto simp: layout_of_def split: option.splits)
  have "table_ok B'" using bands_okD [OF assms(4) B'(1)] B'(3) by simp
  moreover have "nBlocksPerRow B' = nBlocksPerRow B" "nBlocksPerColumn B' = nBlocksPerColumn B"
    using arg_cong [OF B'(2), of nBlocksPerRow] arg_cong [OF B'(2), of nBlocksPerColumn] by simp_all
  then have "in_band B' x y = in_band B x y" for x y by (simp add: in_band_def)
  ultimately show thesis using that B'(1) by simp
qed

lemma same_layout_fresh_block:
  assumes "layout_of s' = layout_of s" and "bands s k = Some B" and "bands s' k = Some B'"
  shows "fresh_block B' k x y = fresh_block B k x y"
proof -
  have "layout_of s' k = layout_of s k" by (simp add: assms(1))
  then have e: "B'\<lparr>papoBlocks := None, nBlockReads := 0\<rparr> = B\<lparr>papoBlocks := None, nBlockReads := 0\<rparr>"
    using assms(2,3) by (simp add: layout_of_def)
  have "nBlockXSize B' = nBlockXSize B" "nBlockYSize B' = nBlockYSize B" "nDataTypeBits B' = nDataTypeBits B"
    using arg_cong [OF e, of nBlockXSize] arg_cong [OF e, of nBlockYSize] arg_cong [OF e, of nDataTypeBits] by simp_all
  then show ?thesis by (simp add: fresh_block_def GetBlockSize_def)
qed

lemma count_read_frame:
  assumes "cache_ok s xs" and "bands s k = Some B"
  shows "\<exists>s'. count_read k s = Some s' \<and> cache_ok s' xs \<and> contents s' = contents s \<and> cached s' = cached s \<and>
    layout_of s' = layout_of s \<and> world s' = world s \<and> nCacheUsed s' = nCacheUsed s"
proof -
  let ?B = "B\<lparr>nBlockReads := nBlockReads B + 1\<rparr>"
  let ?s = "s\<lparr>bands := (bands s)(k \<mapsto> ?B)\<rparr>"
  have "get_slot ?B x y = get_slot B x y" "in_band ?B x y = in_band B x y" for x y
    by (auto simp: get_slot_def in_band_def block_index_def sub_index_def split: option.split block_array.split)
  then have c: "cached ?s = cached s" using assms(2) by (auto simp: cached_def fun_eq_iff)
  have "table_ok ?B = table_ok B"
    unfolding table_ok_def by (simp split: option.split block_array.split)
  then have b: "bands_ok ?s" using assms by (auto simp: bands_ok_def cache_ok_def tables_ok_def)
  have "layout_of ?s = layout_of s" using assms(2) by (auto simp: layout_of_def fun_eq_iff)
  moreover have "cache_ok ?s xs" using assms(1) b c by (simp add: cache_ok_def tables_ok_def)
  ultimately show ?thesis using c assms(2) by (intro exI [of _ ?s]) (simp add: count_read_def)
qed

text \<open>The block is in its slot and in the list; its buffer is the allocated one.\<close>

definition adopted :: "addr \<Rightarrow> 'd block \<Rightarrow> 'd \<Rightarrow> nat \<Rightarrow> int \<Rightarrow> int \<Rightarrow> ('d, 'w) gdal \<Rightarrow> addr list \<Rightarrow> ('d, 'w) gdal \<Rightarrow> bool" where
  "adopted a c d k x y s1 ys s' =
     (cache_ok s' (a # ys) \<and> contents s' = (contents s1)(a \<mapsto> c\<lparr>pData := Some d\<rparr>) \<and>
      cached s' = at_position (cached s1) k x y (Some a) \<and> cached s1 k x y = None \<and>
      nCacheUsed s' = nCacheUsed s1 \<and> world s' = world s1 \<and> a \<notin> set ys)"

lemma load_block_adopts:
  fixes s :: "('d, 'w) gdal"
  assumes "cache_ok s xs" and "bands s k = Some B" and "table_ok B" and "in_band B x y" and "cached s k x y = None"
    and "c = fresh_block B k x y" and "a = next_address s" and "VSIMalloc drv (world s) (size_in_bytes c) = Some d"
  shows "\<exists>t1 t2 t3 s1 ys s'. GDALRasterBlock k x y s = Some (a, t1) \<and> AddLock a t1 = Some t2 \<and>
    Internalize drv a t2 = Some (CE_None, t3) \<and> AdoptBlock drv k x y a t3 = Some (CE_None, s') \<and>
    room_made drv a c d s xs s1 ys \<and> adopted a c d k x y s1 ys s' \<and> layout_of s' = layout_of s"
proof -
  obtain t1 t2 where t2: "GDALRasterBlock k x y s = Some (a, t1)" "AddLock a t1 = Some t2" "cache_ok t2 xs"
    "contents t2 = (contents s)(a \<mapsto> c)" "bands t2 = bands s" "world t2 = world s" "nCacheUsed t2 = nCacheUsed s"
    "contents s a = None" "a \<notin> set xs"
    using load_block_starts [OF assms(1,2,7), of x y] assms(6) by metis
  have c2: "contents t2 a = Some c" "pData c = None" by (simp_all add: t2(4) assms(6))
  have "VSIMalloc drv (world t2) (size_in_bytes c) = Some d" using assms(8) t2(6) by simp
  then obtain s0 s1 t3 ys where i: "Internalize drv a t2 = Some (CE_None, t3)" "counted a c d t2 s0" "cache_ok s0 xs"
    "evictions drv s0 xs s1 ys" "cache_ok s1 ys" "lru t3 (a # ys)" "contents t3 = (contents s1)(a \<mapsto> c\<lparr>pData := Some d\<rparr>)"
    "bands t3 = bands s1" "world t3 = world s1" "nCacheUsed t3 = nCacheUsed s1" "settings t3 = settings s1"
    using Internalize_some [OF t2(3) c2(1) t2(9) c2(2)] by blast
  have s0: "counted a c d s s0" using i(2) t2(4-7) by (simp add: counted_def)
  note ev = evictions_frame [OF i(4)]
  have ys: "a \<notin> set ys" using ev t2(9) by auto
  have "contents s1 a = contents s0 a" using ev t2(9) by blast
  then have live: "contents s1 a \<noteq> None" using s0 by (simp add: counted_def)
  have "next_address t3 = next_address s1" using i(11) by (simp add: settings_def)
  with i(5) have t3: "tables_ok t3 (set ys)"
    using tables_ok_other [OF _ i(7) ys live i(8)] by (simp add: cache_ok_def)
  have b0: "bands s0 = bands s" using s0 by (simp add: counted_def)
  have "cached s1 k x y = None"
    using evictions_cached [OF i(4)] cached_bands [OF b0] assms(5) by (metis not_None_eq)
  then have none: "cached t3 k x y = None" using cached_bands [OF i(8)] by simp
  have lay: "layout_of t3 = layout_of s" using cached_bands [OF i(8)] ev cached_bands [OF b0] by simp
  have "bands_ok t3" using t3 by (simp add: tables_ok_def)
  then obtain B' where B': "bands t3 k = Some B'" "table_ok B'" "in_band B' x y"
    using same_layout [OF lay assms(2,3)] assms(4) by metis
  have c3: "contents t3 a = Some (c\<lparr>pData := Some d\<rparr>)" by (simp add: i(7))
  obtain s' where s': "AdoptBlock drv k x y a t3 = Some (CE_None, s')" "cache_ok s' (a # ys)" "contents s' = contents t3"
    "cached s' = at_position (cached t3) k x y (Some a)" "layout_of s' = layout_of t3" "nCacheUsed s' = nCacheUsed t3"
    "world s' = world t3"
    using AdoptBlock_empty [OF i(6) t3 c3 _ _ _ _ B' none, of drv] by (auto simp: assms(6))
  have "adopted a c d k x y s1 ys s'"
    using s' i(7-10) ys none cached_bands [OF i(8)] by (simp add: adopted_def)
  moreover have "room_made drv a c d s xs s1 ys" using s0 i(3-5) unfolding room_made_def by blast
  ultimately show ?thesis using t2(1,2) i(1) s'(1,5) lay by fastforce
qed

text \<open>After a failed read the block is dropped again.\<close>

lemma unread_block:
  assumes "adopted a c d k x y s1 ys s" and "c = fresh_block B k x y" and "cache_ok t (a # ys)"
    and "contents t = (contents s)(a \<mapsto> c\<lparr>pData := Some d'\<rparr>)" and "bands t = bands s" and "nCacheUsed t = nCacheUsed s"
  shows "\<exists>s'. (do { s \<leftarrow> DropLock a t; (_, s) \<leftarrow> FlushBlock drv k x y s; Some (None :: addr option, s) }) = Some (None, s') \<and>
    cache_ok s' ys \<and> layout_of s' = layout_of t \<and> load_undone a c (world t) s1 ys s' ys"
proof -
  let ?c = "c\<lparr>pData := Some d', nLockCount := nLockCount c - 1\<rparr>"
  have "contents t a = Some (c\<lparr>pData := Some d'\<rparr>)" by (simp add: assms(4))
  then obtain t1 where t1: "DropLock a t = Some t1" "cache_ok t1 (a # ys)" "contents t1 = (contents t)(a \<mapsto> ?c)"
    "heap.more t1 = heap.more t"
    using DropLock_tables [OF assms(3)] by fastforce
  note m1 = gdal_more [OF t1(4)]
  have l1: "lru t1 (a # ys)" and b1: "tables_ok t1 (set (a # ys))" using t1(2) by (simp_all add: cache_ok_def)
  have e1: "cached t1 = cached s" "layout_of t1 = layout_of t"
    using cached_bands [of t1 s] cached_bands [of t1 t] m1(6) assms(5) by simp_all
  have a1: "cached t1 k x y = Some a" using assms(1) by (simp add: e1 adopted_def)
  have c1: "contents t1 a = Some ?c" "poBand ?c = Some k" by (simp_all add: t1(3) assms(2))
  have ys: "a \<notin> set ys" using assms(1) by (simp add: adopted_def)
  have clean: "written drv k ?c w = (CE_None, w)" for w by (simp add: written_def assms(2))
  obtain t2 where t2: "FlushBlock drv k x y t1 = Some (fst (written drv k ?c (world t1)), t2)"
    "lru t2 (removeAll a (a # ys))" "flushed drv k x y a ?c t1 t2"
    using FlushBlock_cached [OF l1 tables_okD(2) [OF b1 a1] a1 c1] by blast
  have "tables_ok t2 (set (a # ys) - {a})" by (rule tables_ok_flushed [OF b1 a1 t2(3)])
  moreover have "set (a # ys) - {a} = set ys" using ys by auto
  ultimately have "cache_ok t2 ys" using t2(2) ys by (simp add: cache_ok_def)
  moreover have "size_freed ?c = size_freed c" by (simp add: size_freed_def)
  then have "load_undone a c (world t) s1 ys t2 ys"
    using t2(3) assms(1,4,6) t1(3) m1 e1 clean
    by (auto simp: load_undone_def flushed_def adopted_def fun_eq_iff)
  moreover have "layout_of t2 = layout_of t" using t2(3) e1 by (simp add: flushed_def)
  ultimately show ?thesis using t1(1) t2(1) by (intro exI [of _ t2]) simp
qed

lemma load_block_result:
  fixes s :: "('d, 'w) gdal"
  assumes "cache_ok s xs" and "bands s k = Some B" and "table_ok B" and "in_band B x y" and "cached s k x y = None"
  shows "\<exists>p s' ys. load_block drv k x y j s = Some (p, s') \<and> cache_ok s' ys \<and> layout_of s' = layout_of s \<and>
    load_result drv k x y j B s xs p s' ys"
proof (cases "VSIMalloc drv (world s) (size_in_bytes (fresh_block B k x y :: 'd block))")
  case None
  then show ?thesis
    using load_block_no_memory [OF assms(1,2) None, of j] by (auto simp: load_result_def Let_def)
next
  case (Some d)
  let ?a = "next_address s" and ?c = "fresh_block B k x y :: 'd block"
  obtain t1 t2 t3 s1 ys s4 where l: "GDALRasterBlock k x y s = Some (?a, t1)" "AddLock ?a t1 = Some t2"
    "Internalize drv ?a t2 = Some (CE_None, t3)" "AdoptBlock drv k x y ?a t3 = Some (CE_None, s4)"
    "room_made drv ?a ?c d s xs s1 ys" "adopted ?a ?c d k x y s1 ys s4" "layout_of s4 = layout_of s"
    using load_block_adopts [OF assms refl refl Some] by metis
  have s4: "cache_ok s4 (?a # ys)" "contents s4 = (contents s1)(?a \<mapsto> ?c\<lparr>pData := Some d\<rparr>)" "world s4 = world s1"
    "cached s4 = at_position (cached s1) k x y (Some ?a)" "nCacheUsed s4 = nCacheUsed s1"
    using l(6) by (simp_all add: adopted_def)
  obtain e d' w' where f: "fetched drv k x y j d (world s1) = (e, d', w')" using prod_cases3 by blast
  show ?thesis
  proof (cases j)
    case True
    then have "e = CE_None" "d' = d" "w' = world s1" using f by (simp_all add: fetched_def)
    then have "load_result drv k x y j B s xs (Some ?a) s4 (?a # ys)"
      using Some l(5) f s4 by (auto simp: load_result_def Let_def load_done_def)
    then show ?thesis using True l(1-4,7) s4(1) by (auto simp: load_block_def)
  next
    case False
    then have r: "IReadBlock drv k x y d (world s4) = (e, d', w')" using f s4(3) by (simp add: fetched_def)
    have c4: "contents s4 ?a = Some (?c\<lparr>pData := Some d\<rparr>)" by (simp add: s4(2))
    obtain s5 where s5: "read_block drv k x y ?a s4 = Some (e, s5)" "cache_ok s5 (?a # ys)"
      "contents s5 = (contents s4)(?a \<mapsto> ?c\<lparr>pData := Some d'\<rparr>)" "bands s5 = bands s4" "world s5 = w'"
      "nCacheUsed s5 = nCacheUsed s4"
      using read_block_contents [OF s4(1) c4 _ r] by auto
    have e5: "cached s5 = cached s4" "layout_of s5 = layout_of s" using cached_bands [OF s5(4)] l(7) by simp_all
    show ?thesis
    proof (cases "e = CE_None")
      case True
      have "bands_ok s4" using s4(1) by (simp add: cache_ok_def tables_ok_def)
      then obtain B' where "bands s5 k = Some B'" using same_layout [OF l(7) assms(2,3)] s5(4) by metis
      then obtain s6 where s6: "count_read k s5 = Some s6" "cache_ok s6 (?a # ys)" "contents s6 = contents s5"
        "cached s6 = cached s5" "layout_of s6 = layout_of s5" "world s6 = world s5" "nCacheUsed s6 = nCacheUsed s5"
        using count_read_frame [OF s5(2)] by blast
      have "load_done ?a ?c d' w' s1 ys s6 (?a # ys)" using s6 s5 s4 e5 by (simp add: load_done_def)
      then have "load_result drv k x y j B s xs (Some ?a) s6 (?a # ys)"
        using Some l(5) f True by (auto simp: load_result_def Let_def)
      moreover have "load_block drv k x y j s = Some (Some ?a, s6)"
        using False True l(1-4) s5(1) s6(1) by (simp add: load_block_def)
      ultimately show ?thesis using s6(2,5) e5(2) by auto
    next
      case fail: False
      have "contents s5 = (contents s4)(?a \<mapsto> ?c\<lparr>pData := Some d'\<rparr>)" by (rule s5(3))
      then obtain s6 where s6: "(do { s \<leftarrow> DropLock ?a s5; (_, s) \<leftarrow> FlushBlock drv k x y s; Some (None :: addr option, s) }) = Some (None, s6)"
        "cache_ok s6 ys" "layout_of s6 = layout_of s5" "load_undone ?a ?c (world s5) s1 ys s6 ys"
        using unread_block [OF l(6) refl s5(2) _ s5(4,6), of d' drv] by blast
      then have "load_result drv k x y j B s xs None s6 ys"
        using Some l(5) f fail s5(5) unfolding load_result_def Let_def
        by (simp del: fun_upd_apply) (intro exI [of _ s1] exI [of _ ys], auto)
      moreover have "load_block drv k x y j s = Some (None, s6)"
        using False fail l(1-4) s5(1) s6(1) by (simp add: load_block_def)
      ultimately show ?thesis using s6(2,3) e5(2) by auto
    qed
  qed
qed

section \<open>GetLockedBlockRef\<close>

text \<open>A block in the cache is locked and becomes the newest; another one is loaded.\<close>

definition hit :: "addr \<Rightarrow> ('d, 'w) gdal \<Rightarrow> addr list \<Rightarrow> ('d, 'w) gdal \<Rightarrow> addr list \<Rightarrow> bool" where
  "hit a s xs s' ys =
     (ys = a # removeAll a xs \<and>
      (\<exists>c. contents s a = Some c \<and> contents s' = (contents s)(a \<mapsto> c\<lparr>nLockCount := nLockCount c + 1\<rparr>)) \<and>
      cached s' = cached s \<and> world s' = world s \<and> nCacheUsed s' = nCacheUsed s)"

definition get_result :: "('d, 'w) driver \<Rightarrow> nat \<Rightarrow> int \<Rightarrow> int \<Rightarrow> bool \<Rightarrow> band \<Rightarrow> ('d, 'w) gdal \<Rightarrow> addr list \<Rightarrow>
    addr option \<Rightarrow> ('d, 'w) gdal \<Rightarrow> addr list \<Rightarrow> bool" where
  "get_result drv k x y j B s xs p s' ys =
     (case cached s k x y of
        Some a \<Rightarrow> p = Some a \<and> hit a s xs s' ys
      | None \<Rightarrow> load_result drv k x y j B s xs p s' ys)"

lemma SafeLockBlock_hit:
  assumes "cache_ok s xs" and "cached s k x y = Some a"
  shows "\<exists>s'. SafeLockBlock (Some a) s = Some (True, s') \<and> cache_ok s' (a # removeAll a xs) \<and>
    hit a s xs s' (a # removeAll a xs) \<and> layout_of s' = layout_of s"
proof -
  have l: "lru s xs" and t: "tables_ok s (set xs)" using assms(1) by (simp_all add: cache_ok_def)
  obtain c where c: "contents s a = Some c" using tables_okD(3) [OF t assms(2)] by blast
  obtain s' where s': "SafeLockBlock (Some a) s = Some (True, s')" "lru s' (a # removeAll a xs)"
    "contents s' = (contents s)(a \<mapsto> c\<lparr>nLockCount := nLockCount c + 1\<rparr>)" "heap.more s' = heap.more s"
    using SafeLockBlock_contents [OF l c] by blast
  note m = gdal_more [OF s'(4)]
  have eq: "cached s' = cached s" "bands_ok s' = bands_ok s" "layout_of s' = layout_of s"
    using cached_bands [OF m(6)] by simp_all
  have "\<exists>c. contents s' a' = Some c \<and> poBand c = Some k' \<and> nXOff c = x' \<and> nYOff c = y' \<and> pData c \<noteq> None"
    if "cached s k' x' y' = Some a'" for k' x' y' a'
    using tables_okD(3) [OF t that] c by (auto simp: s'(3))
  then have "tables_ok s' (set xs)"
    using t c m(1) unfolding tables_ok_def eq by (auto simp: s'(3))
  moreover have "set (a # removeAll a xs) = set xs" using tables_okD(1) [OF t assms(2)] by auto
  ultimately have "cache_ok s' (a # removeAll a xs)" using s'(2) by (simp add: cache_ok_def)
  then show ?thesis using s' c eq m by (intro exI [of _ s']) (auto simp: hit_def)
qed

lemma GetLockedBlockRef_result:
  assumes "cache_ok s xs" and "bands s k = Some B" and "table_ok B" and "in_band B x y"
  shows "\<exists>p s' ys. GetLockedBlockRef drv k x y j s = Some (p, s') \<and> cache_ok s' ys \<and> layout_of s' = layout_of s \<and>
    get_result drv k x y j B s xs p s' ys"
proof -
  have i: "init_block_info k s = Some (True, s)"
    using assms(2) initialised_band [OF assms(3)] by (simp add: init_block_info_def fun_upd_idem)
  have range: "\<not> (x < 0 \<or> x \<ge> nBlocksPerRow B)" "\<not> (y < 0 \<or> y \<ge> nBlocksPerColumn B)"
    using assms(4) by (auto simp: in_band_def)
  note slot = table_slot [OF assms(2-4)]
  show ?thesis
  proof (cases "cached s k x y")
    case (Some a)
    obtain s' where s': "SafeLockBlock (Some a) s = Some (True, s')" "cache_ok s' (a # removeAll a xs)"
      "hit a s xs s' (a # removeAll a xs)" "layout_of s' = layout_of s"
      using SafeLockBlock_hit [OF assms(1) Some] by blast
    have "GetLockedBlockRef drv k x y j s = Some (Some a, s')"
      using i range slot Some s'(1) assms(2) by (simp add: GetLockedBlockRef_def TryGetLockedBlockRef_def)
    then show ?thesis using Some s' by (auto simp: get_result_def)
  next
    case None
    have "TryGetLockedBlockRef k x y s = Some (None, s)"
      using i range slot None assms(2) by (simp add: TryGetLockedBlockRef_def SafeLockBlock_def)
    then have "GetLockedBlockRef drv k x y j s = load_block drv k x y j s"
      using i range assms(2) by (simp add: GetLockedBlockRef_def)
    then show ?thesis using load_block_result [OF assms None, of drv j] None by (simp add: get_result_def)
  qed
qed

end
