(* ===== verification/Block_Store.thy ===== *)
theory Block_Store
  imports Block_Access
begin

text \<open>
  The block cache in front of a driver.  The contract of a driver is the locale
  \<open>block_store\<close>: it stores blocks by position, reads them back and does not fail.  Under the
  contract the cache is transparent: what is seen at a position, in the cache or behind it,
  changes by writing to that position only.
\<close>

section \<open>The contract of a driver\<close>

text \<open>
  \<open>inside\<close> holds for the positions of a band, \<open>fits\<close> for the buffers a block of a band fills,
  and \<open>stored\<close> is the block the driver has at a position.
\<close>

record ('d, 'w) store =
  valid :: "'w \<Rightarrow> bool"
  inside :: "'w \<Rightarrow> nat \<Rightarrow> int \<Rightarrow> int \<Rightarrow> bool"
  fits :: "'w \<Rightarrow> nat \<Rightarrow> 'd \<Rightarrow> bool"
  stored :: "'w \<Rightarrow> nat \<Rightarrow> int \<Rightarrow> int \<Rightarrow> 'd"

definition same_shape :: "('d, 'w) store \<Rightarrow> 'w \<Rightarrow> 'w \<Rightarrow> bool" where
  "same_shape S w w' = (valid S w' \<and> inside S w' = inside S w \<and> fits S w' = fits S w)"

locale block_store =
  fixes drv :: "('d, 'w) driver" and S :: "('d, 'w) store"
  assumes reads: "valid S w \<Longrightarrow> inside S w k x y \<Longrightarrow> fits S w k d \<Longrightarrow>
      \<exists>w'. IReadBlock drv k x y d w = (CE_None, stored S w k x y, w') \<and> same_shape S w w' \<and> stored S w' = stored S w"
    and writes: "valid S w \<Longrightarrow> inside S w k x y \<Longrightarrow> fits S w k d \<Longrightarrow>
      \<exists>w'. IWriteBlock drv k x y (Some d) w = (CE_None, w') \<and> same_shape S w w' \<and> stored S w' k x y = d \<and>
        (\<forall>k' x' y'. inside S w k' x' y' \<longrightarrow> \<not> (k' = k \<and> x' = x \<and> y' = y) \<longrightarrow> stored S w' k' x' y' = stored S w k' x' y')"
    and stored_fits: "valid S w \<Longrightarrow> inside S w k x y \<Longrightarrow> fits S w k (stored S w k x y)"

section \<open>What is seen through the cache\<close>

definition block_data :: "('d, 'w) gdal \<Rightarrow> addr \<Rightarrow> 'd option" where
  "block_data s a = (case contents s a of None \<Rightarrow> None | Some c \<Rightarrow> pData c)"

definition seen :: "('d, 'w) store \<Rightarrow> ('d, 'w) gdal \<Rightarrow> nat \<Rightarrow> int \<Rightarrow> int \<Rightarrow> 'd option" where
  "seen S s k x y =
     (case cached s k x y of None \<Rightarrow> Some (stored S (world s) k x y) | Some a \<Rightarrow> block_data s a)"

text \<open>Cached buffers fit, and a clean one holds what the driver has.\<close>

definition coherent :: "('d, 'w) store \<Rightarrow> ('d, 'w) gdal \<Rightarrow> bool" where
  "coherent S s =
     (valid S (world s) \<and>
      (\<forall>k x y a c. cached s k x y = Some a \<longrightarrow> contents s a = Some c \<longrightarrow>
         inside S (world s) k x y \<and>
         (\<exists>d. pData c = Some d \<and> fits S (world s) k d \<and> (\<not> bDirty c \<longrightarrow> d = stored S (world s) k x y))))"

text \<open>The two states show the same blocks.\<close>

definition keeps :: "('d, 'w) store \<Rightarrow> ('d, 'w) gdal \<Rightarrow> ('d, 'w) gdal \<Rightarrow> bool" where
  "keeps S s s' =
     (coherent S s' \<and> same_shape S (world s) (world s') \<and>
      (\<forall>k x y. inside S (world s) k x y \<longrightarrow> seen S s' k x y = seen S s k x y))"

text \<open>The second state shows \<open>d\<close> at one position and the same blocks elsewhere.\<close>

definition replaced :: "('d, 'w) store \<Rightarrow> nat \<Rightarrow> int \<Rightarrow> int \<Rightarrow> 'd \<Rightarrow> ('d, 'w) gdal \<Rightarrow> ('d, 'w) gdal \<Rightarrow> bool" where
  "replaced S k x y d s s' =
     (coherent S s' \<and> same_shape S (world s) (world s') \<and>
      (\<forall>k' x' y'. inside S (world s) k' x' y' \<longrightarrow>
         seen S s' k' x' y' = (if k' = k \<and> x' = x \<and> y' = y then Some d else seen S s k' x' y')))"

lemma same_shape_refl: "valid S w \<Longrightarrow> same_shape S w w"
  by (simp add: same_shape_def)

lemma same_shape_trans: "same_shape S w w1 \<Longrightarrow> same_shape S w1 w2 \<Longrightarrow> same_shape S w w2"
  by (simp add: same_shape_def)

lemma coherentD:
  assumes "coherent S s" and "cached s k x y = Some a" and "contents s a = Some c"
  shows "valid S (world s)" "inside S (world s) k x y"
    "\<exists>d. pData c = Some d \<and> fits S (world s) k d \<and> (\<not> bDirty c \<longrightarrow> d = stored S (world s) k x y)"
  using assms unfolding coherent_def by blast+

lemma keeps_refl: "coherent S s \<Longrightarrow> keeps S s s"
  by (simp add: keeps_def coherent_def same_shape_refl)

lemma keeps_trans: "keeps S s s1 \<Longrightarrow> keeps S s1 s2 \<Longrightarrow> keeps S s s2"
  by (auto simp: keeps_def same_shape_def)

text \<open>States with the same tables, buffers and driver state.\<close>

lemma keeps_cong:
  assumes "coherent S s" and "cached s' = cached s" and "world s' = world s"
    and "\<And>k x y a. cached s k x y = Some a \<Longrightarrow>
      map_option (\<lambda>c. (pData c, bDirty c)) (contents s' a) = map_option (\<lambda>c. (pData c, bDirty c)) (contents s a)"
  shows "keeps S s s'"
proof -
  have same: "\<exists>c. contents s a = Some c \<and> pData c = pData c' \<and> bDirty c = bDirty c'"
    if "cached s k x y = Some a" "contents s' a = Some c'" for k x y a c'
    using assms(4) [OF that(1)] that(2) by (cases "contents s a") auto
  have "seen S s' k x y = seen S s k x y" for k x y
  proof (cases "cached s k x y")
    case (Some a)
    from assms(4) [OF Some] have "block_data s' a = block_data s a"
      by (auto simp: block_data_def split: option.splits)
    then show ?thesis using Some by (simp add: seen_def assms(2))
  qed (simp add: seen_def assms(2,3))
  moreover have "coherent S s'"
    unfolding coherent_def assms(2,3)
  proof (intro conjI allI impI)
    show "valid S (world s)" using assms(1) by (simp add: coherent_def)
    fix k x y a c'
    assume a: "cached s k x y = Some a" and c': "contents s' a = Some c'"
    obtain c where c: "contents s a = Some c" "pData c = pData c'" "bDirty c = bDirty c'"
      using same [OF a c'] by blast
    show "inside S (world s) k x y" using coherentD(2) [OF assms(1) a c(1)] .
    show "\<exists>d. pData c' = Some d \<and> fits S (world s) k d \<and> (\<not> bDirty c' \<longrightarrow> d = stored S (world s) k x y)"
      using coherentD(3) [OF assms(1) a c(1)] c(2,3) by simp
  qed
  ultimately show ?thesis using assms(1,3) by (simp add: keeps_def coherent_def same_shape_refl)
qed

section \<open>The cache under the contract\<close>

context block_store
begin

text \<open>What the driver has after a block was flushed: what was seen at its position.\<close>

lemma written_seen:
  assumes "coherent S s" and "cached s k x y = Some a" and "contents s a = Some c" and "nXOff c = x" and "nYOff c = y"
  shows "\<exists>w' d. written drv k c (world s) = (CE_None, w') \<and> same_shape S (world s) w' \<and> pData c = Some d \<and>
    stored S w' k x y = d \<and>
    (\<forall>k' x' y'. inside S (world s) k' x' y' \<longrightarrow> \<not> (k' = k \<and> x' = x \<and> y' = y) \<longrightarrow>
       stored S w' k' x' y' = stored S (world s) k' x' y')"
proof -
  obtain d where d: "pData c = Some d" "fits S (world s) k d" "\<not> bDirty c \<longrightarrow> d = stored S (world s) k x y"
    using coherentD(3) [OF assms(1-3)] by blast
  show ?thesis
  proof (cases "bDirty c")
    case True
    then show ?thesis
      using writes [OF coherentD(1,2) [OF assms(1-3)] d(2)] d(1) assms(4,5) by (auto simp: written_def)
  next
    case False
    then show ?thesis
      using d same_shape_refl [OF coherentD(1) [OF assms(1-3)]] by (auto simp: written_def)
  qed
qed

lemma flushed_keeps:
  assumes "coherent S s" and "tables_ok s T" and "cached s k x y = Some a" and "contents s a = Some c"
    and "nXOff c = x" and "nYOff c = y" and "flushed drv k x y a c s s'"
  shows "keeps S s s'" and "Some (stored S (world s') k x y) = seen S s k x y" and
    "fst (written drv k c (world s)) = CE_None"
proof -
  obtain w' d where w': "written drv k c (world s) = (CE_None, w')" "same_shape S (world s) w'" "pData c = Some d"
    "stored S w' k x y = d"
    "\<And>k' x' y'. inside S (world s) k' x' y' \<Longrightarrow> \<not> (k' = k \<and> x' = x \<and> y' = y) \<Longrightarrow>
       stored S w' k' x' y' = stored S (world s) k' x' y'"
    using written_seen [OF assms(1,3-6)] by blast
  have f: "cached s' = at_position (cached s) k x y None" "contents s' = (contents s)(a := None)" "world s' = w'"
    using assms(7) w'(1) by (simp_all add: flushed_def)
  have d: "seen S s k x y = Some d" using assms(3,4) w'(3) by (simp add: seen_def block_data_def)
  have other: "a' \<noteq> a" if "cached s k' x' y' = Some a'" "\<not> (k' = k \<and> x' = x \<and> y' = y)" for k' x' y' a'
    using tables_okD(3) [OF assms(2) that(1)] tables_okD(3) [OF assms(2,3)] that(2) by auto
  have v: "valid S w'" "inside S w' = inside S (world s)" "fits S w' = fits S (world s)"
    using w'(2) by (simp_all add: same_shape_def)
  have "coherent S s'"
    unfolding coherent_def f(3) v(2,3)
  proof (intro conjI allI impI)
    show "valid S w'" by (rule v(1))
    fix k' x' y' a' c'
    assume a': "cached s' k' x' y' = Some a'" and c': "contents s' a' = Some c'"
    then have old: "cached s k' x' y' = Some a'" "\<not> (k' = k \<and> x' = x \<and> y' = y)" "contents s a' = Some c'"
      by (auto simp: f split: if_splits)
    note co = coherentD [OF assms(1) old(1,3)]
    show "inside S (world s) k' x' y'" by (rule co(2))
    show "\<exists>d. pData c' = Some d \<and> fits S (world s) k' d \<and> (\<not> bDirty c' \<longrightarrow> d = stored S w' k' x' y')"
      using co(3) w'(5) [OF co(2) old(2)] by simp
  qed
  moreover have "seen S s' k' x' y' = seen S s k' x' y'" if "inside S (world s) k' x' y'" for k' x' y'
  proof (cases "k' = k \<and> x' = x \<and> y' = y")
    case True
    then show ?thesis using d w'(4) by (simp add: seen_def f)
  next
    case False
    then show ?thesis
      using w'(5) [OF that] other [of k' x' y'] by (auto simp: seen_def f block_data_def split: option.splits)
  qed
  ultimately show "keeps S s s'" using w'(2) by (simp add: keeps_def f(3))
  show "Some (stored S (world s') k x y) = seen S s k x y" by (simp add: f(3) w'(4) d)
  show "fst (written drv k c (world s)) = CE_None" by (simp add: w'(1))
qed

lemma evicted_keeps:
  assumes "evicted drv a s s'" and "coherent S s" and "tables_ok s T"
  shows "keeps S s s'"
  using assms(1) flushed_keeps(1) [OF assms(2,3)] by (auto simp: evicted_def)

lemma evictions_keeps:
  assumes "evictions drv s xs s' ys" and "coherent S s" and "cache_ok s xs"
  shows "keeps S s s'"
  using assms
proof (induction rule: evictions.induct)
  case (stop s xs)
  then show ?case by (simp add: keeps_refl)
next
  case (evict s xs a s1 s' ys)
  then have k1: "keeps S s s1" using evicted_keeps by (auto simp: cache_ok_def)
  then have "keeps S s1 s'" using evict.IH evict.hyps(3) by (simp add: keeps_def)
  with k1 show ?case by (rule keeps_trans)
qed

lemma room_made_keeps:
  assumes "room_made drv a c d s xs s1 ys" and "coherent S s" and "cache_ok s xs" and "a \<notin> set xs"
  shows "keeps S s s1"
proof -
  obtain s0 where s0: "counted a c d s s0" "cache_ok s0 xs" "evictions drv s0 xs s1 ys"
    using assms(1) unfolding room_made_def by blast
  have "bands s0 = bands s" "world s0 = world s" using s0(1) by (simp_all add: counted_def)
  then have "keeps S s s0"
  proof (intro keeps_cong [OF assms(2)])
    fix k x y a'
    assume "cached s k x y = Some a'"
    then have "a' \<noteq> a" using tables_okD(1) [of s "set xs"] assms(3,4) by (auto simp: cache_ok_def)
    then show "map_option (\<lambda>c. (pData c, bDirty c)) (contents s0 a') = map_option (\<lambda>c. (pData c, bDirty c)) (contents s a')"
      using s0(1) by (simp add: counted_def)
  qed (use cached_bands [of s0 s] in simp_all)
  moreover from this have "keeps S s0 s1" using evictions_keeps [OF s0(3) _ s0(2)] by (simp add: keeps_def)
  ultimately show ?thesis by (rule keeps_trans)
qed

text \<open>A block that was read shows what the driver has.\<close>

lemma load_done_keeps:
  assumes "load_done a c d' w' s1 ys s' zs" and "coherent S s1" and "tables_ok s1 (set ys)" and "a \<notin> set ys"
    and "c = fresh_block B k x y" and "cached s1 k x y = None" and "inside S (world s1) k x y"
    and "fits S (world s1) k d" and "IReadBlock drv k x y d (world s1) = (CE_None, d', w')"
  shows "keeps S s1 s'" and "block_data s' a = seen S s1 k x y"
proof -
  have v: "valid S (world s1)" using assms(2) by (simp add: coherent_def)
  have r: "d' = stored S (world s1) k x y" "same_shape S (world s1) w'" "stored S w' = stored S (world s1)"
    using reads [OF v assms(7,8)] assms(9) by auto
  have f: "contents s' = (contents s1)(a \<mapsto> c\<lparr>pData := Some d'\<rparr>)" "world s' = w'"
    "cached s' = at_position (cached s1) k x y (Some a)"
    using assms(1,5) by (simp_all add: load_done_def)
  have other: "a' \<noteq> a" if "cached s1 k' x' y' = Some a'" for k' x' y' a'
    using tables_okD(1) [OF assms(3) that] assms(4) by auto
  have sh: "valid S w'" "inside S w' = inside S (world s1)" "fits S w' = fits S (world s1)"
    using r(2) by (simp_all add: same_shape_def)
  have "coherent S s'"
    unfolding coherent_def f(2) sh(2,3)
  proof (intro conjI allI impI)
    show "valid S w'" by (rule sh(1))
    fix k' x' y' a' c'
    assume a': "cached s' k' x' y' = Some a'" and c': "contents s' a' = Some c'"
    have "inside S (world s1) k' x' y' \<and>
      (\<exists>d. pData c' = Some d \<and> fits S (world s1) k' d \<and> (\<not> bDirty c' \<longrightarrow> d = stored S w' k' x' y'))"
    proof (cases "k' = k \<and> x' = x \<and> y' = y")
      case True
      then show ?thesis
        using a' c' assms(7) r stored_fits [OF v assms(7)] by (auto simp: f)
    next
      case False
      then have "cached s1 k' x' y' = Some a'" using a' by (auto simp: f)
      then show ?thesis
        using coherentD(2,3) [OF assms(2), of k' x' y' a' c'] other [of k' x' y' a'] c' r(3) by (simp add: f)
    qed
    then show "inside S (world s1) k' x' y'"
      "\<exists>d. pData c' = Some d \<and> fits S (world s1) k' d \<and> (\<not> bDirty c' \<longrightarrow> d = stored S w' k' x' y')"
      by simp_all
  qed
  moreover have "seen S s' k' x' y' = seen S s1 k' x' y'" for k' x' y'
  proof (cases "k' = k \<and> x' = x \<and> y' = y")
    case True
    then show ?thesis using assms(6) r(1) by (simp add: seen_def f block_data_def)
  next
    case False
    then show ?thesis
      using other [of k' x' y'] r(3) by (auto simp: seen_def f block_data_def split: option.splits)
  qed
  ultimately show "keeps S s1 s'" using r(2) by (simp add: keeps_def f(2))
  show "block_data s' a = seen S s1 k x y" by (simp add: block_data_def f seen_def assms(6) r(1))
qed

lemma hit_keeps:
  assumes "hit a s xs s' ys" and "coherent S s"
  shows "keeps S s s'" and "block_data s' a = block_data s a"
proof -
  obtain c where c: "contents s a = Some c" "contents s' = (contents s)(a \<mapsto> c\<lparr>nLockCount := nLockCount c + 1\<rparr>)"
    using assms(1) by (auto simp: hit_def)
  show "keeps S s s'"
    by (rule keeps_cong [OF assms(2)]) (use assms(1) c in \<open>auto simp: hit_def\<close>)
  show "block_data s' a = block_data s a" by (simp add: block_data_def c)
qed

lemma loaded_keeps:
  fixes s :: "('d, 'w) gdal"
  assumes "load_result drv k x y False B s xs p s' ys"
    and "VSIMalloc drv (world s) (size_in_bytes (fresh_block B k x y :: 'd block)) = Some d"
    and "cached s k x y = None" and "cache_ok s xs" and "coherent S s" and "inside S (world s) k x y"
    and "fits S (world s) k d"
  shows "keeps S s s' \<and> p \<noteq> None \<and> (\<forall>a. p = Some a \<longrightarrow> cached s' k x y = Some a \<and> block_data s' a = seen S s k x y)"
proof -
  let ?a = "next_address s" and ?c = "fresh_block B k x y :: 'd block"
  obtain s1 zs e d' w' where l: "room_made drv ?a ?c d s xs s1 zs" "fetched drv k x y False d (world s1) = (e, d', w')"
    "if e = CE_None then p = Some ?a \<and> load_done ?a ?c d' w' s1 zs s' ys else p = None \<and> load_undone ?a ?c w' s1 zs s' ys"
    using assms(1,2) unfolding load_result_def Let_def by auto
  have a: "?a \<notin> set xs" using fresh_address [OF assms(4)] .
  have k1: "keeps S s s1" by (rule room_made_keeps [OF l(1) assms(5,4) a])
  have c1: "coherent S s1" and sh: "same_shape S (world s) (world s1)" using k1 by (simp_all add: keeps_def)
  have i1: "valid S (world s1)" "inside S (world s1) k x y" "fits S (world s1) k d"
    using sh assms(6,7) by (simp_all add: same_shape_def)
  have r: "IReadBlock drv k x y d (world s1) = (e, d', w')" using l(2) by (simp add: fetched_def)
  then have e: "e = CE_None" using reads [OF i1] by auto
  obtain s0 where s0: "counted ?a ?c d s s0" "evictions drv s0 xs s1 zs" "cache_ok s1 zs"
    using l(1) unfolding room_made_def by blast
  have "bands s0 = bands s" using s0(1) by (simp add: counted_def)
  then have none: "cached s1 k x y = None"
    using evictions_cached [OF s0(2)] cached_bands assms(3) by (metis not_None_eq)
  have zs: "?a \<notin> set zs" using evictions_frame [OF s0(2)] a by auto
  have d: "p = Some ?a" "load_done ?a ?c d' w' s1 zs s' ys" using l(3) e by simp_all
  have t1: "tables_ok s1 (set zs)" using s0(3) by (simp add: cache_ok_def)
  note k2 = load_done_keeps [OF d(2) c1 t1 zs refl none i1(2,3) r [unfolded e]]
  have "seen S s1 k x y = seen S s k x y" using k1 assms(6) by (simp add: keeps_def)
  moreover have "cached s' k x y = Some ?a" using d(2) by (simp add: load_done_def)
  ultimately show ?thesis using keeps_trans [OF k1 k2(1)] k2(2) d(1) by simp
qed

text \<open>\<open>GetLockedBlockRef\<close>: the block it returns holds what was seen at the position.\<close>

lemma GetLockedBlockRef_shows:
  assumes "cache_ok s xs" and "coherent S s" and "bands s k = Some B" and "table_ok B" and "in_band B x y"
    and "inside S (world s) k x y"
    and "\<And>d. VSIMalloc drv (world s) (size_in_bytes (fresh_block B k x y :: 'd block)) = Some d \<Longrightarrow> fits S (world s) k d"
  shows "\<exists>p s' ys. GetLockedBlockRef drv k x y False s = Some (p, s') \<and> cache_ok s' ys \<and> layout_of s' = layout_of s \<and>
    keeps S s s' \<and> (\<forall>a. p = Some a \<longrightarrow> cached s' k x y = Some a \<and> block_data s' a = seen S s k x y) \<and>
    (p = None \<longrightarrow> VSIMalloc drv (world s) (size_in_bytes (fresh_block B k x y :: 'd block)) = None)"
proof -
  obtain p s' ys where g: "GetLockedBlockRef drv k x y False s = Some (p, s')" "cache_ok s' ys" "layout_of s' = layout_of s"
    "get_result drv k x y False B s xs p s' ys"
    using GetLockedBlockRef_result [OF assms(1,3-5), of drv False] by blast
  have "keeps S s s' \<and> (\<forall>a. p = Some a \<longrightarrow> cached s' k x y = Some a \<and> block_data s' a = seen S s k x y) \<and>
    (p = None \<longrightarrow> VSIMalloc drv (world s) (size_in_bytes (fresh_block B k x y :: 'd block)) = None)"
  proof (cases "cached s k x y")
    case (Some a)
    then have "p = Some a" "hit a s xs s' ys" using g(4) by (simp_all add: get_result_def)
    moreover have "cached s' k x y = Some a" using calculation(2) Some by (simp add: hit_def)
    ultimately show ?thesis using hit_keeps [OF _ assms(2)] Some by (auto simp: seen_def)
  next
    case None
    then have l: "load_result drv k x y False B s xs p s' ys" using g(4) by (simp add: get_result_def)
    show ?thesis
    proof (cases "VSIMalloc drv (world s) (size_in_bytes (fresh_block B k x y :: 'd block))")
      case no_memory: None
      then have "p = None" "load_failed drv s xs s' ys" using l by (simp_all add: load_result_def Let_def)
      then show ?thesis using keeps_cong [OF assms(2), of s'] no_memory by (simp add: load_failed_def)
    next
      case (Some d)
      show ?thesis using loaded_keeps [OF l Some None assms(1,2,6) assms(7) [OF Some]] by auto
    qed
  qed
  then show ?thesis using g(1-3) by blast
qed

text \<open>A block that is overwritten and marked dirty.\<close>

lemma overwritten:
  assumes "coherent S s" and "inside S (world s) k x y" and "fits S (world s) k src"
    and "cached s' = at_position (cached s) k x y (Some a)" and "world s' = world s"
    and "contents s' = (contents s)(a \<mapsto> c)" and "pData c = Some src" and "bDirty c"
    and "\<And>k' x' y'. cached s k' x' y' = Some a \<Longrightarrow> k' = k \<and> x' = x \<and> y' = y"
  shows "replaced S k x y src s s'"
proof -
  have v: "valid S (world s)" using assms(1) by (simp add: coherent_def)
  have "coherent S s'"
    unfolding coherent_def assms(5)
  proof (intro conjI allI impI)
    show "valid S (world s)" by (rule v)
    fix k' x' y' a' c'
    assume a': "cached s' k' x' y' = Some a'" and c': "contents s' a' = Some c'"
    have "inside S (world s) k' x' y' \<and>
      (\<exists>d. pData c' = Some d \<and> fits S (world s) k' d \<and> (\<not> bDirty c' \<longrightarrow> d = stored S (world s) k' x' y'))"
    proof (cases "k' = k \<and> x' = x \<and> y' = y")
      case True
      then have "a' = a" using a' by (simp add: assms(4))
      then have "c' = c" using c' by (simp add: assms(6))
      then show ?thesis using True assms(2,3,7,8) by simp
    next
      case False
      then have "cached s k' x' y' = Some a'" using a' by (auto simp: assms(4))
      moreover from this False have "a' \<noteq> a" using assms(9) by auto
      ultimately show ?thesis
        using coherentD(2,3) [OF assms(1), of k' x' y' a' c'] c' by (simp add: assms(6))
    qed
    then show "inside S (world s) k' x' y'"
      "\<exists>d. pData c' = Some d \<and> fits S (world s) k' d \<and> (\<not> bDirty c' \<longrightarrow> d = stored S (world s) k' x' y')"
      by simp_all
  qed
  moreover have "seen S s' k' x' y' = (if k' = k \<and> x' = x \<and> y' = y then Some src else seen S s k' x' y')" for k' x' y'
  proof (cases "k' = k \<and> x' = x \<and> y' = y")
    case True
    then show ?thesis by (simp add: seen_def assms(4,6,7) block_data_def)
  next
    case False
    then have eq: "cached s' k' x' y' = cached s k' x' y'" by (auto simp: assms(4))
    show ?thesis
    proof (cases "cached s k' x' y'")
      case None
      then show ?thesis using False eq by (auto simp: seen_def assms(5))
    next
      case (Some a')
      then have "a' \<noteq> a" using False assms(9) by auto
      then have "block_data s' a' = block_data s a'" by (simp add: block_data_def assms(6))
      then show ?thesis using Some False eq by (auto simp: seen_def)
    qed
  qed
  ultimately show ?thesis using same_shape_refl [OF v] by (simp add: replaced_def assms(5))
qed

lemma keeps_replaced: "keeps S s s1 \<Longrightarrow> replaced S k x y d s1 s2 \<Longrightarrow> replaced S k x y d s s2"
  by (auto simp: keeps_def replaced_def same_shape_def)

lemma fill_locked_block:
  assumes "cache_ok s xs" and "contents s a = Some c" and "pData c \<noteq> None"
  shows "\<exists>s'. (do {
       s \<leftarrow> set_block a (\<lambda>b. b\<lparr>pData := Some src\<rparr>) s;
       s \<leftarrow> MarkDirty a s;
       s \<leftarrow> DropLock a s;
       Some (CE_None, s)
     }) = Some (CE_None, s') \<and> cache_ok s' xs \<and>
    contents s' = (contents s)(a \<mapsto> c\<lparr>pData := Some src, bDirty := True, nLockCount := nLockCount c - 1\<rparr>) \<and>
    heap.more s' = heap.more s"
proof -
  obtain s1 where s1: "set_block a (\<lambda>b. b\<lparr>pData := Some src\<rparr>) s = Some s1" "cache_ok s1 xs"
    "contents s1 = (contents s)(a \<mapsto> c\<lparr>pData := Some src\<rparr>)" "heap.more s1 = heap.more s"
    using set_block_tables [OF assms(1,2), of "\<lambda>b. b\<lparr>pData := Some src\<rparr>"] by (auto simp: unlinked_def)
  have "contents s1 a = Some (c\<lparr>pData := Some src\<rparr>)" by (simp add: s1(3))
  then obtain s2 where s2: "MarkDirty a s1 = Some s2" "cache_ok s2 xs"
    "contents s2 = (contents s1)(a \<mapsto> c\<lparr>pData := Some src, bDirty := True\<rparr>)" "heap.more s2 = heap.more s1"
    using set_block_tables [OF s1(2), of a "c\<lparr>pData := Some src\<rparr>" "\<lambda>b. b\<lparr>bDirty := True\<rparr>"]
    by (auto simp: unlinked_def MarkDirty_def)
  have "contents s2 a = Some (c\<lparr>pData := Some src, bDirty := True\<rparr>)" by (simp add: s2(3))
  then obtain s3 where s3: "DropLock a s2 = Some s3" "cache_ok s3 xs"
    "contents s3 = (contents s2)(a \<mapsto> c\<lparr>pData := Some src, bDirty := True, nLockCount := nLockCount c - 1\<rparr>)"
    "heap.more s3 = heap.more s2"
    using DropLock_tables [OF s2(2), of a "c\<lparr>pData := Some src, bDirty := True\<rparr>"] by auto
  then show ?thesis using s1 s2 by (intro exI [of _ s3]) (simp add: fun_eq_iff)
qed

text \<open>The block behind \<open>GetLockedBlockRef\<close> with \<open>bJustInitialize\<close>.\<close>

lemma initialized_block:
  assumes "cache_ok s xs" and "coherent S s" and "get_result drv k x y True B s xs p s' ys"
  shows "(p = None \<and> keeps S s s' \<and> VSIMalloc drv (world s) (size_in_bytes (fresh_block B k x y :: 'd block)) = None) \<or>
    (\<exists>a s1 c. p = Some a \<and> keeps S s s1 \<and> contents s' a = Some c \<and> pData c \<noteq> None \<and>
       cached s' = at_position (cached s1) k x y (Some a) \<and> world s' = world s1 \<and>
       (\<forall>c'. (contents s')(a \<mapsto> c') = (contents s1)(a \<mapsto> c')) \<and>
       (\<forall>k' x' y'. cached s1 k' x' y' = Some a \<longrightarrow> k' = k \<and> x' = x \<and> y' = y))"
proof (cases "cached s k x y")
  case (Some a)
  have t: "tables_ok s (set xs)" using assms(1) by (simp add: cache_ok_def)
  have h: "p = Some a" "hit a s xs s' ys" using assms(3) Some by (simp_all add: get_result_def)
  obtain c where c: "contents s a = Some c" "contents s' = (contents s)(a \<mapsto> c\<lparr>nLockCount := nLockCount c + 1\<rparr>)"
    "cached s' = cached s" "world s' = world s"
    using h(2) by (auto simp: hit_def)
  have "pData c \<noteq> None" using tables_okD(3) [OF t Some] c(1) by auto
  moreover have "k' = k \<and> x' = x \<and> y' = y" if "cached s k' x' y' = Some a" for k' x' y'
    using tables_okD(3) [OF t that] tables_okD(3) [OF t Some] by auto
  moreover have "cached s' = at_position (cached s) k x y (Some a)" using Some c(3) by (auto simp: fun_eq_iff)
  moreover have "(contents s')(a \<mapsto> c') = (contents s)(a \<mapsto> c')" for c' by (simp add: c(2))
  moreover have "contents s' a = Some (c\<lparr>nLockCount := nLockCount c + 1\<rparr>)" by (simp add: c(2))
  ultimately show ?thesis
    using h(1) c(4) keeps_refl [OF assms(2)] by (intro disjI2 exI [of _ a] exI [of _ s] exI [of _ "c\<lparr>nLockCount := nLockCount c + 1\<rparr>"] conjI) simp_all
next
  case None
  let ?a = "next_address s" and ?c = "fresh_block B k x y :: 'd block"
  have l: "load_result drv k x y True B s xs p s' ys" using assms(3) None by (simp add: get_result_def)
  show ?thesis
  proof (cases "VSIMalloc drv (world s) (size_in_bytes ?c)")
    case no_memory: None
    then have "p = None" "load_failed drv s xs s' ys" using l by (simp_all add: load_result_def Let_def)
    then show ?thesis using keeps_cong [OF assms(2), of s'] no_memory by (simp add: load_failed_def)
  next
    case (Some d)
    then obtain s1 zs where r: "room_made drv ?a ?c d s xs s1 zs" "p = Some ?a" "load_done ?a ?c d (world s1) s1 zs s' ys"
      using l unfolding load_result_def Let_def by (auto simp: fetched_def)
    have k1: "keeps S s s1" by (rule room_made_keeps [OF r(1) assms(2,1) fresh_address [OF assms(1)]])
    obtain s0 where s0: "evictions drv s0 xs s1 zs" "cache_ok s1 zs" using r(1) unfolding room_made_def by blast
    have zs: "?a \<notin> set zs" using evictions_frame [OF s0(1)] fresh_address [OF assms(1)] by auto
    then have "cached s1 k' x' y' \<noteq> Some ?a" for k' x' y'
      using tables_okD(1) [of s1 "set zs"] s0(2) by (auto simp: cache_ok_def)
    then show ?thesis
      using r(2,3) k1 by (intro disjI2 exI [of _ ?a] exI [of _ s1] exI conjI) (auto simp: load_done_def)
  qed
qed

lemma fill_block_replaces:
  assumes "cache_ok s xs" and "coherent S s" and "bands s k = Some B" and "table_ok B" and "in_band B x y"
    and "inside S (world s) k x y" and "fits S (world s) k src"
  shows "\<exists>e s' ys. fill_block drv k x y src s = Some (e, s') \<and> cache_ok s' ys \<and> layout_of s' = layout_of s \<and>
    (if e = CE_None then replaced S k x y src s s' else keeps S s s' \<and> (\<exists>w n. VSIMalloc drv w n = None))"
proof -
  obtain p t ys where g: "GetLockedBlockRef drv k x y True s = Some (p, t)" "cache_ok t ys" "layout_of t = layout_of s"
    "get_result drv k x y True B s xs p t ys"
    using GetLockedBlockRef_result [OF assms(1,3-5), of drv True] by blast
  consider "p = None" "keeps S s t" "VSIMalloc drv (world s) (size_in_bytes (fresh_block B k x y :: 'd block)) = None"
    | a s1 c where "p = Some a" "keeps S s s1" "contents t a = Some c" "pData c \<noteq> None"
       "cached t = at_position (cached s1) k x y (Some a)" "world t = world s1"
       "\<And>c'. (contents t)(a \<mapsto> c') = (contents s1)(a \<mapsto> c')"
       "\<And>k' x' y'. cached s1 k' x' y' = Some a \<Longrightarrow> k' = k \<and> x' = x \<and> y' = y"
    using initialized_block [OF assms(1,2) g(4)] by metis
  then show ?thesis
  proof cases
    case 1
    then show ?thesis using g(1-3) by (auto simp: fill_block_def)
  next
    case 2
    obtain s' where s': "(do { s \<leftarrow> set_block a (\<lambda>b. b\<lparr>pData := Some src\<rparr>) t; s \<leftarrow> MarkDirty a s; s \<leftarrow> DropLock a s;
         Some (CE_None, s) }) = Some (CE_None, s')" "cache_ok s' ys"
      "contents s' = (contents t)(a \<mapsto> c\<lparr>pData := Some src, bDirty := True, nLockCount := nLockCount c - 1\<rparr>)"
      "heap.more s' = heap.more t"
      using fill_locked_block [OF g(2) 2(3,4)] by blast
    note m = gdal_more [OF s'(4)]
    have e: "cached s' = cached t" "layout_of s' = layout_of t" using cached_bands [OF m(6)] by simp_all
    obtain b where b: "block_at a t = Some b" "unlinked b = c" using contents_block [OF 2(3)] .
    obtain d0 where "pData b = Some d0" using b(2) 2(4) by auto
    then have "fill_block drv k x y src s = Some (CE_None, s')"
      using g(1) 2(1) b(1) s'(1) by (simp add: fill_block_def)
    moreover have k1: "coherent S s1" "same_shape S (world s) (world s1)" using 2(2) by (simp_all add: keeps_def)
    have "replaced S k x y src s1 s'"
      by (rule overwritten [OF k1(1), where c = "c\<lparr>pData := Some src, bDirty := True, nLockCount := nLockCount c - 1\<rparr>" and a = a, OF _ _ _ _ _ _ _ 2(8)])
        (use k1(2) assms(6,7) 2(5-7) e s'(3) m in \<open>simp_all add: same_shape_def\<close>)
    then have "replaced S k x y src s s'" by (rule keeps_replaced [OF 2(2)])
    ultimately show ?thesis using s'(2) e(2) g(3) by auto
  qed
qed

text \<open>Filling blocks one after the other.\<close>

lemma fill_blocks_replace:
  assumes "cache_ok s xs" and "coherent S s" and "bands s k = Some B" and "table_ok B"
    and "\<And>x y. (x, y) \<in> set ps \<Longrightarrow> in_band B x y \<and> inside S (world s) k x y" and "fits S (world s) k src"
  shows "\<exists>e s' ys. fill_blocks drv k ps src s = Some (e, s') \<and> cache_ok s' ys \<and> coherent S s' \<and>
    layout_of s' = layout_of s \<and> same_shape S (world s) (world s') \<and>
    (e \<noteq> CE_None \<longrightarrow> (\<exists>w n. VSIMalloc drv w n = None)) \<and> (e = CE_None \<longrightarrow> (\<forall>k' x' y'. inside S (world s) k' x' y' \<longrightarrow>
       seen S s' k' x' y' = (if k' = k \<and> (x', y') \<in> set ps then Some src else seen S s k' x' y')))"
  using assms
proof (induction ps arbitrary: s xs B)
  case Nil
  then show ?case using same_shape_refl by (auto simp: coherent_def)
next
  case (Cons p ps)
  obtain x y where p: "p = (x, y)" by fastforce
  have xy: "in_band B x y" "inside S (world s) k x y" using Cons.prems(5) p by auto
  obtain e s1 ys where f: "fill_block drv k x y src s = Some (e, s1)" "cache_ok s1 ys" "layout_of s1 = layout_of s"
    "if e = CE_None then replaced S k x y src s s1 else keeps S s s1 \<and> (\<exists>w n. VSIMalloc drv w n = None)"
    using fill_block_replaces [OF Cons.prems(1-4) xy Cons.prems(6)] by blast
  show ?case
  proof (cases "e = CE_None")
    case False
    then have "coherent S s1" "same_shape S (world s) (world s1)" "\<exists>w n. VSIMalloc drv w n = None"
      using f(4) by (simp_all add: keeps_def)
    then show ?thesis using False f by (auto simp: p)
  next
    case True
    then have r: "coherent S s1" "same_shape S (world s) (world s1)"
      "\<And>k' x' y'. inside S (world s) k' x' y' \<Longrightarrow>
         seen S s1 k' x' y' = (if k' = k \<and> x' = x \<and> y' = y then Some src else seen S s k' x' y')"
      using f(4) by (simp_all add: replaced_def)
    have sh: "inside S (world s1) = inside S (world s)" "fits S (world s1) = fits S (world s)"
      using r(2) by (simp_all add: same_shape_def)
    have "bands_ok s1" using f(2) by (simp add: cache_ok_def tables_ok_def)
    then obtain B' where B': "bands s1 k = Some B'" "table_ok B'" "\<And>x y. in_band B' x y = in_band B x y"
      using same_layout [OF f(3) Cons.prems(3,4)] by metis
    have "in_band B' x' y' \<and> inside S (world s1) k x' y'" if "(x', y') \<in> set ps" for x' y'
      using Cons.prems(5) [of x' y'] that B'(3) sh(1) by simp
    moreover have "fits S (world s1) k src" using Cons.prems(6) sh(2) by simp
    ultimately obtain e2 s2 zs where f2: "fill_blocks drv k ps src s1 = Some (e2, s2)" "cache_ok s2 zs" "coherent S s2"
      "layout_of s2 = layout_of s1" "same_shape S (world s1) (world s2)" "e2 \<noteq> CE_None \<Longrightarrow> \<exists>w n. VSIMalloc drv w n = None"
      "e2 = CE_None \<Longrightarrow> (\<forall>k' x' y'. inside S (world s1) k' x' y' \<longrightarrow>
         seen S s2 k' x' y' = (if k' = k \<and> (x', y') \<in> set ps then Some src else seen S s1 k' x' y'))"
      using Cons.IH [OF f(2) r(1) B'(1,2)] by blast
    have "fill_blocks drv k (p # ps) src s = Some (e2, s2)" using f(1) True f2(1) by (simp add: p)
    moreover have "seen S s2 k' x' y' = (if k' = k \<and> (x', y') \<in> set (p # ps) then Some src else seen S s k' x' y')"
      if i': "inside S (world s) k' x' y'" and ok: "e2 = CE_None" for k' x' y'
      using f2(7) [OF ok] i' r(3) [OF i'] sh(1) by (auto simp: p)
    ultimately show ?thesis
      using f2 same_shape_trans [OF r(2) f2(5)] f(3) by (intro exI [of _ e2] exI [of _ s2] exI [of _ zs]) simp
  qed
qed

lemma Fill_replaces:
  assumes "cache_ok s xs" and "coherent S s" and "bands s k = Some B" and "table_ok B" and "\<not> bReadOnly B"
    and "\<And>x y. in_band B x y \<Longrightarrow> inside S (world s) k x y" and "fits S (world s) k src"
  shows "\<exists>e s' ys. Fill drv k (Some src) s = Some (e, s') \<and> cache_ok s' ys \<and> coherent S s' \<and>
    same_shape S (world s) (world s') \<and> layout_of s' = layout_of s \<and> (e \<noteq> CE_None \<longrightarrow> (\<exists>w n. VSIMalloc drv w n = None)) \<and>
    (e = CE_None \<longrightarrow> (\<forall>k' x' y'. inside S (world s) k' x' y' \<longrightarrow>
       seen S s' k' x' y' = (if k' = k \<and> in_band B x' y' then Some src else seen S s k' x' y')))"
proof -
  let ?ps = "row_major (nBlocksPerRow B) (nBlocksPerColumn B)"
  have ps: "(x, y) \<in> set ?ps \<longleftrightarrow> in_band B x y" for x y
    by (auto simp: row_major_def in_band_def intro!: bexI [of _ y])
  have i: "init_block_info k s = Some (True, s)"
    using assms(3) initialised_band [OF assms(4)] by (simp add: init_block_info_def fun_upd_idem)
  have "Fill drv k (Some src) s = fill_blocks drv k ?ps src s"
    using i assms(3,5) by (simp add: Fill_def)
  moreover obtain e s' ys where f: "fill_blocks drv k ?ps src s = Some (e, s')" "cache_ok s' ys" "coherent S s'"
    "same_shape S (world s) (world s')" "layout_of s' = layout_of s" "e \<noteq> CE_None \<longrightarrow> (\<exists>w n. VSIMalloc drv w n = None)"
    "e = CE_None \<longrightarrow> (\<forall>k' x' y'. inside S (world s) k' x' y' \<longrightarrow>
       seen S s' k' x' y' = (if k' = k \<and> (x', y') \<in> set ?ps then Some src else seen S s k' x' y'))"
    using fill_blocks_replace [OF assms(1-4) _ assms(7), of ?ps] assms(6) ps by metis
  ultimately show ?thesis using ps by (intro exI [of _ e] exI [of _ s'] exI [of _ ys]) simp
qed

text \<open>\<open>FlushBlock\<close>: nothing that is seen changes, and the driver has what was seen.\<close>

lemma FlushBlock_writes_back:
  assumes "cache_ok s xs" and "coherent S s" and "cached s k x y = Some a"
  shows "\<exists>s'. FlushBlock drv k x y s = Some (CE_None, s') \<and> cache_ok s' (removeAll a xs) \<and> keeps S s s' \<and>
    cached s' k x y = None \<and> Some (stored S (world s') k x y) = seen S s k x y"
proof -
  have l: "lru s xs" and t: "tables_ok s (set xs)" using assms(1) by (simp_all add: cache_ok_def)
  obtain c where c: "contents s a = Some c" "poBand c = Some k" "nXOff c = x" "nYOff c = y"
    using tables_okD(3) [OF t assms(3)] by blast
  obtain s' where s': "FlushBlock drv k x y s = Some (fst (written drv k c (world s)), s')" "lru s' (removeAll a xs)"
    "flushed drv k x y a c s s'"
    using FlushBlock_cached [OF l tables_okD(2) [OF t assms(3)] assms(3) c(1,2)] by blast
  note k = flushed_keeps [OF assms(2) t assms(3) c(1,3,4) s'(3)]
  have "tables_ok s' (set (removeAll a xs))" using tables_ok_flushed [OF t assms(3) s'(3)] by simp
  moreover have "cached s' k x y = None" using s'(3) by (simp add: flushed_def)
  ultimately show ?thesis using s' k by (intro exI [of _ s']) (simp add: cache_ok_def)
qed

end

end
