(* ===== verification/Mem_Driver.thy ===== *)
theory Mem_Driver
  imports Block_Store
begin

text \<open>
  The in-memory driver, \<^verbatim>\<open>frmts/mem/memdataset.cpp\<close>: a band is an array of pixels somewhere in
  memory, with any distance between its pixels and between its lines; a block is a line.  The
  driver meets the contract \<open>block_store\<close>.
\<close>

type_synonym byte = "8 word"
type_synonym memory = "int \<Rightarrow> byte"

text \<open>\<open>nWordSize\<close> is \<open>GDALGetDataTypeSize (eDataType) / 8\<close>.\<close>

record mem_band =
  pabyData :: int
  nPixelOffset :: int
  nLineOffset :: int
  nWordSize :: int
  nLinePixels :: int
  nLines :: int

record mem_world =
  memory :: memory
  mem_bands :: "nat \<rightharpoonup> mem_band"

section \<open>The driver\<close>

definition read_bytes :: "memory \<Rightarrow> int \<Rightarrow> int \<Rightarrow> byte list" where
  "read_bytes m a n = map (\<lambda>i. m (a + int i)) [0..<nat n]"

definition write_bytes :: "memory \<Rightarrow> int \<Rightarrow> byte list \<Rightarrow> memory" where
  "write_bytes m a bs = (\<lambda>p. if a \<le> p \<and> p < a + int (length bs) then bs ! nat (p - a) else m p)"

definition put_bytes :: "byte list \<Rightarrow> int \<Rightarrow> byte list \<Rightarrow> byte list" where
  "put_bytes img i bs = take (nat i) img @ bs @ drop (nat i + length bs) img"

definition get_bytes :: "byte list \<Rightarrow> int \<Rightarrow> int \<Rightarrow> byte list" where
  "get_bytes img i n = take (nat n) (drop (nat i) img)"

text \<open>The loops over the pixels of a line, after \<open>n\<close> rounds.\<close>

primrec read_pixels :: "mem_band \<Rightarrow> memory \<Rightarrow> int \<Rightarrow> nat \<Rightarrow> byte list \<Rightarrow> byte list" where
  "read_pixels b m pabyCur 0 pImage = pImage"
| "read_pixels b m pabyCur (Suc n) pImage =
     put_bytes (read_pixels b m pabyCur n pImage) (to_i32 (int n * nWordSize b))
       (read_bytes m (pabyCur + to_i32 (int n * nPixelOffset b)) (nWordSize b))"

primrec write_pixels :: "mem_band \<Rightarrow> byte list \<Rightarrow> int \<Rightarrow> nat \<Rightarrow> memory \<Rightarrow> memory" where
  "write_pixels b pImage pabyCur 0 m = m"
| "write_pixels b pImage pabyCur (Suc n) m =
     write_bytes (write_pixels b pImage pabyCur n m) (pabyCur + to_i32 (int n * nPixelOffset b))
       (get_bytes pImage (to_i32 (int n * nWordSize b)) (nWordSize b))"

definition MEM_IReadBlock :: "mem_band \<Rightarrow> int \<Rightarrow> int \<Rightarrow> byte list \<Rightarrow> memory \<Rightarrow> CPLErr \<times> byte list" where
  "MEM_IReadBlock b nBlockXOff nBlockYOff pImage m =
     (let pabyCur = pabyData b + nLineOffset b * nBlockYOff in
      if nPixelOffset b = nWordSize b
      then (CE_None, put_bytes pImage 0 (read_bytes m pabyCur (to_i32 (nPixelOffset b * nLinePixels b))))
      else (CE_None, read_pixels b m pabyCur (nat (nLinePixels b)) pImage))"

definition MEM_IWriteBlock :: "mem_band \<Rightarrow> int \<Rightarrow> int \<Rightarrow> byte list \<Rightarrow> memory \<Rightarrow> CPLErr \<times> memory" where
  "MEM_IWriteBlock b nBlockXOff nBlockYOff pImage m =
     (let pabyCur = pabyData b + nLineOffset b * nBlockYOff in
      if nPixelOffset b = nWordSize b
      then (CE_None, write_bytes m pabyCur (get_bytes pImage 0 (to_i32 (nPixelOffset b * nLinePixels b))))
      else (CE_None, write_pixels b pImage pabyCur (nat (nLinePixels b)) m))"

text \<open>The driver of the block cache.  There is no band, or no buffer, only in calls the cache never
  makes.\<close>

definition mem_driver :: "(mem_world \<Rightarrow> int \<Rightarrow> byte list option) \<Rightarrow> (byte list, mem_world) driver" where
  "mem_driver malloc =
     \<lparr>IReadBlock = (\<lambda>k x y d w. case mem_bands w k of
         None \<Rightarrow> (CE_Failure, d, w)
       | Some b \<Rightarrow> (let (e, d) = MEM_IReadBlock b x y d (memory w) in (e, d, w))),
      IWriteBlock = (\<lambda>k x y p w. case (mem_bands w k, p) of
         (Some b, Some d) \<Rightarrow> (let (e, m) = MEM_IWriteBlock b x y d (memory w) in (e, w\<lparr>memory := m\<rparr>))
       | _ \<Rightarrow> (CE_Failure, w)),
      VSIMalloc = malloc\<rparr>"

section \<open>Lines of pixels\<close>

text \<open>The address of a byte of a pixel, and the bytes of a line in order.\<close>

definition pixel_addr :: "mem_band \<Rightarrow> int \<Rightarrow> nat \<Rightarrow> nat \<Rightarrow> int" where
  "pixel_addr b y i j = pabyData b + nLineOffset b * y + int i * nPixelOffset b + int j"

definition line_bytes :: "mem_band \<Rightarrow> int \<Rightarrow> memory \<Rightarrow> byte list" where
  "line_bytes b y m =
     concat (map (\<lambda>i. map (\<lambda>j. m (pixel_addr b y i j)) [0..<nat (nWordSize b)]) [0..<nat (nLinePixels b)])"

text \<open>Pixels are wider than nothing, lines shorter than 2 GB, and no two bytes of a band share an
  address.\<close>

definition band_fine :: "mem_band \<Rightarrow> bool" where
  "band_fine b =
     (0 < nWordSize b \<and> 0 \<le> nLinePixels b \<and> nLinePixels b * nWordSize b < 2 ^ 31 \<and>
      nLinePixels b * \<bar>nPixelOffset b\<bar> < 2 ^ 31)"

definition byte_of_line :: "mem_band \<Rightarrow> int \<Rightarrow> nat \<Rightarrow> nat \<Rightarrow> bool" where
  "byte_of_line b y i j = (0 \<le> y \<and> y < nLines b \<and> i < nat (nLinePixels b) \<and> j < nat (nWordSize b))"

definition mem_valid :: "mem_world \<Rightarrow> bool" where
  "mem_valid w =
     ((\<forall>k b. mem_bands w k = Some b \<longrightarrow> band_fine b) \<and>
      (\<forall>k b k' b' y i j y' i' j'. mem_bands w k = Some b \<longrightarrow> mem_bands w k' = Some b' \<longrightarrow>
         byte_of_line b y i j \<longrightarrow> byte_of_line b' y' i' j' \<longrightarrow> pixel_addr b y i j = pixel_addr b' y' i' j' \<longrightarrow>
         k = k' \<and> y = y' \<and> i = i' \<and> j = j'))"

definition mem_store :: "(byte list, mem_world) store" where
  "mem_store =
     \<lparr>valid = mem_valid,
      inside = (\<lambda>w k x y. x = 0 \<and> (case mem_bands w k of None \<Rightarrow> False | Some b \<Rightarrow> 0 \<le> y \<and> y < nLines b)),
      fits = (\<lambda>w k d. case mem_bands w k of None \<Rightarrow> False | Some b \<Rightarrow> int (length d) = nLinePixels b * nWordSize b),
      stored = (\<lambda>w k x y. case mem_bands w k of None \<Rightarrow> [] | Some b \<Rightarrow> line_bytes b y (memory w))\<rparr>"

lemma band_fine_offsets:
  assumes "band_fine b" and "n \<le> nat (nLinePixels b)"
  shows "to_i32 (int n * nWordSize b) = int n * nWordSize b" and
    "to_i32 (int n * nPixelOffset b) = int n * nPixelOffset b"
proof -
  have n: "int n \<le> nLinePixels b" using assms by (simp add: band_fine_def nat_le_iff le_nat_iff)
  have "int n * nWordSize b \<le> nLinePixels b * nWordSize b"
    using n assms(1) by (intro mult_right_mono) (auto simp: band_fine_def)
  moreover have "0 \<le> int n * nWordSize b" using assms(1) by (simp add: band_fine_def)
  moreover have "nLinePixels b * nWordSize b < 2147483648" using assms(1) by (simp add: band_fine_def)
  ultimately have "- 2147483648 \<le> int n * nWordSize b" "int n * nWordSize b < 2147483648" by linarith+
  then show "to_i32 (int n * nWordSize b) = int n * nWordSize b" by (intro to_i32_id) simp_all
  have "\<bar>int n * nPixelOffset b\<bar> \<le> nLinePixels b * \<bar>nPixelOffset b\<bar>"
    using n by (simp add: abs_mult mult_right_mono)
  then have "\<bar>int n * nPixelOffset b\<bar> < 2 ^ 31" using assms(1) by (simp add: band_fine_def)
  then show "to_i32 (int n * nPixelOffset b) = int n * nPixelOffset b"
    by (intro to_i32_id) (auto simp: abs_less_iff)
qed

lemma concat_pieces: "concat (map (\<lambda>i. map (\<lambda>j. f (i * w + j)) [0..<w]) [0..<n]) = map f [0..<n * w]"
proof (induction n)
  case (Suc n)
  have "map (\<lambda>j. f (n * w + j)) [0..<w] = map f [n * w..<n * w + w]"
    using arg_cong [OF map_add_upt [of "n * w" w], of "map f"] by (simp add: comp_def add.commute)
  moreover have "[0..<Suc n * w] = [0..<n * w] @ [n * w..<n * w + w]"
    using upt_add_eq_append [of 0 "n * w" w] by (simp add: add.commute)
  ultimately show ?case using Suc by simp
qed simp

lemma length_pieces: "length (concat (map (\<lambda>i. map (g i) [0..<w]) [0..<n])) = n * w"
  by (induction n) simp_all

text \<open>Reading a line.\<close>

lemma put_bytes_append: "length bs = k \<Longrightarrow> put_bytes (bs @ drop k img) (int k) cs = bs @ cs @ drop (k + length cs) img"
  by (simp add: put_bytes_def add.commute)

lemma read_pixels_loop:
  assumes "band_fine b" and "length img = nat (nLinePixels b) * nat (nWordSize b)" and "n \<le> nat (nLinePixels b)"
  shows "read_pixels b m a n img =
    concat (map (\<lambda>i. map (\<lambda>j. m (a + int i * nPixelOffset b + int j)) [0..<nat (nWordSize b)]) [0..<n]) @
    drop (n * nat (nWordSize b)) img"
  using assms(3)
proof (induction n)
  case 0
  then show ?case by simp
next
  case (Suc n)
  let ?w = "nat (nWordSize b)"
  let ?g = "\<lambda>i j. m (a + int i * nPixelOffset b + int j)"
  have w: "int ?w = nWordSize b" using assms(1) by (simp add: band_fine_def)
  have off: "to_i32 (int n * nWordSize b) = int (n * ?w)" "to_i32 (int n * nPixelOffset b) = int n * nPixelOffset b"
    using band_fine_offsets [OF assms(1), of n] Suc.prems w by simp_all
  have len: "length (concat (map (\<lambda>i. map (?g i) [0..<?w]) [0..<n])) = n * ?w" by (rule length_pieces)
  have "read_pixels b m a (Suc n) img =
    put_bytes (concat (map (\<lambda>i. map (?g i) [0..<?w]) [0..<n]) @ drop (n * ?w) img) (int (n * ?w)) (map (?g n) [0..<?w])"
    using Suc by (simp add: off read_bytes_def add.assoc)
  also have "\<dots> = concat (map (\<lambda>i. map (?g i) [0..<?w]) [0..<n]) @ map (?g n) [0..<?w] @ drop (n * ?w + ?w) img"
    using put_bytes_append [OF len, of img "map (?g n) [0..<?w]"] by simp
  finally show ?case by (simp add: add.commute)
qed

lemma read_bytes_line:
  assumes "band_fine b" and "nPixelOffset b = nWordSize b"
  shows "read_bytes m a (nPixelOffset b * nLinePixels b) =
    concat (map (\<lambda>i. map (\<lambda>j. m (a + int i * nPixelOffset b + int j)) [0..<nat (nWordSize b)]) [0..<nat (nLinePixels b)])"
proof -
  have w: "nWordSize b = int (nat (nWordSize b))" "nLinePixels b = int (nat (nLinePixels b))"
    using assms(1) by (simp_all add: band_fine_def)
  have "nat (nPixelOffset b * nLinePixels b) = nat (nLinePixels b) * nat (nWordSize b)"
    using assms by (auto simp: band_fine_def nat_mult_distrib mult.commute)
  moreover have "int (nat (nWordSize b)) = nPixelOffset b" using assms by (simp add: band_fine_def)
  then have e: "a + int i * nPixelOffset b + int j = a + int (i * nat (nWordSize b) + j)" for i j by simp
  ultimately show ?thesis
    unfolding e concat_pieces [of "\<lambda>q. m (a + int q)" "nat (nWordSize b)"] by (simp only: read_bytes_def)
qed

lemma MEM_IReadBlock_line:
  assumes "band_fine b" and "int (length d) = nLinePixels b * nWordSize b"
  shows "MEM_IReadBlock b x y d m = (CE_None, line_bytes b y m)"
proof -
  let ?a = "pabyData b + nLineOffset b * y"
  have len: "length d = nat (nLinePixels b) * nat (nWordSize b)"
    using assms by (simp add: band_fine_def nat_mult_distrib [symmetric])
  show ?thesis
  proof (cases "nPixelOffset b = nWordSize b")
    case True
    have "to_i32 (nPixelOffset b * nLinePixels b) = nPixelOffset b * nLinePixels b"
      using band_fine_offsets(1) [OF assms(1) order_refl] True assms(1) by (simp add: band_fine_def mult.commute)
    then show ?thesis
      using True read_bytes_line [OF assms(1) True, of m ?a] len
        length_pieces [of "\<lambda>i j. m (pixel_addr b y i j)" "nat (nWordSize b)" "nat (nLinePixels b)"]
      by (simp add: MEM_IReadBlock_def put_bytes_def line_bytes_def pixel_addr_def)
  next
    case False
    then show ?thesis
      using read_pixels_loop [OF assms(1) len order_refl, of m ?a] len
      by (simp add: MEM_IReadBlock_def line_bytes_def pixel_addr_def)
  qed
qed

text \<open>Writing a line: the bytes of the line, and no others.\<close>

lemma write_bytes_apply: "i < length bs \<Longrightarrow> write_bytes m a bs (a + int i) = bs ! i"
  by (simp add: write_bytes_def)

lemma write_bytes_other: "(\<And>i. i < length bs \<Longrightarrow> p \<noteq> a + int i) \<Longrightarrow> write_bytes m a bs p = m p"
proof -
  assume h: "\<And>i. i < length bs \<Longrightarrow> p \<noteq> a + int i"
  have "\<not> (a \<le> p \<and> p < a + int (length bs))"
  proof
    assume p: "a \<le> p \<and> p < a + int (length bs)"
    then have "nat (p - a) < length bs" by (simp add: nat_less_iff)
    from h [OF this] p show False by simp
  qed
  then show "write_bytes m a bs p = m p" by (auto simp: write_bytes_def)
qed

lemma get_bytes_nat: "get_bytes img (int k) (int n) = take n (drop k img)"
  by (simp add: get_bytes_def)

definition line_written :: "mem_band \<Rightarrow> int \<Rightarrow> byte list \<Rightarrow> nat \<Rightarrow> memory \<Rightarrow> memory \<Rightarrow> bool" where
  "line_written b a img n m m' =
     ((\<forall>i < n. \<forall>j < nat (nWordSize b). m' (a + int i * nPixelOffset b + int j) = img ! (i * nat (nWordSize b) + j)) \<and>
      (\<forall>p. (\<forall>i < n. \<forall>j < nat (nWordSize b). p \<noteq> a + int i * nPixelOffset b + int j) \<longrightarrow> m' p = m p))"

text \<open>The pixels of a line do not overlap.\<close>

definition pixels_apart :: "mem_band \<Rightarrow> bool" where
  "pixels_apart b =
     (\<forall>i < nat (nLinePixels b). \<forall>i' < nat (nLinePixels b). \<forall>j < nat (nWordSize b). \<forall>j' < nat (nWordSize b).
        int i * nPixelOffset b + int j = int i' * nPixelOffset b + int j' \<longrightarrow> i = i')"

lemma write_pixels_loop:
  assumes "band_fine b" and "length img = nat (nLinePixels b) * nat (nWordSize b)" and "n \<le> nat (nLinePixels b)"
    and "pixels_apart b"
  shows "line_written b a img n m (write_pixels b img a n m)"
  using assms(3)
proof (induction n)
  case 0
  then show ?case by (simp add: line_written_def)
next
  case (Suc n)
  let ?w = "nat (nWordSize b)" and ?m = "write_pixels b img a n m"
  let ?bs = "take ?w (drop (n * ?w) img)" and ?a = "a + int n * nPixelOffset b"
  have w: "int ?w = nWordSize b" using assms(1) by (simp add: band_fine_def)
  have off: "to_i32 (int n * nWordSize b) = int (n * ?w)" "to_i32 (int n * nPixelOffset b) = int n * nPixelOffset b"
    using band_fine_offsets [OF assms(1), of n] Suc.prems w by simp_all
  have step: "write_pixels b img a (Suc n) m = write_bytes ?m ?a ?bs"
    using get_bytes_nat [of img "n * ?w" ?w] by (simp only: write_pixels.simps off w)
  have le: "n * ?w + ?w \<le> length img" using mult_le_mono1 [OF Suc.prems, of ?w] assms(2) by (simp add: add.commute)
  then have len: "length ?bs = ?w" by (simp only: length_take length_drop)
  have nth: "?bs ! j = img ! (n * ?w + j)" if "j < ?w" for j
    using le that by (simp add: nth_take nth_drop)
  have IH: "line_written b a img n m ?m" using Suc by simp
  show ?case
    unfolding line_written_def step
  proof (intro conjI allI impI)
    fix i j
    assume i: "i < Suc n" and j: "j < ?w"
    show "write_bytes ?m ?a ?bs (a + int i * nPixelOffset b + int j) = img ! (i * ?w + j)"
    proof (cases "i = n")
      case True
      then show ?thesis using write_bytes_apply [of j ?bs ?m ?a] j len nth by simp
    next
      case False
      have "a + int i * nPixelOffset b + int j \<noteq> ?a + int j'" if "j' < length ?bs" for j'
        using assms(4) [unfolded pixels_apart_def, rule_format, of i n j j'] that False i j len Suc.prems by auto
      then have "write_bytes ?m ?a ?bs (a + int i * nPixelOffset b + int j) = ?m (a + int i * nPixelOffset b + int j)"
        by (rule write_bytes_other)
      then show ?thesis using IH i j False by (simp add: line_written_def)
    qed
  next
    fix p
    assume p: "\<forall>i < Suc n. \<forall>j < ?w. p \<noteq> a + int i * nPixelOffset b + int j"
    then have "write_bytes ?m ?a ?bs p = ?m p" using len by (intro write_bytes_other) auto
    then show "write_bytes ?m ?a ?bs p = m p" using IH p by (simp add: line_written_def)
  qed
qed

lemma line_bytes_written:
  assumes "line_written b (pabyData b + nLineOffset b * y) img (nat (nLinePixels b)) m m'"
    and "length img = nat (nLinePixels b) * nat (nWordSize b)"
  shows "line_bytes b y m' = img"
proof -
  let ?w = "nat (nWordSize b)"
  have "line_bytes b y m' = concat (map (\<lambda>i. map (\<lambda>j. img ! (i * ?w + j)) [0..<?w]) [0..<nat (nLinePixels b)])"
    unfolding line_bytes_def
    by (intro arg_cong [where f = concat] map_cong refl)
      (use assms(1) in \<open>simp_all add: line_written_def pixel_addr_def\<close>)
  then show ?thesis by (simp add: concat_pieces assms(2) [symmetric] map_nth)
qed

lemma write_bytes_line:
  assumes "band_fine b" and "length img = nat (nLinePixels b) * nat (nWordSize b)" and "nPixelOffset b = nWordSize b"
  shows "line_written b a img (nat (nLinePixels b)) m (write_bytes m a img)"
proof -
  let ?w = "nat (nWordSize b)" and ?n = "nat (nLinePixels b)"
  have "int ?w = nPixelOffset b" using assms(1,3) by (simp add: band_fine_def)
  then have e: "a + int i * nPixelOffset b + int j = a + int (i * ?w + j)" for i j by simp
  have r: "i * ?w + j < length img" if "i < ?n" "j < ?w" for i j
    using that mult_le_mono1 [of "Suc i" ?n ?w] assms(2) by simp
  show ?thesis
    unfolding line_written_def e
  proof (intro conjI allI impI)
    fix i j
    assume "i < ?n" and "j < ?w"
    then show "write_bytes m a img (a + int (i * ?w + j)) = img ! (i * ?w + j)"
      by (intro write_bytes_apply r)
  next
    fix p
    assume p: "\<forall>i < ?n. \<forall>j < ?w. p \<noteq> a + int (i * ?w + j)"
    show "write_bytes m a img p = m p"
    proof (rule write_bytes_other)
      fix q
      assume q: "q < length img"
      then have "0 < ?w" and "q div ?w < ?n" using assms(1,2) by (simp_all add: band_fine_def less_mult_imp_div_less)
      then show "p \<noteq> a + int q" using p [rule_format, of "q div ?w" "q mod ?w"] by (simp del: of_nat_add)
    qed
  qed
qed

lemma MEM_IWriteBlock_line:
  assumes "band_fine b" and "int (length d) = nLinePixels b * nWordSize b"
    and "pixels_apart b"
  shows "\<exists>m'. MEM_IWriteBlock b x y d m = (CE_None, m') \<and>
    line_written b (pabyData b + nLineOffset b * y) d (nat (nLinePixels b)) m m'"
proof -
  let ?a = "pabyData b + nLineOffset b * y"
  have len: "length d = nat (nLinePixels b) * nat (nWordSize b)"
    using assms(1,2) by (simp add: band_fine_def nat_mult_distrib [symmetric])
  show ?thesis
  proof (cases "nPixelOffset b = nWordSize b")
    case True
    have "to_i32 (nPixelOffset b * nLinePixels b) = int (length d)"
      using band_fine_offsets(1) [OF assms(1) order_refl] True assms(1,2) by (simp add: band_fine_def mult.commute)
    then have "get_bytes d 0 (to_i32 (nPixelOffset b * nLinePixels b)) = d" by (simp add: get_bytes_def)
    then show ?thesis using True write_bytes_line [OF assms(1) len True] by (simp add: MEM_IWriteBlock_def)
  next
    case False
    then show ?thesis using write_pixels_loop [OF assms(1) len order_refl assms(3)] by (simp add: MEM_IWriteBlock_def)
  qed
qed

section \<open>The contract\<close>

lemma mem_valid_band:
  assumes "mem_valid w" and "mem_bands w k = Some b"
  shows "band_fine b" and "0 \<le> y \<Longrightarrow> y < nLines b \<Longrightarrow> pixels_apart b"
proof -
  show "band_fine b" using assms unfolding mem_valid_def by blast
  assume y: "0 \<le> y" "y < nLines b"
  show "pixels_apart b"
    unfolding pixels_apart_def
  proof (intro allI impI)
    fix i i' j j'
    assume "i < nat (nLinePixels b)" "i' < nat (nLinePixels b)" "j < nat (nWordSize b)" "j' < nat (nWordSize b)"
      "int i * nPixelOffset b + int j = int i' * nPixelOffset b + int j'"
    with y have "byte_of_line b y i j" "byte_of_line b y i' j'" "pixel_addr b y i j = pixel_addr b y i' j'"
      by (simp_all add: byte_of_line_def pixel_addr_def)
    then show "i = i'" using assms unfolding mem_valid_def by blast
  qed
qed

lemma line_bytes_other:
  assumes "mem_valid w" and "mem_bands w k = Some b" and "mem_bands w k' = Some b'"
    and "0 \<le> y" and "y < nLines b" and "0 \<le> y'" and "y' < nLines b'" and "\<not> (k' = k \<and> y' = y)"
    and "line_written b (pabyData b + nLineOffset b * y) img (nat (nLinePixels b)) (memory w) m'"
  shows "line_bytes b' y' m' = line_bytes b' y' (memory w)"
  unfolding line_bytes_def
proof (intro arg_cong [where f = concat] map_cong refl)
  fix i j
  assume i: "i \<in> set [0..<nat (nLinePixels b')]" and j: "j \<in> set [0..<nat (nWordSize b')]"
  have "pixel_addr b' y' i j \<noteq> pabyData b + nLineOffset b * y + int i2 * nPixelOffset b + int j2"
    if "i2 < nat (nLinePixels b)" "j2 < nat (nWordSize b)" for i2 j2
  proof
    assume eq: "pixel_addr b' y' i j = pabyData b + nLineOffset b * y + int i2 * nPixelOffset b + int j2"
    have "byte_of_line b' y' i j" "byte_of_line b y i2 j2" "pixel_addr b' y' i j = pixel_addr b y i2 j2"
      using i j that assms(4-7) eq by (simp_all add: byte_of_line_def pixel_addr_def)
    then have "k' = k \<and> y' = y" using assms(1-3) unfolding mem_valid_def by blast
    then show False using assms(8) by blast
  qed
  then show "m' (pixel_addr b' y' i j) = memory w (pixel_addr b' y' i j)"
    using assms(9) by (simp add: line_written_def)
qed

lemma mem_driver_writes:
  assumes "valid mem_store w" and "inside mem_store w k x y" and "fits mem_store w k d"
  shows "\<exists>w'. IWriteBlock (mem_driver malloc) k x y (Some d) w = (CE_None, w') \<and> same_shape mem_store w w' \<and>
    stored mem_store w' k x y = d \<and>
    (\<forall>k' x' y'. inside mem_store w k' x' y' \<longrightarrow> \<not> (k' = k \<and> x' = x \<and> y' = y) \<longrightarrow>
       stored mem_store w' k' x' y' = stored mem_store w k' x' y')"
proof -
  obtain b where b: "mem_bands w k = Some b" "x = 0" "0 \<le> y" "y < nLines b" "int (length d) = nLinePixels b * nWordSize b"
    using assms(2,3) by (auto simp: mem_store_def split: option.splits)
  have v: "mem_valid w" using assms(1) by (simp add: mem_store_def)
  note band = mem_valid_band [OF v b(1)]
  obtain m' where m': "MEM_IWriteBlock b x y d (memory w) = (CE_None, m')"
    "line_written b (pabyData b + nLineOffset b * y) d (nat (nLinePixels b)) (memory w) m'"
    using MEM_IWriteBlock_line [OF band(1) b(5) band(2) [OF b(3,4)]] by blast
  let ?w = "w\<lparr>memory := m'\<rparr>"
  have len: "length d = nat (nLinePixels b) * nat (nWordSize b)"
    using band(1) b(5) by (simp add: band_fine_def nat_mult_distrib [symmetric])
  have "IWriteBlock (mem_driver malloc) k x y (Some d) w = (CE_None, ?w)" by (simp add: mem_driver_def b(1) m'(1))
  moreover have "same_shape mem_store w ?w" using v by (simp add: same_shape_def mem_store_def mem_valid_def)
  moreover have "stored mem_store ?w k x y = d" using line_bytes_written [OF m'(2) len] by (simp add: mem_store_def b(1))
  moreover have "stored mem_store ?w k' x' y' = stored mem_store w k' x' y'"
    if i': "inside mem_store w k' x' y'" and ne: "\<not> (k' = k \<and> x' = x \<and> y' = y)" for k' x' y'
  proof -
    obtain b' where b': "mem_bands w k' = Some b'" "x' = 0" "0 \<le> y'" "y' < nLines b'"
      using i' by (auto simp: mem_store_def split: option.splits)
    have "\<not> (k' = k \<and> y' = y)" using ne b(2) b'(2) by auto
    then show ?thesis
      using line_bytes_other [OF v b(1) b'(1) b(3,4) b'(3,4) _ m'(2)] by (simp add: mem_store_def b'(1))
  qed
  ultimately show ?thesis by blast
qed

interpretation mem: block_store "mem_driver malloc" mem_store
proof
  fix w k x y d
  assume "valid mem_store w" and "inside mem_store w k x y" and "fits mem_store w k d"
  then obtain b where "mem_bands w k = Some b" "band_fine b" "int (length d) = nLinePixels b * nWordSize b" "mem_valid w"
    using mem_valid_band(1) by (auto simp: mem_store_def split: option.splits)
  then show "\<exists>w'. IReadBlock (mem_driver malloc) k x y d w = (CE_None, stored mem_store w k x y, w') \<and>
      same_shape mem_store w w' \<and> stored mem_store w' = stored mem_store w"
    using MEM_IReadBlock_line [of b d x y "memory w"]
    by (auto simp: mem_driver_def mem_store_def same_shape_def)
next
  fix w k x y d
  assume "valid mem_store w" and "inside mem_store w k x y" and "fits mem_store w k d"
  then show "\<exists>w'. IWriteBlock (mem_driver malloc) k x y (Some d) w = (CE_None, w') \<and> same_shape mem_store w w' \<and>
      stored mem_store w' k x y = d \<and>
      (\<forall>k' x' y'. inside mem_store w k' x' y' \<longrightarrow> \<not> (k' = k \<and> x' = x \<and> y' = y) \<longrightarrow>
         stored mem_store w' k' x' y' = stored mem_store w k' x' y')"
    by (rule mem_driver_writes)
next
  fix w k x y
  assume "valid mem_store w" and "inside mem_store w k x y"
  then obtain b where "mem_bands w k = Some b" "band_fine b"
    using mem_valid_band(1) by (auto simp: mem_store_def split: option.splits)
  then show "fits mem_store w k (stored mem_store w k x y)"
    using length_pieces [of "\<lambda>i j. memory w (pixel_addr b y i j)" "nat (nWordSize b)" "nat (nLinePixels b)"]
    by (simp add: mem_store_def line_bytes_def band_fine_def nat_mult_distrib)
qed

section \<open>Properties\<close>

text \<open>
  C20.  What \<open>IWriteBlock\<close> writes into a line of a band, \<open>IReadBlock\<close> reads back, whatever the
  distances between pixels and lines; all other lines of all bands read as before, and no byte
  outside the pixels of the line changes.
\<close>

theorem MEM_block_roundtrip:
  assumes "mem_valid w" and "mem_bands w k = Some b" and "0 \<le> y" and "y < nLines b"
    and "int (length d) = nLinePixels b * nWordSize b" and "length buf = length d"
  shows "\<exists>m'. MEM_IWriteBlock b 0 y d (memory w) = (CE_None, m') \<and> MEM_IReadBlock b 0 y buf m' = (CE_None, d) \<and>
    (\<forall>k' b' y' buf'. mem_bands w k' = Some b' \<longrightarrow> 0 \<le> y' \<and> y' < nLines b' \<longrightarrow> (k', y') \<noteq> (k, y) \<longrightarrow>
       int (length buf') = nLinePixels b' * nWordSize b' \<longrightarrow>
       MEM_IReadBlock b' 0 y' buf' m' = MEM_IReadBlock b' 0 y' buf' (memory w)) \<and>
    (\<forall>p. (\<forall>i j. byte_of_line b y i j \<longrightarrow> p \<noteq> pixel_addr b y i j) \<longrightarrow> m' p = memory w p)"
proof -
  note band = mem_valid_band [OF assms(1,2)]
  obtain m' where m': "MEM_IWriteBlock b 0 y d (memory w) = (CE_None, m')"
    "line_written b (pabyData b + nLineOffset b * y) d (nat (nLinePixels b)) (memory w) m'"
    using MEM_IWriteBlock_line [OF band(1) assms(5) band(2) [OF assms(3,4)]] by blast
  have "length d = nat (nLinePixels b) * nat (nWordSize b)"
    using band(1) assms(5) by (simp add: band_fine_def nat_mult_distrib [symmetric])
  then have "MEM_IReadBlock b 0 y buf m' = (CE_None, d)"
    using MEM_IReadBlock_line [OF band(1), of buf 0 y m'] line_bytes_written [OF m'(2)] assms(5,6) by simp
  moreover have "MEM_IReadBlock b' 0 y' buf' m' = MEM_IReadBlock b' 0 y' buf' (memory w)"
    if "mem_bands w k' = Some b'" "0 \<le> y' \<and> y' < nLines b'" "(k', y') \<noteq> (k, y)"
      "int (length buf') = nLinePixels b' * nWordSize b'" for k' b' y' buf'
  proof -
    have "line_bytes b' y' m' = line_bytes b' y' (memory w)"
      using line_bytes_other [OF assms(1,2) that(1) assms(3,4) _ _ _ m'(2)] that(2,3) by blast
    then show ?thesis
      using MEM_IReadBlock_line [OF mem_valid_band(1) [OF assms(1) that(1)] that(4)] by simp
  qed
  moreover have "m' p = memory w p" if p: "\<forall>i j. byte_of_line b y i j \<longrightarrow> p \<noteq> pixel_addr b y i j" for p
    using m'(2) p assms(3,4) by (simp add: line_written_def byte_of_line_def pixel_addr_def)
  ultimately show ?thesis using m'(1) by blast
qed

text \<open>A band of two lines of two pixels, interleaved with another, for the witnesses.\<close>

definition two_bands :: mem_world where
  "two_bands = \<lparr>memory = (\<lambda>p. 0),
     mem_bands = [0 \<mapsto> \<lparr>pabyData = 0, nPixelOffset = 2, nLineOffset = 4, nWordSize = 1, nLinePixels = 2, nLines = 2\<rparr>,
                  1 \<mapsto> \<lparr>pabyData = 1, nPixelOffset = 2, nLineOffset = 4, nWordSize = 1, nLinePixels = 2, nLines = 2\<rparr>]\<rparr>"

lemma two_bands_valid: "mem_valid two_bands"
proof -
  have band: "band_fine b \<and> nPixelOffset b = 2 \<and> nLineOffset b = 4 \<and> nWordSize b = 1 \<and> nLinePixels b = 2 \<and> nLines b = 2 \<and>
      pabyData b = int k \<and> k < 2" if "mem_bands two_bands k = Some b" for k b
    using that by (auto simp: two_bands_def band_fine_def split: if_splits)
  show ?thesis
    unfolding mem_valid_def
  proof (intro conjI allI impI)
    fix k b
    assume "mem_bands two_bands k = Some b"
    then show "band_fine b" using band by blast
  next
    fix k b k' b' y i j y' i' j'
    assume b: "mem_bands two_bands k = Some b" and b': "mem_bands two_bands k' = Some b'"
      and y: "byte_of_line b y i j" and y': "byte_of_line b' y' i' j'"
      and eq: "pixel_addr b y i j = pixel_addr b' y' i' j'"
    have r: "i < 2" "i' < 2" "j = 0" "j' = 0" "k < 2" "k' < 2"
      using band [OF b] band [OF b'] y y' by (simp_all add: byte_of_line_def)
    have "int k + 4 * y + 2 * int i = int k' + 4 * y' + 2 * int i'"
      using eq band [OF b] band [OF b'] r by (simp add: pixel_addr_def mult.commute)
    then show "k = k'" "y = y'" "i = i'" "j = j'" using r by presburger+
  qed
qed

theorem MEM_block_roundtrip_witness:
  "\<exists>b m'. mem_bands two_bands 0 = Some b \<and> MEM_IWriteBlock b 0 1 [7, 8] (\<lambda>p. 0) = (CE_None, m') \<and>
    MEM_IReadBlock b 0 1 [0, 0] m' = (CE_None, [7, 8])"
proof -
  obtain b where b: "mem_bands two_bands 0 = Some b" "nLines b = 2" "nLinePixels b = 2" "nWordSize b = 1"
    "memory two_bands = (\<lambda>p. 0)"
    by (simp add: two_bands_def)
  show ?thesis using MEM_block_roundtrip [OF two_bands_valid b(1), of 1 "[7, 8]" "[0, 0]"] b by auto
qed

end
