(* ===== verification/Data_Type.thy ===== *)
theory Data_Type
  imports Prelude
begin

text \<open>
  Pixel data types, \<^verbatim>\<open>gcore/gdal.h\<close> and \<^verbatim>\<open>gcore/gdal_misc.cpp\<close>: sizes, names and the
  type that holds the values of two others.  A value of the enumeration that is no enumerator is not
  modelled, so that the \<open>default\<close> branches are those of \<open>GDT_Unknown\<close>.
\<close>

datatype GDALDataType =
    GDT_Unknown | GDT_Byte | GDT_UInt16 | GDT_Int16 | GDT_UInt32 | GDT_Int32 | GDT_Float32 | GDT_Float64
  | GDT_CInt16 | GDT_CInt32 | GDT_CFloat32 | GDT_CFloat64

text \<open>The enumerators in order, without \<open>GDT_Unknown\<close>.\<close>

definition known_types :: "GDALDataType list" where
  "known_types = [GDT_Byte, GDT_UInt16, GDT_Int16, GDT_UInt32, GDT_Int32, GDT_Float32, GDT_Float64,
     GDT_CInt16, GDT_CInt32, GDT_CFloat32, GDT_CFloat64]"

fun GDALGetDataTypeSize :: "GDALDataType \<Rightarrow> int" where
  "GDALGetDataTypeSize GDT_Byte = 8"
| "GDALGetDataTypeSize GDT_UInt16 = 16"
| "GDALGetDataTypeSize GDT_Int16 = 16"
| "GDALGetDataTypeSize GDT_UInt32 = 32"
| "GDALGetDataTypeSize GDT_Int32 = 32"
| "GDALGetDataTypeSize GDT_Float32 = 32"
| "GDALGetDataTypeSize GDT_CInt16 = 32"
| "GDALGetDataTypeSize GDT_Float64 = 64"
| "GDALGetDataTypeSize GDT_CInt32 = 64"
| "GDALGetDataTypeSize GDT_CFloat32 = 64"
| "GDALGetDataTypeSize GDT_CFloat64 = 128"
| "GDALGetDataTypeSize GDT_Unknown = 0"

fun GDALDataTypeIsComplex :: "GDALDataType \<Rightarrow> bool" where
  "GDALDataTypeIsComplex GDT_CInt16 = True"
| "GDALDataTypeIsComplex GDT_CInt32 = True"
| "GDALDataTypeIsComplex GDT_CFloat32 = True"
| "GDALDataTypeIsComplex GDT_CFloat64 = True"
| "GDALDataTypeIsComplex _ = False"

fun GDALGetDataTypeName :: "GDALDataType \<Rightarrow> cstring" where
  "GDALGetDataTypeName GDT_Unknown = ''Unknown''"
| "GDALGetDataTypeName GDT_Byte = ''Byte''"
| "GDALGetDataTypeName GDT_UInt16 = ''UInt16''"
| "GDALGetDataTypeName GDT_Int16 = ''Int16''"
| "GDALGetDataTypeName GDT_UInt32 = ''UInt32''"
| "GDALGetDataTypeName GDT_Int32 = ''Int32''"
| "GDALGetDataTypeName GDT_Float32 = ''Float32''"
| "GDALGetDataTypeName GDT_Float64 = ''Float64''"
| "GDALGetDataTypeName GDT_CInt16 = ''CInt16''"
| "GDALGetDataTypeName GDT_CInt32 = ''CInt32''"
| "GDALGetDataTypeName GDT_CFloat32 = ''CFloat32''"
| "GDALGetDataTypeName GDT_CFloat64 = ''CFloat64''"

text \<open>A loop over enumerators that returns the first one whose name matches.\<close>

fun type_by_name :: "GDALDataType list \<Rightarrow> cstring \<Rightarrow> GDALDataType" where
  "type_by_name [] pszName = GDT_Unknown"
| "type_by_name (e # es) pszName =
     (if EQUAL (GDALGetDataTypeName e) pszName then e else type_by_name es pszName)"

definition GDALGetDataTypeByName :: "cstring option \<Rightarrow> GDALDataType" where
  "GDALGetDataTypeByName pszName =
     (case pszName of None \<Rightarrow> GDT_Unknown | Some s \<Rightarrow> type_by_name known_types s)"

section \<open>The union of two types\<close>

text \<open>The locals \<open>nBits\<close>, \<open>bSigned\<close> and \<open>bFloating\<close> after the first \<open>switch\<close>, and after the
  second.\<close>

fun union_first :: "GDALDataType \<Rightarrow> (int \<times> bool \<times> bool) option" where
  "union_first GDT_Byte = Some (8, False, False)"
| "union_first GDT_Int16 = Some (16, True, False)"
| "union_first GDT_CInt16 = Some (16, True, False)"
| "union_first GDT_UInt16 = Some (16, False, False)"
| "union_first GDT_Int32 = Some (32, True, False)"
| "union_first GDT_CInt32 = Some (32, True, False)"
| "union_first GDT_UInt32 = Some (32, False, False)"
| "union_first GDT_Float32 = Some (32, True, True)"
| "union_first GDT_CFloat32 = Some (32, True, True)"
| "union_first GDT_Float64 = Some (64, True, True)"
| "union_first GDT_CFloat64 = Some (64, True, True)"
| "union_first GDT_Unknown = None"

fun union_second :: "GDALDataType \<Rightarrow> int \<times> bool \<times> bool \<Rightarrow> (int \<times> bool \<times> bool) option" where
  "union_second GDT_Byte (n, s, f) = Some (n, s, f)"
| "union_second GDT_Int16 (n, s, f) = Some (max n 16, True, f)"
| "union_second GDT_CInt16 (n, s, f) = Some (max n 16, True, f)"
| "union_second GDT_UInt16 (n, s, f) = Some (max n 16, s, f)"
| "union_second GDT_Int32 (n, s, f) = Some (max n 32, True, f)"
| "union_second GDT_CInt32 (n, s, f) = Some (max n 32, True, f)"
| "union_second GDT_UInt32 (n, s, f) = Some (max n 32, s, f)"
| "union_second GDT_Float32 (n, s, f) = Some (max n 32, True, True)"
| "union_second GDT_CFloat32 (n, s, f) = Some (max n 32, True, True)"
| "union_second GDT_Float64 (n, s, f) = Some (max n 64, True, True)"
| "union_second GDT_CFloat64 (n, s, f) = Some (max n 64, True, True)"
| "union_second GDT_Unknown (n, s, f) = None"

definition union_result :: "bool \<Rightarrow> int \<times> bool \<times> bool \<Rightarrow> GDALDataType" where
  "union_result bComplex t = (case t of (nBits, bSigned, bFloating) \<Rightarrow>
     if nBits = 8 then GDT_Byte
     else if nBits = 16 \<and> bComplex then GDT_CInt16
     else if nBits = 16 \<and> bSigned then GDT_Int16
     else if nBits = 16 \<and> \<not> bSigned then GDT_UInt16
     else if nBits = 32 \<and> bFloating \<and> bComplex then GDT_CFloat32
     else if nBits = 32 \<and> bFloating then GDT_Float32
     else if nBits = 32 \<and> bComplex then GDT_CInt32
     else if nBits = 32 \<and> bSigned then GDT_Int32
     else if nBits = 32 \<and> \<not> bSigned then GDT_UInt32
     else if nBits = 64 \<and> bComplex then GDT_CFloat64
     else GDT_Float64)"

definition GDALDataTypeUnion :: "GDALDataType \<Rightarrow> GDALDataType \<Rightarrow> GDALDataType" where
  "GDALDataTypeUnion eType1 eType2 =
     (let bComplex = (GDALDataTypeIsComplex eType1 \<or> GDALDataTypeIsComplex eType2) in
      case union_first eType1 of
        None \<Rightarrow> GDT_Unknown
      | Some t \<Rightarrow> (case union_second eType2 t of None \<Rightarrow> GDT_Unknown | Some t \<Rightarrow> union_result bComplex t))"

section \<open>Colour interpretations\<close>

datatype GDALPaletteInterp = GPI_Gray | GPI_RGB | GPI_CMYK | GPI_HLS

datatype GDALColorInterp =
    GCI_Undefined | GCI_GrayIndex | GCI_PaletteIndex | GCI_RedBand | GCI_GreenBand | GCI_BlueBand | GCI_AlphaBand
  | GCI_HueBand | GCI_SaturationBand | GCI_LightnessBand | GCI_CyanBand | GCI_MagentaBand | GCI_YellowBand
  | GCI_BlackBand | GCI_YCbCr_YBand | GCI_YCbCr_CbBand | GCI_YCbCr_CrBand

fun GDALGetPaletteInterpretationName :: "GDALPaletteInterp \<Rightarrow> cstring" where
  "GDALGetPaletteInterpretationName GPI_Gray = ''Gray''"
| "GDALGetPaletteInterpretationName GPI_RGB = ''RGB''"
| "GDALGetPaletteInterpretationName GPI_CMYK = ''CMYK''"
| "GDALGetPaletteInterpretationName GPI_HLS = ''HLS''"

fun GDALGetColorInterpretationName :: "GDALColorInterp \<Rightarrow> cstring" where
  "GDALGetColorInterpretationName GCI_Undefined = ''Undefined''"
| "GDALGetColorInterpretationName GCI_GrayIndex = ''Gray''"
| "GDALGetColorInterpretationName GCI_PaletteIndex = ''Palette''"
| "GDALGetColorInterpretationName GCI_RedBand = ''Red''"
| "GDALGetColorInterpretationName GCI_GreenBand = ''Green''"
| "GDALGetColorInterpretationName GCI_BlueBand = ''Blue''"
| "GDALGetColorInterpretationName GCI_AlphaBand = ''Alpha''"
| "GDALGetColorInterpretationName GCI_HueBand = ''Hue''"
| "GDALGetColorInterpretationName GCI_SaturationBand = ''Saturation''"
| "GDALGetColorInterpretationName GCI_LightnessBand = ''Lightness''"
| "GDALGetColorInterpretationName GCI_CyanBand = ''Cyan''"
| "GDALGetColorInterpretationName GCI_MagentaBand = ''Magenta''"
| "GDALGetColorInterpretationName GCI_YellowBand = ''Yellow''"
| "GDALGetColorInterpretationName GCI_BlackBand = ''Black''"
| "GDALGetColorInterpretationName GCI_YCbCr_YBand = ''YCbCr_Y''"
| "GDALGetColorInterpretationName GCI_YCbCr_CbBand = ''YCbCr_Cb''"
| "GDALGetColorInterpretationName GCI_YCbCr_CrBand = ''YCbCr_Cr''"

section \<open>What a type can express\<close>

text \<open>The integers a component of a pixel holds exactly, from the least to the greatest; for the
  floating point types those up to the size of the mantissa.\<close>

fun integers :: "GDALDataType \<Rightarrow> int \<times> int" where
  "integers GDT_Byte = (0, 2 ^ 8 - 1)"
| "integers GDT_UInt16 = (0, 2 ^ 16 - 1)"
| "integers GDT_Int16 = (- (2 ^ 15), 2 ^ 15 - 1)"
| "integers GDT_CInt16 = (- (2 ^ 15), 2 ^ 15 - 1)"
| "integers GDT_UInt32 = (0, 2 ^ 32 - 1)"
| "integers GDT_Int32 = (- (2 ^ 31), 2 ^ 31 - 1)"
| "integers GDT_CInt32 = (- (2 ^ 31), 2 ^ 31 - 1)"
| "integers GDT_Float32 = (- (2 ^ 24), 2 ^ 24)"
| "integers GDT_CFloat32 = (- (2 ^ 24), 2 ^ 24)"
| "integers GDT_Float64 = (- (2 ^ 53), 2 ^ 53)"
| "integers GDT_CFloat64 = (- (2 ^ 53), 2 ^ 53)"
| "integers GDT_Unknown = (0, - 1)"

definition is_floating :: "GDALDataType \<Rightarrow> bool" where
  "is_floating e = (e \<in> {GDT_Float32, GDT_Float64, GDT_CFloat32, GDT_CFloat64})"

definition expresses :: "GDALDataType \<Rightarrow> GDALDataType \<Rightarrow> bool" where
  "expresses e a =
     ((GDALDataTypeIsComplex a \<longrightarrow> GDALDataTypeIsComplex e) \<and> (is_floating a \<longrightarrow> is_floating e) \<and>
      fst (integers e) \<le> fst (integers a) \<and> snd (integers a) \<le> snd (integers e))"

text \<open>The unions that lose values of the first type: those of an unsigned type with a signed integer
  type that is no wider, and of 32 bit integers with single precision.\<close>

definition loses :: "GDALDataType \<Rightarrow> GDALDataType \<Rightarrow> bool" where
  "loses a b =
     (a = GDT_UInt16 \<and> b \<in> {GDT_Int16, GDT_CInt16} \<or>
      a = GDT_UInt32 \<and> b \<in> {GDT_Int16, GDT_CInt16, GDT_Int32, GDT_CInt32} \<or>
      a \<in> {GDT_UInt32, GDT_Int32, GDT_CInt32} \<and> b \<in> {GDT_Float32, GDT_CFloat32})"

lemma names_differ: "distinct (map (\<lambda>e. map c_tolower (GDALGetDataTypeName e)) (GDT_Unknown # known_types))"
  by (simp add: known_types_def c_tolower_def c_isupper_def code_of_def char_of_def)

lemma known_type: "e \<noteq> GDT_Unknown \<Longrightarrow> e \<in> set known_types"
  by (cases e) (simp_all add: known_types_def)

lemma union_checked:
  "list_all (\<lambda>a. list_all (\<lambda>b. let u = GDALDataTypeUnion a b in
      (GDALDataTypeIsComplex u \<longleftrightarrow> GDALDataTypeIsComplex a \<or> GDALDataTypeIsComplex b) \<and>
      (expresses u a \<and> expresses u b \<longleftrightarrow> \<not> loses a b \<and> \<not> loses b a) \<and>
      list_all (\<lambda>e. expresses e a \<and> expresses e b \<longrightarrow> GDALGetDataTypeSize u \<le> GDALGetDataTypeSize e) known_types)
     known_types) known_types"
  by code_simp

section \<open>Properties\<close>

text \<open>
  C32.  The union of two known types does not depend on their order, is complex if one of them is, and
  is the smallest type that expresses both, as documented, except for the pairs \<open>loses\<close>: for these it
  does not express one of them.
\<close>

theorem GDALDataTypeUnion_least:
  assumes "a \<noteq> GDT_Unknown" and "b \<noteq> GDT_Unknown"
  shows "GDALDataTypeUnion a b = GDALDataTypeUnion b a \<and>
    (GDALDataTypeIsComplex (GDALDataTypeUnion a b) \<longleftrightarrow> GDALDataTypeIsComplex a \<or> GDALDataTypeIsComplex b) \<and>
    (expresses (GDALDataTypeUnion a b) a \<and> expresses (GDALDataTypeUnion a b) b \<longleftrightarrow> \<not> loses a b \<and> \<not> loses b a) \<and>
    (\<forall>e. expresses e a \<and> expresses e b \<longrightarrow> GDALGetDataTypeSize (GDALDataTypeUnion a b) \<le> GDALGetDataTypeSize e)"
proof (intro conjI allI)
  show "GDALDataTypeUnion a b = GDALDataTypeUnion b a"
    by (cases a; cases b) (simp_all add: GDALDataTypeUnion_def union_result_def)
  note all = union_checked [unfolded list_all_iff, rule_format, OF known_type [OF assms(1)] known_type [OF assms(2)], unfolded Let_def]
  show "GDALDataTypeIsComplex (GDALDataTypeUnion a b) \<longleftrightarrow> GDALDataTypeIsComplex a \<or> GDALDataTypeIsComplex b"
    "expresses (GDALDataTypeUnion a b) a \<and> expresses (GDALDataTypeUnion a b) b \<longleftrightarrow> \<not> loses a b \<and> \<not> loses b a"
    using all by blast+
  fix e
  have "expresses e a \<Longrightarrow> e \<noteq> GDT_Unknown"
    using assms(1) by (cases a) (auto simp: expresses_def)
  then show "expresses e a \<and> expresses e b \<longrightarrow> GDALGetDataTypeSize (GDALDataTypeUnion a b) \<le> GDALGetDataTypeSize e"
    using all known_type [of e] by blast
qed

theorem GDALDataTypeUnion_least_witness:
  "GDALDataTypeUnion GDT_UInt16 GDT_Int16 = GDT_Int16 \<and> \<not> expresses GDT_Int16 GDT_UInt16 \<and>
   expresses (GDALDataTypeUnion GDT_Byte GDT_CInt16) GDT_Byte"
  using GDALDataTypeUnion_least [of GDT_Byte GDT_CInt16] GDALDataTypeUnion_least [of GDT_UInt16 GDT_Int16]
  by (simp add: loses_def) (simp add: GDALDataTypeUnion_def union_result_def expresses_def)

text \<open>
  Names and types correspond: \<open>GDALGetDataTypeByName\<close> finds every known type by its name, in any
  case of letters, and whatever it finds has the name it was asked for.
\<close>

theorem GDALGetDataTypeByName_inverse:
  "(e \<noteq> GDT_Unknown \<and> EQUAL s (GDALGetDataTypeName e)) = (GDALGetDataTypeByName (Some s) = e \<and> e \<noteq> GDT_Unknown)"
proof -
  have all: "a \<in> set (GDT_Unknown # known_types)" for a by (cases a) (simp_all add: known_types_def)
  have distinct_names: "EQUAL (GDALGetDataTypeName a) (GDALGetDataTypeName b) \<longleftrightarrow> a = b" for a b
    using names_differ all [of a] all [of b] unfolding distinct_map EQUAL_def inj_on_def by blast
  have "e \<in> set es \<and> EQUAL s (GDALGetDataTypeName e) \<longleftrightarrow> type_by_name es s = e \<and> e \<noteq> GDT_Unknown"
    if "GDT_Unknown \<notin> set es" for es
    using that
  proof (induction es)
    case (Cons a es)
    show ?case
    proof (cases "EQUAL (GDALGetDataTypeName a) s")
      case True
      then have "EQUAL s (GDALGetDataTypeName e) \<longleftrightarrow> a = e"
        using distinct_names [of a e] EQUAL_sym EQUAL_trans by metis
      then show ?thesis using True Cons.prems by auto
    next
      case False
      then have "\<not> (a = e \<and> EQUAL s (GDALGetDataTypeName e))" using EQUAL_sym by blast
      then show ?thesis using False Cons by auto
    qed
  qed auto
  moreover have "GDT_Unknown \<notin> set known_types" "e \<noteq> GDT_Unknown \<longleftrightarrow> e \<in> set known_types"
    by (simp_all add: known_types_def) (cases e; simp)
  ultimately show ?thesis by (simp add: GDALGetDataTypeByName_def)
qed

end
