(* ===== verification/Mem_Dataset.thy ===== *)
theory Mem_Dataset
  imports Mem_Driver Data_Type Csl_Tokenize
begin

text \<open>
  The datasets of the in-memory driver, \<^verbatim>\<open>frmts/mem/memdataset.cpp\<close>: \<open>Create\<close>, \<open>AddBand\<close>
  and \<open>Open\<close>, which takes the address and the layout of the pixels from a list of options.

  The allocator is a parameter: from the regions in use and a size it gives the address of a new
  region, or NULL.
\<close>

section \<open>Memory and numbers\<close>

type_synonym region = "int \<times> int"
type_synonym allocator = "region list \<Rightarrow> int \<Rightarrow> int option"

record mem_heap =
  regions :: "region list"
  bytes :: memory

definition VSICalloc :: "allocator \<Rightarrow> int \<Rightarrow> int \<Rightarrow> mem_heap \<Rightarrow> (int \<times> mem_heap) option" where
  "VSICalloc alloc n1 n2 h =
     (let n = to_u64 n1 * to_u64 n2 in
      case alloc (regions h) n of
        None \<Rightarrow> None
      | Some a \<Rightarrow> Some (a, \<lparr>regions = (a, n) # regions h, bytes = write_bytes (bytes h) a (replicate (nat n) 0)\<rparr>))"

definition VSIFree :: "int \<Rightarrow> mem_heap \<Rightarrow> mem_heap" where
  "VSIFree a h = h\<lparr>regions := filter (\<lambda>r. fst r \<noteq> a) (regions h)\<rparr>"

text \<open>\<^verbatim>\<open>atoll\<close> (clamped to 64 bits) and \<^verbatim>\<open>atoi\<close>, which cuts its result to 32 bits.\<close>

definition digits_value :: "cstring \<Rightarrow> int" where
  "digits_value s = foldl (\<lambda>v c. 10 * v + (int (code_of c) - 48)) 0 (takeWhile c_isdigit s)"

definition c_atoll :: "cstring \<Rightarrow> int" where
  "c_atoll s =
     (case dropWhile c_isspace s of
        [] \<Rightarrow> 0
      | c # cs \<Rightarrow>
          if c = CHR ''-'' then max (- (2 ^ 63)) (- digits_value cs)
          else if c = CHR ''+'' then min (2 ^ 63 - 1) (digits_value cs)
          else min (2 ^ 63 - 1) (digits_value (c # cs)))"

definition c_atoi :: "cstring \<Rightarrow> int" where
  "c_atoi s = to_i32 (c_atoll s)"

text \<open>The hexadecimal digits \<^verbatim>\<open>%p\<close> reads behind \<^verbatim>\<open>0x\<close>; without any, the pointer stays NULL.\<close>

definition hex_digit :: "char \<Rightarrow> int option" where
  "hex_digit c =
     (let n = int (code_of (c_tolower c)) in
      if 48 \<le> n \<and> n \<le> 57 then Some (n - 48) else if 97 \<le> n \<and> n \<le> 102 then Some (n - 87) else None)"

fun hex_scan :: "int \<Rightarrow> cstring \<Rightarrow> int" where
  "hex_scan v [] = v"
| "hex_scan v (c # cs) = (case hex_digit c of None \<Rightarrow> v | Some d \<Rightarrow> hex_scan (16 * v + d) cs)"

definition CPLScanUIntBig :: "cstring \<Rightarrow> nat \<Rightarrow> int" where
  "CPLScanUIntBig pszString nMaxLength = to_u64 (c_atoll (take nMaxLength pszString))"

definition CPLScanPointer :: "cstring \<Rightarrow> nat \<Rightarrow> int" where
  "CPLScanPointer pszString nMaxLength =
     (let n = min nMaxLength 127; szTemp = take n pszString in
      if EQUALN szTemp ''0x'' 2 then min (2 ^ 64 - 1) (hex_scan 0 (drop 2 szTemp))
      else CPLScanUIntBig szTemp n)"

section \<open>Bands and datasets\<close>

record mem_dataset =
  nDSXSize :: int
  nDSYSize :: int
  papoBands :: "mem_band list"

text \<open>The constructor, and the size of the raster that \<open>SetBand\<close> stores in the band.\<close>

definition MEMRasterBand :: "int \<Rightarrow> int \<Rightarrow> GDALDataType \<Rightarrow> int \<Rightarrow> int \<Rightarrow> int \<Rightarrow> mem_band" where
  "MEMRasterBand nX nY eType pabyDataIn nPixelOffsetIn nLineOffsetIn =
     (let nPixelOffsetIn = (if nPixelOffsetIn = 0 then c_div (GDALGetDataTypeSize eType) 8 else nPixelOffsetIn);
          nLineOffsetIn = (if nLineOffsetIn = 0 then to_i32 (nPixelOffsetIn * nX) else nLineOffsetIn)
      in \<lparr>pabyData = pabyDataIn, nPixelOffset = nPixelOffsetIn, nLineOffset = nLineOffsetIn,
          nWordSize = c_div (GDALGetDataTypeSize eType) 8, nLinePixels = nX, nLines = nY\<rparr>)"

text \<open>The loop that allocates the bands, \<open>n\<close> of which are missing; on failure it frees them.\<close>

primrec alloc_bands :: "allocator \<Rightarrow> int \<Rightarrow> int \<Rightarrow> nat \<Rightarrow> int list \<Rightarrow> mem_heap \<Rightarrow> int list option \<times> mem_heap" where
  "alloc_bands alloc nWord nPixels 0 papBandData h = (Some papBandData, h)"
| "alloc_bands alloc nWord nPixels (Suc n) papBandData h =
     (case VSICalloc alloc nWord nPixels h of
        None \<Rightarrow> (None, fold VSIFree papBandData h)
      | Some (p, h) \<Rightarrow> alloc_bands alloc nWord nPixels n (papBandData @ [p]) h)"

text \<open>The array of pointers is allocated by a routine that aborts the program on a negative size.\<close>

definition MEMDataset_Create ::
    "allocator \<Rightarrow> int \<Rightarrow> int \<Rightarrow> int \<Rightarrow> GDALDataType \<Rightarrow> mem_heap \<Rightarrow> (mem_dataset option \<times> mem_heap) option" where
  "MEMDataset_Create alloc nX nY nBands eType h =
     (let nWord = c_div (GDALGetDataTypeSize eType) 8 in
      if nBands < 0 then None
      else case alloc_bands alloc nWord (to_i32 (nX * nY)) (nat nBands) [] h of
        (None, h) \<Rightarrow> Some (None, h)
      | (Some papBandData, h) \<Rightarrow>
          Some (Some \<lparr>nDSXSize = nX, nDSYSize = nY,
                      papoBands = map (\<lambda>p. MEMRasterBand nX nY eType p 0 0) papBandData\<rparr>, h))"

definition MEMDataset_AddBand ::
    "allocator \<Rightarrow> GDALDataType \<Rightarrow> csl \<Rightarrow> mem_dataset \<Rightarrow> mem_heap \<Rightarrow> CPLErr \<times> mem_dataset \<times> mem_heap" where
  "MEMDataset_AddBand alloc eType papszOptions ds h =
     (let nPixelSize = c_div (GDALGetDataTypeSize eType) 8;
          add = (\<lambda>p po lo. ds\<lparr>papoBands := papoBands ds @ [MEMRasterBand (nDSXSize ds) (nDSYSize ds) eType p po lo]\<rparr>)
      in case CSLFetchNameValue papszOptions (Some ''DATAPOINTER'') of
           None \<Rightarrow>
             (case VSICalloc alloc (to_i32 (nPixelSize * nDSXSize ds)) (nDSYSize ds) h of
                None \<Rightarrow> (CE_Failure, ds, h)
              | Some (pNew, h) \<Rightarrow> (CE_None, add pNew nPixelSize (to_i32 (nPixelSize * nDSXSize ds)), h))
         | Some pszDataPointer \<Rightarrow>
             (let pNew = CPLScanPointer pszDataPointer (length pszDataPointer);
                  nPixelOff = (case CSLFetchNameValue papszOptions (Some ''PIXELOFFSET'') of
                                    None \<Rightarrow> nPixelSize | Some v \<Rightarrow> c_atoi v);
                  nLineOff = (case CSLFetchNameValue papszOptions (Some ''LINEOFFSET'') of
                                   None \<Rightarrow> to_i32 (nDSXSize ds * nPixelOff) | Some v \<Rightarrow> c_atoi v)
              in (CE_None, add pNew nPixelOff nLineOff, h)))"

section \<open>Opening an array in memory\<close>

text \<open>The type given by its number or its name.\<close>

fun type_of_option :: "cstring option \<Rightarrow> GDALDataType option" where
  "type_of_option None = Some GDT_Byte"
| "type_of_option (Some v) =
     (if 0 < c_atoi v \<and> c_atoi v < 12 then Some (known_types ! nat (c_atoi v - 1))
      else case type_by_name (GDT_Unknown # known_types) v of GDT_Unknown \<Rightarrow> None | e \<Rightarrow> Some e)"

definition option_or :: "csl \<Rightarrow> cstring \<Rightarrow> int \<Rightarrow> int" where
  "option_or papszOptions name n = (case CSLFetchNameValue papszOptions (Some name) of None \<Rightarrow> n | Some v \<Rightarrow> c_atoi v)"

text \<open>\<open>nBandOffset\<close> is a \<^verbatim>\<open>size_t\<close>.\<close>

definition open_bands :: "csl \<Rightarrow> int \<Rightarrow> int \<Rightarrow> int \<Rightarrow> GDALDataType \<Rightarrow> cstring \<Rightarrow> mem_band list" where
  "open_bands papszOptions nX nY nBands eType pszDataPointer =
     (let nPixelOff = option_or papszOptions ''PIXELOFFSET'' (c_div (GDALGetDataTypeSize eType) 8);
          nLineOff = option_or papszOptions ''LINEOFFSET'' (to_i32 (nX * nPixelOff));
          nBandOffset = to_u64 (case CSLFetchNameValue papszOptions (Some ''BANDOFFSET'') of
                                  None \<Rightarrow> nLineOff * nY | Some v \<Rightarrow> c_atoi v);
          pabyCur = CPLScanPointer pszDataPointer (length pszDataPointer)
      in map (\<lambda>iBand. MEMRasterBand nX nY eType (to_u64 (pabyCur + int iBand * nBandOffset))
                        nPixelOff nLineOff) [0..<nat nBands])"

definition MEMDataset_Open :: "cstring \<Rightarrow> bool \<Rightarrow> mem_dataset option option" where
  "MEMDataset_Open pszFilename fp =
     (if \<not> EQUALN pszFilename ''MEM:::'' 6 \<or> fp then Some None
      else do {
        toks \<leftarrow> CSLTokenizeStringComplex (Some (drop 6 pszFilename)) '','' True False;
        let papszOptions = (if toks = [] then None else Some toks);
        let fetch = (\<lambda>n. CSLFetchNameValue papszOptions (Some n));
        Some (case (fetch ''PIXELS'', fetch ''LINES'', fetch ''DATAPOINTER'') of
          (Some pixels, Some lines, Some pszDataPointer) \<Rightarrow>
            if c_atoi pixels \<le> 0 then None
            else if c_atoi lines \<le> 0 then None
            else
              (let nBands = option_or papszOptions ''BANDS'' 1 in
               if nBands > 10000 then None
               else case type_of_option (fetch ''DATATYPE'') of
                 None \<Rightarrow> None
               | Some eType \<Rightarrow>
                   Some \<lparr>nDSXSize = c_atoi pixels, nDSYSize = c_atoi lines,
                         papoBands = open_bands papszOptions (c_atoi pixels) (c_atoi lines) nBands eType pszDataPointer\<rparr>)
        | _ \<Rightarrow> None)
      })"

section \<open>Allocation\<close>

text \<open>Two regions that share no byte.\<close>

definition apart :: "region \<Rightarrow> region \<Rightarrow> bool" where
  "apart r r' = (fst r + snd r \<le> fst r' \<or> fst r' + snd r' \<le> fst r)"

definition in_region :: "int \<Rightarrow> region \<Rightarrow> bool" where
  "in_region p r = (fst r \<le> p \<and> p < fst r + snd r)"

text \<open>What \<^verbatim>\<open>calloc\<close> documents: a new region has nothing in common with those in use.\<close>

definition fresh_alloc :: "allocator \<Rightarrow> bool" where
  "fresh_alloc alloc = (\<forall>rs n a. alloc rs n = Some a \<longrightarrow> (\<forall>r \<in> set rs. apart (a, n) r))"

lemma apart_sym: "apart r r' \<longleftrightarrow> apart r' r"
  by (auto simp: apart_def)

lemma apart_bytes: "apart r r' \<Longrightarrow> in_region p r \<Longrightarrow> in_region p r' \<Longrightarrow> False"
  by (auto simp: apart_def in_region_def)

lemma VSICalloc_region:
  assumes "fresh_alloc alloc" and "VSICalloc alloc n1 n2 h = Some (a, h')"
  shows "regions h' = (a, to_u64 n1 * to_u64 n2) # regions h" and
    "\<forall>r \<in> set (regions h). apart (a, to_u64 n1 * to_u64 n2) r" and
    "bytes h' p = (if in_region p (a, to_u64 n1 * to_u64 n2) then 0 else bytes h p)"
proof -
  have n: "0 \<le> to_u64 n1 * to_u64 n2" by (simp add: to_u64_def)
  then show "regions h' = (a, to_u64 n1 * to_u64 n2) # regions h"
    "\<forall>r \<in> set (regions h). apart (a, to_u64 n1 * to_u64 n2) r"
    "bytes h' p = (if in_region p (a, to_u64 n1 * to_u64 n2) then 0 else bytes h p)"
    using assms
    by (auto simp: VSICalloc_def Let_def fresh_alloc_def write_bytes_def in_region_def nat_less_iff split: option.splits)
qed

lemma alloc_bands_regions:
  assumes "fresh_alloc alloc" and "n = to_u64 nWord * to_u64 nPixels"
    and "alloc_bands alloc nWord nPixels k ps h = (Some qs, h')" and "sorted_wrt apart (regions h)"
  shows "\<exists>new. qs = ps @ new \<and> length new = k \<and> regions h' = rev (map (\<lambda>q. (q, n)) new) @ regions h \<and>
    sorted_wrt apart (regions h') \<and> (\<forall>p. bytes h' p = (if \<exists>q \<in> set new. in_region p (q, n) then 0 else bytes h p))"
  using assms(3,4)
proof (induction k arbitrary: ps h)
  case (Suc k)
  obtain p h1 where h1: "VSICalloc alloc nWord nPixels h = Some (p, h1)"
    "alloc_bands alloc nWord nPixels k (ps @ [p]) h1 = (Some qs, h')"
    using Suc.prems(1) by (auto split: option.splits)
  note r = VSICalloc_region [OF assms(1) h1(1), folded assms(2)]
  have "sorted_wrt apart (regions h1)" using r(1,2) Suc.prems(2) by simp
  then obtain new where new: "qs = (ps @ [p]) @ new" "length new = k"
    "regions h' = rev (map (\<lambda>q. (q, n)) new) @ regions h1" "sorted_wrt apart (regions h')"
    "\<forall>x. bytes h' x = (if \<exists>q \<in> set new. in_region x (q, n) then 0 else bytes h1 x)"
    using Suc.IH [OF h1(2)] by blast
  then show ?case using r(1,3) by (intro exI [of _ "p # new"]) auto
qed simp

lemma new_regions_apart:
  assumes "sorted_wrt apart (rev (map (\<lambda>q. (q, n)) ps) @ rs)"
  shows "i < k \<Longrightarrow> k < length ps \<Longrightarrow> apart (ps ! i, n) (ps ! k, n)" and
    "q \<in> set ps \<Longrightarrow> r \<in> set rs \<Longrightarrow> apart (q, n) r"
  using assms sorted_wrt_nth_less [of "\<lambda>q q'. apart (q', n) (q, n)" ps i k]
  by (auto simp: sorted_wrt_append sorted_wrt_rev sorted_wrt_map apart_sym)

section \<open>The bands of a new dataset\<close>

definition dataset_world :: "mem_dataset \<Rightarrow> mem_heap \<Rightarrow> mem_world" where
  "dataset_world ds h =
     \<lparr>memory = bytes h, mem_bands = (\<lambda>k. if k < length (papoBands ds) then Some (papoBands ds ! k) else None)\<rparr>"

text \<open>A band whose pixels and lines follow each other.\<close>

definition packed :: "int \<Rightarrow> int \<Rightarrow> int \<Rightarrow> int \<Rightarrow> mem_band" where
  "packed w x y p = \<lparr>pabyData = p, nPixelOffset = w, nLineOffset = w * x, nWordSize = w, nLinePixels = x, nLines = y\<rparr>"

lemma word_size:
  assumes "e \<noteq> GDT_Unknown"
  shows "c_div (GDALGetDataTypeSize e) 8 \<in> {1, 2, 4, 8, 16}"
  using assms by (cases e) (simp_all add: c_div_def)

lemma MEMRasterBand_packed:
  assumes "c_div (GDALGetDataTypeSize e) 8 = w" and "0 < w" and "0 < x" and "w * x < 2 ^ 31"
  shows "MEMRasterBand x y e p 0 0 = packed w x y p"
proof -
  have "0 < w * x" using assms(2,3) by simp
  then have "to_i32 (w * x) = w * x" using assms(4) by (intro to_i32_id) auto
  then show ?thesis using assms by (simp add: MEMRasterBand_def packed_def Let_def)
qed

text \<open>The bytes of a packed band: the \<open>w * x * y\<close> bytes from its start, each once.\<close>

lemma packed_offset:
  fixes w x y :: int
  assumes "0 \<le> l" "l < y" "i < nat x" "j < nat w"
  shows "pixel_addr (packed w x y p) l i j = p + ((l * x + int i) * w + int j)" and
    "0 \<le> (l * x + int i) * w + int j" and "(l * x + int i) * w + int j < w * x * y"
proof -
  show "pixel_addr (packed w x y p) l i j = p + ((l * x + int i) * w + int j)"
    by (simp add: pixel_addr_def packed_def algebra_simps)
  have i: "int i + 1 \<le> x" and j: "int j + 1 \<le> w" using assms by simp_all
  show "0 \<le> (l * x + int i) * w + int j" using assms i j by simp
  have "l * x + int i + 1 \<le> (l + 1) * x" using i by (simp add: algebra_simps)
  also have "\<dots> \<le> y * x" using assms i by (intro mult_right_mono) auto
  finally have "(l * x + int i + 1) * w \<le> y * x * w" using j by (intro mult_right_mono) auto
  then show "(l * x + int i) * w + int j < w * x * y" using j by (simp add: algebra_simps)
qed

lemma packed_in_region:
  assumes "byte_of_line (packed w x y p) l i j"
  shows "in_region (pixel_addr (packed w x y p) l i j) (p, w * x * y)"
proof -
  have "0 \<le> l" "l < y" "i < nat x" "j < nat w" using assms by (simp_all add: byte_of_line_def packed_def)
  then show ?thesis using packed_offset [of l y i x j w] by (simp only: in_region_def) (simp add: packed_def)
qed

lemma packed_inj:
  fixes w x y :: int
  assumes "byte_of_line (packed w x y p) l i j" and "byte_of_line (packed w x y p) l' i' j'"
    and "pixel_addr (packed w x y p) l i j = pixel_addr (packed w x y p) l' i' j'"
  shows "l = l' \<and> i = i' \<and> j = j'"
proof -
  have r: "0 \<le> l" "l < y" "i < nat x" "j < nat w" "0 \<le> l'" "l' < y" "i' < nat x" "j' < nat w"
    using assms(1,2) by (simp_all add: byte_of_line_def packed_def)
  have "(l * x + int i) * w + int j = (l' * x + int i') * w + int j'"
    using assms(3) packed_offset(1) [OF r(1-4), of p] packed_offset(1) [OF r(5-8), of p] by simp
  moreover have "((l * x + int i) * w + int j) div w = l * x + int i" "((l * x + int i) * w + int j) mod w = int j"
    "((l' * x + int i') * w + int j') div w = l' * x + int i'" "((l' * x + int i') * w + int j') mod w = int j'"
    using r by (simp_all add: div_pos_pos_trivial)
  ultimately have "l * x + int i = l' * x + int i'" "j = j'" by (metis, metis of_nat_eq_iff)
  moreover have "(l * x + int i) div x = l" "(l * x + int i) mod x = int i" "(l' * x + int i') div x = l'"
    "(l' * x + int i') mod x = int i'"
    using r by (simp_all add: div_pos_pos_trivial)
  ultimately show ?thesis by (metis of_nat_eq_iff)
qed

section \<open>Properties\<close>

text \<open>
  C21.  A dataset created in memory is fit for the block cache: if the size of a band is no more than
  an \<^verbatim>\<open>int\<close> counts, each band gets memory of its own for all its lines, cleared to zero, no two bytes
  of the dataset share an address, and the memory in use before is untouched.
\<close>

theorem MEMDataset_Create_valid:
  assumes "fresh_alloc alloc" and "sorted_wrt apart (regions h)" and "e \<noteq> GDT_Unknown"
    and "0 < x" and "0 < y" and "x * y < 2 ^ 31" and "c_div (GDALGetDataTypeSize e) 8 * x < 2 ^ 31"
    and "MEMDataset_Create alloc x y n e h = Some (Some ds, h')"
  shows "mem_valid (dataset_world ds h') \<and> int (length (papoBands ds)) = n \<and>
    (\<forall>b \<in> set (papoBands ds). \<forall>l i j. byte_of_line b l i j \<longrightarrow>
       (\<exists>r \<in> set (regions h') - set (regions h). in_region (pixel_addr b l i j) r) \<and> bytes h' (pixel_addr b l i j) = 0) \<and>
    (\<forall>r \<in> set (regions h). r \<in> set (regions h') \<and> (\<forall>p. in_region p r \<longrightarrow> bytes h' p = bytes h p))"
proof -
  define w where "w = c_div (GDALGetDataTypeSize e) 8"
  have w: "0 < w" "w \<le> 16" using word_size [OF assms(3)] by (auto simp: w_def)
  have pix: "to_i32 (x * y) = x * y" using assms(4-6) by (intro to_i32_id) (auto intro: order_trans [of _ 0])
  have sz: "to_u64 w * to_u64 (x * y) = w * x * y"
    using w assms(4-6) by (simp add: to_u64_def)
  obtain ps where ps: "alloc_bands alloc w (x * y) (nat n) [] h = (Some ps, h')" "0 \<le> n"
    "ds = \<lparr>nDSXSize = x, nDSYSize = y, papoBands = map (\<lambda>p. MEMRasterBand x y e p 0 0) ps\<rparr>"
    using assms(8) pix by (auto simp: MEMDataset_Create_def Let_def w_def split: if_splits prod.splits option.splits)
  have bands: "papoBands ds = map (packed w x y) ps"
    using MEMRasterBand_packed [OF w_def [symmetric] w(1) assms(4)] assms(7) ps(3) by (simp add: w_def)
  have r: "length ps = nat n" "regions h' = rev (map (\<lambda>q. (q, w * x * y)) ps) @ regions h"
    "sorted_wrt apart (regions h')"
    "\<And>p. bytes h' p = (if \<exists>q \<in> set ps. in_region p (q, w * x * y) then 0 else bytes h p)"
    using alloc_bands_regions [OF assms(1) sz [symmetric] ps(1) assms(2)] by auto
  have pos: "0 < w * x * y" using w assms(4,5) by simp
  note away = new_regions_apart [OF r(3) [unfolded r(2)]]
  have band: "mem_bands (dataset_world ds h') k = Some b \<longleftrightarrow> k < length ps \<and> b = packed w x y (ps ! k)" for k b
    using bands by (auto simp: dataset_world_def)
  have "x * w < 2 ^ 31" using assms(7) by (simp add: w_def mult.commute)
  then have fine: "band_fine (packed w x y p)" for p
    using w(1) assms(4) by (simp add: band_fine_def packed_def)
  have "k = k' \<and> l = l' \<and> i = i' \<and> j = j'"
    if b: "mem_bands (dataset_world ds h') k = Some b" "mem_bands (dataset_world ds h') k' = Some b'"
      "byte_of_line b l i j" "byte_of_line b' l' i' j'" "pixel_addr b l i j = pixel_addr b' l' i' j'"
    for k b k' b' l i j l' i' j'
  proof -
    have k: "k < length ps" "b = packed w x y (ps ! k)" "k' < length ps" "b' = packed w x y (ps ! k')"
      using b(1,2) band by simp_all
    have "in_region (pixel_addr b l i j) (ps ! k, w * x * y)" "in_region (pixel_addr b l i j) (ps ! k', w * x * y)"
      using packed_in_region [OF b(3) [unfolded k(2)]] packed_in_region [OF b(4) [unfolded k(4)]] b(5) k(2,4) by simp_all
    then have "k = k'" using apart_bytes away(1) [of k k'] away(1) [of k' k] k(1,3) by (metis linorder_neqE_nat)
    then show ?thesis using packed_inj b(3-5) k(2,4) by blast
  qed
  moreover have "band_fine b" if "mem_bands (dataset_world ds h') k = Some b" for k b
    using that band fine by simp
  ultimately have "mem_valid (dataset_world ds h')" unfolding mem_valid_def by blast
  moreover have "int (length (papoBands ds)) = n" using bands r(1) ps(2) by simp
  moreover have "(\<exists>r \<in> set (regions h') - set (regions h). in_region (pixel_addr b l i j) r) \<and> bytes h' (pixel_addr b l i j) = 0"
    if b: "b \<in> set (papoBands ds)" "byte_of_line b l i j" for b l i j
  proof -
    obtain q where q: "q \<in> set ps" "b = packed w x y q" using b(1) bands by auto
    then have i: "in_region (pixel_addr b l i j) (q, w * x * y)" using packed_in_region b(2) by simp
    moreover have "(q, w * x * y) \<notin> set (regions h)" using away(2) [OF q(1), of "(q, w * x * y)"] pos by (auto simp: apart_def)
    ultimately show ?thesis using q(1) r(2,4) by auto
  qed
  moreover have "r \<in> set (regions h') \<and> (\<forall>p. in_region p r \<longrightarrow> bytes h' p = bytes h p)" if "r \<in> set (regions h)" for r
  proof -
    have "\<not> (\<exists>q \<in> set ps. in_region p (q, w * x * y))" if "in_region p r" for p
      using away(2) [OF _ \<open>r \<in> set (regions h)\<close>] apart_bytes [OF _ _ that] by blast
    then show ?thesis using that r(2,4) by simp
  qed
  ultimately show ?thesis by blast
qed

text \<open>An allocator that takes the memory behind the regions in use.\<close>

definition next_free :: allocator where
  "next_free rs n = (if n < 2 ^ 32 then Some (Max (insert 0 ((\<lambda>r. fst r + snd r) ` set rs))) else None)"

lemma next_free_fresh: "fresh_alloc next_free"
  by (auto simp: fresh_alloc_def next_free_def apart_def intro!: Max_ge)

theorem MEMDataset_Create_valid_witness:
  "\<exists>ds h'. MEMDataset_Create next_free 2 3 2 GDT_Int16 \<lparr>regions = [], bytes = (\<lambda>p. 7)\<rparr> = Some (Some ds, h') \<and>
     mem_valid (dataset_world ds h') \<and> length (papoBands ds) = 2"
proof -
  let ?h = "\<lparr>regions = [], bytes = (\<lambda>p. 7)\<rparr>"
  have "to_i32 6 = 6" "to_u64 6 = 6" "to_u64 2 = 2" "c_div 16 8 = 2"
    by (simp_all add: to_i32_def to_u64_def c_div_def)
  then obtain ds h' where c: "MEMDataset_Create next_free 2 3 2 GDT_Int16 ?h = Some (Some ds, h')"
    by (simp add: MEMDataset_Create_def VSICalloc_def next_free_def numeral_2_eq_2 Let_def)
  show ?thesis
    using MEMDataset_Create_valid [OF next_free_fresh _ _ _ _ _ _ c] c by (simp add: c_div_def)
qed

text \<open>When the allocator grants every request of the size of a band, the loop gets them all.\<close>

lemma alloc_bands_granted:
  assumes "\<forall>rs. alloc rs (to_u64 nWord * to_u64 nPixels) \<noteq> None"
  shows "\<exists>qs h'. alloc_bands alloc nWord nPixels k ps h = (Some qs, h')"
proof (induction k arbitrary: ps h)
  case (Suc k)
  obtain p h1 where "VSICalloc alloc nWord nPixels h = Some (p, h1)"
    using spec [OF assms, of "regions h"] by (auto simp: VSICalloc_def Let_def split: option.splits)
  then show ?case using Suc.IH by simp
qed simp



end
