(* ===== verification/Mem_Cache.thy ===== *)
theory Mem_Cache
  imports Mem_Dataset
begin

text \<open>
  Whole runs: a dataset created by the in-memory driver behind the block cache.
\<close>

text \<open>The part of a band the cache uses, as the constructor of \<open>MEMRasterBand\<close> and \<open>SetBand\<close> leave it,
  and a process that has only this dataset, with the block tables of its bands set up.\<close>

definition raster_part :: "GDALDataType \<Rightarrow> int \<Rightarrow> int \<Rightarrow> band" where
  "raster_part eType nX nY =
     GDALRasterBand\<lparr>nRasterXSize := nX, nRasterYSize := nY, nBlockXSize := nX, nBlockYSize := 1,
       nDataTypeBits := GDALGetDataTypeSize eType, bReadOnly := False\<rparr>"

definition created :: "int \<Rightarrow> GDALDataType \<Rightarrow> mem_dataset \<Rightarrow> mem_heap \<Rightarrow> (byte list, mem_world) gdal" where
  "created nMax eType ds h =
     \<lparr>heap_blocks = Map.empty, poNewest = None, poOldest = None, next_address = 0, nCacheUsed = 0, nCacheMax = nMax,
      bCacheMaxInitialized = True, GDAL_CACHEMAX = None,
      bands = (\<lambda>k. if k < length (papoBands ds) then Some (snd (InitBlockInfo (raster_part eType (nDSXSize ds) (nDSYSize ds)))) else None),
      world = dataset_world ds h\<rparr>"

text \<open>The block table of such a band has one block to a line.\<close>

lemma raster_part_table:
  assumes "0 < x" and "x \<le> 2 ^ 30" and "0 < y" and "y < 2 ^ 30" and "e \<noteq> GDT_Unknown" and "c_div (GDALGetDataTypeSize e) 8 * x < 2 ^ 31"
  shows "\<exists>B. InitBlockInfo (raster_part e x y) = (True, B) \<and> table_ok B \<and> \<not> bReadOnly B \<and> nBlocksPerRow B = 1 \<and>
    nBlocksPerColumn B = y \<and> (\<forall>x' y'. in_band B x' y' \<longrightarrow> get_slot B x' y' = Some None) \<and>
    nBlockXSize B = x \<and> nBlockYSize B = 1 \<and> nDataTypeBits B = GDALGetDataTypeSize e"
proof -
  let ?w = "c_div (GDALGetDataTypeSize e) 8"
  let ?B = "(raster_part e x y)\<lparr>nBlocksPerRow := 1, nBlocksPerColumn := y, papoBlocks := Some (Blocks (replicate (nat y) None))\<rparr>"
  have w: "0 < ?w" using word_size [OF assms(5)] by auto
  have "x \<le> ?w * x" using mult_right_mono [of 1 ?w x] w assms(1) by simp
  then have "x < 2 ^ 31" using assms(6) by linarith
  then have x: "x < 2 ^ 31" "0 < x * ?w" "x * ?w < 2 ^ 31" using assms(1,6) w by (simp_all add: mult.commute)
  have ov: "to_i32 x = x" "to_i32 (x * ?w) = x * ?w" using x assms(1) by (auto intro!: to_i32_id)
  have d: "c_div (x + x - 1) x = 1" "c_div (y + 1 - 1) 1 = y"
    using assms(1,3) by (simp_all add: c_div_def div_pos_geq div_pos_pos_trivial)
  have "(2 * y) div y \<le> INT_MAX div y" using assms(3,4) by (intro zdiv_mono1) (auto simp: INT_MAX_def)
  then have m: "1 < c_div INT_MAX y" using assms(3) by (simp add: c_div_def INT_MAX_def)
  have "InitBlockInfo (raster_part e x y) = (True, ?B)"
    using assms x ov d m by (simp add: InitBlockInfo_def raster_part_def GDALRasterBand_def SUBBLOCK_SIZE_def Let_def INT_MAX_def c_div_def)
  then show ?thesis
    using assms by (intro exI [of _ ?B])
      (auto simp: table_ok_def in_band_def get_slot_def at_index_def block_index_def raster_part_def GDALRasterBand_def)
qed


text \<open>What is assumed of the dataset: the sizes the creation and the tables accept.\<close>

definition fits_memory :: "GDALDataType \<Rightarrow> int \<Rightarrow> int \<Rightarrow> bool" where
  "fits_memory e x y =
     (e \<noteq> GDT_Unknown \<and> 0 < x \<and> x \<le> 2 ^ 30 \<and> 0 < y \<and> y < 2 ^ 30 \<and> x * y < 2 ^ 31 \<and>
      c_div (GDALGetDataTypeSize e) 8 * x < 2 ^ 31)"

lemma MEMDataset_Create_bands:
  assumes "MEMDataset_Create alloc x y n e h = Some (Some ds, h')" and "fits_memory e x y"
  shows "nDSXSize ds = x" and "nDSYSize ds = y" and "0 \<le> n" and
    "\<exists>ps. papoBands ds = map (packed (c_div (GDALGetDataTypeSize e) 8) x y) ps"
proof -
  obtain ps where ps: "0 \<le> n" "ds = \<lparr>nDSXSize = x, nDSYSize = y, papoBands = map (\<lambda>p. MEMRasterBand x y e p 0 0) ps\<rparr>"
    using assms(1) by (auto simp: MEMDataset_Create_def Let_def split: if_splits prod.splits option.splits)
  have "0 < c_div (GDALGetDataTypeSize e) 8" using word_size [of e] assms(2) by (auto simp: fits_memory_def)
  then have "MEMRasterBand x y e p 0 0 = packed (c_div (GDALGetDataTypeSize e) 8) x y p" for p
    using assms(2) by (intro MEMRasterBand_packed) (auto simp: fits_memory_def)
  then show "nDSXSize ds = x" "nDSYSize ds = y" "0 \<le> n"
    "\<exists>ps. papoBands ds = map (packed (c_div (GDALGetDataTypeSize e) 8) x y) ps"
    using ps by auto
qed

text \<open>A dataset just created: nothing is cached, and every line is zero.\<close>

lemma created_ok:
  fixes m :: int
  assumes "MEMDataset_Create alloc x y n e h = Some (Some ds, h')" and "fits_memory e x y"
    and "fresh_alloc alloc" and "sorted_wrt apart (regions h)"
  defines "w \<equiv> c_div (GDALGetDataTypeSize e) 8"
  defines "s \<equiv> created m e ds h'"
  shows "cache_ok s []" and "coherent mem_store s" and
    "int k < n \<Longrightarrow> \<exists>B. bands s k = Some B \<and> table_ok B \<and> \<not> bReadOnly B \<and> nBlocksPerRow B = 1 \<and> nBlocksPerColumn B = y \<and>
       (\<forall>x' y'. size_in_bytes (fresh_block B k x' y' :: byte list block) = x * w)" and
    "inside mem_store (world s) k x' y' \<longleftrightarrow> int k < n \<and> x' = 0 \<and> 0 \<le> y' \<and> y' < y" and
    "int k < n \<Longrightarrow> fits mem_store (world s) k d \<longleftrightarrow> int (length d) = x * w" and
    "int k < n \<Longrightarrow> 0 \<le> y' \<Longrightarrow> y' < y \<Longrightarrow> seen mem_store s k 0 y' = Some (replicate (nat (x * w)) 0)"
proof -
  let ?B = "snd (InitBlockInfo (raster_part e x y))"
  have sz: "e \<noteq> GDT_Unknown" "0 < x" "x \<le> 2 ^ 30" "0 < y" "y < 2 ^ 30" "x * y < 2 ^ 31" "w * x < 2 ^ 31"
    using assms(2) by (simp_all add: fits_memory_def w_def)
  note tab = raster_part_table [OF sz(2-5,1) sz(7) [unfolded w_def]]
  note c = MEMDataset_Create_bands [OF assms(1,2), folded w_def]
  have v: "mem_valid (dataset_world ds h')" "int (length (papoBands ds)) = n"
    "\<And>b l i j. b \<in> set (papoBands ds) \<Longrightarrow> byte_of_line b l i j \<Longrightarrow> bytes h' (pixel_addr b l i j) = 0"
    using MEMDataset_Create_valid [OF assms(3,4) sz(1,2,4,6) sz(7) [unfolded w_def] assms(1)] by blast+
  have len: "k < length (papoBands ds) \<longleftrightarrow> int k < n" for k using v(2) by auto
  have bands: "bands s k = (if int k < n then Some ?B else None)" for k
    by (simp add: s_def created_def c len)
  have w0: "0 < w" using word_size [OF sz(1)] by (auto simp: w_def)
  have none: "cached s k x' y' = None" for k x' y'
    using tab by (auto simp: cached_def bands)
  have "contents s = Map.empty" by (simp add: s_def created_def contents_def fun_eq_iff)
  then show "cache_ok s []"
    using tab by (auto simp: cache_ok_def tables_ok_def none bands_ok_def bands lru_def)
      (simp_all add: s_def created_def neighbours_def)
  have world: "world s = dataset_world ds h'" by (simp add: s_def created_def)
  show "coherent mem_store s" using v(1) by (simp add: coherent_def none world mem_store_def)
  have "0 < w * x" using w0 sz(2) by simp
  then have "to_i32 x = x" "to_i32 (x * w) = x * w"
    using sz by (auto intro!: to_i32_id simp: mult.commute [of x])
  then have "size_in_bytes (fresh_block ?B k x' y' :: byte list block) = x * w" for k x' y'
    using tab sz(2) by (auto simp: size_in_bytes_def fresh_block_def new_block_def GetBlockSize_def w_def)
  then show "\<exists>B. bands s k = Some B \<and> table_ok B \<and> \<not> bReadOnly B \<and> nBlocksPerRow B = 1 \<and> nBlocksPerColumn B = y \<and>
       (\<forall>x' y'. size_in_bytes (fresh_block B k x' y' :: byte list block) = x * w)" if "int k < n"
    using tab that by (auto simp: bands)
  obtain ps where ps: "papoBands ds = map (packed w x y) ps" using c(4) by blast
  have band: "mem_bands (world s) k = (if int k < n then Some (packed w x y (ps ! k)) else None)" for k
    using len [of k] by (simp add: world dataset_world_def ps)
  show "inside mem_store (world s) k x' y' \<longleftrightarrow> int k < n \<and> x' = 0 \<and> 0 \<le> y' \<and> y' < y"
    by (simp add: mem_store_def band packed_def)
  show "fits mem_store (world s) k d \<longleftrightarrow> int (length d) = x * w" if "int k < n"
    using that by (simp add: mem_store_def band packed_def)
  show "seen mem_store s k 0 y' = Some (replicate (nat (x * w)) 0)" if "int k < n" "0 \<le> y'" "y' < y"
  proof -
    let ?b = "packed w x y (ps ! k)"
    have b: "?b \<in> set (papoBands ds)" using len [of k] that(1) by (simp add: ps)
    have "bytes h' (pixel_addr ?b y' i j) = 0" if "i < nat x" "j < nat w" for i j
      using v(3) [OF b] that \<open>0 \<le> y'\<close> \<open>y' < y\<close> by (simp add: byte_of_line_def packed_def)
    then have "line_bytes ?b y' (bytes h') = concat (map (\<lambda>i. map (\<lambda>j. 0) [0..<nat w]) [0..<nat x])"
      unfolding line_bytes_def by (intro arg_cong [where f = concat] map_cong refl) (simp_all add: packed_def)
    also have "\<dots> = replicate (nat (x * w)) 0"
      using concat_pieces [of "\<lambda>p. 0 :: byte" "nat w" "nat x"] sz(2) w0
      by (simp add: map_replicate_const nat_mult_distrib)
    finally show ?thesis using that(1) by (simp add: seen_def none mem_store_def band) (simp add: world dataset_world_def)
  qed
qed

section \<open>Reading through the cache\<close>

lemma mem_driver_malloc: "VSIMalloc (mem_driver malloc) = malloc"
  by (simp add: mem_driver_def)

lemma mem_get:
  fixes s :: "(byte list, mem_world) gdal"
  assumes "cache_ok s xs" and "coherent mem_store s" and "bands s k = Some B" and "table_ok B" and "in_band B x y"
    and "inside mem_store (world s) k x y"
    and "\<And>d. malloc (world s) (size_in_bytes (fresh_block B k x y :: byte list block)) = Some d \<Longrightarrow>
      fits mem_store (world s) k d"
  shows "\<exists>p s' ys. GetLockedBlockRef (mem_driver malloc) k x y False s = Some (p, s') \<and>
    cache_ok s' ys \<and> coherent mem_store s' \<and>
    (\<forall>k' x' y'. inside mem_store (world s) k' x' y' \<longrightarrow> seen mem_store s' k' x' y' = seen mem_store s k' x' y') \<and>
    (case p of
       None \<Rightarrow> malloc (world s) (size_in_bytes (fresh_block B k x y :: byte list block)) = None
     | Some a \<Rightarrow> cached s' k x y = Some a \<and> block_data s' a = seen mem_store s k x y)"
  using mem.GetLockedBlockRef_shows [OF assms(1-6), of malloc] assms(7)
  by (fastforce simp: keeps_def mem_driver_def split: option.splits)

section \<open>Properties\<close>

text \<open>
  C4.  Reading through the cache: \<open>GetLockedBlockRef\<close> on a band in memory returns a block holding what
  is seen at its position (the cached block, or the line of the band), in whatever state the cache is;
  what is seen anywhere else stays, evictions included, and it fails only for lack of memory.
\<close>

theorem MEM_GetLockedBlockRef_shows:
  fixes s :: "(byte list, mem_world) gdal"
  assumes "cache_ok s xs" and "coherent mem_store s" and "bands s k = Some B" and "table_ok B" and "in_band B x y"
    and "inside mem_store (world s) k x y"
    and "\<And>d. malloc (world s) (size_in_bytes (fresh_block B k x y :: byte list block)) = Some d \<Longrightarrow>
      fits mem_store (world s) k d"
  shows "\<exists>p s' ys. GetLockedBlockRef (mem_driver malloc) k x y False s = Some (p, s') \<and>
    cache_ok s' ys \<and> coherent mem_store s' \<and>
    (\<forall>k' x' y'. inside mem_store (world s) k' x' y' \<longrightarrow> seen mem_store s' k' x' y' = seen mem_store s k' x' y') \<and>
    (case p of
       None \<Rightarrow> malloc (world s) (size_in_bytes (fresh_block B k x y :: byte list block)) = None
     | Some a \<Rightarrow> cached s' k x y = Some a \<and> block_data s' a = seen mem_store s k x y)"
  by (rule mem_get [OF assms])

text \<open>A dataset of one band of two lines, for the witnesses.\<close>

definition small_heap :: mem_heap where
  "small_heap = \<lparr>regions = [], bytes = (\<lambda>p. 7)\<rparr>"

definition small_malloc :: "mem_world \<Rightarrow> int \<Rightarrow> byte list option" where
  "small_malloc w n = Some (replicate (nat n) 0)"

lemma small_created:
  obtains ds h' where "MEMDataset_Create next_free 3 2 1 GDT_Byte small_heap = Some (Some ds, h')"
    "fits_memory GDT_Byte 3 2" "sorted_wrt apart (regions small_heap)"
proof -
  have "to_i32 6 = 6" "to_u64 6 = 6" "to_u64 1 = 1" "c_div 8 8 = 1"
    by (simp_all add: to_i32_def to_u64_def c_div_def)
  then have "\<exists>ds h'. MEMDataset_Create next_free 3 2 1 GDT_Byte small_heap = Some (Some ds, h')"
    by (simp add: MEMDataset_Create_def VSICalloc_def next_free_def Let_def small_heap_def)
  then show thesis using that by (auto simp: fits_memory_def c_div_def small_heap_def)
qed

theorem MEM_GetLockedBlockRef_shows_witness:
  "\<exists>s a s'. GetLockedBlockRef (mem_driver small_malloc) 0 0 1 False s = Some (Some a, s') \<and>
     block_data s' a = Some [0, 0, 0]"
proof -
  obtain ds h' where c: "MEMDataset_Create next_free 3 2 1 GDT_Byte small_heap = Some (Some ds, h')"
    "fits_memory GDT_Byte 3 2" "sorted_wrt apart (regions small_heap)"
    by (rule small_created)
  note ok = created_ok [OF c(1,2) next_free_fresh c(3), where m = 0]
  obtain B where B: "bands (created 0 GDT_Byte ds h') 0 = Some B" "table_ok B" "nBlocksPerRow B = 1" "nBlocksPerColumn B = 2"
    "size_in_bytes (fresh_block B 0 0 1 :: byte list block) = 3"
    using ok(3) [of 0] by (auto simp: c_div_def)
  have f: "fits mem_store (world (created 0 GDT_Byte ds h')) 0 d \<longleftrightarrow> length d = 3" for d
    using ok(5) [of 0 d] by (auto simp: c_div_def)
  have "seen mem_store (created 0 GDT_Byte ds h') 0 0 1 = Some [0, 0, 0]"
    using ok(6) [of 0 1] by (simp add: c_div_def numeral_3_eq_3)
  moreover have "in_band B 0 1" using B(3,4) by (simp add: in_band_def)
  ultimately show ?thesis
    using MEM_GetLockedBlockRef_shows [OF ok(1,2) B(1,2), of 0 1 small_malloc] f B(5)
    by (fastforce simp: ok(4) small_malloc_def split: option.splits)
qed

text \<open>
  C16.  \<open>Fill\<close> on a dataset created in memory: it succeeds unless memory runs out, and then every block
  of the band reads as the source block, through the cache, and every block of the other bands as zero,
  whatever the limit of the cache.
\<close>

theorem MEM_Fill_reads_back:
  assumes "MEMDataset_Create alloc x y n e h = Some (Some ds, h')" and "fits_memory e x y"
    and "fresh_alloc alloc" and "sorted_wrt apart (regions h)"
    and "\<And>w l. \<exists>d. malloc w l = Some d \<and> (0 \<le> l \<longrightarrow> int (length d) = l)" and "int k < n"
    and "int (length src) = x * c_div (GDALGetDataTypeSize e) 8"
  shows "\<exists>s. Fill (mem_driver malloc) k (Some src) (created m e ds h') = Some (CE_None, s) \<and>
    (\<forall>k' y'. int k' < n \<longrightarrow> 0 \<le> y' \<and> y' < y \<longrightarrow>
       (\<exists>a s'. GetLockedBlockRef (mem_driver malloc) k' 0 y' False s = Some (Some a, s') \<and>
          block_data s' a = Some (if k' = k then src else replicate (length src) 0)))"
proof -
  let ?drv = "mem_driver malloc" and ?s = "created m e ds h'"
  note c = created_ok [OF assms(1-4), where m = m]
  obtain B where B: "bands ?s k = Some B" "table_ok B" "\<not> bReadOnly B" "nBlocksPerRow B = 1" "nBlocksPerColumn B = y"
    using c(3) [OF assms(6)] by blast
  have "inside mem_store (world ?s) k x' y'" if "in_band B x' y'" for x' y'
    using that B(4,5) assms(6) by (simp add: c(4) in_band_def)
  then obtain err s ys where f: "Fill ?drv k (Some src) ?s = Some (err, s)" "cache_ok s ys" "coherent mem_store s"
    "same_shape mem_store (world ?s) (world s)" "layout_of s = layout_of ?s" "err \<noteq> CE_None \<longrightarrow> (\<exists>w n. malloc w n = None)"
    "err = CE_None \<longrightarrow> (\<forall>k' x' y'. inside mem_store (world ?s) k' x' y' \<longrightarrow>
       seen mem_store s k' x' y' = (if k' = k \<and> in_band B x' y' then Some src else seen mem_store ?s k' x' y'))"
    using mem.Fill_replaces [OF c(1,2) B(1-3) _ c(5) [OF assms(6), THEN iffD2, OF assms(7)], of malloc]
    unfolding mem_driver_malloc by blast
  have ok: "err = CE_None" using f(6) assms(5) by (metis option.distinct(1))
  have "\<exists>a s'. GetLockedBlockRef ?drv k' 0 y' False s = Some (Some a, s') \<and>
      block_data s' a = Some (if k' = k then src else replicate (length src) 0)"
    if k': "int k' < n" "0 \<le> y' \<and> y' < y" for k' y'
  proof -
    obtain B0 where B0: "bands ?s k' = Some B0" "table_ok B0" "nBlocksPerRow B0 = 1" "nBlocksPerColumn B0 = y"
      "\<And>x' y'. size_in_bytes (fresh_block B0 k' x' y' :: byte list block) = x * c_div (GDALGetDataTypeSize e) 8"
      using c(3) [OF k'(1)] by blast
    have "bands_ok s" using f(2) by (simp add: cache_ok_def tables_ok_def)
    then obtain B' where B': "bands s k' = Some B'" "table_ok B'" "\<And>x y. in_band B' x y = in_band B0 x y"
      using same_layout [OF f(5) B0(1,2)] by metis
    note fresh = same_layout_fresh_block [OF f(5) B0(1) B'(1)]
    have i: "inside mem_store (world ?s) k' 0 y'" using k' by (simp add: c(4))
    have shape: "inside mem_store (world s) = inside mem_store (world ?s)" "fits mem_store (world s) = fits mem_store (world ?s)"
      using f(4) by (simp_all add: same_shape_def)
    have ib: "in_band B' 0 y'" using k'(2) B0(3,4) unfolding B'(3) by (simp add: in_band_def)
    obtain d where buffer: "malloc (world s) (x * c_div (GDALGetDataTypeSize e) 8) = Some d"
      "fits mem_store (world ?s) k' d"
      using assms(5) [of "world s" "x * c_div (GDALGetDataTypeSize e) 8"] c(5) [OF k'(1)] assms(7) by auto
    obtain p s' where g: "GetLockedBlockRef ?drv k' 0 y' False s = Some (p, s')"
      "case p of None \<Rightarrow> malloc (world s) (size_in_bytes (fresh_block B' k' 0 y' :: byte list block)) = None
       | Some a \<Rightarrow> cached s' k' 0 y' = Some a \<and> block_data s' a = seen mem_store s k' 0 y'"
      using mem_get [OF f(2,3) B'(1,2) ib, of malloc] i buffer shape by (auto simp: fresh B0(5))
    moreover have "seen mem_store s k' 0 y' = Some (if k' = k then src else replicate (length src) 0)"
      using f(7) ok i ib B0(1) B(1) B'(3) c(6) [OF k'(1)] k'(2) assms(7) by auto
    ultimately show ?thesis using buffer by (cases p) (auto simp: fresh B0(5))
  qed
  then show ?thesis using f(1) ok by blast
qed

theorem MEM_Fill_reads_back_witness:
  "\<exists>ds h' s a s'. MEMDataset_Create next_free 3 2 1 GDT_Byte small_heap = Some (Some ds, h') \<and>
     Fill (mem_driver small_malloc) 0 (Some [4, 4, 4]) (created 0 GDT_Byte ds h') = Some (CE_None, s) \<and>
     GetLockedBlockRef (mem_driver small_malloc) 0 0 1 False s = Some (Some a, s') \<and> block_data s' a = Some [4, 4, 4]"
proof -
  obtain ds h' where c: "MEMDataset_Create next_free 3 2 1 GDT_Byte small_heap = Some (Some ds, h')"
    "fits_memory GDT_Byte 3 2" "sorted_wrt apart (regions small_heap)"
    by (rule small_created)
  have "\<exists>d. small_malloc w l = Some d \<and> (0 \<le> l \<longrightarrow> int (length d) = l)" for w l by (simp add: small_malloc_def)
  then show ?thesis
    using MEM_Fill_reads_back [OF c(1,2) next_free_fresh c(3), of small_malloc 0 "[4, 4, 4]" 0] c(1)
    by (auto simp: c_div_def)
qed

text \<open>
  \<open>FlushBlock\<close> brings a cached block back to memory: the slot is empty then, \<open>IReadBlock\<close> gets
  what was cached, and nothing that is seen changes.
\<close>

theorem MEM_FlushBlock_writes_back:
  fixes s :: "(byte list, mem_world) gdal"
  assumes "cache_ok s xs" and "coherent mem_store s" and "cached s k x y = Some a" and "mem_bands (world s) k = Some b"
    and "int (length buf) = nLinePixels b * nWordSize b"
  shows "\<exists>s' d. FlushBlock (mem_driver malloc) k x y s = Some (CE_None, s') \<and> cache_ok s' (removeAll a xs) \<and>
    cached s' k x y = None \<and> block_data s a = Some d \<and>
    mem_bands (world s') = mem_bands (world s) \<and> MEM_IReadBlock b x y buf (memory (world s')) = (CE_None, d) \<and>
    (\<forall>k' x' y'. inside mem_store (world s) k' x' y' \<longrightarrow> seen mem_store s' k' x' y' = seen mem_store s k' x' y')"
proof -
  have l: "lru s xs" and t: "tables_ok s (set xs)" using assms(1) by (simp_all add: cache_ok_def)
  obtain c where c: "contents s a = Some c" "poBand c = Some k"
    using tables_okD(3) [OF t assms(3)] by blast
  obtain s' where s': "FlushBlock (mem_driver malloc) k x y s = Some (CE_None, s')" "cache_ok s' (removeAll a xs)"
    "keeps mem_store s s'" "cached s' k x y = None" "Some (stored mem_store (world s') k x y) = seen mem_store s k x y"
    using mem.FlushBlock_writes_back [OF assms(1-3), of malloc] by blast
  have "world s' = snd (written (mem_driver malloc) k c (world s))"
    using FlushBlock_cached [OF l tables_okD(2) [OF t assms(3)] assms(3) c, of "mem_driver malloc"] s'(1)
    by (auto simp: flushed_def)
  then have bands: "mem_bands (world s') = mem_bands (world s)"
    by (simp add: written_def mem_driver_def split: option.splits prod.splits)
  have "mem_valid (world s)" using assms(2) by (simp add: coherent_def mem_store_def)
  then have "MEM_IReadBlock b x y buf (memory (world s')) = (CE_None, line_bytes b y (memory (world s')))"
    using MEM_IReadBlock_line [OF mem_valid_band(1) [OF _ assms(4)] assms(5)] by blast
  moreover have "Some (line_bytes b y (memory (world s'))) = block_data s a"
    using s'(5) assms(3,4) bands by (simp add: mem_store_def seen_def)
  ultimately show ?thesis using s' bands by (intro exI [of _ s']) (auto simp: keeps_def)
qed

text \<open>A dirty block over a line of the dataset.\<close>

theorem MEM_FlushBlock_writes_back_witness:
  "\<exists>s a d s' b. cached s 0 0 1 = Some a \<and> mem_bands (world s) 0 = Some b \<and> block_data s a = Some d \<and>
     FlushBlock (mem_driver small_malloc) 0 0 1 s = Some (CE_None, s') \<and> cached s' 0 0 1 = None \<and>
     MEM_IReadBlock b 0 1 [0, 0, 0] (memory (world s')) = (CE_None, d)"
proof -
  obtain ds h' where c: "MEMDataset_Create next_free 3 2 1 GDT_Byte small_heap = Some (Some ds, h')"
    "fits_memory GDT_Byte 3 2" "sorted_wrt apart (regions small_heap)"
    by (rule small_created)
  note ok = created_ok [OF c(1,2) next_free_fresh c(3), where m = 0]
  obtain B where B: "bands (created 0 GDT_Byte ds h') 0 = Some B" "table_ok B" "nBlocksPerRow B = 1" "nBlocksPerColumn B = 2"
    "size_in_bytes (fresh_block B 0 0 1 :: byte list block) = 3"
    using ok(3) [of 0] by (auto simp: c_div_def)
  have f: "fits mem_store (world (created 0 GDT_Byte ds h')) 0 d \<longleftrightarrow> length d = 3" for d
    using ok(5) [of 0 d] by (auto simp: c_div_def)
  have ib: "in_band B 0 1" using B(3,4) by (simp add: in_band_def)
  have i: "inside mem_store (world (created 0 GDT_Byte ds h')) 0 0 1" by (simp add: ok(4))
  have m: "fits mem_store (world (created 0 GDT_Byte ds h')) 0 d"
    if "VSIMalloc (mem_driver small_malloc) (world (created 0 GDT_Byte ds h')) (size_in_bytes (fresh_block B 0 0 1 :: byte list block)) = Some d"
    for d
    using that by (simp add: f B(5) mem_driver_malloc small_malloc_def) (auto simp: numeral_3_eq_3)
  obtain p s ys where g: "cache_ok s ys" "keeps mem_store (created 0 GDT_Byte ds h') s" "\<forall>a. p = Some a \<longrightarrow> cached s 0 0 1 = Some a"
    "p = None \<longrightarrow> VSIMalloc (mem_driver small_malloc) (world (created 0 GDT_Byte ds h')) (size_in_bytes (fresh_block B 0 0 1 :: byte list block)) = None"
    using mem.GetLockedBlockRef_shows [OF ok(1,2) B(1,2) ib i m] by blast
  have "p \<noteq> None" using g(4) by (auto simp: mem_driver_malloc small_malloc_def)
  with g(2,3) obtain a where s: "coherent mem_store s" "cached s 0 0 1 = Some a" by (auto simp: keeps_def)
  have "inside mem_store (world s) 0 0 1" "fits mem_store (world s) 0 [0, 0, 0]"
    using g(2) f ok(4) by (simp_all add: keeps_def same_shape_def)
  then obtain b where b: "mem_bands (world s) 0 = Some b" "int (length [0 :: byte, 0, 0]) = nLinePixels b * nWordSize b"
    by (auto simp: mem_store_def split: option.splits)
  show ?thesis using MEM_FlushBlock_writes_back [OF g(1) s b, of small_malloc] s(2) b(1) by blast
qed

end
