(* ===== verification/Srs_Node.thy ===== *)
theory Srs_Node
  imports Csl "HOL-Library.Multiset"
begin

text \<open>
  Nodes of the definition of a spatial reference system, \<^verbatim>\<open>ogr/ogr_srsnode.cpp\<close>: the tree, its
  textual form (WKT) in both directions, and the operations that clean a tree up.

  A node is its value and its children; the parent of a node, which only decides about quotes, is an
  argument of the routines that look at it.  Where the code stores into a buffer of a size it has
  computed, the model checks the size.
\<close>

datatype OGR_SRSNode = SRSNode (GetValue: cstring) (children: "OGR_SRSNode list")

definition OGRERR_NONE :: int where "OGRERR_NONE = 0"
definition OGRERR_CORRUPT_DATA :: int where "OGRERR_CORRUPT_DATA = 5"

section \<open>The tree\<close>

definition GetChild :: "OGR_SRSNode \<Rightarrow> int \<Rightarrow> OGR_SRSNode option" where
  "GetChild node i = (if i < 0 \<or> i \<ge> int (length (children node)) then None else Some (children node ! nat i))"

text \<open>A node that has children and the name, the node itself first, then its children, then their
  subtrees in order.\<close>

fun GetNode :: "cstring \<Rightarrow> OGR_SRSNode \<Rightarrow> OGR_SRSNode option" and
    get_node_below :: "cstring \<Rightarrow> OGR_SRSNode list \<Rightarrow> OGR_SRSNode option" where
  "GetNode pszName (SRSNode v cs) =
     (if cs \<noteq> [] \<and> EQUAL pszName v then Some (SRSNode v cs)
      else case find (\<lambda>c. EQUAL (GetValue c) pszName \<and> children c \<noteq> []) cs of
        Some c \<Rightarrow> Some c
      | None \<Rightarrow> get_node_below pszName cs)"
| "get_node_below pszName [] = None"
| "get_node_below pszName (c # cs) =
     (case GetNode pszName c of Some n \<Rightarrow> Some n | None \<Rightarrow> get_node_below pszName cs)"

text \<open>A negative index is not caught.\<close>

definition InsertChild :: "OGR_SRSNode \<Rightarrow> int \<Rightarrow> OGR_SRSNode \<Rightarrow> OGR_SRSNode option" where
  "InsertChild poNew iChild node =
     (let n = int (length (children node)); i = (if iChild > n then n else iChild) in
      if i < 0 then None
      else Some (SRSNode (GetValue node) (take (nat i) (children node) @ poNew # drop (nat i) (children node))))"

definition AddChild :: "OGR_SRSNode \<Rightarrow> OGR_SRSNode \<Rightarrow> OGR_SRSNode option" where
  "AddChild poNew node = InsertChild poNew (int (length (children node))) node"

definition destroy_at :: "int \<Rightarrow> OGR_SRSNode list \<Rightarrow> OGR_SRSNode list" where
  "destroy_at iChild cs =
     (if iChild < 0 \<or> iChild \<ge> int (length cs) then cs else take (nat iChild) cs @ drop (nat iChild + 1) cs)"

definition DestroyChild :: "int \<Rightarrow> OGR_SRSNode \<Rightarrow> OGR_SRSNode" where
  "DestroyChild iChild node = SRSNode (GetValue node) (destroy_at iChild (children node))"

definition find_value :: "cstring \<Rightarrow> OGR_SRSNode list \<Rightarrow> int" where
  "find_value pszName cs = index_loop (\<lambda>v. EQUAL v pszName) (map GetValue cs) 0"

definition FindChild :: "OGR_SRSNode \<Rightarrow> cstring \<Rightarrow> int" where
  "FindChild node pszName = find_value pszName (children node)"

definition SetValue :: "cstring \<Rightarrow> OGR_SRSNode \<Rightarrow> OGR_SRSNode" where
  "SetValue pszNewValue node = SRSNode pszNewValue (children node)"

primrec Clone :: "OGR_SRSNode \<Rightarrow> OGR_SRSNode" where
  "Clone (SRSNode v cs) = SRSNode v (map Clone cs)"

section \<open>Writing\<close>

text \<open>The parent is given by its value and whether the node is its first child.\<close>

type_synonym parent = "(cstring \<times> bool) option"

definition plain_char :: "char \<Rightarrow> bool" where
  "plain_char c = (c_isdigit c \<or> c \<in> set ''.-+eE'')"

definition NeedsQuoting :: "parent \<Rightarrow> OGR_SRSNode \<Rightarrow> bool" where
  "NeedsQuoting poParent node =
     (if children node \<noteq> [] then False
      else case poParent of
        Some (v, first) \<Rightarrow>
          if EQUAL v ''AUTHORITY'' then True
          else if EQUAL v ''AXIS'' \<and> \<not> first then False
          else \<not> list_all plain_char (GetValue node)
      | None \<Rightarrow> \<not> list_all plain_char (GetValue node))"

definition wkt_value :: "parent \<Rightarrow> OGR_SRSNode \<Rightarrow> cstring" where
  "wkt_value poParent node =
     (if NeedsQuoting poParent node then [CHR 0x22] @ GetValue node @ [CHR 0x22] else GetValue node)"

text \<open>A text built in a buffer of \<open>n\<close> bytes, its NUL included.\<close>

definition in_buffer :: "nat \<Rightarrow> cstring \<Rightarrow> cstring option" where
  "in_buffer n s = (if length s + 1 \<le> n then Some s else None)"

fun wkt_children :: "cstring list \<Rightarrow> cstring" where
  "wkt_children [] = ''''"
| "wkt_children [w] = w @ '']''"
| "wkt_children (w # ws) = w @ '','' @ wkt_children ws"

fun exportToWkt :: "parent \<Rightarrow> OGR_SRSNode \<Rightarrow> cstring option" and
    export_children :: "cstring \<Rightarrow> bool \<Rightarrow> OGR_SRSNode list \<Rightarrow> cstring list option" where
  "exportToWkt poParent (SRSNode v cs) = do {
     ws \<leftarrow> export_children v True cs;
     let nLength = length v + 4 + sum_list (map (\<lambda>w. length w + 1) ws);
     in_buffer nLength
       (wkt_value poParent (SRSNode v cs) @ (if cs \<noteq> [] then ''['' else '''') @ wkt_children ws)
   }"
| "export_children v first [] = Some []"
| "export_children v first (c # cs) = do {
     w \<leftarrow> exportToWkt (Some (v, first)) c;
     ws \<leftarrow> export_children v False cs;
     Some (w # ws)
   }"

text \<open>The indented form: a child that has children starts a line.\<close>

definition new_line :: "nat \<Rightarrow> cstring" where
  "new_line nDepth = CHR 0x0A # replicate (4 * nDepth) (CHR '' '')"

fun pretty_children :: "nat \<Rightarrow> (bool \<times> cstring) list \<Rightarrow> cstring" where
  "pretty_children nDepth [] = ''''"
| "pretty_children nDepth [(b, w)] = (if b then new_line nDepth else '''') @ w"
| "pretty_children nDepth ((b, w) # ws) = (if b then new_line nDepth else '''') @ w @ '','' @ pretty_children nDepth ws"

definition close_bracket :: "cstring \<Rightarrow> cstring" where
  "close_bracket s = (if last s = CHR '','' then butlast s else s) @ '']''"

fun exportToPrettyWkt :: "parent \<Rightarrow> nat \<Rightarrow> OGR_SRSNode \<Rightarrow> cstring option" and
    export_pretty_children :: "cstring \<Rightarrow> nat \<Rightarrow> bool \<Rightarrow> OGR_SRSNode list \<Rightarrow> cstring list option" where
  "exportToPrettyWkt poParent nDepth (SRSNode v cs) = do {
     ws \<leftarrow> export_pretty_children v (nDepth + 1) True cs;
     let nLength = length v + 4 + sum_list (map (\<lambda>w. length w + 2 + nDepth * 4) ws);
     let s = wkt_value poParent (SRSNode v cs) @ (if cs \<noteq> [] then ''['' else '''') @
       pretty_children nDepth (zip (map (\<lambda>c. children c \<noteq> []) cs) ws);
     in_buffer nLength (if cs \<noteq> [] then close_bracket s else s)
   }"
| "export_pretty_children v nDepth first [] = Some []"
| "export_pretty_children v nDepth first (c # cs) = do {
     w \<leftarrow> exportToPrettyWkt (Some (v, first)) nDepth c;
     ws \<leftarrow> export_pretty_children v nDepth False cs;
     Some (w # ws)
   }"

section \<open>Reading\<close>

definition wkt_delimiter :: "char \<Rightarrow> bool" where
  "wkt_delimiter c = (c \<in> set ''[],()'')"

definition wkt_space :: "char \<Rightarrow> bool" where
  "wkt_space c = (c = CHR '' '' \<or> c = CHR 0x09 \<or> c = CHR 0x0A \<or> c = CHR 0x0D)"

text \<open>The loop that collects a token of at most \<open>n\<close> more characters: the token and the input left.\<close>

fun wkt_token :: "bool \<Rightarrow> nat \<Rightarrow> cstring \<Rightarrow> cstring \<times> cstring" where
  "wkt_token bInQuotedString n [] = ([], [])"
| "wkt_token bInQuotedString 0 (c # cs) = ([], c # cs)"
| "wkt_token bInQuotedString (Suc n) (c # cs) =
     (if c = CHR 0x22 then wkt_token (\<not> bInQuotedString) (Suc n) cs
      else if \<not> bInQuotedString \<and> wkt_delimiter c then ([], c # cs)
      else if \<not> bInQuotedString \<and> wkt_space c then wkt_token bInQuotedString (Suc n) cs
      else (case wkt_token bInQuotedString n cs of (t, r) \<Rightarrow> (c # t, r)))"

text \<open>
  \<open>import_node\<close> is \<open>importFromWkt\<close> and \<open>import_children\<close> its loop over the children, from behind a
  bracket or a comma.  The first argument bounds the depth of the calls; see
  \<open>importFromWkt_returns\<close>.  On failure the node keeps the value and the children it has got so far,
  and the input pointer is not moved.
\<close>

fun import_node :: "nat \<Rightarrow> OGR_SRSNode \<Rightarrow> cstring \<Rightarrow> (int \<times> OGR_SRSNode \<times> cstring) option" and
    import_children :: "nat \<Rightarrow> cstring \<Rightarrow> OGR_SRSNode list \<Rightarrow> cstring \<Rightarrow> (int \<times> OGR_SRSNode \<times> cstring) option" where
  "import_node 0 node s = None"
| "import_node (Suc n) node s =
     (case wkt_token False 511 s of (szToken, r) \<Rightarrow>
        if r = [] \<or> length szToken = 511 then Some (OGRERR_CORRUPT_DATA, SRSNode (GetValue node) [], s)
        else if hd r = CHR ''['' \<or> hd r = CHR ''(''
        then do {
          (e, node, r) \<leftarrow> import_children n szToken [] (tl r);
          Some (e, node, if e = OGRERR_NONE then r else s)
        }
        else Some (OGRERR_NONE, SRSNode szToken [], r))"
| "import_children 0 v cs s = None"
| "import_children (Suc n) v cs s = do {
     (eErr, child, r) \<leftarrow> import_node n (SRSNode '''' []) s;
     if eErr \<noteq> OGRERR_NONE then Some (eErr, SRSNode v cs, s)
     else if r \<noteq> [] \<and> hd r = CHR '','' then import_children n v (cs @ [child]) (tl r)
     else if r = [] \<or> hd r \<noteq> CHR '')'' \<and> hd r \<noteq> CHR '']''
     then Some (OGRERR_CORRUPT_DATA, SRSNode v (cs @ [child]), s)
     else Some (OGRERR_NONE, SRSNode v (cs @ [child]), tl r)
   }"

definition importFromWkt :: "OGR_SRSNode \<Rightarrow> cstring \<Rightarrow> (int \<times> OGR_SRSNode \<times> cstring) option" where
  "importFromWkt node pszInput = import_node (2 * length pszInput + 1) node pszInput"

section \<open>Cleaning up\<close>

fun squeeze :: "char \<Rightarrow> cstring \<Rightarrow> cstring" where
  "squeeze c [] = [c]"
| "squeeze c (d # ds) = (if c = CHR ''_'' \<and> d = CHR ''_'' then squeeze c ds else c # squeeze d ds)"

definition safe_value :: "cstring \<Rightarrow> cstring" where
  "safe_value v =
     (case v of
        [] \<Rightarrow> v
      | c # cs \<Rightarrow>
          if c_isdigit c \<or> c \<noteq> CHR ''.'' then v
          else (let w = map (\<lambda>c. if c_isalnum c then c else CHR ''_'') (c # cs); s = squeeze (hd w) (tl w) in
                if last s = CHR ''_'' then butlast s else s))"

primrec MakeValueSafe :: "OGR_SRSNode \<Rightarrow> OGR_SRSNode" where
  "MakeValueSafe (SRSNode v cs) = SRSNode (safe_value v) (map MakeValueSafe cs)"

text \<open>The arrays end with NULL; a step that jumps over it reads past the array, and a step of 0 never
  ends.\<close>

fun remap_loop :: "nat \<Rightarrow> cstring list \<Rightarrow> cstring list \<Rightarrow> cstring \<Rightarrow> cstring option" where
  "remap_loop nStepSize [] dst v = Some v"
| "remap_loop nStepSize (s # src) dst v =
     (if EQUAL s v then (case dst of [] \<Rightarrow> None | d # ds \<Rightarrow> Some d)
      else if nStepSize = 0 \<or> length (s # src) < nStepSize then None
      else remap_loop nStepSize (drop nStepSize (s # src)) (drop nStepSize dst) v)"

fun applyRemapper :: "cstring option \<Rightarrow> cstring list \<Rightarrow> cstring list \<Rightarrow> nat \<Rightarrow> bool \<Rightarrow> OGR_SRSNode \<Rightarrow> OGR_SRSNode option" and
    remap_children :: "cstring option \<Rightarrow> cstring list \<Rightarrow> cstring list \<Rightarrow> nat \<Rightarrow> bool \<Rightarrow> OGR_SRSNode list \<Rightarrow> OGR_SRSNode list option" where
  "applyRemapper pszNode src dst nStepSize bChildOfHit (SRSNode v cs) = do {
     v \<leftarrow> (if bChildOfHit \<or> pszNode = None then remap_loop nStepSize src dst v else Some v);
     let bChildOfHit = (case pszNode of None \<Rightarrow> bChildOfHit | Some n \<Rightarrow> EQUAL v n);
     cs \<leftarrow> remap_children pszNode src dst nStepSize bChildOfHit cs;
     Some (SRSNode v cs)
   }"
| "remap_children pszNode src dst nStepSize bChildOfHit [] = Some []"
| "remap_children pszNode src dst nStepSize bChildOfHit (c # cs) = do {
     c \<leftarrow> applyRemapper pszNode src dst nStepSize bChildOfHit c;
     cs \<leftarrow> remap_children pszNode src dst nStepSize bChildOfHit cs;
     Some (c # cs)
   }"

text \<open>The loop of \<open>StripNodes\<close> over one node, and its recursion into what is left.\<close>

lemma find_value_range:
  "index_loop p xs i = -1 \<or> i \<le> index_loop p xs i \<and> index_loop p xs i < i + int (length xs) \<and> p (xs ! nat (index_loop p xs i - i))"
proof (induction xs arbitrary: i)
  case (Cons x xs)
  show ?case
  proof (cases "p x")
    case False
    then show ?thesis using Cons [of "i + 1"] by (auto simp: nth_Cons' nat_diff_distrib' simp flip: diff_diff_eq)
  qed simp
qed simp

lemma find_value_lt: "0 \<le> find_value n cs \<Longrightarrow> find_value n cs < int (length cs)"
  using find_value_range [of "\<lambda>v. EQUAL v n" "map GetValue cs" 0] by (auto simp: find_value_def)

lemma length_destroy_at: "0 \<le> i \<Longrightarrow> i < int (length cs) \<Longrightarrow> length (destroy_at i cs) < length cs"
  by (auto simp: destroy_at_def)

lemma destroy_at_set: "set (destroy_at i cs) \<subseteq> set cs"
  by (auto simp: destroy_at_def dest: in_set_takeD in_set_dropD)

function strip_loop :: "cstring \<Rightarrow> OGR_SRSNode list \<Rightarrow> OGR_SRSNode list" where
  "strip_loop pszName cs =
     (if find_value pszName cs \<ge> 0 then strip_loop pszName (destroy_at (find_value pszName cs) cs) else cs)"
  by auto
termination
  by (relation "measure (length \<circ> snd)") (auto intro!: length_destroy_at find_value_lt)

declare strip_loop.simps [simp del]

lemma strip_loop_set: "set (strip_loop pszName cs) \<subseteq> set cs"
proof (induction pszName cs rule: strip_loop.induct)
  case (1 pszName cs)
  then show ?case using destroy_at_set by (subst strip_loop.simps) auto
qed

function StripNodes :: "cstring \<Rightarrow> OGR_SRSNode \<Rightarrow> OGR_SRSNode" where
  "StripNodes pszName (SRSNode v cs) = SRSNode v (map (StripNodes pszName) (strip_loop pszName cs))"
  by pat_completeness auto
termination
proof (relation "measure (size \<circ> snd)")
  fix pszName v cs c
  assume "c \<in> set (strip_loop pszName cs)"
  then have "c \<in> set cs" using strip_loop_set by blast
  then show "((pszName, c), pszName, SRSNode v cs) \<in> measure (size \<circ> snd)"
    by (simp add: less_Suc_eq_le size_list_estimation')
qed simp

text \<open>The rules of \<open>FixupOrdering\<close>, and its bubble sort of the children behind the first one.  A
  child that is not in the rule has the key -1 and is never moved past.\<close>

definition apszOrderingRules :: "cstring list list" where
  "apszOrderingRules =
     [[''PROJCS'', ''GEOGCS'', ''PROJECTION'', ''PARAMETER'', ''UNIT'', ''AXIS'', ''AUTHORITY''],
      [''GEOGCS'', ''DATUM'', ''PRIMEM'', ''UNIT'', ''AXIS'', ''AUTHORITY''],
      [''DATUM'', ''SPHEROID'', ''TOWGS84'', ''AUTHORITY'']]"

definition ordering_rule :: "cstring \<Rightarrow> cstring list option" where
  "ordering_rule v = map_option tl (find (\<lambda>r. EQUAL (hd r) v) apszOrderingRules)"

definition child_key :: "cstring list \<Rightarrow> OGR_SRSNode \<Rightarrow> int" where
  "child_key papszRule c = CSLFindString (Some papszRule) (GetValue c)"

fun bubble_pass :: "nat \<Rightarrow> (int \<times> 'a) list \<Rightarrow> bool \<times> (int \<times> 'a) list" where
  "bubble_pass (Suc n) (x # y # zs) =
     (if fst x = -1 \<or> fst y = -1 then (case bubble_pass n (y # zs) of (b, r) \<Rightarrow> (b, x # r))
      else if fst x > fst y then (case bubble_pass n (x # zs) of (b, r) \<Rightarrow> (True, y # r))
      else (case bubble_pass n (y # zs) of (b, r) \<Rightarrow> (b, x # r)))"
| "bubble_pass n xs = (False, xs)"

text \<open>The outer loop: pass \<open>i\<close> compares \<open>n - i\<close> pairs of the \<open>n\<close> children.\<close>

function bubble_loop :: "nat \<Rightarrow> nat \<Rightarrow> bool \<Rightarrow> (int \<times> 'a) list \<Rightarrow> (int \<times> 'a) list" where
  "bubble_loop n i bChange xs =
     (if bChange \<and> i < n then (case bubble_pass (n - i) xs of (b, ys) \<Rightarrow> bubble_loop n (Suc i) b ys) else xs)"
  by auto
termination by (relation "measure (\<lambda>(n, i, _). n - i)") auto

declare bubble_loop.simps [simp del]

primrec FixupOrdering :: "OGR_SRSNode \<Rightarrow> OGR_SRSNode" where
  "FixupOrdering (SRSNode v cs) =
     (let cs' = map FixupOrdering cs in
      if length cs' < 3 then SRSNode v cs'
      else case ordering_rule v of
        None \<Rightarrow> SRSNode v cs'
      | Some papszRule \<Rightarrow>
          SRSNode v (hd cs' # map snd (bubble_loop (length cs' - 1) 1 True (map (\<lambda>c. (child_key papszRule c, c)) (tl cs')))))"

end
