(* ===== verification/Srs_Node_Facts.thy ===== *)
theory Srs_Node_Facts
  imports Srs_Node
begin

text \<open>
  Facts on the nodes of a spatial reference system: reading undoes writing, reading always returns,
  and what the routines that clean a tree up do to it.
\<close>

section \<open>Reading returns\<close>

lemma wkt_token_length: "wkt_token q n s = (t, r) \<Longrightarrow> length r \<le> length s"
proof (induction q n s arbitrary: t r rule: wkt_token.induct)
  case (3 q n c cs)
  then show ?case by (fastforce split: if_splits prod.splits)
qed auto

lemma import_returns:
  "2 * length s + 1 \<le> n \<Longrightarrow>
     \<exists>e node' r. import_node n node s = Some (e, node', r) \<and> length r \<le> length s \<and> e \<in> {OGRERR_NONE, OGRERR_CORRUPT_DATA} \<and>
       (e \<noteq> OGRERR_NONE \<longrightarrow> r = s)"
  "2 * length s + 2 \<le> n \<Longrightarrow>
     \<exists>e node' r. import_children n v cs s = Some (e, node', r) \<and> length r \<le> length s \<and>
       e \<in> {OGRERR_NONE, OGRERR_CORRUPT_DATA}"
proof (induction n node s and n v cs s rule: import_node_import_children.induct)
  case (2 n node s)
  obtain t r where tr: "wkt_token False 511 s = (t, r)" by fastforce
  have len: "length r \<le> length s" by (rule wkt_token_length [OF tr])
  show ?case
  proof (cases "r \<noteq> [] \<and> length t \<noteq> 511 \<and> (hd r = CHR ''['' \<or> hd r = CHR ''('')")
    case True
    then have "2 * length (tl r) + 2 \<le> n" using 2(2) len by (cases r) auto
    then obtain e node' r' where "import_children n t [] (tl r) = Some (e, node', r')" "length r' \<le> length (tl r)"
      "e \<in> {OGRERR_NONE, OGRERR_CORRUPT_DATA}"
      using 2(1) [OF tr [symmetric]] True by auto
    then show ?thesis using True tr len by (auto simp: OGRERR_NONE_def)
  next
    case False
    then show ?thesis using tr len by auto
  qed
next
  case (4 n v cs s)
  then obtain e c r where c: "import_node n (SRSNode '''' []) s = Some (e, c, r)" "length r \<le> length s"
    "e \<in> {OGRERR_NONE, OGRERR_CORRUPT_DATA}"
    by fastforce
  show ?case
  proof (cases "e = OGRERR_NONE \<and> r \<noteq> [] \<and> hd r = CHR '',''")
    case True
    then have "2 * length (tl r) + 2 \<le> n" using 4(3) c(2) by (cases r) auto
    then obtain e' node' r' where "import_children n v (cs @ [c]) (tl r) = Some (e', node', r')" "length r' \<le> length (tl r)"
      "e' \<in> {OGRERR_NONE, OGRERR_CORRUPT_DATA}"
      using 4(2) [OF c(1) refl refl] True by auto
    then show ?thesis using True c by (auto intro: order_trans)
  next
    case False
    then show ?thesis using c by (auto intro: order_trans)
  qed
qed auto

section \<open>Texts of a node\<close>

definition bare :: "cstring \<Rightarrow> bool" where
  "bare v = list_all (\<lambda>c. c \<noteq> CHR 0x22 \<and> \<not> wkt_delimiter c \<and> \<not> wkt_space c) v"

text \<open>The values a text keeps: no quotes, no more than 510 characters, and nothing that would end
  or shorten a token where the value is written without quotes.\<close>

definition value_ok :: "parent \<Rightarrow> OGR_SRSNode \<Rightarrow> bool" where
  "value_ok p node =
     (length (GetValue node) < 511 \<and> CHR 0x22 \<notin> set (GetValue node) \<and> (NeedsQuoting p node \<or> bare (GetValue node)))"

text \<open>The texts of a node: with white space before each value and either kind of bracket.\<close>

inductive wkt_text :: "parent \<Rightarrow> OGR_SRSNode \<Rightarrow> cstring \<Rightarrow> bool" and
    wkt_list :: "cstring \<Rightarrow> bool \<Rightarrow> OGR_SRSNode list \<Rightarrow> cstring \<Rightarrow> bool" where
  leaf: "list_all wkt_space sp \<Longrightarrow> value_ok p (SRSNode v []) \<Longrightarrow> wkt_text p (SRSNode v []) (sp @ wkt_value p (SRSNode v []))"
| node: "list_all wkt_space sp \<Longrightarrow> value_ok p (SRSNode v cs) \<Longrightarrow> wkt_list v True cs s \<Longrightarrow> b \<in> set ''[('' \<Longrightarrow>
     wkt_text p (SRSNode v cs) (sp @ wkt_value p (SRSNode v cs) @ b # s)"
| last: "wkt_text (Some (v, first)) c w \<Longrightarrow> b \<in> set ''])'' \<Longrightarrow> wkt_list v first [c] (w @ [b])"
| more: "wkt_text (Some (v, first)) c w \<Longrightarrow> wkt_list v False cs s \<Longrightarrow> wkt_list v first (c # cs) (w @ '','' @ s)"

lemma wkt_list_Cons: "wkt_list v first cs s \<Longrightarrow> cs \<noteq> []"
  by (cases rule: wkt_list.cases) auto

lemma wkt_token_spaces: "list_all wkt_space sp \<Longrightarrow> wkt_token False (Suc n) (sp @ s) = wkt_token False (Suc n) s"
  by (induction sp) (auto simp: wkt_space_def wkt_delimiter_def)

lemma wkt_token_bare:
  "bare v \<Longrightarrow> length v < n \<Longrightarrow> wkt_delimiter d \<Longrightarrow> d \<noteq> CHR 0x22 \<Longrightarrow> wkt_token False n (v @ d # r) = (v, d # r)"
proof (induction v arbitrary: n)
  case Nil
  then show ?case by (cases n) auto
next
  case (Cons c v)
  then show ?case by (cases n) (auto simp: bare_def)
qed

lemma wkt_token_quoted:
  "CHR 0x22 \<notin> set v \<Longrightarrow> length v < n \<Longrightarrow> wkt_delimiter d \<Longrightarrow> d \<noteq> CHR 0x22 \<Longrightarrow>
     wkt_token True n (v @ CHR 0x22 # d # r) = (v, d # r)"
proof (induction v arbitrary: n)
  case Nil
  then show ?case by (cases n) auto
next
  case (Cons c v)
  then show ?case by (cases n) auto
qed

lemma wkt_token_value:
  assumes "list_all wkt_space sp" and "value_ok p node" and "wkt_delimiter d"
  shows "wkt_token False 511 (sp @ wkt_value p node @ d # r) = (GetValue node, d # r)"
proof -
  have d: "d \<noteq> CHR 0x22" using assms(3) by (auto simp: wkt_delimiter_def)
  have q: "wkt_token False 511 (CHR 0x22 # s) = wkt_token True 511 s" for s
    using wkt_token.simps(3) [of False 510 "CHR 0x22" s] by simp
  have sp: "wkt_token False 511 (sp @ s) = wkt_token False 511 s" for s
    using wkt_token_spaces [OF assms(1), of 510] by simp
  have len: "length (GetValue node) < 511" using assms(2) by (simp add: value_ok_def)
  show ?thesis
  proof (cases "NeedsQuoting p node")
    case True
    then show ?thesis
      using wkt_token_quoted [OF _ len assms(3) d, of r] assms(2) by (simp add: sp wkt_value_def q value_ok_def)
  next
    case False
    then have "bare (GetValue node)" using assms(2) by (simp add: value_ok_def)
    then show ?thesis using wkt_token_bare [OF _ len assms(3) d, of r] False by (simp add: sp wkt_value_def)
  qed
qed

text \<open>Reading a text gives the node back.\<close>

lemma import_text:
  "wkt_text p node w \<Longrightarrow> 2 * length w + 1 \<le> n \<Longrightarrow> children node \<noteq> [] \<or> (\<exists>d r'. r = d # r' \<and> d \<in> set '',])'') \<Longrightarrow>
     import_node n x (w @ r) = Some (OGRERR_NONE, node, r)"
  "wkt_list v first cs s \<Longrightarrow> 2 * length s \<le> n \<Longrightarrow>
     import_children n v acc (s @ r) = Some (OGRERR_NONE, SRSNode v (acc @ cs), r)"
proof (induction arbitrary: n x r and n acc r rule: wkt_text_wkt_list.inducts)
  case (leaf sp p v)
  then obtain d r' where d: "r = d # r'" "d \<in> set '',])''" by auto
  obtain m where m: "n = Suc m" using leaf(3) by (cases n) auto
  have dd: "wkt_delimiter d" "d \<noteq> CHR ''[''" "d \<noteq> CHR ''(''" using d(2) by (auto simp: wkt_delimiter_def)
  have "wkt_token False 511 (sp @ wkt_value p (SRSNode v []) @ d # r') = (v, d # r')"
    using wkt_token_value [OF leaf(1,2) dd(1), of r'] by simp
  moreover have "length v \<noteq> 511" using leaf(2) by (simp add: value_ok_def)
  ultimately show ?case using dd(2,3) by (simp add: m d(1))
next
  case (node sp p v cs s b)
  obtain m where m: "n = Suc m" using node.prems(1) by (cases n) auto
  have "wkt_token False 511 (sp @ wkt_value p (SRSNode v cs) @ b # (s @ r)) = (v, b # (s @ r))"
    using wkt_token_value [OF node.hyps(1,2), of b "s @ r"] node.hyps(4) by (auto simp: wkt_delimiter_def)
  moreover have "import_children m v [] (s @ r) = Some (OGRERR_NONE, SRSNode v cs, r)"
    using node.IH [of m "[]" r] node.prems(1) by (simp add: m)
  moreover have "length v < 511" using node.hyps(2) by (simp add: value_ok_def)
  ultimately show ?case using node.hyps(4) by (auto simp: m)
next
  case (last v first c w b)
  obtain m where m: "n = Suc m" using last.prems by (cases n) auto
  have "import_node m (SRSNode '''' []) (w @ b # r) = Some (OGRERR_NONE, c, b # r)"
    using last.IH [of m "b # r"] last.hyps(2) last.prems by (auto simp: m)
  then show ?case using last.hyps(2) by (auto simp: m)
next
  case (more v first c w cs s)
  obtain m where m: "n = Suc m" using more.prems by (cases n) auto
  have "import_node m (SRSNode '''' []) (w @ CHR '','' # s @ r) = Some (OGRERR_NONE, c, CHR '','' # s @ r)"
    using more.IH(1) [of m "CHR '','' # s @ r"] more.prems by (auto simp: m)
  moreover have "import_children m v (acc @ [c]) (s @ r) = Some (OGRERR_NONE, SRSNode v ((acc @ [c]) @ cs), r)"
    using more.IH(2) [of m "acc @ [c]" r] more.prems by (auto simp: m)
  ultimately show ?case by (auto simp: m)
qed

section \<open>What is written is a text\<close>

text \<open>Trees whose values a text keeps.\<close>

fun tree_ok :: "parent \<Rightarrow> OGR_SRSNode \<Rightarrow> bool" and trees_ok :: "cstring \<Rightarrow> bool \<Rightarrow> OGR_SRSNode list \<Rightarrow> bool" where
  "tree_ok p (SRSNode v cs) = (value_ok p (SRSNode v cs) \<and> trees_ok v True cs)"
| "trees_ok v first [] = True"
| "trees_ok v first (c # cs) = (tree_ok (Some (v, first)) c \<and> trees_ok v False cs)"

primrec all_values :: "OGR_SRSNode \<Rightarrow> cstring set" where
  "all_values (SRSNode v cs) = insert v (\<Union> (set (map all_values cs)))"

lemma length_wkt_children: "length (wkt_children ws) = sum_list (map (\<lambda>w. length w + 1) ws)"
  by (induction ws rule: wkt_children.induct) auto

lemma export_text:
  "tree_ok p node \<Longrightarrow> \<exists>w. exportToWkt p node = Some w \<and> wkt_text p node w"
  "trees_ok v first cs \<Longrightarrow> \<exists>ws. export_children v first cs = Some ws \<and> length ws = length cs \<and>
     (cs \<noteq> [] \<longrightarrow> wkt_list v first cs (wkt_children ws))"
proof (induction p node and v first cs rule: exportToWkt_export_children.induct)
  case (1 p v cs)
  then obtain ws where ws: "export_children v True cs = Some ws" "length ws = length cs"
    "cs \<noteq> [] \<longrightarrow> wkt_list v True cs (wkt_children ws)" by auto
  have ok: "value_ok p (SRSNode v cs)" using 1 by simp
  have "length (wkt_value p (SRSNode v cs)) \<le> length v + 2" by (simp add: wkt_value_def)
  moreover have "cs \<noteq> [] \<Longrightarrow> length (wkt_value p (SRSNode v cs)) = length v" by (simp add: wkt_value_def NeedsQuoting_def)
  ultimately have "exportToWkt p (SRSNode v cs) =
      Some (wkt_value p (SRSNode v cs) @ (if cs \<noteq> [] then ''['' else '''') @ wkt_children ws)"
    using ws(1,2) by (auto simp: in_buffer_def length_wkt_children)
  moreover have "wkt_text p (SRSNode v cs) (wkt_value p (SRSNode v cs) @ (if cs \<noteq> [] then ''['' else '''') @ wkt_children ws)"
  proof (cases cs)
    case Nil
    then show ?thesis using leaf [of "[]" p v] ok ws(2) by simp
  next
    case (Cons c cs')
    then show ?thesis using node [of "[]" p v cs "wkt_children ws" "CHR ''[''"] ok ws(3) by simp
  qed
  ultimately show ?case by blast
next
  case (3 v first c cs)
  obtain w where w: "exportToWkt (Some (v, first)) c = Some w" "wkt_text (Some (v, first)) c w"
    using 3 by auto
  obtain ws where ws: "export_children v False cs = Some ws" "length ws = length cs"
    "cs \<noteq> [] \<longrightarrow> wkt_list v False cs (wkt_children ws)"
    using 3 w(1) by (cases cs) auto
  show ?case
  proof (cases cs)
    case Nil
    then show ?thesis using w ws last [OF w(2), of "CHR '']''"] by auto
  next
    case (Cons d ds)
    then obtain u us where "ws = u # us" using ws(2) by (cases ws) auto
    then show ?thesis using w ws Cons more [OF w(2)] by auto
  qed
qed simp

text \<open>The indented text.\<close>

lemma wkt_text_space: "wkt_text p n w \<Longrightarrow> list_all wkt_space sp \<Longrightarrow> wkt_text p n (sp @ w)"
proof (induction rule: wkt_text.cases)
  case (leaf sp' p' v)
  then show ?case using wkt_text_wkt_list.leaf [of "sp @ sp'" p' v] by simp
next
  case (node sp' p' v cs s b)
  then show ?case using wkt_text_wkt_list.node [of "sp @ sp'" p' v cs s b] by simp
qed

lemma wkt_list_last: "wkt_list v first cs s \<Longrightarrow> s \<noteq> [] \<and> last s \<in> set ''])''"
  by (induction v first cs s rule: wkt_text_wkt_list.inducts(2) [where ?P1.0 = "\<lambda>_ _ _. True"]) auto

lemma wkt_text_last: "wkt_text p n w \<Longrightarrow> GetValue n \<noteq> [] \<Longrightarrow> w \<noteq> [] \<and> last w \<noteq> CHR '',''"
proof (induction rule: wkt_text.cases)
  case (leaf sp p' v)
  have "last v \<noteq> CHR '',''" if "bare v"
  proof -
    have "last v \<in> set v" using leaf by simp
    then show ?thesis using that by (auto simp: bare_def list_all_iff wkt_delimiter_def)
  qed
  then show ?case using leaf by (auto simp: wkt_value_def value_ok_def)
next
  case (node sp p' v cs s b)
  then show ?case using wkt_list_last [OF node(6)] by auto
qed

lemma new_line_space: "list_all wkt_space (new_line n)"
  by (simp add: new_line_def wkt_space_def list_all_iff)

lemma length_pretty_children:
  "length (pretty_children n bws) \<le> sum_list (map (\<lambda>(b, w). length w + 2 + n * 4) bws)"
  by (induction n bws rule: pretty_children.induct) (auto simp: new_line_def)

lemma pretty_text:
  "tree_ok p node \<Longrightarrow> [] \<notin> all_values node \<Longrightarrow> \<exists>w. exportToPrettyWkt p n node = Some w \<and> wkt_text p node w"
  "trees_ok v first cs \<Longrightarrow> \<forall>c \<in> set cs. [] \<notin> all_values c \<Longrightarrow>
     \<exists>ws. export_pretty_children v n first cs = Some ws \<and> length ws = length cs \<and>
       (cs \<noteq> [] \<longrightarrow> (\<forall>m. let s = pretty_children m (zip (map (\<lambda>c. children c \<noteq> []) cs) ws) in
          s \<noteq> [] \<and> last s \<noteq> CHR '','' \<and> wkt_list v first cs (s @ '']'')))"
proof (induction p n node and v n first cs rule: exportToPrettyWkt_export_pretty_children.induct)
  case (1 p n v cs)
  then obtain ws where ws: "export_pretty_children v (n + 1) True cs = Some ws" "length ws = length cs"
    "cs \<noteq> [] \<longrightarrow> (\<forall>m. let s = pretty_children m (zip (map (\<lambda>c. children c \<noteq> []) cs) ws) in
       s \<noteq> [] \<and> last s \<noteq> CHR '','' \<and> wkt_list v True cs (s @ '']''))"
    by auto
  let ?bs = "map (\<lambda>c. children c \<noteq> []) cs"
  let ?s = "pretty_children n (zip ?bs ws)"
  have ok: "value_ok p (SRSNode v cs)" using 1 by simp
  have "map (\<lambda>(b, w). length w + 2 + n * 4) (zip ?bs ws) = map (\<lambda>w. length w + 2 + n * 4) ws"
    using ws(2) by (intro nth_equalityI) auto
  then have len: "length (wkt_value p (SRSNode v cs)) \<le> length v + 2" "cs \<noteq> [] \<Longrightarrow> length (wkt_value p (SRSNode v cs)) = length v"
    "length ?s \<le> sum_list (map (\<lambda>w. length w + 2 + n * 4) ws)"
    using length_pretty_children [of n "zip ?bs ws"] by (auto simp: wkt_value_def NeedsQuoting_def)
  show ?case
  proof (cases "cs = []")
    case True
    then show ?thesis using leaf [of "[]" p v] ok ws(1,2) len(1) by (auto simp: in_buffer_def)
  next
    case False
    then have s: "?s \<noteq> []" "last ?s \<noteq> CHR '',''" "wkt_list v True cs (?s @ '']'')"
      using ws(3) by (auto simp: Let_def)
    have "exportToPrettyWkt p n (SRSNode v cs) = Some (wkt_value p (SRSNode v cs) @ ''['' @ ?s @ '']'')"
      using False s(1,2) ws(1) len(2,3) by (auto simp: in_buffer_def close_bracket_def Let_def)
    moreover have "wkt_text p (SRSNode v cs) (wkt_value p (SRSNode v cs) @ ''['' @ ?s @ '']'')"
      using node [of "[]" p v cs "?s @ '']''" "CHR ''[''"] ok s(3) by simp
    ultimately show ?thesis by blast
  qed
next
  case (3 v n first c cs)
  obtain w where w: "exportToPrettyWkt (Some (v, first)) n c = Some w" "wkt_text (Some (v, first)) c w"
    using 3 by auto
  obtain ws where ws: "export_pretty_children v n False cs = Some ws" "length ws = length cs"
      "cs \<noteq> [] \<longrightarrow> (\<forall>m. let s = pretty_children m (zip (map (\<lambda>c. children c \<noteq> []) cs) ws) in
          s \<noteq> [] \<and> last s \<noteq> CHR '','' \<and> wkt_list v False cs (s @ '']''))"
    using 3 w(1) by (cases cs) auto
  have "GetValue c \<noteq> []" using 3(4) by (cases c) auto
  then have l: "w \<noteq> []" "last w \<noteq> CHR '',''" using wkt_text_last [OF w(2)] by simp_all
  have sp: "wkt_text (Some (v, first)) c ((if b then new_line m else '''') @ w)" for b m
    using wkt_text_space [OF w(2) new_line_space] w(2) by simp
  show ?case
  proof (cases cs)
    case Nil
    then show ?thesis using w(1) ws(1,2) l last [OF sp, of "CHR '']''"] by (auto simp: Let_def)
  next
    case (Cons d ds)
    then obtain u us where u: "ws = u # us" using ws(2) by (cases ws) auto
    have "wkt_list v first (c # cs) (((if b then new_line m else '''') @ w) @ '','' @ s @ '']'')"
      if "wkt_list v False cs (s @ '']'')" for b m s
      using more [OF sp that] by simp
    then show ?thesis using w(1) ws l Cons u by (auto simp: Let_def)
  qed
qed simp

section \<open>Sorting the children\<close>

lemma bubble_pass_split:
  "length us = Suc n \<Longrightarrow> \<exists>b us'. bubble_pass n (us @ vs) = (b, us' @ vs) \<and> mset us' = mset us \<and>
     (\<forall>k. filter (\<lambda>x. k = fst x) us' = filter (\<lambda>x. k = fst x) us) \<and>
     ((\<forall>x \<in> set us. fst x \<noteq> -1) \<longrightarrow> (\<forall>x \<in> set us. fst x \<le> fst (last us')) \<and> (\<not> b \<longrightarrow> us' = us \<and> sorted (map fst us)))"
proof (induction n arbitrary: us)
  case 0
  then obtain x where "us = [x]" by (cases us) auto
  then show ?case by auto
next
  case (Suc n)
  then obtain x y zs where us: "us = x # y # zs" "length zs = n" by (metis length_Suc_conv)
  obtain b r where r: "bubble_pass n ((y # zs) @ vs) = (b, r @ vs)" "mset r = mset (y # zs)"
    "\<And>k. filter (\<lambda>x. k = fst x) r = filter (\<lambda>x. k = fst x) (y # zs)"
    "(\<forall>x \<in> set (y # zs). fst x \<noteq> -1) \<Longrightarrow>
       (\<forall>x \<in> set (y # zs). fst x \<le> fst (last r)) \<and> (\<not> b \<longrightarrow> r = y # zs \<and> sorted (map fst (y # zs)))"
    using Suc.IH [of "y # zs"] us(2) by auto
  obtain b' r' where r': "bubble_pass n ((x # zs) @ vs) = (b', r' @ vs)" "mset r' = mset (x # zs)"
    "\<And>k. filter (\<lambda>x. k = fst x) r' = filter (\<lambda>x. k = fst x) (x # zs)"
    "(\<forall>x \<in> set (x # zs). fst x \<noteq> -1) \<Longrightarrow> (\<forall>y \<in> set (x # zs). fst y \<le> fst (last r'))"
    using Suc.IH [of "x # zs"] us(2) by auto
  have ne: "r \<noteq> []" "r' \<noteq> []" using arg_cong [OF r(2), of size] arg_cong [OF r'(2), of size] by auto
  show ?case
  proof (cases "fst x = -1 \<or> fst y = -1 \<or> fst x \<le> fst y")
    case True
    then have "bubble_pass (Suc n) (us @ vs) = (b, (x # r) @ vs)" using r(1) us(1) by auto
    moreover have "(\<forall>z \<in> set us. fst z \<le> fst (last (x # r))) \<and> (\<not> b \<longrightarrow> x # r = us \<and> sorted (map fst us))"
      if k: "\<forall>z \<in> set us. fst z \<noteq> -1"
    proof -
      have "fst x \<le> fst y" using True k us(1) by auto
      moreover have "(\<forall>x \<in> set (y # zs). fst x \<le> fst (last r)) \<and> (\<not> b \<longrightarrow> r = y # zs \<and> sorted (map fst (y # zs)))"
        using r(4) k us(1) by simp
      ultimately show ?thesis using ne us(1) by force
    qed
    ultimately show ?thesis using r(2,3) us(1) by (intro exI [of _ b] exI [of _ "x # r"]) auto
  next
    case False
    then have "bubble_pass (Suc n) (us @ vs) = (True, (y # r') @ vs)" using r'(1) us(1) by auto
    moreover have "\<forall>z \<in> set us. fst z \<le> fst (last (y # r'))" if k: "\<forall>z \<in> set us. fst z \<noteq> -1"
      using r'(4) k us(1) ne(2) False by force
    moreover have "filter (\<lambda>x. k = fst x) (y # r') = filter (\<lambda>x. k = fst x) us" for k
      using r'(3) us(1) False by auto
    ultimately show ?thesis using r'(2) us(1) by (intro exI [of _ True] exI [of _ "y # r'"]) auto
  qed
qed

lemma bubble_loop_sorts:
  assumes "length us + length vs = n" and "length us = n - i + 1" and "1 \<le> i" and "i \<le> n"
    and "sorted (map fst vs)" and "\<forall>a \<in> set us. \<forall>b \<in> set vs. fst a \<le> fst b" and "\<forall>a \<in> set (us @ vs). fst a \<noteq> -1"
    and "bChange \<or> sorted (map fst us)"
  shows "\<exists>zs. bubble_loop n i bChange (us @ vs) = zs \<and> mset zs = mset (us @ vs) \<and>
    (\<forall>k. filter (\<lambda>x. k = fst x) zs = filter (\<lambda>x. k = fst x) (us @ vs)) \<and> sorted (map fst zs)"
  using assms
proof (induction "n - i" arbitrary: i bChange us vs)
  case 0
  then have "length us = 1" by simp
  then have "sorted (map fst us)" by (cases us) auto
  then have "sorted (map fst (us @ vs))" using 0 by (auto simp: sorted_append)
  then show ?case using 0 by (subst bubble_loop.simps) auto
next
  case (Suc m)
  show ?case
  proof (cases bChange)
    case False
    then have "sorted (map fst (us @ vs))" using Suc.prems by (auto simp: sorted_append)
    then show ?thesis using False by (subst bubble_loop.simps) auto
  next
    case True
    have len: "length us = Suc (n - i)" using Suc.prems by simp
    obtain b us' where p: "bubble_pass (n - i) (us @ vs) = (b, us' @ vs)" "mset us' = mset us"
      "\<forall>k. filter (\<lambda>x. k = fst x) us' = filter (\<lambda>x. k = fst x) us"
      "(\<forall>x \<in> set us. fst x \<le> fst (last us')) \<and> (\<not> b \<longrightarrow> us' = us \<and> sorted (map fst us))"
      using bubble_pass_split [OF len, of vs] Suc.prems(7) by auto
    have len': "length us' = Suc (n - i)" "set us' = set us"
      using p(2) len by (metis size_mset, metis set_mset_mset)
    then have ne: "us' \<noteq> []" by auto
    define ws where "ws = butlast us'"
    have us': "us' = ws @ [last us']" using ne by (simp add: ws_def)
    have sub: "set ws \<subseteq> set us" "last us' \<in> set us" using us' len'(2) by (metis Un_upper1 set_append, metis last_in_set ne)
    have app: "us' @ vs = ws @ (last us' # vs)" by (subst us') simp
    have "i < n" using Suc.hyps(2) by simp
    then have "bubble_loop n i bChange (us @ vs) = bubble_loop n (Suc i) b (ws @ (last us' # vs))"
      using True p(1) by (subst bubble_loop.simps) (simp add: app)
    moreover have "\<exists>zs. bubble_loop n (Suc i) b (ws @ (last us' # vs)) = zs \<and> mset zs = mset (ws @ (last us' # vs)) \<and>
      (\<forall>k. filter (\<lambda>x. k = fst x) zs = filter (\<lambda>x. k = fst x) (ws @ (last us' # vs))) \<and> sorted (map fst zs)"
    proof (rule Suc.hyps(1))
      show "m = n - Suc i" "Suc i \<le> n" "1 \<le> Suc i" using Suc.hyps(2) by simp_all
      show "length ws + length (last us' # vs) = n" "length ws = n - Suc i + 1"
        using len' Suc.prems(1,2,4) Suc.hyps(2) by (simp_all add: ws_def)
      show "sorted (map fst (last us' # vs))" using Suc.prems(5,6) sub(2) by auto
      show "\<forall>a \<in> set ws. \<forall>b \<in> set (last us' # vs). fst a \<le> fst b" using Suc.prems(6) p(4) sub by auto
      show "\<forall>a \<in> set (ws @ last us' # vs). fst a \<noteq> -1" using Suc.prems(7) sub by auto
      have "sorted (map fst ws)" if "sorted (map fst us')" using that us' by (metis map_append sorted_append)
      then show "b \<or> sorted (map fst ws)" using p(4) by auto
    qed
    ultimately show ?thesis using p(2,3) unfolding app [symmetric] by auto
  qed
qed

lemma bubble_loop_mset: "length xs = n \<Longrightarrow> 1 \<le> i \<Longrightarrow> mset (bubble_loop n i b xs) = mset xs"
proof (induction n i b xs rule: bubble_loop.induct)
  case (1 n i b xs)
  show ?case
  proof (cases "b \<and> i < n")
    case True
    then have "length (take (n - i + 1) xs) = Suc (n - i)" using 1(2,3) by auto
    then obtain b' us where p: "bubble_pass (n - i) xs = (b', us @ drop (n - i + 1) xs)" "mset us = mset (take (n - i + 1) xs)"
      using bubble_pass_split [of "take (n - i + 1) xs" "n - i" "drop (n - i + 1) xs"] by auto
    then have m: "mset (us @ drop (n - i + 1) xs) = mset xs" by (metis append_take_drop_id mset_append)
    then have "length (us @ drop (n - i + 1) xs) = n" using 1 by (metis size_mset)
    then show ?thesis using 1(1) [OF True p(1) [symmetric]] m True p(1) by (subst bubble_loop.simps) simp
  next
    case False
    then show ?thesis by (subst bubble_loop.simps) auto
  qed
qed

section \<open>Properties\<close>

text \<open>
  C15.  Reading undoes writing: a tree whose values a text keeps is what \<open>importFromWkt\<close> reads from the
  text \<open>exportToWkt\<close> writes, up to the end of the text, and both routines stay inside their buffers;
  if no value is empty, the same holds of the indented text of \<open>exportToPrettyWkt\<close>.
\<close>

theorem importFromWkt_undoes_export:
  assumes "tree_ok None root" and "children root \<noteq> []"
  shows "(\<exists>w. exportToWkt None root = Some w \<and> importFromWkt x (w @ r) = Some (OGRERR_NONE, root, r)) \<and>
    ([] \<notin> all_values root \<longrightarrow>
       (\<exists>w. exportToPrettyWkt None n root = Some w \<and> importFromWkt x (w @ r) = Some (OGRERR_NONE, root, r)))"
proof -
  have "importFromWkt x (w @ r) = Some (OGRERR_NONE, root, r)" if "wkt_text None root w" for w
    using import_text(1) [OF that, of "2 * length (w @ r) + 1" r x] assms(2) by (simp add: importFromWkt_def)
  then show ?thesis using export_text(1) [OF assms(1)] pretty_text(1) [OF assms(1), of n] by blast
qed

definition small_srs :: OGR_SRSNode where
  "small_srs = SRSNode ''UNIT'' [SRSNode ''my degree'' [], SRSNode ''0.01745'' [],
     SRSNode ''AUTHORITY'' [SRSNode ''EPSG'' [], SRSNode ''9122'' []]]"

theorem importFromWkt_undoes_export_witness:
  "\<exists>w. exportToWkt None small_srs = Some w \<and> importFromWkt (SRSNode '''' []) w = Some (OGRERR_NONE, small_srs, '''')"
proof -
  have "tree_ok None small_srs" "children small_srs \<noteq> []" by code_simp+
  from importFromWkt_undoes_export [OF this, of "SRSNode '''' []" "''''"] show ?thesis by simp
qed

text \<open>
  C26.  \<open>importFromWkt\<close> returns on every input, with or without an error; an error leaves the input
  pointer where it was.
\<close>

theorem importFromWkt_returns:
  "\<exists>e node' r. importFromWkt node s = Some (e, node', r) \<and> e \<in> {OGRERR_NONE, OGRERR_CORRUPT_DATA} \<and>
    length r \<le> length s \<and> (e \<noteq> OGRERR_NONE \<longrightarrow> r = s)"
  using import_returns(1) [of s "2 * length s + 1" node] unfolding importFromWkt_def by blast

theorem importFromWkt_returns_witness:
  "\<exists>e node' r. importFromWkt (SRSNode '''' []) ''UNIT[1,'' = Some (e, node', r) \<and> e \<in> {OGRERR_NONE, OGRERR_CORRUPT_DATA} \<and>
    (e \<noteq> OGRERR_NONE \<longrightarrow> r = ''UNIT[1,'')"
  using importFromWkt_returns [of "SRSNode '''' []" "''UNIT[1,''"] by blast

text \<open>
  C22.  \<open>FixupOrdering\<close> sorts, stably, the children behind the first one by their place in the rule of
  the node, if all of them occur in it; in any case it only permutes them.
\<close>

theorem FixupOrdering_sorts:
  assumes "ordering_rule v = Some rule" and "3 \<le> length cs"
  shows "\<exists>ds. FixupOrdering (SRSNode v cs) = SRSNode v (FixupOrdering (hd cs) # ds) \<and>
    mset ds = mset (map FixupOrdering (tl cs)) \<and>
    ((\<forall>c \<in> set (tl cs). child_key rule c \<noteq> -1) \<longrightarrow> ds = sort_key (child_key rule) (map FixupOrdering (tl cs)))"
proof -
  define fs where "fs = map FixupOrdering (tl cs)"
  define ks where "ks = map (\<lambda>c. (child_key rule c, c)) fs"
  define zs where "zs = bubble_loop (length fs) 1 True ks"
  obtain c cs' where cs: "cs = c # cs'" using assms(2) by (cases cs) auto
  have fix_cs: "FixupOrdering (SRSNode v cs) = SRSNode v (FixupOrdering (hd cs) # map snd zs)"
    using assms by (simp add: Let_def cs zs_def ks_def fs_def)
  have m: "mset zs = mset ks" by (simp add: zs_def bubble_loop_mset ks_def)
  then have "mset (map snd zs) = mset (map snd ks)" by (metis mset_map)
  then have perm: "mset (map snd zs) = mset fs" by (simp add: ks_def comp_def)
  have "map snd zs = sort_key (child_key rule) fs" if known: "\<forall>c \<in> set (tl cs). child_key rule c \<noteq> -1"
  proof -
    have same: "child_key rule (FixupOrdering c) = child_key rule c" for c
      by (cases c) (simp add: child_key_def Let_def split: option.split)
    have k: "\<forall>a \<in> set (ks @ []). fst a \<noteq> -1" using known by (auto simp: ks_def fs_def same)
    have len: "length ks = length fs" "fs \<noteq> []" using assms(2) by (simp_all add: ks_def fs_def cs) auto
    have z: "mset zs = mset ks" "\<And>k. filter (\<lambda>x. k = fst x) zs = filter (\<lambda>x. k = fst x) ks" "sorted (map fst zs)"
      using bubble_loop_sorts [of ks "[]" "length fs" 1 True] len k by (auto simp: zs_def Suc_le_eq)
    have key: "fst x = child_key rule (snd x)" if "x \<in> set zs" for x
      using that z(1) by (metis (no_types, lifting) ks_def imageE list.set_map fst_conv snd_conv set_mset_mset)
    have "sort_key (child_key rule) fs = map snd zs"
    proof (rule properties_for_sort_key)
      show "mset (map snd zs) = mset fs" by (rule perm)
      have "map (child_key rule) (map snd zs) = map fst zs" using key by simp
      then show "sorted (map (child_key rule) (map snd zs))" using z(3) by (simp only:)
      fix c
      have "filter (\<lambda>x. child_key rule c = child_key rule x) (map snd zs) = map snd (filter (\<lambda>x. child_key rule c = fst x) zs)"
        using key by (simp add: filter_map comp_def cong: filter_cong)
      also have "\<dots> = filter (\<lambda>x. child_key rule c = child_key rule x) fs"
        unfolding z(2) by (simp add: ks_def filter_map comp_def)
      finally show "filter (\<lambda>x. child_key rule c = child_key rule x) (map snd zs) =
        filter (\<lambda>x. child_key rule c = child_key rule x) fs" .
    qed
    then show ?thesis by simp
  qed
  then show ?thesis using fix_cs perm by (auto simp: fs_def)
qed

theorem FixupOrdering_sorts_witness:
  "FixupOrdering (SRSNode ''GEOGCS'' [SRSNode ''x'' [], SRSNode ''UNIT'' [], SRSNode ''PRIMEM'' [], SRSNode ''Datum'' []]) =
   SRSNode ''GEOGCS'' [SRSNode ''x'' [], SRSNode ''Datum'' [], SRSNode ''PRIMEM'' [], SRSNode ''UNIT'' []]"
proof -
  let ?cs = "[SRSNode ''x'' [], SRSNode ''UNIT'' [], SRSNode ''PRIMEM'' [], SRSNode ''Datum'' []]"
  let ?rule = "[''DATUM'', ''PRIMEM'', ''UNIT'', ''AXIS'', ''AUTHORITY'']"
  have r: "ordering_rule ''GEOGCS'' = Some ?rule" by code_simp
  have k: "child_key ?rule (SRSNode ''UNIT'' []) = 2" "child_key ?rule (SRSNode ''PRIMEM'' []) = 1"
    "child_key ?rule (SRSNode ''Datum'' []) = 0" by code_simp+
  show ?thesis
    using FixupOrdering_sorts [OF r, of ?cs] k by (simp add: Let_def)
qed

text \<open>
  \<open>MakeValueSafe\<close> changes no value that does not start with a full stop, whatever characters it
  has, so that the strings it is documented to make safe stay as they are.
\<close>

theorem MakeValueSafe_inert:
  assumes "\<And>v. v \<in> all_values node \<Longrightarrow> v = [] \<or> hd v \<noteq> CHR ''.''"
  shows "MakeValueSafe node = node"
  using assms
proof (induction node)
  case (SRSNode v cs)
  have "safe_value v = v" using SRSNode.prems [of v] by (auto simp: safe_value_def split: list.split)
  moreover have "map MakeValueSafe cs = cs" using SRSNode by (intro map_idI) auto
  ultimately show ?case by simp
qed

theorem MakeValueSafe_inert_witness:
  "MakeValueSafe (SRSNode ''a;b'' [SRSNode ''DROP TABLE'' []]) = SRSNode ''a;b'' [SRSNode ''DROP TABLE'' []]"
  by (rule MakeValueSafe_inert) auto

text \<open>The indented text loses an empty last child together with its comma.\<close>

lemma pretty_drops_empty_child:
  "exportToPrettyWkt None 1 (SRSNode ''A'' [SRSNode ''b'' [], SRSNode '''' []]) =
     Some (''A['' @ [CHR 0x22] @ ''b'' @ [CHR 0x22] @ '']'')"
  by code_simp

end
