(* ===== verification/Multi_Domain.thy ===== *)
theory Multi_Domain
  imports Csl_Facts Mini_Xml_Tree Mini_Xml_Facts
begin

unbundle bit_operations_syntax

text \<open>
  Metadata of datasets and bands, \<^verbatim>\<open>gcore/gdalmultidomainmetadata.cpp\<close>: for every domain a
  list of \<open>NAME=VALUE\<close> entries, and the \<^verbatim>\<open><Metadata>\<close> elements of an auxiliary file they are
  written to and read from; and the methods of \<^verbatim>\<open>GDALMajorObject\<close>
  (\<^verbatim>\<open>gcore/gdalmajorobject.cpp\<close>) that hold such an object.

  The array of lists is modelled with all its slots, the NULL at its end included, and every
  index is checked.  A list handed to \<open>SetMetadata\<close> may be one of the object's own (that is what
  \<open>GetMetadata\<close> returns): \<open>Own i\<close> is the list in slot \<open>i\<close>, \<open>Foreign l\<close> a list of the caller.
  The result \<^verbatim>\<open>CE_None\<close> of the routines that store is left out: they return nothing else.
\<close>

section \<open>Domains and their lists\<close>

record GDALMultiDomainMetadata =
  papszDomainList :: csl
  papapszMetadataLists :: "csl list option"

definition GDALMultiDomainMetadata_new :: GDALMultiDomainMetadata where
  "GDALMultiDomainMetadata_new = \<lparr>papszDomainList = None, papapszMetadataLists = None\<rparr>"

datatype md_source = Own nat | Foreign csl

text \<open>The default of the parameter and the test for NULL at the start of the routines.\<close>

definition domain_of :: "cstring option \<Rightarrow> cstring" where
  "domain_of pszDomain = (case pszDomain of None \<Rightarrow> '''' | Some d \<Rightarrow> d)"

text \<open>\<^verbatim>\<open>papapszMetadataLists[i]\<close>, read and written.\<close>

definition list_at :: "GDALMultiDomainMetadata \<Rightarrow> int \<Rightarrow> csl option" where
  "list_at md i =
     (case papapszMetadataLists md of
        None \<Rightarrow> None
      | Some arr \<Rightarrow> (if 0 \<le> i \<and> i < int (length arr) then Some (arr ! nat i) else None))"

definition set_list_at :: "GDALMultiDomainMetadata \<Rightarrow> int \<Rightarrow> csl \<Rightarrow> GDALMultiDomainMetadata option" where
  "set_list_at md i l =
     (case papapszMetadataLists md of
        None \<Rightarrow> None
      | Some arr \<Rightarrow>
          (if 0 \<le> i \<and> i < int (length arr)
           then Some (md\<lparr>papapszMetadataLists := Some (arr[nat i := l])\<rparr>) else None))"

text \<open>A domain that is new: its name is added, the array enlarged to one slot more than there are
  domains, the last slot cleared and the one before it set.  The slots \<^verbatim>\<open>CPLRealloc\<close> adds are
  written before they are read.\<close>

definition add_domain :: "GDALMultiDomainMetadata \<Rightarrow> cstring \<Rightarrow> csl \<Rightarrow> GDALMultiDomainMetadata option" where
  "add_domain md pszDomain l =
     (let md1 = md\<lparr>papszDomainList := CSLAddString (papszDomainList md) (Some pszDomain)\<rparr>;
          nDomainCount = CSLCount (papszDomainList md1);
          old = (case papapszMetadataLists md of None \<Rightarrow> [] | Some arr \<Rightarrow> arr);
          arr = take (nat (nDomainCount + 1)) old
                @ replicate (nat (nDomainCount + 1) - length old) None;
          md2 = md1\<lparr>papapszMetadataLists := Some arr\<rparr>
      in do {
           md3 \<leftarrow> set_list_at md2 nDomainCount None;
           set_list_at md3 (nDomainCount - 1) l
         })"

text \<open>The lists that are freed, and the object left: the loop stops at the first NULL.\<close>

definition Clear :: "GDALMultiDomainMetadata \<Rightarrow> GDALMultiDomainMetadata \<times> csl list" where
  "Clear md =
     (GDALMultiDomainMetadata_new,
      (case papapszMetadataLists md of
         None \<Rightarrow> []
       | Some arr \<Rightarrow> takeWhile (\<lambda>l. l \<noteq> None) arr))"

definition GetMetadata :: "GDALMultiDomainMetadata \<Rightarrow> cstring option \<Rightarrow> csl option" where
  "GetMetadata md pszDomain =
     (let iDomain = CSLFindString (papszDomainList md) (domain_of pszDomain)
      in if iDomain = -1 then Some None else list_at md iDomain)"

text \<open>The list an argument points to, before the call.\<close>

definition source_list :: "GDALMultiDomainMetadata \<Rightarrow> md_source \<Rightarrow> csl option" where
  "source_list md src = (case src of Own i \<Rightarrow> list_at md (int i) | Foreign l \<Rightarrow> Some l)"

text \<open>The list of a domain that exists is freed before the argument is copied: to copy the freed
  list is a fault.\<close>

definition SetMetadata ::
    "GDALMultiDomainMetadata \<Rightarrow> md_source \<Rightarrow> cstring option \<Rightarrow> GDALMultiDomainMetadata option" where
  "SetMetadata md papszMetadata pszDomain =
     (let iDomain = CSLFindString (papszDomainList md) (domain_of pszDomain)
      in do {
           l \<leftarrow> source_list md papszMetadata;
           (if iDomain = -1 then add_domain md (domain_of pszDomain) (CSLDuplicate l)
            else do {
              freed \<leftarrow> list_at md iDomain;
              (if papszMetadata = Own (nat iDomain) \<and> freed \<noteq> None then None
               else set_list_at md iDomain (CSLDuplicate l))
            })
         })"

definition GetMetadataItem ::
    "GDALMultiDomainMetadata \<Rightarrow> cstring option \<Rightarrow> cstring option \<Rightarrow> cstring option option" where
  "GetMetadataItem md pszName pszDomain = do {
     papszMD \<leftarrow> GetMetadata md pszDomain;
     Some (if papszMD \<noteq> None then CSLFetchNameValue papszMD pszName else None)
   }"

definition SetMetadataItem ::
    "GDALMultiDomainMetadata \<Rightarrow> cstring option \<Rightarrow> cstring option \<Rightarrow> cstring option
     \<Rightarrow> GDALMultiDomainMetadata option" where
  "SetMetadataItem md pszName val pszDomain =
     (let iDomain = CSLFindString (papszDomainList md) (domain_of pszDomain)
      in if iDomain = -1
         then add_domain md (domain_of pszDomain) (CSLSetNameValue None pszName val)
         else do {
           l \<leftarrow> list_at md iDomain;
           set_list_at md iDomain (CSLSetNameValue l pszName val)
         })"

section \<open>Reading and writing the elements\<close>

text \<open>\<^verbatim>\<open>CPLGetXMLValue( psMetadata, path, "" )\<close>, which is then compared or searched for.\<close>

definition md_value :: "CPLXMLNode \<Rightarrow> cstring \<Rightarrow> cstring option" where
  "md_value psMetadata path = do {
     v \<leftarrow> CPLGetXMLValue [psMetadata] (Some path) (Some '''');
     v
   }"

text \<open>The test of an \<^verbatim>\<open><MDI key="...">value</MDI>\<close> element.  \<open>psNext\<close> of the first child is
  the second child.\<close>

definition is_item :: "CPLXMLNode \<Rightarrow> bool" where
  "is_item psMDI =
     (EQUAL (pszValue psMDI) ''MDI'' \<and> eType psMDI = CXT_Element \<and>
      (case psChild psMDI of
         a # _ # _ \<Rightarrow> eType a = CXT_Attribute \<and> psChild a \<noteq> []
       | _ \<Rightarrow> False))"

definition item_name :: "CPLXMLNode \<Rightarrow> cstring" where
  "item_name psMDI = pszValue (hd (psChild (hd (psChild psMDI))))"

definition item_value :: "CPLXMLNode \<Rightarrow> cstring" where
  "item_value psMDI = pszValue (hd (tl (psChild psMDI)))"

fun read_items :: "csl \<Rightarrow> CPLXMLNode list \<Rightarrow> csl" where
  "read_items papszMD [] = papszMD"
| "read_items papszMD (psMDI # ns) =
     read_items
       (if is_item psMDI
        then CSLSetNameValue papszMD (Some (item_name psMDI)) (Some (item_value psMDI))
        else papszMD) ns"

definition is_metadata :: "CPLXMLNode \<Rightarrow> bool" where
  "is_metadata n = (eType n = CXT_Element \<and> EQUAL (pszValue n) ''Metadata'')"

text \<open>One \<^verbatim>\<open><Metadata>\<close> element.\<close>

definition read_domain ::
    "GDALMultiDomainMetadata \<Rightarrow> CPLXMLNode \<Rightarrow> bool \<Rightarrow> GDALMultiDomainMetadata option" where
  "read_domain md psMetadata bMerge = do {
     pszDomain \<leftarrow> md_value psMetadata ''domain'';
     pszFormat \<leftarrow> md_value psMetadata ''format'';
     papszMD \<leftarrow>
       (if EQUAL pszFormat ''xml'' then do {
          pszDoc \<leftarrow> CPLSerializeXMLTree (dropWhile (\<lambda>c. eType c = CXT_Attribute) (psChild psMetadata));
          Some (Some [pszDoc])
        }
        else do {
          old \<leftarrow> (if bMerge then GetMetadata md (Some pszDomain) else Some None);
          Some (read_items (if old \<noteq> None then CSLDuplicate old else None) (psChild psMetadata))
        });
     SetMetadata md (Foreign papszMD) (Some pszDomain)
   }"

fun read_domains ::
    "GDALMultiDomainMetadata \<Rightarrow> CPLXMLNode list \<Rightarrow> bool \<Rightarrow> GDALMultiDomainMetadata option" where
  "read_domains md [] bMerge = Some md"
| "read_domains md (n # ns) bMerge =
     (if is_metadata n then do { md1 \<leftarrow> read_domain md n bMerge; read_domains md1 ns bMerge }
      else read_domains md ns bMerge)"

definition XMLInit ::
    "GDALMultiDomainMetadata \<Rightarrow> CPLXMLNode \<Rightarrow> bool \<Rightarrow> (bool \<times> GDALMultiDomainMetadata) option" where
  "XMLInit md psTree bMerge = do {
     md1 \<leftarrow> read_domains md (psChild psTree) bMerge;
     Some (CSLCount (papszDomainList md1) \<noteq> 0, md1)
   }"

text \<open>An attribute with its text, as the last child of a node.\<close>

definition with_attribute :: "CPLXMLNode \<Rightarrow> cstring \<Rightarrow> cstring \<Rightarrow> CPLXMLNode" where
  "with_attribute n name val =
     XMLNode (eType n) (pszValue n)
       (psChild n @ [XMLNode CXT_Attribute name [CPLCreateXMLNode CXT_Text val]])"

text \<open>The element of an entry.  An entry without a separator leaves the key unset, and the unset
  pointer is read and freed: a fault.\<close>

definition item_node :: "cstring \<Rightarrow> CPLXMLNode option" where
  "item_node entry = do {
     (pszRawValue, pszKey) \<leftarrow> CPLParseNameValue entry;
     (_, psMDI) \<leftarrow> CPLSetXMLValue (CPLCreateXMLNode CXT_Element ''MDI'') (Some ''#key'') pszKey;
     Some (XMLNode (eType psMDI) (pszValue psMDI) (psChild psMDI @ [CPLCreateXMLNode CXT_Text pszRawValue]))
   }"

fun item_nodes :: "cstring list \<Rightarrow> CPLXMLNode list option" where
  "item_nodes [] = Some []"
| "item_nodes (x # xs) = do { n \<leftarrow> item_node x; ns \<leftarrow> item_nodes xs; Some (n # ns) }"

text \<open>One round of \<open>Serialize\<close>: the element of a domain.\<close>

definition domain_node :: "cstring \<Rightarrow> csl \<Rightarrow> CPLXMLNode option" where
  "domain_node pszDomain papszMD = do {
     let psMD0 = CPLCreateXMLNode CXT_Element ''Metadata'';
     let psMD = (if 0 < length pszDomain then with_attribute psMD0 ''domain'' pszDomain else psMD0);
     psValueAsXML \<leftarrow> (if EQUALN pszDomain ''xml:'' 4 \<and> CSLCount papszMD = 1
                     then CPLParseXMLString (Some (hd (csl_items papszMD))) else Some []);
     (if psValueAsXML \<noteq> []
      then Some (CPLAddXMLChild (with_attribute psMD ''format'' ''xml'') psValueAsXML)
      else do {
        items \<leftarrow> item_nodes (csl_items papszMD);
        Some (XMLNode (eType psMD) (pszValue psMD) (psChild psMD @ items))
      })
   }"

fun serialize_loop ::
    "GDALMultiDomainMetadata \<Rightarrow> cstring list \<Rightarrow> int \<Rightarrow> CPLXMLNode list \<Rightarrow> CPLXMLNode list option" where
  "serialize_loop md [] iDomain psFirst = Some psFirst"
| "serialize_loop md (d # ds) iDomain psFirst = do {
     papszMD \<leftarrow> list_at md iDomain;
     psMD \<leftarrow> domain_node d papszMD;
     serialize_loop md ds (iDomain + 1)
       (if psFirst = [] then [psMD] else CPLAddXMLSibling psFirst [psMD])
   }"

definition Serialize :: "GDALMultiDomainMetadata \<Rightarrow> CPLXMLNode list option" where
  "Serialize md = serialize_loop md (csl_items (papszDomainList md)) 0 []"

section \<open>Objects that hold metadata\<close>

text \<open>The members of \<^verbatim>\<open>GDALMajorObject\<close> and its methods.\<close>

definition GMO_VALID :: "32 word" where "GMO_VALID = 0x0001"
definition GMO_MD_DIRTY :: "32 word" where "GMO_MD_DIRTY = 0x0010"

record GDALMajorObject =
  nFlags :: "32 word"
  sDescription :: cstring
  oMDMD :: GDALMultiDomainMetadata

definition GDALMajorObject_new :: GDALMajorObject where
  "GDALMajorObject_new = \<lparr>nFlags = GMO_VALID, sDescription = '''', oMDMD = GDALMultiDomainMetadata_new\<rparr>"

definition GetDescription :: "GDALMajorObject \<Rightarrow> cstring" where
  "GetDescription obj = sDescription obj"

definition SetDescription :: "GDALMajorObject \<Rightarrow> cstring \<Rightarrow> GDALMajorObject" where
  "SetDescription obj pszNewDesc = obj\<lparr>sDescription := pszNewDesc\<rparr>"

definition GetMOFlags :: "GDALMajorObject \<Rightarrow> 32 word" where
  "GetMOFlags obj = nFlags obj"

definition SetMOFlags :: "GDALMajorObject \<Rightarrow> 32 word \<Rightarrow> GDALMajorObject" where
  "SetMOFlags obj nNewFlags = obj\<lparr>nFlags := nNewFlags\<rparr>"

definition object_GetMetadata :: "GDALMajorObject \<Rightarrow> cstring option \<Rightarrow> csl option" where
  "object_GetMetadata obj pszDomain = GetMetadata (oMDMD obj) pszDomain"

definition object_SetMetadata ::
    "GDALMajorObject \<Rightarrow> md_source \<Rightarrow> cstring option \<Rightarrow> GDALMajorObject option" where
  "object_SetMetadata obj papszMetadataIn pszDomain = do {
     let obj1 = obj\<lparr>nFlags := nFlags obj OR GMO_MD_DIRTY\<rparr>;
     md \<leftarrow> SetMetadata (oMDMD obj1) papszMetadataIn pszDomain;
     Some (obj1\<lparr>oMDMD := md\<rparr>)
   }"

definition object_GetMetadataItem ::
    "GDALMajorObject \<Rightarrow> cstring option \<Rightarrow> cstring option \<Rightarrow> cstring option option" where
  "object_GetMetadataItem obj pszName pszDomain = GetMetadataItem (oMDMD obj) pszName pszDomain"

definition object_SetMetadataItem ::
    "GDALMajorObject \<Rightarrow> cstring option \<Rightarrow> cstring option \<Rightarrow> cstring option \<Rightarrow> GDALMajorObject option" where
  "object_SetMetadataItem obj pszName val pszDomain = do {
     let obj1 = obj\<lparr>nFlags := nFlags obj OR GMO_MD_DIRTY\<rparr>;
     md \<leftarrow> SetMetadataItem (oMDMD obj1) pszName val pszDomain;
     Some (obj1\<lparr>oMDMD := md\<rparr>)
   }"

end
