(* ===== verification/Multi_Domain_Facts.thy ===== *)
theory Multi_Domain_Facts
  imports Multi_Domain
begin

text \<open>
  What the metadata of an object promises: the two arrays are an association list from domains,
  up to case, to lists of entries (\<open>md_of\<close>); by that view the pairs of domain and name are a
  name/value store, the second interpretation of the locale \<open>name_value_store\<close>; and the elements
  written for an auxiliary file read back, through their text.
\<close>

section \<open>The arrays as an association list\<close>

definition md_of :: "(cstring \<times> csl) list \<Rightarrow> GDALMultiDomainMetadata" where
  "md_of ps =
     (if ps = [] then GDALMultiDomainMetadata_new
      else \<lparr>papszDomainList = Some (map fst ps), papapszMetadataLists = Some (map snd ps @ [None])\<rparr>)"

definition md_pairs :: "GDALMultiDomainMetadata \<Rightarrow> (cstring \<times> csl) list" where
  "md_pairs md =
     zip (csl_items (papszDomainList md))
       (case papapszMetadataLists md of None \<Rightarrow> [] | Some arr \<Rightarrow> arr)"

text \<open>The invariant: as many lists as domains and a NULL behind them, no domain twice, no name
  twice in a list.\<close>

definition md_ok :: "GDALMultiDomainMetadata \<Rightarrow> bool" where
  "md_ok md =
     (md = md_of (md_pairs md) \<and> distinct (map (\<lambda>(d, l). map c_tolower d) (md_pairs md)) \<and>
      (\<forall>(d, l) \<in> set (md_pairs md). nv_unique l))"

definition domain_index :: "(cstring \<times> csl) list \<Rightarrow> cstring \<Rightarrow> nat option" where
  "domain_index ps d = first_index (\<lambda>(e, l). EQUAL e d) ps"

definition pairs_ok :: "(cstring \<times> csl) list \<Rightarrow> bool" where
  "pairs_ok ps =
     (distinct (map (\<lambda>(d, l). map c_tolower d) ps) \<and> (\<forall>(d, l) \<in> set ps. nv_unique l))"

lemma md_pairs_of [simp]: "md_pairs (md_of ps) = ps"
proof -
  have "zip (map fst ps) (map snd ps @ ys) = ps" for ys :: "csl list"
    by (induction ps) simp_all
  then show ?thesis by (simp add: md_pairs_def md_of_def GDALMultiDomainMetadata_new_def)
qed

lemma md_ok_of: "md_ok (md_of ps) \<longleftrightarrow> pairs_ok ps"
  by (simp add: md_ok_def pairs_ok_def)

lemma md_okE:
  assumes "md_ok md"
  obtains ps where "md = md_of ps" and "pairs_ok ps"
  using assms md_ok_of by (metis md_ok_def)

lemma domains_of [simp]: "csl_items (papszDomainList (md_of ps)) = map fst ps"
  by (simp add: md_of_def GDALMultiDomainMetadata_new_def)

lemma index_loop_first:
  "index_loop p xs i = (case first_index p xs of None \<Rightarrow> -1 | Some n \<Rightarrow> i + int n)"
  by (induction xs arbitrary: i) (auto split: option.split)

lemma first_index_map: "first_index p (map f xs) = first_index (p \<circ> f) xs"
  by (induction xs) auto

lemma CSLFindString_of:
  "CSLFindString (papszDomainList (md_of ps)) d =
     (case domain_index ps d of None \<Rightarrow> -1 | Some n \<Rightarrow> int n)"
  by (auto simp: CSLFindString_def md_of_def GDALMultiDomainMetadata_new_def domain_index_def
      index_loop_first first_index_map o_def case_prod_unfold split: option.split)

lemma domain_index_lt: "domain_index ps d = Some n \<Longrightarrow> n < length ps \<and> EQUAL (fst (ps ! n)) d"
  unfolding domain_index_def by (drule first_index_Some) (auto simp: case_prod_unfold)

lemma list_at_of [simp]:
  "n < length ps \<Longrightarrow> list_at (md_of ps) (int n) = Some (snd (ps ! n))"
  by (auto simp: list_at_def md_of_def nth_append)

lemma set_list_at_of:
  assumes "n < length ps"
  shows "set_list_at (md_of ps) (int n) l = Some (md_of (ps[n := (fst (ps ! n), l)]))"
proof -
  have "map fst (ps[n := (fst (ps ! n), l)]) = map fst ps"
    using assms by (simp add: map_update) (metis list_update_id map_update)
  with assms show ?thesis
    by (auto simp: set_list_at_def md_of_def list_update_append map_update)
qed

lemma add_domain_of: "add_domain (md_of ps) d l = Some (md_of (ps @ [(d, l)]))"
  by (cases "ps = []")
    (simp_all add: add_domain_def md_of_def GDALMultiDomainMetadata_new_def set_list_at_def Let_def
      CSLAddString_def list_update_append nth_append nat_add_distrib)

text \<open>Storing a whole list for a domain.\<close>

definition pairs_put :: "(cstring \<times> csl) list \<Rightarrow> cstring \<Rightarrow> csl \<Rightarrow> (cstring \<times> csl) list" where
  "pairs_put ps d l =
     (case domain_index ps d of None \<Rightarrow> ps @ [(d, l)] | Some n \<Rightarrow> ps[n := (fst (ps ! n), l)])"

definition pairs_get :: "(cstring \<times> csl) list \<Rightarrow> cstring \<Rightarrow> csl" where
  "pairs_get ps d = (case domain_index ps d of None \<Rightarrow> None | Some n \<Rightarrow> snd (ps ! n))"

lemma GetMetadata_of [simp]: "GetMetadata (md_of ps) d = Some (pairs_get ps (domain_of d))"
  by (auto simp: GetMetadata_def CSLFindString_of pairs_get_def Let_def dest: domain_index_lt split: option.split)

lemma SetMetadata_of [simp]:
  "SetMetadata (md_of ps) (Foreign l) d = Some (md_of (pairs_put ps (domain_of d) (CSLDuplicate l)))"
  by (auto simp: SetMetadata_def CSLFindString_of pairs_put_def source_list_def add_domain_of
      set_list_at_of Let_def dest!: domain_index_lt split: option.split)

lemma SetMetadataItem_of [simp]:
  "SetMetadataItem (md_of ps) name val d =
    Some (md_of (pairs_put ps (domain_of d) (CSLSetNameValue (pairs_get ps (domain_of d)) name val)))"
  by (auto simp: SetMetadataItem_def CSLFindString_of pairs_put_def pairs_get_def add_domain_of
      set_list_at_of Let_def dest!: domain_index_lt split: option.split)

lemma domain_index_EQUAL: "EQUAL d d' \<Longrightarrow> domain_index ps d' = domain_index ps d"
  unfolding domain_index_def by (metis EQUAL_sym EQUAL_trans)

lemma first_index_snoc:
  "first_index p (xs @ [x]) =
    (case first_index p xs of None \<Rightarrow> if p x then Some (length xs) else None | Some n \<Rightarrow> Some n)"
  by (induction xs) (auto split: option.split)

lemma first_index_same:
  "(\<And>i. i < length xs \<Longrightarrow> p (xs ! i) = p (ys ! i)) \<Longrightarrow> length xs = length ys \<Longrightarrow>
    first_index p xs = first_index p ys"
proof (induction xs arbitrary: ys)
  case (Cons x xs)
  then obtain y ys' where ys: "ys = y # ys'" by (cases ys) auto
  have "p x = p y" using Cons.prems(1) [of 0] ys by simp
  moreover have "first_index p xs = first_index p ys'"
    using Cons.prems(1) [of "Suc _"] Cons.prems(2) ys by (intro Cons.IH) auto
  ultimately show ?case by (simp add: ys)
qed simp

lemma domain_index_update:
  "n < length ps \<Longrightarrow> domain_index (ps[n := (fst (ps ! n), l)]) d = domain_index ps d"
  unfolding domain_index_def by (rule first_index_same) (auto simp: nth_list_update case_prod_unfold)

lemma pairs_get_put: "pairs_get (pairs_put ps d l) d' = (if EQUAL d d' then l else pairs_get ps d')"
proof (cases "domain_index ps d")
  case None
  have "EQUAL d d' \<Longrightarrow> domain_index ps d' = None" using None domain_index_EQUAL by metis
  then show ?thesis
    using None by (auto simp: pairs_put_def pairs_get_def domain_index_def first_index_snoc nth_append
        dest!: first_index_Some split: option.split)
next
  case (Some n)
  then have n: "n < length ps" "EQUAL (fst (ps ! n)) d" using domain_index_lt by auto
  have "EQUAL d d' \<Longrightarrow> domain_index ps d' = Some n" using Some domain_index_EQUAL by metis
  moreover have "m \<noteq> n" if "domain_index ps d' = Some m" "\<not> EQUAL d d'" for m
    using domain_index_lt [OF that(1)] that(2) n(2) EQUAL_sym EQUAL_trans by metis
  ultimately show ?thesis
    using Some n(1) by (auto simp: pairs_put_def pairs_get_def domain_index_update split: option.split)
qed

lemma first_index_None: "first_index p xs = None \<longleftrightarrow> (\<forall>x \<in> set xs. \<not> p x)"
  by (induction xs) auto

lemma pairs_ok_put:
  assumes "pairs_ok ps" and "nv_unique l"
  shows "pairs_ok (pairs_put ps d l)"
proof (cases "domain_index ps d")
  case None
  then have "map c_tolower d \<notin> set (map (\<lambda>(d, l). map c_tolower d) ps)"
    by (auto simp: domain_index_def first_index_None EQUAL_def)
  with None assms show ?thesis by (simp add: pairs_put_def pairs_ok_def)
next
  case (Some n)
  then have n: "n < length ps" using domain_index_lt by auto
  then have "map (\<lambda>(d, l). map c_tolower d) (ps[n := (fst (ps ! n), l)]) = map (\<lambda>(d, l). map c_tolower d) ps"
    by (simp add: map_update case_prod_unfold) (metis (no_types, lifting) list_update_id nth_map)
  moreover have "\<forall>(d, l) \<in> set (ps[n := (fst (ps ! n), l)]). nv_unique l"
    using assms set_update_subset_insert [of ps n "(fst (ps ! n), l)"] by (fastforce simp: pairs_ok_def)
  ultimately show ?thesis using Some assms by (simp add: pairs_put_def pairs_ok_def)
qed

lemma pairs_get_unique: "pairs_ok ps \<Longrightarrow> nv_unique (pairs_get ps d)"
  by (auto simp: pairs_get_def pairs_ok_def nv_unique_def folded_keys_def
      dest!: domain_index_lt nth_mem split: option.split)

section \<open>Items as a name/value store\<close>

definition md_fetch :: "GDALMultiDomainMetadata \<Rightarrow> cstring \<times> cstring \<Rightarrow> cstring option" where
  "md_fetch md = (\<lambda>(d, n). case GetMetadataItem md (Some n) (Some d) of None \<Rightarrow> None | Some r \<Rightarrow> r)"

definition md_store ::
    "GDALMultiDomainMetadata \<Rightarrow> cstring \<times> cstring \<Rightarrow> cstring option \<Rightarrow> GDALMultiDomainMetadata" where
  "md_store md = (\<lambda>(d, n) w. case SetMetadataItem md (Some n) w (Some d) of None \<Rightarrow> md | Some md' \<Rightarrow> md')"

definition same_item :: "cstring \<times> cstring \<Rightarrow> cstring \<times> cstring \<Rightarrow> bool" where
  "same_item = (\<lambda>(d, n) (d', n'). EQUAL d d' \<and> EQUAL n n')"

lemma GetMetadataItem_of [simp]:
  "GetMetadataItem (md_of ps) (Some n) d = Some (CSLFetchNameValue (pairs_get ps (domain_of d)) (Some n))"
  by (simp add: GetMetadataItem_def CSLFetchNameValue_def)

lemma domain_of_Some [simp]: "domain_of (Some d) = d"
  by (simp add: domain_of_def)

lemma md_fetch_of [simp]: "md_fetch (md_of ps) (d, n) = CSLFetchNameValue (pairs_get ps d) (Some n)"
  by (simp add: md_fetch_def)

lemma md_store_of [simp]:
  "md_store (md_of ps) (d, n) w = md_of (pairs_put ps d (CSLSetNameValue (pairs_get ps d) (Some n) w))"
  by (simp add: md_store_def)

interpretation md: name_value_store md_fetch md_store same_item "\<lambda>(d, n). nv_name n" md_ok
proof (unfold_locales, goal_cases)
  case (4 s k k' v)
  obtain ps where s: "s = md_of ps" "pairs_ok ps" using 4(1) by (rule md_okE)
  obtain d n d' n' where k: "k = (d, n)" "k' = (d', n')" by fastforce
  from 4 k have n: "nv_name n" "nv_name n'" by simp_all
  have "EQUAL d d' \<Longrightarrow> pairs_get ps d' = pairs_get ps d"
    by (simp add: pairs_get_def domain_index_EQUAL)
  then show ?case
    using csl.get_put [OF pairs_get_unique [OF s(2)] n] s k
    by (simp add: pairs_get_put same_item_def)
next
  case (5 s k v)
  obtain ps where s: "s = md_of ps" "pairs_ok ps" using 5(1) by (rule md_okE)
  obtain d n where k: "k = (d, n)" by fastforce
  with 5 s show ?case by (simp add: md_ok_of pairs_ok_put csl.ok_put pairs_get_unique)
qed (auto simp: same_item_def EQUAL_sym intro: EQUAL_trans)

text \<open>The routines never fault on a valid object: \<open>md_fetch\<close> and \<open>md_store\<close> are what they return.\<close>

lemma GetMetadataItem_fetch: "md_ok md \<Longrightarrow> GetMetadataItem md (Some n) (Some d) = Some (md_fetch md (d, n))"
  by (auto elim!: md_okE)

lemma SetMetadataItem_store: "md_ok md \<Longrightarrow> SetMetadataItem md (Some n) w (Some d) = Some (md_store md (d, n) w)"
  by (auto elim!: md_okE)

lemma SetMetadata_ok:
  assumes "md_ok md" and "nv_unique l"
  shows "\<exists>md'. SetMetadata md (Foreign l) (Some d) = Some md' \<and> md_ok md' \<and>
    (\<forall>d'. GetMetadata md' (Some d') = (if EQUAL d d' then Some (CSLDuplicate l) else GetMetadata md (Some d')))"
proof -
  obtain ps where "md = md_of ps" "pairs_ok ps" using assms(1) by (rule md_okE)
  moreover have "nv_unique (CSLDuplicate l)" using assms(2) by (simp add: nv_unique_def)
  ultimately show ?thesis by (simp add: md_ok_of pairs_ok_put pairs_get_put)
qed

section \<open>Elements that are written and read back\<close>

text \<open>An entry as \<open>CSLSetNameValue\<close> makes it, with a value that an XML text keeps: not empty and
  without a blank at its start.\<close>

definition plain_entry :: "cstring \<Rightarrow> bool" where
  "plain_entry e =
     (c_string e \<and> has_sep e \<and> take 1 (drop (length (entry_key e)) e) = ''='' \<and>
      entry_value e \<noteq> [] \<and> \<not> c_isspace (entry_value e ! 0))"

text \<open>Sizes the serializer accepts.\<close>

definition fits_attribute :: "cstring \<Rightarrow> bool" where
  "fits_attribute s =
     (c_string s \<and> int (length s * 6 + 1) < 2 ^ 31 \<and> length (xml_esc s) \<le> length s + 30)"

definition entry_fits :: "cstring \<Rightarrow> bool" where
  "entry_fits e =
     (plain_entry e \<and> fits_attribute (entry_key e) \<and> int (length (entry_value e) * 6 + 1) < 2 ^ 31)"

text \<open>A list that is a document: the text of a chain of items as the serializer writes it.\<close>

definition xml_document :: "CPLXMLNode list \<Rightarrow> csl" where
  "xml_document ts = Some [concat (map (\<lambda>t. xml_text t 0) ts)]"

definition is_xml_domain :: "cstring \<Rightarrow> csl \<Rightarrow> bool" where
  "is_xml_domain d l = (EQUALN d ''xml:'' 4 \<and> length (csl_items l) = 1)"

text \<open>The document of an \<open>xml:\<close> domain, found by parsing its text.\<close>

definition document_of :: "csl \<Rightarrow> CPLXMLNode list" where
  "document_of l = (case CPLParseXMLString (Some (hd (csl_items l))) of None \<Rightarrow> [] | Some ts \<Rightarrow> ts)"

definition domain_fits :: "cstring \<times> csl \<Rightarrow> bool" where
  "domain_fits = (\<lambda>(d, l).
     fits_attribute d \<and>
     (if is_xml_domain d l
      then document_of l \<noteq> [] \<and> (\<forall>t \<in> set (document_of l). xml_item t \<and> xml_fits t)
      else \<forall>e \<in> set (csl_items l). entry_fits e))"

definition md_fits :: "GDALMultiDomainMetadata \<Rightarrow> bool" where
  "md_fits md = (\<forall>p \<in> set (md_pairs md). domain_fits p)"

definition mdi :: "cstring \<Rightarrow> CPLXMLNode" where
  "mdi e = XMLNode CXT_Element ''MDI''
     [XMLNode CXT_Attribute ''key'' [XMLNode CXT_Text (entry_key e) []], XMLNode CXT_Text (entry_value e) []]"

definition text_attribute :: "cstring \<Rightarrow> cstring \<Rightarrow> CPLXMLNode" where
  "text_attribute n v = XMLNode CXT_Attribute n [XMLNode CXT_Text v []]"

definition metadata_node :: "cstring \<times> csl \<Rightarrow> CPLXMLNode" where
  "metadata_node = (\<lambda>(d, l). XMLNode CXT_Element ''Metadata''
     ((if d = [] then [] else [text_attribute ''domain'' d]) @
      (if is_xml_domain d l then text_attribute ''format'' ''xml'' # document_of l
       else map mdi (csl_items l))))"

lemma plain_entry_split:
  assumes "plain_entry e"
  shows "e = entry_key e @ CHR ''='' # entry_value e" and "dropWhile blank (entry_value e) = entry_value e"
    and "c_string (entry_key e)" and "c_string (entry_value e)"
proof -
  obtain c where c: "sep_char c" "e = entry_key e @ c # entry_value e"
    using assms entry_split unfolding plain_entry_def by metis
  have "take 1 (drop (length (entry_key e)) (entry_key e @ c # entry_value e)) = [c]" by simp
  then show e: "e = entry_key e @ CHR ''='' # entry_value e"
    using assms c(2) by (simp add: plain_entry_def)
  obtain x r where v: "entry_value e = x # r" "\<not> c_isspace x"
    using assms by (cases "entry_value e") (auto simp: plain_entry_def)
  then have "\<not> blank x"
    by (auto simp: blank_def c_isspace_def code_of_def)
  then show "dropWhile blank (entry_value e) = entry_value e" using v by simp
  have "c_string (entry_key e @ CHR ''='' # entry_value e)"
    using assms e by (simp add: plain_entry_def)
  then show "c_string (entry_key e)" "c_string (entry_value e)" by (simp_all add: c_string_def)
qed

lemma tokens_key: "CSLTokenizeStringComplex (Some ''#key'') ''.'' False False = Some [''#key'']"
  by code_simp

lemma item_node_plain:
  assumes "plain_entry e"
  shows "item_node e = Some (mdi e)"
proof -
  have "CPLParseNameValue e = Some (entry_value e, entry_key e)"
    using assms plain_entry_split [OF assms] by (simp add: CPLParseNameValue_eq plain_entry_def)
  then show ?thesis
    by (simp add: item_node_def CPLSetXMLValue_def tokens_key mdi_def is_hash_def unhash_def
        CPLCreateXMLNode_def set_text_child_def)
qed

lemma item_nodes_plain: "\<forall>e \<in> set xs. plain_entry e \<Longrightarrow> item_nodes xs = Some (map mdi xs)"
  by (induction xs) (simp_all add: item_node_plain)

lemma parse_xml_document:
  assumes "\<forall>t \<in> set ts. xml_item t"
  shows "CPLParseXMLString (Some (hd (csl_items (xml_document ts)))) = Some ts"
  using parse_document [OF assms] by (simp add: xml_document_def)

lemma domain_node_fits:
  assumes "domain_fits (d, l)"
  shows "domain_node d l = Some (metadata_node (d, l))"
proof -
  let ?d = "if d = [] then [] else [text_attribute ''domain'' d]"
  let ?n = "XMLNode CXT_Element ''Metadata'' ?d"
  have n: "(if 0 < length d then with_attribute (CPLCreateXMLNode CXT_Element ''Metadata'') ''domain'' d
      else CPLCreateXMLNode CXT_Element ''Metadata'') = ?n"
    by (simp add: with_attribute_def CPLCreateXMLNode_def text_attribute_def)
  show ?thesis
  proof (cases "is_xml_domain d l")
    case True
    then have doc: "document_of l \<noteq> []" "\<forall>t \<in> set (document_of l). xml_item t"
      using assms by (auto simp: domain_fits_def)
    have parse: "CPLParseXMLString (Some (hd (csl_items l))) = Some (document_of l)"
      using doc(1) by (auto simp: document_of_def split: option.splits)
    have hd: "eType (hd (document_of l)) \<noteq> CXT_Attribute"
      using doc(1,2) xml_item_type [of "hd (document_of l)"] by force
    have app: "add_child_loop (x # xs) (document_of l) = (x # xs) @ document_of l" for x xs
      using hd by (induction xs arbitrary: x) simp_all
    have "CPLAddXMLChild (with_attribute ?n ''format'' ''xml'') (document_of l) = metadata_node (d, l)"
      using True hd app
      by (simp add: CPLAddXMLChild_def with_attribute_def CPLCreateXMLNode_def metadata_node_def
          text_attribute_def del: add_child_loop.simps)
    then show ?thesis
      using True parse doc(1) unfolding domain_node_def Let_def n
      by (simp add: is_xml_domain_def)
  next
    case False
    then have "\<forall>e \<in> set (csl_items l). plain_entry e"
      using assms by (auto simp: domain_fits_def entry_fits_def)
    moreover have test: "(EQUALN d ''xml:'' 4 \<and> CSLCount l = 1) = False"
      using False by (auto simp: is_xml_domain_def)
    ultimately show ?thesis
      using False unfolding domain_node_def Let_def n test if_False
      by (simp add: item_nodes_plain metadata_node_def)
  qed
qed

lemma serialize_loop_of:
  assumes "\<forall>p \<in> set ps. domain_fits p" and "qs @ ps = all_ps"
  shows "serialize_loop (md_of all_ps) (map fst ps) (int (length qs)) (map metadata_node qs) =
    Some (map metadata_node all_ps)"
  using assms
proof (induction ps arbitrary: qs)
  case (Cons p ps)
  obtain d l where p: "p = (d, l)" by fastforce
  have at: "list_at (md_of all_ps) (int (length qs)) = Some l"
    using Cons.prems(2) p by (subst list_at_of) auto
  have "serialize_loop (md_of all_ps) (map fst ps) (int (length (qs @ [p]))) (map metadata_node (qs @ [p])) =
      Some (map metadata_node all_ps)"
    using Cons.prems by (intro Cons.IH) auto
  then show ?case
    using at Cons.prems(1) p domain_node_fits [of d l] by (cases qs) (simp_all add: CPLAddXMLSibling_def add.commute)
qed simp

lemma Serialize_of: "\<forall>p \<in> set ps. domain_fits p \<Longrightarrow> Serialize (md_of ps) = Some (map metadata_node ps)"
  using serialize_loop_of [of ps "[]" ps] by (simp add: Serialize_def)

subsection \<open>Reading\<close>

lemma md_value_attribute:
  assumes "path_tokens path = Some [path]" and "\<not> side_search path" and "path \<noteq> []"
    and "find (path_match path) kids = Some (text_attribute n v)"
  shows "md_value (XMLNode CXT_Element ''Metadata'' kids) path = Some v"
  using assms by (simp add: md_value_def CPLGetXMLValue_def CPLGetXMLNode_def drop_equal_def text_attribute_def)

lemma md_value_absent:
  assumes "path_tokens path = Some [path]" and "\<not> side_search path" and "path \<noteq> []"
    and "find (path_match path) kids = None"
  shows "md_value (XMLNode CXT_Element ''Metadata'' kids) path = Some ''''"
  using assms by (simp add: md_value_def CPLGetXMLValue_def CPLGetXMLNode_def drop_equal_def)

lemma path_facts:
  "path_tokens ''domain'' = Some [''domain'']" "\<not> side_search ''domain''"
  "path_tokens ''format'' = Some [''format'']" "\<not> side_search ''format''"
  "EQUAL ''domain'' ''domain''" "EQUAL ''format'' ''format''"
  "\<not> EQUAL ''domain'' ''MDI''" "\<not> EQUAL ''format'' ''MDI''" "\<not> EQUAL ''format'' ''domain''"
  "EQUAL ''xml'' ''xml''" "\<not> EQUAL '''' ''xml''" "EQUAL ''MDI'' ''MDI''" "\<not> EQUAL ''domain'' ''format''"
  "EQUAL ''Metadata'' ''Metadata''"
  by code_simp+

lemma path_match_mdi: "\<not> path_match ''domain'' (mdi e)" "\<not> path_match ''format'' (mdi e)"
  by (simp_all add: path_match_def mdi_def path_facts)

lemma find_mdi: "find (path_match ''domain'') (map mdi xs) = None" "find (path_match ''format'') (map mdi xs) = None"
  by (induction xs) (simp_all add: path_match_mdi)

lemma path_match_attribute: "path_match p (text_attribute n v) \<longleftrightarrow> EQUAL p n"
  by (simp add: path_match_def text_attribute_def)

lemma xml_domain_not_empty: "is_xml_domain d l \<Longrightarrow> d \<noteq> []"
  by (auto simp: is_xml_domain_def EQUALN_def)

lemma md_values:
  "md_value (metadata_node (d, l)) ''domain'' = Some d"
  "md_value (metadata_node (d, l)) ''format'' = Some (if is_xml_domain d l then ''xml'' else '''')"
proof -
  show "md_value (metadata_node (d, l)) ''domain'' = Some d"
  proof (cases "d = []")
    case True
    then have "\<not> is_xml_domain d l" using xml_domain_not_empty by blast
    with True show ?thesis unfolding metadata_node_def
      by (simp add: md_value_absent path_facts find_mdi)
  next
    case False
    then show ?thesis unfolding metadata_node_def prod.case
      by (intro md_value_attribute) (simp_all add: path_facts path_match_attribute)
  qed
  show "md_value (metadata_node (d, l)) ''format'' = Some (if is_xml_domain d l then ''xml'' else '''')"
  proof (cases "is_xml_domain d l")
    case True
    then show ?thesis unfolding metadata_node_def prod.case using xml_domain_not_empty [OF True]
      by (simp only: if_True if_False) (rule md_value_attribute, simp_all add: path_facts path_match_attribute)
  next
    case False
    then show ?thesis unfolding metadata_node_def prod.case
      by (simp only: if_False) (rule md_value_absent, simp_all add: path_facts path_match_attribute find_mdi)
  qed
qed

lemma read_items_skip: "\<not> is_item n \<Longrightarrow> read_items l (n # ns) = read_items l ns"
  by simp

lemma read_items_mdi:
  assumes "\<forall>e \<in> set xs. plain_entry e" and "nv_unique (Some (ys @ xs))"
  shows "read_items (if ys = [] then None else Some ys) (map mdi xs) =
    (if ys @ xs = [] then None else Some (ys @ xs))"
  using assms
proof (induction xs arbitrary: ys)
  case (Cons e xs)
  let ?l = "if ys = [] then None else Some ys"
  have e: "plain_entry e" using Cons.prems by simp
  note parts = plain_entry_split [OF e]
  have sep: "has_sep e" using e by (simp add: plain_entry_def)
  have "map c_tolower (entry_key e) \<notin> set (folded_keys ys)"
    using Cons.prems(2) sep by (simp add: nv_unique_def folded_keys_def)
  then have "\<forall>x \<in> set ys. \<not> nv_match x (entry_key e)"
    using folded_keys_match [OF nv_name_entry_key] by blast
  then have "CSLSetNameValue_loop ys (entry_key e) (Some (entry_value e)) = None"
    by (simp add: set_loop_None_iff)
  then have set: "CSLSetNameValue ?l (Some (entry_key e)) (Some (entry_value e)) = Some (ys @ [e])"
    using parts(1) by (simp add: CSLSetNameValue_def CSLAddNameValue_def CSLAddString_def)
  have "read_items (Some (ys @ [e])) (map mdi xs) = Some (ys @ e # xs)"
    using Cons.IH [of "ys @ [e]"] Cons.prems by simp
  moreover have "is_item (mdi e)" "item_name (mdi e) = entry_key e" "item_value (mdi e) = entry_value e"
    by (simp_all add: is_item_def mdi_def item_name_def item_value_def path_facts)
  ultimately show ?case using set by simp
qed simp

text \<open>What comes back of the list of a domain: the document of an \<open>xml:\<close> domain is written again, other
  lists are copied.\<close>

definition reread :: "cstring \<Rightarrow> csl \<Rightarrow> csl" where
  "reread d l = (if is_xml_domain d l then xml_document (document_of l) else CSLDuplicate l)"

lemma reread_stable:
  assumes "\<forall>t \<in> set ts. xml_item t"
  shows "reread d (xml_document ts) = xml_document ts"
  using parse_xml_document [OF assms] by (simp add: reread_def document_of_def) (simp add: CSLDuplicate_def xml_document_def)

lemma read_domain_fits:
  assumes "domain_fits (d, l)" and "nv_unique l"
  shows "read_domain md (metadata_node (d, l)) False = SetMetadata md (Foreign (reread d l)) (Some d)"
proof (cases "is_xml_domain d l")
  case True
  then have doc: "\<forall>t \<in> set (document_of l). xml_item t \<and> xml_fits t"
    using assms by (auto simp: domain_fits_def)
  have "eType t \<noteq> CXT_Attribute" if "t \<in> set (document_of l)" for t
    using doc that xml_item_type [of t] by auto
  then have "dropWhile (\<lambda>c. eType c = CXT_Attribute) (psChild (metadata_node (d, l))) = document_of l"
    using True by (cases "document_of l") (simp_all add: metadata_node_def text_attribute_def)
  then show ?thesis
    using True serialize_document [OF doc]
    by (simp add: read_domain_def md_values path_facts reread_def xml_document_def)
next
  case False
  then have e: "\<forall>e \<in> set (csl_items l). plain_entry e"
    using assms by (auto simp: domain_fits_def entry_fits_def)
  have "read_items None (map mdi (csl_items l)) = CSLDuplicate l"
    using read_items_mdi [OF e, of "[]"] assms(2) by (simp add: nv_unique_def CSLDuplicate_def)
  moreover have "\<not> is_item (text_attribute n v)" for n v
    by (simp add: is_item_def text_attribute_def)
  ultimately have "read_items None (psChild (metadata_node (d, l))) = CSLDuplicate l"
    using False by (simp add: metadata_node_def)
  with False show ?thesis by (simp add: read_domain_def md_values path_facts reread_def)
qed

definition md_reread :: "GDALMultiDomainMetadata \<Rightarrow> GDALMultiDomainMetadata" where
  "md_reread md = md_of (map (\<lambda>(d, l). (d, reread d l)) (md_pairs md))"

lemma CSLDuplicate_reread: "CSLDuplicate (reread d l) = reread d l"
  by (simp add: reread_def CSLDuplicate_def xml_document_def)

lemma read_domains_fits:
  assumes "\<forall>p \<in> set ps. domain_fits p" and "pairs_ok (qs @ ps)"
  shows "read_domains (md_of (map (\<lambda>(d, l). (d, reread d l)) qs)) (map metadata_node ps) False =
    Some (md_of (map (\<lambda>(d, l). (d, reread d l)) (qs @ ps)))"
  using assms
proof (induction ps arbitrary: qs)
  case (Cons p ps)
  obtain d l where p: "p = (d, l)" by fastforce
  let ?dup = "map (\<lambda>(d, l). (d, reread d l))"
  have l: "domain_fits (d, l)" "nv_unique l" using Cons.prems p by (auto simp: pairs_ok_def)
  have "domain_index (?dup qs) d = None"
    using Cons.prems(2) p unfolding domain_index_def first_index_None
    by (auto simp: pairs_ok_def EQUAL_def image_iff)
  then have "SetMetadata (md_of (?dup qs)) (Foreign (reread d l)) (Some d) = Some (md_of (?dup (qs @ [p])))"
    using p by (simp add: pairs_put_def CSLDuplicate_reread)
  moreover have "read_domains (md_of (?dup (qs @ [p]))) (map metadata_node ps) False = Some (md_of (?dup (qs @ p # ps)))"
    using Cons.IH [of "qs @ [p]"] Cons.prems by simp
  moreover have "is_metadata (metadata_node p)"
    by (simp add: p is_metadata_def metadata_node_def path_facts)
  ultimately show ?case
    using read_domain_fits [OF l] p by simp
qed simp

subsection \<open>Through the text\<close>

lemma name_chars: "xml_name ''domain''" "xml_name ''format''" "xml_name ''key''" "xml_name ''MDI''" "xml_name ''Metadata''"
  by code_simp+

lemma mdi_item:
  assumes "entry_fits e"
  shows "xml_item (mdi e) \<and> xml_fits (mdi e)"
proof -
  have e: "plain_entry e" and fits: "fits_attribute (entry_key e)" "int (length (entry_value e) * 6 + 1) < 2 ^ 31"
    using assms by (auto simp: entry_fits_def)
  have "xml_leaf_text (XMLNode CXT_Text (entry_value e) [])"
    using e plain_entry_split(4) [OF e] by (simp add: plain_entry_def)
  moreover have "xml_attribute (text_attribute ''key'' (entry_key e))"
    using plain_entry_split(3) [OF e] by (simp add: text_attribute_def name_chars)
  ultimately have "xml_item (mdi e)"
    by (simp add: mdi_def xml_item.simps name_chars text_attribute_def)
  moreover have "xml_fits (mdi e)"
    using fits plain_entry_split(3,4) [OF e]
    by (simp add: mdi_def fits_attribute_def) (simp add: c_string_def)
  ultimately show ?thesis by simp
qed

lemma text_attribute_item:
  "fits_attribute v \<Longrightarrow> xml_name n \<Longrightarrow> xml_attribute (text_attribute n v) \<and> (c_string n \<longrightarrow> xml_fits (text_attribute n v))"
  by (simp add: text_attribute_def fits_attribute_def)

lemma not_attribute_item: "xml_item t \<Longrightarrow> \<not> xml_attribute t"
  using xml_item_type [of t] xml_attribute_type [of t] by auto

lemma metadata_node_item:
  assumes "domain_fits p"
  shows "xml_item (metadata_node p) \<and> xml_fits (metadata_node p)"
proof -
  obtain d l where p: "p = (d, l)" by fastforce
  define kids where "kids = (if is_xml_domain d l then document_of l else map mdi (csl_items l))"
  define attrs where "attrs = (if d = [] then [] else [text_attribute ''domain'' d]) @
      (if is_xml_domain d l then [text_attribute ''format'' ''xml''] else [])"
  have node: "metadata_node p = XMLNode CXT_Element ''Metadata'' (attrs @ kids)"
    by (simp add: p metadata_node_def attrs_def kids_def)
  have kids: "\<forall>t \<in> set kids. xml_item t \<and> xml_fits t"
    using assms mdi_item by (auto simp: p domain_fits_def kids_def)
  have "fits_attribute d" "fits_attribute ''xml''"
    using assms by (auto simp: p domain_fits_def) code_simp
  then have attrs: "\<forall>a \<in> set attrs. xml_attribute a \<and> xml_fits a"
    using text_attribute_item name_chars by (auto simp: attrs_def c_string_def)
  have "takeWhile xml_attribute kids = []" "dropWhile xml_attribute kids = kids"
    using kids not_attribute_item by (cases kids; auto)+
  then have "takeWhile xml_attribute (attrs @ kids) = attrs" "dropWhile xml_attribute (attrs @ kids) = kids"
    using attrs by (simp_all add: takeWhile_append dropWhile_append)
  then have "xml_item (metadata_node p)"
    using kids by (simp add: node xml_item.simps name_chars)
  moreover have "xml_fits (metadata_node p)"
    using attrs kids by (auto simp: node c_string_def)
  ultimately show ?thesis by simp
qed



text \<open>
  C14.  The metadata of an object is a map from domains and names, both up to case, to values, for
  names that hold no separator (\<open>nv_name\<close>):
  \<open>SetMetadataItem\<close> never faults on a valid object, keeps it valid, and afterwards
  \<open>GetMetadataItem\<close> returns the value stored for the item and the old value for every other item
  of this and of every other domain.
\<close>

theorem SetMetadataItem_stores:
  assumes "md_ok md" and "nv_name n" and "nv_name n'"
  shows "\<exists>md'. SetMetadataItem md (Some n) w (Some d) = Some md' \<and> md_ok md' \<and>
    GetMetadataItem md' (Some n') (Some d') =
      (if EQUAL d d' \<and> EQUAL n n' then Some w else GetMetadataItem md (Some n') (Some d'))"
  using md.get_put [of md "(d, n)" "(d', n')" w] md.ok_put [of md "(d, n)" w] assms
  by (simp add: SetMetadataItem_store GetMetadataItem_fetch same_item_def)

theorem SetMetadataItem_stores_witness:
  "\<exists>md'. SetMetadataItem GDALMultiDomainMetadata_new (Some ''k'') (Some ''v'') (Some ''D'') = Some md' \<and>
    GetMetadataItem md' (Some ''K'') (Some ''d'') = Some (Some ''v'')"
proof -
  have h: "md_ok GDALMultiDomainMetadata_new" "nv_name ''k''" "nv_name ''K''" and "EQUAL ''D'' ''d''" "EQUAL ''k'' ''K''"
    by code_simp+
  with SetMetadataItem_stores [OF h, of "Some ''v''" "''D''" "''d''"] show ?thesis by auto
qed

section \<open>Where it does not work\<close>

text \<open>\<open>Clear\<close> frees the lists before the first NULL only: a domain whose list is NULL (set to no
  metadata) hides the lists of the domains behind it, which are never freed.\<close>

lemma Clear_frees: "snd (Clear (md_of ps)) = takeWhile (\<lambda>l. l \<noteq> None) (map snd ps)"
  by (simp add: Clear_def md_of_def GDALMultiDomainMetadata_new_def takeWhile_tail)

lemma Clear_leaks: "snd (Clear (md_of (ps @ (d, None) # qs))) = takeWhile (\<lambda>l. l \<noteq> None) (map snd ps)"
  by (simp add: Clear_frees takeWhile_tail)

text \<open>Setting a domain to the list that \<open>GetMetadata\<close> returned for it copies the list after it has
  been freed.\<close>

lemma SetMetadata_own_list_faults:
  assumes "domain_index ps d = Some n" and "snd (ps ! n) \<noteq> None"
  shows "SetMetadata (md_of ps) (Own n) (Some d) = None"
  using assms domain_index_lt [OF assms(1)]
  by (simp add: SetMetadata_def CSLFindString_of source_list_def)

text \<open>An entry without a separator makes \<open>Serialize\<close> read a key that was never set.\<close>

lemma item_node_no_separator: "c_string e \<Longrightarrow> \<not> has_sep e \<Longrightarrow> item_node e = None"
  by (simp add: item_node_def CPLParseNameValue_eq)

text \<open>An item with an empty value is written as an element without text, which is skipped when the
  file is read: the item is lost.\<close>

lemma empty_value_lost:
  "CPLParseXMLString (Some (xml_text (mdi ''k='') 0)) =
     Some [XMLNode CXT_Element ''MDI'' [text_attribute ''key'' ''k'']]"
  "\<not> is_item (XMLNode CXT_Element ''MDI'' [text_attribute ''key'' ''k''])"
  by code_simp+

section \<open>Objects\<close>

text \<open>Storing through an object marks its metadata as changed and leaves the rest of it.\<close>

lemma object_SetMetadataItem_marks:
  assumes "object_SetMetadataItem obj n w d = Some obj'"
  shows "nFlags obj' = nFlags obj OR GMO_MD_DIRTY \<and> sDescription obj' = sDescription obj \<and>
    SetMetadataItem (oMDMD obj) n w d = Some (oMDMD obj')"
  using assms by (auto simp: object_SetMetadataItem_def split: Option.bind_splits)

end
