(* ===== verification/Polygon_Enum.thy ===== *)
theory Polygon_Enum
  imports Prelude
begin

text \<open>
  The enumeration of the polygons of a raster, \<^verbatim>\<open>alg/gdalrasterpolygonenumerator.cpp\<close>: regions
  of pixels with one value, found line by line.  Every pixel gets a polygon id; ids that turn out
  to belong to one region are merged in a forest of ids.

  An array is the list of its slots, a slot that was allocated and not written yet is \<open>None\<close>;
  reading such a slot or one outside the array is a fault, and so is an allocation that fails
  (\<^verbatim>\<open>CPLRealloc\<close> ends the program then).  The loops that follow the map run for ever when it has a
  cycle; they are partial functions.
\<close>

section \<open>Arrays\<close>

type_synonym 'a slots = "'a option list"

definition arr_get :: "'a slots \<Rightarrow> int \<Rightarrow> 'a option" where
  "arr_get arr i = (if 0 \<le> i \<and> i < int (length arr) then arr ! nat i else None)"

definition arr_set :: "'a slots \<Rightarrow> int \<Rightarrow> 'a \<Rightarrow> 'a slots option" where
  "arr_set arr i v = (if 0 \<le> i \<and> i < int (length arr) then Some (arr[nat i := Some v]) else None)"

text \<open>\<^verbatim>\<open>CPLRealloc\<close> to a number of bytes, for an array of 32 bit integers: a negative number becomes
  a size that cannot be allocated.\<close>

definition arr_realloc :: "'a slots \<Rightarrow> int \<Rightarrow> 'a slots option" where
  "arr_realloc arr nBytes =
     (if nBytes < 0 then None
      else let n = nat (nBytes div 4) in Some (take n arr @ replicate (n - length arr) None))"

section \<open>The enumerator\<close>

record GDALRasterPolygonEnumerator =
  panPolyIdMap :: "int slots"
  panPolyValue :: "int slots"
  nNextPolygonId :: int
  nPolyAlloc :: int
  nConnectedness :: int

definition GDALRasterPolygonEnumerator_new :: "int \<Rightarrow> GDALRasterPolygonEnumerator" where
  "GDALRasterPolygonEnumerator_new nConn =
     \<lparr>panPolyIdMap = [], panPolyValue = [], nNextPolygonId = 0, nPolyAlloc = 0, nConnectedness = nConn\<rparr>"

definition enum_Clear :: "GDALRasterPolygonEnumerator \<Rightarrow> GDALRasterPolygonEnumerator" where
  "enum_Clear e = e\<lparr>panPolyIdMap := [], panPolyValue := [], nNextPolygonId := 0, nPolyAlloc := 0\<rparr>"

text \<open>\<^verbatim>\<open>while( panPolyIdMap[nId] != nId ) nId = panPolyIdMap[nId]\<close>.\<close>

partial_function (option) find_root :: "int slots \<Rightarrow> int \<Rightarrow> int option" where
  "find_root idmap nId = do {
     j \<leftarrow> arr_get idmap nId;
     (if j = nId then Some nId else find_root idmap j)
   }"

definition MergePolygon ::
    "GDALRasterPolygonEnumerator \<Rightarrow> int \<Rightarrow> int \<Rightarrow> GDALRasterPolygonEnumerator option" where
  "MergePolygon e nSrcId nDstId = do {
     dst \<leftarrow> find_root (panPolyIdMap e) nDstId;
     src \<leftarrow> find_root (panPolyIdMap e) nSrcId;
     (if src = dst then Some e
      else do {
        idmap \<leftarrow> arr_set (panPolyIdMap e) src dst;
        Some (e\<lparr>panPolyIdMap := idmap\<rparr>)
      })
   }"

text \<open>More slots, when all are in use.\<close>

definition grow_maps :: "GDALRasterPolygonEnumerator \<Rightarrow> GDALRasterPolygonEnumerator option" where
  "grow_maps e =
     (if nPolyAlloc e \<le> nNextPolygonId e
      then (let n = to_i32 (to_i32 (nPolyAlloc e * 2) + 20) in do {
              idmap \<leftarrow> arr_realloc (panPolyIdMap e) (to_i32 (n * 4));
              vals \<leftarrow> arr_realloc (panPolyValue e) (to_i32 (n * 4));
              Some (e\<lparr>nPolyAlloc := n, panPolyIdMap := idmap, panPolyValue := vals\<rparr>)
            })
      else Some e)"

definition NewPolygon ::
    "GDALRasterPolygonEnumerator \<Rightarrow> int \<Rightarrow> (int \<times> GDALRasterPolygonEnumerator) option" where
  "NewPolygon e nValue =
     (let nPolyId = nNextPolygonId e in do {
        e1 \<leftarrow> grow_maps e;
        idmap \<leftarrow> arr_set (panPolyIdMap e1) nPolyId nPolyId;
        vals \<leftarrow> arr_set (panPolyValue e1) nPolyId nValue;
        Some (nPolyId, e1\<lparr>nNextPolygonId := to_i32 (nNextPolygonId e + 1),
                          panPolyIdMap := idmap, panPolyValue := vals\<rparr>)
      })"

text \<open>The inner loop of \<open>CompleteMerges\<close>.\<close>

partial_function (option) complete_one :: "int slots \<Rightarrow> int \<Rightarrow> int slots option" where
  "complete_one idmap iPoly = do {
     p \<leftarrow> arr_get idmap iPoly;
     q \<leftarrow> arr_get idmap p;
     (if p \<noteq> q then do {
        idmap1 \<leftarrow> arr_set idmap iPoly q;
        complete_one idmap1 iPoly
      }
      else Some idmap)
   }"

text \<open>The outer loop, from \<open>iPoly\<close> on for \<open>k\<close> rounds; it counts the ids that stand for
  themselves.\<close>

fun complete_loop :: "int slots \<Rightarrow> int \<Rightarrow> nat \<Rightarrow> int \<Rightarrow> (int slots \<times> int) option" where
  "complete_loop idmap iPoly 0 nFinalPolyCount = Some (idmap, nFinalPolyCount)"
| "complete_loop idmap iPoly (Suc k) nFinalPolyCount = do {
     idmap1 \<leftarrow> complete_one idmap iPoly;
     p \<leftarrow> arr_get idmap1 iPoly;
     complete_loop idmap1 (iPoly + 1) k
       (if p = iPoly then nFinalPolyCount + 1 else nFinalPolyCount)
   }"

definition CompleteMerges ::
    "GDALRasterPolygonEnumerator \<Rightarrow> (GDALRasterPolygonEnumerator \<times> int) option" where
  "CompleteMerges e = do {
     (idmap, nFinalPolyCount) \<leftarrow> complete_loop (panPolyIdMap e) 0 (nat (nNextPolygonId e)) 0;
     Some (e\<lparr>panPolyIdMap := idmap\<rparr>, nFinalPolyCount)
   }"

section \<open>One line\<close>

text \<open>The loop over the first line: a new polygon wherever the value changes.\<close>

definition first_line_pixel ::
    "int slots \<Rightarrow> GDALRasterPolygonEnumerator \<Rightarrow> int slots \<Rightarrow> int
     \<Rightarrow> (GDALRasterPolygonEnumerator \<times> int slots) option" where
  "first_line_pixel panThisLineVal e panThisLineId i = do {
     v \<leftarrow> arr_get panThisLineVal i;
     same \<leftarrow> (if i = 0 then Some False
             else do { u \<leftarrow> arr_get panThisLineVal (i - 1); Some (v = u) });
     (if \<not> same then do {
        (nId, e1) \<leftarrow> NewPolygon e v;
        ids \<leftarrow> arr_set panThisLineId i nId;
        Some (e1, ids)
      }
      else do {
        nId \<leftarrow> arr_get panThisLineId (i - 1);
        ids \<leftarrow> arr_set panThisLineId i nId;
        Some (e, ids)
      })
   }"

fun first_line ::
    "int slots \<Rightarrow> GDALRasterPolygonEnumerator \<Rightarrow> int slots \<Rightarrow> int \<Rightarrow> nat
     \<Rightarrow> (GDALRasterPolygonEnumerator \<times> int slots) option" where
  "first_line panThisLineVal e panThisLineId i 0 = Some (e, panThisLineId)"
| "first_line panThisLineVal e panThisLineId i (Suc k) = do {
     (e1, ids) \<leftarrow> first_line_pixel panThisLineVal e panThisLineId i;
     first_line panThisLineVal e1 ids (i + 1) k
   }"

text \<open>\<^verbatim>\<open>panLastLineVal[j] == panThisLineVal[i]\<close>.\<close>

definition same_value :: "int slots \<Rightarrow> int slots \<Rightarrow> int \<Rightarrow> int \<Rightarrow> bool option" where
  "same_value a b j i = do { u \<leftarrow> arr_get a j; v \<leftarrow> arr_get b i; Some (u = v) }"

text \<open>The polygons of a pixel and of the one above it, merged unless the map shows them to be
  one.\<close>

definition merge_above ::
    "int slots \<Rightarrow> int slots \<Rightarrow> GDALRasterPolygonEnumerator \<Rightarrow> int slots \<Rightarrow> int \<Rightarrow> int
     \<Rightarrow> GDALRasterPolygonEnumerator option" where
  "merge_above panLastLineVal panThisLineVal e panLastLineId nThisId i = do {
     above \<leftarrow> same_value panLastLineVal panThisLineVal i i;
     (if above then do {
        nLastId \<leftarrow> arr_get panLastLineId i;
        a \<leftarrow> arr_get (panPolyIdMap e) nLastId;
        b \<leftarrow> arr_get (panPolyIdMap e) nThisId;
        (if a \<noteq> b then MergePolygon e nLastId nThisId else Some e)
      }
      else Some e)
   }"

text \<open>Short-circuit conjunction of a test with one that may fault.\<close>

definition and_then :: "bool \<Rightarrow> bool option \<Rightarrow> bool option" where
  "and_then b c = (if b then c else Some False)"

definition next_line_pixel ::
    "int slots \<Rightarrow> int slots \<Rightarrow> int slots \<Rightarrow> int \<Rightarrow> GDALRasterPolygonEnumerator \<Rightarrow> int slots \<Rightarrow> int
     \<Rightarrow> (GDALRasterPolygonEnumerator \<times> int slots) option" where
  "next_line_pixel panLastLineVal panThisLineVal panLastLineId nXSize e panThisLineId i = do {
     left \<leftarrow> and_then (i > 0) (same_value panThisLineVal panThisLineVal (i - 1) i);
     (if left then do {
        nId \<leftarrow> arr_get panThisLineId (i - 1);
        ids \<leftarrow> arr_set panThisLineId i nId;
        e1 \<leftarrow> merge_above panLastLineVal panThisLineVal e panLastLineId nId i;
        Some (e1, ids)
      }
      else do {
        above \<leftarrow> same_value panLastLineVal panThisLineVal i i;
        (if above then do {
           nId \<leftarrow> arr_get panLastLineId i;
           ids \<leftarrow> arr_set panThisLineId i nId;
           Some (e, ids)
         }
         else do {
           above_left \<leftarrow> and_then (i > 0 \<and> nConnectedness e = 8)
             (same_value panLastLineVal panThisLineVal (i - 1) i);
           (if above_left then do {
              nId \<leftarrow> arr_get panLastLineId (i - 1);
              ids \<leftarrow> arr_set panThisLineId i nId;
              Some (e, ids)
            }
            else do {
              above_right \<leftarrow> and_then (i < nXSize - 1 \<and> nConnectedness e = 8)
                (same_value panLastLineVal panThisLineVal (i + 1) i);
              (if above_right then do {
                 nId \<leftarrow> arr_get panLastLineId (i + 1);
                 ids \<leftarrow> arr_set panThisLineId i nId;
                 Some (e, ids)
               }
               else do {
                 v \<leftarrow> arr_get panThisLineVal i;
                 (nId, e1) \<leftarrow> NewPolygon e v;
                 ids \<leftarrow> arr_set panThisLineId i nId;
                 Some (e1, ids)
               })
            })
         })
      })
   }"

fun next_line ::
    "int slots \<Rightarrow> int slots \<Rightarrow> int slots \<Rightarrow> int \<Rightarrow> GDALRasterPolygonEnumerator \<Rightarrow> int slots \<Rightarrow> int \<Rightarrow> nat
     \<Rightarrow> (GDALRasterPolygonEnumerator \<times> int slots) option" where
  "next_line panLastLineVal panThisLineVal panLastLineId nXSize e panThisLineId i 0 =
     Some (e, panThisLineId)"
| "next_line panLastLineVal panThisLineVal panLastLineId nXSize e panThisLineId i (Suc k) = do {
     (e1, ids) \<leftarrow> next_line_pixel panLastLineVal panThisLineVal panLastLineId nXSize e panThisLineId i;
     next_line panLastLineVal panThisLineVal panLastLineId nXSize e1 ids (i + 1) k
   }"

text \<open>\<open>None\<close> for \<open>panLastLineVal\<close> is NULL: the first line.  The result holds \<open>panThisLineId\<close>.\<close>

definition ProcessLine ::
    "GDALRasterPolygonEnumerator \<Rightarrow> int slots option \<Rightarrow> int slots \<Rightarrow> int slots \<Rightarrow> int slots \<Rightarrow> int
     \<Rightarrow> (GDALRasterPolygonEnumerator \<times> int slots) option" where
  "ProcessLine e panLastLineVal panThisLineVal panLastLineId panThisLineId nXSize =
     (case panLastLineVal of
        None \<Rightarrow> first_line panThisLineVal e panThisLineId 0 (nat nXSize)
      | Some lastVal \<Rightarrow>
          next_line lastVal panThisLineVal panLastLineId nXSize e panThisLineId 0 (nat nXSize))"

end
