(* ===== verification/Sieve.thy ===== *)
theory Sieve
  imports Polygon_Enum
begin

text \<open>
  The sieve filter, \<^verbatim>\<open>alg/gdalsievefilter.cpp\<close>: polygons smaller than a threshold take the value
  of their largest neighbour.

  The bands are a parameter: \<open>src_read\<close>, \<open>mask_read\<close> and \<open>dst_write\<close> are the calls of
  \<^verbatim>\<open>GDALRasterIO\<close> for one line of the source, the mask and the destination, in a world \<open>'w\<close> that
  writing changes; they tell whether they succeeded and, when reading, what the buffer holds
  afterwards.  \<open>progress\<close> is the callback, by pass and line (its argument is a fraction).
\<close>

section \<open>Bands and buffers\<close>

record 'w bands =
  src_read :: "'w \<Rightarrow> int \<Rightarrow> int slots \<Rightarrow> bool \<times> int slots"
  mask_read :: "('w \<Rightarrow> int \<Rightarrow> int slots \<Rightarrow> bool \<times> int slots) option"
  dst_write :: "'w \<Rightarrow> int \<Rightarrow> int slots \<Rightarrow> bool \<times> 'w"
  progress :: "nat \<Rightarrow> int \<Rightarrow> bool"

definition GP_NODATA_MARKER :: int where
  "GP_NODATA_MARKER = -51502112"

text \<open>A block fresh from \<^verbatim>\<open>CPLMalloc\<close>, of \<open>n\<close> elements.\<close>

definition new_line :: "int \<Rightarrow> int slots" where
  "new_line n = replicate (nat n) None"

fun mask_loop :: "int slots \<Rightarrow> int slots \<Rightarrow> int \<Rightarrow> nat \<Rightarrow> int slots option" where
  "mask_loop pabyMaskLine panImageLine i 0 = Some panImageLine"
| "mask_loop pabyMaskLine panImageLine i (Suc k) = do {
     m \<leftarrow> arr_get pabyMaskLine i;
     line \<leftarrow> (if m = 0 then arr_set panImageLine i GP_NODATA_MARKER else Some panImageLine);
     mask_loop pabyMaskLine line (i + 1) k
   }"

definition GPMaskImageData ::
    "('w \<Rightarrow> int \<Rightarrow> int slots \<Rightarrow> bool \<times> int slots) \<Rightarrow> 'w \<Rightarrow> int \<Rightarrow> int \<Rightarrow> int slots
     \<Rightarrow> (bool \<times> int slots) option" where
  "GPMaskImageData maskb w iY nXSize panImageLine =
     (let (ok, pabyMaskLine) = maskb w iY (new_line nXSize)
      in if ok then do {
           line \<leftarrow> mask_loop pabyMaskLine panImageLine 0 (nat nXSize);
           Some (True, line)
         }
         else Some (False, panImageLine))"

text \<open>The mask, when there is one and the line was read.\<close>

definition mask_line ::
    "'w bands \<Rightarrow> 'w \<Rightarrow> int \<Rightarrow> int \<Rightarrow> bool \<times> int slots \<Rightarrow> (bool \<times> int slots) option" where
  "mask_line io w iY nXSize = (\<lambda>(ok, panThisLineVal).
     case mask_read io of
       Some maskb \<Rightarrow> (if ok then GPMaskImageData maskb w iY nXSize panThisLineVal else Some (ok, panThisLineVal))
     | None \<Rightarrow> Some (ok, panThisLineVal))"

record line_buffers =
  panLastLineVal :: "int slots"
  panThisLineVal :: "int slots"
  panLastLineId :: "int slots"
  panThisLineId :: "int slots"

definition new_buffers :: "int \<Rightarrow> line_buffers" where
  "new_buffers nXSize =
     \<lparr>panLastLineVal = new_line nXSize, panThisLineVal = new_line nXSize,
      panLastLineId = new_line nXSize, panThisLineId = new_line nXSize\<rparr>"

definition swap_lines :: "line_buffers \<Rightarrow> line_buffers" where
  "swap_lines b =
     \<lparr>panLastLineVal = panThisLineVal b, panThisLineVal = panLastLineVal b,
      panLastLineId = panThisLineId b, panThisLineId = panLastLineId b\<rparr>"

text \<open>The call of \<open>ProcessLine\<close>, the same in all passes.\<close>

definition process_buffers ::
    "GDALRasterPolygonEnumerator \<Rightarrow> int \<Rightarrow> int \<Rightarrow> line_buffers
     \<Rightarrow> (GDALRasterPolygonEnumerator \<times> line_buffers) option" where
  "process_buffers e iY nXSize b = do {
     (e1, ids) \<leftarrow>
       (if iY = 0 then ProcessLine e None (panThisLineVal b) [] (panThisLineId b) nXSize
        else ProcessLine e (Some (panLastLineVal b)) (panThisLineVal b) (panLastLineId b) (panThisLineId b) nXSize);
     Some (e1, b\<lparr>panThisLineId := ids\<rparr>)
   }"

section \<open>First pass: the sizes\<close>

definition vec_resize :: "int slots \<Rightarrow> int \<Rightarrow> int slots" where
  "vec_resize v n = take (nat n) v @ replicate (nat n - length v) (Some 0)"

fun add_sizes :: "int slots \<Rightarrow> int slots \<Rightarrow> int \<Rightarrow> nat \<Rightarrow> int slots option" where
  "add_sizes panThisIds anPolySizes iX 0 = Some anPolySizes"
| "add_sizes panThisIds anPolySizes iX (Suc k) = do {
     iPoly \<leftarrow> arr_get panThisIds iX;
     n \<leftarrow> arr_get anPolySizes iPoly;
     sizes \<leftarrow> arr_set anPolySizes iPoly (to_i32 (n + 1));
     add_sizes panThisIds sizes (iX + 1) k
   }"

definition count_line ::
    "GDALRasterPolygonEnumerator \<Rightarrow> int slots \<Rightarrow> int slots \<Rightarrow> int \<Rightarrow> int slots option" where
  "count_line e ids anPolySizes nXSize =
     add_sizes ids
       (if nNextPolygonId e > int (length anPolySizes) then vec_resize anPolySizes (nNextPolygonId e)
        else anPolySizes) 0 (nat nXSize)"

text \<open>From line \<open>iY\<close> on, \<open>k\<close> lines left; the flag is \<^verbatim>\<open>eErr == CE_None\<close>.  A failure to read does not
  keep the line from being processed.\<close>

fun first_pass ::
    "'w bands \<Rightarrow> 'w \<Rightarrow> int \<Rightarrow> int \<Rightarrow> nat \<Rightarrow> GDALRasterPolygonEnumerator \<Rightarrow> line_buffers \<Rightarrow> int slots
     \<Rightarrow> (bool \<times> GDALRasterPolygonEnumerator \<times> line_buffers \<times> int slots) option" where
  "first_pass io w nXSize iY 0 e b anPolySizes = Some (True, e, b, anPolySizes)"
| "first_pass io w nXSize iY (Suc k) e b anPolySizes = do {
     (ok, line) \<leftarrow> mask_line io w iY nXSize (src_read io w iY (panThisLineVal b));
     (e1, b1) \<leftarrow> process_buffers e iY nXSize (b\<lparr>panThisLineVal := line\<rparr>);
     sizes \<leftarrow> count_line e1 (panThisLineId b1) anPolySizes nXSize;
     (if ok \<and> progress io 1 iY
      then first_pass io w nXSize (iY + 1) k e1 (swap_lines b1) sizes
      else Some (False, e1, swap_lines b1, sizes))
   }"

text \<open>The sizes of merged fragments go to the id they were merged into.\<close>

fun push_sizes :: "int slots \<Rightarrow> int slots \<Rightarrow> int \<Rightarrow> nat \<Rightarrow> int slots option" where
  "push_sizes idmap anPolySizes iPoly 0 = Some anPolySizes"
| "push_sizes idmap anPolySizes iPoly (Suc k) = do {
     m \<leftarrow> arr_get idmap iPoly;
     sizes \<leftarrow>
       (if m \<noteq> iPoly then do {
          a \<leftarrow> arr_get anPolySizes m;
          n \<leftarrow> arr_get anPolySizes iPoly;
          sizes1 \<leftarrow> arr_set anPolySizes m (to_i32 (a + n));
          arr_set sizes1 iPoly 0
        }
        else Some anPolySizes);
     push_sizes idmap sizes (iPoly + 1) k
   }"

section \<open>Second pass: the largest neighbours\<close>

text \<open>The half of \<open>CompareNeighbour\<close> that updates one of the two polygons.\<close>

definition update_neighbour :: "int \<Rightarrow> int \<Rightarrow> int slots \<Rightarrow> int slots \<Rightarrow> int slots option" where
  "update_neighbour nPolyId1 nPolyId2 anPolySizes anBigNeighbour = do {
     b \<leftarrow> arr_get anBigNeighbour nPolyId1;
     bigger \<leftarrow> (if b = -1 then Some True
               else do { n \<leftarrow> arr_get anPolySizes b; n2 \<leftarrow> arr_get anPolySizes nPolyId2; Some (n < n2) });
     (if bigger then arr_set anBigNeighbour nPolyId1 nPolyId2 else Some anBigNeighbour)
   }"

definition CompareNeighbour ::
    "int \<Rightarrow> int \<Rightarrow> int slots \<Rightarrow> int slots \<Rightarrow> int slots \<Rightarrow> int slots \<Rightarrow> int slots option" where
  "CompareNeighbour nId1 nId2 idmap vals anPolySizes anBigNeighbour = do {
     nPolyId1 \<leftarrow> arr_get idmap nId1;
     nPolyId2 \<leftarrow> arr_get idmap nId2;
     (if nPolyId1 = nPolyId2 then Some anBigNeighbour
      else do {
        v1 \<leftarrow> arr_get vals nPolyId1;
        nodata \<leftarrow> (if v1 = GP_NODATA_MARKER then Some True
                  else do { v2 \<leftarrow> arr_get vals nPolyId2; Some (v2 = GP_NODATA_MARKER) });
        (if nodata then Some anBigNeighbour
         else do {
           big \<leftarrow> update_neighbour nPolyId1 nPolyId2 anPolySizes anBigNeighbour;
           update_neighbour nPolyId2 nPolyId1 anPolySizes big
         })
      })
   }"

text \<open>A comparison with the pixel at \<open>j\<close> of a line, if \<open>cond\<close> holds.\<close>

definition compare_if ::
    "bool \<Rightarrow> GDALRasterPolygonEnumerator \<Rightarrow> int slots \<Rightarrow> int slots \<Rightarrow> int \<Rightarrow> int slots \<Rightarrow> int \<Rightarrow> int slots
     \<Rightarrow> int slots option" where
  "compare_if cond oFirstEnum anPolySizes thisIds iX ids j anBigNeighbour =
     (if cond then do {
        a \<leftarrow> arr_get thisIds iX;
        c \<leftarrow> arr_get ids j;
        CompareNeighbour a c (panPolyIdMap oFirstEnum) (panPolyValue oFirstEnum) anPolySizes anBigNeighbour
      }
      else Some anBigNeighbour)"

definition compare_pixel ::
    "int \<Rightarrow> int \<Rightarrow> int \<Rightarrow> GDALRasterPolygonEnumerator \<Rightarrow> int slots \<Rightarrow> line_buffers \<Rightarrow> int \<Rightarrow> int slots
     \<Rightarrow> int slots option" where
  "compare_pixel nConn iY nXSize oFirstEnum anPolySizes b iX anBigNeighbour = do {
     big1 \<leftarrow> compare_if (iY > 0) oFirstEnum anPolySizes (panThisLineId b) iX (panLastLineId b) iX anBigNeighbour;
     big2 \<leftarrow> compare_if (iY > 0 \<and> iX > 0 \<and> nConn = 8) oFirstEnum anPolySizes (panThisLineId b) iX
               (panLastLineId b) (iX - 1) big1;
     big3 \<leftarrow> compare_if (iY > 0 \<and> iX < nXSize - 1 \<and> nConn = 8) oFirstEnum anPolySizes (panThisLineId b) iX
               (panLastLineId b) (iX + 1) big2;
     compare_if (iX > 0) oFirstEnum anPolySizes (panThisLineId b) iX (panThisLineId b) (iX - 1) big3
   }"

fun compare_line ::
    "int \<Rightarrow> int \<Rightarrow> int \<Rightarrow> GDALRasterPolygonEnumerator \<Rightarrow> int slots \<Rightarrow> line_buffers \<Rightarrow> int \<Rightarrow> nat \<Rightarrow> int slots
     \<Rightarrow> int slots option" where
  "compare_line nConn iY nXSize oFirstEnum anPolySizes b iX 0 anBigNeighbour = Some anBigNeighbour"
| "compare_line nConn iY nXSize oFirstEnum anPolySizes b iX (Suc k) anBigNeighbour = do {
     big \<leftarrow> compare_pixel nConn iY nXSize oFirstEnum anPolySizes b iX anBigNeighbour;
     compare_line nConn iY nXSize oFirstEnum anPolySizes b (iX + 1) k big
   }"

fun second_pass ::
    "'w bands \<Rightarrow> 'w \<Rightarrow> int \<Rightarrow> int \<Rightarrow> GDALRasterPolygonEnumerator \<Rightarrow> int slots \<Rightarrow> int \<Rightarrow> nat
     \<Rightarrow> GDALRasterPolygonEnumerator \<Rightarrow> line_buffers \<Rightarrow> int slots
     \<Rightarrow> (bool \<times> GDALRasterPolygonEnumerator \<times> line_buffers \<times> int slots) option" where
  "second_pass io w nConn nXSize oFirstEnum anPolySizes iY 0 e b anBigNeighbour = Some (True, e, b, anBigNeighbour)"
| "second_pass io w nConn nXSize oFirstEnum anPolySizes iY (Suc k) e b anBigNeighbour = do {
     (ok, line) \<leftarrow> mask_line io w iY nXSize (src_read io w iY (panThisLineVal b));
     (if \<not> ok then Some (False, e, b\<lparr>panThisLineVal := line\<rparr>, anBigNeighbour)
      else do {
        (e1, b1) \<leftarrow> process_buffers e iY nXSize (b\<lparr>panThisLineVal := line\<rparr>);
        big \<leftarrow> compare_line nConn iY nXSize oFirstEnum anPolySizes b1 0 (nat nXSize) anBigNeighbour;
        (if progress io 2 iY
         then second_pass io w nConn nXSize oFirstEnum anPolySizes (iY + 1) k e1 (swap_lines b1) big
         else Some (False, e1, swap_lines b1, big))
      })
   }"

section \<open>Which polygons are merged\<close>

definition settle_one ::
    "GDALRasterPolygonEnumerator \<Rightarrow> int slots \<Rightarrow> int \<Rightarrow> int \<Rightarrow> int slots \<Rightarrow> int slots option" where
  "settle_one oFirstEnum anPolySizes nSizeThreshold iPoly anBigNeighbour = do {
     m \<leftarrow> arr_get (panPolyIdMap oFirstEnum) iPoly;
     (if m \<noteq> iPoly then Some anBigNeighbour
      else do {
        v \<leftarrow> arr_get (panPolyValue oFirstEnum) iPoly;
        (if v = GP_NODATA_MARKER then Some anBigNeighbour
         else do {
           n \<leftarrow> arr_get anPolySizes iPoly;
           (if n \<ge> nSizeThreshold then arr_set anBigNeighbour iPoly (-1)
            else do {
              b \<leftarrow> arr_get anBigNeighbour iPoly;
              (if b = -1 then Some anBigNeighbour
               else do {
                 nb \<leftarrow> arr_get anPolySizes b;
                 (if nb \<ge> nSizeThreshold then Some anBigNeighbour
                  else arr_set anBigNeighbour iPoly (-1))
               })
            })
         })
      })
   }"

fun settle ::
    "GDALRasterPolygonEnumerator \<Rightarrow> int slots \<Rightarrow> int \<Rightarrow> int \<Rightarrow> nat \<Rightarrow> int slots \<Rightarrow> int slots option" where
  "settle oFirstEnum anPolySizes nSizeThreshold iPoly 0 anBigNeighbour = Some anBigNeighbour"
| "settle oFirstEnum anPolySizes nSizeThreshold iPoly (Suc k) anBigNeighbour = do {
     big \<leftarrow> settle_one oFirstEnum anPolySizes nSizeThreshold iPoly anBigNeighbour;
     settle oFirstEnum anPolySizes nSizeThreshold (iPoly + 1) k big
   }"

section \<open>Third pass: the new values\<close>

fun rewrite_line ::
    "GDALRasterPolygonEnumerator \<Rightarrow> int slots \<Rightarrow> int slots \<Rightarrow> int slots \<Rightarrow> int \<Rightarrow> nat \<Rightarrow> int slots option" where
  "rewrite_line oFirstEnum anBigNeighbour ids panThisLineWriteVal iX 0 = Some panThisLineWriteVal"
| "rewrite_line oFirstEnum anBigNeighbour ids panThisLineWriteVal iX (Suc k) = do {
     nId \<leftarrow> arr_get ids iX;
     iThisPoly \<leftarrow> arr_get (panPolyIdMap oFirstEnum) nId;
     big \<leftarrow> arr_get anBigNeighbour iThisPoly;
     line \<leftarrow>
       (if big \<noteq> -1 then do {
          v \<leftarrow> arr_get (panPolyValue oFirstEnum) big;
          arr_set panThisLineWriteVal iX v
        }
        else Some panThisLineWriteVal);
     rewrite_line oFirstEnum anBigNeighbour ids line (iX + 1) k
   }"

fun third_pass ::
    "'w bands \<Rightarrow> int \<Rightarrow> GDALRasterPolygonEnumerator \<Rightarrow> int slots \<Rightarrow> int \<Rightarrow> nat
     \<Rightarrow> GDALRasterPolygonEnumerator \<Rightarrow> line_buffers \<Rightarrow> 'w \<Rightarrow> (bool \<times> 'w) option" where
  "third_pass io nXSize oFirstEnum anBigNeighbour iY 0 e b w = Some (True, w)"
| "third_pass io nXSize oFirstEnum anBigNeighbour iY (Suc k) e b w = do {
     let (ok0, panThisLineWriteVal) = src_read io w iY (panThisLineVal b);
     (ok, line) \<leftarrow> mask_line io w iY nXSize (ok0, panThisLineWriteVal);
     (if \<not> ok then Some (False, w)
      else do {
        (e1, b1) \<leftarrow> process_buffers e iY nXSize (b\<lparr>panThisLineVal := line\<rparr>);
        out \<leftarrow> rewrite_line oFirstEnum anBigNeighbour (panThisLineId b1) panThisLineWriteVal 0 (nat nXSize);
        let (written, w1) = dst_write io w iY out;
        (if written \<and> progress io 3 iY
         then third_pass io nXSize oFirstEnum anBigNeighbour (iY + 1) k e1 (swap_lines b1) w1
         else Some (False, w1))
      })
   }"

section \<open>The filter\<close>

text \<open>After a failure the later passes do nothing.  The result is \<^verbatim>\<open>eErr == CE_None\<close> and the
  world.\<close>

definition GDALSieveFilter ::
    "'w bands \<Rightarrow> 'w \<Rightarrow> int \<Rightarrow> int \<Rightarrow> int \<Rightarrow> int \<Rightarrow> (bool \<times> 'w) option" where
  "GDALSieveFilter io w nXSize nYSize nSizeThreshold nConn = do {
     (ok1, e, b1, sizes0) \<leftarrow>
       first_pass io w nXSize 0 (nat nYSize) (GDALRasterPolygonEnumerator_new nConn) (new_buffers nXSize) [];
     (oFirstEnum, _) \<leftarrow> CompleteMerges e;
     anPolySizes \<leftarrow> push_sizes (panPolyIdMap oFirstEnum) sizes0 0 (nat (nNextPolygonId oFirstEnum));
     let big0 = replicate (length anPolySizes) (Some (-1));
     (ok2, oSecondEnum, b2, big1) \<leftarrow>
       (if ok1 then second_pass io w nConn nXSize oFirstEnum anPolySizes 0 (nat nYSize)
                      (GDALRasterPolygonEnumerator_new nConn) b1 big0
        else Some (False, GDALRasterPolygonEnumerator_new nConn, b1, big0));
     anBigNeighbour \<leftarrow> settle oFirstEnum anPolySizes nSizeThreshold 0 (length anPolySizes) big1;
     (if ok2 then third_pass io nXSize oFirstEnum anBigNeighbour 0 (nat nYSize) (enum_Clear oSecondEnum) b2 w
      else Some (False, w))
   }"

end
