(* ===== verification/Polygon_Forest.thy ===== *)
theory Polygon_Forest
  imports Polygon_Enum
begin

text \<open>
  The map of polygon ids as a forest: every id has a root, \<open>find_root\<close> finds it, a merge joins two
  trees and \<open>CompleteMerges\<close> makes every id point at its root.  And the equivalence a set of links
  generates, with what one more link does to it.
\<close>

section \<open>Equivalences generated by links\<close>

definition gen :: "('a \<times> 'a) set \<Rightarrow> ('a \<times> 'a) set" where
  "gen R = (R \<union> R\<inverse>)\<^sup>*"

lemma gen_refl [simp]: "(p, p) \<in> gen R"
  by (simp add: gen_def)

lemma gen_sym: "(p, q) \<in> gen R \<Longrightarrow> (q, p) \<in> gen R"
proof -
  have "sym ((R \<union> R\<inverse>)\<^sup>*)" by (intro sym_rtrancl) (auto intro: symI)
  then show "(p, q) \<in> gen R \<Longrightarrow> (q, p) \<in> gen R" unfolding gen_def by (rule symD)
qed

lemma gen_trans: "(p, q) \<in> gen R \<Longrightarrow> (q, r) \<in> gen R \<Longrightarrow> (p, r) \<in> gen R"
  unfolding gen_def by (rule rtrancl_trans)

lemma gen_link: "(p, q) \<in> R \<Longrightarrow> (p, q) \<in> gen R"
  by (auto simp: gen_def)

lemma gen_mono: "R \<subseteq> S \<Longrightarrow> gen R \<subseteq> gen S"
  unfolding gen_def by (rule rtrancl_mono) auto

lemma gen_least:
  assumes "(p, q) \<in> gen R" and "\<And>a. Q a a" and "\<And>a b. Q a b \<Longrightarrow> Q b a"
    and "\<And>a b c. Q a b \<Longrightarrow> Q b c \<Longrightarrow> Q a c" and "\<And>a b. (a, b) \<in> R \<Longrightarrow> Q a b"
  shows "Q p q"
  using assms(1) unfolding gen_def
  by (induction rule: rtrancl_induct) (use assms(2-5) in \<open>blast+\<close>)

lemma gen_insert:
  "(p, q) \<in> gen (insert (a, b) R) \<longleftrightarrow>
    (p, q) \<in> gen R \<or> (p, a) \<in> gen R \<and> (b, q) \<in> gen R \<or> (p, b) \<in> gen R \<and> (a, q) \<in> gen R"
  (is "?l \<longleftrightarrow> ?r p q")
proof
  assume ?l
  then show "?r p q"
    by (rule gen_least) (blast intro: gen_refl gen_sym gen_trans gen_link)+
next
  have sub: "gen R \<subseteq> gen (insert (a, b) R)" by (rule gen_mono) blast
  moreover have "(a, b) \<in> gen (insert (a, b) R)" by (rule gen_link) blast
  ultimately show "?r p q \<Longrightarrow> ?l" by (meson gen_sym gen_trans subsetD)
qed

text \<open>A link between points that are connected already adds nothing.\<close>

lemma gen_insert_redundant: "(a, b) \<in> gen R \<Longrightarrow> gen (insert (a, b) R) = gen R"
  by (auto simp: gen_insert) (meson gen_sym gen_trans)+

lemma gen_outside:
  assumes "\<forall>(a, b) \<in> R. a \<in> P \<and> b \<in> P" and "v \<notin> P"
  shows "(v, q) \<in> gen R \<longleftrightarrow> q = v" and "(q, v) \<in> gen R \<longleftrightarrow> q = v"
proof -
  have "(v, q) \<in> gen R \<Longrightarrow> q = v" for q
    unfolding gen_def by (induction rule: rtrancl_induct) (use assms in auto)
  then show "(v, q) \<in> gen R \<longleftrightarrow> q = v" "(q, v) \<in> gen R \<longleftrightarrow> q = v"
    by (auto intro: gen_sym)
qed

section \<open>Labels that tell the classes apart\<close>

text \<open>\<open>lab\<close> gives two points of \<open>P\<close> the same label exactly if the links \<open>R\<close> connect them.\<close>

definition labels :: "'a set \<Rightarrow> ('a \<times> 'a) set \<Rightarrow> ('a \<Rightarrow> 'b) \<Rightarrow> bool" where
  "labels P R lab =
     ((\<forall>(a, b) \<in> R. a \<in> P \<and> b \<in> P) \<and> (\<forall>p \<in> P. \<forall>q \<in> P. lab p = lab q \<longleftrightarrow> (p, q) \<in> gen R))"

lemma labelsD: "labels P R lab \<Longrightarrow> p \<in> P \<Longrightarrow> q \<in> P \<Longrightarrow> lab p = lab q \<longleftrightarrow> (p, q) \<in> gen R"
  by (simp add: labels_def)

lemma labels_cong: "labels P R lab \<Longrightarrow> (\<And>p. p \<in> P \<Longrightarrow> lab' p = lab p) \<Longrightarrow> labels P R lab'"
  by (simp add: labels_def)

lemma new_point_cases:
  assumes "p \<in> insert v P" and "q \<in> insert v P" and "v \<notin> P"
  obtains "p = v" "q = v" | "p = v" "q \<in> P" "q \<noteq> v" | "p \<in> P" "q = v" "p \<noteq> v" | "p \<in> P" "q \<in> P" "p \<noteq> v" "q \<noteq> v"
  using assms by auto

text \<open>A new point with a label of its own.\<close>

lemma labels_new:
  assumes "labels P R lab" and "v \<notin> P" and "\<And>p. p \<in> P \<Longrightarrow> lab' p = lab p" and "\<And>p. p \<in> P \<Longrightarrow> lab p \<noteq> lab' v"
  shows "labels (insert v P) R lab'"
proof -
  have field: "\<forall>(a, b) \<in> R. a \<in> P \<and> b \<in> P" using assms(1) by (simp add: labels_def)
  note out = gen_outside [OF field assms(2)]
  have "lab' p = lab' q \<longleftrightarrow> (p, q) \<in> gen R" if pq: "p \<in> insert v P" "q \<in> insert v P" for p q
    using pq
  proof (cases rule: new_point_cases [OF pq assms(2)])
    case 4
    then show ?thesis using assms(3) labelsD [OF assms(1), of p q] by simp
  next
    case 2
    then show ?thesis using assms(3) assms(4) [of q] out(1) by auto
  next
    case 3
    then show ?thesis using assms(3) assms(4) [of p] out(2) by auto
  qed simp
  with field show ?thesis unfolding labels_def by fastforce
qed

text \<open>A new point with a link to an old one, whose label it takes.\<close>

lemma labels_attach:
  assumes "labels P R lab" and "v \<notin> P" and "u \<in> P" and "\<And>p. p \<in> P \<Longrightarrow> lab' p = lab p" and "lab' v = lab u"
  shows "labels (insert v P) (insert (v, u) R) lab'"
proof -
  have field: "\<forall>(a, b) \<in> R. a \<in> P \<and> b \<in> P" using assms(1) by (simp add: labels_def)
  note out = gen_outside [OF field assms(2)]
  have "lab' p = lab' q \<longleftrightarrow> (p, q) \<in> gen (insert (v, u) R)" if pq: "p \<in> insert v P" "q \<in> insert v P" for p q
  proof -
    have eq: "lab a = lab b \<longleftrightarrow> (a, b) \<in> gen R" if "a \<in> P" "b \<in> P" for a b
      using assms(1) that by (rule labelsD)
    from pq assms(2) show ?thesis
    proof (cases rule: new_point_cases)
      case 1
      then show ?thesis by simp
    next
      case 2
      then show ?thesis using assms(2-5) out eq [of u q] by (auto simp: gen_insert)
    next
      case 3
      then show ?thesis using assms(2-5) out eq [of p u] by (auto simp: gen_insert)
    next
      case 4
      then show ?thesis using assms(2-5) out eq [of p q] by (auto simp: gen_insert)
    qed
  qed
  with field assms(3) show ?thesis unfolding labels_def by fastforce
qed

text \<open>A link between two old points: their classes become one.\<close>

lemma labels_join:
  assumes "labels P R lab" and "a \<in> P" and "b \<in> P"
    and "\<And>p. p \<in> P \<Longrightarrow> lab' p = (if lab p = lab a then lab b else lab p)"
  shows "labels P (insert (a, b) R) lab'"
proof -
  have field: "\<forall>(a, b) \<in> R. a \<in> P \<and> b \<in> P" using assms(1) by (simp add: labels_def)
  have "lab' p = lab' q \<longleftrightarrow> (p, q) \<in> gen (insert (a, b) R)" if "p \<in> P" "q \<in> P" for p q
  proof -
    have eqs: "(p, q) \<in> gen R \<longleftrightarrow> lab p = lab q" "(p, a) \<in> gen R \<longleftrightarrow> lab p = lab a" "(b, q) \<in> gen R \<longleftrightarrow> lab b = lab q"
      "(p, b) \<in> gen R \<longleftrightarrow> lab p = lab b" "(a, q) \<in> gen R \<longleftrightarrow> lab a = lab q"
      using labelsD [OF assms(1)] that assms(2,3) by blast+
    show ?thesis unfolding gen_insert eqs using assms(4) that by auto
  qed
  with field assms(2,3) show ?thesis unfolding labels_def by fastforce
qed

lemma labels_redundant:
  assumes "labels P R lab" and "a \<in> P" and "b \<in> P" and "lab a = lab b"
  shows "labels P (insert (a, b) R) lab"
proof -
  have "(a, b) \<in> gen R" using labelsD [OF assms(1-3)] assms(4) by simp
  then have "gen (insert (a, b) R) = gen R" by (rule gen_insert_redundant)
  with assms show ?thesis by (simp add: labels_def)
qed

lemma labels_flip: "labels P (insert (a, b) R) lab \<Longrightarrow> labels P (insert (b, a) R) lab"
proof -
  have "gen (insert (a, b) R) = gen (insert (b, a) R)" by (auto simp: gen_insert)
  then show "labels P (insert (a, b) R) lab \<Longrightarrow> labels P (insert (b, a) R) lab" by (simp add: labels_def)
qed

section \<open>The forest\<close>

text \<open>\<open>forest M r\<close>: in the map \<open>M\<close> the tree of an id \<open>i\<close> has the root \<open>r i\<close>; the depths bound every
  walk.\<close>

definition forest :: "nat list \<Rightarrow> (nat \<Rightarrow> nat) \<Rightarrow> bool" where
  "forest M r =
     ((\<forall>i < length M. M ! i < length M \<and> r i < length M \<and> r (M ! i) = r i \<and> M ! r i = r i \<and>
        (M ! i = i \<longrightarrow> r i = i)) \<and>
      (\<exists>depth :: nat \<Rightarrow> nat. \<forall>i < length M. M ! i \<noteq> i \<longrightarrow> depth (M ! i) < depth i))"

lemma forestD:
  assumes "forest M r" and "i < length M"
  shows "M ! i < length M" "r i < length M" "r (M ! i) = r i" "M ! r i = r i" "M ! i = i \<longleftrightarrow> r i = i" "r (r i) = r i"
  using assms by (auto simp: forest_def)

lemma forest_induct [consumes 2, case_names up]:
  assumes "forest M r" and "i < length M"
    and "\<And>i. i < length M \<Longrightarrow> (M ! i \<noteq> i \<Longrightarrow> Q (M ! i)) \<Longrightarrow> Q i"
  shows "Q i"
proof -
  obtain depth :: "nat \<Rightarrow> nat" where d: "\<forall>i < length M. M ! i \<noteq> i \<longrightarrow> depth (M ! i) < depth i"
    using assms(1) by (auto simp: forest_def)
  show ?thesis using assms(2)
  proof (induction i rule: measure_induct_rule [of depth])
    case (less i)
    show ?case
      by (rule assms(3) [OF less.prems]) (use less d forestD(1) [OF assms(1)] in auto)
  qed
qed

text \<open>The slots that hold the map.\<close>

definition idmap_of :: "nat list \<Rightarrow> int slots \<Rightarrow> bool" where
  "idmap_of M arr = (length M \<le> length arr \<and> (\<forall>i < length M. arr ! i = Some (int (M ! i))))"

lemma arr_get_idmap [simp]: "idmap_of M arr \<Longrightarrow> i < length M \<Longrightarrow> arr_get arr (int i) = Some (int (M ! i))"
  by (simp add: idmap_of_def arr_get_def)

lemma arr_set_idmap:
  assumes "idmap_of M arr" and "i < length M"
  shows "\<exists>arr'. arr_set arr (int i) (int j) = Some arr' \<and> idmap_of (M[i := j]) arr' \<and> length arr' = length arr"
  using assms by (auto simp: idmap_of_def arr_set_def nth_list_update)

lemma find_root_eq:
  assumes "idmap_of M arr" and "forest M r" and "i < length M"
  shows "find_root arr (int i) = Some (int (r i))"
  using assms(2,3)
proof (induction i rule: forest_induct)
  case (up i)
  have "find_root arr (int i) = (if M ! i = i then Some (int i) else find_root arr (int (M ! i)))"
    using assms(1) up(1) by (subst find_root.simps) simp
  with up forestD [OF assms(2) up(1)] show ?case by auto
qed

text \<open>Joining the tree of \<open>s\<close> to that of \<open>d\<close>.\<close>

lemma forest_join:
  assumes f: "forest M r" and s: "s < length M" and d: "d < length M" and ne: "r s \<noteq> r d"
  shows "forest (M[r s := r d]) (\<lambda>i. if r i = r s then r d else r i)" (is "forest ?M ?r")
proof -
  obtain depth :: "nat \<Rightarrow> nat" where depth: "\<forall>i < length M. M ! i \<noteq> i \<longrightarrow> depth (M ! i) < depth i"
    using f by (auto simp: forest_def)
  define depth' where "depth' i = (if r i = r s then depth i + depth (r d) + 1 else depth i)" for i
  note F = forestD [OF f]
  have "\<forall>i < length ?M. ?M ! i < length ?M \<and> ?r i < length ?M \<and> ?r (?M ! i) = ?r i \<and> ?M ! ?r i = ?r i \<and>
      (?M ! i = i \<longrightarrow> ?r i = i)"
    using F F(1-6) [OF s] F(1-6) [OF d] ne by (auto simp: nth_list_update)
  moreover have "\<forall>i < length ?M. ?M ! i \<noteq> i \<longrightarrow> depth' (?M ! i) < depth' i"
    using F F(1-6) [OF s] F(1-6) [OF d] ne depth by (auto simp: nth_list_update depth'_def)
  ultimately show ?thesis unfolding forest_def by blast
qed

text \<open>A new tree.\<close>

lemma forest_new:
  assumes "forest M r"
  shows "forest (M @ [length M]) (r(length M := length M))"
proof -
  obtain depth :: "nat \<Rightarrow> nat" where depth: "\<forall>i < length M. M ! i \<noteq> i \<longrightarrow> depth (M ! i) < depth i"
    using assms by (auto simp: forest_def)
  note F = forestD [OF assms]
  have "i < length M \<Longrightarrow> M ! i \<noteq> length M \<and> r i \<noteq> length M" for i using F(1,2) by fastforce
  then show ?thesis
    using F depth unfolding forest_def
    by (intro conjI exI [of _ depth]) (auto simp: nth_append less_Suc_eq)
qed

text \<open>Short cuts: an id may point at any id above it.\<close>

lemma forest_shortcut:
  assumes f: "forest M r" and i: "i < length M"
  shows "forest (M[i := M ! (M ! i)]) r" (is "forest ?M r")
proof -
  obtain depth :: "nat \<Rightarrow> nat" where depth: "\<forall>i < length M. M ! i \<noteq> i \<longrightarrow> depth (M ! i) < depth i"
    using f by (auto simp: forest_def)
  note F = forestD [OF f]
  have le: "M ! j = j \<or> depth (M ! j) < depth j" if "j < length M" for j using depth that by blast
  have loop: "M ! (M ! i) = i \<Longrightarrow> M ! i = i"
    using le [OF i] le [OF F(1) [OF i]] by auto
  have "depth (?M ! j) < depth j" if "j < length ?M" "?M ! j \<noteq> j" for j
    using that le [of j] le [OF F(1) [of j]] F(1) by (cases "j = i") (auto simp: nth_list_update)
  moreover have "?M ! j < length ?M \<and> r j < length ?M \<and> r (?M ! j) = r j \<and> ?M ! r j = r j \<and> (?M ! j = j \<longrightarrow> r j = j)"
    if j: "j < length M" for j
  proof (cases "j = i")
    case True
    have "M ! (M ! i) = r i" if "r i = i" using F(5) [OF i] that by simp
    then show ?thesis
      using True i loop F(1) [OF F(1) [OF i]] F(2-6) [OF i] F(3) [OF F(1) [OF i]] by (auto simp: nth_list_update)
  next
    case False
    have "M ! (M ! i) = i" if "r j = i"
      using F(4,6) [OF j] that by simp
    then show ?thesis using False F [OF j] i by (cases "r j = i") (auto simp: nth_list_update)
  qed
  ultimately show ?thesis unfolding forest_def by auto
qed


section \<open>The operations on the map\<close>

lemma complete_one_eq:
  assumes "idmap_of M arr" and "forest M r" and "i < length M"
  shows "\<exists>arr'. complete_one arr (int i) = Some arr' \<and> idmap_of (M[i := r i]) arr' \<and> forest (M[i := r i]) r \<and>
    length arr' = length arr"
proof -
  obtain depth :: "nat \<Rightarrow> nat" where depth: "\<forall>j < length M. M ! j \<noteq> j \<longrightarrow> depth (M ! j) < depth j"
    using assms(2) by (auto simp: forest_def)
  define n where "n = depth (M ! i)"
  have "\<exists>arr'. complete_one arr (int i) = Some arr' \<and> idmap_of (M[i := r i]) arr' \<and> forest (M[i := r i]) r \<and>
      length arr' = length arr"
    if "idmap_of M arr" "forest M r" "i < length M" "depth (M ! i) = n"
      "\<forall>j < length M. M ! j \<noteq> j \<longrightarrow> depth (M ! j) < depth j" for M arr n
    using that
  proof (induction n arbitrary: M arr rule: less_induct)
    case (less n)
    note F = forestD [OF less.prems(2)] and i = less.prems(3)
    let ?p = "M ! i" and ?q = "M ! (M ! i)"
    have step: "complete_one arr (int i) =
        (if ?p \<noteq> ?q then Option.bind (arr_set arr (int i) (int ?q)) (\<lambda>a. complete_one a (int i)) else Some arr)"
      using less.prems(1) i F(1) [OF i] by (subst complete_one.simps) simp
    show ?case
    proof (cases "?p = ?q")
      case True
      then have "r ?p = ?p" using F(5) [OF F(1) [OF i]] by simp
      then have "r i = ?p" using F(3) [OF i] by simp
      then have "M[i := r i] = M" by simp
      with True step less.prems show ?thesis by simp
    next
      case False
      let ?M = "M[i := ?q]"
      obtain arr1 where arr1: "arr_set arr (int i) (int ?q) = Some arr1" "idmap_of ?M arr1" "length arr1 = length arr"
        using arr_set_idmap [OF less.prems(1) i, of ?q] by blast
      have f1: "forest ?M r" using less.prems(2) i by (rule forest_shortcut)
      have p: "?p \<noteq> i" using False by metis
      have d: "depth ?q < depth ?p" "depth ?p < depth i"
        using less.prems(5) F(1) [OF i] i False p by metis+
      then have d1: "\<forall>j < length ?M. ?M ! j \<noteq> j \<longrightarrow> depth (?M ! j) < depth j"
        using less.prems(5) i by (auto simp: nth_list_update)
      have "depth (?M ! i) < n" using d(1) less.prems(4) i by simp
      from less.IH [OF this arr1(2) f1 _ refl d1] i show ?thesis
        using step arr1 False by simp
    qed
  qed
  from this [OF assms] depth show ?thesis by blast
qed

text \<open>The ids done so far point at their roots; the others are as they were.\<close>

definition roots_upto :: "nat list \<Rightarrow> (nat \<Rightarrow> nat) \<Rightarrow> nat \<Rightarrow> nat list" where
  "roots_upto M r n = map r [0..<n] @ drop n M"

lemma roots_upto_Suc: "n < length M \<Longrightarrow> (roots_upto M r n)[n := r n] = roots_upto M r (Suc n)"
  by (simp add: roots_upto_def list_update_append Cons_nth_drop_Suc [symmetric])

lemma complete_loop_eq:
  assumes "idmap_of (roots_upto M r n) arr" and "forest (roots_upto M r n) r" and "n + k = length M"
  shows "\<exists>arr' c. complete_loop arr (int n) k cnt = Some (arr', c) \<and> idmap_of (map r [0..<length M]) arr' \<and>
    forest (map r [0..<length M]) r \<and> length arr' = length arr \<and>
    c = cnt + int (card {i. n \<le> i \<and> i < length M \<and> r i = i})"
  using assms
proof (induction k arbitrary: n arr cnt)
  case 0
  then have "{i. n \<le> i \<and> i < length M \<and> r i = i} = {}" by auto
  with 0 show ?case by (simp add: roots_upto_def)
next
  case (Suc k)
  let ?M = "roots_upto M r n"
  have n: "n < length ?M" "n < length M" using Suc.prems(3) by (simp_all add: roots_upto_def)
  obtain arr1 where arr1: "complete_one arr (int n) = Some arr1" "idmap_of (roots_upto M r (Suc n)) arr1"
    "forest (roots_upto M r (Suc n)) r" "length arr1 = length arr"
    using complete_one_eq [OF Suc.prems(1,2) n(1)] roots_upto_Suc [OF n(2)] by auto
  have "roots_upto M r (Suc n) ! n = r n" "n < length (roots_upto M r (Suc n))"
    using n by (simp_all add: roots_upto_def nth_append)
  then have get: "arr_get arr1 (int n) = Some (int (r n))" using arr1(2) by simp
  have split: "{i. n \<le> i \<and> i < length M \<and> r i = i} =
      (if r n = n then insert n else id) {i. Suc n \<le> i \<and> i < length M \<and> r i = i}"
    using n(2) by (auto simp: Suc_le_eq le_less)
  have "finite {i. Suc n \<le> i \<and> i < length M \<and> r i = i}" by simp
  then have card: "int (card {i. n \<le> i \<and> i < length M \<and> r i = i}) =
      (if r n = n then 1 else 0) + int (card {i. Suc n \<le> i \<and> i < length M \<and> r i = i})"
    unfolding split by simp
  from Suc.IH [OF arr1(2,3), of "if r n = n then cnt + 1 else cnt"] Suc.prems(3) show ?case
    using arr1(1,4) get card by (auto simp: add.commute)
qed

end
