(* ===== verification/Polygon_Facts.thy ===== *)
theory Polygon_Facts
  imports Polygon_Forest
begin

text \<open>
  The enumeration of polygons is correct for 4-connectedness: after any number of lines the roots
  of the ids of two pixels agree exactly if the pixels are connected by a path of neighbours with
  one value.  And for 8-connectedness it is not.
\<close>

section \<open>The state of the enumerator\<close>

definition values_of :: "int list \<Rightarrow> int slots \<Rightarrow> bool" where
  "values_of V arr = (length V \<le> length arr \<and> (\<forall>i < length V. arr ! i = Some (V ! i)))"

text \<open>\<open>enum_ok e M V r\<close>: the maps of \<open>e\<close> hold the forest \<open>M\<close> with the roots \<open>r\<close> and the values \<open>V\<close>,
  all ids of a tree have one value, and the arrays are at most twice as large as needed.\<close>

definition enum_ok ::
    "GDALRasterPolygonEnumerator \<Rightarrow> nat list \<Rightarrow> int list \<Rightarrow> (nat \<Rightarrow> nat) \<Rightarrow> bool" where
  "enum_ok e M V r =
     (idmap_of M (panPolyIdMap e) \<and> values_of V (panPolyValue e) \<and> forest M r \<and> length V = length M \<and>
      (\<forall>i < length M. V ! (M ! i) = V ! i) \<and> nNextPolygonId e = int (length M) \<and>
      nPolyAlloc e = int (length (panPolyIdMap e)) \<and> nPolyAlloc e = int (length (panPolyValue e)) \<and>
      nPolyAlloc e \<le> 2 * int (length M) + 20)"

text \<open>As many ids as the arrays can be enlarged for.\<close>

definition id_limit :: nat where
  "id_limit = 2 ^ 28 - 10"

lemma arr_get_values [simp]: "values_of V arr \<Longrightarrow> i < length V \<Longrightarrow> arr_get arr (int i) = Some (V ! i)"
  by (simp add: values_of_def arr_get_def)

lemma enum_ok_new: "enum_ok (GDALRasterPolygonEnumerator_new nConn) [] [] (\<lambda>i. i)"
  by (simp add: enum_ok_def GDALRasterPolygonEnumerator_new_def idmap_of_def values_of_def forest_def)

lemma enum_Clear_new: "enum_Clear e = GDALRasterPolygonEnumerator_new (nConnectedness e)"
  by (simp add: enum_Clear_def GDALRasterPolygonEnumerator_new_def)

lemma root_value:
  assumes "enum_ok e M V r" and "i < length M"
  shows "V ! (r i) = V ! i"
proof -
  have f: "forest M r" and v: "\<forall>i < length M. V ! (M ! i) = V ! i" using assms(1) by (simp_all add: enum_ok_def)
  show ?thesis using f assms(2)
  proof (induction i rule: forest_induct)
    case (up i)
    then show ?case using v forestD(3,5) [OF f up(1)] by metis
  qed
qed

lemma arr_realloc_larger:
  assumes "length arr \<le> n"
  shows "arr_realloc arr (4 * int n) = Some (arr @ replicate (n - length arr) None)"
  using assms by (simp add: arr_realloc_def)

lemma grow_maps_ok:
  assumes "enum_ok e M V r" and "length M < id_limit"
  shows "\<exists>e'. grow_maps e = Some e' \<and> enum_ok e' M V r \<and> length M < length (panPolyIdMap e') \<and>
    length M < length (panPolyValue e') \<and> nConnectedness e' = nConnectedness e"
proof (cases "nPolyAlloc e \<le> nNextPolygonId e")
  case False
  then show ?thesis using assms by (auto simp: grow_maps_def enum_ok_def)
next
  case True
  let ?a = "nPolyAlloc e" and ?n = "2 * nPolyAlloc e + 20"
  have a: "0 \<le> ?a" "?a = int (length (panPolyIdMap e))" "?a = int (length (panPolyValue e))"
    "?a \<le> int (length M)" "length M < 2 ^ 28 - 10"
    using assms True by (auto simp: enum_ok_def id_limit_def)
  have n: "to_i32 (to_i32 (?a * 2) + 20) = ?n" "to_i32 (?n * 4) = 4 * ?n"
    using a by (simp_all add: to_i32_id)
  have m: "?n = int (nat ?n)" using a by simp
  have "arr_realloc arr (4 * ?n) = Some (arr @ replicate (nat ?n - length arr) None)"
    if "int (length arr) = ?a" for arr :: "int slots"
    using a(1) that by (subst m, intro arr_realloc_larger) simp
  then have "grow_maps e = Some (e\<lparr>nPolyAlloc := ?n,
      panPolyIdMap := panPolyIdMap e @ replicate (nat ?n - length (panPolyIdMap e)) None,
      panPolyValue := panPolyValue e @ replicate (nat ?n - length (panPolyValue e)) None\<rparr>)"
    using True n a(2,3) by (simp add: grow_maps_def Let_def)
  moreover have "length M \<le> length (panPolyIdMap e)" "length V \<le> length (panPolyValue e)"
    using assms(1) by (simp_all add: enum_ok_def idmap_of_def values_of_def)
  ultimately show ?thesis
    using assms(1) a unfolding enum_ok_def
    by (auto simp: idmap_of_def values_of_def nth_append)
qed

lemma NewPolygon_ok:
  assumes "enum_ok e M V r" and "length M < id_limit"
  shows "\<exists>e'. NewPolygon e v = Some (int (length M), e') \<and>
    enum_ok e' (M @ [length M]) (V @ [v]) (r(length M := length M)) \<and> nConnectedness e' = nConnectedness e"
proof -
  obtain e1 where e1: "grow_maps e = Some e1" "enum_ok e1 M V r" "length M < length (panPolyIdMap e1)"
    "length M < length (panPolyValue e1)" "nConnectedness e1 = nConnectedness e"
    using grow_maps_ok [OF assms] by blast
  have f: "forest M r" and len: "length V = length M" using e1(2) by (simp_all add: enum_ok_def)
  have "M ! i < length M" if "i < length M" for i using f that by (rule forestD)
  then have "\<forall>i < length (M @ [length M]). (V @ [v]) ! ((M @ [length M]) ! i) = (V @ [v]) ! i"
    using e1(2) by (auto simp: enum_ok_def nth_append less_Suc_eq)
  moreover have "nNextPolygonId e = int (length M)" using assms(1) by (simp add: enum_ok_def)
  moreover have "to_i32 (int (length M) + 1) = int (length M) + 1"
    using assms(2) by (simp add: id_limit_def to_i32_id)
  ultimately show ?thesis
    using e1 forest_new [OF f] len
    by (auto simp: NewPolygon_def Let_def enum_ok_def idmap_of_def values_of_def arr_set_def nth_append less_Suc_eq)
qed

lemma MergePolygon_ok:
  assumes "enum_ok e M V r" and "s < length M" and "d < length M" and "V ! s = V ! d"
  shows "\<exists>e' M'. MergePolygon e (int s) (int d) = Some e' \<and>
    enum_ok e' M' V (\<lambda>i. if r i = r s then r d else r i) \<and> length M' = length M \<and>
    nConnectedness e' = nConnectedness e"
proof -
  have im: "idmap_of M (panPolyIdMap e)" and f: "forest M r" using assms(1) by (simp_all add: enum_ok_def)
  have roots: "find_root (panPolyIdMap e) (int s) = Some (int (r s))" "find_root (panPolyIdMap e) (int d) = Some (int (r d))"
    using find_root_eq [OF im f] assms by auto
  show ?thesis
  proof (cases "r s = r d")
    case True
    then have "(\<lambda>i. if r i = r s then r d else r i) = r" by auto
    with True roots assms(1) show ?thesis by (auto simp: MergePolygon_def)
  next
    case False
    have rs: "r s < length M" "r d < length M" using forestD(2) [OF f] assms(2,3) by auto
    obtain arr where arr: "arr_set (panPolyIdMap e) (int (r s)) (int (r d)) = Some arr"
      "idmap_of (M[r s := r d]) arr" "length arr = length (panPolyIdMap e)"
      using arr_set_idmap [OF im rs(1)] by blast
    have "V ! r s = V ! r d" using root_value [OF assms(1)] assms(2-4) by simp
    then have "\<forall>i < length M. V ! (M[r s := r d] ! i) = V ! i"
      using assms(1) rs by (auto simp: enum_ok_def nth_list_update)
    then show ?thesis
      using False roots arr assms(1) forest_join [OF f assms(2,3) False]
      by (auto simp: MergePolygon_def enum_ok_def intro!: exI [of _ "M[r s := r d]"])
  qed
qed

lemma CompleteMerges_ok:
  assumes "enum_ok e M V r"
  shows "\<exists>e' c. CompleteMerges e = Some (e', c) \<and> enum_ok e' (map r [0..<length M]) V r \<and>
    nConnectedness e' = nConnectedness e \<and> c = int (card {i. i < length M \<and> r i = i})"
proof -
  have "idmap_of (roots_upto M r 0) (panPolyIdMap e)" "forest (roots_upto M r 0) r"
    using assms by (simp_all add: enum_ok_def roots_upto_def)
  from complete_loop_eq [OF this, of "length M" 0] obtain arr c where
    "complete_loop (panPolyIdMap e) 0 (length M) 0 = Some (arr, c)" "idmap_of (map r [0..<length M]) arr"
    "forest (map r [0..<length M]) r" "length arr = length (panPolyIdMap e)"
    "c = int (card {i. i < length M \<and> r i = i})"
    by auto
  with assms root_value [OF assms] show ?thesis
    by (auto simp: CompleteMerges_def enum_ok_def)
qed

section \<open>Pixels and their links\<close>

text \<open>A pixel is its line and its column.  The neighbours that are met before it: the one on the
  left and the one above.\<close>

type_synonym pixel = "nat \<times> nat"

definition nbrs :: "pixel \<Rightarrow> pixel set" where
  "nbrs = (\<lambda>(y, x). (if 0 < x then {(y, x - 1)} else {}) \<union> (if 0 < y then {(y - 1, x)} else {}))"

definition links :: "(pixel \<Rightarrow> int) \<Rightarrow> pixel set \<Rightarrow> (pixel \<times> pixel) set" where
  "links val P = {(p, q). p \<in> P \<and> q \<in> P \<and> val p = val q \<and> q \<in> nbrs p}"

text \<open>The pixels before column \<open>i\<close> of line \<open>y\<close>.\<close>

definition scanned :: "nat \<Rightarrow> nat \<Rightarrow> nat \<Rightarrow> pixel set" where
  "scanned w y i = {(y', x). x < w \<and> (y' < y \<or> y' = y \<and> x < i)}"

lemma scanned_Suc: "i < w \<Longrightarrow> scanned w y (Suc i) = insert (y, i) (scanned w y i)"
  by (auto simp: scanned_def less_Suc_eq)

lemma scanned_fresh: "(y, i) \<notin> scanned w y i"
  by (simp add: scanned_def)

lemma scanned_image: "i < w \<Longrightarrow> (idf((y, i) := c)) ` scanned w y (Suc i) = insert c (idf ` scanned w y i)"
proof -
  have "(idf((y, i) := c)) ` scanned w y i = idf ` scanned w y i"
    by (intro image_cong) (auto simp: scanned_def)
  then show "i < w \<Longrightarrow> (idf((y, i) := c)) ` scanned w y (Suc i) = insert c (idf ` scanned w y i)"
    by (simp only: scanned_Suc image_insert fun_upd_same)
qed

lemma scanned_line: "scanned w (Suc y) 0 = scanned w y w"
  by (auto simp: scanned_def less_Suc_eq)

lemma scanned_start: "scanned w 0 0 = {}"
  by (simp add: scanned_def)

lemma links_scanned_Suc:
  assumes "i < w"
  shows "links val (scanned w y (Suc i)) =
    links val (scanned w y i) \<union> Pair (y, i) ` {u \<in> nbrs (y, i). val u = val (y, i)}"
proof -
  have sub: "nbrs (y, i) \<subseteq> scanned w y i" using assms by (auto simp: nbrs_def scanned_def)
  have "(y, i) \<notin> nbrs p" if "p \<in> scanned w y (Suc i)" for p
    using that by (auto simp: nbrs_def scanned_def less_Suc_eq split: if_splits)
  with sub show ?thesis
    unfolding links_def scanned_Suc [OF assms] by (auto 4 4)
qed

section \<open>The invariant of the scan\<close>

text \<open>Every pixel met has an id of its value, the roots of the ids tell the regions among these
  pixels apart, and there are no other ids.\<close>

definition scan_inv ::
    "nat \<Rightarrow> (pixel \<Rightarrow> int) \<Rightarrow> nat \<Rightarrow> nat \<Rightarrow> GDALRasterPolygonEnumerator \<Rightarrow> nat list \<Rightarrow> int list
     \<Rightarrow> (nat \<Rightarrow> nat) \<Rightarrow> (pixel \<Rightarrow> nat) \<Rightarrow> bool" where
  "scan_inv w val y i e M V r idf =
     (enum_ok e M V r \<and>
      (\<forall>p \<in> scanned w y i. idf p < length M \<and> V ! idf p = val p) \<and>
      labels (scanned w y i) (links val (scanned w y i)) (r \<circ> idf) \<and>
      length M \<le> y * w + i \<and> idf ` scanned w y i = {..<length M})"

text \<open>The buffers: the values of a line, and the ids of its first \<open>n\<close> pixels.\<close>

definition line_values :: "nat \<Rightarrow> (pixel \<Rightarrow> int) \<Rightarrow> nat \<Rightarrow> int slots \<Rightarrow> bool" where
  "line_values w val y buf = (w \<le> length buf \<and> (\<forall>x < w. buf ! x = Some (val (y, x))))"

definition line_ids :: "nat \<Rightarrow> (pixel \<Rightarrow> nat) \<Rightarrow> nat \<Rightarrow> int slots \<Rightarrow> bool" where
  "line_ids n idf y buf = (n \<le> length buf \<and> (\<forall>x < n. buf ! x = Some (int (idf (y, x)))))"

lemma arr_get_line [simp]: "line_values w val y buf \<Longrightarrow> x < w \<Longrightarrow> arr_get buf (int x) = Some (val (y, x))"
  by (simp add: line_values_def arr_get_def)

lemma arr_get_ids [simp]: "line_ids n idf y buf \<Longrightarrow> x < n \<Longrightarrow> arr_get buf (int x) = Some (int (idf (y, x)))"
  by (simp add: line_ids_def arr_get_def)

lemma arr_get_ids_left: "line_ids i idf y buf \<Longrightarrow> 0 < i \<Longrightarrow> arr_get buf (int i - 1) = Some (int (idf (y, i - 1)))"
  using arr_get_ids [of i idf y buf "i - 1"] by (simp add: of_nat_diff)

lemma arr_get_line_left:
  "line_values w val y buf \<Longrightarrow> 0 < i \<Longrightarrow> i < w \<Longrightarrow> arr_get buf (int i - 1) = Some (val (y, i - 1))"
  using arr_get_line [of w val y buf "i - 1"] by (simp add: of_nat_diff)

lemma arr_set_ids:
  assumes "line_ids i idf y buf" and "i < length buf"
  shows "\<exists>buf'. arr_set buf (int i) (int c) = Some buf' \<and> line_ids (Suc i) (idf((y, i) := c)) y buf' \<and>
    length buf' = length buf"
  using assms by (auto simp: line_ids_def arr_set_def nth_list_update less_Suc_eq)

subsection \<open>One pixel\<close>

text \<open>A pixel without an equal neighbour.\<close>

lemma scan_new:
  assumes inv: "scan_inv w val y i e M V r idf" and i: "i < w" and lim: "y * w + i < id_limit"
    and none: "\<forall>u \<in> nbrs (y, i). val u \<noteq> val (y, i)"
  shows "\<exists>e'. NewPolygon e (val (y, i)) = Some (int (length M), e') \<and>
    scan_inv w val y (Suc i) e' (M @ [length M]) (V @ [val (y, i)]) (r(length M := length M)) (idf((y, i) := length M)) \<and>
    nConnectedness e' = nConnectedness e"
proof -
  let ?P = "scanned w y i" and ?r = "r(length M := length M)" and ?idf = "idf((y, i) := length M)"
  have ok: "enum_ok e M V r" and ids: "\<forall>p \<in> ?P. idf p < length M \<and> V ! idf p = val p"
    and lab: "labels ?P (links val ?P) (r \<circ> idf)" and n: "length M \<le> y * w + i" and img: "idf ` ?P = {..<length M}"
    using inv by (simp_all add: scan_inv_def)
  have f: "forest M r" and len: "length V = length M" using ok by (simp_all add: enum_ok_def)
  obtain e' where e': "NewPolygon e (val (y, i)) = Some (int (length M), e')"
    "enum_ok e' (M @ [length M]) (V @ [val (y, i)]) ?r" "nConnectedness e' = nConnectedness e"
    using NewPolygon_ok [OF ok, of "val (y, i)"] n lim by auto
  have fresh: "p \<noteq> (y, i)" if "p \<in> ?P" for p using that scanned_fresh by blast
  have lt: "idf p < length M" "r (idf p) < length M" if "p \<in> ?P" for p
    using ids that forestD(2) [OF f] by auto
  have "labels (insert (y, i) ?P) (links val ?P) (?r \<circ> ?idf)"
  proof (rule labels_new [OF lab scanned_fresh])
    show "(?r \<circ> ?idf) p = (r \<circ> idf) p" if "p \<in> ?P" for p
      using fresh [OF that] lt [OF that] by simp
    show "(r \<circ> idf) p \<noteq> (?r \<circ> ?idf) (y, i)" if "p \<in> ?P" for p
      using lt [OF that] by simp
  qed
  moreover have "links val (scanned w y (Suc i)) = links val ?P"
    unfolding links_scanned_Suc [OF i] using none by auto
  moreover have "\<forall>p \<in> scanned w y (Suc i). ?idf p < length (M @ [length M]) \<and> (V @ [val (y, i)]) ! ?idf p = val p"
    unfolding scanned_Suc [OF i] using ids fresh len by (auto simp: nth_append less_Suc_eq)
  moreover have "?idf ` scanned w y (Suc i) = {..<length (M @ [length M])}"
    by (simp only: scanned_image [OF i] img) (simp add: lessThan_Suc)
  ultimately show ?thesis using e' n by (auto simp: scan_inv_def scanned_Suc [OF i])
qed

text \<open>A pixel with one equal neighbour, whose id it takes.\<close>

lemma scan_copy:
  assumes inv: "scan_inv w val y i e M V r idf" and i: "i < w"
    and u: "{u \<in> nbrs (y, i). val u = val (y, i)} = {u}"
  shows "scan_inv w val y (Suc i) e M V r (idf((y, i) := idf u))"
proof -
  let ?P = "scanned w y i" and ?idf = "idf((y, i) := idf u)"
  have ok: "enum_ok e M V r" and ids: "\<forall>p \<in> ?P. idf p < length M \<and> V ! idf p = val p"
    and lab: "labels ?P (links val ?P) (r \<circ> idf)" and n: "length M \<le> y * w + i" and img: "idf ` ?P = {..<length M}"
    using inv by (simp_all add: scan_inv_def)
  have "u \<in> {u \<in> nbrs (y, i). val u = val (y, i)}" unfolding u by simp
  then have u': "u \<in> nbrs (y, i)" and val: "val u = val (y, i)" by simp_all
  have uP: "u \<in> ?P" using u' i by (auto simp: nbrs_def scanned_def split: if_splits)
  have fresh: "p \<noteq> (y, i)" if "p \<in> ?P" for p using that scanned_fresh by blast
  have "labels (insert (y, i) ?P) (insert ((y, i), u) (links val ?P)) (r \<circ> ?idf)"
    by (rule labels_attach [OF lab scanned_fresh uP]) (use fresh in auto)
  moreover have "links val (scanned w y (Suc i)) = insert ((y, i), u) (links val ?P)"
    unfolding links_scanned_Suc [OF i] u by simp
  moreover have "\<forall>p \<in> scanned w y (Suc i). ?idf p < length M \<and> V ! ?idf p = val p"
    unfolding scanned_Suc [OF i] using ids fresh uP val by auto
  moreover have "?idf ` scanned w y (Suc i) = {..<length M}"
    unfolding scanned_image [OF i] img [symmetric] using uP by (intro insert_absorb imageI)
  ultimately show ?thesis using ok n by (auto simp: scan_inv_def scanned_Suc [OF i])
qed

text \<open>A pixel equal to the one on its left, whose id it takes; the one above may be equal too.\<close>

lemma scan_left:
  assumes inv: "scan_inv w val (Suc y) i e M V r idf" and i: "i < w" "0 < i"
    and left: "val (Suc y, i - 1) = val (Suc y, i)"
    and last: "line_values w val y lastVal" "line_ids w idf y lastId" and now: "line_values w val (Suc y) thisVal"
  shows "\<exists>e' M' r'. merge_above lastVal thisVal e lastId (int (idf (Suc y, i - 1))) (int i) = Some e' \<and>
    scan_inv w val (Suc y) (Suc i) e' M' V r' (idf((Suc y, i) := idf (Suc y, i - 1))) \<and>
    nConnectedness e' = nConnectedness e"
proof -
  let ?v = "(Suc y, i)" and ?l = "(Suc y, i - 1)" and ?u = "(y, i)" and ?P = "scanned w (Suc y) i"
  let ?idf = "idf(?v := idf ?l)"
  have nb: "nbrs ?v = {?l, ?u}" using i by (auto simp: nbrs_def)
  have same: "same_value lastVal thisVal (int i) (int i) = Some (val ?u = val ?v)"
    using last now i by (simp add: same_value_def)
  show ?thesis
  proof (cases "val ?u = val ?v")
    case False
    then have "{u \<in> nbrs ?v. val u = val ?v} = {?l}" using left nb by auto
    with scan_copy [OF inv i(1)] same False show ?thesis by (auto simp: merge_above_def)
  next
    case True
    have ok: "enum_ok e M V r" and ids: "\<forall>p \<in> ?P. idf p < length M \<and> V ! idf p = val p"
      and lab: "labels ?P (links val ?P) (r \<circ> idf)" and n: "length M \<le> Suc y * w + i" and img: "idf ` ?P = {..<length M}"
      using inv by (simp_all add: scan_inv_def)
    have f: "forest M r" and im: "idmap_of M (panPolyIdMap e)" using ok by (simp_all add: enum_ok_def)
    have P: "?l \<in> ?P" "?u \<in> ?P" using i by (auto simp: scanned_def)
    have fresh: "p \<noteq> ?v" if "p \<in> ?P" for p using that scanned_fresh by blast
    have lt: "idf ?l < length M" "idf ?u < length M" using ids P by auto
    have eqv: "V ! idf ?u = V ! idf ?l" using ids P left True by auto
    have attach: "labels (insert ?v ?P) (insert (?v, ?l) (links val ?P)) (r \<circ> ?idf)"
      by (rule labels_attach [OF lab scanned_fresh P(1)]) (use fresh in auto)
    have links: "links val (scanned w (Suc y) (Suc i)) = insert (?v, ?u) (insert (?v, ?l) (links val ?P))"
    proof -
      have "{u \<in> nbrs ?v. val u = val ?v} = {?l, ?u}" using nb left True by auto
      then show ?thesis unfolding links_scanned_Suc [OF i(1)] by (simp add: insert_commute)
    qed
    have gets: "arr_get lastId (int i) = Some (int (idf ?u))"
      "arr_get (panPolyIdMap e) (int (idf ?u)) = Some (int (M ! idf ?u))"
      "arr_get (panPolyIdMap e) (int (idf ?l)) = Some (int (M ! idf ?l))"
      using last i im lt by simp_all
    have rest: "\<forall>p \<in> scanned w (Suc y) (Suc i). ?idf p < length M \<and> V ! ?idf p = val p"
      "length M \<le> Suc y * w + Suc i"
      using ids P left fresh n by (auto simp: scanned_Suc [OF i(1)])
    have rest_img: "?idf ` scanned w (Suc y) (Suc i) = {..<length M}"
      unfolding scanned_image [OF i(1)] img [symmetric] using P by (intro insert_absorb imageI)
    show ?thesis
    proof (cases "M ! idf ?u = M ! idf ?l")
      case same_root: True
      then have "r (idf ?u) = r (idf ?l)" using forestD(3) [OF f] lt by metis
      then have "labels (insert ?v ?P) (insert (?v, ?u) (insert (?v, ?l) (links val ?P))) (r \<circ> ?idf)"
        using P fresh by (intro labels_redundant [OF attach]) auto
      then have "scan_inv w val (Suc y) (Suc i) e M V r ?idf"
        using ok rest rest_img links unfolding scan_inv_def scanned_Suc [OF i(1)] by (simp only: simp_thms)
      then show ?thesis using same True gets same_root by (auto simp: merge_above_def)
    next
      case False
      let ?r = "\<lambda>k. if r k = r (idf ?u) then r (idf ?l) else r k"
      obtain e' M' where e': "MergePolygon e (int (idf ?u)) (int (idf ?l)) = Some e'" "enum_ok e' M' V ?r"
        "length M' = length M" "nConnectedness e' = nConnectedness e"
        using MergePolygon_ok [OF ok lt(2,1) eqv] by blast
      have "labels (insert ?v ?P) (insert (?u, ?v) (insert (?v, ?l) (links val ?P))) (?r \<circ> ?idf)"
        using P fresh by (intro labels_join [OF attach]) auto
      then have "labels (insert ?v ?P) (insert (?v, ?u) (insert (?v, ?l) (links val ?P))) (?r \<circ> ?idf)"
        by (rule labels_flip)
      then have "scan_inv w val (Suc y) (Suc i) e' M' V ?r ?idf"
        using e'(2,3) rest rest_img links unfolding scan_inv_def scanned_Suc [OF i(1)] by (simp only: simp_thms)
      then show ?thesis using same True gets False e'(1,4) by (auto simp: merge_above_def)
    qed
  qed
qed

text \<open>What a step of the scan gives: the new state, with the old ids unchanged.\<close>

definition scan_next ::
    "nat \<Rightarrow> (pixel \<Rightarrow> int) \<Rightarrow> nat \<Rightarrow> nat \<Rightarrow> pixel set \<Rightarrow> int \<Rightarrow> (pixel \<Rightarrow> nat) \<Rightarrow> nat
     \<Rightarrow> (GDALRasterPolygonEnumerator \<times> int slots) option \<Rightarrow> bool" where
  "scan_next w val y i P nConn idf len res =
     (\<exists>e ids M V r idf'. res = Some (e, ids) \<and> scan_inv w val y i e M V r idf' \<and>
        line_ids i idf' y ids \<and> length ids = len \<and> nConnectedness e = nConn \<and>
        (\<forall>p \<in> P. idf' p = idf p))"

lemma scan_nextI:
  "res = Some (e, ids) \<Longrightarrow> scan_inv w val y i e M V r idf' \<Longrightarrow> line_ids i idf' y ids \<Longrightarrow> length ids = len \<Longrightarrow>
    nConnectedness e = nConn \<Longrightarrow> (\<And>p. p \<in> P \<Longrightarrow> idf' p = idf p) \<Longrightarrow> scan_next w val y i P nConn idf len res"
  unfolding scan_next_def by blast

lemma next_line_pixel_ok:
  assumes inv: "scan_inv w val (Suc y) i e M V r idf" and i: "i < w" and lim: "Suc y * w + i < id_limit"
    and last: "line_values w val y lastVal" "line_ids w idf y lastId" and now: "line_values w val (Suc y) thisVal"
    and ids: "line_ids i idf (Suc y) ids" "w \<le> length ids" and conn: "nConnectedness e \<noteq> 8"
  shows "scan_next w val (Suc y) (Suc i) (scanned w (Suc y) i) (nConnectedness e) idf (length ids)
    (next_line_pixel lastVal thisVal lastId (int w) e ids (int i))" (is "scan_next _ _ _ _ _ _ _ _ ?pixel")
proof -
  let ?v = "(Suc y, i)" and ?l = "(Suc y, i - 1)" and ?u = "(y, i)"
  have fresh: "(idf(?v := c)) p = idf p" if "p \<in> scanned w (Suc y) i" for p c using that by (auto simp: scanned_def)
  have len: "i < length ids" using i ids(2) by simp
  have set: "\<exists>buf. arr_set ids (int i) (int c) = Some buf \<and> line_ids (Suc i) (idf(?v := c)) (Suc y) buf \<and> length buf = length ids" for c
    using arr_set_ids [OF ids(1) len] .
  have this_get: "arr_get thisVal (int i) = Some (val ?v)" using now i by simp
  have test: "same_value lastVal thisVal (int i) (int i) = Some (val ?u = val ?v)"
    using last(1) now i by (simp add: same_value_def)
  have left_test: "and_then (int i > 0) (same_value thisVal thisVal (int i - 1) (int i)) =
      Some (0 < i \<and> val ?l = val ?v)"
    using now i arr_get_line_left [OF now] by (auto simp: and_then_def same_value_def)
  show ?thesis
  proof (cases "0 < i \<and> val ?l = val ?v")
    case True
    then have pos: "0 < i" and eq: "val ?l = val ?v" by simp_all
    obtain e' M' r' where m: "merge_above lastVal thisVal e lastId (int (idf ?l)) (int i) = Some e'"
      "scan_inv w val (Suc y) (Suc i) e' M' V r' (idf(?v := idf ?l))" "nConnectedness e' = nConnectedness e"
      using scan_left [OF inv i pos eq last now] by blast
    obtain buf where buf: "arr_set ids (int i) (int (idf ?l)) = Some buf"
      "line_ids (Suc i) (idf(?v := idf ?l)) (Suc y) buf" "length buf = length ids" using set by blast
    have "?pixel = Some (e', buf)"
      using left_test True m(1) buf(1) arr_get_ids_left [OF ids(1) pos] by (simp add: next_line_pixel_def)
    from scan_nextI [OF this m(2) buf(2,3) m(3) fresh] show ?thesis .
  next
    case not_left: False
    then have no_left: "and_then (int i > 0) (same_value thisVal thisVal (int i - 1) (int i)) = Some False"
      unfolding left_test by (simp only: simp_thms)
    show ?thesis
    proof (cases "val ?u = val ?v")
      case True
      then have "{u \<in> nbrs ?v. val u = val ?v} = {?u}" using not_left by (auto simp: nbrs_def)
      note inv' = scan_copy [OF inv i this]
      obtain buf where buf: "arr_set ids (int i) (int (idf ?u)) = Some buf"
        "line_ids (Suc i) (idf(?v := idf ?u)) (Suc y) buf" "length buf = length ids" using set by blast
      have "?pixel = Some (e, buf)"
        using no_left test True buf(1) last(2) i by (simp add: next_line_pixel_def)
      from scan_nextI [OF this inv' buf(2,3) refl fresh] show ?thesis .
    next
      case False
      have "\<forall>u \<in> nbrs ?v. val u \<noteq> val ?v" using not_left False by (auto simp: nbrs_def)
      from scan_new [OF inv i lim this] obtain e' where e': "NewPolygon e (val ?v) = Some (int (length M), e')"
        "scan_inv w val (Suc y) (Suc i) e' (M @ [length M]) (V @ [val ?v]) (r(length M := length M)) (idf(?v := length M))"
        "nConnectedness e' = nConnectedness e" by blast
      obtain buf where buf: "arr_set ids (int i) (int (length M)) = Some buf"
        "line_ids (Suc i) (idf(?v := length M)) (Suc y) buf" "length buf = length ids" using set by blast
      have "?pixel = Some (e', buf)"
        using no_left test False conn this_get e'(1) buf(1) by (simp add: next_line_pixel_def and_then_def)
      from scan_nextI [OF this e'(2) buf(2,3) e'(3) fresh] show ?thesis .
    qed
  qed
qed

lemma first_line_pixel_ok:
  assumes inv: "scan_inv w val 0 i e M V r idf" and i: "i < w" and lim: "i < id_limit"
    and now: "line_values w val 0 thisVal" and ids: "line_ids i idf 0 ids" "w \<le> length ids"
  shows "scan_next w val 0 (Suc i) (scanned w 0 i) (nConnectedness e) idf (length ids)
    (first_line_pixel thisVal e ids (int i))" (is "scan_next _ _ _ _ _ _ _ _ ?pixel")
proof -
  let ?v = "(0, i)" and ?l = "(0, i - 1)"
  have fresh: "(idf(?v := c)) p = idf p" if "p \<in> scanned w 0 i" for p c using that by (auto simp: scanned_def)
  have len: "i < length ids" using i ids(2) by simp
  have set: "\<exists>buf. arr_set ids (int i) (int c) = Some buf \<and> line_ids (Suc i) (idf(?v := c)) 0 buf \<and> length buf = length ids" for c
    using arr_set_ids [OF ids(1) len] .
  have get: "arr_get thisVal (int i) = Some (val ?v)" using now i by simp
  have test: "(if int i = 0 then Some False else do { u \<leftarrow> arr_get thisVal (int i - 1); Some (val ?v = u) }) =
      Some (0 < i \<and> val ?l = val ?v)"
    using arr_get_line_left [OF now _ i] by auto
  show ?thesis
  proof (cases "0 < i \<and> val ?l = val ?v")
    case True
    then have "{u \<in> nbrs ?v. val u = val ?v} = {?l}" by (auto simp: nbrs_def)
    note inv' = scan_copy [OF inv i this]
    obtain buf where buf: "arr_set ids (int i) (int (idf ?l)) = Some buf"
      "line_ids (Suc i) (idf(?v := idf ?l)) 0 buf" "length buf = length ids" using set by blast
    have "?pixel = Some (e, buf)"
      using True arr_get_ids_left [OF ids(1)] buf(1)
      unfolding first_line_pixel_def get Option.bind.bind_lunit test by simp
    from scan_nextI [OF this inv' buf(2,3) refl fresh] show ?thesis .
  next
    case False
    have "\<forall>u \<in> nbrs ?v. val u \<noteq> val ?v" using False by (auto simp: nbrs_def)
    from scan_new [OF inv i _ this] lim obtain e' where e': "NewPolygon e (val ?v) = Some (int (length M), e')"
      "scan_inv w val 0 (Suc i) e' (M @ [length M]) (V @ [val ?v]) (r(length M := length M)) (idf(?v := length M))"
      "nConnectedness e' = nConnectedness e" by auto
    obtain buf where buf: "arr_set ids (int i) (int (length M)) = Some buf"
      "line_ids (Suc i) (idf(?v := length M)) 0 buf" "length buf = length ids" using set by blast
    have "?pixel = Some (e', buf)"
      using False e'(1) buf(1)
      unfolding first_line_pixel_def get Option.bind.bind_lunit test by simp
    from scan_nextI [OF this e'(2) buf(2,3) e'(3) fresh] show ?thesis .
  qed
qed

subsection \<open>Lines\<close>

lemma scanned_mono: "i \<le> j \<Longrightarrow> scanned w y i \<subseteq> scanned w y j"
  by (auto simp: scanned_def)

lemma line_ids_cong:
  "line_ids n idf y buf \<Longrightarrow> (\<And>x. x < n \<Longrightarrow> idf' (y, x) = idf (y, x)) \<Longrightarrow> line_ids n idf' y buf"
  by (simp add: line_ids_def)

lemma scan_next_trans:
  assumes "res = Some (e, ids)" and "scan_next w val y j P' nConn idf' len res'" and "P \<subseteq> P'"
    and "\<And>p. p \<in> P \<Longrightarrow> idf' p = idf p"
  shows "scan_next w val y j P nConn idf len res'"
  using assms unfolding scan_next_def by (metis subsetD)

lemma next_line_ok:
  assumes "scan_inv w val (Suc y) i e M V r idf" and "i + k = w" and lim: "Suc y * w + w \<le> id_limit"
    and last: "line_values w val y lastVal" "line_ids w idf y lastId" and now: "line_values w val (Suc y) thisVal"
    and "line_ids i idf (Suc y) ids" "w \<le> length ids" and "nConnectedness e \<noteq> 8"
  shows "scan_next w val (Suc y) w (scanned w (Suc y) i) (nConnectedness e) idf (length ids)
    (next_line lastVal thisVal lastId (int w) e ids (int i) k)"
  using assms(1,2,5,7-9)
proof (induction k arbitrary: i e M V r idf ids)
  case 0
  then have "i = w" by simp
  with scan_nextI [OF _ 0(1,4) refl refl] show ?case by simp
next
  case (Suc k)
  then have i: "i < w" "Suc i + k = w" by simp_all
  have "Suc y * w + i < id_limit" using lim i by simp
  note step = next_line_pixel_ok [OF Suc.prems(1) i(1) this last(1) Suc.prems(3) now Suc.prems(4-6)]
  then obtain e1 ids1 M1 V1 r1 idf1 where
    res: "next_line_pixel lastVal thisVal lastId (int w) e ids (int i) = Some (e1, ids1)" and
    one: "scan_inv w val (Suc y) (Suc i) e1 M1 V1 r1 idf1" "line_ids (Suc i) idf1 (Suc y) ids1"
      "length ids1 = length ids" "nConnectedness e1 = nConnectedness e" and
    old: "\<forall>p \<in> scanned w (Suc y) i. idf1 p = idf p"
    unfolding scan_next_def by blast
  have "line_ids w idf1 y lastId"
    using Suc.prems(3) by (rule line_ids_cong) (use old in \<open>auto simp: scanned_def\<close>)
  then have "scan_next w val (Suc y) w (scanned w (Suc y) (Suc i)) (nConnectedness e1) idf1 (length ids1)
      (next_line lastVal thisVal lastId (int w) e1 ids1 (int (Suc i)) k)"
    using Suc.IH [OF one(1) i(2), of ids1] one Suc.prems(5,6) by simp
  then have "scan_next w val (Suc y) w (scanned w (Suc y) i) (nConnectedness e) idf (length ids)
      (next_line lastVal thisVal lastId (int w) e1 ids1 (int (Suc i)) k)"
    using scan_next_trans [OF res _ scanned_mono] old one(3,4) by simp
  then show ?case using res by (simp add: add.commute)
qed

lemma first_line_ok:
  assumes "scan_inv w val 0 i e M V r idf" and "i + k = w" and lim: "w \<le> id_limit"
    and now: "line_values w val 0 thisVal" and "line_ids i idf 0 ids" "w \<le> length ids"
  shows "scan_next w val 0 w (scanned w 0 i) (nConnectedness e) idf (length ids)
    (first_line thisVal e ids (int i) k)"
  using assms(1,2,5,6)
proof (induction k arbitrary: i e M V r idf ids)
  case 0
  then have "i = w" by simp
  with scan_nextI [OF _ 0(1,3) refl refl] show ?case by simp
next
  case (Suc k)
  then have i: "i < w" "Suc i + k = w" by simp_all
  have "i < id_limit" using lim i by simp
  note step = first_line_pixel_ok [OF Suc.prems(1) i(1) this now Suc.prems(3,4)]
  then obtain e1 ids1 M1 V1 r1 idf1 where
    res: "first_line_pixel thisVal e ids (int i) = Some (e1, ids1)" and
    one: "scan_inv w val 0 (Suc i) e1 M1 V1 r1 idf1" "line_ids (Suc i) idf1 0 ids1"
      "length ids1 = length ids" "nConnectedness e1 = nConnectedness e" and
    old: "\<forall>p \<in> scanned w 0 i. idf1 p = idf p"
    unfolding scan_next_def by blast
  have "scan_next w val 0 w (scanned w 0 (Suc i)) (nConnectedness e1) idf1 (length ids1)
      (first_line thisVal e1 ids1 (int (Suc i)) k)"
    using Suc.IH [OF one(1) i(2), of ids1] one Suc.prems(4) by simp
  then have "scan_next w val 0 w (scanned w 0 i) (nConnectedness e) idf (length ids)
      (first_line thisVal e1 ids1 (int (Suc i)) k)"
    using scan_next_trans [OF res _ scanned_mono] old one(3,4) by simp
  then show ?case using res by (simp add: add.commute)
qed

text \<open>A call of \<open>ProcessLine\<close>, for the first line and for a later one.\<close>

lemma ProcessLine_first:
  assumes "w \<le> id_limit" and "line_values w val 0 thisVal" and "w \<le> length ids"
  shows "scan_next w val 0 w {} nConn idf (length ids)
    (ProcessLine (GDALRasterPolygonEnumerator_new nConn) None thisVal lastId ids (int w))"
proof -
  let ?e = "GDALRasterPolygonEnumerator_new nConn"
  have "scan_inv w val 0 0 ?e [] [] (\<lambda>i. i) idf"
    using enum_ok_new by (simp add: scan_inv_def scanned_start labels_def links_def)
  moreover have "line_ids 0 idf 0 ids" by (simp add: line_ids_def)
  moreover have "nConnectedness ?e = nConn" by (simp add: GDALRasterPolygonEnumerator_new_def)
  ultimately show ?thesis
    using first_line_ok [of w val 0 ?e _ _ _ idf w thisVal ids] assms
    by (simp add: ProcessLine_def scanned_start)
qed

lemma ProcessLine_next:
  assumes "scan_inv w val y w e M V r idf" and "(y + 2) * w \<le> id_limit"
    and "line_values w val y lastVal" "line_ids w idf y lastId" and "line_values w val (Suc y) thisVal"
    and "w \<le> length ids" and "nConnectedness e \<noteq> 8"
  shows "scan_next w val (Suc y) w (scanned w y w) (nConnectedness e) idf (length ids)
    (ProcessLine e (Some lastVal) thisVal lastId ids (int w))"
proof -
  have "scan_inv w val (Suc y) 0 e M V r idf"
    using assms(1) by (simp add: scan_inv_def scanned_line add.commute)
  moreover have "line_ids 0 idf (Suc y) ids" by (simp add: line_ids_def)
  ultimately show ?thesis
    using next_line_ok [of w val y 0 e M V r idf w lastVal lastId thisVal ids] assms
    by (simp add: ProcessLine_def scanned_line algebra_simps)
qed

section \<open>The regions of a raster\<close>

text \<open>A raster is the list of its lines, all of one length.  Two pixels are adjacent if one is
  directly above, below or beside the other; a region is a class of pixels connected by adjacent
  pixels of one value.\<close>

type_synonym raster = "int list list"

definition pixels :: "nat \<Rightarrow> nat \<Rightarrow> pixel set" where
  "pixels w h = {(y, x). y < h \<and> x < w}"

definition pixel_value :: "raster \<Rightarrow> pixel \<Rightarrow> int" where
  "pixel_value img = (\<lambda>(y, x). img ! y ! x)"

definition adjacent4 :: "pixel \<Rightarrow> pixel \<Rightarrow> bool" where
  "adjacent4 = (\<lambda>(y, x) (y', x'). \<bar>int y - int y'\<bar> + \<bar>int x - int x'\<bar> = 1)"

definition same_region :: "raster \<Rightarrow> nat \<Rightarrow> nat \<Rightarrow> (pixel \<times> pixel) set" where
  "same_region img w h =
     {(p, q). p \<in> pixels w h \<and> q \<in> pixels w h \<and> adjacent4 p q \<and> pixel_value img p = pixel_value img q}\<^sup>*"

lemma scanned_pixels: "scanned w h 0 = pixels w h"
  by (auto simp: scanned_def pixels_def)

lemma nbrs_iff: "(y', x') \<in> nbrs (y, x) \<longleftrightarrow> y' = y \<and> x = Suc x' \<or> x' = x \<and> y = Suc y'"
  unfolding nbrs_def by (cases x; cases y) auto

lemma adjacent4_iff:
  "adjacent4 (y, x) (y', x') \<longleftrightarrow>
    y' = y \<and> (x = Suc x' \<or> x' = Suc x) \<or> x' = x \<and> (y = Suc y' \<or> y' = Suc y)"
  unfolding adjacent4_def prod.case by presburger

lemma adjacent4_nbrs: "adjacent4 p q \<longleftrightarrow> q \<in> nbrs p \<or> p \<in> nbrs q"
  by (cases p; cases q) (simp only: adjacent4_iff nbrs_iff, blast)

lemma same_region_gen: "same_region img w h = gen (links (pixel_value img) (pixels w h))"
proof -
  have "{(p, q). p \<in> pixels w h \<and> q \<in> pixels w h \<and> adjacent4 p q \<and> pixel_value img p = pixel_value img q} =
      links (pixel_value img) (pixels w h) \<union> (links (pixel_value img) (pixels w h))\<inverse>"
    by (auto simp: links_def adjacent4_nbrs)
  then show ?thesis unfolding same_region_def gen_def by (rule arg_cong)
qed

text \<open>Line after line, as the clients of the enumerator run it: the ids of every line and the
  enumerator at the end.\<close>

fun process_lines ::
    "GDALRasterPolygonEnumerator \<Rightarrow> nat \<Rightarrow> (int slots \<times> int slots) option \<Rightarrow> int slots list
     \<Rightarrow> (GDALRasterPolygonEnumerator \<times> int slots list) option" where
  "process_lines e w prev [] = Some (e, [])"
| "process_lines e w prev (v # vs) = do {
     (e1, ids) \<leftarrow> ProcessLine e (map_option fst prev) v (case prev of None \<Rightarrow> [] | Some (_, l) \<Rightarrow> l)
                  (replicate w None) (int w);
     (e2, rest) \<leftarrow> process_lines e1 w (Some (v, ids)) vs;
     Some (e2, ids # rest)
   }"

definition enumerate_raster :: "int \<Rightarrow> nat \<Rightarrow> raster \<Rightarrow> (GDALRasterPolygonEnumerator \<times> int slots list) option" where
  "enumerate_raster nConn w img =
     process_lines (GDALRasterPolygonEnumerator_new nConn) w None (map (map Some) img)"

text \<open>The final id of a pixel.\<close>

definition polygon_at ::
    "GDALRasterPolygonEnumerator \<Rightarrow> int slots list \<Rightarrow> pixel \<Rightarrow> int option" where
  "polygon_at e ids = (\<lambda>(y, x). Option.bind (arr_get (ids ! y) (int x)) (arr_get (panPolyIdMap e)))"

definition is_raster :: "nat \<Rightarrow> raster \<Rightarrow> bool" where
  "is_raster w img = ((\<forall>l \<in> set img. length l = w) \<and> length img * w \<le> id_limit)"

lemma line_values_raster:
  assumes "is_raster w img" and "y < length img"
  shows "line_values w (pixel_value img) y (map Some (img ! y))"
  using assms nth_mem [OF assms(2)] by (simp add: line_values_def pixel_value_def is_raster_def)

lemma process_lines_ok:
  assumes "scan_inv w val y w e M V r idf" and "line_values w val y lastVal" and "line_ids w idf y lastId"
    and "nConnectedness e \<noteq> 8" and "(y + Suc (length vs)) * w \<le> id_limit"
    and "\<forall>k < length vs. line_values w val (Suc y + k) (vs ! k)"
  shows "\<exists>e' idss M' V' r' idf'. process_lines e w (Some (lastVal, lastId)) vs = Some (e', idss) \<and>
    scan_inv w val (y + length vs) w e' M' V' r' idf' \<and> length idss = length vs \<and>
    (\<forall>k < length vs. line_ids w idf' (Suc y + k) (idss ! k)) \<and> (\<forall>p \<in> scanned w y w. idf' p = idf p) \<and>
    nConnectedness e' = nConnectedness e"
  using assms
proof (induction vs arbitrary: y e M V r idf lastVal lastId)
  case Nil
  then show ?case by auto
next
  case (Cons v vs)
  have v: "line_values w val (Suc y) v" using Cons.prems(6) by force
  have "(y + 2) * w \<le> (y + Suc (length (v # vs))) * w" by (rule mult_le_mono1) simp
  then have lim: "(y + 2) * w \<le> id_limit" using Cons.prems(5) by linarith
  obtain e1 ids M1 V1 r1 idf1 where
    res: "ProcessLine e (Some lastVal) v lastId (replicate w None) (int w) = Some (e1, ids)" and
    one: "scan_inv w val (Suc y) w e1 M1 V1 r1 idf1" "line_ids w idf1 (Suc y) ids" "nConnectedness e1 = nConnectedness e" and
    old: "\<forall>p \<in> scanned w y w. idf1 p = idf p"
    using ProcessLine_next [OF Cons.prems(1) lim Cons.prems(2,3) v, of "replicate w None"] Cons.prems(4)
    unfolding scan_next_def by auto
  have rest: "\<forall>k < length vs. line_values w val (Suc (Suc y) + k) (vs ! k)"
    using Cons.prems(6) by force
  have "nConnectedness e1 \<noteq> 8" "(Suc y + Suc (length vs)) * w \<le> id_limit"
    using Cons.prems(4,5) one(3) by simp_all
  from Cons.IH [OF one(1) v one(2) this rest] obtain e' idss M' V' r' idf' where
    all: "process_lines e1 w (Some (v, ids)) vs = Some (e', idss)" "scan_inv w val (Suc y + length vs) w e' M' V' r' idf'"
    "length idss = length vs" "\<forall>k < length vs. line_ids w idf' (Suc (Suc y) + k) (idss ! k)"
    "\<forall>p \<in> scanned w (Suc y) w. idf' p = idf1 p" "nConnectedness e' = nConnectedness e1"
    by blast
  have "line_ids w idf' (Suc y) ids"
    using one(2) by (rule line_ids_cong) (use all(5) in \<open>auto simp: scanned_def\<close>)
  then have "\<forall>k < length (v # vs). line_ids w idf' (Suc y + k) ((ids # idss) ! k)"
    using all(4) by (auto simp: less_Suc_eq_0_disj)
  moreover have "\<forall>p \<in> scanned w y w. idf' p = idf p"
    using all(5) old by (auto simp: scanned_def)
  ultimately show ?case using res all one(3) by (auto intro!: exI [of _ idf'])
qed

lemma enumerate_ok:
  assumes "is_raster w img" and "img \<noteq> []" and "nConn \<noteq> 8"
  shows "\<exists>e ids M V r idf. enumerate_raster nConn w img = Some (e, ids) \<and>
    scan_inv w (pixel_value img) (length img) 0 e M V r idf \<and> length ids = length img \<and>
    (\<forall>y < length img. line_ids w idf y (ids ! y))"
proof -
  obtain l ls where img: "img = l # ls" using assms(2) by (cases img) auto
  let ?val = "pixel_value img"
  have lim: "length img * w \<le> id_limit" using assms(1) by (simp add: is_raster_def)
  have l: "line_values w ?val 0 (map Some l)" using line_values_raster [OF assms(1), of 0] img by simp
  have "w \<le> id_limit" using lim img by simp
  from ProcessLine_first [OF this l, of "replicate w None" nConn "\<lambda>p. 0" "[]"] obtain e1 ids1 M1 V1 r1 idf1 where
    one: "ProcessLine (GDALRasterPolygonEnumerator_new nConn) None (map Some l) [] (replicate w None) (int w) = Some (e1, ids1)"
      "scan_inv w ?val 0 w e1 M1 V1 r1 idf1" "line_ids w idf1 0 ids1" "nConnectedness e1 = nConn"
    unfolding scan_next_def by auto
  have "\<forall>k < length (map (map Some) ls). line_values w ?val (Suc 0 + k) (map (map Some) ls ! k)"
    using line_values_raster [OF assms(1)] img by force
  from process_lines_ok [OF one(2) l one(3) _ _ this] one(4) assms(3) lim img
  obtain e ids M V r idf where
    all: "process_lines e1 w (Some (map Some l, ids1)) (map (map Some) ls) = Some (e, ids)"
    "scan_inv w ?val (length ls) w e M V r idf" "length ids = length ls"
    "\<forall>k < length ls. line_ids w idf (Suc k) (ids ! k)" "\<forall>p \<in> scanned w 0 w. idf p = idf1 p"
    by auto
  have "line_ids w idf 0 ids1"
    using one(3) by (rule line_ids_cong) (use all(5) in \<open>auto simp: scanned_def\<close>)
  then have "\<forall>y < length img. line_ids w idf y ((ids1 # ids) ! y)"
    using all(4) img by (auto simp: less_Suc_eq_0_disj)
  moreover have "scan_inv w ?val (length img) 0 e M V r idf"
    using all(2) by (simp add: scan_inv_def scanned_line img add.commute)
  moreover have "enumerate_raster nConn w img = Some (e, ids1 # ids)"
    using one(1) all(1) img by (simp add: enumerate_raster_def)
  ultimately show ?thesis using all(3) img by fastforce
qed

text \<open>Labels count the classes.\<close>

lemma card_labels:
  assumes "finite P" and "labels P R lab"
  shows "card (lab ` P) = card (P // (gen R \<inter> P \<times> P))"
proof -
  let ?E = "gen R \<inter> P \<times> P"
  have eq: "lab p = lab q \<longleftrightarrow> ?E `` {p} = ?E `` {q}" if "p \<in> P" "q \<in> P" for p q
  proof
    assume "lab p = lab q"
    then have "(p, q) \<in> gen R" using labelsD [OF assms(2)] that by simp
    then show "?E `` {p} = ?E `` {q}" using that by (auto intro: gen_trans gen_sym)
  next
    assume "?E `` {p} = ?E `` {q}"
    moreover have "q \<in> ?E `` {q}" using that by simp
    ultimately have "(p, q) \<in> gen R" by blast
    then show "lab p = lab q" using labelsD [OF assms(2)] that by simp
  qed
  have "card (lab ` P) = card ((\<lambda>p. ?E `` {p}) ` P)"
  proof (rule bij_betw_same_card)
    show "bij_betw (\<lambda>l. ?E `` {SOME p. p \<in> P \<and> lab p = l}) (lab ` P) ((\<lambda>p. ?E `` {p}) ` P)"
    proof (rule bij_betw_imageI)
      have some: "(SOME q. q \<in> P \<and> lab q = lab p) \<in> P \<and> lab (SOME q. q \<in> P \<and> lab q = lab p) = lab p" if "p \<in> P" for p
        by (rule someI [of _ p]) (use that in simp)
      then have pick: "?E `` {SOME q. q \<in> P \<and> lab q = lab p} = ?E `` {p}" if "p \<in> P" for p
        using eq that by blast
      show "inj_on (\<lambda>l. ?E `` {SOME p. p \<in> P \<and> lab p = l}) (lab ` P)"
        by (rule inj_onI) (use pick eq in \<open>auto\<close>)
      show "(\<lambda>l. ?E `` {SOME p. p \<in> P \<and> lab p = l}) ` lab ` P = (\<lambda>p. ?E `` {p}) ` P"
        unfolding image_image by (rule image_cong) (use pick in auto)
    qed
  qed
  then show ?thesis by (simp add: quotient_def UNION_singleton_eq_range)
qed

lemma finite_pixels: "finite (pixels w h)"
proof -
  have "pixels w h = {..<h} \<times> {..<w}" by (auto simp: pixels_def)
  then show ?thesis by simp
qed

text \<open>The numbers of the roots are the labels of the pixels.\<close>

lemma final_ids:
  assumes "scan_inv w (pixel_value img) h 0 e M V r idf" and "length ids = h"
    and "\<forall>y < h. line_ids w idf y (ids ! y)" and "CompleteMerges e = Some (e', c)"
    and "enum_ok e' (map r [0..<length M]) V r" and "p \<in> pixels w h"
  shows "polygon_at e' ids p = Some (int (r (idf p)))"
    and "arr_get (panPolyValue e') (int (r (idf p))) = Some (pixel_value img p)"
proof -
  obtain y x where p: "p = (y, x)" "y < h" "x < w" using assms(6) by (auto simp: pixels_def)
  have ok: "enum_ok e M V r" and id: "idf p < length M" "V ! idf p = pixel_value img p"
    using assms(1,6) scanned_pixels by (auto simp: scan_inv_def)
  have f: "forest M r" using ok by (simp add: enum_ok_def)
  have "arr_get (ids ! y) (int x) = Some (int (idf p))"
    using arr_get_ids [of w idf y "ids ! y" x] assms(3) p by simp
  moreover have "idmap_of (map r [0..<length M]) (panPolyIdMap e')" using assms(5) by (simp add: enum_ok_def)
  then have "arr_get (panPolyIdMap e') (int (idf p)) = Some (int (r (idf p)))"
    using arr_get_idmap [of _ _ "idf p"] id(1) by simp
  ultimately show "polygon_at e' ids p = Some (int (r (idf p)))" by (simp add: polygon_at_def p)
  have "values_of V (panPolyValue e')" "length V = length M" using assms(5) by (simp_all add: enum_ok_def)
  then show "arr_get (panPolyValue e') (int (r (idf p))) = Some (pixel_value img p)"
    using forestD(2) [OF f id(1)] root_value [OF ok id(1)] id(2) by simp
qed

text \<open>
  C7.  The enumerator finds the regions of a raster.  For 4-connectedness and every raster of fewer
  than \<open>2\<^sup>28 - 10\<close> pixels, running \<open>ProcessLine\<close> over its lines and then \<open>CompleteMerges\<close> never
  faults and ends, two pixels have the same final id exactly if adjacent pixels of one value
  connect them, the value kept for an id is that of its pixels, and the number of polygons counted
  is the number of regions.
\<close>

theorem enumerator_finds_regions:
  assumes "is_raster w img"
  shows "\<exists>e ids e' c. enumerate_raster 4 w img = Some (e, ids) \<and> CompleteMerges e = Some (e', c) \<and>
    (\<forall>p \<in> pixels w (length img). \<forall>q \<in> pixels w (length img).
       polygon_at e' ids p = polygon_at e' ids q \<longleftrightarrow> (p, q) \<in> same_region img w (length img)) \<and>
    (\<forall>p \<in> pixels w (length img).
       Option.bind (polygon_at e' ids p) (arr_get (panPolyValue e')) = Some (pixel_value img p)) \<and>
    c = int (card (pixels w (length img) //
               (same_region img w (length img) \<inter> pixels w (length img) \<times> pixels w (length img))))"
proof (cases "img = []")
  case True
  obtain e' where e': "CompleteMerges (GDALRasterPolygonEnumerator_new 4) = Some (e', 0)"
    using CompleteMerges_ok [OF enum_ok_new [of 4]] by auto
  have "enumerate_raster 4 w [] = Some (GDALRasterPolygonEnumerator_new 4, [])" by (simp add: enumerate_raster_def)
  with e' show ?thesis by (simp add: True pixels_def)
next
  case False
  let ?h = "length img" and ?val = "pixel_value img"
  let ?P = "pixels w ?h"
  obtain e ids M V r idf where en: "enumerate_raster 4 w img = Some (e, ids)" "scan_inv w ?val ?h 0 e M V r idf"
    "length ids = ?h" "\<forall>y < ?h. line_ids w idf y (ids ! y)"
    using enumerate_ok [OF assms False, of 4] by auto
  have ok: "enum_ok e M V r" and lab: "labels ?P (links ?val ?P) (r \<circ> idf)" and img: "idf ` ?P = {..<length M}"
    using en(2) scanned_pixels by (simp_all add: scan_inv_def)
  obtain e' c where c: "CompleteMerges e = Some (e', c)" "enum_ok e' (map r [0..<length M]) V r"
    "c = int (card {i. i < length M \<and> r i = i})"
    using CompleteMerges_ok [OF ok] by blast
  note final = final_ids [OF en(2-4) c(1,2)]
  have f: "forest M r" using ok by (simp add: enum_ok_def)
  have "{i. i < length M \<and> r i = i} = r ` {..<length M}"
    using forestD(2,6) [OF f] by (auto intro!: image_eqI [of _ r])
  then have "{i. i < length M \<and> r i = i} = (r \<circ> idf) ` ?P"
    unfolding image_comp [symmetric] img .
  then have card: "c = int (card (?P // (gen (links ?val ?P) \<inter> ?P \<times> ?P)))"
    using c(3) card_labels [OF finite_pixels lab] by simp
  have "polygon_at e' ids p = polygon_at e' ids q \<longleftrightarrow> (p, q) \<in> same_region img w ?h"
    if "p \<in> ?P" "q \<in> ?P" for p q
    using labelsD [OF lab that] final(1) that by (simp add: same_region_gen)
  with en(1) c(1) card final show ?thesis
    by (simp add: same_region_gen)
qed

theorem enumerator_finds_regions_witness:
  "let img = [[1, 0, 1], [1, 1, 1]] in
   \<exists>e ids e' c. enumerate_raster 4 3 img = Some (e, ids) \<and> CompleteMerges e = Some (e', c) \<and>
    (\<forall>p \<in> pixels 3 2. \<forall>q \<in> pixels 3 2.
       polygon_at e' ids p = polygon_at e' ids q \<longleftrightarrow> (p, q) \<in> same_region img 3 2)"
proof -
  have "is_raster 3 [[1, 0, 1], [1, 1, 1]]" by (simp add: is_raster_def id_limit_def)
  moreover have "length [[1, 0, 1], [1, 1, 1 :: int]] = 2" by simp
  ultimately show ?thesis
    unfolding Let_def using enumerator_finds_regions [of 3 "[[1, 0, 1], [1, 1, 1]]"] by (simp only:) blast
qed

section \<open>Where it does not work\<close>

lemma complete_one_root: "arr_get m i = Some i \<Longrightarrow> complete_one m i = Some m"
  by (subst complete_one.simps) simp

text \<open>
  For 8-connectedness the enumerator misses links.  A pixel that takes the id of the pixel
  above it on the left is not merged with the one above it on the right: in this raster of two
  lines the three pixels of value 1 form one 8-connected region, but the last of them gets a
  polygon of its own.
\<close>

theorem enumerator_splits_8_connected_region:
  "let img = [[1, 0, 1], [0, 1, 0]] in
   (\<exists>e ids e' c. enumerate_raster 8 3 img = Some (e, ids) \<and> CompleteMerges e = Some (e', c) \<and>
      pixel_value img (0, 0) = pixel_value img (1, 1) \<and> pixel_value img (1, 1) = pixel_value img (0, 2) \<and>
      polygon_at e' ids (0, 0) = polygon_at e' ids (1, 1) \<and>
      polygon_at e' ids (1, 1) \<noteq> polygon_at e' ids (0, 2))"
proof -
  let ?e = "\<lparr>panPolyIdMap = map Some [0, 1, 2] @ replicate 17 None, panPolyValue = map Some [1, 0, 1] @ replicate 17 None,
      nNextPolygonId = 3, nPolyAlloc = 20, nConnectedness = 8\<rparr>"
  have "enumerate_raster 8 3 [[1, 0, 1], [0, 1, 0]] =
      Some (?e, [map Some [0, 1, 2], map Some [1, 0, 1]])"
    by code_simp
  moreover have "CompleteMerges ?e = Some (?e, 3)"
    by (simp add: CompleteMerges_def complete_one_root arr_get_def numeral_3_eq_3)
  ultimately show ?thesis
    by (simp add: polygon_at_def arr_get_def pixel_value_def)
qed

end
