(* ===== verification/Sieve_Facts.thy ===== *)
theory Sieve_Facts
  imports Sieve Polygon_Facts
begin

text \<open>
  The sieve filter does what it promises for 4-connectedness: every pixel of a polygon below the
  threshold that has a neighbour polygon of at least the threshold gets the value of a largest
  neighbour; every other pixel keeps its value.
\<close>

section \<open>The ids do not depend on what the buffer held\<close>

text \<open>Two runs of a loop over a line, on buffers that agree before column \<open>i\<close>, do the same and end
  with buffers that agree as far as they were written.\<close>

definition agree :: "nat \<Rightarrow> 'a slots \<Rightarrow> 'a slots \<Rightarrow> bool" where
  "agree n a b = (length a = length b \<and> take n a = take n b)"

definition same_run :: "nat \<Rightarrow> ('e \<times> 'a slots) option \<Rightarrow> ('e \<times> 'a slots) option \<Rightarrow> bool" where
  "same_run n = rel_option (\<lambda>(e, a) (e', b). e = e' \<and> agree n a b)"

lemma same_run_simps [simp]:
  "same_run n None None" "\<not> same_run n None (Some x)" "\<not> same_run n (Some x) None"
  "same_run n (Some (e, a)) (Some (e', b)) \<longleftrightarrow> e = e' \<and> agree n a b"
  by (auto simp: same_run_def)

lemma same_run_bind:
  assumes "same_run n x y" and "\<And>e a b. agree n a b \<Longrightarrow> same_run m (f (e, a)) (g (e, b))"
  shows "same_run m (Option.bind x f) (Option.bind y g)"
  using assms unfolding same_run_def by (cases x; cases y) auto

lemma same_run_bind_same:
  assumes "\<And>z. same_run m (f z) (g z)"
  shows "same_run m (Option.bind x f) (Option.bind x g)"
  using assms by (cases x) auto

lemma agree_get:
  assumes "agree n a b" and "j < int n"
  shows "arr_get a j = arr_get b j"
proof (cases "0 \<le> j")
  case True
  then obtain k where k: "j = int k" by (metis nonneg_int_cases)
  with assms have "k < n" by simp
  have "arr_get x j = (if k < length x then x ! k else None)" for x :: "'a slots" by (simp add: arr_get_def k)
  then show ?thesis using assms(1) \<open>k < n\<close> by (metis agree_def nth_take)
qed (simp add: arr_get_def)

lemma agree_set: "agree n a b \<Longrightarrow> same_run (Suc n) (map_option (Pair e) (arr_set a (int n) v)) (map_option (Pair e) (arr_set b (int n) v))"
  by (auto simp: agree_def arr_set_def take_Suc_conv_app_nth take_update_cancel)

lemma agree_set_bind:
  assumes "agree n a b"
  shows "same_run (Suc n) (Option.bind (arr_set a (int n) v) (\<lambda>x. Some (e, x))) (Option.bind (arr_set b (int n) v) (\<lambda>x. Some (e, x)))"
proof -
  have "Option.bind x (\<lambda>x. Some (e, x)) = map_option (Pair e) x" for x :: "'a slots option" by (cases x) auto
  with agree_set [OF assms] show ?thesis by simp
qed

lemma first_line_pixel_buffer:
  assumes "agree n a b"
  shows "same_run (Suc n) (first_line_pixel vals e a (int n)) (first_line_pixel vals e b (int n))"
  unfolding first_line_pixel_def agree_get [OF assms, of "int n - 1", simplified]
  by (intro same_run_bind_same) (auto intro!: same_run_bind_same agree_set_bind [OF assms])

lemma next_line_pixel_buffer:
  assumes "agree n a b"
  shows "same_run (Suc n) (next_line_pixel lv tv li w e a (int n)) (next_line_pixel lv tv li w e b (int n))"
proof -
  have set: "same_run (Suc n) (Option.bind (arr_set a (int n) v) (\<lambda>ids. Option.bind m (\<lambda>e1. Some (e1, ids))))
      (Option.bind (arr_set b (int n) v) (\<lambda>ids. Option.bind m (\<lambda>e1. Some (e1, ids))))" for v m
    using agree_set_bind [OF assms] by (cases m) (auto simp: bind_eq_None_conv intro!: same_run_bind_same)
  show ?thesis
    unfolding next_line_pixel_def agree_get [OF assms, of "int n - 1", simplified]
    by (intro same_run_bind_same) (auto intro!: same_run_bind_same agree_set_bind [OF assms] set)
qed

lemma first_line_buffer:
  "agree n a b \<Longrightarrow> same_run (n + k) (first_line vals e a (int n) k) (first_line vals e b (int n) k)"
proof (induction k arbitrary: n e a b)
  case (Suc k)
  have "same_run (Suc n + k) (first_line vals e1 a1 (int n + 1) k) (first_line vals e1 b1 (int n + 1) k)"
    if "agree (Suc n) a1 b1" for e1 a1 b1
    using Suc.IH [OF that] by (simp add: add.commute)
  then show ?case
    unfolding first_line.simps add_Suc_right add_Suc [symmetric]
    by (intro same_run_bind [OF first_line_pixel_buffer [OF Suc.prems]]) simp
qed simp

lemma next_line_buffer:
  "agree n a b \<Longrightarrow>
    same_run (n + k) (next_line lv tv li w e a (int n) k) (next_line lv tv li w e b (int n) k)"
proof (induction k arbitrary: n e a b)
  case (Suc k)
  have "same_run (Suc n + k) (next_line lv tv li w e1 a1 (int n + 1) k) (next_line lv tv li w e1 b1 (int n + 1) k)"
    if "agree (Suc n) a1 b1" for e1 a1 b1
    using Suc.IH [OF that] by (simp add: add.commute)
  then show ?case
    unfolding next_line.simps add_Suc_right add_Suc [symmetric]
    by (intro same_run_bind [OF next_line_pixel_buffer [OF Suc.prems]]) simp
qed simp

lemma ProcessLine_buffer:
  assumes "length a = w" and "length b = w" and "ProcessLine e lv tv li a (int w) = Some (e', ids)"
    and "length ids = w"
  shows "ProcessLine e lv tv li b (int w) = Some (e', ids)"
proof -
  have ab: "agree 0 a b" using assms(1,2) by (simp add: agree_def)
  have "same_run w (ProcessLine e lv tv li a (int w)) (ProcessLine e lv tv li b (int w))"
    using first_line_buffer [OF ab, of w] next_line_buffer [OF ab, of w] by (simp add: ProcessLine_def split: option.split)
  with assms(3,4) show ?thesis
    by (cases "ProcessLine e lv tv li b (int w)") (auto simp: agree_def)
qed

section \<open>The run all three passes repeat\<close>

text \<open>The enumerator before line \<open>y\<close>, and the ids of the line before it.\<close>

fun run_state :: "nat \<Rightarrow> raster \<Rightarrow> nat \<Rightarrow> (GDALRasterPolygonEnumerator \<times> int slots) option" where
  "run_state w img 0 = Some (GDALRasterPolygonEnumerator_new 4, [])"
| "run_state w img (Suc y) = do {
     (e, ids) \<leftarrow> run_state w img y;
     ProcessLine e (if y = 0 then None else Some (map Some (img ! (y - 1)))) (map Some (img ! y)) ids
       (replicate w None) (int w)
   }"

text \<open>\<open>run_at w img idf y e ids M V r\<close>: that state, with the ids \<open>idf\<close> of the pixels.\<close>

definition run_at ::
    "nat \<Rightarrow> raster \<Rightarrow> (pixel \<Rightarrow> nat) \<Rightarrow> nat \<Rightarrow> GDALRasterPolygonEnumerator \<Rightarrow> int slots \<Rightarrow> nat list \<Rightarrow> int list
     \<Rightarrow> (nat \<Rightarrow> nat) \<Rightarrow> bool" where
  "run_at w img idf y e ids M V r =
     (run_state w img y = Some (e, ids) \<and> scan_inv w (pixel_value img) y 0 e M V r idf \<and>
      nConnectedness e = 4 \<and> (0 < y \<longrightarrow> line_ids w idf (y - 1) ids \<and> length ids = w))"

lemma scan_inv_cong:
  assumes "scan_inv w val y i e M V r idf" and "\<And>p. p \<in> scanned w y i \<Longrightarrow> idf' p = idf p"
  shows "scan_inv w val y i e M V r idf'"
proof -
  have "labels (scanned w y i) (links val (scanned w y i)) (r \<circ> idf)"
    using assms(1) by (simp only: scan_inv_def)
  then have "labels (scanned w y i) (links val (scanned w y i)) (r \<circ> idf')"
    by (rule labels_cong) (simp add: assms(2))
  moreover have "idf' ` scanned w y i = idf ` scanned w y i" by (rule image_cong) (use assms(2) in auto)
  ultimately show ?thesis using assms unfolding scan_inv_def by (auto simp only:)
qed

lemma run_at_cong:
  assumes "run_at w img idf y e ids M V r" and "\<And>p. p \<in> scanned w y 0 \<Longrightarrow> idf' p = idf p"
  shows "run_at w img idf' y e ids M V r"
  using assms scan_inv_cong [of w "pixel_value img" y 0 e M V r idf idf']
  by (auto simp: run_at_def line_ids_def scanned_def)

lemma run_at_Suc:
  assumes "is_raster w img" and "y < length img" and "run_at w img idf y e ids M V r"
  shows "\<exists>e' ids' M' V' r' idf'. run_at w img idf' (Suc y) e' ids' M' V' r' \<and>
    (\<forall>p \<in> scanned w y 0. idf' p = idf p)"
proof -
  let ?val = "pixel_value img"
  have now: "line_values w ?val y (map Some (img ! y))" using assms by (intro line_values_raster) auto
  have "(Suc y) * w \<le> length img * w" using assms(2) by (intro mult_le_mono1) simp
  then have lim: "Suc y * w \<le> id_limit" using assms(1) by (simp add: is_raster_def)
  have run: "run_state w img y = Some (e, ids)" and inv: "scan_inv w ?val y 0 e M V r idf"
    and conn: "nConnectedness e = 4" and last: "0 < y \<Longrightarrow> line_ids w idf (y - 1) ids"
    using assms(3) by (simp_all add: run_at_def)
  obtain e' ids' M' V' r' idf' where
    res: "ProcessLine e (if y = 0 then None else Some (map Some (img ! (y - 1)))) (map Some (img ! y)) ids
       (replicate w None) (int w) = Some (e', ids')" "scan_inv w ?val y w e' M' V' r' idf'" "line_ids w idf' y ids'"
      "length ids' = w" "nConnectedness e' = 4" "\<forall>p \<in> scanned w y 0. idf' p = idf p"
  proof (cases y)
    case 0
    then have "e = GDALRasterPolygonEnumerator_new 4" "ids = []" using run by simp_all
    have "scan_next w ?val 0 w {} 4 idf w
        (ProcessLine (GDALRasterPolygonEnumerator_new 4) None (map Some (img ! 0)) [] (replicate w None) (int w))"
      using ProcessLine_first [of w ?val "map Some (img ! 0)" "replicate w None" 4 idf "[]"] now lim 0 by simp
    then obtain e' ids' M' V' r' idf' where
      "ProcessLine (GDALRasterPolygonEnumerator_new 4) None (map Some (img ! 0)) [] (replicate w None) (int w) = Some (e', ids')"
      "scan_inv w ?val 0 w e' M' V' r' idf'" "line_ids w idf' 0 ids'" "length ids' = w" "nConnectedness e' = 4"
      unfolding scan_next_def by blast
    then show ?thesis
      using \<open>e = _\<close> \<open>ids = _\<close> 0 by (intro that [of e' ids' M' V' r' idf']) (simp_all add: scanned_start)
  next
    case (Suc z)
    have "scan_inv w ?val z w e M V r idf" using inv Suc by (simp add: scan_inv_def scanned_line add.commute)
    moreover have "line_values w ?val z (map Some (img ! z))" using assms Suc by (intro line_values_raster) auto
    ultimately have "scan_next w ?val (Suc z) w (scanned w z w) (nConnectedness e) idf w
        (ProcessLine e (Some (map Some (img ! z))) (map Some (img ! y)) ids (replicate w None) (int w))"
      using ProcessLine_next [of w ?val z e M V r idf "map Some (img ! z)" ids "map Some (img ! y)" "replicate w None"]
        lim now last Suc conn by simp
    then obtain e' ids' M' V' r' idf' where
      "ProcessLine e (Some (map Some (img ! z))) (map Some (img ! y)) ids (replicate w None) (int w) = Some (e', ids')"
      "scan_inv w ?val (Suc z) w e' M' V' r' idf'" "line_ids w idf' (Suc z) ids'" "length ids' = w"
      "nConnectedness e' = nConnectedness e" "\<forall>p \<in> scanned w z w. idf' p = idf p"
      unfolding scan_next_def by blast
    then show ?thesis
      using conn Suc by (intro that [of e' ids' M' V' r' idf']) (simp_all add: scanned_line)
  qed
  then have "run_at w img idf' (Suc y) e' ids' M' V' r'"
    using run by (simp add: run_at_def scan_inv_def scanned_line add.commute)
  with res(6) show ?thesis by blast
qed

lemma run_exists:
  assumes "is_raster w img" and "h \<le> length img"
  shows "\<exists>idf. \<forall>y \<le> h. \<exists>e ids M V r. run_at w img idf y e ids M V r"
  using assms(2)
proof (induction h)
  case 0
  have "run_at w img idf 0 (GDALRasterPolygonEnumerator_new 4) [] [] [] (\<lambda>i. i)" for idf
    using enum_ok_new
    by (simp add: run_at_def scan_inv_def scanned_start labels_def links_def)
      (simp add: GDALRasterPolygonEnumerator_new_def)
  then have "\<exists>e ids M V r. run_at w img (\<lambda>p. 0) 0 e ids M V r" by blast
  then show ?case by (intro exI [of _ "\<lambda>p. 0"]) simp
next
  case (Suc h)
  then obtain idf where idf: "\<forall>y \<le> h. \<exists>e ids M V r. run_at w img idf y e ids M V r" by auto
  then obtain e ids M V r where "run_at w img idf h e ids M V r" by blast
  from run_at_Suc [OF assms(1) _ this] Suc.prems obtain e' ids' M' V' r' idf' where
    new: "run_at w img idf' (Suc h) e' ids' M' V' r'" and old: "\<forall>p \<in> scanned w h 0. idf' p = idf p"
    by auto
  have "\<exists>e ids M V r. run_at w img idf' y e ids M V r" if "y \<le> h" for y
  proof -
    obtain e ids M V r where "run_at w img idf y e ids M V r" using idf \<open>y \<le> h\<close> by blast
    then have "run_at w img idf' y e ids M V r"
      by (rule run_at_cong) (use old \<open>y \<le> h\<close> in \<open>auto simp: scanned_def\<close>)
    then show ?thesis by blast
  qed
  moreover have "\<exists>e ids M V r. run_at w img idf' (Suc h) e ids M V r" using new by blast
  ultimately show ?case unfolding le_Suc_eq by blast
qed

text \<open>The buffers before line \<open>y\<close> of any pass, and the line processed in them.\<close>

definition buffers_at :: "nat \<Rightarrow> raster \<Rightarrow> nat \<Rightarrow> int slots \<Rightarrow> line_buffers \<Rightarrow> bool" where
  "buffers_at w img y ids b =
     (length (panThisLineVal b) = w \<and> length (panThisLineId b) = w \<and> length (panLastLineVal b) = w \<and>
      length (panLastLineId b) = w \<and>
      (0 < y \<longrightarrow> panLastLineVal b = map Some (img ! (y - 1)) \<and> panLastLineId b = ids))"

lemma process_buffers_run:
  assumes "is_raster w img" and "y < length img" and "run_at w img idf y e ids M V r"
    and "run_at w img idf (Suc y) e' ids' M' V' r'" and "buffers_at w img y ids b"
  shows "process_buffers e (int y) (int w) (b\<lparr>panThisLineVal := map Some (img ! y)\<rparr>) =
      Some (e', b\<lparr>panThisLineVal := map Some (img ! y), panThisLineId := ids'\<rparr>)"
    and "buffers_at w img (Suc y) ids' (swap_lines (b\<lparr>panThisLineVal := map Some (img ! y), panThisLineId := ids'\<rparr>))"
proof -
  have "ProcessLine e (if y = 0 then None else Some (map Some (img ! (y - 1)))) (map Some (img ! y)) ids
      (replicate w None) (int w) = Some (e', ids')" and len: "length ids' = w" and ids: "y = 0 \<Longrightarrow> ids = []"
    using assms(3,4) by (auto simp: run_at_def)
  from ProcessLine_buffer [OF _ _ this(1), of "panThisLineId b"] len assms(5)
  show "process_buffers e (int y) (int w) (b\<lparr>panThisLineVal := map Some (img ! y)\<rparr>) =
      Some (e', b\<lparr>panThisLineVal := map Some (img ! y), panThisLineId := ids'\<rparr>)"
    by (cases "y = 0") (auto simp: process_buffers_def buffers_at_def ids)
  have "length (img ! y) = w" using assms(1,2) by (simp add: is_raster_def)
  with len assms(5) show "buffers_at w img (Suc y) ids' (swap_lines (b\<lparr>panThisLineVal := map Some (img ! y), panThisLineId := ids'\<rparr>))"
    by (simp add: buffers_at_def swap_lines_def)
qed

section \<open>Bands\<close>

text \<open>What the filter relies on of the bands: every line of the source can be read as long as no
  later line has been written (the destination may be the source), the mask likewise, lines can be
  written in order, and the callback lets the filter go on.  \<open>wrote w ls\<close> says that the lines \<open>ls\<close>
  have been written in the world \<open>w\<close>.\<close>

definition bands_ok ::
    "'w bands \<Rightarrow> ('w \<Rightarrow> raster \<Rightarrow> bool) \<Rightarrow> raster \<Rightarrow> raster option \<Rightarrow> nat \<Rightarrow> bool" where
  "bands_ok io wrote src msk n =
     ((\<forall>w ls y buf. wrote w ls \<longrightarrow> length ls \<le> y \<longrightarrow> y < length src \<longrightarrow> length buf = n \<longrightarrow>
         src_read io w (int y) buf = (True, map Some (src ! y))) \<and>
      (case (mask_read io, msk) of
         (None, None) \<Rightarrow> True
       | (Some rd, Some m) \<Rightarrow>
           (\<forall>w ls y buf. wrote w ls \<longrightarrow> length ls \<le> y \<longrightarrow> y < length src \<longrightarrow> length buf = n \<longrightarrow>
              rd w (int y) buf = (True, map Some (m ! y)))
       | _ \<Rightarrow> False) \<and>
      (\<forall>w ls y l. wrote w ls \<longrightarrow> length ls = y \<longrightarrow> y < length src \<longrightarrow> length l = n \<longrightarrow>
         (\<exists>w'. dst_write io w (int y) (map Some l) = (True, w') \<and> wrote w' (ls @ [l]))) \<and>
      (\<forall>pass y. progress io pass y))"

text \<open>The raster the filter sees: masked pixels have the marker as their value.\<close>

definition masked_line :: "int list \<Rightarrow> int list \<Rightarrow> int list" where
  "masked_line line ms = map2 (\<lambda>s m. if m = 0 then GP_NODATA_MARKER else s) line ms"

definition masked :: "raster \<Rightarrow> raster option \<Rightarrow> raster" where
  "masked src msk = (case msk of None \<Rightarrow> src | Some m \<Rightarrow> map2 masked_line src m)"

definition mask_fits :: "nat \<Rightarrow> raster \<Rightarrow> raster option \<Rightarrow> bool" where
  "mask_fits n src msk =
     (case msk of None \<Rightarrow> True | Some m \<Rightarrow> length m = length src \<and> (\<forall>l \<in> set m. length l = n))"

text \<open>One more column of a line that is being rewritten.\<close>

lemma rewrite_step:
  assumes "length old = n" and "length new = n" and "i < n" and "new ! i = (if c then v else old ! i)"
  shows "(if c then arr_set (map Some (take i new @ drop i old)) (int i) v else Some (map Some (take i new @ drop i old))) =
    Some (map Some (take (Suc i) new @ drop (Suc i) old))"
proof -
  let ?ys = "take i new @ drop i old"
  have nxt: "take (Suc i) new @ drop (Suc i) old = ?ys[i := new ! i]"
    using assms(1-3) by (simp add: take_Suc_conv_app_nth list_update_append Cons_nth_drop_Suc [symmetric])
  have "?ys ! i = old ! i" using assms(1-3) by (simp add: nth_append)
  then have same: "?ys[i := old ! i] = ?ys" by (metis list_update_id)
  have "arr_set (map Some ?ys) (int i) v = Some (map Some (?ys[i := v]))"
    using assms(1-3) by (simp add: arr_set_def map_update)
  then show ?thesis unfolding nxt assms(4) by (cases c) (simp_all only: if_True if_False same)
qed

lemma mask_loop_eq:
  assumes "length xs = n" and "length ms = n" and "i + k = n"
  shows "mask_loop (map Some ms) (map Some (take i (masked_line xs ms) @ drop i xs)) (int i) k =
    Some (map Some (masked_line xs ms))"
  using assms(3)
proof (induction k arbitrary: i)
  case 0
  then show ?case using assms by (simp add: masked_line_def)
next
  case (Suc k)
  let ?ys = "\<lambda>i. take i (masked_line xs ms) @ drop i xs"
  have i: "i < n" using Suc.prems by simp
  have len: "length (masked_line xs ms) = n" using assms by (simp add: masked_line_def)
  have "masked_line xs ms ! i = (if ms ! i = 0 then GP_NODATA_MARKER else xs ! i)"
    using i assms by (simp add: masked_line_def)
  note step = rewrite_step [OF assms(1) len i this]
  have get: "arr_get (map Some ms) (int i) = Some (ms ! i)" using i assms(2) by (simp add: arr_get_def)
  have "mask_loop (map Some ms) (map Some (?ys i)) (int i) (Suc k) =
      mask_loop (map Some ms) (map Some (?ys (Suc i))) (int i + 1) k"
    unfolding mask_loop.simps get Option.bind.bind_lunit step by (rule refl)
  then show ?case using Suc.IH [of "Suc i"] Suc.prems by (simp add: add.commute)
qed

lemma is_raster_masked:
  assumes "is_raster n src" and "mask_fits n src msk"
  shows "is_raster n (masked src msk)" and "length (masked src msk) = length src"
proof -
  show len: "length (masked src msk) = length src"
    using assms(2) by (auto simp: masked_def mask_fits_def split: option.splits)
  have "length (masked_line a b) = n" if "(a, b) \<in> set (zip src m)" "length m = length src" "\<forall>l \<in> set m. length l = n" for a b m
    using assms(1) that set_zip_leftD [OF that(1)] set_zip_rightD [OF that(1)]
    by (simp add: is_raster_def masked_line_def)
  then show "is_raster n (masked src msk)"
    using assms len by (auto simp: is_raster_def masked_def mask_fits_def split: option.splits)
qed

lemma read_masked:
  assumes "bands_ok io wrote src msk n" and "is_raster n src" and "mask_fits n src msk"
    and "wrote w ls" and "length ls \<le> y" and "y < length src" and "length buf = n"
  shows "src_read io w (int y) buf = (True, map Some (src ! y))"
    and "mask_line io w (int y) (int n) (True, map Some (src ! y)) = Some (True, map Some (masked src msk ! y))"
proof -
  show "src_read io w (int y) buf = (True, map Some (src ! y))"
    using assms(1,4-7) unfolding bands_ok_def by blast
  show "mask_line io w (int y) (int n) (True, map Some (src ! y)) = Some (True, map Some (masked src msk ! y))"
  proof (cases msk)
    case None
    then have "mask_read io = None" using assms(1) by (auto simp: bands_ok_def split: option.splits)
    with None show ?thesis by (simp add: mask_line_def masked_def)
  next
    case (Some m)
    then obtain rd where rd: "mask_read io = Some rd" using assms(1) by (auto simp: bands_ok_def split: option.splits)
    with Some assms(1,4-6) have read: "rd w (int y) (new_line (int n)) = (True, map Some (m ! y))"
      by (auto simp: bands_ok_def new_line_def)
    have len: "length (src ! y) = n" "length (m ! y) = n" "length m = length src"
      using assms(2,3,6) Some by (auto simp: is_raster_def mask_fits_def)
    have "masked src msk ! y = masked_line (src ! y) (m ! y)"
      using Some assms(6) len(3) by (simp add: masked_def)
    with rd read mask_loop_eq [OF len(1,2), of 0 n] show ?thesis
      by (simp add: mask_line_def GPMaskImageData_def masked_line_def)
  qed
qed

section \<open>The sizes\<close>

definition sizes_ok :: "(pixel \<Rightarrow> nat) \<Rightarrow> pixel set \<Rightarrow> nat \<Rightarrow> int slots \<Rightarrow> bool" where
  "sizes_ok idf P n sizes =
     (length sizes = n \<and> (\<forall>k < n. sizes ! k = Some (int (card {p \<in> P. idf p = k}))))"

lemma finite_scanned: "finite (scanned w y i)"
proof -
  have "scanned w y i \<subseteq> pixels w (Suc y)" by (auto simp: scanned_def pixels_def)
  then show ?thesis using finite_pixels by (rule finite_subset)
qed

lemma card_pixels: "card (pixels w h) = h * w"
proof -
  have "pixels w h = {..<h} \<times> {..<w}" by (auto simp: pixels_def)
  then show ?thesis by (simp add: card_cartesian_product)
qed

lemma card_scanned: "card {p \<in> scanned w y i. Q p} \<le> Suc y * w"
proof -
  have "{p \<in> scanned w y i. Q p} \<subseteq> pixels w (Suc y)" by (auto simp: scanned_def pixels_def)
  then show ?thesis using card_mono [OF finite_pixels] card_pixels by metis
qed

lemma add_sizes_ok:
  assumes "sizes_ok idf (scanned w y i) n sizes" and "line_ids w idf y ids" and "i + k = w"
    and "\<forall>x < w. idf (y, x) < n" and "Suc y * w \<le> id_limit"
  shows "\<exists>sizes'. add_sizes ids sizes (int i) k = Some sizes' \<and> sizes_ok idf (scanned w y w) n sizes'"
  using assms(1,3)
proof (induction k arbitrary: i sizes)
  case 0
  then show ?case by simp
next
  case (Suc k)
  let ?id = "idf (y, i)"
  have i: "i < w" using Suc.prems(2) by simp
  then have id: "?id < n" using assms(4) by blast
  have len: "length sizes = n" and at: "sizes ! k' = Some (int (card {p \<in> scanned w y i. idf p = k'}))" if "k' < n" for k'
    using Suc.prems(1) that by (simp_all add: sizes_ok_def)
  have "card {p \<in> scanned w y i. idf p = ?id} < 2 ^ 28"
    using card_scanned [of w y i "\<lambda>p. idf p = ?id"] assms(5) by (simp add: id_limit_def)
  then have wrap: "to_i32 (int (card {p \<in> scanned w y i. idf p = ?id}) + 1) = int (card {p \<in> scanned w y i. idf p = ?id}) + 1"
    by (intro to_i32_id) simp_all
  have insert: "{p \<in> scanned w y (Suc i). idf p = k'} =
      (if k' = ?id then insert (y, i) else id) {p \<in> scanned w y i. idf p = k'}" for k'
    using scanned_Suc [OF i] by auto
  have card: "card {p \<in> scanned w y (Suc i). idf p = k'} =
      (if k' = ?id then 1 else 0) + card {p \<in> scanned w y i. idf p = k'}" for k'
    unfolding insert using scanned_fresh finite_scanned [of w y i] by auto
  define sizes1 where "sizes1 = sizes[?id := Some (int (card {p \<in> scanned w y i. idf p = ?id}) + 1)]"
  have "sizes_ok idf (scanned w y (Suc i)) n sizes1"
    using len [OF id] at id card by (auto simp: sizes_ok_def sizes1_def nth_list_update)
  moreover have "arr_get ids (int i) = Some (int ?id)" using arr_get_ids [OF assms(2) i] .
  moreover have "arr_get sizes (int ?id) = Some (int (card {p \<in> scanned w y i. idf p = ?id}))"
    using at [OF id] len [OF id] id by (simp add: arr_get_def)
  moreover have "arr_set sizes (int ?id) (int (card {p \<in> scanned w y i. idf p = ?id}) + 1) = Some sizes1"
    using len [OF id] id by (simp add: arr_set_def sizes1_def)
  ultimately show ?case using Suc.IH [of "Suc i" sizes1] Suc.prems(2) wrap by (simp add: add.commute)
qed

text \<open>One id of a pixel of the whole run.\<close>

lemma run_at_ids:
  assumes "run_at w img idf y e ids M V r"
  shows "enum_ok e M V r" and "\<And>p. p \<in> pixels w y \<Longrightarrow> idf p < length M" and "idf ` pixels w y = {..<length M}"
  using assms scanned_pixels by (auto simp: run_at_def scan_inv_def)

lemma run_at_mono:
  assumes "run_at w img idf y e ids M V r" and "run_at w img idf (Suc y) e' ids' M' V' r'"
  shows "length M \<le> length M'"
proof -
  have "{..<length M} \<subseteq> {..<length M'}"
    unfolding run_at_ids(3) [OF assms(1), symmetric] run_at_ids(3) [OF assms(2), symmetric]
    by (rule image_mono) (auto simp: pixels_def)
  then show ?thesis by (simp add: lessThan_subset_iff)
qed

lemma count_line_ok:
  assumes "is_raster w img" and "y < length img" and "run_at w img idf y e ids M V r"
    and "run_at w img idf (Suc y) e' ids' M' V' r'" and "sizes_ok idf (pixels w y) (length M) sizes"
  shows "\<exists>sizes'. count_line e' ids' sizes (int w) = Some sizes' \<and> sizes_ok idf (pixels w (Suc y)) (length M') sizes'"
proof -
  have le: "length M \<le> length M'" using assms(3,4) by (rule run_at_mono)
  have len: "length sizes = length M" using assms(5) by (simp add: sizes_ok_def)
  have next_id: "nNextPolygonId e' = int (length M')" using run_at_ids(1) [OF assms(4)] by (simp add: enum_ok_def)
  let ?sizes = "sizes @ replicate (length M' - length M) (Some 0)"
  have "(if nNextPolygonId e' > int (length sizes) then vec_resize sizes (nNextPolygonId e') else sizes) = ?sizes"
    using le len next_id by (auto simp: vec_resize_def)
  moreover have "sizes_ok idf (scanned w y 0) (length M') ?sizes"
  proof -
    have "card {p \<in> pixels w y. idf p = k} = 0" if "length M \<le> k" for k
    proof -
      have "{p \<in> pixels w y. idf p = k} = {}" using run_at_ids(2) [OF assms(3)] that by fastforce
      then show ?thesis by (simp only: card.empty)
    qed
    then show ?thesis
      using assms(5) le unfolding scanned_pixels sizes_ok_def by (simp add: nth_append not_less)
  qed
  moreover have "\<forall>x < w. idf (y, x) < length M'"
    using run_at_ids(2) [OF assms(4)] by (auto simp: pixels_def)
  moreover have "line_ids w idf y ids'" using assms(4) by (simp add: run_at_def)
  moreover have "Suc y * w \<le> id_limit"
  proof -
    have "Suc y * w \<le> length img * w" using assms(2) by (intro mult_le_mono1) simp
    then show ?thesis using assms(1) by (simp add: is_raster_def)
  qed
  ultimately show ?thesis
    using add_sizes_ok [of idf w y 0 "length M'" ?sizes ids' w]
    by (simp add: count_line_def scanned_line [symmetric] scanned_pixels)
qed

text \<open>The first pass over the whole raster.\<close>

lemma first_pass_ok:
  assumes io: "bands_ok io wrote src msk n" "is_raster n src" "mask_fits n src msk" "wrote w []"
    and run: "\<forall>y \<le> length src. \<exists>e ids M V r. run_at n (masked src msk) idf y e ids M V r"
    and "run_at n (masked src msk) idf y e ids M V r" and "buffers_at n (masked src msk) y ids b"
    and "sizes_ok idf (pixels n y) (length M) sizes" and "y + k = length src"
  shows "\<exists>e' ids' M' V' r' b' sizes'. first_pass io w (int n) (int y) k e b sizes = Some (True, e', b', sizes') \<and>
    run_at n (masked src msk) idf (length src) e' ids' M' V' r' \<and>
    buffers_at n (masked src msk) (length src) ids' b' \<and> sizes_ok idf (pixels n (length src)) (length M') sizes'"
  using assms(6-9)
proof (induction k arbitrary: y e ids M V r b sizes)
  case 0
  then show ?case by auto
next
  case (Suc k)
  let ?img = "masked src msk"
  have y: "y < length src" using Suc.prems(4) by simp
  note raster = is_raster_masked [OF io(2,3)]
  have y': "y < length ?img" using y raster(2) by simp
  obtain e1 ids1 M1 V1 r1 where run1: "run_at n ?img idf (Suc y) e1 ids1 M1 V1 r1"
    using run y by (metis Suc_leI)
  let ?b = "b\<lparr>panThisLineVal := map Some (?img ! y)\<rparr>" and
    ?b1 = "b\<lparr>panThisLineVal := map Some (?img ! y), panThisLineId := ids1\<rparr>"
  have "length (panThisLineVal b) = n" using Suc.prems(2) by (simp add: buffers_at_def)
  note read = read_masked [OF io(1-4) _ y this]
  note process = process_buffers_run [OF raster(1) y' Suc.prems(1) run1 Suc.prems(2)]
  obtain sizes1 where sizes1: "count_line e1 ids1 sizes (int n) = Some sizes1" "sizes_ok idf (pixels n (Suc y)) (length M1) sizes1"
    using count_line_ok [OF raster(1) y' Suc.prems(1) run1 Suc.prems(3)] by blast
  have "progress io 1 (int y)" using io(1) by (simp add: bands_ok_def)
  then have "first_pass io w (int n) (int y) (Suc k) e b sizes =
      first_pass io w (int n) (int (Suc y)) k e1 (swap_lines ?b1) sizes1"
    using read process(1) sizes1(1) by (simp add: add.commute)
  moreover have "Suc y + k = length src" using Suc.prems(4) by simp
  ultimately show ?case using Suc.IH [OF run1 process(2) sizes1(2)] by simp
qed

text \<open>Pushing the sizes: before round \<open>i\<close> a root has the pixels of its own id and of the ids before
  \<open>i\<close> in its tree.\<close>

definition pushed :: "pixel set \<Rightarrow> (pixel \<Rightarrow> nat) \<Rightarrow> (nat \<Rightarrow> nat) \<Rightarrow> nat \<Rightarrow> nat \<Rightarrow> nat" where
  "pushed P idf r i k =
     (if r k = k then card {p \<in> P. r (idf p) = k \<and> (idf p = k \<or> idf p < i)}
      else if k < i then 0 else card {p \<in> P. idf p = k})"

definition pushed_ok :: "pixel set \<Rightarrow> (pixel \<Rightarrow> nat) \<Rightarrow> (nat \<Rightarrow> nat) \<Rightarrow> nat \<Rightarrow> nat \<Rightarrow> int slots \<Rightarrow> bool" where
  "pushed_ok P idf r n i sizes = (length sizes = n \<and> (\<forall>k < n. sizes ! k = Some (int (pushed P idf r i k))))"

lemma pushed_root: "r i = i \<Longrightarrow> pushed P idf r (Suc i) k = pushed P idf r i k"
  unfolding pushed_def by (auto simp: less_Suc_eq intro!: arg_cong [of _ _ card])

lemma pushed_other:
  assumes "finite P" and "r i \<noteq> i" and "r (r i) = r i"
  shows "pushed P idf r (Suc i) k =
    (if k = r i then pushed P idf r i (r i) + pushed P idf r i i else if k = i then 0 else pushed P idf r i k)"
proof (cases "k = r i")
  case True
  let ?A = "{p \<in> P. r (idf p) = k \<and> (idf p = k \<or> idf p < i)}" and ?B = "{p \<in> P. idf p = i}"
  have "{p \<in> P. r (idf p) = k \<and> (idf p = k \<or> idf p < Suc i)} = ?A \<union> ?B"
    using True by (auto simp: less_Suc_eq)
  moreover have "?A \<inter> ?B = {}" using True assms(2) by auto
  ultimately show ?thesis
    using True assms by (simp add: pushed_def card_Un_disjoint)
next
  case False
  then have "{p \<in> P. r (idf p) = k \<and> (idf p = k \<or> idf p < Suc i)} = {p \<in> P. r (idf p) = k \<and> (idf p = k \<or> idf p < i)}"
    by (auto simp: less_Suc_eq)
  with False assms(2) show ?thesis by (auto simp: pushed_def less_Suc_eq)
qed

lemma pushed_le: "finite P \<Longrightarrow> pushed P idf r i k \<le> card P"
  by (auto simp: pushed_def intro: card_mono)

lemma push_sizes_ok:
  assumes F: "idmap_of (map r [0..<n]) idmap" and r: "\<forall>k < n. r k < n \<and> r (r k) = r k"
    and P: "finite P" "card P < 2 ^ 30" and "pushed_ok P idf r n i sizes" and "i + k = n"
  shows "\<exists>sizes'. push_sizes idmap sizes (int i) k = Some sizes' \<and> pushed_ok P idf r n n sizes'"
  using assms(5,6)
proof (induction k arbitrary: i sizes)
  case 0
  then show ?case by simp
next
  case (Suc k)
  let ?c = "pushed P idf r"
  have i: "i < n" using Suc.prems(2) by simp
  have map: "arr_get idmap (int i) = Some (int (r i))" using arr_get_idmap [OF F, of i] i by simp
  have len: "length sizes = n" and at: "\<And>j. j < n \<Longrightarrow> sizes ! j = Some (int (?c i j))"
    using Suc.prems(1) by (simp_all add: pushed_ok_def)
  have get: "arr_get sizes (int j) = Some (int (?c i j))" if "j < n" for j
    using at [OF that] that len by (simp add: arr_get_def)
  have ri: "r i < n" "r (r i) = r i" using r i by auto
  show ?case
  proof (cases "r i = i")
    case True
    then have "pushed_ok P idf r n (Suc i) sizes" using Suc.prems(1) by (simp add: pushed_ok_def pushed_root)
    with Suc.IH [of "Suc i" sizes] Suc.prems(2) show ?thesis using True map by (simp add: add.commute)
  next
    case False
    have "?c i (r i) \<le> card P" "?c i i \<le> card P" using pushed_le [OF P(1)] by simp_all
    then have wrap: "to_i32 (int (?c i (r i)) + int (?c i i)) = int (?c i (r i)) + int (?c i i)"
      using P(2) by (intro to_i32_id) simp_all
    let ?sizes = "sizes[r i := Some (int (?c i (r i)) + int (?c i i)), i := Some 0]"
    have "pushed_ok P idf r n (Suc i) ?sizes"
      using False ri len at pushed_other [of P r i idf, OF P(1) False ri(2)]
      by (auto simp: pushed_ok_def nth_list_update)
    from Suc.IH [OF this] Suc.prems(2) show ?thesis
      using False map get [OF i] get [OF ri(1)] wrap len i ri by (simp add: arr_set_def add.commute)
  qed
qed

section \<open>The largest neighbours\<close>

text \<open>\<open>nbset\<close>: the polygons met beside polygon \<open>k\<close> in the pairs \<open>S\<close> of pixels; polygons of the
  marker have no neighbours and are none.\<close>

definition nbset :: "(pixel \<Rightarrow> nat) \<Rightarrow> int list \<Rightarrow> (pixel \<times> pixel) set \<Rightarrow> nat \<Rightarrow> nat set" where
  "nbset fid V S k =
     {j. j \<noteq> k \<and> V ! k \<noteq> GP_NODATA_MARKER \<and> V ! j \<noteq> GP_NODATA_MARKER \<and>
         (\<exists>(p, q) \<in> S. fid p = k \<and> fid q = j \<or> fid p = j \<and> fid q = k)}"

text \<open>A largest element of a set of polygons, -1 when there is none.\<close>

definition best :: "(nat \<Rightarrow> nat) \<Rightarrow> nat set \<Rightarrow> int \<Rightarrow> bool" where
  "best sz N b = (if N = {} then b = -1 else \<exists>j \<in> N. b = int j \<and> (\<forall>j' \<in> N. sz j' \<le> sz j))"

definition big_ok ::
    "(nat \<Rightarrow> nat) \<Rightarrow> (pixel \<Rightarrow> nat) \<Rightarrow> int list \<Rightarrow> nat \<Rightarrow> (pixel \<times> pixel) set \<Rightarrow> int slots \<Rightarrow> bool" where
  "big_ok sz fid V n S big =
     (length big = n \<and> (\<forall>k < n. \<exists>b. big ! k = Some b \<and> best sz (nbset fid V S k) b))"

lemma best_insert:
  assumes "best sz N b"
  shows "best sz (insert j N) (if b = -1 \<or> sz (nat b) < sz j then int j else b)"
proof (cases "N = {}")
  case True
  then show ?thesis using assms by (simp add: best_def)
next
  case False
  then obtain i where i: "i \<in> N" "b = int i" "\<forall>j' \<in> N. sz j' \<le> sz i" using assms by (auto simp: best_def)
  show ?thesis
  proof (cases "sz i < sz j")
    case True
    then have "sz j' \<le> sz j" if "j' \<in> N" for j' using i(3) that by fastforce
    with True i show ?thesis by (simp add: best_def)
  next
    case False
    with i show ?thesis by (auto simp: best_def not_less)
  qed
qed

lemma update_neighbour_ok:
  assumes "length big = n" and "k < n" and "big ! k = Some b" and "best sz N b" and "N \<subseteq> {..<n}" and "j < n"
    and "\<And>i. i \<in> insert j N \<Longrightarrow> arr_get sizes (int i) = Some (int (sz i))"
  shows "\<exists>b'. update_neighbour (int k) (int j) sizes big = Some (big[k := Some b']) \<and> best sz (insert j N) b'"
proof -
  have get: "arr_get big (int k) = Some b" using assms(1-3) by (simp add: arr_get_def)
  let ?b = "if b = -1 \<or> sz (nat b) < sz j then int j else b"
  have "update_neighbour (int k) (int j) sizes big = Some (big[k := Some ?b])"
  proof (cases "b = -1")
    case True
    then show ?thesis using get assms(1,2) by (simp add: update_neighbour_def arr_set_def)
  next
    case False
    then obtain i where i: "i \<in> N" "b = int i" using assms(4) by (auto simp: best_def split: if_splits)
    have "arr_get sizes b = Some (int (sz i))" "arr_get sizes (int j) = Some (int (sz j))"
      using assms(7) i by auto
    moreover have "big[k := Some b] = big" using assms(3) by (metis list_update_id)
    ultimately show ?thesis using False get assms(1,2) i by (simp add: update_neighbour_def arr_set_def)
  qed
  with best_insert [OF assms(4)] show ?thesis by blast
qed

text \<open>The polygon of a pixel.\<close>

definition root_of :: "(nat \<Rightarrow> nat) \<Rightarrow> (pixel \<Rightarrow> nat) \<Rightarrow> pixel \<Rightarrow> nat" where
  "root_of r idf = (\<lambda>p. r (idf p))"

lemma root_of_apply: "root_of r idf p = r (idf p)"
  by (simp add: root_of_def)

text \<open>What is known after the first pass: \<open>F\<close> is the first enumerator with its final map, \<open>fid\<close>
  gives the polygon of a pixel of \<open>P\<close>, \<open>sz\<close> the size of a polygon.\<close>

definition polygons_ok ::
    "pixel set \<Rightarrow> (pixel \<Rightarrow> nat) \<Rightarrow> (nat \<Rightarrow> nat) \<Rightarrow> int list \<Rightarrow> nat \<Rightarrow> (nat \<Rightarrow> nat)
     \<Rightarrow> GDALRasterPolygonEnumerator \<Rightarrow> int slots \<Rightarrow> bool" where
  "polygons_ok P idf r V n sz F sizes =
     (idmap_of (map r [0..<n]) (panPolyIdMap F) \<and> values_of V (panPolyValue F) \<and> length V = n \<and>
      (\<forall>k < n. r k < n \<and> r (r k) = r k) \<and> (\<forall>p \<in> P. idf p < n) \<and> length sizes = n \<and>
      (\<forall>k < n. r k = k \<longrightarrow> sizes ! k = Some (int (sz k))))"

lemma polygons_okD:
  assumes "polygons_ok P idf r V n sz F sizes" and "p \<in> P"
  shows "idf p < n" "r (idf p) < n" "arr_get (panPolyIdMap F) (int (idf p)) = Some (int (r (idf p)))"
    "arr_get (panPolyValue F) (int (r (idf p))) = Some (V ! r (idf p))"
    "arr_get sizes (int (r (idf p))) = Some (int (sz (r (idf p))))" "r (r (idf p)) = r (idf p)"
proof -
  show id: "idf p < n" and fid: "r (idf p) < n" "r (r (idf p)) = r (idf p)"
    using assms by (auto simp: polygons_ok_def)
  have "idmap_of (map r [0..<n]) (panPolyIdMap F)" using assms(1) by (simp add: polygons_ok_def)
  from arr_get_idmap [OF this, of "idf p"] id
  show "arr_get (panPolyIdMap F) (int (idf p)) = Some (int (r (idf p)))" by simp
  have "values_of V (panPolyValue F)" "length V = n" using assms(1) by (simp_all add: polygons_ok_def)
  then show "arr_get (panPolyValue F) (int (r (idf p))) = Some (V ! r (idf p))" using fid(1) by simp
  show "arr_get sizes (int (r (idf p))) = Some (int (sz (r (idf p))))"
    using assms(1) fid by (simp add: polygons_ok_def arr_get_def)
qed

lemma nbset_insert:
  "nbset fid V (insert (p, q) S) k =
    (if fid p = fid q \<or> V ! fid p = GP_NODATA_MARKER \<or> V ! fid q = GP_NODATA_MARKER then nbset fid V S k
     else if k = fid p then insert (fid q) (nbset fid V S k)
     else if k = fid q then insert (fid p) (nbset fid V S k)
     else nbset fid V S k)"
  by (auto simp: nbset_def)

lemma nbset_fid: "S \<subseteq> P \<times> P \<Longrightarrow> j \<in> nbset fid V S k \<Longrightarrow> j \<in> fid ` P"
  by (auto simp: nbset_def)

lemma CompareNeighbour_ok:
  assumes ok: "polygons_ok P idf r V n sz F sizes" and big: "big_ok sz (root_of r idf) V n S big"
    and S: "S \<subseteq> P \<times> P" and p: "p \<in> P" and q: "q \<in> P"
  shows "\<exists>big'. CompareNeighbour (int (idf p)) (int (idf q)) (panPolyIdMap F) (panPolyValue F) sizes big = Some big' \<and>
    big_ok sz (root_of r idf) V n (insert (p, q) S) big'"
proof -
  let ?fid = "root_of r idf"
  let ?k = "r (idf p)" and ?j = "r (idf q)"
  note P = polygons_okD [OF ok p] and Q = polygons_okD [OF ok q]
  show ?thesis
  proof (cases "?k = ?j \<or> V ! ?k = GP_NODATA_MARKER \<or> V ! ?j = GP_NODATA_MARKER")
    case True
    then have "CompareNeighbour (int (idf p)) (int (idf q)) (panPolyIdMap F) (panPolyValue F) sizes big = Some big"
      using P(3,4) Q(3,4) by (auto simp: CompareNeighbour_def)
    moreover have "big_ok sz ?fid V n (insert (p, q) S) big"
      using big True by (simp add: big_ok_def nbset_insert root_of_apply)
    ultimately show ?thesis by blast
  next
    case False
    have len: "length big = n" using big by (simp add: big_ok_def)
    have member: "\<exists>p' \<in> P. i = r (idf p')" if "i \<in> nbset ?fid V S k" for i k
      using nbset_fid [OF S that] by (auto simp: root_of_apply)
    then have sub: "nbset ?fid V S k \<subseteq> {..<n}" for k
      using polygons_okD(2) [OF ok] by fastforce
    have size: "arr_get sizes (int i) = Some (int (sz i))" if "i \<in> insert (r (idf q')) (nbset ?fid V S k)" "q' \<in> P" for i k q'
    proof -
      have "\<exists>p' \<in> P. i = r (idf p')" using that member by blast
      then show ?thesis using polygons_okD(5) [OF ok] by blast
    qed
    obtain bk where bk: "big ! ?k = Some bk" "best sz (nbset ?fid V S ?k) bk" using big P(2) by (auto simp: big_ok_def)
    obtain bj where bj: "big ! ?j = Some bj" "best sz (nbset ?fid V S ?j) bj" using big Q(2) by (auto simp: big_ok_def)
    obtain bk' where bk': "update_neighbour (int ?k) (int ?j) sizes big = Some (big[?k := Some bk'])"
      "best sz (insert ?j (nbset ?fid V S ?k)) bk'"
      using update_neighbour_ok [OF len P(2) bk sub Q(2) size [where k = ?k, OF _ q]] by blast
    have "big[?k := Some bk'] ! ?j = Some bj" using bj(1) False by simp
    from update_neighbour_ok [OF _ Q(2) this bj(2) sub P(2) size [where k = ?j, OF _ p]] len obtain bj' where
      bj': "update_neighbour (int ?j) (int ?k) sizes (big[?k := Some bk']) = Some (big[?k := Some bk', ?j := Some bj'])"
      "best sz (insert ?k (nbset ?fid V S ?j)) bj'" by auto
    have "CompareNeighbour (int (idf p)) (int (idf q)) (panPolyIdMap F) (panPolyValue F) sizes big =
        Some (big[?k := Some bk', ?j := Some bj'])"
      using P(3,4) Q(3,4) False bk'(1) bj'(1) by (simp add: CompareNeighbour_def)
    moreover have "big_ok sz ?fid V n (insert (p, q) S) (big[?k := Some bk', ?j := Some bj'])"
      using big False bk'(2) bj'(2) P(2) Q(2) len by (auto simp: big_ok_def nbset_insert root_of_apply nth_list_update)
    ultimately show ?thesis by blast
  qed
qed

text \<open>The pairs met before column \<open>i\<close> of line \<open>y\<close>.\<close>

definition met :: "nat \<Rightarrow> nat \<Rightarrow> nat \<Rightarrow> (pixel \<times> pixel) set" where
  "met w y i = {(p, q). p \<in> scanned w y i \<and> q \<in> nbrs p}"

lemma met_Suc: "i < w \<Longrightarrow> met w y (Suc i) = met w y i \<union> Pair (y, i) ` nbrs (y, i)"
  by (auto simp: met_def scanned_Suc)

lemma met_sub: "y < h \<Longrightarrow> i \<le> w \<Longrightarrow> met w y i \<subseteq> pixels w h \<times> pixels w h"
  by (auto simp: met_def scanned_def pixels_def nbrs_def split: if_splits)

lemma compare_if_ok:
  assumes ok: "polygons_ok P idf r V n sz F sizes" and big: "big_ok sz (root_of r idf) V n S big" and S: "S \<subseteq> P \<times> P"
    and "cond \<Longrightarrow> p \<in> P \<and> q \<in> P \<and> arr_get a i = Some (int (idf p)) \<and> arr_get c j = Some (int (idf q))"
  shows "\<exists>big'. compare_if cond F sizes a i c j big = Some big' \<and>
    big_ok sz (root_of r idf) V n (if cond then insert (p, q) S else S) big'"
  using CompareNeighbour_ok [OF ok big S, of p q] big assms(4) by (auto simp: compare_if_def)

lemma compare_pixel_ok:
  assumes ok: "polygons_ok (pixels w h) idf r V n sz F sizes" and big: "big_ok sz (root_of r idf) V n (met w y i) big"
    and y: "y < h" and i: "i < w" and this_ids: "line_ids w idf y (panThisLineId b)"
    and last_ids: "0 < y \<Longrightarrow> line_ids w idf (y - 1) (panLastLineId b)"
  shows "\<exists>big'. compare_pixel 4 (int y) (int w) F sizes b (int i) big = Some big' \<and>
    big_ok sz (root_of r idf) V n (met w y (Suc i)) big'"
proof -
  let ?P = "pixels w h" and ?v = "(y, i)" and ?fid = "root_of r idf"
  have v: "?v \<in> ?P" "arr_get (panThisLineId b) (int i) = Some (int (idf ?v))"
    using y i this_ids by (simp_all add: pixels_def)
  let ?S1 = "if 0 < int y then insert (?v, (y - 1, i)) (met w y i) else met w y i"
  have "(y - 1, i) \<in> ?P \<and> arr_get (panLastLineId b) (int i) = Some (int (idf (y - 1, i)))" if "0 < int y"
    using y i last_ids that by (simp add: pixels_def)
  then obtain big1 where big1: "compare_if (0 < int y) F sizes (panThisLineId b) (int i) (panLastLineId b) (int i) big = Some big1"
    "big_ok sz ?fid V n ?S1 big1"
    using compare_if_ok [OF ok big met_sub [OF y, of i w], where cond = "0 < int y" and p = ?v and q = "(y - 1, i)"
        and a = "panThisLineId b" and i = "int i" and c = "panLastLineId b" and j = "int i"] v i by auto
  let ?S2 = "if 0 < int i then insert (?v, (y, i - 1)) ?S1 else ?S1"
  have S1: "?S1 \<subseteq> ?P \<times> ?P" using met_sub [OF y, of i w] v(1) y i by (auto simp: pixels_def)
  have "(y, i - 1) \<in> ?P \<and> arr_get (panThisLineId b) (int i - 1) = Some (int (idf (y, i - 1)))" if "0 < int i"
    using y i arr_get_ids [OF this_ids, of "i - 1"] that by (simp add: pixels_def of_nat_diff)
  then obtain big2 where big2: "compare_if (0 < int i) F sizes (panThisLineId b) (int i) (panThisLineId b) (int i - 1) big1 = Some big2"
    "big_ok sz ?fid V n ?S2 big2"
    using compare_if_ok [OF ok big1(2) S1, where cond = "0 < int i" and p = ?v and q = "(y, i - 1)"
        and a = "panThisLineId b" and i = "int i" and c = "panThisLineId b" and j = "int i - 1"] v by auto
  have "?S2 = met w y (Suc i)"
    unfolding met_Suc [OF i] by (auto simp: nbrs_def)
  then show ?thesis
    using big1(1) big2 by (simp add: compare_pixel_def compare_if_def [of False])
qed

lemma compare_line_ok:
  assumes ok: "polygons_ok (pixels w h) idf r V n sz F sizes" and "big_ok sz (root_of r idf) V n (met w y i) big"
    and y: "y < h" and "i + k = w" and ids: "line_ids w idf y (panThisLineId b)"
    and last: "0 < y \<Longrightarrow> line_ids w idf (y - 1) (panLastLineId b)"
  shows "\<exists>big'. compare_line 4 (int y) (int w) F sizes b (int i) k big = Some big' \<and>
    big_ok sz (root_of r idf) V n (met w y w) big'"
  using assms(2,4)
proof (induction k arbitrary: i big)
  case 0
  then show ?case by simp
next
  case (Suc k)
  then have "i < w" by simp
  then obtain big1 where "compare_pixel 4 (int y) (int w) F sizes b (int i) big = Some big1"
    "big_ok sz (root_of r idf) V n (met w y (Suc i)) big1"
    using compare_pixel_ok [OF ok Suc.prems(1) y _ ids last] by blast
  with Suc.IH [of "Suc i" big1] Suc.prems(2) show ?case by (simp add: add.commute)
qed

lemma second_pass_ok:
  assumes io: "bands_ok io wrote src msk n" "is_raster n src" "mask_fits n src msk" "wrote w []"
    and run: "\<forall>y \<le> length src. \<exists>e ids M V r. run_at n (masked src msk) idf y e ids M V r"
    and ok: "polygons_ok (pixels n (length src)) idf r V m sz F sizes"
    and "run_at n (masked src msk) idf y e ids M' V' r'" and "buffers_at n (masked src msk) y ids b"
    and "big_ok sz (root_of r idf) V m (met n y 0) big" and "y + k = length src"
  shows "\<exists>e' b' big' ids' M' V' r'. second_pass io w 4 (int n) F sizes (int y) k e b big = Some (True, e', b', big') \<and>
    nConnectedness e' = 4 \<and> buffers_at n (masked src msk) (length src) ids' b' \<and>
    big_ok sz (root_of r idf) V m (met n (length src) 0) big'"
  using assms(7-10)
proof (induction k arbitrary: y e ids M' V' r' b big)
  case 0
  moreover have "nConnectedness e = 4" using 0(1) by (simp add: run_at_def)
  ultimately show ?case by auto
next
  case (Suc k)
  let ?img = "masked src msk"
  have y: "y < length src" using Suc.prems(4) by simp
  note raster = is_raster_masked [OF io(2,3)]
  have y': "y < length ?img" using y raster(2) by simp
  obtain e1 ids1 M1 V1 r1 where run1: "run_at n ?img idf (Suc y) e1 ids1 M1 V1 r1"
    using run y by (metis Suc_leI)
  let ?b1 = "b\<lparr>panThisLineVal := map Some (?img ! y), panThisLineId := ids1\<rparr>"
  have "length (panThisLineVal b) = n" using Suc.prems(2) by (simp add: buffers_at_def)
  note read = read_masked [OF io(1-4) _ y this]
  note process = process_buffers_run [OF raster(1) y' Suc.prems(1) run1 Suc.prems(2)]
  have this_ids: "line_ids n idf y (panThisLineId ?b1)" using run1 by (simp add: run_at_def)
  have last_ids: "0 < y \<Longrightarrow> line_ids n idf (y - 1) (panLastLineId ?b1)"
    using Suc.prems(1,2) by (simp add: run_at_def buffers_at_def)
  obtain big1 where big1: "compare_line 4 (int y) (int n) F sizes ?b1 0 n big = Some big1"
    "big_ok sz (root_of r idf) V m (met n (Suc y) 0) big1"
    using compare_line_ok [OF ok Suc.prems(3) y _ this_ids last_ids, of n]
    by (auto simp: met_def scanned_line)
  have "progress io 2 (int y)" using io(1) by (simp add: bands_ok_def)
  then have "second_pass io w 4 (int n) F sizes (int y) (Suc k) e b big =
      second_pass io w 4 (int n) F sizes (int (Suc y)) k e1 (swap_lines ?b1) big1"
    using read process(1) big1(1) by (simp add: add.commute)
  moreover have "Suc y + k = length src" using Suc.prems(4) by simp
  ultimately show ?case using Suc.IH [OF run1 process(2) big1(2)] by simp
qed

section \<open>Which polygons are merged\<close>

definition target :: "(nat \<Rightarrow> nat) \<Rightarrow> int list \<Rightarrow> int \<Rightarrow> nat \<Rightarrow> int \<Rightarrow> int" where
  "target sz V thr k b =
     (if V ! k \<noteq> GP_NODATA_MARKER \<and> int (sz k) < thr \<and> b \<noteq> -1 \<and> thr \<le> int (sz (nat b)) then b else -1)"

definition settled ::
    "(nat \<Rightarrow> nat) \<Rightarrow> (nat \<Rightarrow> nat) \<Rightarrow> int list \<Rightarrow> int \<Rightarrow> nat \<Rightarrow> int slots \<Rightarrow> int slots \<Rightarrow> bool" where
  "settled r sz V thr i big0 big =
     (length big = length big0 \<and>
      (\<forall>k < length big0. big ! k = (if k < i \<and> r k = k then map_option (target sz V thr k) (big0 ! k) else big0 ! k)))"

lemma settle_one_ok:
  assumes ok: "polygons_ok P idf r V n sz F sizes" and big0: "big_ok sz fid V n S big0"
    and roots: "\<And>k j. j \<in> nbset fid V S k \<Longrightarrow> j < n \<and> r j = j"
    and "settled r sz V thr i big0 big" and i: "i < n"
  shows "\<exists>big'. settle_one F sizes thr (int i) big = Some big' \<and> settled r sz V thr (Suc i) big0 big'"
proof -
  have len: "length big0 = n" "length big = n" using assms(2,4) by (simp_all add: big_ok_def settled_def)
  have "idmap_of (map r [0..<n]) (panPolyIdMap F)" "values_of V (panPolyValue F)" "length V = n"
    using ok by (simp_all add: polygons_ok_def)
  then have get: "arr_get (panPolyIdMap F) (int i) = Some (int (r i))" "arr_get (panPolyValue F) (int i) = Some (V ! i)"
    using i arr_get_idmap [of "map r [0..<n]" _ i] by auto
  have size: "arr_get sizes (int j) = Some (int (sz j))" if "j < n" "r j = j" for j
    using ok that by (simp add: polygons_ok_def arr_get_def)
  obtain b where b: "big0 ! i = Some b" "best sz (nbset fid V S i) b" using big0 i by (auto simp: big_ok_def)
  have at: "big ! i = Some b" using assms(4) b(1) i len by (simp add: settled_def)
  have keep: "settled r sz V thr (Suc i) big0 big" if "r i \<noteq> i \<or> target sz V thr i b = b"
    using assms(4) that at b(1) by (auto simp: settled_def less_Suc_eq)
  have clear: "settled r sz V thr (Suc i) big0 (big[i := Some (-1)])" if "r i = i" "target sz V thr i b = -1"
    using assms(4) that b(1) i len by (auto simp: settled_def nth_list_update less_Suc_eq)
  have getb: "arr_get big (int i) = Some b" "arr_set big (int i) (-1) = Some (big[i := Some (-1)])"
    using at i len by (simp_all add: arr_get_def arr_set_def)
  show ?thesis
  proof (cases "r i \<noteq> i")
    case True
    then show ?thesis using get keep by (simp add: settle_one_def)
  next
    case False
    then have root: "r i = i" by simp
    show ?thesis
    proof (cases "V ! i = GP_NODATA_MARKER")
      case True
      then have "nbset fid V S i = {}" by (auto simp: nbset_def)
      then have "target sz V thr i b = b" using b(2) by (simp add: best_def target_def)
      then show ?thesis using True root get keep by (simp add: settle_one_def)
    next
      case False
      show ?thesis
      proof (cases "thr \<le> int (sz i) \<or> b = -1")
        case True
        then show ?thesis
          using root False get size [OF i root] getb keep clear
          by (auto simp: settle_one_def target_def)
      next
        case small: False
        then obtain j where j: "j \<in> nbset fid V S i" "b = int j" using b(2) by (auto simp: best_def split: if_splits)
        then have "arr_get sizes b = Some (int (sz j))" using roots size by simp
        then show ?thesis
          using root False small get size [OF i root] getb keep clear j(2)
          by (auto simp: settle_one_def target_def)
      qed
    qed
  qed
qed

lemma settle_ok:
  assumes ok: "polygons_ok P idf r V n sz F sizes" and big0: "big_ok sz fid V n S big0"
    and roots: "\<And>k j. j \<in> nbset fid V S k \<Longrightarrow> j < n \<and> r j = j"
    and "settled r sz V thr i big0 big" and "i + k = n"
  shows "\<exists>big'. settle F sizes thr (int i) k big = Some big' \<and> settled r sz V thr n big0 big'"
  using assms(4,5)
proof (induction k arbitrary: i big)
  case 0
  then show ?case by simp
next
  case (Suc k)
  then have "i < n" by simp
  obtain big1 where "settle_one F sizes thr (int i) big = Some big1" "settled r sz V thr (Suc i) big0 big1"
    using settle_one_ok [where thr = thr, OF ok big0 _ Suc.prems(1) \<open>i < n\<close>] roots by blast
  with Suc.IH [of "Suc i" big1] Suc.prems(2) show ?case by (simp add: add.commute)
qed

section \<open>The new values\<close>

definition new_values ::
    "(nat \<Rightarrow> nat) \<Rightarrow> (pixel \<Rightarrow> nat) \<Rightarrow> int list \<Rightarrow> (nat \<Rightarrow> int) \<Rightarrow> nat \<Rightarrow> nat \<Rightarrow> int list \<Rightarrow> int list" where
  "new_values r idf V tgt n y line =
     map (\<lambda>x. if tgt (r (idf (y, x))) \<noteq> -1 then V ! nat (tgt (r (idf (y, x)))) else line ! x) [0..<n]"

lemma rewrite_line_ok:
  assumes ok: "polygons_ok (pixels n h) idf r V m sz F sizes" and "y < h" and ids: "line_ids n idf y ids"
    and big: "\<And>p. p \<in> pixels n h \<Longrightarrow> arr_get big (int (r (idf p))) = Some (tgt (r (idf p)))"
    and tgt: "\<And>p. p \<in> pixels n h \<Longrightarrow> tgt (r (idf p)) \<noteq> -1 \<Longrightarrow> \<exists>q \<in> pixels n h. tgt (r (idf p)) = int (r (idf q))"
    and "length line = n" and "i + k = n"
  shows "rewrite_line F big ids (map Some (take i (new_values r idf V tgt n y line) @ drop i line)) (int i) k =
    Some (map Some (new_values r idf V tgt n y line))"
  using assms(7)
proof (induction k arbitrary: i)
  case 0
  then show ?case using assms(6) by (simp add: new_values_def)
next
  case (Suc k)
  let ?new = "new_values r idf V tgt n y line" and ?p = "(y, i)"
  let ?t = "tgt (r (idf ?p))"
  have i: "i < n" using Suc.prems by simp
  then have p: "?p \<in> pixels n h" using assms(2) by (simp add: pixels_def)
  have len: "length ?new = n" by (simp add: new_values_def)
  have "?new ! i = (if ?t \<noteq> -1 then V ! nat ?t else line ! i)" using i by (simp add: new_values_def)
  note step = rewrite_step [OF assms(6) len i this]
  have val: "arr_get (panPolyValue F) ?t = Some (V ! nat ?t)" if "?t \<noteq> -1"
    using tgt [OF p that] polygons_okD(4) [OF ok] by auto
  have put: "(if ?t \<noteq> -1 then do { v \<leftarrow> arr_get (panPolyValue F) ?t; arr_set (map Some (take i ?new @ drop i line)) (int i) v }
      else Some (map Some (take i ?new @ drop i line))) = Some (map Some (take (Suc i) ?new @ drop (Suc i) line))"
    using step val by (cases "?t = -1") (simp_all only: if_True if_False simp_thms Option.bind.bind_lunit)
  have "rewrite_line F big ids (map Some (take i ?new @ drop i line)) (int i) (Suc k) =
      rewrite_line F big ids (map Some (take (Suc i) ?new @ drop (Suc i) line)) (int i + 1) k"
    unfolding rewrite_line.simps arr_get_ids [OF ids i] Option.bind.bind_lunit polygons_okD(3) [OF ok p] big [OF p] put
    by (rule refl)
  then show ?case using Suc.IH [of "Suc i"] Suc.prems by (simp add: add.commute)
qed

section \<open>The third pass\<close>

definition new_lines ::
    "(nat \<Rightarrow> nat) \<Rightarrow> (pixel \<Rightarrow> nat) \<Rightarrow> int list \<Rightarrow> (nat \<Rightarrow> int) \<Rightarrow> nat \<Rightarrow> raster \<Rightarrow> nat \<Rightarrow> raster" where
  "new_lines r idf V tgt n src h = map (\<lambda>y. new_values r idf V tgt n y (src ! y)) [0..<h]"

lemma new_lines_Suc: "new_lines r idf V tgt n src (Suc y) = new_lines r idf V tgt n src y @ [new_values r idf V tgt n y (src ! y)]"
  by (simp add: new_lines_def)

lemma third_pass_ok:
  assumes io: "bands_ok io wrote src msk n" "is_raster n src" "mask_fits n src msk"
    and run: "\<forall>y \<le> length src. \<exists>e ids M V r. run_at n (masked src msk) idf y e ids M V r"
    and ok: "polygons_ok (pixels n (length src)) idf r V m sz F sizes"
    and big: "\<And>p. p \<in> pixels n (length src) \<Longrightarrow> arr_get big (int (r (idf p))) = Some (tgt (r (idf p)))"
    and tgt: "\<And>p. p \<in> pixels n (length src) \<Longrightarrow> tgt (r (idf p)) \<noteq> -1 \<Longrightarrow>
      \<exists>q \<in> pixels n (length src). tgt (r (idf p)) = int (r (idf q))"
    and "run_at n (masked src msk) idf y e ids M' V' r'" and "buffers_at n (masked src msk) y ids b"
    and "wrote w (new_lines r idf V tgt n src y)" and "y + k = length src"
  shows "\<exists>w'. third_pass io (int n) F big (int y) k e b w = Some (True, w') \<and>
    wrote w' (new_lines r idf V tgt n src (length src))"
  using assms(8-11)
proof (induction k arbitrary: y e ids M' V' r' b w)
  case 0
  then show ?case by simp
next
  case (Suc k)
  let ?img = "masked src msk" and ?old = "src ! y" and ?new = "new_values r idf V tgt n y (src ! y)"
  have y: "y < length src" using Suc.prems(4) by simp
  note raster = is_raster_masked [OF io(2,3)]
  have y': "y < length ?img" using y raster(2) by simp
  obtain e1 ids1 M1 V1 r1 where run1: "run_at n ?img idf (Suc y) e1 ids1 M1 V1 r1"
    using run y by (metis Suc_leI)
  let ?b = "b\<lparr>panThisLineVal := map Some (?img ! y)\<rparr>" and
    ?b1 = "b\<lparr>panThisLineVal := map Some (?img ! y), panThisLineId := ids1\<rparr>"
  have "length (panThisLineVal b) = n" using Suc.prems(2) by (simp add: buffers_at_def)
  moreover have "length (new_lines r idf V tgt n src y) \<le> y" by (simp add: new_lines_def)
  ultimately have read: "src_read io w (int y) (panThisLineVal b) = (True, map Some ?old)"
    "mask_line io w (int y) (int n) (True, map Some ?old) = Some (True, map Some (?img ! y))"
    using read_masked [OF io Suc.prems(3) _ y] by blast+
  note process = process_buffers_run [OF raster(1) y' Suc.prems(1) run1 Suc.prems(2)]
  have old: "length ?old = n" using io(2) y by (simp add: is_raster_def)
  have "line_ids n idf y ids1" using run1 by (simp add: run_at_def)
  from rewrite_line_ok [OF ok y this big tgt old, of 0 n]
  have rewrite: "rewrite_line F big ids1 (map Some ?old) 0 n = Some (map Some ?new)" by simp
  have "length (new_lines r idf V tgt n src y) = y" "length ?new = n" by (simp_all add: new_lines_def new_values_def)
  then obtain w1 where w1: "dst_write io w (int y) (map Some ?new) = (True, w1)"
    "wrote w1 (new_lines r idf V tgt n src (Suc y))"
    using io(1) Suc.prems(3) y unfolding new_lines_Suc bands_ok_def by blast
  have "progress io 3 (int y)" using io(1) by (simp add: bands_ok_def)
  then have "third_pass io (int n) F big (int y) (Suc k) e b w =
      third_pass io (int n) F big (int (Suc y)) k e1 (swap_lines ?b1) w1"
    using read process(1) rewrite w1(1) by (simp add: add.commute)
  moreover have "Suc y + k = length src" using Suc.prems(4) by simp
  ultimately show ?case using Suc.IH [OF run1 process(2) w1(2)] by simp
qed

end
