(* ===== verification/Sieve_Regions.thy ===== *)
theory Sieve_Regions
  imports Sieve_Facts
begin

text \<open>
  What the sieve filter promises, stated with the regions of the raster instead of polygon ids, and
  the theorem that it keeps the promise for 4-connectedness.
\<close>

section \<open>The promise\<close>

text \<open>The region of a pixel, and the pixels of the regions beside it.  The marker belongs to no
  region that takes part.\<close>

definition region :: "raster \<Rightarrow> nat \<Rightarrow> pixel \<Rightarrow> pixel set" where
  "region img w p = {q \<in> pixels w (length img). (p, q) \<in> same_region img w (length img)}"

definition beside :: "raster \<Rightarrow> nat \<Rightarrow> pixel \<Rightarrow> pixel \<Rightarrow> bool" where
  "beside img w p q =
     (q \<in> pixels w (length img) \<and> (p, q) \<notin> same_region img w (length img) \<and>
      pixel_value img p \<noteq> GP_NODATA_MARKER \<and> pixel_value img q \<noteq> GP_NODATA_MARKER \<and>
      (\<exists>p' \<in> region img w p. \<exists>q' \<in> region img w q. adjacent4 p' q'))"

text \<open>The value \<open>v\<close> a pixel ends with.  \<open>img\<close> is the raster with the mask applied, \<open>old\<close> the value
  the pixel has in the source.\<close>

definition sieved :: "raster \<Rightarrow> nat \<Rightarrow> int \<Rightarrow> pixel \<Rightarrow> int \<Rightarrow> int \<Rightarrow> bool" where
  "sieved img w thr p old v =
     (if pixel_value img p \<noteq> GP_NODATA_MARKER \<and> int (card (region img w p)) < thr \<and>
         (\<exists>q. beside img w p q \<and> thr \<le> int (card (region img w q)))
      then \<exists>q. beside img w p q \<and> v = pixel_value img q \<and>
             (\<forall>q'. beside img w p q' \<longrightarrow> card (region img w q') \<le> card (region img w q))
      else v = old)"

section \<open>Ids and regions\<close>

text \<open>\<open>numbered\<close>: the roots of the ids number the regions, and \<open>V\<close> holds their values.\<close>

definition numbered :: "nat \<Rightarrow> raster \<Rightarrow> (pixel \<Rightarrow> nat) \<Rightarrow> (nat \<Rightarrow> nat) \<Rightarrow> int list \<Rightarrow> bool" where
  "numbered w img idf r V =
     ((\<forall>p \<in> pixels w (length img). \<forall>q \<in> pixels w (length img).
         r (idf p) = r (idf q) \<longleftrightarrow> (p, q) \<in> same_region img w (length img)) \<and>
      (\<forall>p \<in> pixels w (length img). V ! r (idf p) = pixel_value img p))"

lemma run_at_numbered:
  assumes "run_at w img idf (length img) e ids M V r"
  shows "numbered w img idf r V"
proof -
  have inv: "enum_ok e M V r" "\<And>p. p \<in> pixels w (length img) \<Longrightarrow> idf p < length M \<and> V ! idf p = pixel_value img p"
    and lab: "labels (pixels w (length img)) (links (pixel_value img) (pixels w (length img))) (r \<circ> idf)"
    using assms scanned_pixels by (simp_all add: run_at_def scan_inv_def)
  show ?thesis
    using labelsD [OF lab] inv(2) root_value [OF inv(1)] by (simp add: numbered_def same_region_gen)
qed


lemma numbered_region:
  assumes "numbered w img idf r V" and "p \<in> pixels w (length img)"
  shows "region img w p = {q \<in> pixels w (length img). r (idf q) = r (idf p)}"
proof -
  have "(p, q) \<in> same_region img w (length img) \<longleftrightarrow> r (idf q) = r (idf p)" if "q \<in> pixels w (length img)" for q
    using assms that unfolding numbered_def by metis
  then show ?thesis unfolding region_def by blast
qed

lemma nbset_beside:
  assumes num: "numbered w img idf r V" and p: "p \<in> pixels w (length img)"
  shows "nbset (root_of r idf) V (met w (length img) 0) (r (idf p)) = {r (idf q) | q. beside img w p q}"
proof (rule set_eqI)
  fix j
  let ?P = "pixels w (length img)" and ?k = "r (idf p)"
  have met: "met w (length img) 0 = {(a, b). a \<in> ?P \<and> b \<in> ?P \<and> b \<in> nbrs a}"
    by (auto simp: met_def scanned_pixels pixels_def nbrs_def split: if_splits)
  have val: "V ! r (idf a) = pixel_value img a" if "a \<in> ?P" for a using num that by (simp add: numbered_def)
  have eq: "(a, b) \<in> same_region img w (length img) \<longleftrightarrow> r (idf a) = r (idf b)" if "a \<in> ?P" "b \<in> ?P" for a b
    using num that by (simp add: numbered_def)
  have "j \<in> nbset (root_of r idf) V (met w (length img) 0) ?k \<longleftrightarrow>
      j \<noteq> ?k \<and> V ! ?k \<noteq> GP_NODATA_MARKER \<and> V ! j \<noteq> GP_NODATA_MARKER \<and>
      (\<exists>a \<in> ?P. \<exists>b \<in> ?P. adjacent4 a b \<and> r (idf a) = ?k \<and> r (idf b) = j)"
    unfolding nbset_def met adjacent4_nbrs root_of_apply by blast
  also have "\<dots> \<longleftrightarrow> (\<exists>q. beside img w p q \<and> j = r (idf q))"
  proof
    assume l: "j \<noteq> ?k \<and> V ! ?k \<noteq> GP_NODATA_MARKER \<and> V ! j \<noteq> GP_NODATA_MARKER \<and>
      (\<exists>a \<in> ?P. \<exists>b \<in> ?P. adjacent4 a b \<and> r (idf a) = ?k \<and> r (idf b) = j)"
    then obtain a b where ab: "a \<in> ?P" "b \<in> ?P" "adjacent4 a b" "r (idf a) = ?k" "r (idf b) = j" by blast
    have "a \<in> region img w p" "b \<in> region img w b"
      using ab p by (auto simp: numbered_region [OF num])
    then have "beside img w p b"
      using ab l val [OF p] val [OF ab(2)] eq [OF p ab(2)] unfolding beside_def by auto
    then show "\<exists>q. beside img w p q \<and> j = r (idf q)" using ab(5) by blast
  next
    assume "\<exists>q. beside img w p q \<and> j = r (idf q)"
    then obtain q where q: "beside img w p q" "j = r (idf q)" by blast
    then have qP: "q \<in> ?P" by (simp add: beside_def)
    from q(1) obtain a b where "a \<in> region img w p" "b \<in> region img w q" "adjacent4 a b" by (auto simp: beside_def)
    then have "\<exists>a \<in> ?P. \<exists>b \<in> ?P. adjacent4 a b \<and> r (idf a) = ?k \<and> r (idf b) = j"
      using p qP q(2) by (auto simp: numbered_region [OF num])
    then show "j \<noteq> ?k \<and> V ! ?k \<noteq> GP_NODATA_MARKER \<and> V ! j \<noteq> GP_NODATA_MARKER \<and>
      (\<exists>a \<in> ?P. \<exists>b \<in> ?P. adjacent4 a b \<and> r (idf a) = ?k \<and> r (idf b) = j)"
      using q val [OF p] val [OF qP] eq [OF p qP] by (auto simp: beside_def)
  qed
  finally show "j \<in> nbset (root_of r idf) V (met w (length img) 0) ?k \<longleftrightarrow> j \<in> {r (idf q) | q. beside img w p q}"
    by blast
qed

section \<open>The filter\<close>

definition size_of :: "nat \<Rightarrow> raster \<Rightarrow> (pixel \<Rightarrow> nat) \<Rightarrow> (nat \<Rightarrow> nat) \<Rightarrow> nat \<Rightarrow> nat" where
  "size_of w img idf r k = card {p \<in> pixels w (length img). r (idf p) = k}"

lemma size_of_region:
  "numbered w img idf r V \<Longrightarrow> p \<in> pixels w (length img) \<Longrightarrow> size_of w img idf r (r (idf p)) = card (region img w p)"
  by (simp add: size_of_def numbered_region)

text \<open>The neighbour kept for a polygon decides the value its pixels get.\<close>

lemma target_sieved:
  assumes num: "numbered w img idf r V" and p: "p \<in> pixels w (length img)"
    and "best (size_of w img idf r) (nbset (root_of r idf) V (met w (length img) 0) (r (idf p))) b"
    and t_def: "t = target (size_of w img idf r) V thr (r (idf p)) b"
  shows "sieved img w thr p old (if t \<noteq> -1 then V ! nat t else old)"
    and "t \<noteq> -1 \<Longrightarrow> \<exists>q \<in> pixels w (length img). t = int (r (idf q))"
proof -
  let ?N = "{r (idf q) | q. beside img w p q}" and ?sz = "size_of w img idf r"
  have b: "best ?sz ?N b" using assms(3) nbset_beside [OF num p] by simp
  have q: "q \<in> pixels w (length img)" "V ! r (idf q) = pixel_value img q" "?sz (r (idf q)) = card (region img w q)"
    if "beside img w p q" for q
    using that num size_of_region [OF num] by (auto simp: beside_def numbered_def)
  have vp: "V ! r (idf p) = pixel_value img p" and sp: "?sz (r (idf p)) = card (region img w p)"
    using num p size_of_region [OF num p] by (auto simp: numbered_def)
  have "sieved img w thr p old (if t \<noteq> -1 then V ! nat t else old) \<and>
      (t \<noteq> -1 \<longrightarrow> (\<exists>q \<in> pixels w (length img). t = int (r (idf q))))"
  proof (cases "?N = {}")
    case True
    then have "t = -1" "\<nexists>q. beside img w p q" using b by (auto simp: best_def t_def target_def)
    then show ?thesis by (simp add: sieved_def)
  next
    case False
    then obtain q0 where q0: "beside img w p q0" "b = int (r (idf q0))" "\<forall>j \<in> ?N. ?sz j \<le> ?sz (r (idf q0))"
      using b unfolding best_def if_not_P [OF False] by blast
    then have most: "card (region img w q') \<le> card (region img w q0)" if "beside img w p q'" for q'
    proof -
      have "?sz (r (idf q')) \<le> ?sz (r (idf q0))" using q0(3) that by blast
      then show ?thesis unfolding q(3) [OF that] q(3) [OF q0(1)] .
    qed
    let ?small = "pixel_value img p \<noteq> GP_NODATA_MARKER \<and> int (card (region img w p)) < thr"
    have ex: "(\<exists>q. beside img w p q \<and> thr \<le> int (card (region img w q))) \<longleftrightarrow> thr \<le> int (card (region img w q0))"
      using most q0(1) by fastforce
    have t: "t = (if ?small \<and> thr \<le> int (card (region img w q0)) then int (r (idf q0)) else -1)"
      by (simp add: t_def target_def vp sp q0(2) q(3) [OF q0(1)])
    show ?thesis
    proof (cases "?small \<and> thr \<le> int (card (region img w q0))")
      case True
      have "sieved img w thr p old (pixel_value img q0)"
        unfolding sieved_def ex using True q0(1) most by (simp only: simp_thms if_True) blast
      then show ?thesis using True t q(1,2) [OF q0(1)] by auto
    next
      case False
      then have "t = -1" using t by (simp only: if_False)
      moreover have "sieved img w thr p old old" unfolding sieved_def ex using False by argo
      ultimately show ?thesis by simp
    qed
  qed
  then show "sieved img w thr p old (if t \<noteq> -1 then V ! nat t else old)"
    and "t \<noteq> -1 \<Longrightarrow> \<exists>q \<in> pixels w (length img). t = int (r (idf q))" by auto
qed

lemma polygons_ok_final:
  assumes "run_at n img idf (length img) e ids M V r" and "sizes_ok idf (pixels n (length img)) (length M) sizes0"
    and "is_raster n img"
  shows "\<exists>F c sizes. CompleteMerges e = Some (F, c) \<and> nNextPolygonId F = int (length M) \<and>
    push_sizes (panPolyIdMap F) sizes0 0 (length M) = Some sizes \<and>
    polygons_ok (pixels n (length img)) idf r V (length M) (size_of n img idf r) F sizes"
proof -
  let ?P = "pixels n (length img)" and ?m = "length M"
  have ok: "enum_ok e M V r" and ids: "\<And>p. p \<in> ?P \<Longrightarrow> idf p < ?m"
    using run_at_ids [OF assms(1)] by blast+
  then have forest: "forest M r" by (simp add: enum_ok_def)
  have r: "\<forall>k < ?m. r k < ?m \<and> r (r k) = r k" using forestD [OF forest] by blast
  obtain F c where F: "CompleteMerges e = Some (F, c)" "enum_ok F (map r [0..<?m]) V r"
    using CompleteMerges_ok [OF ok] by blast
  then have map: "idmap_of (map r [0..<?m]) (panPolyIdMap F)" by (simp add: enum_ok_def)
  have card: "card ?P < 2 ^ 30" using assms(3) by (simp add: card_pixels is_raster_def id_limit_def)
  have "pushed_ok ?P idf r ?m 0 sizes0"
  proof -
    have "{p \<in> ?P. r (idf p) = k \<and> idf p = k} = {p \<in> ?P. idf p = k}" if "r k = k" for k using that by auto
    then show ?thesis using assms(2) by (simp add: pushed_ok_def sizes_ok_def pushed_def)
  qed
  from push_sizes_ok [OF map r finite_pixels card this, of ?m] obtain sizes where
    sizes: "push_sizes (panPolyIdMap F) sizes0 0 ?m = Some sizes" "pushed_ok ?P idf r ?m ?m sizes" by auto
  have "{p \<in> ?P. r (idf p) = k \<and> (idf p = k \<or> idf p < ?m)} = {p \<in> ?P. r (idf p) = k}" for k using ids by auto
  then have "polygons_ok ?P idf r V ?m (size_of n img idf r) F sizes"
    using F(2) r ids sizes(2) by (simp add: polygons_ok_def enum_ok_def pushed_ok_def pushed_def size_of_def)
  with F sizes(1) show ?thesis by (simp add: enum_ok_def)
qed

lemma buffers_at_start:
  "buffers_at n img y ids b \<Longrightarrow> buffers_at n img 0 ids' b"
  "buffers_at n img 0 ids' (new_buffers (int n))"
  by (simp_all add: buffers_at_def new_buffers_def new_line_def)

lemma big_ok_start: "big_ok sz fid V n (met w 0 0) (replicate n (Some (-1)))"
  by (simp add: big_ok_def met_def scanned_start nbset_def best_def)

lemma GDALSieveFilter_ok:
  assumes io: "bands_ok io wrote src msk n" "is_raster n src" "mask_fits n src msk" "wrote w []"
    and "img = masked src msk"
  shows "\<exists>w' out. GDALSieveFilter io w (int n) (int (length src)) thr 4 = Some (True, w') \<and> wrote w' out \<and>
    length out = length src \<and> (\<forall>l \<in> set out. length l = n) \<and>
    (\<forall>p \<in> pixels n (length src). sieved img n thr p (pixel_value src p) (pixel_value out p))"
proof -
  let ?h = "length src"
  let ?P = "pixels n ?h"
  have raster: "is_raster n img" "length img = ?h" using is_raster_masked [OF io(2,3)] assms(5) by simp_all
  obtain idf where "\<forall>y \<le> length img. \<exists>e ids M V r. run_at n img idf y e ids M V r"
    using run_exists [OF raster(1)] by blast
  then have run: "\<forall>y \<le> ?h. \<exists>e ids M V r. run_at n (masked src msk) idf y e ids M V r"
    using raster(2) assms(5) by simp
  then obtain e0 ids0 M0 V0 r0 where "run_at n img idf 0 e0 ids0 M0 V0 r0" using assms(5) by blast
  moreover from this have "e0 = GDALRasterPolygonEnumerator_new 4" "ids0 = []" by (simp_all add: run_at_def)
  moreover have "M0 = []" if "enum_ok (GDALRasterPolygonEnumerator_new 4) M0 V0 r0"
    using that by (simp add: enum_ok_def GDALRasterPolygonEnumerator_new_def)
  ultimately have start: "run_at n img idf 0 (GDALRasterPolygonEnumerator_new 4) [] [] V0 r0"
    using run_at_ids(1) by blast
  have "sizes_ok idf (pixels n 0) (length ([] :: nat list)) []" by (simp add: sizes_ok_def)
  from first_pass_ok [OF io run start [unfolded assms(5)] buffers_at_start(2) this, of ?h]
  obtain e ids M V r b sizes0 where
    first: "first_pass io w (int n) 0 ?h (GDALRasterPolygonEnumerator_new 4) (new_buffers (int n)) [] = Some (True, e, b, sizes0)"
      "run_at n img idf ?h e ids M V r" "buffers_at n img ?h ids b" "sizes_ok idf ?P (length M) sizes0"
    using assms(5) by auto
  let ?m = "length M" and ?sz = "size_of n img idf r" and ?fid = "root_of r idf"
  obtain F c sizes where
    F: "CompleteMerges e = Some (F, c)" "nNextPolygonId F = int ?m" "push_sizes (panPolyIdMap F) sizes0 0 ?m = Some sizes"
      "polygons_ok ?P idf r V ?m ?sz F sizes"
    using polygons_ok_final [OF first(2) [folded raster(2)] _ raster(1), unfolded raster(2), OF first(4)] by blast
  have num: "numbered n img idf r V" using run_at_numbered first(2) raster(2) by metis
  have len: "length sizes = ?m" using F(4) by (simp add: polygons_ok_def)
  from second_pass_ok [OF io run F(4) start [unfolded assms(5)] buffers_at_start(1) [OF first(3) [unfolded assms(5)]] big_ok_start, of ?h]
  obtain e2 b2 ids2 big1 where
    second: "second_pass io w 4 (int n) F sizes 0 ?h (GDALRasterPolygonEnumerator_new 4) b (replicate ?m (Some (-1))) =
        Some (True, e2, b2, big1)"
      "nConnectedness e2 = 4" "buffers_at n img ?h ids2 b2" "big_ok ?sz ?fid V ?m (met n ?h 0) big1"
    using assms(5) by auto
  have "met n ?h 0 \<subseteq> ?P \<times> ?P" by (auto simp: met_def scanned_def pixels_def nbrs_def split: if_splits)
  note members = nbset_fid [OF this]
  have roots: "j < ?m \<and> r j = j" if j: "j \<in> nbset ?fid V (met n ?h 0) k" for k j
  proof -
    obtain q where "q \<in> ?P" "j = r (idf q)" using members [OF j] unfolding root_of_def by blast
    then show ?thesis using polygons_okD(2,6) [OF F(4)] by blast
  qed
  have "settled r ?sz V thr 0 big1 big1" by (simp add: settled_def)
  from settle_ok [OF F(4) second(4) _ this, of ?m] roots obtain big where
    big: "settle F sizes thr 0 ?m big1 = Some big" "settled r ?sz V thr ?m big1 big" by auto
  define tgt where "tgt k = target ?sz V thr k (the (big1 ! k))" for k
  have at: "arr_get big (int (r (idf p))) = Some (tgt (r (idf p)))"
    and best: "best ?sz (nbset ?fid V (met n ?h 0) (r (idf p))) (the (big1 ! r (idf p)))" if "p \<in> ?P" for p
  proof -
    note P = polygons_okD [OF F(4) that]
    obtain b where b: "big1 ! r (idf p) = Some b" "best ?sz (nbset ?fid V (met n ?h 0) (r (idf p))) b"
      using second(4) P(2) by (auto simp: big_ok_def)
    then show "best ?sz (nbset ?fid V (met n ?h 0) (r (idf p))) (the (big1 ! r (idf p)))" by simp
    have "length big1 = ?m" using second(4) by (simp add: big_ok_def)
    then show "arr_get big (int (r (idf p))) = Some (tgt (r (idf p)))"
      using big(2) P(2,6) b(1) by (simp add: settled_def arr_get_def tgt_def)
  qed
  note sieve = target_sieved [OF num _ _ tgt_def, unfolded raster(2)]
  let ?out = "new_lines r idf V tgt n src ?h"
  have "wrote w (new_lines r idf V tgt n src 0)" using io(4) by (simp add: new_lines_def)
  moreover have "\<exists>q \<in> ?P. tgt (r (idf p)) = int (r (idf q))" if "p \<in> ?P" "tgt (r (idf p)) \<noteq> -1" for p
    using sieve(2) [OF that(1) best [OF that(1)] that(2)] .
  ultimately obtain w' where third: "third_pass io (int n) F big 0 ?h (enum_Clear e2) b2 w = Some (True, w')" "wrote w' ?out"
    using third_pass_ok [OF io(1-3) run F(4) at _ start [unfolded assms(5)]
        buffers_at_start(1) [OF second(3) [unfolded assms(5)]], where k = ?h] second(2)
    by (simp add: enum_Clear_new) blast
  have "GDALSieveFilter io w (int n) (int ?h) thr 4 = Some (True, w')"
    using first(1) F(1-3) second(1) big(1) third(1) len by (simp add: GDALSieveFilter_def)
  moreover have "length ?out = ?h" "\<forall>l \<in> set ?out. length l = n" by (auto simp: new_lines_def new_values_def)
  moreover have "sieved img n thr p (pixel_value src p) (pixel_value ?out p)" if p: "p \<in> ?P" for p
  proof -
    have "pixel_value ?out p =
        (if tgt (r (idf p)) \<noteq> -1 then V ! nat (tgt (r (idf p))) else pixel_value src p)"
      using p by (auto simp: pixels_def pixel_value_def new_lines_def new_values_def)
    then show ?thesis using sieve(1) [OF p best [OF p]] by simp
  qed
  ultimately show ?thesis using third(2) by blast
qed

text \<open>
  C3.  The sieve filter does what it promises for 4-connectedness.  For every raster of fewer than
  \<open>2\<^sup>28 - 10\<close> pixels, every mask of its size and every threshold, with bands that can be read and
  written line by line (in place too), \<open>GDALSieveFilter\<close> ends without a fault and reports success.
  It writes every line, and a pixel whose region is smaller than the threshold and beside one that
  is not ends with the value of a largest region beside its own; every other pixel, masked ones
  among them, keeps its value.
\<close>

theorem GDALSieveFilter_sieves:
  assumes "bands_ok io wrote src msk n" and "is_raster n src" and "mask_fits n src msk" and "wrote w []"
  shows "\<exists>w' out. GDALSieveFilter io w (int n) (int (length src)) thr 4 = Some (True, w') \<and> wrote w' out \<and>
    length out = length src \<and> (\<forall>l \<in> set out. length l = n) \<and>
    (\<forall>p \<in> pixels n (length src).
       sieved (masked src msk) n thr p (pixel_value src p) (pixel_value out p))"
  by (rule GDALSieveFilter_ok [OF assms refl])

text \<open>Bands in memory, with the source as its own destination.\<close>

definition in_place :: "raster option \<Rightarrow> raster bands" where
  "in_place msk =
     \<lparr>src_read = (\<lambda>w y buf. (True, map Some (w ! nat y))),
      mask_read = map_option (\<lambda>m w y buf. (True, map Some (m ! nat y))) msk,
      dst_write = (\<lambda>w y l. (True, w[nat y := map the l])),
      progress = (\<lambda>pass y. True)\<rparr>"

definition written_over :: "raster \<Rightarrow> raster \<Rightarrow> raster \<Rightarrow> bool" where
  "written_over src w ls = (length ls \<le> length src \<and> w = ls @ drop (length ls) src)"

lemma in_place_ok: "bands_ok (in_place msk) (written_over src) src msk n"
proof -
  have "written_over src (w[length ls := l]) (ls @ [l])" if "written_over src w ls" "length ls < length src" for w ls l
    using that by (simp add: written_over_def list_update_append Cons_nth_drop_Suc [symmetric])
  moreover have "w ! y = src ! y" if "written_over src w ls" "length ls \<le> y" "y < length src" for w ls y
    using that by (simp add: written_over_def nth_append)
  ultimately show ?thesis by (auto simp: bands_ok_def in_place_def comp_def split: option.splits)
qed

theorem GDALSieveFilter_sieves_witness:
  "let src = [[1, 1, 1], [1, 2, 1], [3, 3, 1]]; msk = [[1, 1, 1], [1, 1, 1], [0, 1, 1]] in
   \<exists>w' out. GDALSieveFilter (in_place (Some msk)) src 3 3 2 4 = Some (True, w') \<and> written_over src w' out \<and>
     length out = 3 \<and> (\<forall>p \<in> pixels 3 3. sieved (masked src (Some msk)) 3 2 p (pixel_value src p) (pixel_value out p))"
proof -
  let ?src = "[[1, 1, 1], [1, 2, 1], [3, 3, 1]] :: raster" and ?msk = "[[1, 1, 1], [1, 1, 1], [0, 1, 1]] :: raster"
  have raster: "is_raster 3 ?src" "mask_fits 3 ?src (Some ?msk)" "written_over ?src ?src []" "length ?src = 3"
    by (simp_all add: is_raster_def id_limit_def mask_fits_def written_over_def)
  from GDALSieveFilter_sieves [OF in_place_ok raster(1-3), of 2] show ?thesis
    unfolding Let_def raster(4) by simp blast
qed

end
