(* ===== verification/Pixel_Copy.thy ===== *)
theory Pixel_Copy
  imports Data_Type
begin

text \<open>
  Copying of pixels between buffers, \<^verbatim>\<open>gcore/rasterio.cpp\<close>: \<open>GDALCopyWords\<close> with its conversions
  between integer types, \<open>GDALSwapWords\<close> and \<open>GDALCopyBits\<close>.

  A buffer is the list of its bytes and a pointer into it is an offset; an access outside the
  buffer is a fault.  Source and destination are different buffers.  Words are stored with the least
  significant byte first (\<^verbatim>\<open>CPL_LSB\<close>).  What passes through a \<^verbatim>\<open>double\<close> is a parameter
  \<open>via_double\<close> from the two types and the source word to the destination word.
\<close>

unbundle bit_operations_syntax

type_synonym octets = "8 word list"

section \<open>Access to buffers\<close>

definition load_bytes :: "octets \<Rightarrow> int \<Rightarrow> nat \<Rightarrow> octets option" where
  "load_bytes xs a w =
     (if 0 \<le> a \<and> a + int w \<le> int (length xs) then Some (take w (drop (nat a) xs)) else None)"

definition store_bytes :: "octets \<Rightarrow> int \<Rightarrow> octets \<Rightarrow> octets option" where
  "store_bytes xs a bs =
     (if 0 \<le> a \<and> a + int (length bs) \<le> int (length xs)
      then Some (take (nat a) xs @ bs @ drop (nat a + length bs) xs) else None)"

text \<open>\<^verbatim>\<open>memcpy\<close>; a negative size is one that no buffer has.\<close>

definition mem_copy :: "octets \<Rightarrow> int \<Rightarrow> octets \<Rightarrow> int \<Rightarrow> int \<Rightarrow> octets option" where
  "mem_copy dst d src s n =
     (if n < 0 then None else do { bs \<leftarrow> load_bytes src s (nat n); store_bytes dst d bs })"

section \<open>Values of words\<close>

fun unsigned_le :: "octets \<Rightarrow> int" where
  "unsigned_le [] = 0"
| "unsigned_le (b # bs) = uint b + 256 * unsigned_le bs"

definition signed_le :: "octets \<Rightarrow> int" where
  "signed_le bs =
     (let v = unsigned_le bs; m = 256 ^ length bs in if 2 * v < m then v else v - m)"

fun put_le :: "nat \<Rightarrow> int \<Rightarrow> octets" where
  "put_le 0 v = []"
| "put_le (Suc n) v = word_of_int v # put_le n (v div 256)"

definition word_size_of :: "GDALDataType \<Rightarrow> nat" where
  "word_size_of e = nat (GDALGetDataTypeSize e div 8)"

text \<open>The real and the imaginary part of a word of an integer type.\<close>

definition fetch_word :: "GDALDataType \<Rightarrow> octets \<Rightarrow> (int \<times> int) option" where
  "fetch_word eSrcType bs =
     (case eSrcType of
        GDT_Byte \<Rightarrow> Some (unsigned_le bs, 0)
      | GDT_UInt16 \<Rightarrow> Some (unsigned_le bs, 0)
      | GDT_Int16 \<Rightarrow> Some (signed_le bs, 0)
      | GDT_UInt32 \<Rightarrow> Some (unsigned_le bs, 0)
      | GDT_Int32 \<Rightarrow> Some (signed_le bs, 0)
      | GDT_CInt16 \<Rightarrow> Some (signed_le (take 2 bs), signed_le (drop 2 bs))
      | GDT_CInt32 \<Rightarrow> Some (signed_le (take 4 bs), signed_le (drop 4 bs))
      | _ \<Rightarrow> None)"

text \<open>The inner \<^verbatim>\<open>switch\<close> statements: what is stored for each pair of types, \<open>None\<close> for those that
  go through a \<^verbatim>\<open>double\<close>.\<close>

definition from_Byte :: "GDALDataType \<Rightarrow> int \<Rightarrow> octets option" where
  "from_Byte eDstType byVal =
     (case eDstType of
        GDT_UInt16 \<Rightarrow> Some (put_le 2 byVal)
      | GDT_Int16 \<Rightarrow> Some (put_le 2 byVal)
      | GDT_UInt32 \<Rightarrow> Some (put_le 4 byVal)
      | GDT_Int32 \<Rightarrow> Some (put_le 4 byVal)
      | GDT_CInt16 \<Rightarrow> Some (put_le 2 byVal @ put_le 2 0)
      | GDT_CInt32 \<Rightarrow> Some (put_le 4 byVal @ put_le 4 0)
      | _ \<Rightarrow> None)"

definition from_UInt16 :: "GDALDataType \<Rightarrow> int \<Rightarrow> octets option" where
  "from_UInt16 eDstType nVal =
     (case eDstType of
        GDT_Byte \<Rightarrow> Some (put_le 1 (if nVal > 255 then 255 else nVal))
      | GDT_Int16 \<Rightarrow> Some (put_le 2 (if nVal > 32767 then 32767 else nVal))
      | GDT_UInt32 \<Rightarrow> Some (put_le 4 nVal)
      | GDT_Int32 \<Rightarrow> Some (put_le 4 nVal)
      | GDT_CInt16 \<Rightarrow> Some (put_le 2 (if nVal > 32767 then 32767 else nVal) @ put_le 2 0)
      | GDT_CInt32 \<Rightarrow> Some (put_le 4 nVal @ put_le 4 0)
      | _ \<Rightarrow> None)"

definition from_Int16 :: "GDALDataType \<Rightarrow> int \<Rightarrow> octets option" where
  "from_Int16 eDstType nVal =
     (case eDstType of
        GDT_Byte \<Rightarrow> Some (put_le 1 (if nVal > 255 then 255 else if nVal < 0 then 0 else nVal))
      | GDT_UInt16 \<Rightarrow> Some (put_le 2 (if nVal < 0 then 0 else nVal))
      | GDT_UInt32 \<Rightarrow> Some (put_le 4 (if nVal < 0 then 0 else nVal))
      | GDT_Int32 \<Rightarrow> Some (put_le 4 nVal)
      | GDT_CInt16 \<Rightarrow> Some (put_le 2 nVal @ put_le 2 0)
      | GDT_CInt32 \<Rightarrow> Some (put_le 4 nVal @ put_le 4 0)
      | _ \<Rightarrow> None)"

definition from_Int32 :: "GDALDataType \<Rightarrow> int \<Rightarrow> octets option" where
  "from_Int32 eDstType nVal =
     (case eDstType of
        GDT_Byte \<Rightarrow> Some (put_le 1 (if nVal > 255 then 255 else if nVal < 0 then 0 else nVal))
      | GDT_UInt16 \<Rightarrow> Some (put_le 2 (if nVal > 65535 then 65535 else if nVal < 0 then 0 else nVal))
      | GDT_Int16 \<Rightarrow> Some (put_le 2 (if nVal > 32767 then 32767 else if nVal < -32768 then -32768 else nVal))
      | GDT_UInt32 \<Rightarrow> Some (put_le 4 (if nVal < 0 then 0 else nVal))
      | GDT_CInt16 \<Rightarrow>
          Some (put_le 2 (if nVal > 32767 then 32767 else if nVal < -32768 then -32768 else nVal) @ put_le 2 0)
      | GDT_CInt32 \<Rightarrow> Some (put_le 4 nVal @ put_le 4 0)
      | _ \<Rightarrow> None)"

definition from_UInt32 :: "GDALDataType \<Rightarrow> int \<Rightarrow> octets option" where
  "from_UInt32 eDstType nVal =
     (case eDstType of
        GDT_Byte \<Rightarrow> Some (put_le 1 (if nVal > 255 then 255 else if nVal < 0 then 0 else nVal))
      | GDT_UInt16 \<Rightarrow> Some (put_le 2 (if nVal > 65535 then 65535 else nVal))
      | GDT_Int16 \<Rightarrow> Some (put_le 2 (if nVal > 32767 then 32767 else nVal))
      | GDT_Int32 \<Rightarrow> Some (put_le 4 (if nVal > 2147483647 then 2147483647 else nVal))
      | GDT_CInt16 \<Rightarrow> Some (put_le 2 (if nVal > 32767 then 32767 else nVal) @ put_le 2 0)
      | GDT_CInt32 \<Rightarrow> Some (put_le 4 (if nVal > 2147483647 then 2147483647 else nVal) @ put_le 4 0)
      | _ \<Rightarrow> None)"

definition from_CInt16 :: "GDALDataType \<Rightarrow> int \<Rightarrow> int \<Rightarrow> octets option" where
  "from_CInt16 eDstType nVal nImag =
     (case eDstType of
        GDT_Byte \<Rightarrow> Some (put_le 1 (if nVal > 255 then 255 else if nVal < 0 then 0 else nVal))
      | GDT_Int16 \<Rightarrow> Some (put_le 2 nVal)
      | GDT_UInt16 \<Rightarrow> Some (put_le 2 (if nVal < 0 then 0 else nVal))
      | GDT_UInt32 \<Rightarrow> Some (put_le 4 (if nVal < 0 then 0 else nVal))
      | GDT_Int32 \<Rightarrow> Some (put_le 4 nVal)
      | GDT_CInt32 \<Rightarrow> Some (put_le 4 nVal @ put_le 4 nImag)
      | _ \<Rightarrow> None)"

definition from_CInt32 :: "GDALDataType \<Rightarrow> int \<Rightarrow> int \<Rightarrow> octets option" where
  "from_CInt32 eDstType nVal nImag =
     (case eDstType of
        GDT_Byte \<Rightarrow> Some (put_le 1 (if nVal > 255 then 255 else if nVal < 0 then 0 else nVal))
      | GDT_Int16 \<Rightarrow> Some (put_le 2 (if nVal > 32767 then 32767 else if nVal < -32768 then -32768 else nVal))
      | GDT_UInt16 \<Rightarrow> Some (put_le 2 (if nVal > 65535 then 65535 else if nVal < 0 then 0 else nVal))
      | GDT_UInt32 \<Rightarrow> Some (put_le 4 (if nVal < 0 then 0 else nVal))
      | GDT_Int32 \<Rightarrow> Some (put_le 4 nVal)
      | GDT_CInt16 \<Rightarrow>
          Some (put_le 2 (if nVal > 32767 then 32767 else if nVal < -32768 then -32768 else nVal)
                @ put_le 2 (if nImag > 32767 then 32767 else if nImag < -32768 then -32768 else nImag))
      | _ \<Rightarrow> None)"

definition direct_word :: "GDALDataType \<Rightarrow> GDALDataType \<Rightarrow> octets \<Rightarrow> octets option" where
  "direct_word eSrcType eDstType bs = do {
     (re, im) \<leftarrow> fetch_word eSrcType bs;
     (case eSrcType of
        GDT_Byte \<Rightarrow> from_Byte eDstType re
      | GDT_UInt16 \<Rightarrow> from_UInt16 eDstType re
      | GDT_Int16 \<Rightarrow> from_Int16 eDstType re
      | GDT_UInt32 \<Rightarrow> from_UInt32 eDstType re
      | GDT_Int32 \<Rightarrow> from_Int32 eDstType re
      | GDT_CInt16 \<Rightarrow> from_CInt16 eDstType re im
      | GDT_CInt32 \<Rightarrow> from_CInt32 eDstType re im
      | _ \<Rightarrow> None)
   }"

type_synonym via = "GDALDataType \<Rightarrow> GDALDataType \<Rightarrow> octets \<Rightarrow> octets"

definition convert_word :: "via \<Rightarrow> GDALDataType \<Rightarrow> GDALDataType \<Rightarrow> octets \<Rightarrow> octets" where
  "convert_word via_double eSrcType eDstType bs =
     (case direct_word eSrcType eDstType bs of
        Some r \<Rightarrow> r
      | None \<Rightarrow> via_double eSrcType eDstType bs)"

section \<open>GDALCopyWords\<close>

text \<open>\<open>n\<close> words from word \<open>i\<close> on, at offsets computed from \<open>i\<close>.\<close>

fun copy_indexed ::
    "(octets \<Rightarrow> octets) \<Rightarrow> nat \<Rightarrow> octets \<Rightarrow> int \<Rightarrow> int \<Rightarrow> int \<Rightarrow> int \<Rightarrow> nat \<Rightarrow> nat \<Rightarrow> octets \<Rightarrow> octets option" where
  "copy_indexed f w src s nSrcPixelOffset d nDstPixelOffset i 0 dst = Some dst"
| "copy_indexed f w src s nSrcPixelOffset d nDstPixelOffset i (Suc n) dst = do {
     bs \<leftarrow> load_bytes src (s + to_i32 (int i * nSrcPixelOffset)) w;
     dst1 \<leftarrow> store_bytes dst (d + to_i32 (int i * nDstPixelOffset)) (f bs);
     copy_indexed f w src s nSrcPixelOffset d nDstPixelOffset (Suc i) n dst1
   }"

text \<open>\<open>n\<close> bytes, the pointers advanced after each.\<close>

fun copy_stepping :: "octets \<Rightarrow> int \<Rightarrow> int \<Rightarrow> int \<Rightarrow> int \<Rightarrow> nat \<Rightarrow> octets \<Rightarrow> octets option" where
  "copy_stepping src pabySrc nSrcPixelOffset pabyDst nDstPixelOffset 0 dst = Some dst"
| "copy_stepping src pabySrc nSrcPixelOffset pabyDst nDstPixelOffset (Suc n) dst = do {
     bs \<leftarrow> load_bytes src pabySrc 1;
     dst1 \<leftarrow> store_bytes dst pabyDst bs;
     copy_stepping src (pabySrc + nSrcPixelOffset) nSrcPixelOffset (pabyDst + nDstPixelOffset) nDstPixelOffset n dst1
   }"

text \<open>\<^verbatim>\<open>ASSIGN\<close> for the given indices.\<close>

fun assign_bytes :: "octets \<Rightarrow> int \<Rightarrow> int \<Rightarrow> int \<Rightarrow> int \<Rightarrow> nat list \<Rightarrow> octets \<Rightarrow> octets option" where
  "assign_bytes src pabySrc so pabyDst dof [] dst = Some dst"
| "assign_bytes src pabySrc so pabyDst dof (k # ks) dst = do {
     bs \<leftarrow> load_bytes src (pabySrc + so * int k) 1;
     dst1 \<leftarrow> store_bytes dst (pabyDst + dof * int k) bs;
     assign_bytes src pabySrc so pabyDst dof ks dst1
   }"

text \<open>\<^verbatim>\<open>ASSIGN_LOOP\<close>: rounds of sixteen.  The result holds the advanced pointers.\<close>

fun assign_loop :: "octets \<Rightarrow> int \<Rightarrow> int \<Rightarrow> int \<Rightarrow> int \<Rightarrow> nat \<Rightarrow> octets \<Rightarrow> (octets \<times> int \<times> int) option" where
  "assign_loop src pabySrc so pabyDst dof 0 dst = Some (dst, pabySrc, pabyDst)"
| "assign_loop src pabySrc so pabyDst dof (Suc r) dst = do {
     dst1 \<leftarrow> assign_bytes src pabySrc so pabyDst dof [0, 1, 2, 3, 4, 5, 6, 7, 8, 9, 10, 11, 12, 13, 14, 15] dst;
     assign_loop src (pabySrc + so * 16) so (pabyDst + dof * 16) dof r dst1
   }"

definition copy_single_bytes :: "octets \<Rightarrow> int \<Rightarrow> int \<Rightarrow> int \<Rightarrow> int \<Rightarrow> int \<Rightarrow> octets \<Rightarrow> octets option" where
  "copy_single_bytes src s nSrcPixelOffset d nDstPixelOffset nWordCount dst =
     (if nWordCount > 100 \<and>
         (nSrcPixelOffset, nDstPixelOffset) \<in> {(3, 1), (1, 3), (4, 1), (1, 4), (3, 4), (4, 3)}
      then do {
        (dst1, pabySrc, pabyDst) \<leftarrow>
          assign_loop src s nSrcPixelOffset d nDstPixelOffset (nat (nWordCount div 16)) dst;
        copy_stepping src pabySrc nSrcPixelOffset pabyDst nDstPixelOffset (nat (nWordCount mod 16)) dst1
      }
      else if nWordCount < 0 then None
      else copy_stepping src s nSrcPixelOffset d nDstPixelOffset (nat nWordCount) dst)"

text \<open>The same source word again and again: the first destination word is repeated.  The branch
  for bytes that follow each other sets one byte less than it has to.\<close>

fun repeat_word :: "octets \<Rightarrow> int \<Rightarrow> int \<Rightarrow> nat \<Rightarrow> octets \<Rightarrow> octets option" where
  "repeat_word valSet pabyDstWord nDstPixelOffset 0 dst = Some dst"
| "repeat_word valSet pabyDstWord nDstPixelOffset (Suc n) dst = do {
     dst1 \<leftarrow> store_bytes dst pabyDstWord valSet;
     repeat_word valSet (pabyDstWord + nDstPixelOffset) nDstPixelOffset n dst1
   }"

definition repeat_first :: "GDALDataType \<Rightarrow> int \<Rightarrow> int \<Rightarrow> int \<Rightarrow> octets \<Rightarrow> octets option" where
  "repeat_first eDstType d nDstPixelOffset nWordCount dst = do {
     valSet \<leftarrow> load_bytes dst d (word_size_of eDstType);
     let n = nat (nWordCount - 1);
     (if eDstType = GDT_Unknown then Some dst
      else if eDstType = GDT_Byte \<and> nDstPixelOffset = 1
      then store_bytes dst (d + nDstPixelOffset) (replicate (n - 1) (hd valSet))
      else repeat_word valSet (d + nDstPixelOffset) nDstPixelOffset n dst)
   }"

definition GDALCopyWords ::
    "via \<Rightarrow> octets \<Rightarrow> int \<Rightarrow> GDALDataType \<Rightarrow> int \<Rightarrow> octets \<Rightarrow> int \<Rightarrow> GDALDataType \<Rightarrow> int \<Rightarrow> int \<Rightarrow> octets option" where
  "GDALCopyWords via_double src s eSrcType nSrcPixelOffset dst d eDstType nDstPixelOffset nWordCount =
     (if eSrcType = eDstType
      then let nWordSize = GDALGetDataTypeSize eSrcType div 8 in
        (if nWordSize = nSrcPixelOffset \<and> nWordSize = nDstPixelOffset
         then mem_copy dst d src s (to_i32 (nSrcPixelOffset * nWordCount))
         else if nWordSize = 1
         then copy_single_bytes src s nSrcPixelOffset d nDstPixelOffset nWordCount dst
         else copy_indexed (\<lambda>bs. bs) (nat nWordSize) src s nSrcPixelOffset d nDstPixelOffset 0 (nat nWordCount) dst)
      else
        let words = copy_indexed (convert_word via_double eSrcType eDstType) (word_size_of eSrcType)
                      src s nSrcPixelOffset d nDstPixelOffset 0 in
        (if nSrcPixelOffset = 0 \<and> nWordCount > 1
         then do { dst1 \<leftarrow> words 1 dst; repeat_first eDstType d nDstPixelOffset nWordCount dst1 }
         else words (nat nWordCount) dst))"

section \<open>GDALSwapWords\<close>

definition swap_bytes :: "octets \<Rightarrow> int \<Rightarrow> int \<Rightarrow> octets option" where
  "swap_bytes xs i j = do {
     a \<leftarrow> load_bytes xs i 1;
     b \<leftarrow> load_bytes xs j 1;
     xs1 \<leftarrow> store_bytes xs i b;
     store_bytes xs1 j a
   }"

definition swap_word :: "int \<Rightarrow> octets \<Rightarrow> int \<Rightarrow> octets option" where
  "swap_word nWordSize xs p =
     (if nWordSize = 2 then swap_bytes xs p (p + 1)
      else if nWordSize = 4 then do { xs \<leftarrow> swap_bytes xs p (p + 3); swap_bytes xs (p + 1) (p + 2) }
      else if nWordSize = 8 then do {
        xs \<leftarrow> swap_bytes xs p (p + 7);
        xs \<leftarrow> swap_bytes xs (p + 1) (p + 6);
        xs \<leftarrow> swap_bytes xs (p + 2) (p + 5);
        swap_bytes xs (p + 3) (p + 4)
      }
      else None)"

fun swap_words :: "int \<Rightarrow> octets \<Rightarrow> int \<Rightarrow> int \<Rightarrow> nat \<Rightarrow> octets option" where
  "swap_words nWordSize xs pabyData nWordSkip 0 = Some xs"
| "swap_words nWordSize xs pabyData nWordSkip (Suc n) = do {
     xs1 \<leftarrow> swap_word nWordSize xs pabyData;
     swap_words nWordSize xs1 (pabyData + nWordSkip) nWordSkip n
   }"

definition GDALSwapWords :: "octets \<Rightarrow> int \<Rightarrow> int \<Rightarrow> int \<Rightarrow> int \<Rightarrow> octets option" where
  "GDALSwapWords xs pData nWordSize nWordCount nWordSkip =
     (if nWordSize \<in> {2, 4, 8} then swap_words nWordSize xs pData nWordSkip (nat nWordCount) else Some xs)"

section \<open>GDALCopyBits\<close>

definition bit_mask :: "int \<Rightarrow> 8 word" where
  "bit_mask nOffset = drop_bit (nat (nOffset AND 7)) 0x80"

definition copy_bit :: "octets \<Rightarrow> int \<Rightarrow> int \<Rightarrow> octets \<Rightarrow> octets option" where
  "copy_bit src nSrcOffset nDstOffset dst = do {
     x \<leftarrow> load_bytes src (drop_bit 3 nSrcOffset) 1;
     y \<leftarrow> load_bytes dst (drop_bit 3 nDstOffset) 1;
     store_bytes dst (drop_bit 3 nDstOffset)
       [if hd x AND bit_mask nSrcOffset \<noteq> 0 then hd y OR bit_mask nDstOffset
        else hd y AND NOT (bit_mask nDstOffset)]
   }"

fun copy_bits_word :: "octets \<Rightarrow> int \<Rightarrow> int \<Rightarrow> nat \<Rightarrow> octets \<Rightarrow> octets option" where
  "copy_bits_word src nSrcOffset nDstOffset 0 dst = Some dst"
| "copy_bits_word src nSrcOffset nDstOffset (Suc n) dst = do {
     dst1 \<leftarrow> copy_bit src nSrcOffset nDstOffset dst;
     copy_bits_word src (to_i32 (nSrcOffset + 1)) (to_i32 (nDstOffset + 1)) n dst1
   }"

fun copy_bits_loop :: "octets \<Rightarrow> int \<Rightarrow> int \<Rightarrow> int \<Rightarrow> int \<Rightarrow> int \<Rightarrow> nat \<Rightarrow> octets \<Rightarrow> octets option" where
  "copy_bits_loop src nSrcOffset nSrcStep nDstOffset nDstStep nBitCount 0 dst = Some dst"
| "copy_bits_loop src nSrcOffset nSrcStep nDstOffset nDstStep nBitCount (Suc n) dst = do {
     dst1 \<leftarrow> copy_bits_word src nSrcOffset nDstOffset (nat nBitCount) dst;
     copy_bits_loop src (to_i32 (nSrcOffset + int (nat nBitCount) + (nSrcStep - nBitCount))) nSrcStep
       (to_i32 (nDstOffset + int (nat nBitCount) + (nDstStep - nBitCount))) nDstStep nBitCount n dst1
   }"

definition GDALCopyBits ::
    "octets \<Rightarrow> int \<Rightarrow> int \<Rightarrow> octets \<Rightarrow> int \<Rightarrow> int \<Rightarrow> int \<Rightarrow> int \<Rightarrow> octets option" where
  "GDALCopyBits src nSrcOffset nSrcStep dst nDstOffset nDstStep nBitCount nStepCount =
     copy_bits_loop src nSrcOffset nSrcStep nDstOffset nDstStep nBitCount (nat nStepCount) dst"

end
