(* ===== verification/Raster_Io.thy ===== *)
theory Raster_Io
  imports Block_Cache Pixel_Copy
begin

text \<open>
  Input and output of a window of a raster through the block cache: \<open>RasterIO\<close> of
  \<^verbatim>\<open>gcore/gdalrasterband.cpp\<close> and \<open>IRasterIO\<close> of \<^verbatim>\<open>gcore/rasterio.cpp\<close>, with its three ways to run over
  the blocks.  The data of a block are its bytes.

  Parameters are the driver, the conversions that pass through a \<^verbatim>\<open>double\<close>, the access to overviews
  (\<open>None\<close> when a band has none), an \<open>IRasterIO\<close> that the class of a band has of its own, and, for windows that are resampled, the truncated
  \<^verbatim>\<open>double\<close> expressions that find the pixel for a place of the buffer and the place of the buffer for a
  pixel.
\<close>

datatype GDALRWFlag = GF_Read | GF_Write

text \<open>The arguments of a call: the window, the size of the buffer, and its layout.\<close>

record request =
  eRWFlag :: GDALRWFlag
  nWinXOff :: int
  nWinYOff :: int
  nWinXSize :: int
  nWinYSize :: int
  nBufXSize :: int
  nBufYSize :: int
  eBufType :: GDALDataType
  nPixelSpace :: int
  nLineSpace :: int

type_synonym 'w io_result = "(CPLErr \<times> (octets, 'w) gdal \<times> octets) option"

record 'w raster_env =
  the_driver :: "(octets, 'w) driver"
  eDataType :: "nat \<Rightarrow> GDALDataType"
  via_double :: via
  OverviewRasterIO :: "(nat \<Rightarrow> request \<Rightarrow> int \<Rightarrow> octets \<Rightarrow> (octets, 'w) gdal \<Rightarrow> 'w io_result) option"
  source_x :: "request \<Rightarrow> int \<Rightarrow> int"
  source_y :: "request \<Rightarrow> int \<Rightarrow> int"
  buffer_x :: "request \<Rightarrow> int \<Rightarrow> int"
  buffer_y :: "request \<Rightarrow> int \<Rightarrow> int"

definition nBandDataSize :: "'w raster_env \<Rightarrow> nat \<Rightarrow> int" where
  "nBandDataSize env k = c_div (GDALGetDataTypeSize (eDataType env k)) 8"

definition nBufDataSize :: "request \<Rightarrow> int" where
  "nBufDataSize rq = c_div (GDALGetDataTypeSize (eBufType rq)) 8"

section \<open>One block\<close>

text \<open>A block is locked and, for writing, marked; \<open>None\<close> when there is no block or no buffer.\<close>

definition lock_block ::
    "'w raster_env \<Rightarrow> nat \<Rightarrow> request \<Rightarrow> int \<Rightarrow> int \<Rightarrow> bool \<Rightarrow> (octets, 'w) gdal
     \<Rightarrow> (addr option \<times> (octets, 'w) gdal) option" where
  "lock_block env k rq x y bJustInitialize s = do {
     (p, s) \<leftarrow> GetLockedBlockRef (the_driver env) k x y bJustInitialize s;
     case p of
       None \<Rightarrow> Some (None, s)
     | Some a \<Rightarrow> do {
         s \<leftarrow> (if eRWFlag rq = GF_Write then MarkDirty a s else Some s);
         b \<leftarrow> block_at a s;
         if pData b = None then do { s \<leftarrow> DropLock a s; Some (None, s) }
         else Some (Some a, s)
       }
   }"

definition unlock :: "addr option \<Rightarrow> (octets, 'w) gdal \<Rightarrow> (octets, 'w) gdal option" where
  "unlock poBlock s = (case poBlock of None \<Rightarrow> Some s | Some a \<Rightarrow> DropLock a s)"

text \<open>A copy between the block and the buffer, in the direction of the request: \<open>f\<close> copies from its first
  buffer and offset to its second.\<close>

definition copy_block ::
    "request \<Rightarrow> (octets \<Rightarrow> int \<Rightarrow> octets \<Rightarrow> int \<Rightarrow> octets option) \<Rightarrow> (octets \<Rightarrow> int \<Rightarrow> octets \<Rightarrow> int \<Rightarrow> octets option)
     \<Rightarrow> addr \<Rightarrow> int \<Rightarrow> int \<Rightarrow> (octets, 'w) gdal \<Rightarrow> octets \<Rightarrow> ((octets, 'w) gdal \<times> octets) option" where
  "copy_block rq reading writing a iSrcOffset p s buf = do {
     b \<leftarrow> block_at a s;
     d \<leftarrow> pData b;
     (if eRWFlag rq = GF_Read then do {
        buf1 \<leftarrow> reading d iSrcOffset buf p;
        Some (s, buf1)
      }
      else do {
        d1 \<leftarrow> writing buf p d iSrcOffset;
        s \<leftarrow> set_block a (\<lambda>b. b\<lparr>pData := Some d1\<rparr>) s;
        Some (s, buf)
      })
   }"

text \<open>One line of a block: \<open>n\<close> pixels, \<open>nBytes\<close> bytes when they need no conversion.\<close>

definition copy_line ::
    "'w raster_env \<Rightarrow> nat \<Rightarrow> request \<Rightarrow> bool \<Rightarrow> int \<Rightarrow> int \<Rightarrow> addr \<Rightarrow> int \<Rightarrow> int \<Rightarrow> (octets, 'w) gdal \<Rightarrow> octets
     \<Rightarrow> ((octets, 'w) gdal \<times> octets) option" where
  "copy_line env k rq plain n nBytes =
     copy_block rq
       (\<lambda>src s dst d. if plain then mem_copy dst d src s nBytes
          else GDALCopyWords (via_double env) src s (eDataType env k) (nBandDataSize env k)
                 dst d (eBufType rq) (nPixelSpace rq) n)
       (\<lambda>src s dst d. if plain then mem_copy dst d src s nBytes
          else GDALCopyWords (via_double env) src s (eBufType rq) (nPixelSpace rq)
                 dst d (eDataType env k) (nBandDataSize env k) n)"

text \<open>The first line or column of the block with number \<open>n\<close>.  All of the lines of a block are overwritten, or all
  of its pixels.\<close>

definition edge :: "int \<Rightarrow> int \<Rightarrow> int" where
  "edge n nBlock = to_i32 (n * nBlock)"

definition covers_lines :: "request \<Rightarrow> int \<Rightarrow> int \<Rightarrow> bool" where
  "covers_lines rq nBlockY nLBlockY =
     (nWinYOff rq \<le> edge nLBlockY nBlockY \<and> to_i32 (nWinYOff rq + nWinYSize rq) \<ge> edge (nLBlockY + 1) nBlockY)"

definition covers_block :: "request \<Rightarrow> int \<Rightarrow> int \<Rightarrow> int \<Rightarrow> int \<Rightarrow> bool" where
  "covers_block rq nBlockX nBlockY nLBlockX nLBlockY =
     (covers_lines rq nBlockY nLBlockY \<and>
      nWinXOff rq \<le> edge nLBlockX nBlockX \<and> to_i32 (nWinXOff rq + nWinXSize rq) \<ge> edge (nLBlockX + 1) nBlockX)"

section \<open>Case 1: blocks as wide as the raster, packed buffer\<close>

text \<open>From line \<open>i\<close> of the buffer on, \<open>n\<close> lines left, with the block that is locked.\<close>

fun whole_lines ::
    "'w raster_env \<Rightarrow> nat \<Rightarrow> request \<Rightarrow> int \<Rightarrow> int \<Rightarrow> int \<Rightarrow> int \<Rightarrow> nat \<Rightarrow> addr option \<Rightarrow> int \<Rightarrow> (octets, 'w) gdal
     \<Rightarrow> octets \<Rightarrow> 'w io_result" where
  "whole_lines env k rq nBlockX nBlockY p i 0 poBlock nLBlockY s buf = do {
     s \<leftarrow> unlock poBlock s;
     Some (CE_None, s, buf)
   }"
| "whole_lines env k rq nBlockX nBlockY p i (Suc n) poBlock nLBlockY s buf =
     (let iSrcY = to_i32 (i + nWinYOff rq);
          next = (iSrcY < edge nLBlockY nBlockY \<or> iSrcY \<ge> edge (nLBlockY + 1) nBlockY);
          l = (if next then c_div iSrcY nBlockY else nLBlockY)
      in do {
        (q, s) \<leftarrow>
          (if next then do {
             s \<leftarrow> unlock poBlock s;
             lock_block env k rq 0 l
               (eRWFlag rq = GF_Write \<and> nWinXOff rq = 0 \<and> nWinXSize rq = nBlockX \<and> covers_lines rq nBlockY l) s
           }
           else Some (poBlock, s));
        (case q of
           None \<Rightarrow> if next then Some (CE_Failure, s, buf) else None
         | Some a \<Rightarrow> do {
             (s, buf) \<leftarrow>
               copy_line env k rq (eDataType env k = eBufType rq) (nBufXSize rq) (nLineSpace rq) a
                 (to_i32 (((iSrcY - l * nBlockY) * nBlockX + nWinXOff rq) * nBandDataSize env k))
                 (p + i * nLineSpace rq) s buf;
             whole_lines env k rq nBlockX nBlockY p (i + 1) n (Some a) l s buf
           })
      })"

section \<open>Case 2: any blocks, no resampling\<close>

fun block_lines ::
    "'w raster_env \<Rightarrow> nat \<Rightarrow> request \<Rightarrow> int \<Rightarrow> addr \<Rightarrow> int \<Rightarrow> int \<Rightarrow> int \<Rightarrow> int \<Rightarrow> int \<Rightarrow> nat \<Rightarrow> (octets, 'w) gdal
     \<Rightarrow> octets \<Rightarrow> ((octets, 'w) gdal \<times> octets) option" where
  "block_lines env k rq nBlockX a nXSpan nXSpanSize iSrcOffset p i 0 s buf = Some (s, buf)"
| "block_lines env k rq nBlockX a nXSpan nXSpanSize iSrcOffset p i (Suc n) s buf = do {
     (s, buf) \<leftarrow>
       copy_line env k rq (eDataType env k = eBufType rq \<and> nPixelSpace rq = nBufDataSize rq) nXSpan nXSpanSize a
         iSrcOffset (p + to_i32 (i * nLineSpace rq)) s buf;
     block_lines env k rq nBlockX a nXSpan nXSpanSize (iSrcOffset + nBlockX * nBandDataSize env k) p (i + 1) n s buf
   }"

text \<open>The blocks of a row of blocks.\<close>

partial_function (option) block_columns ::
    "'w raster_env \<Rightarrow> nat \<Rightarrow> request \<Rightarrow> int \<Rightarrow> int \<Rightarrow> int \<Rightarrow> int \<Rightarrow> int \<Rightarrow> int \<Rightarrow> int \<Rightarrow> int \<Rightarrow> (octets, 'w) gdal
     \<Rightarrow> octets \<Rightarrow> 'w io_result" where
  "block_columns env k rq nBlockX nBlockY iBufYOff iSrcY nLBlockY nLBlockX iSrcX p s buf =
     (if iSrcX < to_i32 (nBufXSize rq + nWinXOff rq)
      then let nXSpan = min (edge (nLBlockX + 1) nBlockX) (to_i32 (nBufXSize rq + nWinXOff rq)) - iSrcX;
               nXSpanSize = to_i32 (nXSpan * nPixelSpace rq)
      in do {
        (q, s) \<leftarrow> lock_block env k rq nLBlockX nLBlockY
                   (eRWFlag rq = GF_Write \<and> covers_block rq nBlockX nBlockY nLBlockX nLBlockY) s;
        (case q of
           None \<Rightarrow> Some (CE_Failure, s, buf)
         | Some a \<Rightarrow> do {
             (s, buf) \<leftarrow>
               block_lines env k rq nBlockX a nXSpan nXSpanSize
                 ((iSrcX - nLBlockX * nBlockX + (iSrcY - nLBlockY * nBlockY) * nBlockX) * nBandDataSize env k) p 0
                 (nat (min (nBlockY - (iSrcY - nBlockY * c_div iSrcY nBlockY)) (nBufYSize rq - iBufYOff))) s buf;
             s \<leftarrow> DropLock a s;
             block_columns env k rq nBlockX nBlockY iBufYOff iSrcY nLBlockY (nLBlockX + 1) (iSrcX + nXSpan)
               (p + nXSpanSize) s buf
           })
      }
      else Some (CE_None, s, buf))"

partial_function (option) block_rows ::
    "'w raster_env \<Rightarrow> nat \<Rightarrow> request \<Rightarrow> int \<Rightarrow> int \<Rightarrow> int \<Rightarrow> int \<Rightarrow> int \<Rightarrow> (octets, 'w) gdal \<Rightarrow> octets \<Rightarrow> 'w io_result" where
  "block_rows env k rq nBlockX nBlockY p iBufYOff iSrcY s buf =
     (if iBufYOff < nBufYSize rq
      then let nYInc = nBlockY - (iSrcY - nBlockY * c_div iSrcY nBlockY) in do {
        (e, s, buf) \<leftarrow>
          block_columns env k rq nBlockX nBlockY iBufYOff iSrcY (c_div iSrcY nBlockY) (c_div (nWinXOff rq) nBlockX)
            (nWinXOff rq) (p + iBufYOff * nLineSpace rq) s buf;
        (if e \<noteq> CE_None then Some (e, s, buf)
         else block_rows env k rq nBlockX nBlockY p (iBufYOff + nYInc) (iSrcY + nYInc) s buf)
      }
      else Some (CE_None, s, buf))"

section \<open>Case 3: resampling\<close>

text \<open>Pixel by pixel, each with its column and line in the raster and its place in the buffer.\<close>

definition copy_pixel ::
    "'w raster_env \<Rightarrow> nat \<Rightarrow> request \<Rightarrow> addr \<Rightarrow> int \<Rightarrow> int \<Rightarrow> (octets, 'w) gdal \<Rightarrow> octets
     \<Rightarrow> ((octets, 'w) gdal \<times> octets) option" where
  "copy_pixel env k rq =
     copy_block rq
       (\<lambda>src s dst d. if eDataType env k = eBufType rq then mem_copy dst d src s (nBandDataSize env k)
          else GDALCopyWords (via_double env) src s (eDataType env k) 0 dst d (eBufType rq) 0 1)
       (\<lambda>src s dst d. if eDataType env k = eBufType rq then mem_copy dst d src s (nBandDataSize env k)
          else GDALCopyWords (via_double env) src s (eBufType rq) 0 dst d (eDataType env k) 0 1)"

fun single_pixels ::
    "'w raster_env \<Rightarrow> nat \<Rightarrow> request \<Rightarrow> int \<Rightarrow> int \<Rightarrow> (int \<times> int \<times> int) list \<Rightarrow> addr option \<Rightarrow> int \<Rightarrow> int
     \<Rightarrow> (octets, 'w) gdal \<Rightarrow> octets \<Rightarrow> 'w io_result" where
  "single_pixels env k rq nBlockX nBlockY [] poBlock nLBlockX nLBlockY s buf = do {
     s \<leftarrow> unlock poBlock s;
     Some (CE_None, s, buf)
   }"
| "single_pixels env k rq nBlockX nBlockY ((x, y, p) # ps) poBlock nLBlockX nLBlockY s buf =
     (let next = (x < edge nLBlockX nBlockX \<or> x \<ge> edge (nLBlockX + 1) nBlockX \<or>
                  y < edge nLBlockY nBlockY \<or> y \<ge> edge (nLBlockY + 1) nBlockY);
          lx = (if next then c_div x nBlockX else nLBlockX);
          ly = (if next then c_div y nBlockY else nLBlockY)
      in do {
        (q, s) \<leftarrow>
          (if next then do {
             s \<leftarrow> unlock poBlock s;
             lock_block env k rq lx ly (eRWFlag rq = GF_Write \<and> covers_block rq nBlockX nBlockY lx ly) s
           }
           else Some (poBlock, s));
        (case q of
           None \<Rightarrow> if next then Some (CE_Failure, s, buf) else None
         | Some a \<Rightarrow> do {
             (s, buf) \<leftarrow>
               copy_pixel env k rq a ((x - lx * nBlockX + (y - ly * nBlockY) * nBlockX) * nBandDataSize env k) p s buf;
             single_pixels env k rq nBlockX nBlockY ps (Some a) lx ly s buf
           })
      })"

definition resampled_pixels :: "'w raster_env \<Rightarrow> request \<Rightarrow> int \<Rightarrow> (int \<times> int \<times> int) list" where
  "resampled_pixels env rq p =
     (if eRWFlag rq = GF_Write
      then concat (map (\<lambda>y. map (\<lambda>x. (x, y, p + buffer_y env rq y * nLineSpace rq + to_i32 (buffer_x env rq x * nPixelSpace rq)))
             [nWinXOff rq..to_i32 (nWinXOff rq + nWinXSize rq) - 1]) [nWinYOff rq..to_i32 (nWinYOff rq + nWinYSize rq) - 1])
      else concat (map (\<lambda>j. map (\<lambda>i. (source_x env rq i, source_y env rq j, p + j * nLineSpace rq + i * nPixelSpace rq))
             [0..nBufXSize rq - 1]) [0..nBufYSize rq - 1]))"

section \<open>The operations\<close>

definition IRasterIO ::
    "'w raster_env \<Rightarrow> nat \<Rightarrow> request \<Rightarrow> int \<Rightarrow> octets \<Rightarrow> (octets, 'w) gdal \<Rightarrow> 'w io_result" where
  "IRasterIO env k rq p buf s = do {
     B \<leftarrow> bands s k;
     (if nPixelSpace rq = nBufDataSize rq \<and> nLineSpace rq = to_i32 (nPixelSpace rq * nWinXSize rq) \<and>
         nBlockXSize B = nRasterXSize B \<and> nBufXSize rq = nWinXSize rq \<and> nBufYSize rq = nWinYSize rq
      then whole_lines env k rq (nBlockXSize B) (nBlockYSize B) p 0 (nat (nBufYSize rq)) None (-1) s buf
      else do {
        (done, s, buf) \<leftarrow>
          (case OverviewRasterIO env of
             Some overview \<Rightarrow>
               (if (nBufXSize rq < nWinXSize rq \<or> nBufYSize rq < nWinYSize rq) \<and> eRWFlag rq = GF_Read
                then do { (e, s, buf) \<leftarrow> overview k rq p buf s; Some (e = CE_None, s, buf) }
                else Some (False, s, buf))
           | None \<Rightarrow> Some (False, s, buf));
        (if done then Some (CE_None, s, buf)
         else if nWinXSize rq = nBufXSize rq \<and> nWinYSize rq = nBufYSize rq
         then block_rows env k rq (nBlockXSize B) (nBlockYSize B) p 0 (nWinYOff rq) s buf
         else single_pixels env k rq (nBlockXSize B) (nBlockYSize B) (resampled_pixels env rq p) None (-1) (-1) s buf)
      })
   }"

text \<open>The checks of \<open>RasterIO\<close>, and the distances that are left to it.\<close>

definition default_spaces :: "request \<Rightarrow> request" where
  "default_spaces rq =
     (let rq1 = (if nPixelSpace rq = 0 then rq\<lparr>nPixelSpace := nBufDataSize rq\<rparr> else rq)
      in if nLineSpace rq1 = 0 then rq1\<lparr>nLineSpace := to_i32 (nPixelSpace rq1 * nBufXSize rq1)\<rparr> else rq1)"

text \<open>The last call is virtual: a band class may have an \<open>IRasterIO\<close> of its own, which is a parameter;
  \<^verbatim>\<open>bForceCachedIO\<close>, set from a configuration option, takes the one above for all of them.  The flag has two values
  by its type, so that the check of the flag has no counterpart.\<close>

type_synonym 'w io_method = "nat \<Rightarrow> request \<Rightarrow> int \<Rightarrow> octets \<Rightarrow> (octets, 'w) gdal \<Rightarrow> 'w io_result"

definition GDALRasterBand_RasterIO ::
    "bool \<Rightarrow> 'w io_method \<Rightarrow> 'w raster_env \<Rightarrow> nat \<Rightarrow> request \<Rightarrow> int \<Rightarrow> octets \<Rightarrow> (octets, 'w) gdal \<Rightarrow> 'w io_result" where
  "GDALRasterBand_RasterIO bForceCachedIO virtual_IRasterIO env k rq0 p buf s =
     (let rq = default_spaces rq0 in
      if nWinXSize rq < 1 \<or> nWinYSize rq < 1 \<or> nBufXSize rq < 1 \<or> nBufYSize rq < 1 then Some (CE_None, s, buf)
      else do {
        B \<leftarrow> bands s k;
        (if nWinXOff rq < 0 \<or> to_i32 (nWinXOff rq + nWinXSize rq) > nRasterXSize B \<or>
            nWinYOff rq < 0 \<or> to_i32 (nWinYOff rq + nWinYSize rq) > nRasterYSize B
         then Some (CE_Failure, s, buf)
         else if bForceCachedIO then IRasterIO env k rq p buf s
         else virtual_IRasterIO k rq p buf s)
      })"

text \<open>The call on a band whose class inherits \<open>IRasterIO\<close>, as that of the in-memory driver does.\<close>

definition RasterIO ::
    "'w raster_env \<Rightarrow> nat \<Rightarrow> request \<Rightarrow> int \<Rightarrow> octets \<Rightarrow> (octets, 'w) gdal \<Rightarrow> 'w io_result" where
  "RasterIO env k rq0 p buf s = GDALRasterBand_RasterIO False (IRasterIO env) env k rq0 p buf s"

lemma RasterIO_cached:
  "b \<or> virt = IRasterIO env \<Longrightarrow> GDALRasterBand_RasterIO b virt env = RasterIO env"
  by (rule ext)+ (erule disjE; simp add: RasterIO_def GDALRasterBand_RasterIO_def Let_def cong: if_cong)

lemmas RasterIO_eq = RasterIO_def [unfolded GDALRasterBand_RasterIO_def if_False]

end
