(* ===== verification/Raster_Io_Steps.thy ===== *)
theory Raster_Io_Steps
  imports Raster_Io Block_Store
begin

text \<open>
  The steps of \<open>IRasterIO\<close> on the cache: locking a block, changing its data, unlocking it.  They are
  stated for a band all of whose blocks hold \<open>N\<close> bytes, over any driver that meets the contract
  \<open>block_store\<close> and tells buffers apart by their length only.
\<close>

locale pixel_store = block_store drv S
  for drv :: "(octets, 'w) driver" and S :: "(octets, 'w) store" +
  assumes fits_length: "fits S w k d \<Longrightarrow> fits S w k d' \<longleftrightarrow> length d' = length d"

text \<open>The band \<open>k\<close> has \<open>nx\<close> by \<open>ny\<close> blocks of \<open>N\<close> bytes; the bands have the layout \<open>L\<close>.\<close>

definition io_state :: "(octets, 'w) store \<Rightarrow> nat \<Rightarrow> int \<Rightarrow> int \<Rightarrow> nat \<Rightarrow> (nat \<rightharpoonup> band \<times> bool)
     \<Rightarrow> (octets, 'w) gdal \<Rightarrow> bool" where
  "io_state S k nx ny N L s =
     (layout_of s = L \<and>
     (\<exists>xs B. cache_ok s xs \<and> coherent S s \<and> bands s k = Some B \<and> table_ok B \<and>
        (\<forall>x y. in_band B x y \<longleftrightarrow> 0 \<le> x \<and> x < nx \<and> 0 \<le> y \<and> y < ny) \<and>
        (\<forall>x y. size_in_bytes (fresh_block B k x y :: octets block) = int N) \<and>
        (\<forall>x y. 0 \<le> x \<longrightarrow> x < nx \<longrightarrow> 0 \<le> y \<longrightarrow> y < ny \<longrightarrow> inside S (world s) k x y) \<and>
        (\<forall>d. fits S (world s) k d \<longleftrightarrow> length d = N)))"

definition position :: "int \<Rightarrow> int \<Rightarrow> int \<Rightarrow> int \<Rightarrow> bool" where
  "position nx ny x y = (0 \<le> x \<and> x < nx \<and> 0 \<le> y \<and> y < ny)"

text \<open>The block at a position is at hand; when it is to be written it is marked.\<close>

definition at_hand :: "nat \<Rightarrow> int \<Rightarrow> int \<Rightarrow> bool \<Rightarrow> addr \<Rightarrow> (octets, 'w) gdal \<Rightarrow> bool" where
  "at_hand k x y wr a s =
     (cached s k x y = Some a \<and> (\<exists>c. contents s a = Some c \<and> pData c \<noteq> None \<and> (wr \<longrightarrow> bDirty c)))"

text \<open>A state with the same layout of bands and the same shape of the driver.\<close>

lemma io_state_step:
  assumes "io_state S k nx ny N L s" and "cache_ok s' ys" and "layout_of s' = layout_of s" and "coherent S s'"
    and "same_shape S (world s) (world s')"
  shows "io_state S k nx ny N L s'"
proof -
  obtain xs B where B: "bands s k = Some B" "table_ok B" "\<forall>x y. in_band B x y \<longleftrightarrow> 0 \<le> x \<and> x < nx \<and> 0 \<le> y \<and> y < ny"
    "\<forall>x y. size_in_bytes (fresh_block B k x y :: octets block) = int N"
    "\<forall>x y. 0 \<le> x \<longrightarrow> x < nx \<longrightarrow> 0 \<le> y \<longrightarrow> y < ny \<longrightarrow> inside S (world s) k x y"
    "\<forall>d. fits S (world s) k d \<longleftrightarrow> length d = N"
    using assms(1) unfolding io_state_def by blast
  have "Block_Cache_Facts.bands_ok s'" using assms(2) by (simp add: cache_ok_def tables_ok_def)
  then obtain B' where B': "bands s' k = Some B'" "table_ok B'" "\<And>x y. in_band B' x y = in_band B x y"
    using same_layout [OF assms(3) B(1,2)] by metis
  have "fresh_block B' k x y = (fresh_block B k x y :: octets block)" for x y
    using same_layout_fresh_block [OF assms(3) B(1) B'(1)] .
  then have "\<forall>x y. size_in_bytes (fresh_block B' k x y :: octets block) = int N" using B(4) by simp
  moreover have "inside S (world s') = inside S (world s)" "fits S (world s') = fits S (world s)"
    using assms(5) by (simp_all add: same_shape_def)
  moreover have "layout_of s' = L" using assms(1,3) by (simp add: io_state_def)
  ultimately show ?thesis
    using assms(2,4) B B' unfolding io_state_def by (intro conjI exI [of _ ys] exI [of _ B']) simp_all
qed

lemma io_state_frame:
  assumes "io_state S k nx ny N L s" and "cache_ok s' ys" and "heap.more s' = heap.more s" and "coherent S s'"
  shows "io_state S k nx ny N L s'"
proof (rule io_state_step [OF assms(1,2) _ assms(4)])
  note m = gdal_more [OF assms(3)]
  show "layout_of s' = layout_of s" using cached_bands [OF m(6)] by simp
  show "same_shape S (world s) (world s')"
    using assms(4) m(7) by (simp add: same_shape_def coherent_def)
qed

lemma io_stateE:
  assumes "io_state S k nx ny N L s"
  obtains xs B where "cache_ok s xs" "coherent S s" "bands s k = Some B" "table_ok B"
    "\<And>x y. in_band B x y \<longleftrightarrow> position nx ny x y"
    "\<And>x y. size_in_bytes (fresh_block B k x y :: octets block) = int N"
    "\<And>x y. position nx ny x y \<Longrightarrow> inside S (world s) k x y"
    "\<And>d. fits S (world s) k d \<longleftrightarrow> length d = N"
  using assms unfolding io_state_def position_def by blast

lemma keeps_of_replaced:
  assumes "replaced S k x y d s s'" and "seen S s k x y = Some d"
  shows "keeps S s s'"
  using assms by (auto simp: replaced_def keeps_def)

text \<open>A block's data are what is seen at its position.\<close>

lemma at_hand_seen:
  assumes "at_hand k x y wr a s"
  obtains c d where "contents s a = Some c" "pData c = Some d" "seen S s k x y = Some d" "wr \<Longrightarrow> bDirty c"
  using assms by (auto simp: at_hand_def seen_def block_data_def)

lemma owner_unique:
  assumes "cache_ok s xs" and "cached s k x y = Some a" and "cached s k' x' y' = Some a"
  shows "k' = k \<and> x' = x \<and> y' = y"
proof -
  have t: "tables_ok s (set xs)" using assms(1) by (simp add: cache_ok_def)
  show ?thesis using tables_okD(3) [OF t assms(2)] tables_okD(3) [OF t assms(3)] by auto
qed

context pixel_store
begin

lemma seen_length:
  assumes "io_state S k nx ny N L s" and "position nx ny x y"
  obtains d where "seen S s k x y = Some d" "length d = N"
proof -
  obtain xs B where o: "cache_ok s xs" "coherent S s" "inside S (world s) k x y" "\<And>d. fits S (world s) k d \<longleftrightarrow> length d = N"
    using io_stateE [OF assms(1)] assms(2) by metis
  have "\<exists>d. seen S s k x y = Some d \<and> fits S (world s) k d"
  proof (cases "cached s k x y")
    case None
    have "valid S (world s)" using o(2) by (simp add: coherent_def)
    then show ?thesis using None stored_fits o(3) by (simp add: seen_def)
  next
    case (Some a)
    have "tables_ok s (set xs)" using o(1) by (simp add: cache_ok_def)
    from tables_okD(3) [OF this Some] obtain c where c: "contents s a = Some c" by blast
    then show ?thesis using coherentD(3) [OF o(2) Some c] Some by (auto simp: seen_def block_data_def)
  qed
  then show thesis using that o(4) by blast
qed

text \<open>Changing a block that is at hand without moving it.\<close>

lemma change_block:
  assumes "io_state S k nx ny N L s" and "at_hand k x y wr a s" and "position nx ny x y"
    and "\<And>b. unlinked (f b) = f (unlinked b) \<and> poNext (f b) = poNext b \<and> poPrevious (f b) = poPrevious b"
    and "\<And>c. poBand (f c) = poBand c \<and> nXOff (f c) = nXOff c \<and> nYOff (f c) = nYOff c"
    and "\<And>c. contents s a = Some c \<Longrightarrow> \<exists>d. pData (f c) = Some d \<and> length d = N \<and> (bDirty (f c) \<or> bDirty (f c) = bDirty c \<and> pData (f c) = pData c)"
    and "\<And>c. wr' \<Longrightarrow> contents s a = Some c \<Longrightarrow> bDirty (f c)"
  shows "\<exists>s' c d. set_block a f s = Some s' \<and> io_state S k nx ny N L s' \<and> contents s a = Some c \<and> pData (f c) = Some d \<and>
    replaced S k x y d s s' \<and> at_hand k x y wr' a s'"
proof -
  obtain xs B where o: "cache_ok s xs" "coherent S s" "inside S (world s) k x y" "\<And>d. fits S (world s) k d \<longleftrightarrow> length d = N"
    using io_stateE [OF assms(1)] assms(3) by metis
  obtain c where c: "cached s k x y = Some a" "contents s a = Some c" "pData c \<noteq> None"
    using assms(2) by (auto simp: at_hand_def)
  obtain d where d: "pData (f c) = Some d" "length d = N" "bDirty (f c) \<or> bDirty (f c) = bDirty c \<and> pData (f c) = pData c"
    using assms(6) [OF c(2)] by blast
  obtain s' where s': "set_block a f s = Some s'" "cache_ok s' xs" "contents s' = (contents s)(a \<mapsto> f c)"
    "heap.more s' = heap.more s"
    using set_block_tables [OF o(1) c(2) assms(4)] assms(5) d(1) by auto
  note m = gdal_more [OF s'(4)]
  have eq: "cached s' = cached s" using cached_bands [OF m(6)] by simp
  have "replaced S k x y d s s'"
  proof (cases "bDirty (f c)")
    case True
    have "cached s' = at_position (cached s) k x y (Some a)" using c(1) by (auto simp: eq fun_eq_iff)
    then show ?thesis
      using overwritten [OF o(2,3) _ _ m(7) s'(3) d(1) True] owner_unique [OF o(1) c(1)] o(4) d(2) by simp
  next
    case False
    then have same: "bDirty (f c) = bDirty c" "pData (f c) = pData c" using d(3) by auto
    have "keeps S s s'"
      by (rule keeps_cong [OF o(2) eq m(7)]) (use same c(2) in \<open>simp add: s'(3)\<close>)
    moreover have "seen S s k x y = Some d" using c d(1) same by (simp add: seen_def block_data_def)
    ultimately show ?thesis by (auto simp: keeps_def replaced_def)
  qed
  moreover from this have "coherent S s'" by (simp add: replaced_def)
  then have "io_state S k nx ny N L s'" using io_state_frame [OF assms(1) s'(2,4)] by simp
  moreover have "at_hand k x y wr' a s'" using assms(7) c(1,2) d(1) by (auto simp: at_hand_def eq s'(3))
  ultimately show ?thesis using s'(1) c(2) d(1) by blast
qed

lemma write_data:
  assumes "io_state S k nx ny N L s" and "at_hand k x y True a s" and "position nx ny x y" and "length d = N"
  shows "\<exists>s'. set_block a (\<lambda>b. b\<lparr>pData := Some d\<rparr>) s = Some s' \<and> io_state S k nx ny N L s' \<and> replaced S k x y d s s' \<and>
    at_hand k x y True a s'"
proof -
  let ?f = "\<lambda>b. b\<lparr>pData := Some d\<rparr>"
  have dirty: "bDirty c" if "contents s a = Some c" for c using assms(2) that by (auto simp: at_hand_def)
  have f: "unlinked (?f b) = ?f (unlinked b) \<and> poNext (?f b) = poNext b \<and> poPrevious (?f b) = poPrevious b"
    "poBand (?f b) = poBand b \<and> nXOff (?f b) = nXOff b \<and> nYOff (?f b) = nYOff b" for b :: "octets block"
    by (simp_all add: unlinked_def)
  have "\<exists>d. pData (?f c) = Some d \<and> length d = N \<and> (bDirty (?f c) \<or> bDirty (?f c) = bDirty c \<and> pData (?f c) = pData c)"
    if "contents s a = Some c" for c
    using dirty [OF that] assms(4) by simp
  from change_block [where f = ?f and wr' = True, OF assms(1-3) f this] dirty show ?thesis by fastforce
qed

lemma data_length:
  assumes "io_state S k nx ny N L s" and "at_hand k x y wr a s" and "position nx ny x y" and "contents s a = Some c"
  obtains d where "pData c = Some d" "length d = N" "seen S s k x y = Some d"
proof -
  obtain d where "seen S s k x y = Some d" "length d = N" using seen_length [OF assms(1,3)] .
  moreover have "seen S s k x y = pData c" using assms(2,4) by (auto simp: at_hand_def seen_def block_data_def)
  ultimately show thesis using that by simp
qed

lemma DropLock_keeps:
  assumes "io_state S k nx ny N L s" and "at_hand k x y wr a s" and "position nx ny x y"
  shows "\<exists>s'. DropLock a s = Some s' \<and> io_state S k nx ny N L s' \<and> keeps S s s'"
proof -
  let ?f = "\<lambda>b. b\<lparr>nLockCount := nLockCount b - 1\<rparr>"
  have "\<exists>d. pData (?f c) = Some d \<and> length d = N \<and> (bDirty (?f c) \<or> bDirty (?f c) = bDirty c \<and> pData (?f c) = pData c)"
    if "contents s a = Some c" for c
    using data_length [OF assms that] by auto
  note keep = this
  have f: "unlinked (?f b) = ?f (unlinked b) \<and> poNext (?f b) = poNext b \<and> poPrevious (?f b) = poPrevious b"
    "poBand (?f b) = poBand b \<and> nXOff (?f b) = nXOff b \<and> nYOff (?f b) = nYOff b" for b :: "octets block"
    by (simp_all add: unlinked_def)
  from change_block [where f = ?f and wr' = False, OF assms f keep]
  obtain s' c d where s': "set_block a ?f s = Some s'" "io_state S k nx ny N L s'" "contents s a = Some c" "pData c = Some d"
    "replaced S k x y d s s'"
    by auto
  have "seen S s k x y = Some d" using data_length [OF assms s'(3)] s'(4) by auto
  with s' show ?thesis using keeps_of_replaced by (auto simp: DropLock_def)
qed

text \<open>Marking a block that is at hand.\<close>

lemma MarkDirty_keeps:
  assumes "io_state S k nx ny N L s" and "at_hand k x y wr a s" and "position nx ny x y"
  shows "\<exists>s'. MarkDirty a s = Some s' \<and> io_state S k nx ny N L s' \<and> keeps S s s' \<and> at_hand k x y True a s'"
proof -
  let ?f = "\<lambda>b. b\<lparr>bDirty := True\<rparr>"
  have f: "unlinked (?f b) = ?f (unlinked b) \<and> poNext (?f b) = poNext b \<and> poPrevious (?f b) = poPrevious b"
    "poBand (?f b) = poBand b \<and> nXOff (?f b) = nXOff b \<and> nYOff (?f b) = nYOff b" "bDirty (?f b)" for b :: "octets block"
    by (simp_all add: unlinked_def)
  have keep: "\<exists>d. pData (?f c) = Some d \<and> length d = N \<and> (bDirty (?f c) \<or> bDirty (?f c) = bDirty c \<and> pData (?f c) = pData c)"
    if "contents s a = Some c" for c
    using data_length [OF assms that] by auto
  from change_block [where f = ?f and wr' = True, OF assms f(1,2) keep f(3)]
  obtain s' c d where s': "set_block a ?f s = Some s'" "io_state S k nx ny N L s'" "contents s a = Some c" "pData c = Some d"
    "replaced S k x y d s s'" "at_hand k x y True a s'"
    by auto
  have "seen S s k x y = Some d" using data_length [OF assms s'(3)] s'(4) by auto
  with s' show ?thesis using keeps_of_replaced by (auto simp: MarkDirty_def)
qed

lemma at_hand_block:
  assumes "at_hand k x y wr a s"
  obtains b d where "block_at a s = Some b" "pData b = Some d" "seen S s k x y = Some d"
proof -
  obtain c d where c: "contents s a = Some c" "pData c = Some d" "seen S s k x y = Some d"
    using at_hand_seen [OF assms, of S] by metis
  obtain b where b: "block_at a s = Some b" "unlinked b = c" using contents_block [OF c(1)] .
  then have "pData b = Some d" using c(2) by auto
  then show thesis using that b(1) c(3) by blast
qed

text \<open>The buffer of a block that is only to be initialised.\<close>

lemma initialized_length:
  assumes "cache_ok s xs" and "coherent S s" and "\<And>d. fits S (world s) k d \<longleftrightarrow> length d = N"
    and "\<And>d. VSIMalloc drv (world s) (size_in_bytes (fresh_block B k x y :: octets block)) = Some d \<Longrightarrow> length d = N"
    and "get_result drv k x y True B s xs (Some a) s' ys" and "contents s' a = Some c"
  obtains d where "pData c = Some d" "length d = N"
proof (cases "cached s k x y")
  case (Some a')
  then have h: "a' = a" "hit a s xs s' ys" using assms(5) by (simp_all add: get_result_def)
  then obtain c0 where c0: "contents s a = Some c0" "contents s' = (contents s)(a \<mapsto> c0\<lparr>nLockCount := nLockCount c0 + 1\<rparr>)"
    by (auto simp: hit_def)
  obtain d where "pData c0 = Some d" "fits S (world s) k d" using coherentD(3) [OF assms(2) Some, of c0] c0(1) h(1) by blast
  then show thesis using that assms(3,6) c0(2) by auto
next
  case None
  let ?c = "fresh_block B k x y :: octets block"
  have l: "load_result drv k x y True B s xs (Some a) s' ys" using assms(5) None by (simp add: get_result_def)
  then obtain d where d: "VSIMalloc drv (world s) (size_in_bytes ?c) = Some d"
    by (auto simp: load_result_def Let_def split: option.splits)
  then obtain s1 zs where "load_done a ?c d (world s1) s1 zs s' ys"
    using l by (auto simp: load_result_def Let_def fetched_def)
  then show thesis using that [of d] assms(4) [OF d] assms(6) by (auto simp: load_done_def)
qed

lemma lock_block_ok:
  assumes "io_state S k nx ny N L s" and "position nx ny x y" and "the_driver env = drv"
    and "\<And>w d. VSIMalloc drv w (int N) = Some d \<Longrightarrow> length d = N" and "j \<Longrightarrow> eRWFlag rq = GF_Write"
  shows "\<exists>p s'. lock_block env k rq x y j s = Some (p, s') \<and> io_state S k nx ny N L s' \<and>
    (case p of
       None \<Rightarrow> keeps S s s' \<and> VSIMalloc drv (world s) (int N) = None
     | Some a \<Rightarrow> at_hand k x y (eRWFlag rq = GF_Write) a s' \<and>
         (if j then \<exists>d. replaced S k x y d s s' else keeps S s s'))"
proof -
  obtain xs B where o: "cache_ok s xs" "coherent S s" "bands s k = Some B" "table_ok B" "in_band B x y"
    "size_in_bytes (fresh_block B k x y :: octets block) = int N" "inside S (world s) k x y"
    "\<And>d. fits S (world s) k d \<longleftrightarrow> length d = N"
    using io_stateE [OF assms(1)] assms(2) by metis
  show ?thesis
  proof (cases j)
    case False
    obtain p s1 ys where g: "GetLockedBlockRef drv k x y False s = Some (p, s1)" "cache_ok s1 ys" "layout_of s1 = layout_of s"
      "keeps S s s1" "\<forall>a. p = Some a \<longrightarrow> cached s1 k x y = Some a \<and> block_data s1 a = seen S s k x y"
      "p = None \<longrightarrow> VSIMalloc drv (world s) (int N) = None"
      using GetLockedBlockRef_shows [OF o(1-5,7)] assms(4) o(6,8) by auto
    have io1: "io_state S k nx ny N L s1"
      using io_state_step [OF assms(1) g(2,3)] g(4) by (simp add: keeps_def)
    show ?thesis
    proof (cases p)
      case None
      then show ?thesis using g(1,4,6) io1 False assms(3) by (simp add: lock_block_def)
    next
      case (Some a)
      obtain d0 where "seen S s k x y = Some d0" using seen_length [OF assms(1,2)] by blast
      then have hand: "at_hand k x y False a s1"
        using g(5) Some by (auto simp: at_hand_def block_data_def split: option.splits)
      show ?thesis
      proof (cases "eRWFlag rq = GF_Write")
        case True
        obtain s2 where s2: "MarkDirty a s1 = Some s2" "io_state S k nx ny N L s2" "keeps S s1 s2" "at_hand k x y True a s2"
          using MarkDirty_keeps [OF io1 hand assms(2)] by blast
        obtain b d where "block_at a s2 = Some b" "pData b = Some d" using at_hand_block [OF s2(4)] by blast
        then show ?thesis
          using g(1) s2 keeps_trans [OF g(4) s2(3)] Some True False assms(3) by (simp add: lock_block_def)
      next
        case no: False
        obtain b d where "block_at a s1 = Some b" "pData b = Some d" using at_hand_block [OF hand] by blast
        then show ?thesis using g(1,4) io1 hand Some no False assms(3) by (simp add: lock_block_def)
      qed
    qed
  next
    case True
    then have wr: "eRWFlag rq = GF_Write" by (rule assms(5))
    obtain p t ys where g: "GetLockedBlockRef drv k x y True s = Some (p, t)" "cache_ok t ys" "layout_of t = layout_of s"
      "get_result drv k x y True B s xs p t ys"
      using GetLockedBlockRef_result [OF o(1,3-5), of drv True] by blast
    consider "p = None" "keeps S s t" "VSIMalloc drv (world s) (int N) = None"
      | a s1 c where "p = Some a" "keeps S s s1" "contents t a = Some c" "pData c \<noteq> None"
         "cached t = at_position (cached s1) k x y (Some a)" "world t = world s1"
         "\<And>c'. (contents t)(a \<mapsto> c') = (contents s1)(a \<mapsto> c')"
         "\<And>k' x' y'. cached s1 k' x' y' = Some a \<Longrightarrow> k' = k \<and> x' = x \<and> y' = y"
      using initialized_block [OF o(1,2) g(4)] o(6) by metis
    then show ?thesis
    proof cases
      case 1
      then have "io_state S k nx ny N L t" using io_state_step [OF assms(1) g(2,3)] by (simp add: keeps_def)
      then show ?thesis using 1 g(1) True assms(3) by (simp add: lock_block_def)
    next
      case 2
      have "length d' = N" if "VSIMalloc drv (world s) (size_in_bytes (fresh_block B k x y :: octets block)) = Some d'" for d'
        using that assms(4) o(6) by simp
      from initialized_length [OF o(1,2,8) this g(4) [unfolded 2(1)] 2(3)]
      obtain d where d: "pData c = Some d" "length d = N" .
      let ?c = "c\<lparr>bDirty := True\<rparr>"
      obtain s2 where s2: "MarkDirty a t = Some s2" "cache_ok s2 ys" "contents s2 = (contents t)(a \<mapsto> ?c)"
        "heap.more s2 = heap.more t"
        using set_block_tables [OF g(2) 2(3), of "\<lambda>b. b\<lparr>bDirty := True\<rparr>"] by (auto simp: unlinked_def MarkDirty_def)
      note m = gdal_more [OF s2(4)]
      have e: "cached s2 = cached t" "layout_of s2 = layout_of t" using cached_bands [OF m(6)] by simp_all
      have k1: "coherent S s1" "same_shape S (world s) (world s1)" using 2(2) by (simp_all add: keeps_def)
      have "replaced S k x y d s1 s2"
        by (rule overwritten [OF k1(1), where c = ?c and a = a, OF _ _ _ _ _ _ _ 2(8)])
          (use k1(2) o(7,8) d 2(5-7) e s2(3) m in \<open>simp_all add: same_shape_def\<close>)
      then have r: "replaced S k x y d s s2" by (rule keeps_replaced [OF 2(2)])
      then have io2: "io_state S k nx ny N L s2"
        using io_state_step [OF assms(1) s2(2)] e(2) g(3) by (simp add: replaced_def)
      have hand: "at_hand k x y True a s2" using d(1) e(1) 2(5) by (simp add: at_hand_def s2(3))
      obtain b d' where "block_at a s2 = Some b" "pData b = Some d'" using at_hand_block [OF hand] by blast
      then show ?thesis
        using g(1) 2(1) s2(1) io2 hand r True wr assms(3) by (auto simp: lock_block_def)
    qed
  qed
qed

end

end
