(* ===== verification/Pixel_Copy_Facts.thy ===== *)
theory Pixel_Copy_Facts
  imports Pixel_Copy
begin

text \<open>
  All loops of \<open>GDALCopyWords\<close> copy a list of words; what such a copy does to the destination; the
  conversions between integer types clamp; swapping and bitwise copying.
\<close>

section \<open>Copying a list of words\<close>

definition word_at :: "octets \<Rightarrow> int \<Rightarrow> nat \<Rightarrow> octets" where
  "word_at xs a w = take w (drop (nat a) xs)"

fun copy_list :: "(octets \<Rightarrow> octets) \<Rightarrow> nat \<Rightarrow> octets \<Rightarrow> (int \<times> int) list \<Rightarrow> octets \<Rightarrow> octets option" where
  "copy_list f w src [] dst = Some dst"
| "copy_list f w src ((s, d) # ps) dst = do {
     bs \<leftarrow> load_bytes src s w;
     dst1 \<leftarrow> store_bytes dst d (f bs);
     copy_list f w src ps dst1
   }"

lemma copy_list_append:
  "copy_list f w src (ps @ qs) dst = Option.bind (copy_list f w src ps dst) (copy_list f w src qs)"
  by (induction ps arbitrary: dst) (auto intro!: Option.bind_cong)

text \<open>Two words, or pieces of a buffer, that do not meet.\<close>

definition clear_of :: "nat \<Rightarrow> int \<Rightarrow> nat \<Rightarrow> int \<Rightarrow> bool" where
  "clear_of m a n b = (a + int m \<le> b \<or> b + int n \<le> a)"

lemma load_bytes_ok: "0 \<le> a \<Longrightarrow> a + int w \<le> int (length xs) \<Longrightarrow> load_bytes xs a w = Some (word_at xs a w)"
  by (simp add: load_bytes_def word_at_def)

lemma length_word_at: "0 \<le> a \<Longrightarrow> a + int w \<le> int (length xs) \<Longrightarrow> length (word_at xs a w) = w"
  by (simp add: word_at_def)

lemma store_bytes_ok:
  assumes "0 \<le> a" and "a + int (length bs) \<le> int (length xs)"
  shows "\<exists>xs'. store_bytes xs a bs = Some xs' \<and> length xs' = length xs \<and> word_at xs' a (length bs) = bs \<and>
    (\<forall>b m. 0 \<le> b \<longrightarrow> clear_of m b (length bs) a \<longrightarrow> word_at xs' b m = word_at xs b m)"
proof -
  obtain k where k: "a = int k" using assms(1) by (metis nonneg_int_cases)
  let ?ys = "take k xs @ bs @ drop (k + length bs) xs"
  have le: "k + length bs \<le> length xs" using assms(2) k by simp
  have "word_at ?ys b m = word_at xs b m" if b: "0 \<le> b" "clear_of m b (length bs) a" for b m
  proof -
    obtain j where j: "b = int j" using b(1) by (metis nonneg_int_cases)
    have "j + m \<le> k \<or> k + length bs \<le> j" using b(2) unfolding clear_of_def j k by linarith
    then have "take m (drop j ?ys) = take m (drop j xs)"
    proof
      assume h: "j + m \<le> k"
      then have "take m (drop j ?ys) = take m (drop j (take k xs))" using le by simp
      also have "\<dots> = take m (drop j xs)" using h by (simp add: drop_take)
      finally show ?thesis .
    next
      assume h: "k + length bs \<le> j"
      then have "drop j ?ys = drop (j - (k + length bs)) (drop (k + length bs) xs)" using le by simp
      then show ?thesis using h by simp
    qed
    then show ?thesis by (simp add: word_at_def j)
  qed
  moreover have "word_at ?ys a (length bs) = bs" using le by (simp add: word_at_def k)
  ultimately show ?thesis using assms le by (intro exI [of _ ?ys]) (simp add: store_bytes_def k)
qed

text \<open>\<open>copied f w v src ps dst dst'\<close>: in \<open>dst'\<close> the words of \<open>v\<close> bytes at the second components hold what
  \<open>f\<close> makes of the words of \<open>src\<close> at the first ones, and the rest is as in \<open>dst\<close>.\<close>

definition copied ::
    "(octets \<Rightarrow> octets) \<Rightarrow> nat \<Rightarrow> nat \<Rightarrow> octets \<Rightarrow> (int \<times> int) list \<Rightarrow> octets \<Rightarrow> octets \<Rightarrow> bool" where
  "copied f w v src ps dst dst' =
     (length dst' = length dst \<and>
      (\<forall>(s, d) \<in> set ps. word_at dst' d v = f (word_at src s w)) \<and>
      (\<forall>b m. 0 \<le> b \<longrightarrow> (\<forall>(s, d) \<in> set ps. clear_of m b v d) \<longrightarrow> word_at dst' b m = word_at dst b m))"

definition copyable :: "nat \<Rightarrow> nat \<Rightarrow> octets \<Rightarrow> (int \<times> int) list \<Rightarrow> octets \<Rightarrow> bool" where
  "copyable w v src ps dst =
     ((\<forall>(s, d) \<in> set ps. 0 \<le> s \<and> s + int w \<le> int (length src) \<and> 0 \<le> d \<and> d + int v \<le> int (length dst)) \<and>
      sorted_wrt (\<lambda>p q. clear_of v (snd p) v (snd q)) ps)"

lemma copy_list_ok:
  assumes "copyable w v src ps dst" and "\<And>bs. length bs = w \<Longrightarrow> length (f bs) = v"
  shows "\<exists>dst'. copy_list f w src ps dst = Some dst' \<and> copied f w v src ps dst dst'"
  using assms(1)
proof (induction ps arbitrary: dst)
  case Nil
  then show ?case by (simp add: copied_def)
next
  case (Cons p ps)
  obtain s d where p: "p = (s, d)" by fastforce
  have b: "0 \<le> s" "s + int w \<le> int (length src)" "0 \<le> d" "d + int v \<le> int (length dst)"
    using Cons.prems p by (simp_all add: copyable_def)
  let ?bs = "word_at src s w"
  have "length (f ?bs) = v" using assms(2) length_word_at b by simp
  then obtain dst1 where dst1: "store_bytes dst d (f ?bs) = Some dst1" "length dst1 = length dst" "word_at dst1 d v = f ?bs"
    "\<forall>b m. 0 \<le> b \<longrightarrow> clear_of m b v d \<longrightarrow> word_at dst1 b m = word_at dst b m"
    using store_bytes_ok [OF b(3), of "f ?bs" dst] b(4) by auto
  have "copyable w v src ps dst1" using Cons.prems dst1(2) by (auto simp: copyable_def)
  then obtain dst' where dst': "copy_list f w src ps dst1 = Some dst'" "copied f w v src ps dst1 dst'"
    using Cons.IH by blast
  have "\<forall>(s', d') \<in> set ps. clear_of v d v d'" using Cons.prems p by (auto simp: copyable_def)
  then have "word_at dst' d v = f ?bs" using dst'(2) dst1(3) b(3) by (simp add: copied_def)
  then have "copied f w v src (p # ps) dst dst'"
    using dst'(2) dst1(2,4) unfolding copied_def p by simp
  then show ?case using dst'(1) dst1(1) load_bytes_ok [OF b(1,2)] p by simp
qed

section \<open>The loops copy lists of words\<close>

definition spaced :: "int \<Rightarrow> int \<Rightarrow> int \<Rightarrow> int \<Rightarrow> nat list \<Rightarrow> (int \<times> int) list" where
  "spaced s so d dof ks = map (\<lambda>k. (s + int k * so, d + int k * dof)) ks"

lemma copy_indexed_list:
  assumes "\<forall>k \<in> {i..<i + n}. \<bar>int k * so\<bar> < 2 ^ 31 \<and> \<bar>int k * dof\<bar> < 2 ^ 31"
  shows "copy_indexed f w src s so d dof i n dst = copy_list f w src (spaced s so d dof [i..<i + n]) dst"
  using assms
proof (induction n arbitrary: i dst)
  case (Suc n)
  have "to_i32 (int i * so) = int i * so" "to_i32 (int i * dof) = int i * dof"
    using Suc.prems by (force intro!: to_i32_id)+
  moreover have "[i..<i + Suc n] = i # [Suc i..<Suc i + n]" by (simp add: upt_conv_Cons)
  moreover have "copy_indexed f w src s so d dof (Suc i) n dst1 = copy_list f w src (spaced s so d dof [Suc i..<Suc i + n]) dst1" for dst1
    using Suc.prems by (intro Suc.IH) simp
  ultimately show ?case by (auto simp: spaced_def simp del: upt_Suc intro!: Option.bind_cong)
qed (simp add: spaced_def)

lemma spaced_shift: "spaced (s + int i * so) so (d + int i * dof) dof ks = spaced s so d dof (map (\<lambda>k. i + k) ks)"
  by (simp add: spaced_def algebra_simps)

lemma map_plus_upt: "map (\<lambda>k. i + k) [a..<b] = [i + a..<i + b]" for i :: nat
  by (induction b) auto

lemma copy_stepping_list:
  "copy_stepping src s so d dof n dst = copy_list (\<lambda>bs. bs) 1 src (spaced s so d dof [0..<n]) dst"
proof (induction n arbitrary: s d dst)
  case (Suc n)
  have "[0..<Suc n] = 0 # map (\<lambda>k. 1 + k) [0..<n]" unfolding map_plus_upt by (simp add: upt_conv_Cons)
  moreover have "spaced s so d dof (0 # map (\<lambda>k. 1 + k) [0..<n]) = (s, d) # spaced (s + so) so (d + dof) dof [0..<n]"
    using spaced_shift [of s 1 so d dof "[0..<n]"] by (simp add: spaced_def)
  ultimately show ?case by (auto simp: Suc.IH simp del: upt_Suc intro!: Option.bind_cong)
qed (simp add: spaced_def)

lemma assign_bytes_list:
  "assign_bytes src s so d dof ks dst = copy_list (\<lambda>bs. bs) 1 src (spaced s so d dof ks) dst"
  by (induction ks arbitrary: dst) (auto simp: spaced_def mult.commute intro!: Option.bind_cong)

lemma assign_loop_list:
  "assign_loop src s so d dof r dst =
    map_option (\<lambda>dst'. (dst', s + int (16 * r) * so, d + int (16 * r) * dof))
      (copy_list (\<lambda>bs. bs) 1 src (spaced s so d dof [0..<16 * r]) dst)"
proof (induction r arbitrary: s d dst)
  case (Suc r)
  have sixteen: "[0, 1, 2, 3, 4, 5, 6, 7, 8, 9, 10, 11, 12, 13, 14, 15] = [0..<16]" by (simp add: upt_rec)
  have "[0..<16 * Suc r] = [0..<16] @ map (\<lambda>k. 16 + k) [0..<16 * r]"
    unfolding map_plus_upt using upt_add_eq_append [of 0 16 "16 * r"] by simp
  then have split: "spaced s so d dof [0..<16 * Suc r] =
      spaced s so d dof [0..<16] @ spaced (s + so * 16) so (d + dof * 16) dof [0..<16 * r]"
    using spaced_shift [of s 16 so d dof "[0..<16 * r]"] by (simp add: spaced_def mult.commute)
  show ?case
    unfolding split copy_list_append assign_loop.simps sixteen assign_bytes_list Suc.IH
    by (cases "copy_list (\<lambda>bs. bs) 1 src (spaced s so d dof [0..<16]) dst") (simp_all add: algebra_simps)
qed (simp add: spaced_def)

text \<open>The unrolled loop does what the simple one does.\<close>

lemma copy_single_bytes_list:
  assumes "0 \<le> n"
  shows "copy_single_bytes src s so d dof n dst = copy_list (\<lambda>bs. bs) 1 src (spaced s so d dof [0..<nat n]) dst"
proof (cases "n > 100 \<and> (so, dof) \<in> {(3, 1), (1, 3), (4, 1), (1, 4), (3, 4), (4, 3)}")
  case False
  then show ?thesis
    unfolding copy_single_bytes_def if_not_P [OF False] using assms by (simp add: copy_stepping_list)
next
  case True
  let ?r = "nat (n div 16)" and ?m = "nat (n mod 16)"
  obtain m where "n = int m" using assms by (metis nonneg_int_cases)
  moreover have "nat (int m div 16) = m div 16" "nat (int m mod 16) = m mod 16"
    by (metis nat_int of_nat_div of_nat_numeral, metis nat_int of_nat_mod of_nat_numeral)
  ultimately have n: "nat n = 16 * ?r + ?m" by simp
  have "[0..<nat n] = [0..<16 * ?r] @ map (\<lambda>k. 16 * ?r + k) [0..<?m]"
    unfolding n map_plus_upt using upt_add_eq_append [of 0 "16 * ?r" ?m] by simp
  then have split: "spaced s so d dof [0..<nat n] = spaced s so d dof [0..<16 * ?r] @
      spaced (s + int (16 * ?r) * so) so (d + int (16 * ?r) * dof) dof [0..<?m]"
    unfolding spaced_shift by (simp add: spaced_def)
  show ?thesis
    unfolding copy_single_bytes_def if_P [OF True] assign_loop_list split copy_list_append copy_stepping_list
    by (cases "copy_list (\<lambda>bs. bs) 1 src (spaced s so d dof [0..<16 * ?r]) dst") simp_all
qed

text \<open>One \<^verbatim>\<open>memcpy\<close> of words that follow each other.\<close>

lemma load_bytes_append:
  assumes "0 \<le> s" and "s + int (v + w) \<le> int (length src)"
  shows "load_bytes src s (v + w) = Some (word_at src s v @ word_at src (s + int v) w)"
  using assms by (simp add: load_bytes_def word_at_def take_add nat_add_distrib add.commute)

lemma store_bytes_append:
  assumes "0 \<le> d" and "d + int (length bs + length cs) \<le> int (length dst)"
  shows "store_bytes dst d (bs @ cs) = Option.bind (store_bytes dst d bs) (\<lambda>x. store_bytes x (d + int (length bs)) cs)"
proof -
  obtain k where k: "d = int k" using assms(1) by (metis nonneg_int_cases)
  have le: "k + length bs + length cs \<le> length dst" using assms(2) k by simp
  have n: "nat (int k + int (length bs)) = k + length bs" by (simp add: nat_add_distrib)
  show ?thesis using le by (simp add: store_bytes_def k n ac_simps)
qed

lemma mem_copy_list:
  assumes "0 \<le> s" and "s + int (n * w) \<le> int (length src)" and "0 \<le> d" and "d + int (n * w) \<le> int (length dst)"
  shows "mem_copy dst d src s (int (n * w)) = copy_list (\<lambda>bs. bs) w src (spaced s (int w) d (int w) [0..<n]) dst"
  using assms
proof (induction n arbitrary: s d dst)
  case 0
  then show ?case by (simp add: mem_copy_def load_bytes_def store_bytes_def spaced_def)
next
  case (Suc n)
  have "[0..<Suc n] = 0 # map (\<lambda>k. 1 + k) [0..<n]" unfolding map_plus_upt by (simp add: upt_conv_Cons)
  then have split: "spaced s (int w) d (int w) [0..<Suc n] =
      (s, d) # spaced (s + int w) (int w) (d + int w) (int w) [0..<n]"
    using spaced_shift [of s 1 "int w" d "int w" "[0..<n]"] by (simp add: spaced_def)
  let ?bs = "word_at src s w" and ?cs = "word_at src (s + int w) (n * w)"
  have sw: "s + int (w + n * w) \<le> int (length src)" "d + int (w + n * w) \<le> int (length dst)"
    using Suc.prems by simp_all
  have "0 \<le> int (n * w)" by simp
  then have ends: "s + int w \<le> int (length src)" "s + int w + int (n * w) \<le> int (length src)"
    "d + int w \<le> int (length dst)" "d + int w + int (n * w) \<le> int (length dst)" "0 \<le> s + int w" "0 \<le> d + int w"
    using sw Suc.prems(1,3) unfolding of_nat_add by linarith+
  have len: "length ?bs = w" "length ?cs = n * w"
    using length_word_at [OF Suc.prems(1) ends(1)] length_word_at [OF ends(5,2)] .
  obtain dst1 where dst1: "store_bytes dst d ?bs = Some dst1" "length dst1 = length dst"
    using store_bytes_ok [of d ?bs dst] Suc.prems(3) sw(2) len(1) by auto
  have "mem_copy dst d src s (int (Suc n * w)) = store_bytes dst d (?bs @ ?cs)"
    using load_bytes_append [OF Suc.prems(1) sw(1)] by (simp add: mem_copy_def nat_add_distrib nat_mult_distrib del: of_nat_add)
  also have "\<dots> = store_bytes dst1 (d + int w) ?cs"
    using store_bytes_append [OF Suc.prems(3), of ?bs ?cs dst] sw(2) len dst1(1) by simp
  also have "\<dots> = mem_copy dst1 (d + int w) src (s + int w) (int (n * w))"
    using load_bytes_ok [OF ends(5,2)] by (simp add: mem_copy_def del: of_nat_mult)
  also have "\<dots> = copy_list (\<lambda>bs. bs) w src (spaced (s + int w) (int w) (d + int w) (int w) [0..<n]) dst1"
    using ends dst1(2) by (intro Suc.IH) simp_all
  also have "\<dots> = copy_list (\<lambda>bs. bs) w src (spaced s (int w) d (int w) [0..<Suc n]) dst"
    unfolding split using load_bytes_ok [OF Suc.prems(1) ends(1)] dst1(1) by simp
  finally show ?case .
qed

section \<open>GDALCopyWords\<close>

definition pixel_map :: "via \<Rightarrow> GDALDataType \<Rightarrow> GDALDataType \<Rightarrow> octets \<Rightarrow> octets" where
  "pixel_map via e e' = (if e = e' then (\<lambda>bs. bs) else convert_word via e e')"

text \<open>What the conversions through a \<^verbatim>\<open>double\<close> are relied on for: they give a word of the type.\<close>

definition via_fits :: "via \<Rightarrow> bool" where
  "via_fits via = (\<forall>e e' bs. length (via e e' bs) = word_size_of e')"

lemma length_put_le [simp]: "length (put_le n v) = n"
  by (induction n arbitrary: v) simp_all

lemma length_direct_word: "direct_word e e' bs = Some r \<Longrightarrow> length r = word_size_of e'"
  by (cases e)
    (auto simp: direct_word_def fetch_word_def from_Byte_def from_UInt16_def from_Int16_def from_UInt32_def from_Int32_def
      from_CInt16_def from_CInt32_def word_size_of_def split: GDALDataType.splits)

lemma length_pixel_map: "via_fits via \<Longrightarrow> length bs = word_size_of e \<Longrightarrow> length (pixel_map via e e' bs) = word_size_of e'"
  using length_direct_word by (auto simp: pixel_map_def convert_word_def via_fits_def split: option.split)

lemma word_size_of_pos: "0 < word_size_of e \<longleftrightarrow> e \<noteq> GDT_Unknown"
  by (cases e) (simp_all add: word_size_of_def)

lemma word_size_of_int: "int (word_size_of e) = GDALGetDataTypeSize e div 8"
  by (cases e) (simp_all add: word_size_of_def)

lemma GDALCopyWords_list:
  assumes "copyable (word_size_of e) (word_size_of e') src (spaced s so d dof [0..<n]) dst"
    and "\<forall>k < n. \<bar>int k * so\<bar> < 2 ^ 31 \<and> \<bar>int k * dof\<bar> < 2 ^ 31" and "e = e' \<or> so \<noteq> 0 \<or> n \<le> 1"
    and "0 < n" and "int (n * word_size_of e) < 2 ^ 31"
  shows "GDALCopyWords via src s e so dst d e' dof (int n) =
    copy_list (pixel_map via e e') (word_size_of e) src (spaced s so d dof [0..<n]) dst"
proof (cases "e = e'")
  case False
  then have "\<not> (so = 0 \<and> int n > 1)" using assms(3) by auto
  moreover have "copy_indexed f w src s so d dof 0 n dst = copy_list f w src (spaced s so d dof [0..<n]) dst" for f w
    using copy_indexed_list [of 0 n so dof f w src s d dst] assms(2) by simp
  ultimately show ?thesis using False by (auto simp: GDALCopyWords_def Let_def pixel_map_def)
next
  case True
  let ?w = "word_size_of e"
  have size: "GDALGetDataTypeSize e' div 8 = int ?w" using True by (simp add: word_size_of_int)
  consider "so = int ?w" "dof = int ?w" | "\<not> (so = int ?w \<and> dof = int ?w)" "?w = 1" | "\<not> (so = int ?w \<and> dof = int ?w)" "?w \<noteq> 1" by blast
  then show ?thesis
  proof cases
    case 1
    have "k \<in> {0..<n} \<Longrightarrow> (s + int k * so, d + int k * dof) \<in> set (spaced s so d dof [0..<n])" for k
      by (auto simp: spaced_def)
    then have all: "0 \<le> s + int k * int ?w \<and> s + int k * int ?w + int ?w \<le> int (length src) \<and>
        0 \<le> d + int k * int ?w \<and> d + int k * int ?w + int ?w \<le> int (length dst)" if "k < n" for k
      using assms(1) that 1 True unfolding copyable_def by fastforce
    have ends: "int (n - 1) * int ?w + int ?w = int (n * ?w)"
      using assms(4) by (cases n) (simp_all add: algebra_simps)
    have "mem_copy dst d src s (int (n * ?w)) = copy_list (\<lambda>bs. bs) ?w src (spaced s (int ?w) d (int ?w) [0..<n]) dst"
      using all [of 0] all [of "n - 1"] assms(4) ends by (intro mem_copy_list) auto
    moreover have "- (2 ^ 31) \<le> int (n * ?w)" by (rule order_trans [of _ 0]) simp_all
    then have "to_i32 (int ?w * int n) = int (n * ?w)"
      using to_i32_id [OF _ assms(5)] by (simp add: mult.commute)
    ultimately show ?thesis
      unfolding GDALCopyWords_def Let_def pixel_map_def using True 1 size by simp
  next
    case 2
    then have "GDALCopyWords via src s e so dst d e' dof (int n) = copy_single_bytes src s so d dof (int n) dst"
      unfolding GDALCopyWords_def Let_def using True size by auto
    then show ?thesis using copy_single_bytes_list [of "int n" src s so d dof dst] 2 True by (simp add: pixel_map_def)
  next
    case 3
    then have "GDALCopyWords via src s e so dst d e' dof (int n) = copy_indexed (\<lambda>bs. bs) ?w src s so d dof 0 n dst"
      unfolding GDALCopyWords_def Let_def using True size by auto
    then show ?thesis using copy_indexed_list [of 0 n so dof "\<lambda>bs. bs" ?w src s d dst] assms(2) True by (simp add: pixel_map_def)
  qed
qed

lemma GDALCopyWords_copies:
  assumes "via_fits via" and "copyable (word_size_of e) (word_size_of e') src (spaced s so d dof [0..<n]) dst"
    and "\<forall>k < n. \<bar>int k * so\<bar> < 2 ^ 31 \<and> \<bar>int k * dof\<bar> < 2 ^ 31" and "e = e' \<or> so \<noteq> 0 \<or> n \<le> 1"
    and "0 < n" and "int (n * word_size_of e) < 2 ^ 31"
  shows "\<exists>dst'. GDALCopyWords via src s e so dst d e' dof (int n) = Some dst' \<and>
    copied (pixel_map via e e') (word_size_of e) (word_size_of e') src (spaced s so d dof [0..<n]) dst dst'"
  using copy_list_ok [OF assms(2), of "pixel_map via e e'"] length_pixel_map [OF assms(1)]
    GDALCopyWords_list [OF assms(2-6), of via] by simp

text \<open>The loop that repeats the first word copies the source word to all the others.\<close>

lemma repeat_word_list:
  assumes "load_bytes src s w = Some bs"
  shows "repeat_word (f bs) q dof n dst = copy_list f w src (spaced s 0 q dof [0..<n]) dst"
proof (induction n arbitrary: q dst)
  case (Suc n)
  have "[0..<Suc n] = 0 # map (\<lambda>k. 1 + k) [0..<n]" unfolding map_plus_upt by (simp add: upt_conv_Cons)
  moreover have "spaced s 0 q dof (0 # map (\<lambda>k. 1 + k) [0..<n]) = (s, q) # spaced s 0 (q + dof) dof [0..<n]"
    using spaced_shift [of s 1 0 q dof "[0..<n]"] by (simp add: spaced_def)
  ultimately show ?case using assms by (auto simp: Suc.IH simp del: upt_Suc intro!: Option.bind_cong)
qed (simp add: spaced_def)

lemma GDALCopyWords_repeat_list:
  assumes "copyable (word_size_of e) (word_size_of e') src (spaced s 0 d dof [0..<n]) dst" and "via_fits via"
    and "1 < n" and "e \<noteq> e'" and "e' \<noteq> GDT_Unknown" and "\<not> (e' = GDT_Byte \<and> dof = 1)"
  shows "GDALCopyWords via src s e 0 dst d e' dof (int n) =
    copy_list (pixel_map via e e') (word_size_of e) src (spaced s 0 d dof [0..<n]) dst"
proof -
  let ?w = "word_size_of e" and ?v = "word_size_of e'" and ?f = "convert_word via e e'"
  obtain m where m: "n = Suc m" using assms(3) by (cases n) auto
  have "[0..<n] = 0 # map (\<lambda>k. 1 + k) [0..<m]" unfolding map_plus_upt m by (simp add: upt_conv_Cons)
  then have split: "spaced s 0 d dof [0..<n] = (s, d) # spaced s 0 (d + dof) dof [0..<m]"
    using spaced_shift [of s 1 0 d dof "[0..<m]"] by (simp add: spaced_def)
  have b: "0 \<le> s" "s + int ?w \<le> int (length src)" "0 \<le> d" "d + int ?v \<le> int (length dst)"
    using assms(1) unfolding split by (simp_all add: copyable_def)
  let ?bs = "word_at src s ?w"
  have load: "load_bytes src s ?w = Some ?bs" by (rule load_bytes_ok [OF b(1,2)])
  have "length (?f ?bs) = ?v"
    using length_pixel_map [OF assms(2) length_word_at [OF b(1,2)], of e'] assms(4) by (simp add: pixel_map_def)
  then obtain dst1 where dst1: "store_bytes dst d (?f ?bs) = Some dst1" "length dst1 = length dst" "word_at dst1 d ?v = ?f ?bs"
    using store_bytes_ok [OF b(3), of "?f ?bs" dst] b(4) by auto
  have "load_bytes dst1 d ?v = Some (?f ?bs)" using load_bytes_ok [OF b(3), of ?v dst1] b(4) dst1(2,3) by simp
  then have "repeat_first e' d dof (int n) dst1 = copy_list ?f ?w src (spaced s 0 (d + dof) dof [0..<m]) dst1"
    using repeat_word_list [OF load, of ?f] assms(5,6) by (auto simp: repeat_first_def m)
  moreover have "copy_indexed ?f ?w src s 0 d dof 0 1 dst = Some dst1"
    using load dst1(1) by (simp add: to_i32_def)
  ultimately show ?thesis
    unfolding split using assms(3,4) load dst1(1) by (simp add: GDALCopyWords_def pixel_map_def)
qed

text \<open>All the loops but \<^verbatim>\<open>memset\<close>.\<close>

lemma GDALCopyWords_copies_all:
  assumes "via_fits via" and "copyable (word_size_of e) (word_size_of e') src (spaced s so d dof [0..<n]) dst"
    and "\<forall>k < n. \<bar>int k * so\<bar> < 2 ^ 31 \<and> \<bar>int k * dof\<bar> < 2 ^ 31"
    and "\<not> (e \<noteq> GDT_Byte \<and> e' = GDT_Byte \<and> so = 0 \<and> dof = 1 \<and> 1 < n)" and "e' \<noteq> GDT_Unknown"
    and "0 < n" and "int (n * word_size_of e) < 2 ^ 31"
  shows "\<exists>dst'. GDALCopyWords via src s e so dst d e' dof (int n) = Some dst' \<and>
    copied (pixel_map via e e') (word_size_of e) (word_size_of e') src (spaced s so d dof [0..<n]) dst dst'"
proof (cases "e = e' \<or> so \<noteq> 0 \<or> n \<le> 1")
  case True
  then show ?thesis using assms by (intro GDALCopyWords_copies)
next
  case False
  then show ?thesis
    using copy_list_ok [OF assms(2), of "pixel_map via e e'"] length_pixel_map [OF assms(1)] assms
      GDALCopyWords_repeat_list [of e e' src s d dof n dst via] by auto
qed

section \<open>Conversions between integer types\<close>

lemma unsigned_le_range: "0 \<le> unsigned_le bs \<and> unsigned_le bs < 256 ^ length bs"
proof (induction bs)
  case (Cons b bs)
  have "0 \<le> uint b" "uint b < 256" using uint_bounded [of b] by simp_all
  with Cons show ?case by simp
qed simp

lemma unsigned_le_put: "unsigned_le (put_le n v) = v mod 256 ^ n"
proof (induction n arbitrary: v)
  case (Suc n)
  have "v mod (256 * 256 ^ n) = 256 * (v div 256 mod 256 ^ n) + v mod 256"
    by (rule zmod_zmult2_eq) simp
  moreover have "uint (word_of_int v :: 8 word) = v mod 256" by (simp add: uint_word_of_int)
  ultimately show ?case using Suc.IH by simp
qed simp

lemma signed_le_range: "bs \<noteq> [] \<Longrightarrow> - (256 ^ length bs) \<le> 2 * signed_le bs \<and> 2 * signed_le bs < 256 ^ length bs"
  using unsigned_le_range [of bs] by (auto simp: signed_le_def Let_def)

lemma signed_le_put:
  assumes "- (256 ^ n) \<le> 2 * v" and "2 * v < 256 ^ n"
  shows "signed_le (put_le n v) = v"
proof (cases "0 \<le> v")
  case True
  then have "v mod 256 ^ n = v" using assms by (intro mod_pos_pos_trivial) auto
  then show ?thesis using assms by (simp add: signed_le_def unsigned_le_put)
next
  case False
  have "v mod 256 ^ n = (v + 256 ^ n) mod 256 ^ n" by simp
  also have "\<dots> = v + 256 ^ n" using False assms by (intro mod_pos_pos_trivial) auto
  finally show ?thesis using False assms by (simp add: signed_le_def unsigned_le_put)
qed

text \<open>The values a part of a word can have.\<close>

fun part_range :: "GDALDataType \<Rightarrow> (int \<times> int) option" where
  "part_range GDT_Byte = Some (0, 255)"
| "part_range GDT_UInt16 = Some (0, 65535)"
| "part_range GDT_Int16 = Some (-32768, 32767)"
| "part_range GDT_CInt16 = Some (-32768, 32767)"
| "part_range GDT_UInt32 = Some (0, 4294967295)"
| "part_range GDT_Int32 = Some (-2147483648, 2147483647)"
| "part_range GDT_CInt32 = Some (-2147483648, 2147483647)"
| "part_range _ = None"

definition is_integer :: "GDALDataType \<Rightarrow> bool" where
  "is_integer e = (part_range e \<noteq> None)"

definition clamp :: "GDALDataType \<Rightarrow> int \<Rightarrow> int" where
  "clamp e v = (case part_range e of Some (lo, hi) \<Rightarrow> max lo (min hi v) | None \<Rightarrow> v)"

definition clamped :: "GDALDataType \<Rightarrow> int \<times> int \<Rightarrow> int \<times> int" where
  "clamped e = (\<lambda>(re, im). (clamp e re, if GDALDataTypeIsComplex e then clamp e im else 0))"

lemma put_le_take [simp]: "take n (put_le n v @ bs) = put_le n v" "drop n (put_le n v @ bs) = bs"
  by simp_all

lemma fetch_range:
  assumes "fetch_word e bs = Some (re, im)" and "length bs = word_size_of e"
  shows "clamp e re = re" and "clamp e im = im" and "\<not> GDALDataTypeIsComplex e \<Longrightarrow> im = 0"
    and "part_range e = Some (lo, hi) \<Longrightarrow> lo \<le> re \<and> re \<le> hi \<and> (GDALDataTypeIsComplex e \<longrightarrow> lo \<le> im \<and> im \<le> hi)"
proof -
  have u: "0 \<le> unsigned_le xs \<and> unsigned_le xs < 256 ^ length xs" for xs by (rule unsigned_le_range)
  have s: "- (256 ^ length xs) \<le> 2 * signed_le xs \<and> 2 * signed_le xs < 256 ^ length xs" if "0 < length xs" for xs
    using signed_le_range that by simp
  have len: "length (take 2 bs) = 2 \<and> length (drop 2 bs) = 2" if "length bs = 4" using that by simp
  have len': "length (take 4 bs) = 4 \<and> length (drop 4 bs) = 4" if "length bs = 8" using that by simp
  show "part_range e = Some (lo, hi) \<Longrightarrow> lo \<le> re \<and> re \<le> hi \<and> (GDALDataTypeIsComplex e \<longrightarrow> lo \<le> im \<and> im \<le> hi)"
    using assms u [of bs] s [of bs] s [of "take 2 bs"] s [of "drop 2 bs"] s [of "take 4 bs"] s [of "drop 4 bs"] len len'
    by (cases e) (auto simp: fetch_word_def word_size_of_def)
  show "clamp e re = re" "clamp e im = im" "\<not> GDALDataTypeIsComplex e \<Longrightarrow> im = 0"
    using assms u [of bs] s [of bs] s [of "take 2 bs"] s [of "drop 2 bs"] s [of "take 4 bs"] s [of "drop 4 bs"] len len'
    by (cases e; auto simp: fetch_word_def word_size_of_def clamp_def)+
qed

lemma store_parts:
  "0 \<le> c \<Longrightarrow> c \<le> 255 \<Longrightarrow> uint (word_of_int c :: 8 word) = c"
  "0 \<le> c \<Longrightarrow> c \<le> 65535 \<Longrightarrow> unsigned_le (put_le 2 c) = c"
  "0 \<le> c \<Longrightarrow> c \<le> 4294967295 \<Longrightarrow> unsigned_le (put_le 4 c) = c"
  "-32768 \<le> c \<Longrightarrow> c \<le> 32767 \<Longrightarrow> signed_le (put_le 2 c) = c"
  "-2147483648 \<le> c \<Longrightarrow> c \<le> 2147483647 \<Longrightarrow> signed_le (put_le 4 c) = c"
  by (simp_all add: unsigned_le_put signed_le_put uint_word_of_int mod_pos_pos_trivial)

lemma store_zero: "signed_le (put_le 2 0) = 0" "signed_le (put_le 4 0) = 0"
  by (simp_all add: signed_le_put)

text \<open>The word stored for each pair of types holds the parts, clamped.\<close>

lemma from_clamps:
  assumes "fetch_word e bs = Some (re, im)" and "length bs = word_size_of e" and "is_integer e'" and "e \<noteq> e'"
  shows "\<exists>r. direct_word e e' bs = Some r \<and> fetch_word e' r = Some (clamped e' (re, im))"
proof (cases "part_range e")
  case None
  then show ?thesis using assms(1) by (cases e) (simp_all add: fetch_word_def)
next
  case (Some r)
  obtain lo hi where "part_range e = Some (lo, hi)" using Some by (cases r) auto
  note range = fetch_range(3,4) [OF assms(1,2)] fetch_range(4) [OF assms(1,2) this]
  have word: "direct_word e e' bs = (case e of
        GDT_Byte \<Rightarrow> from_Byte e' re
      | GDT_UInt16 \<Rightarrow> from_UInt16 e' re
      | GDT_Int16 \<Rightarrow> from_Int16 e' re
      | GDT_UInt32 \<Rightarrow> from_UInt32 e' re
      | GDT_Int32 \<Rightarrow> from_Int32 e' re
      | GDT_CInt16 \<Rightarrow> from_CInt16 e' re im
      | GDT_CInt32 \<Rightarrow> from_CInt32 e' re im
      | _ \<Rightarrow> None)"
    using assms(1) by (simp add: direct_word_def)
  show ?thesis
  proof (cases e)
    case GDT_Byte
    then show ?thesis
      using range assms(3,4) unfolding word
      by (cases e') (auto simp: from_Byte_def fetch_word_def clamped_def clamp_def is_integer_def store_parts store_zero)
  next
    case GDT_UInt16
    then show ?thesis
      using range assms(3,4) unfolding word
      by (cases e') (auto simp: from_UInt16_def fetch_word_def clamped_def clamp_def is_integer_def store_parts store_zero)
  next
    case GDT_Int16
    then show ?thesis
      using range assms(3,4) unfolding word
      by (cases e') (auto simp: from_Int16_def fetch_word_def clamped_def clamp_def is_integer_def store_parts store_zero)
  next
    case GDT_UInt32
    then show ?thesis
      using range assms(3,4) unfolding word
      by (cases e') (auto simp: from_UInt32_def fetch_word_def clamped_def clamp_def is_integer_def store_parts store_zero)
  next
    case GDT_Int32
    then show ?thesis
      using range assms(3,4) unfolding word
      by (cases e') (auto simp: from_Int32_def fetch_word_def clamped_def clamp_def is_integer_def store_parts store_zero)
  next
    case GDT_CInt16
    then show ?thesis
      using range assms(3,4) unfolding word
      by (cases e') (auto simp: from_CInt16_def fetch_word_def clamped_def clamp_def is_integer_def store_parts store_zero)
  next
    case GDT_CInt32
    then show ?thesis
      using range assms(3,4) unfolding word
      by (cases e') (auto simp: from_CInt32_def fetch_word_def clamped_def clamp_def is_integer_def store_parts store_zero)
  qed (use assms(1) in \<open>simp_all add: fetch_word_def\<close>)
qed

lemma fetch_integer:
  assumes "is_integer e"
  obtains re im where "fetch_word e bs = Some (re, im)"
  using assms by (cases e) (auto simp: is_integer_def fetch_word_def)

lemma pixel_map_clamps:
  assumes "is_integer e" and "is_integer e'" and "length bs = word_size_of e"
  shows "fetch_word e' (pixel_map via e e' bs) = map_option (clamped e') (fetch_word e bs)"
proof -
  obtain re im where f: "fetch_word e bs = Some (re, im)" using fetch_integer [OF assms(1)] .
  show ?thesis
  proof (cases "e = e'")
    case True
    then show ?thesis using fetch_range(1-3) [OF f assms(3)] f by (auto simp: pixel_map_def clamped_def)
  next
    case False
    then show ?thesis using from_clamps [OF f assms(3,2)] f by (auto simp: pixel_map_def convert_word_def)
  qed
qed

text \<open>
  C37.  Copying words clamps.  For two integer types (complex ones included), with the words inside
  their buffers, no two words of the destination overlapping and the offsets and the size within an
  \<^verbatim>\<open>int\<close>, \<open>GDALCopyWords\<close> gives every word of the destination the value of its source word, clamped
  to the range of the type (a missing imaginary part is zero), and leaves all other bytes alone.  This
  covers all of its loops, that for a single source word included, with one exception: a word
  of another type repeated (source offset 0) into bytes that follow each other, where \<^verbatim>\<open>memset\<close> misses
  the last byte (see the next section).
\<close>

theorem GDALCopyWords_clamps:
  assumes "is_integer e" and "is_integer e'" and "via_fits via"
    and "copyable (word_size_of e) (word_size_of e') src (spaced s so d dof [0..<n]) dst"
    and "\<forall>k < n. \<bar>int k * so\<bar> < 2 ^ 31 \<and> \<bar>int k * dof\<bar> < 2 ^ 31"
    and "\<not> (e \<noteq> GDT_Byte \<and> e' = GDT_Byte \<and> so = 0 \<and> dof = 1 \<and> 1 < n)"
    and "0 < n" and "int (n * word_size_of e) < 2 ^ 31"
  shows "\<exists>dst'. GDALCopyWords via src s e so dst d e' dof (int n) = Some dst' \<and> length dst' = length dst \<and>
    (\<forall>k < n. fetch_word e' (word_at dst' (d + int k * dof) (word_size_of e')) =
       map_option (clamped e') (fetch_word e (word_at src (s + int k * so) (word_size_of e)))) \<and>
    (\<forall>b m. 0 \<le> b \<longrightarrow> (\<forall>k < n. clear_of m b (word_size_of e') (d + int k * dof)) \<longrightarrow>
       word_at dst' b m = word_at dst b m)"
proof -
  let ?ps = "spaced s so d dof [0..<n]"
  have known: "e' \<noteq> GDT_Unknown" using assms(2) by (auto simp: is_integer_def)
  obtain dst' where dst': "GDALCopyWords via src s e so dst d e' dof (int n) = Some dst'"
    "copied (pixel_map via e e') (word_size_of e) (word_size_of e') src ?ps dst dst'"
    using GDALCopyWords_copies_all [OF assms(3-6) known assms(7,8)] by blast
  have mem: "(s + int k * so, d + int k * dof) \<in> set ?ps" if "k < n" for k using that by (auto simp: spaced_def)
  have "fetch_word e' (word_at dst' (d + int k * dof) (word_size_of e')) =
      map_option (clamped e') (fetch_word e (word_at src (s + int k * so) (word_size_of e)))" if "k < n" for k
  proof -
    have "length (word_at src (s + int k * so) (word_size_of e)) = word_size_of e"
      using assms(4) mem [OF that] by (auto simp: copyable_def intro!: length_word_at)
    moreover have "word_at dst' (d + int k * dof) (word_size_of e') =
        pixel_map via e e' (word_at src (s + int k * so) (word_size_of e))"
      using dst'(2) mem [OF that] by (auto simp: copied_def)
    ultimately show ?thesis using pixel_map_clamps [OF assms(1,2)] by simp
  qed
  moreover have "word_at dst' b m = word_at dst b m"
    if "0 \<le> b" "\<forall>k < n. clear_of m b (word_size_of e') (d + int k * dof)" for b m
    using dst'(2) that by (auto simp: copied_def spaced_def)
  ultimately show ?thesis using dst' by (intro exI [of _ dst']) (simp add: copied_def)
qed

theorem GDALCopyWords_clamps_witness:
  "\<exists>dst'. GDALCopyWords (\<lambda>e e' bs. replicate (word_size_of e') 0) [0xff, 0xff, 7, 0x2c, 1, 7] 0 GDT_Int16 3 [9, 9, 9] 0 GDT_Byte 2 2 =
     Some dst' \<and> fetch_word GDT_Byte (word_at dst' 0 1) = Some (0, 0) \<and> fetch_word GDT_Byte (word_at dst' 2 1) = Some (255, 0) \<and>
     word_at dst' 1 1 = [9]"
proof -
  let ?via = "\<lambda>e e' bs. replicate (word_size_of e') 0 :: octets" and ?src = "[0xff, 0xff, 7, 0x2c, 1, 7] :: octets"
  have w: "word_size_of GDT_Int16 = 2" "word_size_of GDT_Byte = 1" by (simp_all add: word_size_of_def)
  have h: "is_integer GDT_Int16" "is_integer GDT_Byte" "via_fits ?via" by (simp_all add: is_integer_def via_fits_def)
  have c: "copyable (word_size_of GDT_Int16) (word_size_of GDT_Byte) ?src (spaced 0 3 0 2 [0..<2]) [9, 9, 9]"
    by (simp add: w copyable_def spaced_def clear_of_def upt_rec)
  obtain dst' where dst': "GDALCopyWords ?via ?src 0 GDT_Int16 3 [9, 9, 9] 0 GDT_Byte 2 (int 2) = Some dst'" "length dst' = 3"
    "\<forall>k < 2. fetch_word GDT_Byte (word_at dst' (0 + int k * 2) 1) =
       map_option (clamped GDT_Byte) (fetch_word GDT_Int16 (word_at ?src (0 + int k * 3) 2))"
    "\<forall>b m. 0 \<le> b \<longrightarrow> (\<forall>k < 2. clear_of m b 1 (0 + int k * 2)) \<longrightarrow> word_at dst' b m = word_at [9, 9, 9] b m"
    using GDALCopyWords_clamps [OF h c] unfolding w by (auto simp: less_Suc_eq numeral_2_eq_2)
  have "fetch_word GDT_Int16 (word_at ?src 0 2) = Some (-1, 0)" "fetch_word GDT_Int16 (word_at ?src 3 2) = Some (300, 0)"
    by (simp_all add: fetch_word_def word_at_def signed_le_def)
  then have "fetch_word GDT_Byte (word_at dst' 0 1) = Some (0, 0)" "fetch_word GDT_Byte (word_at dst' 2 1) = Some (255, 0)"
    using dst'(3) [rule_format, of 0] dst'(3) [rule_format, of 1] by (simp_all add: clamped_def clamp_def)
  moreover have "word_at dst' 1 1 = [9]"
  proof -
    have "\<forall>k < 2. clear_of 1 1 1 (0 + int k * 2)" by (auto simp: clear_of_def)
    then have "word_at dst' 1 1 = word_at [9, 9, 9] 1 1" using dst'(4) by simp
    then show ?thesis by (simp add: word_at_def)
  qed
  ultimately show ?thesis using dst'(1) by auto
qed

section \<open>The same word again and again\<close>

text \<open>
  C38.  A source word that is repeated (offset 0) is not written to the whole destination when its
  type changes to bytes that follow each other: \<^verbatim>\<open>memset\<close> is called with a count that has been
  reduced twice, and the last byte keeps what it held.
\<close>

theorem GDALCopyWords_repeat_misses_last:
  assumes "e \<noteq> GDT_Byte" and "2 \<le> n" and "0 \<le> s" and "s + int (word_size_of e) \<le> int (length src)"
    and "0 \<le> d" and "d + int n \<le> int (length dst)" and "via_fits via"
  shows "\<exists>dst'. GDALCopyWords via src s e 0 dst d GDT_Byte 1 (int n) = Some dst' \<and>
    word_at dst' d (n - 1) = replicate (n - 1) (hd (pixel_map via e GDT_Byte (word_at src s (word_size_of e)))) \<and>
    word_at dst' (d + int n - 1) 1 = word_at dst (d + int n - 1) 1"
proof -
  let ?w = "word_size_of e" and ?f = "convert_word via e GDT_Byte"
  let ?v = "?f (word_at src s ?w)"
  have w1: "word_size_of GDT_Byte = 1" by (simp add: word_size_of_def)
  have pm: "pixel_map via e GDT_Byte = ?f" using assms(1) by (simp add: pixel_map_def)
  have "length ?v = 1"
    using length_pixel_map [OF assms(7) length_word_at [OF assms(3,4)], of GDT_Byte] by (simp add: pm w1)
  then obtain x where x: "?v = [x]" by (cases ?v) auto
  obtain dst1 where dst1: "store_bytes dst d [x] = Some dst1" "length dst1 = length dst" "word_at dst1 d 1 = [x]"
    "\<forall>b m. 0 \<le> b \<longrightarrow> clear_of m b 1 d \<longrightarrow> word_at dst1 b m = word_at dst b m"
    using store_bytes_ok [OF assms(5), of "[x]" dst] assms(2,6) by auto
  let ?rest = "replicate (n - 2) x"
  have "d + 1 + int (length ?rest) \<le> int (length dst1)" using assms(2,6) dst1(2) by simp
  then obtain dst' where dst': "store_bytes dst1 (d + 1) ?rest = Some dst'" "length dst' = length dst1"
    "word_at dst' (d + 1) (n - 2) = ?rest"
    "\<forall>b m. 0 \<le> b \<longrightarrow> clear_of m b (n - 2) (d + 1) \<longrightarrow> word_at dst' b m = word_at dst1 b m"
    using store_bytes_ok [of "d + 1" ?rest dst1] assms(5) by auto
  have zero: "to_i32 0 = 0" by (simp add: to_i32_def)
  have "copy_indexed ?f ?w src s 0 d 1 0 1 dst = Some dst1"
    using load_bytes_ok [OF assms(3,4)] dst1(1) x zero by simp
  moreover have "load_bytes dst1 d 1 = Some [x]"
    using load_bytes_ok [of d 1 dst1] dst1(2,3) assms(2,5,6) by simp
  moreover have "nat (int n - 1) - 1 = n - 2" by simp
  ultimately have run: "GDALCopyWords via src s e 0 dst d GDT_Byte 1 (int n) = Some dst'"
    using assms(1,2) dst'(1) by (simp add: GDALCopyWords_def repeat_first_def w1)
  have "word_at dst' d 1 = [x]"
    using dst'(4) dst1(3) assms(5) by (simp add: clear_of_def)
  moreover have "word_at dst' d (1 + (n - 2)) = word_at dst' d 1 @ word_at dst' (d + 1) (n - 2)"
    using load_bytes_append [OF assms(5), of 1 "n - 2" dst'] load_bytes_ok [OF assms(5), of "1 + (n - 2)" dst']
      assms(2,6) dst'(2) dst1(2) by simp
  moreover have n: "1 + (n - 2) = n - 1" "[x] @ ?rest = replicate (n - 1) x"
    using assms(2) by (auto simp: replicate_Suc [symmetric] Suc_diff_Suc simp del: replicate_Suc)
  ultimately have "word_at dst' d (n - 1) = replicate (n - 1) x" using dst'(3) by simp
  moreover have "word_at dst' (d + int n - 1) 1 = word_at dst (d + int n - 1) 1"
    using dst'(4) dst1(4) assms(2,5) by (simp add: clear_of_def of_nat_diff)
  ultimately show ?thesis using run x pm by (intro exI [of _ dst']) simp
qed

theorem GDALCopyWords_repeat_misses_last_witness:
  "\<exists>dst'. GDALCopyWords (\<lambda>e e' bs. replicate (word_size_of e') 0) [5, 0] 0 GDT_Int16 0 [9, 9, 9] 0 GDT_Byte 1 3 = Some dst' \<and>
     word_at dst' 0 2 = [5, 5] \<and> word_at dst' 2 1 = [9]"
proof -
  let ?via = "\<lambda>e e' bs. replicate (word_size_of e') 0 :: octets"
  have "via_fits ?via" by (simp add: via_fits_def)
  moreover have "word_size_of GDT_Int16 = 2" by (simp add: word_size_of_def)
  moreover have "pixel_map ?via GDT_Int16 GDT_Byte [5, 0] = [5]"
    by (simp add: pixel_map_def convert_word_def direct_word_def fetch_word_def signed_le_def from_Int16_def)
  ultimately show ?thesis
    using GDALCopyWords_repeat_misses_last [of GDT_Int16 3 0 "[5, 0]" 0 "[9, 9, 9]" ?via]
    by (simp add: word_at_def numeral_2_eq_2)
qed

end
