(* ===== verification/Raster_Io_Facts.thy ===== *)
theory Raster_Io_Facts
  imports Raster_Io_Steps Pixel_Copy_Facts
begin

text \<open>
  What \<open>IRasterIO\<close> does, pixel by pixel: a request moves the pixels of its window to places of the buffer or
  from them.  The invariant \<open>so_far\<close> says which of these moves have been made; every loop adds to them.
\<close>

section \<open>Pixels\<close>

text \<open>The blocks of a band: how many there are across and down, and their sizes in pixels.\<close>

record grid =
  gNX :: int
  gNY :: int
  gBX :: int
  gBY :: int

definition block_bytes :: "grid \<Rightarrow> nat \<Rightarrow> nat" where
  "block_bytes g w = nat (gBX g * gBY g) * w"

definition in_grid :: "grid \<Rightarrow> int \<Rightarrow> int \<Rightarrow> bool" where
  "in_grid g X Y = position (gNX g) (gNY g) (X div gBX g) (Y div gBY g)"

text \<open>The place of a pixel of \<open>w\<close> bytes in its block, and what is seen of it.\<close>

definition place :: "grid \<Rightarrow> nat \<Rightarrow> int \<Rightarrow> int \<Rightarrow> int" where
  "place g w X Y = (X mod gBX g + (Y mod gBY g) * gBX g) * int w"

definition pixel :: "(octets, 'w) store \<Rightarrow> nat \<Rightarrow> grid \<Rightarrow> nat \<Rightarrow> (octets, 'w) gdal \<Rightarrow> int \<Rightarrow> int \<Rightarrow> octets" where
  "pixel S k g w s X Y =
     (case seen S s k (X div gBX g) (Y div gBY g) of None \<Rightarrow> [] | Some d \<Rightarrow> word_at d (place g w X Y) w)"

abbreviation band_word :: "'w raster_env \<Rightarrow> nat \<Rightarrow> nat" where
  "band_word env k \<equiv> word_size_of (eDataType env k)"

abbreviation buf_word :: "request \<Rightarrow> nat" where
  "buf_word rq \<equiv> word_size_of (eBufType rq)"

lemma place_range:
  assumes "0 < gBX g" and "0 < gBY g"
  shows "0 \<le> place g w X Y" and "place g w X Y + int w \<le> int (block_bytes g w)"
proof -
  let ?i = "X mod gBX g" and ?j = "Y mod gBY g"
  have r: "0 \<le> ?i" "?i < gBX g" "0 \<le> ?j" "?j < gBY g" using assms by simp_all
  then show "0 \<le> place g w X Y" using assms by (simp add: place_def)
  have "?j * gBX g \<le> (gBY g - 1) * gBX g" using r assms by (intro mult_right_mono) auto
  then have "?i + ?j * gBX g + 1 \<le> gBX g * gBY g" using r by (simp add: algebra_simps)
  then have "(?i + ?j * gBX g + 1) * int w \<le> gBX g * gBY g * int w" by (rule mult_right_mono) simp
  moreover have "0 \<le> gBX g * gBY g" using assms by simp
  ultimately show "place g w X Y + int w \<le> int (block_bytes g w)"
    by (simp add: place_def block_bytes_def algebra_simps)
qed

text \<open>Different pixels of a block have places that do not meet.\<close>

lemma places_clear:
  assumes "0 < gBX g" and "X div gBX g = X' div gBX g" and "Y div gBY g = Y' div gBY g" and "(X, Y) \<noteq> (X', Y')"
  shows "clear_of w (place g w X Y) w (place g w X' Y')"
proof -
  let ?l = "X mod gBX g + (Y mod gBY g) * gBX g" and ?l' = "X' mod gBX g + (Y' mod gBY g) * gBX g"
  have "?l \<noteq> ?l'"
  proof
    assume "?l = ?l'"
    then have "?l mod gBX g = ?l' mod gBX g" "?l div gBX g = ?l' div gBX g" by simp_all
    then have "X mod gBX g = X' mod gBX g" "Y mod gBY g = Y' mod gBY g" using assms(1) by simp_all
    then have "X = X'" "Y = Y'" using assms(2,3) by (metis mult_div_mod_eq)+
    then show False using assms(4) by simp
  qed
  then have "?l + 1 \<le> ?l' \<or> ?l' + 1 \<le> ?l" by linarith
  then have "(?l + 1) * int w \<le> ?l' * int w \<or> (?l' + 1) * int w \<le> ?l * int w"
    by (metis mult_right_mono of_nat_0_le_iff)
  then show ?thesis by (simp add: clear_of_def place_def algebra_simps)
qed

lemma nBandDataSize_word: "nBandDataSize env k = int (band_word env k)"
  by (cases "eDataType env k") (simp_all add: nBandDataSize_def word_size_of_def c_div_def)

lemma nBufDataSize_word: "nBufDataSize rq = int (buf_word rq)"
  by (cases "eBufType rq") (simp_all add: nBufDataSize_def word_size_of_def c_div_def)

section \<open>What has been moved\<close>

text \<open>A move is a pixel, by column and line, and a place of the buffer.\<close>

type_synonym move = "int \<times> int \<times> int"

definition read_so_far ::
    "(octets, 'w) store \<Rightarrow> 'w raster_env \<Rightarrow> nat \<Rightarrow> request \<Rightarrow> grid \<Rightarrow> (octets, 'w) gdal \<Rightarrow> octets \<Rightarrow> move set
     \<Rightarrow> (octets, 'w) gdal \<Rightarrow> octets \<Rightarrow> bool" where
  "read_so_far S env k rq g s0 buf0 D s buf =
     (keeps S s0 s \<and> length buf = length buf0 \<and>
      (\<forall>(X, Y, q) \<in> D. word_at buf q (buf_word rq) =
         pixel_map (via_double env) (eDataType env k) (eBufType rq) (pixel S k g (band_word env k) s0 X Y)) \<and>
      (\<forall>b m. 0 \<le> b \<longrightarrow> (\<forall>(X, Y, q) \<in> D. clear_of m b (buf_word rq) q) \<longrightarrow> word_at buf b m = word_at buf0 b m))"

text \<open>For writing, \<open>W\<close> is the window.\<close>

definition written_so_far ::
    "(octets, 'w) store \<Rightarrow> 'w raster_env \<Rightarrow> nat \<Rightarrow> request \<Rightarrow> grid \<Rightarrow> (int \<times> int) set \<Rightarrow> (octets, 'w) gdal \<Rightarrow> octets
     \<Rightarrow> move set \<Rightarrow> (octets, 'w) gdal \<Rightarrow> octets \<Rightarrow> bool" where
  "written_so_far S env k rq g W s0 buf0 D s buf =
     (buf = buf0 \<and> coherent S s \<and> same_shape S (world s0) (world s) \<and>
      (\<forall>k' x y. k' \<noteq> k \<longrightarrow> inside S (world s0) k' x y \<longrightarrow> seen S s k' x y = seen S s0 k' x y) \<and>
      (\<forall>X Y. in_grid g X Y \<longrightarrow> (X, Y) \<notin> W \<longrightarrow>
         pixel S k g (band_word env k) s X Y = pixel S k g (band_word env k) s0 X Y) \<and>
      (\<forall>(X, Y, q) \<in> D. pixel S k g (band_word env k) s X Y =
         pixel_map (via_double env) (eBufType rq) (eDataType env k) (word_at buf0 q (buf_word rq))))"

definition so_far ::
    "(octets, 'w) store \<Rightarrow> 'w raster_env \<Rightarrow> nat \<Rightarrow> request \<Rightarrow> grid \<Rightarrow> (int \<times> int) set \<Rightarrow> (octets, 'w) gdal \<Rightarrow> octets
     \<Rightarrow> move set \<Rightarrow> (octets, 'w) gdal \<Rightarrow> octets \<Rightarrow> bool" where
  "so_far S env k rq g W s0 buf0 D s buf =
     (io_state S k (gNX g) (gNY g) (block_bytes g (band_word env k)) (layout_of s0) s \<and>
      (\<forall>(X, Y, q) \<in> D. in_grid g X Y \<and> 0 \<le> q) \<and>
      (if eRWFlag rq = GF_Read then read_so_far S env k rq g s0 buf0 D s buf
       else written_so_far S env k rq g W s0 buf0 D s buf))"

text \<open>What is assumed of the band, the driver and the conversions.\<close>

definition io_ready :: "(octets, 'w) driver \<Rightarrow> 'w raster_env \<Rightarrow> nat \<Rightarrow> request \<Rightarrow> grid \<Rightarrow> bool" where
  "io_ready drv env k rq g =
     (the_driver env = drv \<and> via_fits (via_double env) \<and> eDataType env k \<noteq> GDT_Unknown \<and> eBufType rq \<noteq> GDT_Unknown \<and>
      0 < gBX g \<and> 0 < gBY g \<and> gBX g * gBY g * int (band_word env k) < 2 ^ 31 \<and>
      (\<forall>w d. VSIMalloc drv w (int (block_bytes g (band_word env k))) = Some d \<longrightarrow>
         length d = block_bytes g (band_word env k)))"

lemma so_far_state: "so_far S env k rq g W s0 buf0 D s buf \<Longrightarrow>
    io_state S k (gNX g) (gNY g) (block_bytes g (band_word env k)) (layout_of s0) s"
  by (simp add: so_far_def)

lemma pixel_seen:
  "seen S s k (X div gBX g) (Y div gBY g) = Some d \<Longrightarrow> pixel S k g w s X Y = word_at d (place g w X Y) w"
  by (simp add: pixel_def)

lemma pixel_cong:
  "seen S s' k (X div gBX g) (Y div gBY g) = seen S s k (X div gBX g) (Y div gBY g) \<Longrightarrow>
   pixel S k g w s' X Y = pixel S k g w s X Y"
  by (simp add: pixel_def)

lemma io_state_inside:
  assumes "io_state S k nx ny N L s" and "position nx ny x y"
  shows "inside S (world s) k x y"
  using io_stateE [OF assms(1)] assms(2) by metis

text \<open>Steps that change nothing that is seen.\<close>

lemma so_far_keeps:
  assumes "so_far S env k rq g W s0 buf0 D s buf" and "keeps S s s'"
    and "io_state S k (gNX g) (gNY g) (block_bytes g (band_word env k)) (layout_of s0) s'"
  shows "so_far S env k rq g W s0 buf0 D s' buf"
proof (cases "eRWFlag rq = GF_Read")
  case True
  then show ?thesis using assms keeps_trans by (fastforce simp: so_far_def read_so_far_def)
next
  case False
  then have w: "written_so_far S env k rq g W s0 buf0 D s buf" using assms(1) by (simp add: so_far_def)
  have sh: "inside S (world s) = inside S (world s0)" using w by (simp add: written_so_far_def same_shape_def)
  have seen: "seen S s' k' x y = seen S s k' x y" if "inside S (world s0) k' x y" for k' x y
    using assms(2) that sh by (simp add: keeps_def)
  have pix: "pixel S k g (band_word env k) s' X Y = pixel S k g (band_word env k) s X Y" if "in_grid g X Y" for X Y
    using pixel_cong [OF seen] io_state_inside [OF so_far_state [OF assms(1)]] that by (simp add: in_grid_def sh)
  have "written_so_far S env k rq g W s0 buf0 D s' buf"
    using w assms(1,2) seen pix unfolding written_so_far_def
    by (fastforce simp: keeps_def so_far_def intro: same_shape_trans)
  then show ?thesis using False assms(1,3) by (simp add: so_far_def)
qed

section \<open>Copying between a block and the buffer\<close>

text \<open>The pairs of places a list of moves copies, for reading and for writing.\<close>

definition reading_pairs :: "grid \<Rightarrow> nat \<Rightarrow> move list \<Rightarrow> (int \<times> int) list" where
  "reading_pairs g w = map (\<lambda>(X, Y, q). (place g w X Y, q))"

definition writing_pairs :: "grid \<Rightarrow> nat \<Rightarrow> move list \<Rightarrow> (int \<times> int) list" where
  "writing_pairs g w = map (\<lambda>(X, Y, q). (q, place g w X Y))"

definition moves_from :: "octets \<Rightarrow> request \<Rightarrow> grid \<Rightarrow> int \<Rightarrow> int \<Rightarrow> move list \<Rightarrow> bool" where
  "moves_from buf rq g x y ts =
     (\<forall>(X, Y, q) \<in> set ts. X div gBX g = x \<and> Y div gBY g = y \<and> 0 \<le> q \<and> q + int (buf_word rq) \<le> int (length buf))"

text \<open>New moves meet no old ones: in the buffer when reading, in the raster when writing.\<close>

definition fresh_moves :: "request \<Rightarrow> (int \<times> int) set \<Rightarrow> move set \<Rightarrow> move list \<Rightarrow> bool" where
  "fresh_moves rq W D ts =
     (if eRWFlag rq = GF_Read
      then \<forall>(X, Y, q) \<in> set ts. \<forall>(X', Y', q') \<in> D. clear_of (buf_word rq) q' (buf_word rq) q
      else \<forall>(X, Y, q) \<in> set ts. (X, Y) \<in> W \<and> (\<forall>q'. (X, Y, q') \<notin> D))"

context pixel_store
begin

lemma read_more:
  assumes "read_so_far S env k rq g s0 buf0 D s buf" and "seen S s k x y = Some d" and "inside S (world s) k x y"
    and "moves_from buf rq g x y ts" and "\<forall>(X, Y, q) \<in> set ts. \<forall>(X', Y', q') \<in> D. clear_of (buf_word rq) q' (buf_word rq) q"
    and "copied (pixel_map (via_double env) (eDataType env k) (eBufType rq)) (band_word env k) (buf_word rq) d
      (reading_pairs g (band_word env k) ts) buf buf'"
    and "\<forall>(X, Y, q) \<in> D. 0 \<le> q"
  shows "read_so_far S env k rq g s0 buf0 (D \<union> set ts) s buf'"
proof -
  let ?f = "pixel_map (via_double env) (eDataType env k) (eBufType rq)" and ?w = "band_word env k" and ?u = "buf_word rq"
  let ?P = "\<lambda>s. pixel S k g ?w s"
  have r: "keeps S s0 s" "length buf = length buf0" "\<forall>(X, Y, q) \<in> D. word_at buf q ?u = ?f (?P s0 X Y)"
    "\<forall>b m. 0 \<le> b \<longrightarrow> (\<forall>(X, Y, q) \<in> D. clear_of m b ?u q) \<longrightarrow> word_at buf b m = word_at buf0 b m"
    using assms(1) by (simp_all add: read_so_far_def)
  have c: "length buf' = length buf" "\<forall>(X, Y, q) \<in> set ts. word_at buf' q ?u = ?f (word_at d (place g ?w X Y) ?w)"
    "\<forall>b m. 0 \<le> b \<longrightarrow> (\<forall>(X, Y, q) \<in> set ts. clear_of m b ?u q) \<longrightarrow> word_at buf' b m = word_at buf b m"
    using assms(6) by (simp_all add: copied_def reading_pairs_def split_beta)
  have pix: "?P s0 X Y = word_at d (place g ?w X Y) ?w" if t: "(X, Y, q) \<in> set ts" for X Y q
  proof -
    have b: "X div gBX g = x" "Y div gBY g = y" using assms(4) t by (auto simp: moves_from_def)
    have "inside S (world s0) k x y" using assms(3) r(1) by (simp add: keeps_def same_shape_def)
    then have "seen S s0 k x y = Some d" using r(1) assms(2) by (simp add: keeps_def)
    then show ?thesis using pixel_seen [of S s0 k X g Y d] b by simp
  qed
  have new: "word_at buf' q ?u = ?f (?P s0 X Y)" if t: "(X, Y, q) \<in> set ts" for X Y q
    using c(2) t pix [OF t] by auto
  have old: "word_at buf' q ?u = ?f (?P s0 X Y)" if t: "(X, Y, q) \<in> D" for X Y q
  proof -
    have "0 \<le> q" "\<forall>(X', Y', q') \<in> set ts. clear_of ?u q ?u q'" using assms(5,7) t by fastforce+
    then have "word_at buf' q ?u = word_at buf q ?u" using c(3) by blast
    then show ?thesis using r(3) t by auto
  qed
  have "word_at buf' b m = word_at buf0 b m" if h: "0 \<le> b" "\<forall>(X, Y, q) \<in> D \<union> set ts. clear_of m b ?u q" for b m
    using c(3) r(4) h by (metis UnI1 UnI2)
  then show ?thesis using r(1,2) c(1) new old unfolding read_so_far_def by auto
qed

lemma written_more:
  assumes "written_so_far S env k rq g W s0 buf0 D s buf" and "seen S s k x y = Some d" and "position (gNX g) (gNY g) x y"
    and "\<And>X Y. in_grid g X Y \<Longrightarrow> inside S (world s) k (X div gBX g) (Y div gBY g)" and "0 < gBX g" and "0 < gBY g"
    and "moves_from buf rq g x y ts" and "\<forall>(X, Y, q) \<in> set ts. (X, Y) \<in> W \<and> (\<forall>q'. (X, Y, q') \<notin> D)"
    and "copied (pixel_map (via_double env) (eBufType rq) (eDataType env k)) (buf_word rq) (band_word env k) buf
      (writing_pairs g (band_word env k) ts) d d'"
    and "replaced S k x y d' s s'" and "\<forall>(X, Y, q) \<in> D. in_grid g X Y"
  shows "written_so_far S env k rq g W s0 buf0 (D \<union> set ts) s' buf"
proof -
  let ?f = "pixel_map (via_double env) (eBufType rq) (eDataType env k)" and ?w = "band_word env k" and ?u = "buf_word rq"
  let ?P = "\<lambda>s. pixel S k g ?w s"
  have r: "buf = buf0" "coherent S s" "same_shape S (world s0) (world s)"
    "\<forall>k' x y. k' \<noteq> k \<longrightarrow> inside S (world s0) k' x y \<longrightarrow> seen S s k' x y = seen S s0 k' x y"
    "\<forall>X Y. in_grid g X Y \<longrightarrow> (X, Y) \<notin> W \<longrightarrow> ?P s X Y = ?P s0 X Y"
    "\<forall>(X, Y, q) \<in> D. ?P s X Y = ?f (word_at buf0 q ?u)"
    using assms(1) by (simp_all add: written_so_far_def)
  have c: "\<forall>(X, Y, q) \<in> set ts. word_at d' (place g ?w X Y) ?w = ?f (word_at buf q ?u)"
    "\<forall>b m. 0 \<le> b \<longrightarrow> (\<forall>(X, Y, q) \<in> set ts. clear_of m b ?w (place g ?w X Y)) \<longrightarrow> word_at d' b m = word_at d b m"
    using assms(9) by (simp_all add: copied_def writing_pairs_def split_beta)
  have p: "coherent S s'" "same_shape S (world s) (world s')"
    "\<And>k' x' y'. inside S (world s) k' x' y' \<Longrightarrow>
       seen S s' k' x' y' = (if k' = k \<and> x' = x \<and> y' = y then Some d' else seen S s k' x' y')"
    using assms(10) by (simp_all add: replaced_def)
  have ins: "inside S (world s) = inside S (world s0)" using r(3) by (simp add: same_shape_def)
  have blk: "X div gBX g = x" "Y div gBY g = y" if "(X, Y, q) \<in> set ts" for X Y q
    using assms(7) that by (auto simp: moves_from_def)
  have at: "?P s' X Y = word_at d' (place g ?w X Y) ?w" if "X div gBX g = x" "Y div gBY g = y" for X Y
  proof -
    have "in_grid g X Y" using assms(3) that by (simp add: in_grid_def)
    from p(3) [OF assms(4) [OF this]] that show ?thesis by (simp add: pixel_def)
  qed
  have new: "?P s' X Y = ?f (word_at buf0 q ?u)" if t: "(X, Y, q) \<in> set ts" for X Y q
    using c(1) t at [OF blk [OF t]] r(1) by auto
  have old: "?P s' X Y = ?P s X Y" if g: "in_grid g X Y" and h: "\<forall>q. (X, Y, q) \<notin> set ts" for X Y
  proof (cases "X div gBX g = x \<and> Y div gBY g = y")
    case False
    then show ?thesis using p(3) [OF assms(4) [OF g]] by (auto intro: pixel_cong)
  next
    case True
    have "clear_of ?w (place g ?w X Y) ?w (place g ?w X' Y')" if t: "(X', Y', q') \<in> set ts" for X' Y' q'
    proof (rule places_clear)
      show "(X, Y) \<noteq> (X', Y')" using h t by blast
    qed (use assms(5) True blk [OF t] in simp_all)
    then have "word_at d' (place g ?w X Y) ?w = word_at d (place g ?w X Y) ?w"
      using c(2) place_range(1) [OF assms(5,6)] by blast
    then show ?thesis using at True assms(2) by (simp add: pixel_def)
  qed
  have "?P s' X Y = ?P s0 X Y" if "in_grid g X Y" "(X, Y) \<notin> W" for X Y
    using old [OF that(1)] r(5) that assms(8) by fastforce
  moreover have "?P s' X Y = ?f (word_at buf0 q ?u)" if t: "(X, Y, q) \<in> D" for X Y q
  proof -
    have "\<forall>q'. (X, Y, q') \<notin> set ts" using assms(8) t by fastforce
    moreover have "in_grid g X Y" using assms(11) t by auto
    ultimately show ?thesis using old r(6) t by fastforce
  qed
  moreover have "seen S s' k' x' y' = seen S s0 k' x' y'" if "k' \<noteq> k" "inside S (world s0) k' x' y'" for k' x' y'
    using p(3) [of k' x' y'] r(4) that ins by simp
  ultimately show ?thesis
    using r(1,3) p(1,2) new unfolding written_so_far_def by (auto intro: same_shape_trans)
qed

end

text \<open>One copy between the block at hand and the buffer.\<close>

context pixel_store
begin

lemma copy_block_ok:
  fixes env :: "'w raster_env" and g :: grid and rq :: request and k :: nat
  defines "w \<equiv> band_word env k" and "u \<equiv> buf_word rq"
  assumes "io_ready drv env k rq g" and "so_far S env k rq g W s0 buf0 D s buf"
    and "at_hand k x y (eRWFlag rq = GF_Write) a s" and "position (gNX g) (gNY g) x y"
    and "moves_from buf rq g x y ts" and "fresh_moves rq W D ts"
    and "\<And>d. eRWFlag rq = GF_Read \<Longrightarrow> length d = block_bytes g w \<Longrightarrow> \<exists>buf'. reading d off buf q = Some buf' \<and>
      copied (pixel_map (via_double env) (eDataType env k) (eBufType rq)) w u d (reading_pairs g w ts) buf buf'"
    and "\<And>d. eRWFlag rq = GF_Write \<Longrightarrow> length d = block_bytes g w \<Longrightarrow> \<exists>d'. writing buf q d off = Some d' \<and>
      copied (pixel_map (via_double env) (eBufType rq) (eDataType env k)) u w buf (writing_pairs g w ts) d d'"
  shows "\<exists>s' buf'. copy_block rq reading writing a off q s buf = Some (s', buf') \<and>
    so_far S env k rq g W s0 buf0 (D \<union> set ts) s' buf' \<and> length buf' = length buf \<and>
    at_hand k x y (eRWFlag rq = GF_Write) a s'"
proof -
  let ?N = "block_bytes g w"
  have io: "io_state S k (gNX g) (gNY g) ?N (layout_of s0) s" using assms(4) by (simp add: so_far_def w_def)
  have pos: "0 < gBX g" "0 < gBY g" using assms(3) by (simp_all add: io_ready_def)
  have D: "\<forall>(X, Y, q) \<in> D. in_grid g X Y \<and> 0 \<le> q" using assms(4) by (simp add: so_far_def)
  have ts: "\<forall>(X, Y, q) \<in> set ts. in_grid g X Y \<and> 0 \<le> q" using assms(6,7) by (fastforce simp: moves_from_def in_grid_def)
  then have Dts: "\<forall>(X, Y, q) \<in> D \<union> set ts. in_grid g X Y \<and> 0 \<le> q" using D by blast
  obtain b d where b: "block_at a s = Some b" "pData b = Some d" "seen S s k x y = Some d"
    using at_hand_block [OF assms(5)] by blast
  obtain d1 where "seen S s k x y = Some d1" "length d1 = ?N" using seen_length [OF io assms(6)] .
  then have len: "length d = ?N" using b(3) by simp
  show ?thesis
  proof (cases "eRWFlag rq = GF_Read")
    case True
    obtain buf' where buf': "reading d off buf q = Some buf'"
      "copied (pixel_map (via_double env) (eDataType env k) (eBufType rq)) w u d (reading_pairs g w ts) buf buf'"
      using assms(9) [OF True len] by blast
    have "read_so_far S env k rq g s0 buf0 (D \<union> set ts) s buf'"
      by (rule read_more [OF _ b(3) io_state_inside [OF io assms(6)] assms(7)])
        (use assms(4,8) True D buf'(2) in \<open>auto simp: so_far_def fresh_moves_def w_def u_def\<close>)
    then have "so_far S env k rq g W s0 buf0 (D \<union> set ts) s buf'"
      using True Dts io by (simp add: so_far_def w_def)
    then show ?thesis
      using assms(5) b(1,2) buf' True by (auto simp: copy_block_def copied_def)
  next
    case False
    then have wr: "eRWFlag rq = GF_Write" by (cases "eRWFlag rq") simp_all
    obtain d' where d': "writing buf q d off = Some d'"
      "copied (pixel_map (via_double env) (eBufType rq) (eDataType env k)) u w buf (writing_pairs g w ts) d d'"
      using assms(10) [OF wr len] by blast
    have hand: "at_hand k x y True a s" using assms(5) wr by simp
    have "length d' = ?N" using d'(2) len by (simp add: copied_def)
    from write_data [OF io hand assms(6) this]
    obtain s' where s': "set_block a (\<lambda>b. b\<lparr>pData := Some d'\<rparr>) s = Some s'" "io_state S k (gNX g) (gNY g) ?N (layout_of s0) s'"
      "replaced S k x y d' s s'" "at_hand k x y True a s'" by blast
    have "written_so_far S env k rq g W s0 buf0 (D \<union> set ts) s' buf"
      by (rule written_more [OF _ b(3) assms(6) _ pos assms(7) _ d'(2) [unfolded w_def u_def] s'(3)])
        (use assms(4,8) False D io_state_inside [OF io] in \<open>auto simp: so_far_def fresh_moves_def in_grid_def\<close>)
    then have "so_far S env k rq g W s0 buf0 (D \<union> set ts) s' buf"
      using False Dts s'(2) by (simp add: so_far_def w_def)
    then show ?thesis using b(1,2) d'(1) s'(1,4) wr by (auto simp: copy_block_def)
  qed
qed

text \<open>Locking the next block and letting it go.  A block that is only initialised lies in the window and has not
  been written before.\<close>

lemma lock_ok:
  assumes "io_ready drv env k rq g" and "so_far S env k rq g W s0 buf0 D s buf" and "position (gNX g) (gNY g) x y"
    and "j \<Longrightarrow> eRWFlag rq = GF_Write"
    and "\<And>X Y. j \<Longrightarrow> X div gBX g = x \<Longrightarrow> Y div gBY g = y \<Longrightarrow> (X, Y) \<in> W \<and> (\<forall>q. (X, Y, q) \<notin> D)"
  shows "\<exists>p s'. lock_block env k rq x y j s = Some (p, s') \<and> so_far S env k rq g W s0 buf0 D s' buf \<and>
    (case p of
       None \<Rightarrow> VSIMalloc drv (world s) (int (block_bytes g (band_word env k))) = None
     | Some a \<Rightarrow> at_hand k x y (eRWFlag rq = GF_Write) a s')"
proof -
  let ?N = "block_bytes g (band_word env k)"
  have io: "io_state S k (gNX g) (gNY g) ?N (layout_of s0) s" using assms(2) by (simp add: so_far_def)
  have m: "the_driver env = drv" and n: "\<And>w d. VSIMalloc drv w (int ?N) = Some d \<Longrightarrow> length d = ?N"
    using assms(1) by (simp_all add: io_ready_def)
  have "\<exists>p s'. lock_block env k rq x y j s = Some (p, s') \<and> io_state S k (gNX g) (gNY g) ?N (layout_of s0) s' \<and>
    (case p of
       None \<Rightarrow> keeps S s s' \<and> VSIMalloc drv (world s) (int ?N) = None
     | Some a \<Rightarrow> at_hand k x y (eRWFlag rq = GF_Write) a s' \<and> (if j then \<exists>d. replaced S k x y d s s' else keeps S s s'))"
    by (rule lock_block_ok [OF io assms(3) m], erule n, erule assms(4))
  then obtain p s' where l: "lock_block env k rq x y j s = Some (p, s')" "io_state S k (gNX g) (gNY g) ?N (layout_of s0) s'"
    "case p of
       None \<Rightarrow> keeps S s s' \<and> VSIMalloc drv (world s) (int ?N) = None
     | Some a \<Rightarrow> at_hand k x y (eRWFlag rq = GF_Write) a s' \<and> (if j then \<exists>d. replaced S k x y d s s' else keeps S s s')"
    by blast
  have "so_far S env k rq g W s0 buf0 D s' buf"
  proof (cases "keeps S s s'")
    case True
    then show ?thesis using so_far_keeps [OF assms(2) _ l(2)] by simp
  next
    case False
    then obtain a d where j: "j" "replaced S k x y d s s'" using l(3) by (auto split: option.splits if_splits)
    then have wr: "eRWFlag rq = GF_Write" using assms(4) by simp
    then have w: "written_so_far S env k rq g W s0 buf0 D s buf" using assms(2) by (simp add: so_far_def)
    have D: "\<forall>(X, Y, q) \<in> D. in_grid g X Y" using assms(2) by (auto simp: so_far_def)
    have ins: "inside S (world s) = inside S (world s0)" using w by (simp add: written_so_far_def same_shape_def)
    have sn: "seen S s' k' x' y' = seen S s k' x' y'" if "inside S (world s) k' x' y'" "\<not> (k' = k \<and> x' = x \<and> y' = y)" for k' x' y'
      using j(2) that by (auto simp: replaced_def)
    have pix: "pixel S k g (band_word env k) s' X Y = pixel S k g (band_word env k) s X Y"
      if "in_grid g X Y" "\<not> (X div gBX g = x \<and> Y div gBY g = y)" for X Y
      using pixel_cong [OF sn] io_state_inside [OF io] that by (simp add: in_grid_def)
    have "pixel S k g (band_word env k) s' X Y = pixel S k g (band_word env k) s0 X Y" if "in_grid g X Y" "(X, Y) \<notin> W" for X Y
      using pix [OF that(1)] w assms(5) [OF j(1), of X Y] that by (auto simp: written_so_far_def)
    moreover have "pixel S k g (band_word env k) s' X Y =
        pixel_map (via_double env) (eBufType rq) (eDataType env k) (word_at buf0 q (buf_word rq))" if t: "(X, Y, q) \<in> D" for X Y q
      using pix [of X Y] w D assms(5) [OF j(1), of X Y] t by (fastforce simp: written_so_far_def)
    ultimately have "written_so_far S env k rq g W s0 buf0 D s' buf"
      using w j(2) sn ins unfolding written_so_far_def
      by (auto simp: replaced_def intro: same_shape_trans)
    then show ?thesis using wr l(2) assms(2) by (simp add: so_far_def)
  qed
  then show ?thesis using l(1,3) by (auto split: option.splits)
qed

lemma drop_ok:
  assumes "so_far S env k rq g W s0 buf0 D s buf" and "at_hand k x y wr a s" and "position (gNX g) (gNY g) x y"
  shows "\<exists>s'. DropLock a s = Some s' \<and> so_far S env k rq g W s0 buf0 D s' buf"
  using DropLock_keeps [OF so_far_state [OF assms(1)] assms(2,3)] so_far_keeps [OF assms(1)] by blast

end

end
