(* ===== verification/Raster_Io_Loops.thy ===== *)
theory Raster_Io_Loops
  imports Raster_Io_Facts
begin

text \<open>
  The loops of \<open>IRasterIO\<close>: each of the three ways to run over the blocks makes every move of the request,
  or stops where a block cannot be allocated.
\<close>

section \<open>One line\<close>

lemma copyable_spaced:
  assumes "copyable w v src (spaced s so d dof [0..<n]) dst" and "m < n"
  shows "0 \<le> s + int m * so" and "s + int m * so + int w \<le> int (length src)"
    and "0 \<le> d + int m * dof" and "d + int m * dof + int v \<le> int (length dst)"
proof -
  have "(s + int m * so, d + int m * dof) \<in> set (spaced s so d dof [0..<n])" using assms(2) by (auto simp: spaced_def)
  with assms(1) have "case (s + int m * so, d + int m * dof) of (s, d) \<Rightarrow>
      0 \<le> s \<and> s + int w \<le> int (length src) \<and> 0 \<le> d \<and> d + int v \<le> int (length dst)"
    unfolding copyable_def by blast
  then show "0 \<le> s + int m * so" "s + int m * so + int w \<le> int (length src)"
    "0 \<le> d + int m * dof" "d + int m * dof + int v \<le> int (length dst)" by simp_all
qed

text \<open>\<^verbatim>\<open>memcpy\<close> or \<open>GDALCopyWords\<close>, whichever is chosen.\<close>

lemma line_copies:
  assumes "via_fits via" and "copyable (word_size_of e) (word_size_of e') src (spaced s so d dof [0..<n]) dst"
    and "\<forall>m < n. \<bar>int m * so\<bar> < 2 ^ 31 \<and> \<bar>int m * dof\<bar> < 2 ^ 31" and "e = e' \<or> so \<noteq> 0 \<or> n \<le> 1"
    and "0 < n" and "int (n * word_size_of e) < 2 ^ 31"
    and "plain \<Longrightarrow> e = e' \<and> nBytes = int (n * word_size_of e) \<and>
      (n = 1 \<or> so = int (word_size_of e) \<and> dof = int (word_size_of e))"
  shows "\<exists>dst'. (if plain then mem_copy dst d src s nBytes else GDALCopyWords via src s e so dst d e' dof (int n)) = Some dst' \<and>
    copied (pixel_map via e e') (word_size_of e) (word_size_of e') src (spaced s so d dof [0..<n]) dst dst'"
proof (cases plain)
  case False
  then show ?thesis using GDALCopyWords_copies [OF assms(1-6)] by simp
next
  case True
  let ?w = "word_size_of e"
  have p: "e' = e" "nBytes = int (n * ?w)" "n = 1 \<or> so = int ?w \<and> dof = int ?w" using assms(7) [OF True] by auto
  have sp: "spaced s so d dof [0..<n] = spaced s (int ?w) d (int ?w) [0..<n]"
    using p(3) by (auto simp: spaced_def)
  have c: "copyable ?w ?w src (spaced s (int ?w) d (int ?w) [0..<n]) dst" using assms(2) by (simp add: sp p(1))
  have ends: "int (n - 1) * int ?w + int ?w = int (n * ?w)"
    using assms(5) by (cases n) (simp_all add: algebra_simps)
  have "n - 1 < n" using assms(5) by simp
  then have "mem_copy dst d src s (int (n * ?w)) = copy_list (\<lambda>bs. bs) ?w src (spaced s (int ?w) d (int ?w) [0..<n]) dst"
    using copyable_spaced [OF c, of 0] copyable_spaced [OF c, of "n - 1"] assms(5) ends by (intro mem_copy_list) auto
  moreover have "pixel_map via e e' = (\<lambda>bs. bs)" by (simp add: pixel_map_def p(1))
  ultimately show ?thesis using copy_list_ok [OF c, of "\<lambda>bs. bs"] True p(1,2) by (auto simp: sp)
qed

text \<open>The places of a run of pixels in a block follow each other.\<close>

lemma place_run:
  assumes "0 < gBX g" and "(X + int m) div gBX g = X div gBX g"
  shows "place g w (X + int m) Y = place g w X Y + int m * int w"
proof -
  have "(X + int m) div gBX g * gBX g + (X + int m) mod gBX g = X + int m" by (rule div_mult_mod_eq)
  then have "(X + int m) mod gBX g = X mod gBX g + int m"
    unfolding assms(2) using div_mult_mod_eq [of X "gBX g"] by linarith
  then show ?thesis by (simp add: place_def algebra_simps)
qed

lemma run_in_block:
  assumes "0 < b" and "X div b = x" and "(X + n - 1) div b = x" and "0 \<le> m" and "m < n"
  shows "(X + m) div b = (x :: int)"
proof -
  have "X div b \<le> (X + m) div b" "(X + m) div b \<le> (X + n - 1) div b" using assms by (intro zdiv_mono1; simp)+
  then show ?thesis using assms by simp
qed

section \<open>The window and the buffer\<close>

definition buf_at :: "request \<Rightarrow> int \<Rightarrow> int \<Rightarrow> int \<Rightarrow> int" where
  "buf_at rq p i j = p + j * nLineSpace rq + i * nPixelSpace rq"

definition box :: "request \<Rightarrow> (int \<times> int) set" where
  "box rq = {(i, j). 0 \<le> i \<and> i < nBufXSize rq \<and> 0 \<le> j \<and> j < nBufYSize rq}"

definition window :: "request \<Rightarrow> (int \<times> int) set" where
  "window rq = {(X, Y). nWinXOff rq \<le> X \<and> X < nWinXOff rq + nWinXSize rq \<and> nWinYOff rq \<le> Y \<and> Y < nWinYOff rq + nWinYSize rq}"

text \<open>The words of the buffer lie inside it and do not meet; distances do not overflow.\<close>

definition buffer_ok :: "request \<Rightarrow> int \<Rightarrow> nat \<Rightarrow> bool" where
  "buffer_ok rq p len =
     ((\<forall>(i, j) \<in> box rq. 0 \<le> buf_at rq p i j \<and> buf_at rq p i j + int (buf_word rq) \<le> int len) \<and>
      (\<forall>(i, j) \<in> box rq. \<forall>(i', j') \<in> box rq. (i, j) \<noteq> (i', j') \<longrightarrow>
         clear_of (buf_word rq) (buf_at rq p i j) (buf_word rq) (buf_at rq p i' j')) \<and>
      nBufXSize rq * \<bar>nPixelSpace rq\<bar> < 2 ^ 31 \<and> nBufYSize rq * \<bar>nLineSpace rq\<bar> < 2 ^ 31)"

definition window_ok :: "request \<Rightarrow> grid \<Rightarrow> bool" where
  "window_ok rq g =
     (0 \<le> nWinXOff rq \<and> nWinXOff rq + nWinXSize rq \<le> gNX g * gBX g \<and>
      0 \<le> nWinYOff rq \<and> nWinYOff rq + nWinYSize rq \<le> gNY g * gBY g \<and>
      gNX g * gBX g < 2 ^ 31 \<and> gNY g * gBY g < 2 ^ 31)"

definition same_size :: "request \<Rightarrow> bool" where
  "same_size rq = (nWinXSize rq = nBufXSize rq \<and> nWinYSize rq = nBufYSize rq)"

text \<open>The move for a place of the buffer when nothing is resampled.\<close>

definition cell :: "request \<Rightarrow> int \<Rightarrow> int \<times> int \<Rightarrow> move" where
  "cell rq p = (\<lambda>(i, j). (nWinXOff rq + i, nWinYOff rq + j, buf_at rq p i j))"

lemma div_less_count:
  assumes "0 < b" and "X < n * b"
  shows "X div b < (n :: int)"
proof -
  have "X div b * b \<le> X" using div_mult_mod_eq [of X b] pos_mod_sign [OF assms(1), of X] by linarith
  then have "X div b * b < n * b" using assms(2) by linarith
  then show ?thesis using mult_less_cancel_right_pos [OF assms(1)] by blast
qed

lemma window_position:
  assumes "window_ok rq g" and "0 < gBX g" and "0 < gBY g" and "(X, Y) \<in> window rq"
  shows "position (gNX g) (gNY g) (X div gBX g) (Y div gBY g)"
proof -
  have h: "0 \<le> X" "X < gNX g * gBX g" "0 \<le> Y" "Y < gNY g * gBY g"
    using assms(1,4) by (auto simp: window_ok_def window_def)
  then show ?thesis using div_less_count [OF assms(2)] div_less_count [OF assms(3)] assms(2,3) by (simp add: position_def pos_imp_zdiv_nonneg_iff)
qed

lemma buffer_step:
  assumes "buffer_ok rq p len" and "(i, j) \<in> box rq" and "(i + 1, j) \<in> box rq"
  shows "int (buf_word rq) \<le> \<bar>nPixelSpace rq\<bar>"
proof -
  have "clear_of (buf_word rq) (buf_at rq p i j) (buf_word rq) (buf_at rq p (i + 1) j)"
    using assms unfolding buffer_ok_def by fastforce
  then show ?thesis by (auto simp: clear_of_def buf_at_def algebra_simps)
qed

section \<open>One line of a block\<close>

lemma spaced_clear:
  assumes "\<And>m m'. m < m' \<Longrightarrow> m' < n \<Longrightarrow> clear_of v (d + int m * dof) v (d + int m' * dof)"
  shows "sorted_wrt (\<lambda>p q. clear_of v (snd p) v (snd q)) (spaced s so d dof [0..<n])"
  using assms by (simp add: spaced_def sorted_wrt_iff_nth_less)

context pixel_store
begin

lemma line_ok:
  assumes "io_ready drv env k rq g" and "window_ok rq g" and "buffer_ok rq p (length buf)" and "same_size rq"
    and "so_far S env k rq g (window rq) s0 buf0 (cell rq p ` I) s buf"
    and "at_hand k x y (eRWFlag rq = GF_Write) a s" and "position (gNX g) (gNY g) x y"
    and "0 < n" and "0 \<le> i" and "i + int n \<le> nBufXSize rq" and "0 \<le> j" and "j < nBufYSize rq"
    and "(nWinXOff rq + i) div gBX g = x" and "(nWinXOff rq + i + int n - 1) div gBX g = x" and "(nWinYOff rq + j) div gBY g = y"
    and "I \<subseteq> box rq" and "\<And>m. m < n \<Longrightarrow> (i + int m, j) \<notin> I"
    and "plain \<Longrightarrow> eDataType env k = eBufType rq \<and> nBytes = int (n * buf_word rq) \<and>
      (n = 1 \<or> nPixelSpace rq = int (buf_word rq))"
  shows "\<exists>s' buf'. copy_line env k rq plain (int n) nBytes a
      (place g (band_word env k) (nWinXOff rq + i) (nWinYOff rq + j)) (buf_at rq p i j) s buf = Some (s', buf') \<and>
    so_far S env k rq g (window rq) s0 buf0 (cell rq p ` (I \<union> (\<lambda>m. (i + int m, j)) ` {..<n})) s' buf' \<and>
    length buf' = length buf \<and> at_hand k x y (eRWFlag rq = GF_Write) a s'"
proof -
  let ?w = "band_word env k" and ?u = "buf_word rq" and ?X = "nWinXOff rq + i" and ?Y = "nWinYOff rq + j"
  let ?P = "place g ?w ?X ?Y" and ?q = "buf_at rq p i j" and ?ps = "nPixelSpace rq"
  define ts where "ts = map (\<lambda>m. cell rq p (i + int m, j)) [0..<n]"
  have r: "via_fits (via_double env)" "0 < gBX g" "0 < gBY g" "0 < ?w" "0 < ?u" "int (block_bytes g ?w) < 2 ^ 31"
    using assms(1) word_size_of_pos by (auto simp: io_ready_def block_bytes_def)
  have bx: "(i + int m, j) \<in> box rq" if "m < n" for m using assms(9-12) that by (auto simp: box_def)
  have win: "(?X + int m, ?Y) \<in> window rq" if "m < n" for m
    using bx [OF that] assms(4) by (auto simp: box_def window_def same_size_def)
  have q: "buf_at rq p (i + int m) j = ?q + int m * ?ps" for m by (simp add: buf_at_def algebra_simps)
  have col: "(?X + int m) div gBX g = x" if "m < n" for m
    using run_in_block [OF r(2) assms(13,14), of "int m"] that by simp
  have pl: "place g ?w (?X + int m) ?Y = ?P + int m * int ?w" if "m < n" for m
    using place_run [OF r(2)] col [OF that] assms(13) by simp
  have tsm: "cell rq p (i + int m, j) = (?X + int m, ?Y, ?q + int m * ?ps)" for m
    by (simp add: cell_def q add.assoc)
  have pairs: "reading_pairs g ?w ts = spaced ?P (int ?w) ?q ?ps [0..<n]"
    "writing_pairs g ?w ts = spaced ?q ?ps ?P (int ?w) [0..<n]"
    using pl by (simp_all add: reading_pairs_def writing_pairs_def spaced_def ts_def tsm)
  have set: "set ts = cell rq p ` (\<lambda>m. (i + int m, j)) ` {..<n}" by (auto simp: ts_def)
  have inb: "0 \<le> ?q + int m * ?ps \<and> ?q + int m * ?ps + int ?u \<le> int (length buf)" if "m < n" for m
    using assms(3) bx [OF that] q [of m] by (fastforce simp: buffer_ok_def)
  have qc: "clear_of ?u (?q + int m * ?ps) ?u (?q + int m' * ?ps)" if "m < n" "m' < n" "m \<noteq> m'" for m m'
    using assms(3) bx [OF that(1)] bx [OF that(2)] that(3) q [of m] q [of m'] by (fastforce simp: buffer_ok_def)
  have pc: "clear_of ?w (?P + int m * int ?w) ?w (?P + int m' * int ?w)" if "m < m'" for m m' :: nat
  proof -
    have "(int m + 1) * int ?w \<le> int m' * int ?w" using that by (intro mult_right_mono) auto
    then show ?thesis by (simp add: clear_of_def algebra_simps)
  qed
  have pr: "0 \<le> ?P + int m * int ?w \<and> ?P + int m * int ?w + int ?w \<le> int (block_bytes g ?w)" if "m < n" for m
    using place_range [OF r(2,3), of ?w "?X + int m" ?Y] pl [OF that] by simp
  have rc: "copyable ?w ?u d (spaced ?P (int ?w) ?q ?ps [0..<n]) buf" if "length d = block_bytes g ?w" for d
    using pr inb that spaced_clear [of n ?u ?q ?ps] qc unfolding copyable_def by (auto simp: spaced_def)
  have wc: "copyable ?u ?w buf (spaced ?q ?ps ?P (int ?w) [0..<n]) d" if "length d = block_bytes g ?w" for d
    using pr inb that spaced_clear [of n ?w ?P "int ?w"] pc unfolding copyable_def by (auto simp: spaced_def)
  have b1: "\<bar>int m * int ?w\<bar> < 2 ^ 31" if "m < n" for m
    using pr [OF that] place_range(1) [OF r(2,3), of ?w ?X ?Y] r(6) by simp
  have b2: "\<bar>int m * ?ps\<bar> < 2 ^ 31" if "m < n" for m
  proof -
    have "\<bar>int m * ?ps\<bar> \<le> nBufXSize rq * \<bar>?ps\<bar>" using assms(9,10) that by (auto simp: abs_mult intro!: mult_right_mono)
    then show ?thesis using assms(3) by (simp add: buffer_ok_def)
  qed
  have step: "?u \<le> nat \<bar>?ps\<bar>" if "1 < n"
    using buffer_step [OF assms(3), of i j] bx [of 0] bx [of 1] that by simp
  have last: "int (n * ?w) < 2 ^ 31"
  proof -
    have "int (n - 1) * int ?w + int ?w = int (n * ?w)" using assms(8) by (cases n) (simp_all add: algebra_simps)
    then show ?thesis using pr [of "n - 1"] place_range(1) [OF r(2,3), of ?w ?X ?Y] r(6) assms(8) by simp
  qed
  have lastu: "int (n * ?u) < 2 ^ 31"
  proof (cases "n = 1")
    case True
    then show ?thesis by (cases "eBufType rq") (simp_all add: word_size_of_def)
  next
    case False
    then have "int n * int ?u \<le> int n * \<bar>?ps\<bar>" using step assms(8) by (intro mult_left_mono) auto
    also have "\<dots> \<le> nBufXSize rq * \<bar>?ps\<bar>" using assms(9,10) by (intro mult_right_mono) auto
    finally show ?thesis using assms(3) by (simp add: buffer_ok_def)
  qed
  have one: "?ps \<noteq> 0 \<or> n \<le> 1" using step r(5) by (cases "1 < n") auto
  have uw: "?w = ?u" if "eDataType env k = eBufType rq" using that by simp
  show ?thesis
    unfolding image_Un set [symmetric] copy_line_def nBandDataSize_word
  proof (rule copy_block_ok [OF assms(1,5,6,7)])
    show "moves_from buf rq g x y ts"
      using inb col assms(15) by (auto simp: moves_from_def ts_def tsm)
    show "fresh_moves rq (window rq) (cell rq p ` I) ts"
    proof (cases "eRWFlag rq = GF_Read")
      case True
      have "clear_of ?u (buf_at rq p i' j') ?u (buf_at rq p (i + int m) j)" if "(i', j') \<in> I" "m < n" for i' j' m
      proof -
        have "(i', j') \<in> box rq" "(i', j') \<noteq> (i + int m, j)" using assms(16,17) that by auto
        then show ?thesis using assms(3) bx [OF that(2)] by (fastforce simp: buffer_ok_def)
      qed
      then show ?thesis using True by (auto simp: fresh_moves_def ts_def cell_def)
    next
      case False
      then show ?thesis using win assms(17) by (auto simp: fresh_moves_def ts_def tsm cell_def add.assoc)
    qed
  next
    fix d :: octets assume "length d = block_bytes g ?w"
    from line_copies [OF r(1) rc [OF this], of plain nBytes] assms(8,18) b1 b2 last r(4) uw
    show "\<exists>buf'. (if plain then mem_copy buf ?q d ?P nBytes
        else GDALCopyWords (via_double env) d ?P (eDataType env k) (int ?w) buf ?q (eBufType rq) ?ps (int n)) = Some buf' \<and>
      copied (pixel_map (via_double env) (eDataType env k) (eBufType rq)) ?w ?u d (reading_pairs g ?w ts) buf buf'"
      unfolding pairs by auto
  next
    fix d :: octets assume "length d = block_bytes g ?w"
    from line_copies [OF r(1) wc [OF this], of plain nBytes] assms(8,18) b1 b2 lastu one uw
    show "\<exists>d'. (if plain then mem_copy d ?P buf ?q nBytes
        else GDALCopyWords (via_double env) buf ?q (eBufType rq) ?ps d ?P (eDataType env k) (int ?w) (int n)) = Some d' \<and>
      copied (pixel_map (via_double env) (eBufType rq) (eDataType env k)) ?u ?w buf (writing_pairs g ?w ts) d d'"
      unfolding pairs by auto
  qed
qed

end

end
