(* ===== verification/Raster_Io_Cases.thy ===== *)
theory Raster_Io_Cases
  imports Raster_Io_Loops
begin

text \<open>
  \<open>IRasterIO\<close> without resampling: the loop over packed lines of wide blocks, and the loop over the blocks of the
  window.
\<close>

section \<open>Progress over rectangles\<close>

definition rect :: "int \<Rightarrow> int \<Rightarrow> int \<Rightarrow> int \<Rightarrow> (int \<times> int) set" where
  "rect i n j m = {(a, b). i \<le> a \<and> a < i + n \<and> j \<le> b \<and> b < j + m}"

lemma rect_line: "(\<lambda>m. (i + int m, j)) ` {..<n} = rect i (int n) j 1"
proof
  show "rect i (int n) j 1 \<subseteq> (\<lambda>m. (i + int m, j)) ` {..<n}"
  proof
    fix c assume "c \<in> rect i (int n) j 1"
    then obtain a where "c = (a, j)" "i \<le> a" "a < i + int n" by (auto simp: rect_def)
    then show "c \<in> (\<lambda>m. (i + int m, j)) ` {..<n}" by (intro image_eqI [of _ _ "nat (a - i)"]) auto
  qed
qed (auto simp: rect_def)

lemma rect_empty [simp]: "n \<le> 0 \<or> m \<le> 0 \<Longrightarrow> rect i n j m = {}"
  by (auto simp: rect_def)

text \<open>How a loop may end: with all moves in \<open>I\<close> made, or for want of memory.\<close>

definition outcome ::
    "(octets, 'w) driver \<Rightarrow> (octets, 'w) store \<Rightarrow> 'w raster_env \<Rightarrow> nat \<Rightarrow> request \<Rightarrow> grid \<Rightarrow> (octets, 'w) gdal \<Rightarrow> octets
     \<Rightarrow> int \<Rightarrow> (int \<times> int) set \<Rightarrow> 'w io_result \<Rightarrow> bool" where
  "outcome drv S env k rq g s0 buf0 p I r =
     (\<exists>e s' buf'. r = Some (e, s', buf') \<and>
        (if e = CE_None then so_far S env k rq g (window rq) s0 buf0 (cell rq p ` I) s' buf'
         else e = CE_Failure \<and> (\<exists>w. VSIMalloc drv w (int (block_bytes g (band_word env k))) = None) \<and>
           (\<exists>J \<subseteq> box rq. so_far S env k rq g (window rq) s0 buf0 (cell rq p ` J) s' buf')))"

definition io_call ::
    "(octets, 'w) driver \<Rightarrow> 'w raster_env \<Rightarrow> nat \<Rightarrow> request \<Rightarrow> grid \<Rightarrow> int \<Rightarrow> octets \<Rightarrow> bool" where
  "io_call drv env k rq g p buf =
     (io_ready drv env k rq g \<and> window_ok rq g \<and> buffer_ok rq p (length buf) \<and> same_size rq)"

lemma so_far_length: "so_far S env k rq g W s0 buf0 D s buf \<Longrightarrow> length buf = length buf0"
  by (auto simp: so_far_def read_so_far_def written_so_far_def split: if_splits)

lemma block_pixel:
  assumes "0 < b" and "X div b = x"
  shows "x * b \<le> X" and "X < (x + 1) * (b :: int)"
  using div_mult_mod_eq [of X b] pos_mod_sign [OF assms(1), of X] pos_mod_bound [OF assms(1), of X] assms(2)
  by (simp_all add: algebra_simps)

lemma div_in_block:
  assumes "x * b \<le> X" and "X < (x + 1) * (b :: int)"
  shows "X div b = x"
  by (rule int_div_pos_eq [of _ _ _ "X - x * b"]) (use assms in \<open>auto simp: algebra_simps\<close>)

text \<open>The edges of blocks do not overflow.\<close>

lemma edge_id:
  assumes "0 < b" and "b < 2 ^ 31" and "N * b < 2 ^ 31" and "-1 \<le> x" and "x \<le> N"
  shows "edge x b = x * b"
proof -
  have "x * b \<le> N * b" "- 1 * b \<le> x * b" using assms by (intro mult_right_mono; simp)+
  then have "- (2 ^ 31) \<le> x * b" "x * b < 2 ^ 31" using assms(2,3) by linarith+
  then show ?thesis by (simp add: edge_def to_i32_id)
qed

lemma io_grid:
  assumes "io_ready drv env k rq g"
  shows "0 < gBX g" and "0 < gBY g" and "gBX g < 2 ^ 31" and "gBY g < 2 ^ 31"
proof -
  let ?w = "int (band_word env k)"
  have p: "0 < gBX g" "0 < gBY g" "0 < ?w" "gBX g * gBY g * ?w < 2 ^ 31"
    using assms word_size_of_pos by (simp_all add: io_ready_def)
  have "gBX g * 1 \<le> gBX g * gBY g" "1 * gBY g \<le> gBX g * gBY g" "gBX g * gBY g * 1 \<le> gBX g * gBY g * ?w"
    using p by (intro mult_left_mono mult_right_mono; simp)+
  then show "0 < gBX g" "0 < gBY g" "gBX g < 2 ^ 31" "gBY g < 2 ^ 31" using p by linarith+
qed

text \<open>A block that is only initialised lies in the window.\<close>

lemma covered_in_window:
  assumes "io_ready drv env k rq g" and "window_ok rq g" and "position (gNX g) (gNY g) x y"
    and "covers_block rq (gBX g) (gBY g) x y" and "X div gBX g = x" and "Y div gBY g = y"
    and "0 \<le> nWinXSize rq" and "0 \<le> nWinYSize rq"
  shows "(X, Y) \<in> window rq"
proof -
  note b = io_grid [OF assms(1)]
  have "edge x (gBX g) = x * gBX g" "edge (x + 1) (gBX g) = (x + 1) * gBX g"
    using assms(2,3) b(1,3) by (auto intro!: edge_id [of _ "gNX g"] simp: window_ok_def position_def)
  moreover have "edge y (gBY g) = y * gBY g" "edge (y + 1) (gBY g) = (y + 1) * gBY g"
    using assms(2,3) b(2,4) by (auto intro!: edge_id [of _ "gNY g"] simp: window_ok_def position_def)
  moreover have "to_i32 (nWinXOff rq + nWinXSize rq) = nWinXOff rq + nWinXSize rq"
    "to_i32 (nWinYOff rq + nWinYSize rq) = nWinYOff rq + nWinYSize rq"
    using assms(2,7,8) by (auto intro!: to_i32_id simp: window_ok_def)
  ultimately show ?thesis
    using assms(4) block_pixel [OF b(1) assms(5)] block_pixel [OF b(2) assms(6)]
    by (simp add: covers_block_def covers_lines_def window_def)
qed

section \<open>The lines of one block\<close>

lemma place_below:
  assumes "0 < gBY g" and "(Y + 1) div gBY g = Y div gBY g"
  shows "place g w X (Y + 1) = place g w X Y + gBX g * int w"
proof -
  have "(Y + 1) div gBY g * gBY g + (Y + 1) mod gBY g = Y + 1" by (rule div_mult_mod_eq)
  then have "(Y + 1) mod gBY g = Y mod gBY g + 1"
    unfolding assms(2) using div_mult_mod_eq [of Y "gBY g"] by linarith
  then show ?thesis by (simp add: place_def algebra_simps)
qed

context pixel_store
begin

lemma block_lines_ok:
  assumes "io_call drv env k rq g p buf0" and "position (gNX g) (gNY g) x y" and "0 < n" and "0 \<le> i"
    and "i + int n \<le> nBufXSize rq" and "(nWinXOff rq + i) div gBX g = x" and "(nWinXOff rq + i + int n - 1) div gBX g = x"
    and "eDataType env k = eBufType rq \<Longrightarrow> nPixelSpace rq = int (buf_word rq) \<Longrightarrow> nBytes = int (n * buf_word rq)"
  shows "so_far S env k rq g (window rq) s0 buf0 (cell rq p ` I) s buf \<Longrightarrow>
    at_hand k x y (eRWFlag rq = GF_Write) a s \<Longrightarrow> I \<subseteq> box rq \<Longrightarrow> rect i (int n) (j + int l) (int m) \<inter> I = {} \<Longrightarrow>
    0 \<le> j \<Longrightarrow> j + int l + int m \<le> nBufYSize rq \<Longrightarrow>
    (\<And>l'. l \<le> l' \<Longrightarrow> l' < l + m \<Longrightarrow> (nWinYOff rq + j + int l') div gBY g = y) \<Longrightarrow>
    0 < m \<Longrightarrow> off = place g (band_word env k) (nWinXOff rq + i) (nWinYOff rq + j + int l) \<Longrightarrow>
    \<exists>s' buf'. block_lines env k rq (gBX g) a (int n) nBytes off (buf_at rq p i j) (int l) m s buf = Some (s', buf') \<and>
      so_far S env k rq g (window rq) s0 buf0 (cell rq p ` (I \<union> rect i (int n) (j + int l) (int m))) s' buf' \<and>
      at_hand k x y (eRWFlag rq = GF_Write) a s'"
proof (induction m arbitrary: l I s buf off)
  case 0
  then show ?case by simp
next
  case (Suc m)
  let ?w = "band_word env k" and ?X = "nWinXOff rq + i" and ?Y = "nWinYOff rq + (j + int l)"
  have c: "io_ready drv env k rq g" "window_ok rq g" "buffer_ok rq p (length buf)" "same_size rq"
    using assms(1) so_far_length [OF Suc.prems(1)] by (simp_all add: io_call_def)
  have fresh: "(i + int m', j + int l) \<notin> I" if "m' < n" for m'
  proof -
    have "(i + int m', j + int l) \<in> rect i (int n) (j + int l) (int (Suc m))" using that by (auto simp: rect_def)
    then show ?thesis using Suc.prems(4) by blast
  qed
  have row: "?Y div gBY g = y" using Suc.prems(7) [of l] by (simp add: add.assoc)
  have last: "j + int l < nBufYSize rq" "0 \<le> j + int l" using Suc.prems(5,6) by simp_all
  have "\<bar>int l * nLineSpace rq\<bar> \<le> nBufYSize rq * \<bar>nLineSpace rq\<bar>"
    using Suc.prems(5,6) by (auto simp: abs_mult intro!: mult_right_mono)
  then have "to_i32 (int l * nLineSpace rq) = int l * nLineSpace rq"
    using c(3) by (intro to_i32_id) (auto simp: buffer_ok_def)
  then have dst: "buf_at rq p i j + to_i32 (int l * nLineSpace rq) = buf_at rq p i (j + int l)"
    by (simp add: buf_at_def algebra_simps)
  let ?plain = "eDataType env k = eBufType rq \<and> nPixelSpace rq = nBufDataSize rq"
  have plain: "?plain \<Longrightarrow> eDataType env k = eBufType rq \<and> nBytes = int (n * buf_word rq) \<and>
      (n = 1 \<or> nPixelSpace rq = int (buf_word rq))"
    using assms(8) by (auto simp: nBufDataSize_word)
  from line_ok [OF c Suc.prems(1,2) assms(2-5) last(2,1) assms(6,7) row Suc.prems(3) fresh plain]
  obtain s1 buf1 where l: "copy_line env k rq ?plain (int n) nBytes a (place g ?w ?X ?Y) (buf_at rq p i (j + int l)) s buf =
      Some (s1, buf1)"
    "so_far S env k rq g (window rq) s0 buf0 (cell rq p ` (I \<union> rect i (int n) (j + int l) 1)) s1 buf1"
    "at_hand k x y (eRWFlag rq = GF_Write) a s1"
    unfolding rect_line by blast
  have off: "off = place g ?w ?X ?Y" using Suc.prems(9) by (simp add: add.assoc)
  show ?case
  proof (cases "m = 0")
    case True
    then show ?thesis using l by (simp add: dst off)
  next
    case False
    let ?I = "I \<union> rect i (int n) (j + int l) 1"
    have I: "?I \<subseteq> box rq" using Suc.prems(3) last assms(4,5) by (auto simp: rect_def box_def)
    have "rect i (int n) (j + int (Suc l)) (int m) \<subseteq> rect i (int n) (j + int l) (int (Suc m))"
      "rect i (int n) (j + int (Suc l)) (int m) \<inter> rect i (int n) (j + int l) 1 = {}"
      by (auto simp: rect_def)
    then have d: "rect i (int n) (j + int (Suc l)) (int m) \<inter> ?I = {}" using Suc.prems(4) by blast
    have rows: "(nWinYOff rq + j + int l') div gBY g = y" if "Suc l \<le> l'" "l' < Suc l + m" for l'
      using Suc.prems(7) [of l'] that by simp
    have "(?Y + 1) div gBY g = ?Y div gBY g" using rows [of "Suc l"] row False by (simp add: algebra_simps)
    then have off': "off + gBX g * nBandDataSize env k = place g ?w ?X (nWinYOff rq + j + int (Suc l))"
      using place_below [of g ?Y ?w ?X] io_grid [OF c(1)] by (simp add: off nBandDataSize_word algebra_simps)
    obtain s' buf' where r: "block_lines env k rq (gBX g) a (int n) nBytes (off + gBX g * nBandDataSize env k)
        (buf_at rq p i j) (int (Suc l)) m s1 buf1 = Some (s', buf')"
      "so_far S env k rq g (window rq) s0 buf0 (cell rq p ` (?I \<union> rect i (int n) (j + int (Suc l)) (int m))) s' buf'"
      "at_hand k x y (eRWFlag rq = GF_Write) a s'"
      using Suc.IH [OF l(2,3) I d Suc.prems(5) _ rows _ off'] Suc.prems(6) False by auto
    have "?I \<union> rect i (int n) (j + int (Suc l)) (int m) = I \<union> rect i (int n) (j + int l) (int (Suc m))"
      by (auto simp: rect_def)
    then show ?thesis using l(1) r by (simp add: dst off add.commute [of 1])
  qed
qed

end

section \<open>A row of blocks\<close>

text \<open>The moves before column \<open>i\<close> of the lines \<open>j\<close> to \<open>j + m\<close>, and all moves of the lines above.\<close>

definition moved_above :: "request \<Rightarrow> int \<Rightarrow> int \<Rightarrow> int \<Rightarrow> (int \<times> int) set" where
  "moved_above rq i j m = rect 0 (nBufXSize rq) 0 j \<union> rect 0 i j m"

lemma above_step:
  assumes "0 \<le> i" and "0 \<le> n"
  shows "moved_above rq i j m \<union> rect i n j m = moved_above rq (i + n) j m"
  using assms by (auto simp: moved_above_def rect_def)

lemma above_row:
  assumes "0 \<le> j" and "0 \<le> m"
  shows "moved_above rq (nBufXSize rq) j m = moved_above rq 0 (j + m) m'"
  using assms by (auto simp: moved_above_def rect_def)

lemma above_in_box:
  assumes "i \<le> nBufXSize rq" and "0 \<le> j" and "j + m \<le> nBufYSize rq" and "0 \<le> m"
  shows "moved_above rq i j m \<subseteq> box rq"
  using assms by (auto simp: moved_above_def rect_def box_def)

lemma above_cell:
  assumes "(X, Y, q) \<in> cell rq p ` moved_above rq i j m" and "0 \<le> j"
  shows "Y < nWinYOff rq + j \<or> X < nWinXOff rq + i"
  using assms by (auto simp: moved_above_def rect_def cell_def)

context pixel_store
begin

text \<open>The block at the next place of the window.\<close>

lemma window_lock:
  assumes "io_call drv env k rq g p buf0" and "so_far S env k rq g (window rq) s0 buf0 (cell rq p ` moved_above rq i j m) s buf"
    and "(i, j) \<in> box rq" and "x = (nWinXOff rq + i) div gBX g" and "y = (nWinYOff rq + j) div gBY g"
    and "i = 0 \<or> (nWinXOff rq + i) mod gBX g = 0" and "j = 0 \<or> (nWinYOff rq + j) mod gBY g = 0"
    and "ini \<Longrightarrow> eRWFlag rq = GF_Write \<and> covers_block rq (gBX g) (gBY g) x y"
  shows "position (gNX g) (gNY g) x y" and
    "\<exists>q s'. lock_block env k rq x y ini s = Some (q, s') \<and>
      so_far S env k rq g (window rq) s0 buf0 (cell rq p ` moved_above rq i j m) s' buf \<and>
      (case q of
         None \<Rightarrow> \<exists>w. VSIMalloc drv w (int (block_bytes g (band_word env k))) = None
       | Some a \<Rightarrow> at_hand k x y (eRWFlag rq = GF_Write) a s')"
proof -
  let ?X = "nWinXOff rq + i" and ?Y = "nWinYOff rq + j"
  have c: "io_ready drv env k rq g" "window_ok rq g" "same_size rq" using assms(1) by (simp_all add: io_call_def)
  note b = io_grid [OF c(1)]
  have sz: "0 < nWinXSize rq" "0 < nWinYSize rq" "(?X, ?Y) \<in> window rq" "0 \<le> i" "0 \<le> j"
    using assms(3) c(3) by (auto simp: box_def same_size_def window_def)
  show pos: "position (gNX g) (gNY g) x y"
    using window_position [OF c(2) b(1,2) sz(3)] assms(4,5) by simp
  have "(X, Y) \<in> window rq \<and> (\<forall>q. (X, Y, q) \<notin> cell rq p ` moved_above rq i j m)"
    if h: "ini" "X div gBX g = x" "Y div gBY g = y" for X Y
  proof (intro conjI allI notI)
    have cov: "covers_block rq (gBX g) (gBY g) x y" using assms(8) h(1) by simp
    show win: "(X, Y) \<in> window rq"
      using covered_in_window [OF c(1,2) pos cov h(2,3)] sz by simp
    have "?X \<le> X"
    proof (cases "i = 0")
      case False
      then show ?thesis
        using assms(4,6) block_pixel(1) [OF b(1) h(2)] div_mult_mod_eq [of ?X "gBX g"] by simp
    qed (use win in \<open>simp add: window_def\<close>)
    moreover have "?Y \<le> Y"
    proof (cases "j = 0")
      case False
      then show ?thesis
        using assms(5,7) block_pixel(1) [OF b(2) h(3)] div_mult_mod_eq [of ?Y "gBY g"] by simp
    qed (use win in \<open>simp add: window_def\<close>)
    moreover fix q assume "(X, Y, q) \<in> cell rq p ` moved_above rq i j m"
    ultimately show False using above_cell [OF _ sz(5)] by fastforce
  qed
  moreover have "eRWFlag rq = GF_Write" if ini using assms(8) that by simp
  ultimately have "\<exists>q s'. lock_block env k rq x y ini s = Some (q, s') \<and>
      so_far S env k rq g (window rq) s0 buf0 (cell rq p ` moved_above rq i j m) s' buf \<and>
      (case q of
         None \<Rightarrow> VSIMalloc drv (world s) (int (block_bytes g (band_word env k))) = None
       | Some a \<Rightarrow> at_hand k x y (eRWFlag rq = GF_Write) a s')"
    by (intro lock_ok [OF c(1) assms(2) pos]) auto
  then obtain q s' where l: "lock_block env k rq x y ini s = Some (q, s')"
    "so_far S env k rq g (window rq) s0 buf0 (cell rq p ` moved_above rq i j m) s' buf"
    "case q of
       None \<Rightarrow> VSIMalloc drv (world s) (int (block_bytes g (band_word env k))) = None
     | Some a \<Rightarrow> at_hand k x y (eRWFlag rq = GF_Write) a s'"
    by blast
  then show "\<exists>q s'. lock_block env k rq x y ini s = Some (q, s') \<and>
      so_far S env k rq g (window rq) s0 buf0 (cell rq p ` moved_above rq i j m) s' buf \<and>
      (case q of
         None \<Rightarrow> \<exists>w. VSIMalloc drv w (int (block_bytes g (band_word env k))) = None
       | Some a \<Rightarrow> at_hand k x y (eRWFlag rq = GF_Write) a s')"
    by (intro exI [of _ q] exI [of _ s']) (cases q; auto)
qed

lemma block_columns_ok:
  assumes "io_call drv env k rq g p buf0" and "0 \<le> j" and "j < nBufYSize rq" and "y = (nWinYOff rq + j) div gBY g"
    and "j = 0 \<or> (nWinYOff rq + j) mod gBY g = 0"
    and "m = min (gBY g - (nWinYOff rq + j) mod gBY g) (nBufYSize rq - j)"
  shows "so_far S env k rq g (window rq) s0 buf0 (cell rq p ` moved_above rq i j m) s buf \<Longrightarrow>
    0 \<le> i \<Longrightarrow> i \<le> nBufXSize rq \<Longrightarrow>
    (i < nBufXSize rq \<Longrightarrow> x = (nWinXOff rq + i) div gBX g \<and> (i = 0 \<or> (nWinXOff rq + i) mod gBX g = 0) \<and> q = buf_at rq p i j) \<Longrightarrow>
    outcome drv S env k rq g s0 buf0 p (moved_above rq (nBufXSize rq) j m)
      (block_columns env k rq (gBX g) (gBY g) j (nWinYOff rq + j) y x (nWinXOff rq + i) q s buf)"
proof (induction "nat (nBufXSize rq - i)" arbitrary: i x q s buf rule: less_induct)
  case less
  let ?w = "band_word env k" and ?X = "nWinXOff rq + i" and ?Y = "nWinYOff rq + j"
  have c: "io_ready drv env k rq g" "window_ok rq g" "buffer_ok rq p (length buf0)" "same_size rq"
    using assms(1) by (simp_all add: io_call_def)
  note b = io_grid [OF c(1)]
  have bs: "0 \<le> nWinXOff rq" "0 \<le> nWinYOff rq" "nWinXOff rq + nBufXSize rq \<le> gNX g * gBX g" "gNX g * gBX g < 2 ^ 31"
    using c(2,4) by (simp_all add: window_ok_def same_size_def)
  have e: "to_i32 (nBufXSize rq + nWinXOff rq) = nWinXOff rq + nBufXSize rq"
    using bs less.prems(2,3) by (subst to_i32_id) auto
  have m: "0 < m" "j + m \<le> nBufYSize rq" "?Y mod gBY g + m \<le> gBY g"
    using assms(3,6) pos_mod_bound [OF b(2), of ?Y] by auto
  show ?case
  proof (cases "i < nBufXSize rq")
    case False
    then have "i = nBufXSize rq" using less.prems(3) by simp
    then show ?thesis using less.prems(1) e by (subst block_columns.simps) (simp add: outcome_def)
  next
    case True
    then have x: "x = ?X div gBX g" "i = 0 \<or> ?X mod gBX g = 0" "q = buf_at rq p i j" using less.prems(4) by simp_all
    have ij: "(i, j) \<in> box rq" using True less.prems(2) assms(2,3) by (simp add: box_def)
    let ?ini = "eRWFlag rq = GF_Write \<and> covers_block rq (gBX g) (gBY g) x y"
    have pos: "position (gNX g) (gNY g) x y"
      by (rule window_lock(1) [OF assms(1) less.prems(1) ij x(1) assms(4) x(2) assms(5), of False]) simp
    obtain r s1 where l: "lock_block env k rq x y ?ini s = Some (r, s1)"
      "so_far S env k rq g (window rq) s0 buf0 (cell rq p ` moved_above rq i j m) s1 buf"
      "case r of None \<Rightarrow> \<exists>w. VSIMalloc drv w (int (block_bytes g ?w)) = None
       | Some a \<Rightarrow> at_hand k x y (eRWFlag rq = GF_Write) a s1"
      using window_lock(2) [OF assms(1) less.prems(1) ij x(1) assms(4) x(2) assms(5), of ?ini] by auto
    have sub: "moved_above rq i j m \<subseteq> box rq" using above_in_box less.prems(3) assms(2) m by simp
    show ?thesis
    proof (cases r)
      case None
      then show ?thesis using l sub True e by (subst block_columns.simps) (auto simp: outcome_def Let_def)
    next
      case (Some a)
      define n where "n = min ((x + 1) * gBX g) (nWinXOff rq + nBufXSize rq) - ?X"
      have n: "0 < n" "i + n \<le> nBufXSize rq" using True block_pixel(2) [OF b(1), of ?X x] x(1) by (auto simp: n_def)
      have ed: "edge (x + 1) (gBX g) = (x + 1) * gBX g"
        using pos bs b by (intro edge_id [of _ "gNX g"]) (auto simp: position_def)
      have last: "(?X + n - 1) div gBX g = x"
      proof -
        have "x * gBX g \<le> ?X + n - 1" "?X + n - 1 < (x + 1) * gBX g"
          using n(1) block_pixel(1) [OF b(1), of ?X x] x(1) by (auto simp: n_def)
        then show ?thesis by (rule div_in_block)
      qed
      define z where "z = to_i32 (n * nPixelSpace rq)"
      have "\<bar>n * nPixelSpace rq\<bar> \<le> nBufXSize rq * \<bar>nPixelSpace rq\<bar>"
        using n less.prems(2) by (auto simp: abs_mult intro!: mult_right_mono)
      then have z: "z = n * nPixelSpace rq"
        using c(3) unfolding z_def by (intro to_i32_id) (auto simp: buffer_ok_def)
      have off: "(?X - x * gBX g + (?Y - y * gBY g) * gBX g) * nBandDataSize env k = place g ?w ?X ?Y"
        using div_mult_mod_eq [of ?X "gBX g"] div_mult_mod_eq [of ?Y "gBY g"] x(1) assms(4)
        by (simp add: place_def nBandDataSize_word minus_div_mult_eq_mod)
      have km: "min (gBY g - (?Y - gBY g * c_div ?Y (gBY g))) (nBufYSize rq - j) = m"
        using assms(2,6) bs(2) b(2) by (simp add: c_div_nonneg minus_mult_div_eq_mod)
      have nn: "int (nat n) = n" "int (nat m) = m" using n m by simp_all
      have rows: "(?Y + int l) div gBY g = y" if "0 \<le> l" "l < 0 + nat m" for l
      proof (rule div_in_block)
        have "?Y = y * gBY g + ?Y mod gBY g" using div_mult_mod_eq [of ?Y "gBY g"] assms(4) by simp
        moreover have "int l < m" using that m(1) by simp
        ultimately show "y * gBY g \<le> ?Y + int l" "?Y + int l < (y + 1) * gBY g"
          using m(3) pos_mod_sign [OF b(2), of ?Y] by (simp_all add: algebra_simps)
      qed
      have dis: "rect i n (j + int 0) m \<inter> moved_above rq i j m = {}" by (auto simp: moved_above_def rect_def)
      have hand: "at_hand k x y (eRWFlag rq = GF_Write) a s1" using l(3) Some by simp
      have plain: "z = int (nat n * buf_word rq)" if "nPixelSpace rq = int (buf_word rq)"
        using z n that by simp
      have fit: "i + int (nat n) \<le> nBufXSize rq" "(?X + int (nat n) - 1) div gBX g = x" "0 < nat n"
        "rect i (int (nat n)) (j + int 0) (int (nat m)) \<inter> moved_above rq i j m = {}" "0 < nat m"
        "j + int 0 + int (nat m) \<le> nBufYSize rq" using n m last dis by simp_all
      have rows': "(nWinYOff rq + j + int l) div gBY g = y" if "0 \<le> l" "l < 0 + nat m" for l using rows [OF that] .
      from block_lines_ok [OF assms(1) pos fit(3) less.prems(2) fit(1) x(1) [symmetric] fit(2) plain l(2) hand sub fit(4)
          assms(2) fit(6) rows' fit(5), of "place g ?w ?X ?Y"]
      obtain s2 buf2 where bl: "block_lines env k rq (gBX g) a n z (place g ?w ?X ?Y) q 0 (nat m) s1 buf = Some (s2, buf2)"
        "so_far S env k rq g (window rq) s0 buf0 (cell rq p ` moved_above rq (i + n) j m) s2 buf2"
        "at_hand k x y (eRWFlag rq = GF_Write) a s2"
        using above_step [of i n rq j m] less.prems(2) n(1) m(1) by (auto simp: nn x(3))
      obtain s3 where s3: "DropLock a s2 = Some s3"
        "so_far S env k rq g (window rq) s0 buf0 (cell rq p ` moved_above rq (i + n) j m) s3 buf2"
        using drop_ok [OF bl(2,3) pos] by blast
      have "x + 1 = (nWinXOff rq + (i + n)) div gBX g \<and> (i + n = 0 \<or> (nWinXOff rq + (i + n)) mod gBX g = 0) \<and>
          q + z = buf_at rq p (i + n) j" if "i + n < nBufXSize rq"
      proof -
        have "nWinXOff rq + (i + n) = (x + 1) * gBX g" using that by (simp add: n_def min_def split: if_splits)
        then show ?thesis using b(1) by (simp add: x(3) z buf_at_def algebra_simps)
      qed
      then have "outcome drv S env k rq g s0 buf0 p (moved_above rq (nBufXSize rq) j m)
          (block_columns env k rq (gBX g) (gBY g) j ?Y y (x + 1) (nWinXOff rq + (i + n)) (q + z) s3 buf2)"
        by (intro less.hyps s3(2)) (use n less.prems(2) in simp_all)
      moreover have "block_columns env k rq (gBX g) (gBY g) j ?Y y x ?X q s buf =
          block_columns env k rq (gBX g) (gBY g) j ?Y y (x + 1) (nWinXOff rq + (i + n)) (q + z) s3 buf2"
        using l(1) Some bl(1) s3(1) True unfolding z_def n_def
        by (subst block_columns.simps) (simp add: e ed off km add.assoc)
      ultimately show ?thesis by simp
    qed
  qed
qed

end

section \<open>All rows of blocks\<close>

lemma above_all: "0 \<le> nBufXSize rq \<Longrightarrow> moved_above rq 0 (nBufYSize rq) m = box rq"
  by (auto simp: moved_above_def rect_def box_def)

lemma above_none: "moved_above rq 0 0 m = {}"
  by (auto simp: moved_above_def rect_def)

context pixel_store
begin

lemma block_rows_ok:
  assumes "io_call drv env k rq g p buf0" and "0 < nBufXSize rq"
  shows "so_far S env k rq g (window rq) s0 buf0 (cell rq p ` moved_above rq 0 (min j (nBufYSize rq)) 0) s buf \<Longrightarrow> 0 \<le> j \<Longrightarrow>
    0 \<le> nBufYSize rq \<Longrightarrow> (j < nBufYSize rq \<Longrightarrow> j = 0 \<or> (nWinYOff rq + j) mod gBY g = 0) \<Longrightarrow>
    outcome drv S env k rq g s0 buf0 p (box rq) (block_rows env k rq (gBX g) (gBY g) p j (nWinYOff rq + j) s buf)"
proof (induction "nat (nBufYSize rq - j)" arbitrary: j s buf rule: less_induct)
  case less
  let ?Y = "nWinYOff rq + j"
  have c: "io_ready drv env k rq g" "window_ok rq g" "same_size rq" using assms(1) by (simp_all add: io_call_def)
  note b = io_grid [OF c(1)]
  have bs: "0 \<le> nWinXOff rq" "0 \<le> nWinYOff rq" using c(2) by (simp_all add: window_ok_def)
  show ?case
  proof (cases "j < nBufYSize rq")
    case False
    then have "min j (nBufYSize rq) = nBufYSize rq" by simp
    then show ?thesis
      using less.prems(1) False above_all [of rq 0] assms(2) by (subst block_rows.simps) (simp add: outcome_def)
  next
    case True
    define inc where "inc = gBY g - ?Y mod gBY g"
    define m where "m = min inc (nBufYSize rq - j)"
    have inc: "0 < inc" using pos_mod_bound [OF b(2), of ?Y] by (simp add: inc_def)
    then have m: "0 \<le> m" "j + m = min (j + inc) (nBufYSize rq)" using True by (auto simp: m_def)
    have mm: "m = min (gBY g - ?Y mod gBY g) (nBufYSize rq - j)" by (simp add: m_def inc_def)
    have cd: "gBY g - (?Y - gBY g * (?Y div gBY g)) = inc" by (simp add: inc_def minus_mult_div_eq_mod)
    have d: "c_div ?Y (gBY g) = ?Y div gBY g" "c_div (nWinXOff rq) (gBX g) = nWinXOff rq div gBX g"
      using bs less.prems(2) b by (simp_all add: c_div_nonneg)
    have start: "moved_above rq 0 j m = moved_above rq 0 (min j (nBufYSize rq)) 0" using True by (auto simp: moved_above_def)
    let ?cols = "block_columns env k rq (gBX g) (gBY g) j ?Y (?Y div gBY g) (nWinXOff rq div gBX g) (nWinXOff rq)
        (p + j * nLineSpace rq) s buf"
    have "outcome drv S env k rq g s0 buf0 p (moved_above rq (nBufXSize rq) j m)
        (block_columns env k rq (gBX g) (gBY g) j ?Y (?Y div gBY g) (nWinXOff rq div gBX g) (nWinXOff rq + 0)
          (p + j * nLineSpace rq) s buf)"
      by (rule block_columns_ok [OF assms(1) less.prems(2) True refl _ mm])
        (use less.prems(1,4) True start assms(2) in \<open>auto simp: buf_at_def\<close>)
    then have cols: "outcome drv S env k rq g s0 buf0 p (moved_above rq (nBufXSize rq) j m) ?cols" by simp
    then obtain e s' buf' where r: "?cols = Some (e, s', buf')" by (auto simp: outcome_def)
    show ?thesis
    proof (cases "e = CE_None")
      case False
      then show ?thesis using cols r True d by (subst block_rows.simps) (simp add: outcome_def Let_def)
    next
      case ok: True
      have "so_far S env k rq g (window rq) s0 buf0 (cell rq p ` moved_above rq 0 (min (j + inc) (nBufYSize rq)) 0) s' buf'"
        using cols r ok above_row [OF less.prems(2) m(1), of rq 0] m(2) by (simp add: outcome_def)
      moreover have "(nWinYOff rq + (j + inc)) mod gBY g = 0"
      proof -
        have "nWinYOff rq + (j + inc) = ?Y - ?Y mod gBY g + gBY g" by (simp add: inc_def)
        then show ?thesis by (metis mod_add_self2 minus_mod_eq_mult_div mod_mult_self1_is_0)
      qed
      ultimately have "outcome drv S env k rq g s0 buf0 p (box rq)
          (block_rows env k rq (gBX g) (gBY g) p (j + inc) (nWinYOff rq + (j + inc)) s' buf')"
        by (intro less.hyps) (use True inc less.prems(2,3) in auto)
      moreover have "block_rows env k rq (gBX g) (gBY g) p j ?Y s buf =
          block_rows env k rq (gBX g) (gBY g) p (j + inc) (nWinYOff rq + (j + inc)) s' buf'"
        using r
        by (subst block_rows.simps)
          (simp only: True ok d cd Let_def if_True if_False Option.bind_lunit case_prod_conv simp_thms add.assoc)
      ultimately show ?thesis by simp
    qed
  qed
qed

end

section \<open>Packed lines of blocks as wide as the raster\<close>

text \<open>The block that is held: none at the start, then the one of the line before.\<close>

definition held_block :: "request \<Rightarrow> nat \<Rightarrow> grid \<Rightarrow> int \<Rightarrow> addr option \<Rightarrow> int \<Rightarrow> (octets, 'w) gdal \<Rightarrow> bool" where
  "held_block rq k g j poBlock l s =
     (case poBlock of
        None \<Rightarrow> l = -1 \<and> j = 0
      | Some a \<Rightarrow> at_hand k 0 l (eRWFlag rq = GF_Write) a s \<and> position (gNX g) (gNY g) 0 l \<and> 0 < j \<and>
          l = (nWinYOff rq + j - 1) div gBY g)"

context pixel_store
begin

lemma unlock_ok:
  assumes "so_far S env k rq g W s0 buf0 D s buf" and "held_block rq k g j poBlock l s"
  shows "\<exists>s'. unlock poBlock s = Some s' \<and> so_far S env k rq g W s0 buf0 D s' buf"
proof (cases poBlock)
  case None
  then show ?thesis using assms(1) by (simp add: unlock_def)
next
  case (Some a)
  then have "at_hand k 0 l (eRWFlag rq = GF_Write) a s" "position (gNX g) (gNY g) 0 l"
    using assms(2) by (auto simp: held_block_def)
  from drop_ok [OF assms(1) this] show ?thesis by (simp add: unlock_def Some)
qed

text \<open>The block of the next line: the one that is held, or a new one.\<close>

lemma next_line_block:
  assumes "io_call drv env k rq g p buf0" and "nWinXOff rq + nWinXSize rq \<le> gBX g" and "(0, j) \<in> box rq"
    and "so_far S env k rq g (window rq) s0 buf0 (cell rq p ` moved_above rq 0 j 0) s buf" and "held_block rq k g j poBlock l s"
  defines "Y \<equiv> nWinYOff rq + j"
  defines "next \<equiv> Y < edge l (gBY g) \<or> Y \<ge> edge (l + 1) (gBY g)"
  defines "l' \<equiv> if next then c_div Y (gBY g) else l"
  shows "l' = Y div gBY g" and "position (gNX g) (gNY g) 0 l'" and
    "\<exists>q s'. (if next then do {
         s \<leftarrow> unlock poBlock s;
         lock_block env k rq 0 l'
           (eRWFlag rq = GF_Write \<and> nWinXOff rq = 0 \<and> nWinXSize rq = gBX g \<and> covers_lines rq (gBY g) l') s
       }
       else Some (poBlock, s)) = Some (q, s') \<and>
      so_far S env k rq g (window rq) s0 buf0 (cell rq p ` moved_above rq 0 j 0) s' buf \<and>
      (case q of
         None \<Rightarrow> next \<and> (\<exists>w. VSIMalloc drv w (int (block_bytes g (band_word env k))) = None)
       | Some a \<Rightarrow> at_hand k 0 l' (eRWFlag rq = GF_Write) a s')"
proof -
  have c: "io_ready drv env k rq g" "window_ok rq g" "same_size rq" using assms(1) by (simp_all add: io_call_def)
  note b = io_grid [OF c(1)]
  have bs: "0 \<le> nWinXOff rq" "0 \<le> nWinYOff rq" "0 \<le> j" "0 < nWinXSize rq" "j < nBufYSize rq" "gNX g * gBX g < 2 ^ 31"
    using c(2,3) assms(3) by (auto simp: window_ok_def box_def same_size_def)
  have Y0: "0 \<le> Y" using bs by (simp add: Y_def)
  have cd: "c_div Y (gBY g) = Y div gBY g" using Y0 b(2) by (simp add: c_div_nonneg)
  have x0: "0 = (nWinXOff rq + 0) div gBX g" using bs assms(2) by simp
  have old: "l = (Y - 1) div gBY g \<and> 0 \<le> l \<and> l < gNY g" if "poBlock = Some a" for a
    using assms(5) that by (simp add: held_block_def position_def Y_def)
  have el: "edge l (gBY g) = l * gBY g" "edge (l + 1) (gBY g) = (l + 1) * gBY g" if "poBlock = Some a" for a
    using old [OF that] b c(2) by (auto intro!: edge_id [of _ "gNY g"] simp: window_ok_def)
  have aligned: "next \<Longrightarrow> j = 0 \<or> Y mod gBY g = 0"
  proof (cases poBlock)
    case None
    then show ?thesis using assms(5) by (simp add: held_block_def)
  next
    case (Some a)
    assume nx: "next"
    have "l * gBY g \<le> Y - 1" "Y - 1 < (l + 1) * gBY g"
      using block_pixel [OF b(2), of "Y - 1" l] old [OF Some] by simp_all
    then have "Y = (l + 1) * gBY g" using nx el [OF Some] by (auto simp: next_def)
    then show ?thesis by simp
  qed
  have stay: "l = Y div gBY g \<and> poBlock \<noteq> None" if "\<not> next"
  proof (cases poBlock)
    case None
    then show ?thesis using assms(5) that Y0 by (simp add: held_block_def next_def edge_def to_i32_def)
  next
    case (Some a)
    then show ?thesis using that el [OF Some] div_in_block [of l "gBY g" Y] by (simp add: next_def)
  qed
  show l': "l' = Y div gBY g" using stay cd by (simp add: l'_def)
  have l'': "l' = (nWinYOff rq + j) div gBY g" using l' by (simp add: Y_def)
  show pos: "position (gNX g) (gNY g) 0 l'"
    using window_position [OF c(2) b(1,2), of "nWinXOff rq" Y] x0 l' assms(3) c(3)
    by (auto simp: window_def box_def same_size_def Y_def)
  show "\<exists>q s'. (if next then do {
         s \<leftarrow> unlock poBlock s;
         lock_block env k rq 0 l'
           (eRWFlag rq = GF_Write \<and> nWinXOff rq = 0 \<and> nWinXSize rq = gBX g \<and> covers_lines rq (gBY g) l') s
       }
       else Some (poBlock, s)) = Some (q, s') \<and>
      so_far S env k rq g (window rq) s0 buf0 (cell rq p ` moved_above rq 0 j 0) s' buf \<and>
      (case q of
         None \<Rightarrow> next \<and> (\<exists>w. VSIMalloc drv w (int (block_bytes g (band_word env k))) = None)
       | Some a \<Rightarrow> at_hand k 0 l' (eRWFlag rq = GF_Write) a s')"
  proof (cases "next")
    case False
    then obtain a where a: "poBlock = Some a" using stay by auto
    then have "at_hand k 0 l' (eRWFlag rq = GF_Write) a s"
      using assms(5) False by (auto simp: held_block_def l'_def)
    then show ?thesis using assms(4) a False by auto
  next
    case True
    let ?ini = "eRWFlag rq = GF_Write \<and> nWinXOff rq = 0 \<and> nWinXSize rq = gBX g \<and> covers_lines rq (gBY g) l'"
    obtain s1 where s1: "unlock poBlock s = Some s1"
      "so_far S env k rq g (window rq) s0 buf0 (cell rq p ` moved_above rq 0 j 0) s1 buf"
      using unlock_ok [OF assms(4,5)] by blast
    have e1: "edge 0 (gBX g) = 0" "edge 1 (gBX g) = gBX g" "to_i32 (gBX g) = gBX g"
      using b(1,3) by (simp_all add: edge_def to_i32_id)
    have "\<exists>q s'. lock_block env k rq 0 l' ?ini s1 = Some (q, s') \<and>
      so_far S env k rq g (window rq) s0 buf0 (cell rq p ` moved_above rq 0 j 0) s' buf \<and>
      (case q of
         None \<Rightarrow> \<exists>w. VSIMalloc drv w (int (block_bytes g (band_word env k))) = None
       | Some a \<Rightarrow> at_hand k 0 l' (eRWFlag rq = GF_Write) a s')"
      by (rule window_lock(2) [OF assms(1) s1(2) assms(3) x0 l''])
        (use aligned [OF True] e1 in \<open>auto simp: covers_block_def Y_def\<close>)
    then show ?thesis using s1(1) True by (simp cong: option.case_cong)
  qed
qed

end

context pixel_store
begin

lemma whole_lines_ok:
  assumes "io_call drv env k rq g p buf0" and "nWinXOff rq + nWinXSize rq \<le> gBX g" and "0 < nBufXSize rq"
    and "nPixelSpace rq = int (buf_word rq)" and "nLineSpace rq = to_i32 (nPixelSpace rq * nWinXSize rq)"
  shows "so_far S env k rq g (window rq) s0 buf0 (cell rq p ` moved_above rq 0 j 0) s buf \<Longrightarrow>
    held_block rq k g j poBlock l s \<Longrightarrow> 0 \<le> j \<Longrightarrow> nBufYSize rq = j + int n \<Longrightarrow>
    outcome drv S env k rq g s0 buf0 p (box rq) (whole_lines env k rq (gBX g) (gBY g) p j n poBlock l s buf)"
proof (induction n arbitrary: j poBlock l s buf)
  case 0
  then show ?case
    using unlock_ok [OF 0(1,2)] above_all [of rq 0] assms(3) by (fastforce simp: outcome_def)
next
  case (Suc n)
  let ?w = "band_word env k" and ?Y = "nWinYOff rq + j"
  have c: "io_ready drv env k rq g" "window_ok rq g" "buffer_ok rq p (length buf0)" "same_size rq"
    using assms(1) by (simp_all add: io_call_def)
  note b = io_grid [OF c(1)]
  have bs: "0 \<le> nWinXOff rq" "0 \<le> nWinYOff rq" "?Y < 2 ^ 31" "j < nBufYSize rq"
    using c(2,4) Suc.prems(4) by (auto simp: window_ok_def same_size_def)
  have ij: "(0, j) \<in> box rq" using assms(3) Suc.prems(3) bs(4) by (simp add: box_def)
  have Y: "to_i32 (j + nWinYOff rq) = ?Y" using bs Suc.prems(3) by (subst to_i32_id) auto
  let ?next = "?Y < edge l (gBY g) \<or> ?Y \<ge> edge (l + 1) (gBY g)"
  define l' where "l' = (if ?next then c_div ?Y (gBY g) else l)"
  note nb = next_line_block [OF assms(1,2) ij Suc.prems(1,2), folded l'_def]
  obtain q s1 where q: "(if ?next then do {
         s \<leftarrow> unlock poBlock s;
         lock_block env k rq 0 l'
           (eRWFlag rq = GF_Write \<and> nWinXOff rq = 0 \<and> nWinXSize rq = gBX g \<and> covers_lines rq (gBY g) l') s
       }
       else Some (poBlock, s)) = Some (q, s1)"
    "so_far S env k rq g (window rq) s0 buf0 (cell rq p ` moved_above rq 0 j 0) s1 buf"
    "case q of
       None \<Rightarrow> ?next \<and> (\<exists>w. VSIMalloc drv w (int (block_bytes g (band_word env k))) = None)
     | Some a \<Rightarrow> at_hand k 0 l' (eRWFlag rq = GF_Write) a s1"
    using nb(3) by blast
  note run = whole_lines.simps(2) [of env k rq "gBX g" "gBY g" p j n poBlock l s buf, unfolded Let_def Y, folded l'_def,
      unfolded q(1) Option.bind_lunit case_prod_conv]
  have sub: "moved_above rq 0 j 0 \<subseteq> box rq" using above_in_box Suc.prems(3) bs(4) assms(3) by simp
  show ?case
  proof (cases q)
    case None
    then show ?thesis using q(2,3) sub unfolding run by (auto simp: outcome_def)
  next
    case (Some a)
    then have hand: "at_hand k 0 l' (eRWFlag rq = GF_Write) a s1" using q(3) by simp
    let ?n = "nat (nBufXSize rq)"
    have n: "int ?n = nBufXSize rq" "0 < ?n" using assms(3) by simp_all
    have lens: "nLineSpace rq = int (?n * buf_word rq)"
    proof -
      have "\<bar>nPixelSpace rq * nWinXSize rq\<bar> < 2 ^ 31"
        using c(3,4) assms(3) by (simp add: buffer_ok_def same_size_def abs_mult mult.commute)
      then have "to_i32 (nPixelSpace rq * nWinXSize rq) = nPixelSpace rq * nWinXSize rq"
        by (intro to_i32_id) auto
      then show ?thesis using assms(4,5) c(4) n by (simp add: same_size_def mult.commute)
    qed
    have src: "to_i32 (((?Y - l' * gBY g) * gBX g + nWinXOff rq) * nBandDataSize env k) = place g ?w (nWinXOff rq + 0) ?Y"
    proof -
      have "nWinXOff rq mod gBX g = nWinXOff rq" using bs(1) assms(2,3) c(4) by (simp add: same_size_def)
      then have "((?Y - l' * gBY g) * gBX g + nWinXOff rq) * nBandDataSize env k = place g ?w (nWinXOff rq + 0) ?Y"
        using nb(1) by (simp add: place_def nBandDataSize_word minus_div_mult_eq_mod add.commute)
      moreover have "int (block_bytes g ?w) < 2 ^ 31" using c(1) b by (simp add: io_ready_def block_bytes_def)
      ultimately show ?thesis
        using place_range [OF b(1,2), of ?w "nWinXOff rq + 0" ?Y] by (intro to_i32_id [THEN trans]) auto
    qed
    have dst: "p + j * nLineSpace rq = buf_at rq p 0 j" by (simp add: buf_at_def)
    have col: "(nWinXOff rq + 0) div gBX g = 0" "(nWinXOff rq + 0 + int ?n - 1) div gBX g = 0"
      using bs(1) assms(2,3) c(4) by (simp_all add: same_size_def)
    have row: "?Y div gBY g = l'" using nb(1) by simp
    have fresh: "(0 + int m, j) \<notin> moved_above rq 0 j 0" for m by (simp add: moved_above_def rect_def)
    have buf: "buffer_ok rq p (length buf)" using c(3) so_far_length [OF Suc.prems(1)] by simp
    have fit: "0 + int ?n \<le> nBufXSize rq" using n by simp
    have plain: "eDataType env k = eBufType rq \<Longrightarrow> eDataType env k = eBufType rq \<and> nLineSpace rq = int (?n * buf_word rq) \<and>
        (?n = 1 \<or> nPixelSpace rq = int (buf_word rq))"
      using lens assms(4) by simp
    from line_ok [OF c(1,2) buf c(4) q(2) hand nb(2) n(2) order_refl fit Suc.prems(3) bs(4) col row sub fresh plain]
    obtain s2 buf2 where l: "copy_line env k rq (eDataType env k = eBufType rq) (nBufXSize rq) (nLineSpace rq) a
        (place g ?w (nWinXOff rq + 0) ?Y) (buf_at rq p 0 j) s1 buf = Some (s2, buf2)"
      "so_far S env k rq g (window rq) s0 buf0 (cell rq p ` (moved_above rq 0 j 0 \<union> rect 0 (nBufXSize rq) j 1)) s2 buf2"
      "at_hand k 0 l' (eRWFlag rq = GF_Write) a s2"
      unfolding rect_line n(1) by blast
    have "moved_above rq 0 j 0 \<union> rect 0 (nBufXSize rq) j 1 = moved_above rq 0 (j + 1) 0"
      using Suc.prems(3) by (auto simp: moved_above_def rect_def)
    moreover have "held_block rq k g (j + 1) (Some a) l' s2"
      using l(3) nb(1,2) Suc.prems(3) by (simp add: held_block_def)
    ultimately have "outcome drv S env k rq g s0 buf0 p (box rq)
        (whole_lines env k rq (gBX g) (gBY g) p (j + 1) n (Some a) l' s2 buf2)"
      using Suc.prems(3,4) l(2) by (intro Suc.IH) auto
    then show ?thesis unfolding run using Some by (simp add: src dst l(1) del: add_0_right)
  qed
qed

end

end
