(* ===== verification/Raster_Io_Resample.thy ===== *)
theory Raster_Io_Resample
  imports Raster_Io_Cases
begin

text \<open>
  \<open>IRasterIO\<close> pixel by pixel, for windows and buffers of different sizes.
\<close>

section \<open>One pixel\<close>

definition block_of :: "grid \<Rightarrow> move \<Rightarrow> int \<times> int" where
  "block_of g = (\<lambda>(X, Y, q). (X div gBX g, Y div gBY g))"

text \<open>No block that the window covers is left and entered again.\<close>

definition covered_once :: "request \<Rightarrow> grid \<Rightarrow> move list \<Rightarrow> bool" where
  "covered_once rq g ts =
     (\<forall>ts1 t ts2. ts = ts1 @ t # ts2 \<longrightarrow>
        covers_block rq (gBX g) (gBY g) (fst (block_of g t)) (snd (block_of g t)) \<longrightarrow>
        block_of g t \<in> block_of g ` set ts1 \<longrightarrow> block_of g (last ts1) = block_of g t)"

text \<open>The moves of a request lie in the window and in the buffer; words read do not meet, pixels written are
  different.\<close>

definition moves_fit :: "request \<Rightarrow> nat \<Rightarrow> move list \<Rightarrow> bool" where
  "moves_fit rq len ts =
     ((\<forall>(X, Y, q) \<in> set ts. (X, Y) \<in> window rq \<and> 0 \<le> q \<and> q + int (buf_word rq) \<le> int len) \<and>
      (if eRWFlag rq = GF_Read
       then sorted_wrt (\<lambda>t t'. clear_of (buf_word rq) (snd (snd t)) (buf_word rq) (snd (snd t'))) ts
       else distinct (map (\<lambda>(X, Y, q). (X, Y)) ts)))"

definition moves_ok :: "request \<Rightarrow> grid \<Rightarrow> nat \<Rightarrow> move list \<Rightarrow> bool" where
  "moves_ok rq g len ts = (moves_fit rq len ts \<and> (eRWFlag rq = GF_Read \<or> covered_once rq g ts))"

text \<open>The block that is held is the one of the last pixel.\<close>

definition held_pixel ::
    "request \<Rightarrow> nat \<Rightarrow> grid \<Rightarrow> move list \<Rightarrow> addr option \<Rightarrow> int \<Rightarrow> int \<Rightarrow> (octets, 'w) gdal \<Rightarrow> bool" where
  "held_pixel rq k g ts poBlock lx ly s =
     (case poBlock of
        None \<Rightarrow> lx = -1 \<and> ly = -1 \<and> ts = []
      | Some a \<Rightarrow> at_hand k lx ly (eRWFlag rq = GF_Write) a s \<and> position (gNX g) (gNY g) lx ly \<and> ts \<noteq> [] \<and>
          block_of g (last ts) = (lx, ly))"

definition pixels_outcome ::
    "(octets, 'w) driver \<Rightarrow> (octets, 'w) store \<Rightarrow> 'w raster_env \<Rightarrow> nat \<Rightarrow> request \<Rightarrow> grid \<Rightarrow> (octets, 'w) gdal \<Rightarrow> octets
     \<Rightarrow> move list \<Rightarrow> 'w io_result \<Rightarrow> bool" where
  "pixels_outcome drv S env k rq g s0 buf0 ts r =
     (\<exists>e s' buf'. r = Some (e, s', buf') \<and>
        (if e = CE_None then so_far S env k rq g (window rq) s0 buf0 (set ts) s' buf'
         else e = CE_Failure \<and> (\<exists>w. VSIMalloc drv w (int (block_bytes g (band_word env k))) = None) \<and>
           (\<exists>D \<subseteq> set ts. so_far S env k rq g (window rq) s0 buf0 D s' buf')))"

lemma word_size_small: "int (word_size_of e) < 2 ^ 31"
  by (cases e) (simp_all add: word_size_of_def)

lemma moves_fresh:
  assumes "moves_ok rq g len (ts1 @ t # ts2)"
  shows "fresh_moves rq (window rq) (set ts1) [t]"
proof (cases "eRWFlag rq = GF_Read")
  case True
  then show ?thesis
    using assms by (cases t) (auto simp: moves_ok_def moves_fit_def fresh_moves_def sorted_wrt_append)
next
  case False
  obtain X Y q where t: "t = (X, Y, q)" by (cases t)
  have "distinct (map (\<lambda>(X, Y, q). (X, Y)) (ts1 @ t # ts2))" using assms False by (simp add: moves_ok_def moves_fit_def)
  then have "(X, Y) \<notin> (\<lambda>(X, Y, q). (X, Y)) ` set ts1" by (simp add: t)
  then have "(X, Y, q') \<notin> set ts1" for q' by force
  then show ?thesis using assms False by (simp add: fresh_moves_def moves_ok_def moves_fit_def t)
qed

context pixel_store
begin

lemma pixel_ok:
  assumes "io_ready drv env k rq g" and "moves_ok rq g (length buf) (ts1 @ (X, Y, q) # ts2)"
    and "so_far S env k rq g (window rq) s0 buf0 (set ts1) s buf"
    and "at_hand k (X div gBX g) (Y div gBY g) (eRWFlag rq = GF_Write) a s"
    and "position (gNX g) (gNY g) (X div gBX g) (Y div gBY g)"
  shows "\<exists>s' buf'. copy_pixel env k rq a (place g (band_word env k) X Y) q s buf = Some (s', buf') \<and>
    so_far S env k rq g (window rq) s0 buf0 (set (ts1 @ [(X, Y, q)])) s' buf' \<and> length buf' = length buf \<and>
    at_hand k (X div gBX g) (Y div gBY g) (eRWFlag rq = GF_Write) a s'"
proof -
  let ?w = "band_word env k" and ?u = "buf_word rq" and ?P = "place g (band_word env k) X Y"
  have r: "via_fits (via_double env)" "0 < gBX g" "0 < gBY g" using assms(1) by (simp_all add: io_ready_def)
  have q: "0 \<le> q" "q + int ?u \<le> int (length buf)" using assms(2) by (auto simp: moves_ok_def moves_fit_def)
  note pr = place_range [OF r(2,3), of ?w X Y]
  have one: "spaced a 0 b 0 [0..<1] = [(a, b)]" for a b by (simp add: spaced_def)
  have rc: "copyable ?w ?u d (spaced ?P 0 q 0 [0..<1]) buf" and wc: "copyable ?u ?w buf (spaced q 0 ?P 0 [0..<1]) d"
    if "length d = block_bytes g ?w" for d
    unfolding one copyable_def using pr q that by simp_all
  have set: "set (ts1 @ [(X, Y, q)]) = set ts1 \<union> set [(X, Y, q)]" by simp
  show ?thesis
    unfolding copy_pixel_def nBandDataSize_word set
  proof (rule copy_block_ok [OF assms(1,3,4,5)])
    show "moves_from buf rq g (X div gBX g) (Y div gBY g) [(X, Y, q)]" using q by (simp add: moves_from_def)
    show "fresh_moves rq (window rq) (set ts1) [(X, Y, q)]" by (rule moves_fresh [OF assms(2)])
  next
    fix d :: octets assume "length d = block_bytes g ?w"
    from line_copies [OF r(1) rc [OF this], where plain = "eDataType env k = eBufType rq" and nBytes = "int ?w"] word_size_small
    show "\<exists>buf'. (if eDataType env k = eBufType rq then mem_copy buf q d ?P (int ?w)
        else GDALCopyWords (via_double env) d ?P (eDataType env k) 0 buf q (eBufType rq) 0 1) = Some buf' \<and>
      copied (pixel_map (via_double env) (eDataType env k) (eBufType rq)) ?w ?u d (reading_pairs g ?w [(X, Y, q)]) buf buf'"
      unfolding one by (auto simp: reading_pairs_def split: if_splits)
  next
    fix d :: octets assume "length d = block_bytes g ?w"
    from line_copies [OF r(1) wc [OF this], where plain = "eDataType env k = eBufType rq" and nBytes = "int ?w"] word_size_small
    show "\<exists>d'. (if eDataType env k = eBufType rq then mem_copy d ?P buf q (int ?w)
        else GDALCopyWords (via_double env) buf q (eBufType rq) 0 d ?P (eDataType env k) 0 1) = Some d' \<and>
      copied (pixel_map (via_double env) (eBufType rq) (eDataType env k)) ?u ?w buf (writing_pairs g ?w [(X, Y, q)]) d d'"
      unfolding one by (auto simp: writing_pairs_def)
  qed
qed

end

section \<open>All pixels\<close>

text \<open>A pixel outside the block that is held.\<close>

lemma outside_held:
  assumes "io_ready drv env k rq g" and "window_ok rq g" and "held_pixel rq k g ts poBlock lx ly s" and "(X, Y) \<in> window rq"
  shows "X < edge lx (gBX g) \<or> X \<ge> edge (lx + 1) (gBX g) \<or> Y < edge ly (gBY g) \<or> Y \<ge> edge (ly + 1) (gBY g) \<longleftrightarrow>
    poBlock = None \<or> (X div gBX g, Y div gBY g) \<noteq> (lx, ly)"
proof (cases poBlock)
  case None
  then show ?thesis
    using assms(2-4) by (auto simp: held_pixel_def window_ok_def window_def edge_def to_i32_def)
next
  case (Some a)
  note b = io_grid [OF assms(1)]
  have l: "0 \<le> lx" "lx < gNX g" "0 \<le> ly" "ly < gNY g" using assms(3) Some by (simp_all add: held_pixel_def position_def)
  have "edge lx (gBX g) = lx * gBX g" "edge (lx + 1) (gBX g) = (lx + 1) * gBX g"
    using assms(2) b l by (auto intro!: edge_id [of _ "gNX g"] simp: window_ok_def)
  moreover have "edge ly (gBY g) = ly * gBY g" "edge (ly + 1) (gBY g) = (ly + 1) * gBY g"
    using assms(2) b l by (auto intro!: edge_id [of _ "gNY g"] simp: window_ok_def)
  moreover have "X div gBX g = lx \<longleftrightarrow> lx * gBX g \<le> X \<and> X < (lx + 1) * gBX g"
    using block_pixel [OF b(1)] div_in_block by metis
  moreover have "Y div gBY g = ly \<longleftrightarrow> ly * gBY g \<le> Y \<and> Y < (ly + 1) * gBY g"
    using block_pixel [OF b(2)] div_in_block by metis
  ultimately show ?thesis using Some by auto
qed

context pixel_store
begin

lemma unlock_pixel:
  assumes "so_far S env k rq g W s0 buf0 D s buf" and "held_pixel rq k g ts poBlock lx ly s"
  shows "\<exists>s'. unlock poBlock s = Some s' \<and> so_far S env k rq g W s0 buf0 D s' buf"
proof (cases poBlock)
  case None
  then show ?thesis using assms(1) by (simp add: unlock_def)
next
  case (Some a)
  then have "at_hand k lx ly (eRWFlag rq = GF_Write) a s" "position (gNX g) (gNY g) lx ly"
    using assms(2) by (auto simp: held_pixel_def)
  from drop_ok [OF assms(1) this] show ?thesis by (simp add: unlock_def Some)
qed

lemma single_pixels_ok:
  assumes "io_ready drv env k rq g" and "window_ok rq g" and "0 \<le> nWinXSize rq" and "0 \<le> nWinYSize rq"
  shows "so_far S env k rq g (window rq) s0 buf0 (set ts1) s buf \<Longrightarrow> held_pixel rq k g ts1 poBlock lx ly s \<Longrightarrow>
    moves_ok rq g (length buf0) (ts1 @ ts) \<Longrightarrow>
    pixels_outcome drv S env k rq g s0 buf0 (ts1 @ ts) (single_pixels env k rq (gBX g) (gBY g) ts poBlock lx ly s buf)"
proof (induction ts arbitrary: ts1 poBlock lx ly s buf)
  case Nil
  then show ?case using unlock_pixel [OF Nil(1,2)] by (fastforce simp: pixels_outcome_def)
next
  case (Cons t ts)
  obtain X Y q where t: "t = (X, Y, q)" by (cases t)
  let ?w = "band_word env k" and ?x = "X div gBX g" and ?y = "Y div gBY g"
  note b = io_grid [OF assms(1)]
  have win: "(X, Y) \<in> window rq" using Cons.prems(3) t by (simp add: moves_ok_def moves_fit_def)
  have pos: "position (gNX g) (gNY g) ?x ?y" using window_position [OF assms(2) b(1,2) win] .
  have XY: "0 \<le> X" "0 \<le> Y" using win assms(2) by (auto simp: window_def window_ok_def)
  let ?next = "X < edge lx (gBX g) \<or> X \<ge> edge (lx + 1) (gBX g) \<or> Y < edge ly (gBY g) \<or> Y \<ge> edge (ly + 1) (gBY g)"
  note out = outside_held [OF assms(1,2) Cons.prems(2) win]
  have l: "(if ?next then c_div X (gBX g) else lx) = ?x" "(if ?next then c_div Y (gBY g) else ly) = ?y"
    using out XY b by (auto simp: c_div_nonneg)
  let ?ini = "eRWFlag rq = GF_Write \<and> covers_block rq (gBX g) (gBY g) ?x ?y"
  have new: "(X', Y') \<in> window rq \<and> (\<forall>q. (X', Y', q) \<notin> set ts1)"
    if h: ?ini ?next "X' div gBX g = ?x" "Y' div gBY g = ?y" for X' Y'
  proof (intro conjI allI notI)
    show "(X', Y') \<in> window rq" using covered_in_window [OF assms(1,2) pos _ h(3,4) assms(3,4)] h(1) by simp
    fix q' assume q': "(X', Y', q') \<in> set ts1"
    then have "block_of g t \<in> block_of g ` set ts1" using h(3,4) by (force simp: block_of_def t)
    moreover have "covered_once rq g (ts1 @ t # ts)" using Cons.prems(3) h(1) by (simp add: moves_ok_def)
    moreover have bt: "block_of g t = (?x, ?y)" by (simp add: block_of_def t)
    ultimately have "block_of g (last ts1) = (?x, ?y)"
      using h(1) unfolding covered_once_def by (metis (lifting) bt fst_conv snd_conv)
    then show False using Cons.prems(2) out h(2) q' by (auto simp: held_pixel_def split: option.splits)
  qed
  have "\<exists>r s'. (if ?next then do { s \<leftarrow> unlock poBlock s; lock_block env k rq ?x ?y ?ini s } else Some (poBlock, s)) = Some (r, s') \<and>
      so_far S env k rq g (window rq) s0 buf0 (set ts1) s' buf \<and>
      (case r of
         None \<Rightarrow> ?next \<and> (\<exists>w. VSIMalloc drv w (int (block_bytes g ?w)) = None)
       | Some a \<Rightarrow> at_hand k ?x ?y (eRWFlag rq = GF_Write) a s')"
  proof (cases ?next)
    case False
    then show ?thesis using Cons.prems(1,2) out by (auto simp: held_pixel_def)
  next
    case True
    obtain s1 where s1: "unlock poBlock s = Some s1" "so_far S env k rq g (window rq) s0 buf0 (set ts1) s1 buf"
      using unlock_pixel [OF Cons.prems(1,2)] by blast
    have "\<exists>r s'. lock_block env k rq ?x ?y ?ini s1 = Some (r, s') \<and> so_far S env k rq g (window rq) s0 buf0 (set ts1) s' buf \<and>
      (case r of
         None \<Rightarrow> VSIMalloc drv (world s1) (int (block_bytes g ?w)) = None
       | Some a \<Rightarrow> at_hand k ?x ?y (eRWFlag rq = GF_Write) a s')"
      by (rule lock_ok [OF assms(1) s1(2) pos]) (use new True in auto)
    then obtain r s' where "lock_block env k rq ?x ?y ?ini s1 = Some (r, s')"
      "so_far S env k rq g (window rq) s0 buf0 (set ts1) s' buf"
      "case r of None \<Rightarrow> VSIMalloc drv (world s1) (int (block_bytes g ?w)) = None
       | Some a \<Rightarrow> at_hand k ?x ?y (eRWFlag rq = GF_Write) a s'" by blast
    then show ?thesis using s1(1) True by (intro exI [of _ r] exI [of _ s']) (cases r; auto)
  qed
  then obtain r s1 where r: "(if ?next then do { s \<leftarrow> unlock poBlock s; lock_block env k rq ?x ?y ?ini s } else Some (poBlock, s)) =
      Some (r, s1)" "so_far S env k rq g (window rq) s0 buf0 (set ts1) s1 buf"
    "case r of None \<Rightarrow> ?next \<and> (\<exists>w. VSIMalloc drv w (int (block_bytes g ?w)) = None)
     | Some a \<Rightarrow> at_hand k ?x ?y (eRWFlag rq = GF_Write) a s1" by blast
  note run = single_pixels.simps(2) [of env k rq "gBX g" "gBY g" X Y q ts poBlock lx ly s buf, unfolded Let_def l,
      unfolded r(1) Option.bind_lunit case_prod_conv]
  show ?case
  proof (cases r)
    case None
    then show ?thesis using r(2,3) unfolding t run by (auto simp: pixels_outcome_def)
  next
    case (Some a)
    then have hand: "at_hand k ?x ?y (eRWFlag rq = GF_Write) a s1" using r(3) by simp
    have len: "length buf = length buf0" using so_far_length [OF r(2)] .
    have off: "(X - ?x * gBX g + (Y - ?y * gBY g) * gBX g) * nBandDataSize env k = place g ?w X Y"
      by (simp add: place_def nBandDataSize_word minus_div_mult_eq_mod)
    have ok: "moves_ok rq g (length buf) (ts1 @ (X, Y, q) # ts)" using Cons.prems(3) by (simp add: len t)
    obtain s2 buf2 where c: "copy_pixel env k rq a (place g ?w X Y) q s1 buf = Some (s2, buf2)"
      "so_far S env k rq g (window rq) s0 buf0 (set (ts1 @ [t])) s2 buf2" "at_hand k ?x ?y (eRWFlag rq = GF_Write) a s2"
      using pixel_ok [OF assms(1) ok r(2) hand pos] by (auto simp: t)
    have "held_pixel rq k g (ts1 @ [t]) (Some a) ?x ?y s2" using c(3) pos by (simp add: held_pixel_def block_of_def t)
    from Cons.IH [OF c(2) this] Cons.prems(3)
    have "pixels_outcome drv S env k rq g s0 buf0 (ts1 @ t # ts)
        (single_pixels env k rq (gBX g) (gBY g) ts (Some a) ?x ?y s2 buf2)" by simp
    then show ?thesis unfolding t run off Some by (simp add: c(1))
  qed
qed

end

end
