(* ===== verification/Raster_Io_Windows.thy ===== *)
theory Raster_Io_Windows
  imports Raster_Io_Resample Mem_Cache
begin

text \<open>
  \<open>RasterIO\<close> moves the pixels of its window; the in-memory driver meets its contract, so that what is written to a
  band in memory is read back.
\<close>

section \<open>The request as a whole\<close>

text \<open>The band: its block table, and blocks that cover the raster.\<close>

definition io_band :: "(octets, 'w) store \<Rightarrow> 'w raster_env \<Rightarrow> nat \<Rightarrow> grid \<Rightarrow> band \<Rightarrow> (octets, 'w) gdal \<Rightarrow> bool" where
  "io_band S env k g B s =
     (io_state S k (gNX g) (gNY g) (block_bytes g (band_word env k)) (layout_of s) s \<and> bands s k = Some B \<and>
      nBlockXSize B = gBX g \<and> nBlockYSize B = gBY g \<and>
      nRasterXSize B \<le> gNX g * gBX g \<and> nRasterYSize B \<le> gNY g * gBY g \<and>
      gNX g * gBX g < 2 ^ 31 \<and> gNY g * gBY g < 2 ^ 31)"

text \<open>The moves of a request, and what is assumed of it: a window inside the raster, a buffer with room for the
  words, and no overviews that could serve it.\<close>

definition request_moves :: "'w raster_env \<Rightarrow> request \<Rightarrow> int \<Rightarrow> move set" where
  "request_moves env rq p = (if same_size rq then cell rq p ` box rq else set (resampled_pixels env rq p))"

definition window_inside :: "request \<Rightarrow> band \<Rightarrow> bool" where
  "window_inside rq B =
     (0 < nWinXSize rq \<and> 0 < nWinYSize rq \<and> 0 < nBufXSize rq \<and> 0 < nBufYSize rq \<and>
      0 \<le> nWinXOff rq \<and> nWinXOff rq + nWinXSize rq \<le> nRasterXSize B \<and>
      0 \<le> nWinYOff rq \<and> nWinYOff rq + nWinYSize rq \<le> nRasterYSize B)"

definition request_ok :: "'w raster_env \<Rightarrow> request \<Rightarrow> grid \<Rightarrow> band \<Rightarrow> int \<Rightarrow> nat \<Rightarrow> bool" where
  "request_ok env rq g B p len =
     (window_inside rq B \<and>
      (if same_size rq then buffer_ok rq p len else moves_ok rq g len (resampled_pixels env rq p)) \<and>
      (OverviewRasterIO env = None \<or> eRWFlag rq = GF_Write \<or> nWinXSize rq \<le> nBufXSize rq \<and> nWinYSize rq \<le> nBufYSize rq))"

lemma so_far_start:
  assumes "io_state S k (gNX g) (gNY g) (block_bytes g (band_word env k)) (layout_of s) s"
  shows "so_far S env k rq g W s buf {} s buf"
proof -
  have "coherent S s" using io_stateE [OF assms] by metis
  then show ?thesis
    using assms by (simp add: so_far_def read_so_far_def written_so_far_def keeps_refl same_shape_def coherent_def)
qed

context pixel_store
begin

lemma IRasterIO_ok:
  assumes "io_ready drv env k rq g" and "io_band S env k g B s" and "request_ok env rq g B p (length buf)"
  shows "\<exists>e s' buf'. IRasterIO env k rq p buf s = Some (e, s', buf') \<and>
    (if e = CE_None then so_far S env k rq g (window rq) s buf (request_moves env rq p) s' buf'
     else e = CE_Failure \<and> (\<exists>w. VSIMalloc drv w (int (block_bytes g (band_word env k))) = None) \<and>
       (\<exists>D \<subseteq> request_moves env rq p. so_far S env k rq g (window rq) s buf D s' buf'))"
proof -
  have B: "io_state S k (gNX g) (gNY g) (block_bytes g (band_word env k)) (layout_of s) s" "bands s k = Some B"
    "nBlockXSize B = gBX g" "nBlockYSize B = gBY g" "nRasterXSize B \<le> gNX g * gBX g" "nRasterYSize B \<le> gNY g * gBY g"
    "gNX g * gBX g < 2 ^ 31" "gNY g * gBY g < 2 ^ 31"
    using assms(2) by (simp_all add: io_band_def)
  have w: "window_inside rq B" and v: "OverviewRasterIO env = None \<or> eRWFlag rq = GF_Write \<or>
      nWinXSize rq \<le> nBufXSize rq \<and> nWinYSize rq \<le> nBufYSize rq"
    using assms(3) by (simp_all add: request_ok_def)
  note wi = w [unfolded window_inside_def]
  have win: "window_ok rq g" using wi B(5-8) by (simp add: window_ok_def)
  note start = so_far_start [OF B(1), of rq "window rq" buf]
  let ?packed = "nPixelSpace rq = nBufDataSize rq \<and> nLineSpace rq = to_i32 (nPixelSpace rq * nWinXSize rq) \<and>
      nBlockXSize B = nRasterXSize B \<and> nBufXSize rq = nWinXSize rq \<and> nBufYSize rq = nWinYSize rq"
  have run: "IRasterIO env k rq p buf s =
      (if ?packed then whole_lines env k rq (gBX g) (gBY g) p 0 (nat (nBufYSize rq)) None (-1) s buf
       else if same_size rq then block_rows env k rq (gBX g) (gBY g) p 0 (nWinYOff rq) s buf
       else single_pixels env k rq (gBX g) (gBY g) (resampled_pixels env rq p) None (-1) (-1) s buf)"
    using B(2-4) v by (auto simp: IRasterIO_def same_size_def split: option.splits)
  show ?thesis
  proof (cases "same_size rq")
    case True
    have c: "io_call drv env k rq g p buf" using assms(1,3) win True by (simp add: io_call_def request_ok_def)
    have none: "moved_above rq 0 0 0 = {}" by (rule above_none)
    have "outcome drv S env k rq g s buf p (box rq) (IRasterIO env k rq p buf s)"
    proof (cases ?packed)
      case True
      have "outcome drv S env k rq g s buf p (box rq)
          (whole_lines env k rq (gBX g) (gBY g) p 0 (nat (nBufYSize rq)) None (-1) s buf)"
        by (rule whole_lines_ok [OF c])
          (use True wi B(3) start none in \<open>simp_all add: held_block_def nBufDataSize_word\<close>)
      then show ?thesis using True run by simp
    next
      case False
      have "outcome drv S env k rq g s buf p (box rq) (block_rows env k rq (gBX g) (gBY g) p 0 (nWinYOff rq + 0) s buf)"
        by (rule block_rows_ok [OF c]) (use wi start none in simp_all)
      then show ?thesis by (simp only: run False \<open>same_size rq\<close> if_True if_False add_0_right)
    qed
    then obtain e s' buf' where r: "IRasterIO env k rq p buf s = Some (e, s', buf')"
      "if e = CE_None then so_far S env k rq g (window rq) s buf (cell rq p ` box rq) s' buf'
       else e = CE_Failure \<and> (\<exists>w. VSIMalloc drv w (int (block_bytes g (band_word env k))) = None) \<and>
         (\<exists>J \<subseteq> box rq. so_far S env k rq g (window rq) s buf (cell rq p ` J) s' buf')"
      unfolding outcome_def by blast
    show ?thesis
    proof (cases "e = CE_None")
      case None: True
      then show ?thesis using r True by (simp add: request_moves_def)
    next
      case False
      then obtain J where "J \<subseteq> box rq" "so_far S env k rq g (window rq) s buf (cell rq p ` J) s' buf'" using r(2) by auto
      then show ?thesis using r False True image_mono [of J "box rq" "cell rq p"] by (auto simp: request_moves_def)
    qed
  next
    case False
    then have np: "\<not> ?packed" by (auto simp: same_size_def)
    have "pixels_outcome drv S env k rq g s buf ([] @ resampled_pixels env rq p)
        (single_pixels env k rq (gBX g) (gBY g) (resampled_pixels env rq p) None (-1) (-1) s buf)"
      by (rule single_pixels_ok [OF assms(1) win])
        (use assms(3) False wi start in \<open>simp_all add: held_pixel_def request_ok_def\<close>)
    moreover have "IRasterIO env k rq p buf s =
        single_pixels env k rq (gBX g) (gBY g) (resampled_pixels env rq p) None (-1) (-1) s buf"
      by (simp only: run np False if_False)
    ultimately show ?thesis by (simp only: False pixels_outcome_def request_moves_def if_False append_Nil)
  qed
qed

lemma RasterIO_runs_IRasterIO:
  assumes "io_band S env k g B s" and "window_inside (default_spaces rq) B"
  shows "RasterIO env k rq p buf s = IRasterIO env k (default_spaces rq) p buf s"
proof -
  have B: "bands s k = Some B" "nRasterXSize B < 2 ^ 31" "nRasterYSize B < 2 ^ 31" using assms(1) by (auto simp: io_band_def)
  note w = assms(2) [unfolded window_inside_def]
  have "to_i32 (nWinXOff (default_spaces rq) + nWinXSize (default_spaces rq)) =
      nWinXOff (default_spaces rq) + nWinXSize (default_spaces rq)"
    "to_i32 (nWinYOff (default_spaces rq) + nWinYSize (default_spaces rq)) =
      nWinYOff (default_spaces rq) + nWinYSize (default_spaces rq)"
    using w B by (intro to_i32_id; simp)+
  then show ?thesis using w B(1) by (auto simp: RasterIO_eq Let_def)
qed

end

text \<open>The band after the call is like before.\<close>

lemma band_after:
  assumes "io_band S env k g B s" and "so_far S env k rq g W s buf D s' buf'"
  shows "\<exists>B'. io_band S env k g B' s' \<and> nRasterXSize B' = nRasterXSize B \<and> nRasterYSize B' = nRasterYSize B"
proof -
  have io: "io_state S k (gNX g) (gNY g) (block_bytes g (band_word env k)) (layout_of s) s'" using assms(2) by (simp add: so_far_def)
  then have l: "layout_of s' = layout_of s" by (simp add: io_state_def)
  obtain B' where B': "bands s' k = Some B'" using io_stateE [OF io] by metis
  have "layout_of s' k = layout_of s k" by (simp add: l)
  then have e: "B'\<lparr>papoBlocks := None, nBlockReads := 0\<rparr> = B\<lparr>papoBlocks := None, nBlockReads := 0\<rparr>"
    using B' assms(1) by (simp add: layout_of_def io_band_def)
  have "nBlockXSize B' = nBlockXSize B" "nBlockYSize B' = nBlockYSize B" "nRasterXSize B' = nRasterXSize B"
    "nRasterYSize B' = nRasterYSize B"
    using arg_cong [OF e, of nBlockXSize] arg_cong [OF e, of nBlockYSize] arg_cong [OF e, of nRasterXSize]
      arg_cong [OF e, of nRasterYSize] by simp_all
  then show ?thesis using assms(1) io B' l by (intro exI [of _ B']) (simp add: io_band_def)
qed

lemma default_spaces_fields [simp]:
  "eRWFlag (default_spaces rq) = eRWFlag rq" "eBufType (default_spaces rq) = eBufType rq"
  "nWinXOff (default_spaces rq) = nWinXOff rq" "nWinYOff (default_spaces rq) = nWinYOff rq"
  "nWinXSize (default_spaces rq) = nWinXSize rq" "nWinYSize (default_spaces rq) = nWinYSize rq"
  "nBufXSize (default_spaces rq) = nBufXSize rq" "nBufYSize (default_spaces rq) = nBufYSize rq"
  by (simp_all add: default_spaces_def Let_def)

lemma default_spaces_window [simp]: "window (default_spaces rq) = window rq"
  by (simp add: window_def)

context pixel_store
begin

lemma RasterIO_ok:
  assumes "io_ready drv env k (default_spaces rq) g" and "io_band S env k g B s"
    and "request_ok env (default_spaces rq) g B p (length buf)"
  shows "\<exists>e s' buf'. RasterIO env k rq p buf s = Some (e, s', buf') \<and>
    (if e = CE_None
     then so_far S env k (default_spaces rq) g (window rq) s buf (request_moves env (default_spaces rq) p) s' buf'
     else e = CE_Failure \<and> (\<exists>w. VSIMalloc drv w (int (block_bytes g (band_word env k))) = None))"
proof -
  have "window_inside (default_spaces rq) B" using assms(3) by (simp add: request_ok_def)
  from RasterIO_runs_IRasterIO [OF assms(2) this] IRasterIO_ok [OF assms]
  show ?thesis by (auto split: if_splits)
qed

end

section \<open>The in-memory driver\<close>

interpretation mem_pixels: pixel_store "mem_driver malloc" mem_store
proof unfold_locales
  show "fits mem_store w k d \<Longrightarrow> fits mem_store w k d' \<longleftrightarrow> length d' = length d" for w k d d'
    by (auto simp: mem_store_def split: option.splits)
qed

text \<open>A dataset just created has one block to a line.\<close>

definition mem_grid :: "int \<Rightarrow> int \<Rightarrow> grid" where
  "mem_grid x y = \<lparr>gNX = 1, gNY = y, gBX = x, gBY = 1\<rparr>"

lemma InitBlockInfo_sizes:
  "nRasterXSize (snd (InitBlockInfo b)) = nRasterXSize b" "nRasterYSize (snd (InitBlockInfo b)) = nRasterYSize b"
  "nBlockXSize (snd (InitBlockInfo b)) = nBlockXSize b" "nBlockYSize (snd (InitBlockInfo b)) = nBlockYSize b"
  by (simp_all add: InitBlockInfo_def Let_def)

lemma word_bytes: "c_div (GDALGetDataTypeSize e) 8 = int (word_size_of e)"
  by (cases e) (simp_all add: word_size_of_def c_div_def)

lemma created_io_band:
  fixes env :: "mem_world raster_env"
  assumes "MEMDataset_Create alloc x y n e h = Some (Some ds, h')" and "fits_memory e x y" and "fresh_alloc alloc"
    and "sorted_wrt apart (regions h)" and "int k < n" and "eDataType env k = e"
  obtains B where "io_band mem_store env k (mem_grid x y) B (created m e ds h')" "nRasterXSize B = x" "nRasterYSize B = y"
proof -
  let ?s = "created m e ds h'" and ?w = "word_size_of e"
  note ok = created_ok [OF assms(1-4), where m = m, unfolded word_bytes]
  have sz: "0 < x" "x \<le> 2 ^ 30" "0 < y" "y < 2 ^ 30" using assms(2) by (simp_all add: fits_memory_def)
  obtain B where B: "bands ?s k = Some B" "table_ok B" "nBlocksPerRow B = 1" "nBlocksPerColumn B = y"
    "\<And>x' y'. size_in_bytes (fresh_block B k x' y' :: byte list block) = x * int ?w"
    using ok(3) [OF assms(5)] by blast
  have c: "nDSXSize ds = x" "nDSYSize ds = y" using MEMDataset_Create_bands [OF assms(1,2)] by simp_all
  have "B = snd (InitBlockInfo (raster_part e x y))" using B(1) c by (simp add: created_def split: if_splits)
  then have s: "nRasterXSize B = x" "nRasterYSize B = y" "nBlockXSize B = x" "nBlockYSize B = 1"
    by (simp_all add: InitBlockInfo_sizes) (simp_all add: raster_part_def)
  have N: "int (block_bytes (mem_grid x y) ?w) = x * int ?w" using sz by (simp add: block_bytes_def mem_grid_def)
  have "io_state mem_store k 1 y (block_bytes (mem_grid x y) ?w) (layout_of ?s) ?s"
    unfolding io_state_def
  proof (intro conjI exI [of _ "[]"] exI [of _ B] allI impI)
    show "fits mem_store (world ?s) k d \<longleftrightarrow> length d = block_bytes (mem_grid x y) ?w" for d
      using ok(5) [OF assms(5), of d] N by (metis of_nat_eq_iff)
  qed (use ok(1,2,4) B assms(5) N in \<open>auto simp: in_band_def\<close>)
  then have "io_band mem_store env k (mem_grid x y) B ?s"
    using B(1) s sz assms(6) by (simp add: io_band_def mem_grid_def)
  then show thesis using that s by blast
qed

text \<open>At the start every pixel is zero.\<close>

lemma created_pixel:
  assumes "MEMDataset_Create alloc x y n e h = Some (Some ds, h')" and "fits_memory e x y" and "fresh_alloc alloc"
    and "sorted_wrt apart (regions h)" and "int k < n" and "in_grid (mem_grid x y) X Y"
  shows "pixel mem_store k (mem_grid x y) (word_size_of e) (created m e ds h') X Y = replicate (word_size_of e) 0"
proof -
  let ?w = "word_size_of e" and ?g = "mem_grid x y"
  have sz: "0 < gBX ?g" "0 < gBY ?g" using assms(2) by (simp_all add: fits_memory_def mem_grid_def)
  have N: "nat (x * int ?w) = block_bytes ?g ?w"
    using assms(2) by (simp add: block_bytes_def mem_grid_def fits_memory_def nat_mult_distrib)
  have g: "X div x = 0" "0 \<le> Y" "Y < y" using assms(6) by (auto simp: in_grid_def mem_grid_def position_def)
  then have "seen mem_store (created m e ds h') k 0 Y = Some (replicate (block_bytes ?g ?w) 0)"
    using created_ok(6) [OF assms(1-5), where m = m, unfolded word_bytes] N by simp
  moreover have "X div gBX ?g = 0" "Y div gBY ?g = Y" using g by (simp_all add: mem_grid_def)
  ultimately have "pixel mem_store k ?g ?w (created m e ds h') X Y = word_at (replicate (block_bytes ?g ?w) 0) (place ?g ?w X Y) ?w"
    by (simp add: pixel_def)
  also have "?w \<le> block_bytes ?g ?w - nat (place ?g ?w X Y)" using place_range [OF sz, of ?w X Y] by linarith
  then have "word_at (replicate (block_bytes ?g ?w) 0) (place ?g ?w X Y) ?w = replicate ?w 0"
    by (simp add: word_at_def min_def)
  finally show ?thesis .
qed

lemma flag_spaces: "default_spaces (rq\<lparr>eRWFlag := f\<rparr>) = (default_spaces rq)\<lparr>eRWFlag := f\<rparr>"
  by (simp add: default_spaces_def Let_def nBufDataSize_def)

lemma flag_window [simp]: "window (rq\<lparr>eRWFlag := f\<rparr>) = window rq" "box (rq\<lparr>eRWFlag := f\<rparr>) = box rq"
  "cell (rq\<lparr>eRWFlag := f\<rparr>) = cell rq" "same_size (rq\<lparr>eRWFlag := f\<rparr>) = same_size rq"
  "buffer_ok (rq\<lparr>eRWFlag := f\<rparr>) = buffer_ok rq" "window_inside (rq\<lparr>eRWFlag := f\<rparr>) = window_inside rq"
  by (simp_all add: window_def box_def cell_def buf_at_def fun_eq_iff same_size_def buffer_ok_def window_inside_def)

section \<open>Properties\<close>

text \<open>
  C8.  \<open>RasterIO\<close> moves the pixels of its window, through any of its three loops, between a buffer and the cached blocks
  of a band that has no \<open>IRasterIO\<close> of its own, or whose I/O is forced through the cache.  It always returns.  Reading
  changes nothing that is seen of any band, puts the converted pixel in each word of the buffer and leaves all other
  bytes of the buffer alone.  Writing gives each pixel of the window the converted word of the buffer and changes no
  other pixel of the band and no other band, although blocks the window covers are not read first.  The only failure
  is a block for which there is no memory.

  This holds for any shape of blocks and any two known pixel types, under these conditions.  The driver stores blocks: in
  the bands its reads and writes succeed, and a read gives what was written last (\<open>pixel_store\<close>).  The window is
  inside the raster.  Window and buffer have the same size and the buffer has room for its words, which do not overlap;
  or they differ, and the pixel and the word of each step, which the \<^verbatim>\<open>double\<close> expressions give, lie in window and
  buffer, the words read into not overlapping, the pixels written being different.  A resampled write
  does not leave a block that the window covers and enter it again (otherwise lines are lost: lemma
  \<open>RasterIO_stretch_loses_lines\<close>).  A read to a smaller buffer finds no overviews.
\<close>

theorem RasterIO_moves_window:
  assumes "pixel_store drv S" and "bForceCachedIO \<or> virtual_IRasterIO = IRasterIO env" and "d = default_spaces rq"
    and "io_ready drv env k d g" and "io_band S env k g B s" and "window_inside d B"
    and "if same_size d then buffer_ok d p (length buf)
      else moves_fit d (length buf) (resampled_pixels env d p) \<and>
        (eRWFlag d = GF_Read \<or> covered_once d g (resampled_pixels env d p))"
    and "OverviewRasterIO env = None \<or> eRWFlag d = GF_Write \<or> nWinXSize d \<le> nBufXSize d \<and> nWinYSize d \<le> nBufYSize d"
  shows "\<exists>e s' buf'. GDALRasterBand_RasterIO bForceCachedIO virtual_IRasterIO env k rq p buf s = Some (e, s', buf') \<and>
    (if e = CE_None
     then if eRWFlag d = GF_Read
       then read_so_far S env k d g s buf (request_moves env d p) s' buf'
       else written_so_far S env k d g (window d) s buf (request_moves env d p) s' buf'
     else e = CE_Failure \<and> (\<exists>w. VSIMalloc drv w (int (block_bytes g (band_word env k))) = None))"
proof -
  have "request_ok env d g B p (length buf)" using assms(6-8) by (simp add: request_ok_def moves_ok_def)
  then show ?thesis
    using pixel_store.RasterIO_ok [OF assms(1) assms(4) [unfolded assms(3)] assms(5)]
    unfolding RasterIO_cached [OF assms(2)] assms(3) by (fastforce simp: so_far_def split: if_splits)
qed

text \<open>
  C9.  On a dataset created in memory, what \<open>RasterIO\<close> writes to a window from a buffer of the same size it reads back: each word of the second
  buffer is the word written, converted to the type of the band and back; pixels outside the window are still zero, and
  all this for any types, any window inside the raster, any layout of the buffer, and any limit of the cache.
\<close>

theorem MEM_RasterIO_roundtrip:
  fixes env :: "mem_world raster_env"
  assumes "MEMDataset_Create alloc x y n e h = Some (Some ds, h')" and "fits_memory e x y" and "fresh_alloc alloc"
    and "sorted_wrt apart (regions h)" and "int k < n"
    and "\<forall>w. \<exists>d. malloc w (x * int (word_size_of e)) = Some d \<and> int (length d) = x * int (word_size_of e)"
    and "the_driver env = mem_driver malloc" and "eDataType env k = e" and "via_fits (via_double env)"
    and "eBufType rq \<noteq> GDT_Unknown" and "same_size rq" and "0 < nWinXSize rq" and "0 < nWinYSize rq"
    and "0 \<le> nWinXOff rq" and "nWinXOff rq + nWinXSize rq \<le> x" and "0 \<le> nWinYOff rq" and "nWinYOff rq + nWinYSize rq \<le> y"
    and "buffer_ok (default_spaces rq) p (length buf)" and "length buf2 = length buf"
  shows "\<exists>s1 s2 buf3. RasterIO env k (rq\<lparr>eRWFlag := GF_Write\<rparr>) p buf (created m e ds h') = Some (CE_None, s1, buf) \<and>
    RasterIO env k (rq\<lparr>eRWFlag := GF_Read\<rparr>) p buf2 s1 = Some (CE_None, s2, buf3) \<and>
    (\<forall>(i, j) \<in> box rq.
       word_at buf3 (buf_at (default_spaces rq) p i j) (buf_word rq) =
       pixel_map (via_double env) e (eBufType rq)
         (pixel_map (via_double env) (eBufType rq) e (word_at buf (buf_at (default_spaces rq) p i j) (buf_word rq)))) \<and>
    (\<forall>X Y. in_grid (mem_grid x y) X Y \<longrightarrow> (X, Y) \<notin> window rq \<longrightarrow>
       pixel mem_store k (mem_grid x y) (word_size_of e) s1 X Y = replicate (word_size_of e) 0)"
proof -
  let ?g = "mem_grid x y" and ?w = "word_size_of e" and ?u = "buf_word rq" and ?s = "created m e ds h'"
  let ?d = "default_spaces rq" and ?at = "buf_at (default_spaces rq) p"
  obtain B where B: "io_band mem_store env k ?g B ?s" "nRasterXSize B = x" "nRasterYSize B = y"
    using created_io_band [OF assms(1-5,8)] .
  have sz: "0 < x" "0 < y" "c_div (GDALGetDataTypeSize e) 8 * x < 2 ^ 31" "e \<noteq> GDT_Unknown"
    using assms(2) by (simp_all add: fits_memory_def)
  have N: "int (block_bytes ?g ?w) = x * int ?w" using sz by (simp add: block_bytes_def mem_grid_def)
  have "length d = block_bytes ?g ?w" if "malloc w (x * int ?w) = Some d" for w d
    using assms(6) that N by (metis of_nat_eq_iff option.inject)
  then have ready: "io_ready (mem_driver malloc) env k (?d\<lparr>eRWFlag := f\<rparr>) ?g" for f
    using assms(7-10) sz N unfolding io_ready_def
    by (simp add: mem_grid_def mem_driver_malloc word_bytes mult.commute)
  have no_fail: "malloc w (x * int ?w) \<noteq> None" for w using assms(6) by (metis option.distinct(1))
  have rq: "request_ok env (?d\<lparr>eRWFlag := f\<rparr>) ?g B' p (length buf)" if "nRasterXSize B' = x" "nRasterYSize B' = y" for f B'
    using assms(11-18) that unfolding request_ok_def
    by (simp add: window_inside_def same_size_def)
  have moves: "request_moves env (?d\<lparr>eRWFlag := f\<rparr>) p = cell ?d p ` box rq" for f
    using assms(11) by (simp add: request_moves_def box_def same_size_def)
  obtain s1 buf1 where wr: "RasterIO env k (rq\<lparr>eRWFlag := GF_Write\<rparr>) p buf ?s = Some (CE_None, s1, buf1)"
    "so_far mem_store env k (?d\<lparr>eRWFlag := GF_Write\<rparr>) ?g (window rq) ?s buf (cell ?d p ` box rq) s1 buf1"
    using mem_pixels.RasterIO_ok [of malloc env k "rq\<lparr>eRWFlag := GF_Write\<rparr>", unfolded flag_spaces, OF ready B(1) rq [OF B(2,3)]]
      no_fail assms(8) N by (auto simp: moves mem_driver_malloc split: if_splits)
  obtain B1 where B1: "io_band mem_store env k ?g B1 s1" "nRasterXSize B1 = x" "nRasterYSize B1 = y"
    using band_after [OF B(1) wr(2)] B(2,3) by auto
  have len: "length buf2 = length buf" by (rule assms(19))
  obtain s2 buf3 where rd: "RasterIO env k (rq\<lparr>eRWFlag := GF_Read\<rparr>) p buf2 s1 = Some (CE_None, s2, buf3)"
    "so_far mem_store env k (?d\<lparr>eRWFlag := GF_Read\<rparr>) ?g (window rq) s1 buf2 (cell ?d p ` box rq) s2 buf3"
    using mem_pixels.RasterIO_ok [of malloc env k "rq\<lparr>eRWFlag := GF_Read\<rparr>", unfolded flag_spaces, OF ready B1(1)
        rq [OF B1(2,3), folded len]]
      no_fail assms(8) N by (auto simp: moves mem_driver_malloc split: if_splits)
  have W: "buf1 = buf" "\<forall>X Y. in_grid ?g X Y \<longrightarrow> (X, Y) \<notin> window rq \<longrightarrow> pixel mem_store k ?g ?w s1 X Y = pixel mem_store k ?g ?w ?s X Y"
    "\<forall>(X, Y, q) \<in> cell ?d p ` box rq. pixel mem_store k ?g ?w s1 X Y =
       pixel_map (via_double env) (eBufType rq) e (word_at buf q ?u)"
    using wr(2) assms(8) by (simp_all add: so_far_def written_so_far_def)
  have R: "\<forall>(X, Y, q) \<in> cell ?d p ` box rq. word_at buf3 q ?u =
       pixel_map (via_double env) e (eBufType rq) (pixel mem_store k ?g ?w s1 X Y)"
    using rd(2) assms(8) by (simp add: so_far_def read_so_far_def)
  have "\<forall>(i, j) \<in> box rq. word_at buf3 (?at i j) ?u =
      pixel_map (via_double env) e (eBufType rq) (pixel_map (via_double env) (eBufType rq) e (word_at buf (?at i j) ?u))"
    using W(3) R by (fastforce simp: cell_def)
  moreover have "\<forall>X Y. in_grid ?g X Y \<longrightarrow> (X, Y) \<notin> window rq \<longrightarrow> pixel mem_store k ?g ?w s1 X Y = replicate ?w 0"
    using W(2) created_pixel [OF assms(1-5)] by simp
  ultimately show ?thesis using wr(1) rd(1) W(1) by blast
qed

text \<open>The witnesses: two by two pixels of a raster of three by two, written from 16 bit words.\<close>

definition small_env :: "mem_world raster_env" where
  "small_env =
     \<lparr>the_driver = mem_driver small_malloc, eDataType = (\<lambda>k. GDT_Byte),
      via_double = (\<lambda>e e' bs. replicate (word_size_of e') 0), OverviewRasterIO = None,
      source_x = (\<lambda>rq i. i), source_y = (\<lambda>rq j. j), buffer_x = (\<lambda>rq X. X), buffer_y = (\<lambda>rq Y. Y)\<rparr>"

definition small_request :: request where
  "small_request =
     \<lparr>eRWFlag = GF_Write, nWinXOff = 1, nWinYOff = 0, nWinXSize = 2, nWinYSize = 2, nBufXSize = 2, nBufYSize = 2,
      eBufType = GDT_UInt16, nPixelSpace = 0, nLineSpace = 0\<rparr>"

lemma small_spaces: "default_spaces small_request = small_request\<lparr>nPixelSpace := 2, nLineSpace := 4\<rparr>"
  by (simp add: default_spaces_def small_request_def nBufDataSize_def to_i32_def c_div_def)

lemma small_buffer: "buffer_ok (default_spaces small_request) 0 8" "same_size small_request"
  "buf_at (default_spaces small_request) 0 i j = 4 * j + 2 * i" "buf_word small_request = 2"
  "box small_request = {0, 1} \<times> {0, 1}"
proof -
  show at: "buf_at (default_spaces small_request) 0 i j = 4 * j + 2 * i" for i j
    by (simp add: buf_at_def small_spaces)
  show w: "buf_word small_request = 2" by (simp add: small_request_def word_size_of_def)
  show b: "box small_request = {0, 1} \<times> {0, 1}" by (auto simp: box_def small_request_def)
  have "box (default_spaces small_request) = {0, 1} \<times> {0, 1}" using b by (simp add: box_def)
  then show "buffer_ok (default_spaces small_request) 0 8"
    by (simp add: buffer_ok_def at w clear_of_def) (simp add: small_spaces, simp add: small_request_def)
  show "same_size small_request" by (simp add: same_size_def small_request_def)
qed

lemma small_pixel_map:
  "pixel_map (via_double small_env) GDT_UInt16 GDT_Byte [v, 0] = [v]" "pixel_map (via_double small_env) GDT_Byte GDT_UInt16 [v] = [v, 0]"
proof -
  have v: "0 \<le> uint v" "uint v < 256" using unsigned_le_range [of "[v]"] by simp_all
  then have "(word_of_int (uint v div 256) :: byte) = 0" by (simp add: div_pos_pos_trivial)
  then show "pixel_map (via_double small_env) GDT_UInt16 GDT_Byte [v, 0] = [v]"
    "pixel_map (via_double small_env) GDT_Byte GDT_UInt16 [v] = [v, 0]"
    using v by (simp_all add: pixel_map_def convert_word_def direct_word_def fetch_word_def from_UInt16_def from_Byte_def numeral_2_eq_2)
qed

theorem MEM_RasterIO_roundtrip_witness:
  "\<exists>s0 s1 s2 buf3. RasterIO small_env 0 (small_request\<lparr>eRWFlag := GF_Write\<rparr>) 0 [5, 0, 6, 0, 7, 0, 8, 0] s0 =
       Some (CE_None, s1, [5, 0, 6, 0, 7, 0, 8, 0]) \<and>
     RasterIO small_env 0 (small_request\<lparr>eRWFlag := GF_Read\<rparr>) 0 [9, 9, 9, 9, 9, 9, 9, 9] s1 = Some (CE_None, s2, buf3) \<and>
     word_at buf3 2 2 = [6, 0] \<and> word_at buf3 4 2 = [7, 0]"
proof -
  let ?buf = "[5, 0, 6, 0, 7, 0, 8, 0] :: octets" and ?buf2 = "[9, 9, 9, 9, 9, 9, 9, 9] :: octets"
  obtain ds h' where c: "MEMDataset_Create next_free 3 2 1 GDT_Byte small_heap = Some (Some ds, h')"
    "fits_memory GDT_Byte 3 2" "sorted_wrt apart (regions small_heap)"
    by (rule small_created)
  have m: "\<forall>w. \<exists>d. small_malloc w (3 * int (word_size_of GDT_Byte)) = Some d \<and> int (length d) = 3 * int (word_size_of GDT_Byte)"
    by (simp add: small_malloc_def)
  have e: "the_driver small_env = mem_driver small_malloc" "eDataType small_env 0 = GDT_Byte" "via_fits (via_double small_env)"
    by (simp_all add: small_env_def via_fits_def)
  have r: "eBufType small_request \<noteq> GDT_Unknown" "0 < nWinXSize small_request" "0 < nWinYSize small_request"
    "0 \<le> nWinXOff small_request" "nWinXOff small_request + nWinXSize small_request \<le> 3"
    "0 \<le> nWinYOff small_request" "nWinYOff small_request + nWinYSize small_request \<le> 2"
    by (simp_all add: small_request_def)
  have eight: "length ?buf = 8" by simp
  have l: "buffer_ok (default_spaces small_request) 0 (length ?buf)" "length ?buf2 = length ?buf"
    unfolding eight using small_buffer(1) by simp_all
  have k: "int 0 < 1" by simp
  have t: "eBufType small_request = GDT_UInt16" "word_size_of GDT_UInt16 = 2"
    by (simp_all add: small_request_def word_size_of_def)
  obtain s1 s2 buf3 where
    "RasterIO small_env 0 (small_request\<lparr>eRWFlag := GF_Write\<rparr>) 0 ?buf (created 0 GDT_Byte ds h') = Some (CE_None, s1, ?buf)"
    "RasterIO small_env 0 (small_request\<lparr>eRWFlag := GF_Read\<rparr>) 0 ?buf2 s1 = Some (CE_None, s2, buf3)"
    "\<forall>(i, j) \<in> {0, 1} \<times> {0, 1}. word_at buf3 (4 * j + 2 * i) 2 =
       pixel_map (via_double small_env) GDT_Byte GDT_UInt16
         (pixel_map (via_double small_env) GDT_UInt16 GDT_Byte (word_at ?buf (4 * j + 2 * i) 2))"
    using MEM_RasterIO_roundtrip [OF c(1,2) next_free_fresh c(3) k m e r(1) small_buffer(2) r(2-7) l, of 0]
    unfolding small_buffer(3-5) t by blast
  moreover from this(3) have "word_at buf3 2 2 = [6, 0]" "word_at buf3 4 2 = [7, 0]"
    by (simp_all add: word_at_def small_pixel_map)
  ultimately show ?thesis by blast
qed

theorem RasterIO_moves_window_witness:
  "\<exists>s0 s1. RasterIO small_env 0 small_request 0 [5, 0, 6, 0, 7, 0, 8, 0] s0 = Some (CE_None, s1, [5, 0, 6, 0, 7, 0, 8, 0]) \<and>
     pixel mem_store 0 (mem_grid 3 2) 1 s1 2 1 = [8]"
proof -
  let ?buf = "[5, 0, 6, 0, 7, 0, 8, 0] :: octets" and ?d = "default_spaces small_request"
  obtain ds h' where c: "MEMDataset_Create next_free 3 2 1 GDT_Byte small_heap = Some (Some ds, h')"
    "fits_memory GDT_Byte 3 2" "sorted_wrt apart (regions small_heap)"
    by (rule small_created)
  have k: "int 0 < 1" by simp
  have e: "eDataType small_env 0 = GDT_Byte" by (simp add: small_env_def)
  obtain B where B: "io_band mem_store small_env 0 (mem_grid 3 2) B (created 0 GDT_Byte ds h')" "nRasterXSize B = 3"
    "nRasterYSize B = 2"
    using created_io_band [OF c(1,2) next_free_fresh c(3) k e] .
  have w: "word_size_of GDT_UInt16 = 2" "word_size_of GDT_Byte = 1" by (simp_all add: word_size_of_def)
  have N: "block_bytes (mem_grid 3 2) 1 = 3" by (simp add: block_bytes_def mem_grid_def)
  have "via_fits (via_double small_env)" by (simp add: small_env_def via_fits_def)
  then have ready: "io_ready (mem_driver small_malloc) small_env 0 ?d (mem_grid 3 2)"
    by (simp add: io_ready_def e w N mem_driver_malloc small_malloc_def)
      (simp add: small_env_def small_request_def mem_grid_def)
  have eight: "length ?buf = 8" by simp
  have inside: "window_inside ?d B"
    using B(2,3) by (simp add: window_inside_def) (simp add: small_request_def)
  have room: "if same_size ?d then buffer_ok ?d 0 (length ?buf)
      else moves_fit ?d (length ?buf) (resampled_pixels small_env ?d 0) \<and>
        (eRWFlag ?d = GF_Read \<or> covered_once ?d (mem_grid 3 2) (resampled_pixels small_env ?d 0))"
    unfolding eight using small_buffer(1,2) by (simp add: same_size_def)
  have view: "OverviewRasterIO small_env = None \<or> eRWFlag ?d = GF_Write \<or> nWinXSize ?d \<le> nBufXSize ?d \<and> nWinYSize ?d \<le> nBufYSize ?d"
    by (simp add: small_env_def)
  have t: "eRWFlag small_request = GF_Write" "eBufType small_request = GDT_UInt16" by (simp_all add: small_request_def)
  have mem: "small_malloc v n \<noteq> None" for v n by (simp add: small_malloc_def)
  obtain s1 buf' where r: "RasterIO small_env 0 small_request 0 ?buf (created 0 GDT_Byte ds h') = Some (CE_None, s1, buf')"
    "written_so_far mem_store small_env 0 ?d (mem_grid 3 2) (window small_request) (created 0 GDT_Byte ds h') ?buf
       (request_moves small_env ?d 0) s1 buf'"
    using RasterIO_moves_window [OF mem_pixels.pixel_store_axioms disjI2 [OF refl] refl ready B(1) inside room view, of False] mem
    by (auto simp: t mem_driver_malloc RasterIO_def [symmetric] split: if_splits)
  have "box ?d = box small_request" by (simp add: box_def)
  then have "(1, 1) \<in> box ?d" using small_buffer(5) by simp
  then have "cell ?d 0 (1, 1) \<in> request_moves small_env ?d 0"
    using small_buffer(2) by (simp add: request_moves_def same_size_def)
  moreover have "cell ?d 0 (1, 1) = (2, 1, 6)" using small_buffer(3) by (simp add: cell_def) (simp add: small_request_def)
  ultimately have "pixel mem_store 0 (mem_grid 3 2) 1 s1 2 1 = pixel_map (via_double small_env) GDT_UInt16 GDT_Byte (word_at ?buf 6 2)"
    using r(2) by (auto simp: written_so_far_def e w t)
  moreover have "buf' = ?buf" using r(2) by (simp add: written_so_far_def)
  ultimately show ?thesis using r(1) by (auto simp: word_at_def small_pixel_map)
qed

end
