(* ===== verification/Raster_Io_Errors.thy ===== *)
theory Raster_Io_Errors
  imports Raster_Io_Windows
begin

text \<open>
  Where \<open>RasterIO\<close> fails: resampled writing over several blocks while the cache is small, and the overflow of the check of
  the window.
\<close>

section \<open>Blocks that are entered again\<close>

text \<open>A raster of four by two bytes in two square blocks, with a driver that keeps its blocks in a map.\<close>

definition tile_driver :: "(octets, int \<times> int \<Rightarrow> octets) driver" where
  "tile_driver =
     \<lparr>IReadBlock = (\<lambda>k x y d w. (CE_None, w (x, y), w)),
      IWriteBlock = (\<lambda>k x y p w. case p of None \<Rightarrow> (CE_Failure, w) | Some d \<Rightarrow> (CE_None, w((x, y) := d))),
      VSIMalloc = (\<lambda>w n. Some (replicate (nat n) 0))\<rparr>"

definition tile_env :: "(int \<times> int \<Rightarrow> octets) raster_env" where
  "tile_env =
     \<lparr>the_driver = tile_driver, eDataType = (\<lambda>k. GDT_Byte), via_double = (\<lambda>e e' bs. replicate (word_size_of e') 0),
      OverviewRasterIO = None,
      source_x = (\<lambda>rq i. nWinXOff rq + (2 * i + 1) * nWinXSize rq div (2 * nBufXSize rq)),
      source_y = (\<lambda>rq j. nWinYOff rq + (2 * j + 1) * nWinYSize rq div (2 * nBufYSize rq)),
      buffer_x = (\<lambda>rq X. (X - nWinXOff rq) * nBufXSize rq div nWinXSize rq),
      buffer_y = (\<lambda>rq Y. (Y - nWinYOff rq) * nBufYSize rq div nWinYSize rq)\<rparr>"

definition tile_state :: "int \<Rightarrow> (octets, int \<times> int \<Rightarrow> octets) gdal" where
  "tile_state nMax =
     \<lparr>heap_blocks = Map.empty, poNewest = None, poOldest = None, next_address = 0, nCacheUsed = 0, nCacheMax = nMax,
      bCacheMaxInitialized = True, GDAL_CACHEMAX = None,
      bands = [0 \<mapsto> snd (InitBlockInfo (GDALRasterBand\<lparr>nRasterXSize := 4, nRasterYSize := 2, nBlockXSize := 2,
        nBlockYSize := 2, nDataTypeBits := 8, bReadOnly := False\<rparr>))],
      world = (\<lambda>p. [9, 9, 9, 9])\<rparr>"

definition tile_request :: "GDALRWFlag \<Rightarrow> int \<Rightarrow> request" where
  "tile_request f nBufLines =
     \<lparr>eRWFlag = f, nWinXOff = 0, nWinYOff = 0, nWinXSize = 4, nWinYSize = 2, nBufXSize = 4, nBufYSize = nBufLines,
      eBufType = GDT_Byte, nPixelSpace = 0, nLineSpace = 0\<rparr>"

text \<open>One line is written to both lines of the raster; then the raster is read.\<close>

definition stretch_and_read :: "int \<Rightarrow> (CPLErr \<times> CPLErr \<times> octets) option" where
  "stretch_and_read nMax = do {
     (e1, s, buf) \<leftarrow> RasterIO tile_env 0 (tile_request GF_Write 1) 0 [1, 2, 3, 4] (tile_state nMax);
     (e2, s, buf) \<leftarrow> RasterIO tile_env 0 (tile_request GF_Read 2) 0 (replicate 8 7) s;
     Some (e1, e2, buf)
   }"

text \<open>The driver meets the contract.\<close>

definition tile_store :: "(octets, int \<times> int \<Rightarrow> octets) store" where
  "tile_store =
     \<lparr>valid = (\<lambda>w. \<forall>p. length (w p) = 4), inside = (\<lambda>w k x y. k = 0 \<and> 0 \<le> x \<and> x < 2 \<and> y = 0),
      fits = (\<lambda>w k d. length d = 4), stored = (\<lambda>w k x y. w (x, y))\<rparr>"

lemma tile_contract: "pixel_store tile_driver tile_store"
  by unfold_locales (auto simp: tile_driver_def tile_store_def same_shape_def)

declare flush_loop.simps [code] find_unlocked.simps [code] block_rows.simps [code] block_columns.simps [code]

text \<open>
  Resampled writing loses lines.  \<open>RasterIO\<close> writes a line of four bytes to the two lines of a raster whose
  blocks are two bytes wide, so that each block is entered once for each line.  With room for both blocks in the
  cache all is well; with room for one, a block is evicted between the lines, is not read again because the window covers it
  (\<^verbatim>\<open>bJustInitialize\<close>), and the first line is lost although every call returns \<^verbatim>\<open>CE_None\<close>.
\<close>

theorem RasterIO_stretch_loses_lines:
  "pixel_store tile_driver tile_store \<and>
   stretch_and_read 8 = Some (CE_None, CE_None, [1, 2, 3, 4, 1, 2, 3, 4]) \<and>
   stretch_and_read 4 = Some (CE_None, CE_None, [0, 0, 0, 0, 1, 2, 3, 4])"
proof (intro conjI)
  show "pixel_store tile_driver tile_store" by (rule tile_contract)
  show "stretch_and_read 8 = Some (CE_None, CE_None, [1, 2, 3, 4, 1, 2, 3, 4])" by code_simp
  show "stretch_and_read 4 = Some (CE_None, CE_None, [0, 0, 0, 0, 1, 2, 3, 4])" by code_simp
qed

section \<open>The check of the window\<close>

lemma whole_lines_one:
  assumes "lock_block env k rq 0 0 j s = Some (Some a, s1)" and "nWinYOff rq = 0"
    and "j \<longleftrightarrow> eRWFlag rq = GF_Write \<and> nWinXOff rq = 0 \<and> nWinXSize rq = bX \<and> covers_lines rq 1 0"
    and "copy_line env k rq (eDataType env k = eBufType rq) (nBufXSize rq) (nLineSpace rq) a
        (to_i32 (nWinXOff rq * nBandDataSize env k)) p s1 buf = None"
  shows "whole_lines env k rq bX 1 p 0 (Suc 0) None (-1) s buf = None"
proof -
  have e: "edge 0 1 = 0" "edge (-1) 1 = -1" "to_i32 0 = 0" "c_div 0 1 = 0" by (simp_all add: edge_def to_i32_def c_div_def)
  have "lock_block env k rq 0 0 (eRWFlag rq = GF_Write \<and> nWinXOff rq = 0 \<and> nWinXSize rq = bX \<and> covers_lines rq 1 0) s =
      Some (Some a, s1)" using assms(1,3) by simp
  then show ?thesis using assms(2,4) by (simp add: e unlock_def)
qed

text \<open>
  C39.  The check of the window overflows.  A window that starts at column \<^verbatim>\<open>INT_MAX\<close> passes it, because the
  sum of offset and size wraps around, and reading one pixel of a dataset in memory accesses memory outside of the
  block.
\<close>

theorem MEM_RasterIO_window_overflows:
  fixes env :: "mem_world raster_env"
  assumes "MEMDataset_Create alloc x y n e h = Some (Some ds, h')" and "fits_memory e x y" and "fresh_alloc alloc"
    and "sorted_wrt apart (regions h)" and "int k < n"
    and "\<forall>w. \<exists>d. malloc w (x * int (word_size_of e)) = Some d \<and> int (length d) = x * int (word_size_of e)"
    and "the_driver env = mem_driver malloc" and "eDataType env k = e" and "via_fits (via_double env)"
    and "rq = \<lparr>eRWFlag = GF_Read, nWinXOff = 2 ^ 31 - 1, nWinYOff = 0, nWinXSize = 1, nWinYSize = 1, nBufXSize = 1,
        nBufYSize = 1, eBufType = e, nPixelSpace = 0, nLineSpace = 0\<rparr>"
  shows "RasterIO env k rq p buf (created m e ds h') = None"
proof -
  let ?g = "mem_grid x y" and ?w = "word_size_of e" and ?s = "created m e ds h'"
  let ?d = "rq\<lparr>nPixelSpace := int ?w, nLineSpace := int ?w\<rparr>"
  obtain B where B: "io_band mem_store env k ?g B ?s" "nRasterXSize B = x" "nRasterYSize B = y"
    using created_io_band [OF assms(1-5,8)] .
  have b: "bands ?s k = Some B" "nBlockXSize B = x" "nBlockYSize B = 1"
    "io_state mem_store k 1 y (block_bytes ?g ?w) (layout_of ?s) ?s"
    using B(1) assms(8) by (simp_all add: io_band_def mem_grid_def)
  have sz: "0 < x" "0 < y" "c_div (GDALGetDataTypeSize e) 8 * x < 2 ^ 31" "e \<noteq> GDT_Unknown" "x \<le> 2 ^ 30"
    using assms(2) by (simp_all add: fits_memory_def)
  have N: "int (block_bytes ?g ?w) = x * int ?w" using sz by (simp add: block_bytes_def mem_grid_def)
  have "length d = block_bytes ?g ?w" if "malloc w (x * int ?w) = Some d" for w d
    using assms(6) that N by (metis of_nat_eq_iff option.inject)
  then have ready: "io_ready (mem_driver malloc) env k ?d ?g"
    using assms(7-10) sz N unfolding io_ready_def by (simp add: mem_grid_def mem_driver_malloc word_bytes mult.commute)
  have w: "0 < ?w" "int ?w < 2 ^ 31" using sz(4) word_size_of_pos word_size_small by auto
  have d: "default_spaces rq = ?d"
    using w by (simp add: default_spaces_def Let_def nBufDataSize_word assms(10) to_i32_id)
  have st: "so_far mem_store env k ?d ?g UNIV ?s buf {} ?s buf"
    using b(4) assms(8) by (intro so_far_start) (simp add: mem_grid_def)
  have pos: "position (gNX ?g) (gNY ?g) 0 0" using sz by (simp add: position_def mem_grid_def)
  have "malloc (world ?s) (x * int ?w) \<noteq> None" using assms(6) by (metis option.distinct(1))
  moreover obtain q s1 where "lock_block env k ?d 0 0 False ?s = Some (q, s1)"
    "so_far mem_store env k ?d ?g UNIV ?s buf {} s1 buf"
    "case q of None \<Rightarrow> malloc (world ?s) (x * int ?w) = None | Some a \<Rightarrow> at_hand k 0 0 (eRWFlag ?d = GF_Write) a s1"
    using mem_pixels.lock_ok [OF ready st pos, of False] unfolding assms(8) N mem_driver_malloc by blast
  ultimately obtain a s1 where l: "lock_block env k ?d 0 0 False ?s = Some (Some a, s1)"
    "at_hand k 0 0 (eRWFlag ?d = GF_Write) a s1" "so_far mem_store env k ?d ?g UNIV ?s buf {} s1 buf"
    by (cases q) auto
  obtain bl c where bl: "block_at a s1 = Some bl" "pData bl = Some c" "seen mem_store s1 k 0 0 = Some c"
    using mem_pixels.at_hand_block [OF l(2)] by blast
  obtain c' where "seen mem_store s1 k 0 0 = Some c'" "length c' = block_bytes ?g ?w"
    using mem_pixels.seen_length [OF so_far_state [OF l(3)] pos] assms(8) by auto
  then have len: "int (length c) = x * int ?w" using bl(3) N by simp
  let ?off = "to_i32 ((2 ^ 31 - 1) * int ?w)"
  have "?off < 0 \<or> ?off = 2 ^ 31 - 1 \<and> ?w = 1"
    using sz(4) by (cases e) (simp_all add: word_size_of_def to_i32_def)
  then have "load_bytes c ?off ?w = None" using len sz(5) by (auto simp: load_bytes_def)
  then have "copy_line env k ?d (eDataType env k = eBufType ?d) (nBufXSize ?d) (nLineSpace ?d) a
      (to_i32 (nWinXOff ?d * nBandDataSize env k)) p s1 buf = None"
    using bl(1,2) assms(8) by (simp add: copy_line_def copy_block_def mem_copy_def nBandDataSize_word assms(10))
  then have "whole_lines env k ?d x 1 p 0 (Suc 0) None (-1) ?s buf = None"
    by (intro whole_lines_one [OF l(1)]) (simp_all add: assms(10))
  moreover have "RasterIO env k rq p buf ?s = IRasterIO env k ?d p buf ?s"
    unfolding RasterIO_eq Let_def d using b(1) B(2,3) sz by (simp add: assms(10) to_i32_def)
  moreover have "IRasterIO env k ?d p buf ?s = whole_lines env k ?d x 1 p 0 (Suc 0) None (-1) ?s buf"
    using b B(2) w by (simp add: IRasterIO_def assms(10) nBufDataSize_word to_i32_id)
  ultimately show ?thesis by simp
qed

theorem MEM_RasterIO_window_overflows_witness:
  "\<exists>s. RasterIO small_env 0
     \<lparr>eRWFlag = GF_Read, nWinXOff = 2 ^ 31 - 1, nWinYOff = 0, nWinXSize = 1, nWinYSize = 1, nBufXSize = 1, nBufYSize = 1,
      eBufType = GDT_Byte, nPixelSpace = 0, nLineSpace = 0\<rparr> 0 [7] s = None \<and> bands s 0 \<noteq> None"
proof -
  obtain ds h' where c: "MEMDataset_Create next_free 3 2 1 GDT_Byte small_heap = Some (Some ds, h')"
    "fits_memory GDT_Byte 3 2" "sorted_wrt apart (regions small_heap)"
    by (rule small_created)
  have k: "int 0 < 1" by simp
  have m: "\<forall>w. \<exists>d. small_malloc w (3 * int (word_size_of GDT_Byte)) = Some d \<and> int (length d) = 3 * int (word_size_of GDT_Byte)"
    by (simp add: small_malloc_def)
  have e: "the_driver small_env = mem_driver small_malloc" "eDataType small_env 0 = GDT_Byte" "via_fits (via_double small_env)"
    by (simp_all add: small_env_def via_fits_def)
  have "bands (created 0 GDT_Byte ds h') 0 \<noteq> None"
    using created_ok(3) [OF c(1,2) next_free_fresh c(3), where m = 0 and k = 0] by auto
  then show ?thesis
    using MEM_RasterIO_window_overflows [OF c(1,2) next_free_fresh c(3) k m e refl, where p = 0 and buf = "[7]" and m = 0] by blast
qed

end
