(* ===== verification/Vsi_Mem.thy ===== *)
theory Vsi_Mem
  imports Pixel_Copy Csl
begin

text \<open>
  The file system in memory, \<^verbatim>\<open>port/cpl_vsi_mem.cpp\<close>, and the part of \<^verbatim>\<open>port/cpl_vsil.cpp\<close> that
  finds the handler of a path and closes files.

  Files, handles and the buffers that hold the bytes of files live on heaps; a pointer is a
  number, and a pointer whose object has been deleted leads nowhere, so that using it is a fault.
  Buffers are objects of their own because callers keep pointers to them: \<open>VSIFileFromMemBuffer\<close>
  takes one in and \<open>VSIGetMemFileBuffer\<close> gives one out.  Addresses are not used twice.
\<close>

section \<open>The state\<close>

datatype errno = ENOENT | EACCES | EISDIR | EEXIST | EINVAL

record mem_file =
  osFilename :: cstring
  nRefCount :: int
  bIsDirectory :: bool
  bOwnData :: bool
  file_data :: "nat option"
  nLength :: int
  nAllocLength :: int

record mem_handle =
  poFile :: "nat option"
  nOffset :: int
  bUpdate :: bool

record mem_fs =
  oFileList :: "(cstring \<times> nat) list"
  files :: "nat \<Rightarrow> mem_file option"
  handles :: "nat \<Rightarrow> mem_handle option"
  buffers :: "nat \<Rightarrow> octets option"
  next_id :: nat
  errno_set :: "errno option"

definition VSIMemFile_new :: mem_file where
  "VSIMemFile_new = \<lparr>osFilename = [], nRefCount = 0, bIsDirectory = False, bOwnData = True,
     file_data = None, nLength = 0, nAllocLength = 0\<rparr>"

definition VSIMemFilesystemHandler_new :: mem_fs where
  "VSIMemFilesystemHandler_new = \<lparr>oFileList = [], files = (\<lambda>_. None), handles = (\<lambda>_. None),
     buffers = (\<lambda>_. None), next_id = 0, errno_set = None\<rparr>"

definition set_file :: "nat \<Rightarrow> mem_file \<Rightarrow> mem_fs \<Rightarrow> mem_fs" where
  "set_file a f fs = fs\<lparr>files := (files fs)(a \<mapsto> f)\<rparr>"

definition set_handle :: "nat \<Rightarrow> mem_handle \<Rightarrow> mem_fs \<Rightarrow> mem_fs" where
  "set_handle h hnd fs = fs\<lparr>handles := (handles fs)(h \<mapsto> hnd)\<rparr>"

definition failed :: "errno \<Rightarrow> mem_fs \<Rightarrow> mem_fs" where
  "failed e fs = fs\<lparr>errno_set := Some e\<rparr>"

text \<open>The bytes behind a pointer; behind NULL there are none.\<close>

definition bytes_at :: "nat option \<Rightarrow> mem_fs \<Rightarrow> octets option" where
  "bytes_at p fs = (case p of None \<Rightarrow> Some [] | Some b \<Rightarrow> buffers fs b)"

section \<open>Memory\<close>

text \<open>\<^verbatim>\<open>malloc\<close> and \<^verbatim>\<open>realloc\<close> are a parameter: from the bytes of the old buffer and the new size it gives the
  bytes of the new buffer, or \<open>None\<close> for NULL.  \<open>CPLRealloc\<close> ends the program in the latter case.\<close>

type_synonym reallocator = "octets \<Rightarrow> int \<Rightarrow> octets option"

definition free_buffer :: "nat option \<Rightarrow> mem_fs \<Rightarrow> mem_fs option" where
  "free_buffer p fs =
     (case p of
        None \<Rightarrow> Some fs
      | Some b \<Rightarrow> if buffers fs b = None then None else Some (fs\<lparr>buffers := (buffers fs)(b := None)\<rparr>))"

definition CPLRealloc :: "reallocator \<Rightarrow> nat option \<Rightarrow> int \<Rightarrow> mem_fs \<Rightarrow> (nat option \<times> mem_fs) option" where
  "CPLRealloc r pData nNewSize fs =
     (if nNewSize = 0 then do { fs \<leftarrow> free_buffer pData fs; Some (None, fs) }
      else do {
        old \<leftarrow> bytes_at pData fs;
        new \<leftarrow> r old nNewSize;
        fs \<leftarrow> free_buffer pData fs;
        Some (Some (next_id fs),
              fs\<lparr>buffers := (buffers fs)(next_id fs \<mapsto> new), next_id := Suc (next_id fs)\<rparr>)
      })"

section \<open>Files\<close>

definition SetLength :: "reallocator \<Rightarrow> nat \<Rightarrow> int \<Rightarrow> mem_fs \<Rightarrow> (bool \<times> mem_fs) option" where
  "SetLength r a nNewLength fs = do {
     f \<leftarrow> files fs a;
     if nNewLength > nAllocLength f then do {
       let nNewAlloc = to_u64 (to_u64 (nNewLength + nNewLength div 10) + 5000);
       (pabyNewData, fs) \<leftarrow> CPLRealloc r (file_data f) nNewAlloc fs;
       (case pabyNewData of
          None \<Rightarrow> Some (False, fs)
        | Some b \<Rightarrow> Some (True, set_file a (f\<lparr>file_data := Some b, nAllocLength := nNewAlloc, nLength := nNewLength\<rparr>) fs))
     } else Some (True, set_file a (f\<lparr>nLength := nNewLength\<rparr>) fs)
   }"

definition delete_file :: "nat \<Rightarrow> mem_fs \<Rightarrow> mem_fs option" where
  "delete_file a fs = do {
     f \<leftarrow> files fs a;
     fs \<leftarrow> (if bOwnData f then free_buffer (file_data f) fs else Some fs);
     Some (fs\<lparr>files := (files fs)(a := None)\<rparr>)
   }"

text \<open>\<^verbatim>\<open>if( --(poFile->nRefCount) == 0 ) delete poFile;\<close>\<close>

definition release :: "nat \<Rightarrow> mem_fs \<Rightarrow> mem_fs option" where
  "release a fs = do {
     f \<leftarrow> files fs a;
     let fs = set_file a (f\<lparr>nRefCount := nRefCount f - 1\<rparr>) fs;
     if nRefCount f - 1 = 0 then delete_file a fs else Some fs
   }"

section \<open>Handles\<close>

definition VSIMemHandle_Close :: "nat \<Rightarrow> mem_fs \<Rightarrow> (int \<times> mem_fs) option" where
  "VSIMemHandle_Close h fs = do {
     hnd \<leftarrow> handles fs h;
     a \<leftarrow> poFile hnd;
     fs \<leftarrow> release a fs;
     Some (0, set_handle h (hnd\<lparr>poFile := None\<rparr>) fs)
   }"

definition SEEK_SET :: int where "SEEK_SET = 0"
definition SEEK_CUR :: int where "SEEK_CUR = 1"
definition SEEK_END :: int where "SEEK_END = 2"

text \<open>The offset is unsigned, so that the test for a negative one never holds.\<close>

definition VSIMemHandle_Seek :: "reallocator \<Rightarrow> nat \<Rightarrow> int \<Rightarrow> int \<Rightarrow> mem_fs \<Rightarrow> (int \<times> mem_fs) option" where
  "VSIMemHandle_Seek r h nOff nWhence fs = do {
     hnd \<leftarrow> handles fs h;
     if nWhence \<noteq> SEEK_CUR \<and> nWhence \<noteq> SEEK_SET \<and> nWhence \<noteq> SEEK_END then Some (-1, failed EINVAL fs)
     else do {
       a \<leftarrow> poFile hnd;
       f \<leftarrow> files fs a;
       let n = (if nWhence = SEEK_CUR then to_u64 (nOffset hnd + nOff)
                else if nWhence = SEEK_SET then nOff
                else to_u64 (nLength f + nOff));
       if n < 0 then Some (-1, set_handle h (hnd\<lparr>nOffset := 0\<rparr>) fs)
       else if n > nLength f then
         (if \<not> bUpdate hnd
          then Some (-1, failed EACCES (set_handle h (hnd\<lparr>nOffset := nLength f\<rparr>) fs))
          else do {
            (done, fs) \<leftarrow> SetLength r a n (set_handle h (hnd\<lparr>nOffset := n\<rparr>) fs);
            Some (if done then 0 else -1, fs)
          })
       else Some (0, set_handle h (hnd\<lparr>nOffset := n\<rparr>) fs)
     }
   }"

definition VSIMemHandle_Tell :: "nat \<Rightarrow> mem_fs \<Rightarrow> int option" where
  "VSIMemHandle_Tell h fs = do { hnd \<leftarrow> handles fs h; Some (nOffset hnd) }"

text \<open>\<open>Read\<close> gives the count, the caller's buffer afterwards and the state.  A size of zero faults where it is
  divided by.\<close>

definition VSIMemHandle_Read :: "nat \<Rightarrow> octets \<Rightarrow> int \<Rightarrow> int \<Rightarrow> mem_fs \<Rightarrow> (int \<times> octets \<times> mem_fs) option" where
  "VSIMemHandle_Read h pBuffer nSize nCount fs = do {
     hnd \<leftarrow> handles fs h;
     a \<leftarrow> poFile hnd;
     f \<leftarrow> files fs a;
     let nBytesToRead = to_u64 (nSize * nCount);
     (nBytesToRead, nCount) \<leftarrow>
       (if to_u64 (nBytesToRead + nOffset hnd) > nLength f then do {
          let nBytesToRead = to_u64 (nLength f - nOffset hnd);
          if nSize = 0 then None else Some (nBytesToRead, nBytesToRead div nSize)
        } else Some (nBytesToRead, nCount));
     src \<leftarrow> bytes_at (file_data f) fs;
     pBuffer \<leftarrow> mem_copy pBuffer 0 src (nOffset hnd) nBytesToRead;
     Some (nCount, pBuffer, set_handle h (hnd\<lparr>nOffset := to_u64 (nOffset hnd + nBytesToRead)\<rparr>) fs)
   }"

definition store_data :: "nat \<Rightarrow> int \<Rightarrow> octets \<Rightarrow> int \<Rightarrow> mem_fs \<Rightarrow> mem_fs option" where
  "store_data a nOff pBuffer n fs = do {
     f \<leftarrow> files fs a;
     dst \<leftarrow> bytes_at (file_data f) fs;
     dst \<leftarrow> mem_copy dst nOff pBuffer 0 n;
     Some (case file_data f of None \<Rightarrow> fs | Some b \<Rightarrow> fs\<lparr>buffers := (buffers fs)(b \<mapsto> dst)\<rparr>)
   }"

definition VSIMemHandle_Write ::
    "reallocator \<Rightarrow> nat \<Rightarrow> octets \<Rightarrow> int \<Rightarrow> int \<Rightarrow> mem_fs \<Rightarrow> (int \<times> mem_fs) option" where
  "VSIMemHandle_Write r h pBuffer nSize nCount fs = do {
     hnd \<leftarrow> handles fs h;
     if \<not> bUpdate hnd then Some (0, failed EACCES fs)
     else do {
       a \<leftarrow> poFile hnd;
       f \<leftarrow> files fs a;
       let nBytesToWrite = to_u64 (nSize * nCount);
       (done, fs) \<leftarrow>
         (if to_u64 (nBytesToWrite + nOffset hnd) > nLength f
          then SetLength r a (to_u64 (nBytesToWrite + nOffset hnd)) fs
          else Some (True, fs));
       if \<not> done then Some (0, fs)
       else do {
         fs \<leftarrow> store_data a (nOffset hnd) pBuffer nBytesToWrite fs;
         Some (nCount, set_handle h (hnd\<lparr>nOffset := to_u64 (nOffset hnd + nBytesToWrite)\<rparr>) fs)
       }
     }
   }"

definition VSIMemHandle_Eof :: "nat \<Rightarrow> mem_fs \<Rightarrow> int option" where
  "VSIMemHandle_Eof h fs = do {
     hnd \<leftarrow> handles fs h;
     a \<leftarrow> poFile hnd;
     f \<leftarrow> files fs a;
     Some (if nOffset hnd = nLength f then 1 else 0)
   }"

section \<open>Names\<close>

text \<open>The list of files is a \<^verbatim>\<open>std::map\<close> from names: sorted by the codes of the characters.\<close>

fun str_less :: "cstring \<Rightarrow> cstring \<Rightarrow> bool" where
  "str_less s [] = False"
| "str_less [] (d # t) = True"
| "str_less (c # s) (d # t) = (code_of c < code_of d \<or> c = d \<and> str_less s t)"

fun list_put :: "cstring \<Rightarrow> 'a \<Rightarrow> (cstring \<times> 'a) list \<Rightarrow> (cstring \<times> 'a) list" where
  "list_put k v [] = [(k, v)]"
| "list_put k v ((k', v') # xs) =
     (if k = k' then (k, v) # xs
      else if str_less k k' then (k, v) # (k', v') # xs
      else (k', v') # list_put k v xs)"

definition list_erase :: "cstring \<Rightarrow> (cstring \<times> 'a) list \<Rightarrow> (cstring \<times> 'a) list" where
  "list_erase k xs = filter (\<lambda>p. fst p \<noteq> k) xs"

definition NormalizePath :: "cstring \<Rightarrow> cstring" where
  "NormalizePath s = map (\<lambda>c. if c = CHR 0x5C then CHR ''/'' else c) s"

section \<open>The handler\<close>

text \<open>A new file, entered in the list, which holds a reference to it.\<close>

definition enter_file :: "cstring \<Rightarrow> mem_file \<Rightarrow> mem_fs \<Rightarrow> nat \<times> mem_fs" where
  "enter_file name f fs =
     (next_id fs,
      fs\<lparr>oFileList := list_put name (next_id fs) (oFileList fs),
         files := (files fs)(next_id fs \<mapsto> f\<lparr>osFilename := name, nRefCount := nRefCount f + 1\<rparr>),
         next_id := Suc (next_id fs)\<rparr>)"

definition new_handle :: "nat \<Rightarrow> cstring \<Rightarrow> mem_fs \<Rightarrow> (nat option \<times> mem_fs) option" where
  "new_handle a pszAccess fs = do {
     f \<leftarrow> files fs a;
     if bIsDirectory f then Some (None, failed EISDIR fs)
     else do {
       let hnd = \<lparr>poFile = Some a,
                 nOffset = (if CHR ''a'' \<in> set pszAccess then nLength f else 0),
                 bUpdate = (CHR ''w'' \<in> set pszAccess \<or> CHR ''+'' \<in> set pszAccess \<or> CHR ''a'' \<in> set pszAccess)\<rparr>;
       let fs = set_file a (f\<lparr>nRefCount := nRefCount f + 1\<rparr>) fs;
       Some (Some (next_id fs), set_handle (next_id fs) hnd (fs\<lparr>next_id := Suc (next_id fs)\<rparr>))
     }
   }"

definition VSIMem_Open ::
    "reallocator \<Rightarrow> cstring \<Rightarrow> cstring \<Rightarrow> mem_fs \<Rightarrow> (nat option \<times> mem_fs) option" where
  "VSIMem_Open r pszFilename pszAccess fs = do {
     let name = NormalizePath pszFilename;
     (case map_of (oFileList fs) name of
        None \<Rightarrow>
          if CHR ''w'' \<notin> set pszAccess then Some (None, failed ENOENT fs)
          else (case enter_file name VSIMemFile_new fs of (a, fs) \<Rightarrow> new_handle a pszAccess fs)
      | Some a \<Rightarrow>
          if CHR ''w'' \<in> set pszAccess
          then do { (done, fs) \<leftarrow> SetLength r a 0 fs; new_handle a pszAccess fs }
          else new_handle a pszAccess fs)
   }"

record stat_buf =
  st_size :: int
  st_is_dir :: bool

definition VSIMem_Stat :: "cstring \<Rightarrow> mem_fs \<Rightarrow> (int \<times> stat_buf option \<times> mem_fs) option" where
  "VSIMem_Stat pszFilename fs =
     (case map_of (oFileList fs) (NormalizePath pszFilename) of
        None \<Rightarrow> Some (-1, None, failed ENOENT fs)
      | Some a \<Rightarrow> do {
          f \<leftarrow> files fs a;
          Some (0, Some (if bIsDirectory f then \<lparr>st_size = 0, st_is_dir = True\<rparr>
                         else \<lparr>st_size = nLength f, st_is_dir = False\<rparr>), fs)
        })"

definition VSIMem_Unlink :: "cstring \<Rightarrow> mem_fs \<Rightarrow> (int \<times> mem_fs) option" where
  "VSIMem_Unlink pszFilename fs =
     (case map_of (oFileList fs) (NormalizePath pszFilename) of
        None \<Rightarrow> Some (-1, failed ENOENT fs)
      | Some a \<Rightarrow> do {
          fs \<leftarrow> release a fs;
          Some (0, fs\<lparr>oFileList := list_erase (NormalizePath pszFilename) (oFileList fs)\<rparr>)
        })"

definition VSIMem_Mkdir :: "cstring \<Rightarrow> mem_fs \<Rightarrow> int \<times> mem_fs" where
  "VSIMem_Mkdir pszPathname fs =
     (let name = NormalizePath pszPathname in
      if map_of (oFileList fs) name \<noteq> None then (-1, failed EEXIST fs)
      else (0, snd (enter_file name (VSIMemFile_new\<lparr>bIsDirectory := True\<rparr>) fs)))"

definition VSIMem_Rmdir :: "cstring \<Rightarrow> mem_fs \<Rightarrow> (int \<times> mem_fs) option" where
  "VSIMem_Rmdir pszPathname fs = VSIMem_Unlink pszPathname fs"

text \<open>\<open>ReadDir\<close> fills an array of \<open>room\<close> slots that it doubles; a slot outside it is a fault.  An empty path
  is read before its first character.\<close>

definition in_directory :: "cstring \<Rightarrow> nat \<Rightarrow> cstring \<Rightarrow> bool" where
  "in_directory osPath nPathLen name =
     (EQUALN osPath name nPathLen \<and> char_at name nPathLen = Some (CHR ''/'') \<and>
      CHR ''/'' \<notin> set (drop (nPathLen + 1) name))"

fun read_dir_loop :: "cstring \<Rightarrow> nat \<Rightarrow> mem_fs \<Rightarrow> nat list \<Rightarrow> cstring list \<Rightarrow> nat \<Rightarrow> nat \<Rightarrow> csl option" where
  "read_dir_loop osPath nPathLen fs [] items alloc room = Some (if items = [] then None else Some items)"
| "read_dir_loop osPath nPathLen fs (a # as) items alloc room = do {
     f \<leftarrow> files fs a;
     if in_directory osPath nPathLen (osFilename f) then do {
       let (alloc, room) =
         (if items = [] then (1, 2)
          else if length items \<ge> alloc then (alloc * 2, alloc * 2 + 2) else (alloc, room));
       if length items + 1 < room
       then read_dir_loop osPath nPathLen fs as (items @ [drop (nPathLen + 1) (osFilename f)]) alloc room
       else None
     } else read_dir_loop osPath nPathLen fs as items alloc room
   }"

definition VSIMem_ReadDir :: "cstring \<Rightarrow> mem_fs \<Rightarrow> csl option" where
  "VSIMem_ReadDir pszPath fs =
     (let osPath = NormalizePath pszPath in
      if osPath = [] then None
      else read_dir_loop osPath (if last osPath = CHR ''/'' then length osPath - 1 else length osPath)
             fs (map snd (oFileList fs)) [] 0 0)"

text \<open>The destructor deletes every listed file, whoever still refers to it.\<close>

fun delete_files :: "nat list \<Rightarrow> mem_fs \<Rightarrow> mem_fs option" where
  "delete_files [] fs = Some fs"
| "delete_files (a # as) fs = do {
     f \<leftarrow> files fs a;
     fs \<leftarrow> delete_file a (set_file a (f\<lparr>nRefCount := nRefCount f - 1\<rparr>) fs);
     delete_files as fs
   }"

definition VSIMemFilesystemHandler_delete :: "mem_fs \<Rightarrow> mem_fs option" where
  "VSIMemFilesystemHandler_delete fs = delete_files (map snd (oFileList fs)) fs"

section \<open>Buffers as files\<close>

definition VSIFileFromMemBuffer ::
    "reallocator \<Rightarrow> cstring \<Rightarrow> nat option \<Rightarrow> int \<Rightarrow> bool \<Rightarrow> mem_fs \<Rightarrow> (nat option \<times> mem_fs) option" where
  "VSIFileFromMemBuffer r pszFilename pabyData nDataLength bTakeOwnership fs =
     (let f = VSIMemFile_new\<lparr>bOwnData := bTakeOwnership, file_data := pabyData,
                nLength := nDataLength, nAllocLength := nDataLength\<rparr>
      in VSIMem_Open r pszFilename ''r+'' (snd (enter_file pszFilename f fs)))"

text \<open>The result is the pointer with the length of the file, or \<open>None\<close> when there is no such file.\<close>

definition VSIGetMemFileBuffer ::
    "cstring \<Rightarrow> bool \<Rightarrow> mem_fs \<Rightarrow> ((nat option \<times> int) option \<times> mem_fs) option" where
  "VSIGetMemFileBuffer pszFilename bUnlinkAndSeize fs =
     (case map_of (oFileList fs) pszFilename of
        None \<Rightarrow> Some (None, fs)
      | Some a \<Rightarrow> do {
          f \<leftarrow> files fs a;
          let res = Some (file_data f, nLength f);
          if bUnlinkAndSeize then do {
            let fs = set_file a (f\<lparr>bOwnData := False, nRefCount := nRefCount f - 1\<rparr>) fs;
            fs \<leftarrow> delete_file a (fs\<lparr>oFileList := list_erase pszFilename (oFileList fs)\<rparr>);
            Some (res, fs)
          } else Some (res, fs)
        })"

section \<open>The file manager\<close>

text \<open>Handlers under their prefixes, in the order of a \<^verbatim>\<open>std::map\<close>, with the default handler.\<close>

definition handles_path :: "cstring \<Rightarrow> cstring \<Rightarrow> bool" where
  "handles_path pszPath key =
     (take (length key) pszPath = key \<or>
      key \<noteq> [] \<and> length pszPath > length key \<and> last key = CHR ''/'' \<and>
      pszPath ! (length key - 1) = CHR 0x5C \<and>
      take (length key - 1) pszPath = butlast key)"

fun GetHandler :: "(cstring \<times> 'h) list \<Rightarrow> 'h option \<Rightarrow> cstring \<Rightarrow> 'h option" where
  "GetHandler [] poDefaultHandler pszPath = poDefaultHandler"
| "GetHandler ((key, h) # hs) poDefaultHandler pszPath =
     (if handles_path pszPath key then Some h else GetHandler hs poDefaultHandler pszPath)"

definition InstallHandler ::
    "cstring \<Rightarrow> 'h \<Rightarrow> (cstring \<times> 'h) list \<times> 'h option \<Rightarrow> (cstring \<times> 'h) list \<times> 'h option" where
  "InstallHandler osPrefix poHandler m =
     (if osPrefix = [] then (fst m, Some poHandler) else (list_put osPrefix poHandler (fst m), snd m))"

text \<open>On a handle of the file system in memory.\<close>

definition VSIFCloseL :: "nat \<Rightarrow> mem_fs \<Rightarrow> (int \<times> mem_fs) option" where
  "VSIFCloseL h fs = do {
     (nResult, fs) \<leftarrow> VSIMemHandle_Close h fs;
     Some (nResult, fs\<lparr>handles := (handles fs)(h := None)\<rparr>)
   }"

definition VSIRewindL :: "reallocator \<Rightarrow> nat \<Rightarrow> mem_fs \<Rightarrow> mem_fs option" where
  "VSIRewindL r h fs = do { (res, fs) \<leftarrow> VSIMemHandle_Seek r h 0 SEEK_SET fs; Some fs }"

definition VSIFPutcL :: "reallocator \<Rightarrow> int \<Rightarrow> nat \<Rightarrow> mem_fs \<Rightarrow> (int \<times> mem_fs) option" where
  "VSIFPutcL r nChar h fs = VSIMemHandle_Write r h [word_of_int nChar] 1 1 fs"

end
