(* ===== verification/Vsi_Mem_Facts.thy ===== *)
theory Vsi_Mem_Facts
  imports Vsi_Mem Pixel_Copy_Facts
begin

text \<open>
  The invariant of the file system in memory (\<open>fs_ok\<close>) and what its operations do to it and to the
  contents of files.  Every file counts its references exactly, from the list of names and from
  open handles, and has a buffer of the size it records; buffers are not shared.
\<close>

section \<open>The invariant\<close>

definition users :: "mem_fs \<Rightarrow> nat \<Rightarrow> nat set" where
  "users fs a = {h. \<exists>k. handles fs h = Some k \<and> poFile k = Some a}"

definition listed :: "mem_fs \<Rightarrow> nat \<Rightarrow> nat" where
  "listed fs a = length (filter (\<lambda>p. snd p = a) (oFileList fs))"

definition refs :: "mem_fs \<Rightarrow> nat \<Rightarrow> int" where
  "refs fs a = int (listed fs a) + int (card (users fs a))"

definition buffer_fits :: "mem_fs \<Rightarrow> mem_file \<Rightarrow> bool" where
  "buffer_fits fs f =
     (0 \<le> nLength f \<and> nLength f \<le> nAllocLength f \<and> nAllocLength f < 2 ^ 64 \<and>
      (\<exists>xs. bytes_at (file_data f) fs = Some xs \<and> int (length xs) = nAllocLength f))"

definition names_ok :: "mem_fs \<Rightarrow> bool" where
  "names_ok fs =
     (sorted_wrt str_less (map fst (oFileList fs)) \<and>
      (\<forall>(name, a) \<in> set (oFileList fs). \<exists>f. files fs a = Some f \<and> osFilename f = name))"

definition handles_ok :: "mem_fs \<Rightarrow> bool" where
  "handles_ok fs =
     (finite (dom (handles fs)) \<and>
      (\<forall>h k. handles fs h = Some k \<longrightarrow> 0 \<le> nOffset k \<and> nOffset k < 2 ^ 64 \<and>
         (\<exists>a f. poFile k = Some a \<and> files fs a = Some f \<and> \<not> bIsDirectory f)))"

definition files_ok :: "mem_fs \<Rightarrow> bool" where
  "files_ok fs =
     (\<forall>a f. files fs a = Some f \<longrightarrow> nRefCount f = refs fs a \<and> 0 < nRefCount f \<and> buffer_fits fs f)"

definition unshared :: "mem_fs \<Rightarrow> bool" where
  "unshared fs =
     (\<forall>a b f g p. files fs a = Some f \<longrightarrow> files fs b = Some g \<longrightarrow> file_data f = Some p \<longrightarrow>
        file_data g = Some p \<longrightarrow> a = b)"

definition ids_fresh :: "mem_fs \<Rightarrow> bool" where
  "ids_fresh fs = (\<forall>a \<ge> next_id fs. files fs a = None \<and> handles fs a = None \<and> buffers fs a = None)"

definition fs_ok :: "mem_fs \<Rightarrow> bool" where
  "fs_ok fs = (names_ok fs \<and> handles_ok fs \<and> files_ok fs \<and> unshared fs \<and> ids_fresh fs)"

lemma fs_okD:
  assumes "fs_ok fs"
  shows "names_ok fs" "handles_ok fs" "files_ok fs" "unshared fs" "ids_fresh fs"
  using assms by (simp_all add: fs_ok_def)

lemma VSIMemFilesystemHandler_new_ok: "fs_ok VSIMemFilesystemHandler_new"
  by (simp add: fs_ok_def VSIMemFilesystemHandler_new_def names_ok_def handles_ok_def files_ok_def
      unshared_def ids_fresh_def)

lemma failed_fields [simp]:
  "files (failed e fs) = files fs" "handles (failed e fs) = handles fs" "buffers (failed e fs) = buffers fs"
  "oFileList (failed e fs) = oFileList fs" "next_id (failed e fs) = next_id fs"
  by (simp_all add: failed_def)

lemma set_file_fields [simp]:
  "files (set_file a f fs) = (files fs)(a \<mapsto> f)" "handles (set_file a f fs) = handles fs"
  "buffers (set_file a f fs) = buffers fs" "oFileList (set_file a f fs) = oFileList fs"
  "next_id (set_file a f fs) = next_id fs"
  by (simp_all add: set_file_def)

lemma set_handle_fields [simp]:
  "files (set_handle h k fs) = files fs" "handles (set_handle h k fs) = (handles fs)(h \<mapsto> k)"
  "buffers (set_handle h k fs) = buffers fs" "oFileList (set_handle h k fs) = oFileList fs"
  "next_id (set_handle h k fs) = next_id fs"
  by (simp_all add: set_handle_def)

lemma bytes_at_cong: "buffers fs = buffers fs' \<Longrightarrow> bytes_at p fs = bytes_at p fs'"
  by (simp add: bytes_at_def split: option.split)

lemma bytes_at_set [simp]:
  "bytes_at p (set_file a f fs) = bytes_at p fs" "bytes_at p (set_handle h k fs) = bytes_at p fs"
  "bytes_at p (failed e fs) = bytes_at p fs"
  by (auto intro: bytes_at_cong)

lemma buffer_fits_set [simp]:
  "buffer_fits (set_file a g fs) f = buffer_fits fs f" "buffer_fits (set_handle h k fs) f = buffer_fits fs f"
  "buffer_fits (failed e fs) f = buffer_fits fs f"
  by (simp_all add: buffer_fits_def)

text \<open>Only the error code has changed.\<close>

lemma fs_ok_failed [simp]: "fs_ok (failed e fs) = fs_ok fs"
  by (simp add: fs_ok_def names_ok_def handles_ok_def files_ok_def unshared_def ids_fresh_def
      buffer_fits_def refs_def listed_def users_def)

lemma handle_okE:
  assumes "fs_ok fs" and "handles fs h = Some k"
  obtains a f where "poFile k = Some a" "files fs a = Some f" "\<not> bIsDirectory f" "0 \<le> nOffset k" "nOffset k < 2 ^ 64"
  using fs_okD(2) [OF assms(1)] assms(2) unfolding handles_ok_def by blast

lemma file_okD:
  assumes "fs_ok fs" and "files fs a = Some f"
  shows "nRefCount f = refs fs a" "0 < nRefCount f" "buffer_fits fs f" "a < next_id fs"
proof -
  show "nRefCount f = refs fs a" "0 < nRefCount f" "buffer_fits fs f"
    using fs_okD(3) [OF assms(1)] assms(2) unfolding files_ok_def by blast+
  show "a < next_id fs" using fs_okD(5) [OF assms(1)] assms(2) by (metis ids_fresh_def not_le option.discI)
qed

text \<open>The contents of a file: the bytes of its buffer up to its length.\<close>

definition contents_of :: "mem_fs \<Rightarrow> mem_file \<Rightarrow> octets" where
  "contents_of fs f = take (nat (nLength f)) (the (bytes_at (file_data f) fs))"

definition file_contents :: "mem_fs \<Rightarrow> nat \<Rightarrow> octets option" where
  "file_contents fs a = map_option (contents_of fs) (files fs a)"

lemma refs_cong:
  assumes "oFileList fs' = oFileList fs" and "\<And>h. map_option poFile (handles fs' h) = map_option poFile (handles fs h)"
  shows "refs fs' a = refs fs a"
proof -
  have "users fs' a = users fs a"
    unfolding users_def using assms(2) by (metis (no_types, opaque_lifting) map_option_eq_Some)
  then show ?thesis using assms(1) by (simp add: refs_def listed_def)
qed

section \<open>Changes of one file\<close>

text \<open>\<open>changed a f f' fs fs'\<close>: file \<open>a\<close> was \<open>f\<close> and is \<open>f'\<close>, which has the same name and references; its buffer may
  be a new one or hold other bytes; nothing else has changed.\<close>

definition changed :: "nat \<Rightarrow> mem_file \<Rightarrow> mem_file \<Rightarrow> mem_fs \<Rightarrow> mem_fs \<Rightarrow> bool" where
  "changed a f f' fs fs' =
     (files fs a = Some f \<and> files fs' = (files fs)(a \<mapsto> f') \<and> handles fs' = handles fs \<and>
      oFileList fs' = oFileList fs \<and> next_id fs \<le> next_id fs' \<and>
      osFilename f' = osFilename f \<and> nRefCount f' = nRefCount f \<and> bIsDirectory f' = bIsDirectory f \<and>
      (\<forall>p < next_id fs. file_data f \<noteq> Some p \<longrightarrow> buffers fs' p = buffers fs p) \<and>
      (\<forall>p \<ge> next_id fs'. buffers fs' p = None) \<and>
      (file_data f' = file_data f \<or> (\<exists>p \<ge> next_id fs. file_data f' = Some p)))"

lemma changed_buffer:
  assumes "fs_ok fs" and "changed a f f' fs fs'" and "files fs b = Some g" and "b \<noteq> a"
  shows "bytes_at (file_data g) fs' = bytes_at (file_data g) fs"
proof (cases "file_data g")
  case (Some p)
  have "buffer_fits fs g" by (rule file_okD [OF assms(1,3)])
  then have "buffers fs p \<noteq> None" using Some by (auto simp: buffer_fits_def bytes_at_def)
  then have lt: "p < next_id fs" using fs_okD(5) [OF assms(1)] by (metis ids_fresh_def not_le)
  have fa: "files fs a = Some f" using assms(2) by (simp add: changed_def)
  have "file_data f \<noteq> Some p"
    using fs_okD(4) [OF assms(1)] fa assms(3,4) Some unfolding unshared_def by blast
  then have "buffers fs' p = buffers fs p" using lt assms(2) by (simp add: changed_def)
  then show ?thesis using Some by (simp add: bytes_at_def)
qed (simp add: bytes_at_def)

lemma changed_ok:
  assumes ok: "fs_ok fs" and ch: "changed a f f' fs fs'" and fit: "buffer_fits fs' f'"
  shows "fs_ok fs'"
proof -
  note c = ch [unfolded changed_def]
  have refs: "refs fs' b = refs fs b" for b using c by (intro refs_cong) auto
  have names: "names_ok fs'"
  proof -
    have "\<exists>g. files fs' b = Some g \<and> osFilename g = n" if "(n, b) \<in> set (oFileList fs)" for n b
      using that fs_okD(1) [OF ok] c by (cases "b = a") (auto simp: names_ok_def)
    then show ?thesis using fs_okD(1) [OF ok] c by (auto simp: names_ok_def)
  qed
  have "handles_ok fs'" unfolding handles_ok_def
  proof (intro conjI allI impI)
    fix h k assume "handles fs' h = Some k"
    then have "handles fs h = Some k" using c by simp
    then show "0 \<le> nOffset k" "nOffset k < 2 ^ 64"
      "\<exists>a f. poFile k = Some a \<and> files fs' a = Some f \<and> \<not> bIsDirectory f"
      using c by (auto elim!: handle_okE [OF ok])
  qed (use fs_okD(2) [OF ok] c in \<open>simp add: handles_ok_def\<close>)
  moreover have "files_ok fs'" unfolding files_ok_def
  proof (intro allI impI)
    fix b g assume g: "files fs' b = Some g"
    show "nRefCount g = refs fs' b \<and> 0 < nRefCount g \<and> buffer_fits fs' g"
    proof (cases "b = a")
      case True
      then have "g = f'" using g c by simp
      moreover have "nRefCount f = refs fs a" "0 < nRefCount f" using file_okD [OF ok] c by blast+
      ultimately show ?thesis using True c fit refs by simp
    next
      case False
      then have g': "files fs b = Some g" using g c by simp
      then show ?thesis using file_okD [OF ok g'] refs changed_buffer [OF ok ch g' False]
        by (simp add: buffer_fits_def)
    qed
  qed
  moreover have "unshared fs'"
  proof -
    have old: "p < next_id fs" if "files fs b = Some g" "file_data g = Some p" for b g p
    proof -
      have "buffer_fits fs g" by (rule file_okD [OF ok that(1)])
      then have "buffers fs p \<noteq> None" using that(2) by (auto simp: buffer_fits_def bytes_at_def)
      then show ?thesis using fs_okD(5) [OF ok] by (metis ids_fresh_def not_le)
    qed
    have other: "b = a" if "files fs b = Some g" "file_data g = Some p" "file_data f' = Some p" for b g p
    proof (cases "file_data f' = file_data f")
      case True
      then show ?thesis using fs_okD(4) [OF ok] that c unfolding unshared_def by metis
    next
      case False
      then show ?thesis using c old [OF that(1,2)] that(3) by auto
    qed
    show ?thesis unfolding unshared_def
    proof (intro allI impI)
      fix b b' g g' p
      assume "files fs' b = Some g" "files fs' b' = Some g'" "file_data g = Some p" "file_data g' = Some p"
      then show "b = b'"
        using other c fs_okD(4) [OF ok] unfolding unshared_def by (metis fun_upd_apply option.inject)
    qed
  qed
  moreover have "ids_fresh fs'"
    using fs_okD(5) [OF ok] c unfolding ids_fresh_def by auto
  ultimately show ?thesis using names by (simp add: fs_ok_def)
qed

lemma changed_contents:
  assumes "fs_ok fs" and "changed a f f' fs fs'"
  shows "b \<noteq> a \<Longrightarrow> file_contents fs' b = file_contents fs b"
    and "file_contents fs' a = Some (contents_of fs' f')"
proof -
  show "file_contents fs' b = file_contents fs b" if b: "b \<noteq> a"
  proof (cases "files fs b")
    case (Some g)
    then show ?thesis using changed_buffer [OF assms Some b] assms(2) b
      by (simp add: file_contents_def contents_of_def changed_def)
  qed (use assms(2) b in \<open>simp add: file_contents_def changed_def\<close>)
qed (use assms(2) in \<open>simp add: file_contents_def changed_def\<close>)

lemma set_handle_ok:
  assumes ok: "fs_ok fs" and k: "handles fs h = Some k" and k': "poFile k' = poFile k" "0 \<le> nOffset k'" "nOffset k' < 2 ^ 64"
  shows "fs_ok (set_handle h k' fs)"
proof -
  let ?fs = "set_handle h k' fs"
  have refs: "refs ?fs a = refs fs a" for a using k k' by (intro refs_cong) auto
  have "handles_ok ?fs" unfolding handles_ok_def
  proof (intro conjI allI impI)
    fix h2 k2 assume "handles ?fs h2 = Some k2"
    then show "0 \<le> nOffset k2" "nOffset k2 < 2 ^ 64"
        "\<exists>a f. poFile k2 = Some a \<and> files ?fs a = Some f \<and> \<not> bIsDirectory f"
      using k k' by (auto split: if_splits elim!: handle_okE [OF ok])
  qed (use fs_okD(2) [OF ok] in \<open>simp add: handles_ok_def\<close>)
  moreover have "files_ok ?fs" unfolding files_ok_def
    using file_okD(1-3) [OF ok] refs by (metis buffer_fits_set(2) set_handle_fields(1))
  moreover have "ids_fresh ?fs" using fs_okD(5) [OF ok] k by (auto simp: ids_fresh_def)
  ultimately show ?thesis using fs_okD [OF ok] by (simp add: fs_ok_def names_ok_def unshared_def)
qed

lemma contents_set [simp]:
  "file_contents (set_handle h k fs) = file_contents fs" "file_contents (failed e fs) = file_contents fs"
  unfolding file_contents_def contents_of_def by (rule ext, simp)+

section \<open>The length of a file\<close>

text \<open>What \<^verbatim>\<open>realloc\<close> documents, as long as there is memory for \<open>m\<close> bytes, and the lengths whose buffers fit.\<close>

definition reallocates :: "reallocator \<Rightarrow> int \<Rightarrow> bool" where
  "reallocates r m =
     (m < 2 ^ 64 \<and>
      (\<forall>xs n. 0 < n \<longrightarrow> n \<le> m \<longrightarrow>
         (\<exists>ys. r xs n = Some ys \<and> int (length ys) = n \<and> take (length xs) ys = take (nat n) xs)))"

definition room_for :: "int \<Rightarrow> int \<Rightarrow> bool" where
  "room_for m n = (0 \<le> n \<and> n + n div 10 + 5000 \<le> m)"

lemma room_for_lt:
  assumes "reallocates r m" and "room_for m n"
  shows "n < 2 ^ 64"
proof -
  have "0 \<le> n div 10" using assms(2) by (simp add: room_for_def pos_imp_zdiv_nonneg_iff)
  then show ?thesis using assms by (simp add: room_for_def reallocates_def)
qed

lemma room_for_mono: "room_for m n \<Longrightarrow> 0 \<le> n' \<Longrightarrow> n' \<le> n \<Longrightarrow> room_for m n'"
  by (auto simp: room_for_def intro: order_trans [OF add_mono] zdiv_mono1)

lemma CPLRealloc_ok:
  assumes r: "reallocates r m" and n: "int (length xs) \<le> n" "0 < n" "n \<le> m" and xs: "bytes_at p fs = Some xs"
  obtains ys where "CPLRealloc r p n fs =
      Some (Some (next_id fs),
            fs\<lparr>buffers := (case p of None \<Rightarrow> buffers fs | Some b \<Rightarrow> (buffers fs)(b := None))(next_id fs \<mapsto> xs @ ys),
               next_id := Suc (next_id fs)\<rparr>)"
    and "int (length (xs @ ys)) = n"
proof -
  obtain zs where zs: "r xs n = Some zs" "int (length zs) = n" "take (length xs) zs = take (nat n) xs"
    using r n(2,3) by (auto simp: reallocates_def)
  have "take (length xs) zs = xs" using zs(3) n(1) by simp
  then have eq: "zs = xs @ drop (length xs) zs" by (metis append_take_drop_id)
  obtain ys where ys: "zs = xs @ ys" using eq by blast
  show ?thesis
  proof (rule that [of ys])
    show "int (length (xs @ ys)) = n" using zs(2) ys by simp
  qed (use xs zs(1) ys n(2) in \<open>auto simp: CPLRealloc_def free_buffer_def bytes_at_def split: option.splits\<close>)
qed

text \<open>A file with a new length: its old bytes are still there and new ones may follow.\<close>

definition resized :: "nat \<Rightarrow> mem_file \<Rightarrow> int \<Rightarrow> mem_file \<Rightarrow> mem_fs \<Rightarrow> mem_fs \<Rightarrow> bool" where
  "resized a f n f' fs fs' =
     (changed a f f' fs fs' \<and> buffer_fits fs' f' \<and> nLength f' = n \<and>
      (\<exists>xs zs. bytes_at (file_data f) fs = Some xs \<and> bytes_at (file_data f') fs' = Some (xs @ zs)))"

lemma SetLength_ok:
  assumes ok: "fs_ok fs" and f: "files fs a = Some f" and r: "reallocates r m" and n: "room_for m n"
  obtains f' fs' where "SetLength r a n fs = Some (True, fs')" and "resized a f n f' fs fs'"
proof -
  have fit: "buffer_fits fs f" by (rule file_okD [OF ok f])
  then obtain xs where xs: "bytes_at (file_data f) fs = Some xs" "int (length xs) = nAllocLength f"
    by (auto simp: buffer_fits_def)
  have fresh: "\<forall>p \<ge> next_id fs. buffers fs p = None" using fs_okD(5) [OF ok] by (simp add: ids_fresh_def)
  show ?thesis
  proof (cases "n \<le> nAllocLength f")
    case True
    let ?f = "f\<lparr>nLength := n\<rparr>"
    have "resized a f n ?f fs (set_file a ?f fs)"
      using f fit fresh xs True n by (auto simp: resized_def changed_def buffer_fits_def room_for_def)
    then show ?thesis using that True f by (simp add: SetLength_def)
  next
    case False
    let ?m = "n + n div 10 + 5000"
    have m: "?m \<le> m" "0 \<le> n" "m < 2 ^ 64" using n r by (simp_all add: room_for_def reallocates_def)
    then have dv: "0 \<le> n div 10" by simp
    have u: "to_u64 (to_u64 (n + n div 10) + 5000) = ?m" using m dv by (simp add: to_u64_id)
    obtain ys where ys: "CPLRealloc r (file_data f) ?m fs = Some (Some (next_id fs),
        fs\<lparr>buffers := (case file_data f of None \<Rightarrow> buffers fs | Some b \<Rightarrow> (buffers fs)(b := None))(next_id fs \<mapsto> xs @ ys),
           next_id := Suc (next_id fs)\<rparr>)" (is "_ = Some (_, ?fs)") "int (length (xs @ ys)) = ?m"
      by (rule CPLRealloc_ok [OF r _ _ m(1) xs(1)]) (use xs(2) False m dv in auto)
    let ?f = "f\<lparr>file_data := Some (next_id fs), nAllocLength := ?m, nLength := n\<rparr>"
    let ?fs' = "set_file a ?f ?fs"
    have ch: "changed a f ?f fs ?fs'"
      using f fresh by (auto simp: changed_def split: option.splits)
    have bts: "bytes_at (Some (next_id fs)) ?fs' = Some (xs @ ys)" by (simp add: bytes_at_def)
    have "buffer_fits ?fs' ?f"
      using bts ys(2) m dv by (simp add: buffer_fits_def del: bytes_at_set)
    then have "resized a f n ?f fs ?fs'" using ch xs(1) by (auto simp: resized_def bts simp del: bytes_at_set)
    moreover have "SetLength r a n fs = Some (True, ?fs')"
      using False f ys(1) u by (simp add: SetLength_def)
    ultimately show ?thesis using that by blast
  qed
qed

section \<open>Reading and writing\<close>

text \<open>The list of names, and of every file its name, its references and whether it is a directory.\<close>

definition node :: "mem_file \<Rightarrow> cstring \<times> int \<times> bool" where
  "node f = (osFilename f, nRefCount f, bIsDirectory f)"

definition same_nodes :: "mem_fs \<Rightarrow> mem_fs \<Rightarrow> bool" where
  "same_nodes fs fs' =
     (oFileList fs' = oFileList fs \<and> (\<forall>b. map_option node (files fs' b) = map_option node (files fs b)))"

lemma same_nodes_refl [simp]: "same_nodes fs fs"
  by (simp add: same_nodes_def)

lemma same_nodes_trans: "same_nodes f g \<Longrightarrow> same_nodes g h \<Longrightarrow> same_nodes f h"
  by (simp add: same_nodes_def)

lemma same_nodes_set [simp]:
  "same_nodes fs (set_handle h k fs') = same_nodes fs fs'" "same_nodes fs (failed e fs') = same_nodes fs fs'"
  by (simp_all add: same_nodes_def)

lemma changed_nodes: "changed a f f' fs fs' \<Longrightarrow> same_nodes fs fs'"
  by (auto simp: changed_def same_nodes_def node_def)

lemma length_contents:
  assumes "fs_ok fs" and "files fs a = Some f"
  shows "int (length (contents_of fs f)) = nLength f"
  using file_okD(3) [OF assms] by (auto simp: buffer_fits_def contents_of_def)

lemma mem_copy_to_start:
  assumes "0 \<le> s" and "s + int n \<le> int (length src)" and "n \<le> length dst"
  shows "mem_copy dst 0 src s (int n) = Some (take n (drop (nat s) src) @ drop n dst)"
proof -
  have "n \<le> length src - nat s" using assms(1,2) by linarith
  then show ?thesis using assms by (simp add: mem_copy_def load_bytes_def store_bytes_def min_def)
qed

lemma mem_copy_from_start:
  assumes "0 \<le> d" and "d + int n \<le> int (length dst)" and "n \<le> length src"
  shows "mem_copy dst d src 0 (int n) = Some (take (nat d) dst @ take n src @ drop (nat d + n) dst)"
  using assms by (simp add: mem_copy_def load_bytes_def store_bytes_def min_def)

lemma Read_takes:
  assumes ok: "fs_ok fs" and k: "handles fs h = Some k" "poFile k = Some a"
    and c: "file_contents fs a = Some c" and o: "nOffset k = int off" "off \<le> length c"
    and n: "nSize * nCount = int n" "0 < nSize" "int n + int off < 2 ^ 64"
    and m: "got = min n (length c - off)" "got \<le> length pBuffer"
  shows "VSIMemHandle_Read h pBuffer nSize nCount fs =
    Some (int got div nSize, take got (drop off c) @ drop got pBuffer, set_handle h (k\<lparr>nOffset := int (off + got)\<rparr>) fs)"
proof -
  obtain f where f: "files fs a = Some f" "c = contents_of fs f" using c by (auto simp: file_contents_def)
  have len: "int (length c) = nLength f" using length_contents [OF ok f(1)] f(2) by simp
  obtain xs where xs: "bytes_at (file_data f) fs = Some xs" "int (length xs) = nAllocLength f"
    and lt: "nLength f \<le> nAllocLength f" "nAllocLength f < 2 ^ 64"
    using file_okD(3) [OF ok f(1)] by (auto simp: buffer_fits_def)
  have cx: "c = take (length c) xs" using f(2) xs(1) len by (simp add: contents_of_def)
  have full: "nCount = int n div nSize" using n(1,2) by (metis less_irrefl nonzero_mult_div_cancel_left)
  have got: "off + got \<le> length c" using m(1) o(2) by simp
  have "take got (drop off xs) = take got (drop off c)"
  proof -
    have "take got (drop off c) = drop off (take (off + got) c)" by (simp add: take_drop add.commute)
    also have "take (off + got) c = take (off + got) xs" using got by (subst cx) (simp add: min_def)
    also have "drop off \<dots> = take got (drop off xs)" by (simp add: take_drop add.commute)
    finally show ?thesis ..
  qed
  then have copy: "mem_copy pBuffer 0 xs (int off) (int got) = Some (take got (drop off c) @ drop got pBuffer)"
    using mem_copy_to_start [of "int off" got xs pBuffer] got m(2) xs(2) lt(1) len by simp
  have u: "to_u64 (int n) = int n" "to_u64 (int n + int off) = int n + int off"
    "to_u64 (int off + int got) = int off + int got" using n(3) m(1) by (simp_all add: to_u64_id)
  show ?thesis
  proof (cases "nLength f < int n + int off")
    case True
    then have "got = length c - off" using m(1) len by linarith
    then have g: "to_u64 (nLength f - int off) = int got" using o(2) len lt by (simp add: to_u64_id of_nat_diff)
    then show ?thesis using True n(1,2) k f(1) o(1) xs(1) copy u by (simp add: VSIMemHandle_Read_def Let_def)
  next
    case False
    then have "got = n" using m(1) len by linarith
    then show ?thesis using False n(1) k f(1) o(1) xs(1) copy u full by (simp add: VSIMemHandle_Read_def Let_def)
  qed
qed

lemma store_data_ok:
  assumes ok: "fs_ok fs" and f: "files fs a = Some f" and xs: "bytes_at (file_data f) fs = Some xs"
    and n: "off + n \<le> length xs" "n \<le> length p"
  obtains fs' where "store_data a (int off) p (int n) fs = Some fs'" and "changed a f f fs fs'" and "buffer_fits fs' f"
    and "bytes_at (file_data f) fs' = Some (take off xs @ take n p @ drop (off + n) xs)"
proof -
  have fit: "buffer_fits fs f" by (rule file_okD [OF ok f])
  have fresh: "\<forall>p \<ge> next_id fs. buffers fs p = None" using fs_okD(5) [OF ok] by (simp add: ids_fresh_def)
  have copy: "mem_copy xs (int off) p 0 (int n) = Some (take off xs @ take n p @ drop (off + n) xs)" (is "_ = Some ?ys")
    using mem_copy_from_start [of "int off" n xs p] n by simp
  have len: "length ?ys = length xs" using n by simp
  show ?thesis
  proof (cases "file_data f")
    case None
    then have "xs = []" "n = 0" "off = 0" using xs n by (simp_all add: bytes_at_def)
    moreover have "changed a f f fs fs" using f fresh by (simp add: changed_def fun_upd_idem)
    ultimately show ?thesis using that [of fs] fit xs copy f None by (simp add: store_data_def)
  next
    case (Some b)
    let ?fs = "fs\<lparr>buffers := (buffers fs)(b \<mapsto> ?ys)\<rparr>"
    have "b < next_id fs" using xs Some fresh by (metis bytes_at_def not_le option.case(2) option.discI)
    then have "changed a f f fs ?fs" using f Some fresh by (auto simp: changed_def)
    moreover have bts: "bytes_at (file_data f) ?fs = Some ?ys" using Some by (simp add: bytes_at_def)
    moreover have "buffer_fits ?fs f" using fit xs len bts by (auto simp: buffer_fits_def)
    ultimately show ?thesis using that xs copy f Some by (simp add: store_data_def)
  qed
qed

text \<open>Bytes stored into a buffer that begins with the contents \<open>c\<close>: the gap between them holds whatever the
  buffer held there.\<close>

lemma take_splice:
  assumes "take (length c) ys = c" and "off + length bs \<le> length ys"
  obtains gap where "length gap = off - length c"
    and "take (max (length c) (off + length bs)) (take off ys @ bs @ drop (off + length bs) ys) =
      take off (c @ gap) @ bs @ drop (off + length bs) c"
proof
  let ?gap = "take (off - length c) (drop (length c) ys)"
  show "length ?gap = off - length c" using assms(2) by simp
  have pre: "take off (c @ ?gap) = take off ys"
  proof (cases "off \<le> length c")
    case True
    then have "take off ys = take off (take (length c) ys)" by (simp add: min_def)
    then show ?thesis using True assms(1) by simp
  next
    case False
    then have "c @ ?gap = take (length c + (off - length c)) ys" by (simp only: take_add assms(1))
    then show ?thesis using False assms(2) by simp
  qed
  have "take (length c - (off + length bs)) (drop (off + length bs) ys) = drop (off + length bs) (take (length c) ys)"
    by (simp add: drop_take)
  then show "take (max (length c) (off + length bs)) (take off ys @ bs @ drop (off + length bs) ys) =
      take off (c @ ?gap) @ bs @ drop (off + length bs) c"
    using assms pre by (auto simp: max_def)
qed

lemma made_longer:
  assumes ok: "fs_ok fs" and f: "files fs a = Some f" and r: "reallocates r m" "room_for m n"
  obtains f' fs' where "(if n > nLength f then SetLength r a n fs else Some (True, fs)) = Some (True, fs')"
    and "resized a f (max (nLength f) n) f' fs fs'"
proof (cases "n > nLength f")
  case True
  obtain f' fs' where "SetLength r a n fs = Some (True, fs')" "resized a f n f' fs fs'"
    by (rule SetLength_ok [OF ok f r])
  then show ?thesis using True that by simp
next
  case False
  have "resized a f (max (nLength f) n) f fs fs"
    using False f file_okD(3) [OF ok f] fs_okD(5) [OF ok]
    by (auto simp: resized_def changed_def fun_upd_idem ids_fresh_def buffer_fits_def)
  then show ?thesis using that False by simp
qed

lemma Write_splices:
  assumes ok: "fs_ok fs" and k: "handles fs h = Some k" "poFile k = Some a" "bUpdate k"
    and c: "file_contents fs a = Some c" and o: "nOffset k = int off"
    and n: "nSize * nCount = int n" "n \<le> length pBuffer"
    and r: "reallocates r m" "room_for m (int (off + n))"
  obtains fs' gap where "VSIMemHandle_Write r h pBuffer nSize nCount fs = Some (nCount, fs')"
    and "fs_ok fs'" "same_nodes fs fs'" "handles fs' = (handles fs)(h \<mapsto> k\<lparr>nOffset := int (off + n)\<rparr>)"
    and "length gap = off - length c"
    and "file_contents fs' a = Some (take off (c @ gap) @ take n pBuffer @ drop (off + n) c)"
    and "\<forall>b. b \<noteq> a \<longrightarrow> file_contents fs' b = file_contents fs b"
proof -
  obtain f where f: "files fs a = Some f" "c = contents_of fs f" using c by (auto simp: file_contents_def)
  have len: "nLength f = int (length c)" using length_contents [OF ok f(1)] f(2) by simp
  have big: "int (off + n) < 2 ^ 64" using room_for_lt [OF r] .
  have u: "to_u64 (int n) = int n" "to_u64 (int n + int off) = int (off + n)" "to_u64 (int off + int n) = int (off + n)"
    using big by (simp_all add: to_u64_id)
  obtain f1 fs1 where s1: "(if int (off + n) > nLength f then SetLength r a (int (off + n)) fs else Some (True, fs)) = Some (True, fs1)"
    and rs: "resized a f (max (nLength f) (int (off + n))) f1 fs fs1" by (rule made_longer [OF ok f(1) r])
  then obtain xs zs where xs: "bytes_at (file_data f) fs = Some xs" "bytes_at (file_data f1) fs1 = Some (xs @ zs)"
    and ch1: "changed a f f1 fs fs1" and fit1: "buffer_fits fs1 f1" and len1: "nLength f1 = max (nLength f) (int (off + n))"
    by (auto simp: resized_def)
  have f1: "files fs1 a = Some f1" using ch1 by (simp add: changed_def)
  have ok1: "fs_ok fs1" by (rule changed_ok [OF ok ch1 fit1])
  have l1: "off + n \<le> length (xs @ zs)" using fit1 xs(2) len1 by (auto simp: buffer_fits_def)
  have "c = take (length c) xs" using f(2) xs(1) len by (simp add: contents_of_def)
  moreover have "length c \<le> length xs" using f(2) xs(1) by (simp add: contents_of_def)
  ultimately have cx: "take (length c) (xs @ zs) = c" by simp
  obtain fs2 where s2: "store_data a (int off) pBuffer (int n) fs1 = Some fs2" "changed a f1 f1 fs1 fs2" "buffer_fits fs2 f1"
    "bytes_at (file_data f1) fs2 = Some (take off (xs @ zs) @ take n pBuffer @ drop (off + n) (xs @ zs))"
    by (rule store_data_ok [OF ok1 f1 xs(2) l1 n(2)])
  have h2: "handles fs2 = handles fs" using ch1 s2(2) by (simp add: changed_def)
  obtain gap where gap: "length gap = off - length c" "contents_of fs2 f1 = take off (c @ gap) @ take n pBuffer @ drop (off + n) c"
  proof -
    have "nat (nLength f1) = max (length c) (off + length (take n pBuffer))"
      using len1 len n(2) by (auto simp: max_def)
    moreover have "off + length (take n pBuffer) \<le> length (xs @ zs)" using l1 by simp
    ultimately show ?thesis using take_splice [OF cx] that s2(4) n(2) unfolding contents_of_def
      by (metis length_take min_absorb2 option.sel)
  qed
  show ?thesis
  proof (rule that [of "set_handle h (k\<lparr>nOffset := int (off + n)\<rparr>) fs2" gap])
    show "VSIMemHandle_Write r h pBuffer nSize nCount fs =
        Some (nCount, set_handle h (k\<lparr>nOffset := int (off + n)\<rparr>) fs2)"
      using k f(1) o n(1) u s1 s2(1) by (auto simp: VSIMemHandle_Write_def Let_def split: if_splits)
    show "fs_ok (set_handle h (k\<lparr>nOffset := int (off + n)\<rparr>) fs2)"
      using set_handle_ok [OF changed_ok [OF ok1 s2(2,3)]] k(1) h2 big by simp
    show "same_nodes fs (set_handle h (k\<lparr>nOffset := int (off + n)\<rparr>) fs2)"
      using same_nodes_trans [OF changed_nodes [OF ch1] changed_nodes [OF s2(2)]] by simp
  qed (use h2 gap changed_contents [OF ok1 s2(2)] changed_contents(1) [OF ok ch1] in simp_all)
qed

end
