(* ===== verification/Vsi_Mem_Refs.thy ===== *)
theory Vsi_Mem_Refs
  imports Vsi_Mem_Facts
begin

text \<open>
  References to files: the list of names, the operations that take and drop references
  (\<open>Open\<close>, \<open>Close\<close>, \<open>Unlink\<close> and those on buffers), and that they keep the invariant.
\<close>

section \<open>The list of names\<close>

lemma str_less_irrefl [simp]: "\<not> str_less s s"
  by (induction s) auto

lemma str_less_trans: "str_less a b \<Longrightarrow> str_less b z \<Longrightarrow> str_less a z"
proof (induction a b arbitrary: z rule: str_less.induct)
  case (2 d t)
  then show ?case by (cases z) auto
next
  case (3 c s d t)
  then show ?case by (cases z) auto
qed simp

lemma str_less_total: "a = b \<or> str_less a b \<or> str_less b a"
proof (induction a b rule: str_less.induct)
  case (1 s)
  then show ?case by (cases s) auto
next
  case (3 c s d t)
  then show ?case using code_of_eq_iff [of c d] by auto
qed simp

lemma set_list_put: "k \<notin> fst ` set xs \<Longrightarrow> set (list_put k v xs) = insert (k, v) (set xs)"
  by (induction xs) (auto split: if_splits)

lemma keys_list_put: "set (map fst (list_put k v xs)) = insert k (set (map fst xs))"
proof (induction xs)
  case (Cons p xs)
  then show ?case by (cases p) (simp add: insert_commute)
qed simp

lemma sorted_list_put:
  "sorted_wrt str_less (map fst xs) \<Longrightarrow> sorted_wrt str_less (map fst (list_put k v xs))"
proof (induction xs)
  case (Cons p xs)
  obtain k' v' where p: "p = (k', v')" by fastforce
  have keys: "\<forall>k2 \<in> set (map fst xs). str_less k' k2" using Cons.prems p by simp
  show ?case
  proof (cases "k = k' \<or> str_less k k'")
    case True
    then show ?thesis using Cons.prems p keys by (auto dest: str_less_trans)
  next
    case False
    then have "str_less k' k" using str_less_total [of k k'] by blast
    then have "\<forall>k2 \<in> set (map fst (list_put k v xs)). str_less k' k2" using keys keys_list_put [of k v xs] by simp
    then show ?thesis using False Cons p by simp
  qed
qed simp

lemma sorted_distinct: "sorted_wrt str_less ks \<Longrightarrow> distinct ks"
  by (induction ks) auto

lemma map_of_list_put:
  "sorted_wrt str_less (map fst xs) \<Longrightarrow> map_of (list_put k v xs) = (map_of xs)(k \<mapsto> v)"
proof (induction xs)
  case (Cons p xs)
  then show ?case by (cases p) (auto simp: fun_eq_iff)
qed simp

lemma length_filter_list_put:
  "k \<notin> fst ` set xs \<Longrightarrow> length (filter P (list_put k v xs)) = length (filter P xs) + (if P (k, v) then 1 else 0)"
  by (induction xs) auto

lemma map_of_list_erase: "map_of (list_erase k xs) = (map_of xs)(k := None)"
  by (induction xs) (auto simp: list_erase_def)

lemma sorted_filter: "sorted_wrt R (map fst xs) \<Longrightarrow> sorted_wrt R (map fst (filter P xs))"
  by (induction xs) auto

lemma count_value:
  assumes "distinct (map fst xs)" and "\<forall>p \<in> set xs. snd p = a \<longrightarrow> fst p = n"
  shows "length (filter (\<lambda>p. snd p = a) xs) = (if map_of xs n = Some a then 1 else 0)"
  using assms
proof (induction xs)
  case (Cons p xs)
  then have IH: "length (filter (\<lambda>p. snd p = a) xs) = (if map_of xs n = Some a then 1 else 0)" by simp
  show ?case
  proof (cases "snd p = a")
    case True
    then have "fst p = n" using Cons.prems(2) by simp
    then have "map_of xs n = None" using Cons.prems(1) by (auto simp: map_of_eq_None_iff)
    then show ?thesis using IH True \<open>fst p = n\<close> by (cases p) simp
  next
    case False
    then show ?thesis using IH Cons.prems(1) by (cases p) (force dest: map_of_SomeD)
  qed
qed simp

lemma names_distinct: "fs_ok fs \<Longrightarrow> distinct (map fst (oFileList fs))"
  using fs_okD(1) by (auto simp: names_ok_def intro: sorted_distinct)

lemma named_file:
  assumes "fs_ok fs" and "map_of (oFileList fs) n = Some a"
  obtains f where "files fs a = Some f" "osFilename f = n"
  using fs_okD(1) [OF assms(1)] map_of_SomeD [OF assms(2)] by (fastforce simp: names_ok_def)

lemma listed_iff:
  assumes "fs_ok fs" and "files fs a = Some f"
  shows "listed fs a = (if map_of (oFileList fs) (osFilename f) = Some a then 1 else 0)"
proof -
  have "\<forall>p \<in> set (oFileList fs). snd p = a \<longrightarrow> fst p = osFilename f"
    using fs_okD(1) [OF assms(1)] assms(2) by (fastforce simp: names_ok_def)
  then show ?thesis unfolding listed_def by (rule count_value [OF names_distinct [OF assms(1)]])
qed

section \<open>Dropping a reference\<close>

text \<open>\<open>dropped a f fs fs'\<close>: file \<open>a\<close>, which was \<open>f\<close>, has one reference less and is gone if that was the last one;
  an owned buffer goes with it.\<close>

definition freed :: "mem_file \<Rightarrow> (nat \<Rightarrow> octets option) \<Rightarrow> nat \<Rightarrow> octets option" where
  "freed f bufs b = (if bOwnData f \<and> file_data f = Some b then None else bufs b)"

definition dropped :: "nat \<Rightarrow> mem_file \<Rightarrow> mem_fs \<Rightarrow> mem_fs \<Rightarrow> bool" where
  "dropped a f fs fs' =
     (files fs a = Some f \<and> next_id fs' = next_id fs \<and>
      (\<exists>P. oFileList fs' = filter P (oFileList fs)) \<and> handles fs' \<subseteq>\<^sub>m handles fs \<and>
      (if nRefCount f = 1
       then files fs' = (files fs)(a := None) \<and>
         buffers fs' = freed f (buffers fs)
       else files fs' = (files fs)(a \<mapsto> f\<lparr>nRefCount := nRefCount f - 1\<rparr>) \<and> buffers fs' = buffers fs))"

lemma delete_file_ok:
  assumes "files fs a = Some f" and "bytes_at (file_data f) fs \<noteq> None"
  shows "delete_file a fs = Some (fs\<lparr>files := (files fs)(a := None),
    buffers := freed f (buffers fs)\<rparr>)"
  using assms
  by (cases "file_data f") (auto simp: delete_file_def free_buffer_def bytes_at_def fun_eq_iff freed_def intro!: mem_fs.equality)

lemma release_ok:
  assumes "fs_ok fs" and "files fs a = Some f"
  obtains fs' where "release a fs = Some fs'" "dropped a f fs fs'" "handles fs' = handles fs" "oFileList fs' = oFileList fs"
    "errno_set fs' = errno_set fs"
proof -
  have all: "\<exists>P. oFileList fs = filter P (oFileList fs)" by (rule exI [of _ "\<lambda>_. True"]) simp
  have "bytes_at (file_data f) fs \<noteq> None" using file_okD(3) [OF assms] by (auto simp: buffer_fits_def)
  then have "delete_file a (set_file a (f\<lparr>nRefCount := nRefCount f - 1\<rparr>) fs) =
    Some ((set_file a (f\<lparr>nRefCount := nRefCount f - 1\<rparr>) fs)\<lparr>files := (files fs)(a := None),
      buffers := freed f (buffers fs)\<rparr>)"
    using delete_file_ok [of "set_file a (f\<lparr>nRefCount := nRefCount f - 1\<rparr>) fs" a]
    by (simp add: freed_def [abs_def])
  note del = this
  show ?thesis
  proof (cases "nRefCount f = 1")
    case True
    show ?thesis
      by (rule that [of "(set_file a (f\<lparr>nRefCount := nRefCount f - 1\<rparr>) fs)\<lparr>files := (files fs)(a := None),
          buffers := freed f (buffers fs)\<rparr>"])
        (use True assms(2) del all in \<open>simp_all add: release_def dropped_def set_file_def\<close>)
  next
    case False
    show ?thesis
      by (rule that [of "set_file a (f\<lparr>nRefCount := nRefCount f - 1\<rparr>) fs"])
        (use False assms(2) all in \<open>simp_all add: release_def dropped_def set_file_def\<close>)
  qed
qed

lemma no_refs:
  assumes "fs_ok fs" and "refs fs a = 0"
  shows "handles fs h = Some k \<Longrightarrow> poFile k \<noteq> Some a" and "(n, a) \<notin> set (oFileList fs)"
proof -
  have "finite (users fs a)"
    using fs_okD(2) [OF assms(1)] by (auto simp: handles_ok_def users_def intro: finite_subset [of _ "dom (handles fs)"])
  moreover have "listed fs a = 0" "card (users fs a) = 0" using assms(2) by (simp_all add: refs_def)
  ultimately have "users fs a = {}" "filter (\<lambda>p. snd p = a) (oFileList fs) = []" by (simp_all add: listed_def)
  then show "handles fs h = Some k \<Longrightarrow> poFile k \<noteq> Some a" "(n, a) \<notin> set (oFileList fs)"
    by (auto simp: users_def filter_empty_conv)
qed

lemma dropped_buffer:
  assumes "fs_ok fs" and "dropped a f fs fs'" and "files fs b = Some g" and "nRefCount f = 1 \<longrightarrow> b \<noteq> a"
  shows "bytes_at (file_data g) fs' = bytes_at (file_data g) fs"
proof -
  have "file_data f \<noteq> file_data g" if "nRefCount f = 1" "file_data g = Some p" for p
    using that assms fs_okD(4) [OF assms(1)] unfolding unshared_def dropped_def by metis
  then show ?thesis using assms(2)
    by (cases "file_data g") (auto simp: dropped_def bytes_at_def freed_def split: if_splits)
qed

lemma dropped_file:
  assumes "dropped a f fs fs'" and "files fs' b = Some g'"
  obtains g where "files fs b = Some g" "osFilename g' = osFilename g" "bIsDirectory g' = bIsDirectory g"
    "file_data g' = file_data g" "nLength g' = nLength g" "nAllocLength g' = nAllocLength g"
    "nRefCount g' = nRefCount g - (if b = a then 1 else 0)" "nRefCount f = 1 \<longrightarrow> b \<noteq> a"
  using assms by (cases "b = a") (auto simp: dropped_def split: if_splits)

lemma dropped_names:
  assumes ok: "fs_ok fs" and d: "dropped a f fs fs'" and refs: "\<And>b. refs fs' b = refs fs b - (if b = a then 1 else 0)"
    and hok: "handles_ok fs'"
  shows "names_ok fs'"
proof -
  have names: "\<exists>g. files fs' b = Some g \<and> osFilename g = n" if nb: "(n, b) \<in> set (oFileList fs')" for n b
  proof -
    have "(n, b) \<in> set (oFileList fs)" using nb d by (auto simp: dropped_def)
    then obtain g where g: "files fs b = Some g" "osFilename g = n" using fs_okD(1) [OF ok] by (auto simp: names_ok_def)
    have "\<not> (nRefCount f = 1 \<and> b = a)"
    proof
      assume h: "nRefCount f = 1 \<and> b = a"
      then have "refs fs a = 1" using file_okD(1) [OF ok g(1)] d g(1) by (simp add: dropped_def)
      then have "listed fs' a = 0" using refs [of a] by (simp add: refs_def)
      then show False using nb h by (auto simp: listed_def filter_empty_conv)
    qed
    then show ?thesis using g d by (auto simp: dropped_def split: if_splits)
  qed
  obtain P where P: "oFileList fs' = filter P (oFileList fs)" using d by (auto simp: dropped_def)
  have "sorted_wrt str_less (map fst (oFileList fs'))"
    unfolding P using fs_okD(1) [OF ok] by (intro sorted_filter) (simp add: names_ok_def)
  then show ?thesis using names by (auto simp: names_ok_def)
qed

lemma dropped_ok:
  assumes ok: "fs_ok fs" and d: "dropped a f fs fs'" and refs: "\<And>b. refs fs' b = refs fs b - (if b = a then 1 else 0)"
  shows "fs_ok fs'" and "files fs' b \<noteq> None \<Longrightarrow> file_contents fs' b = file_contents fs b"
proof -
  have sub: "handles fs h = Some k" if "handles fs' h = Some k" for h k
    using d that unfolding dropped_def map_le_def by (metis domI)
  have fin: "finite (dom (handles fs'))"
    using d fs_okD(2) [OF ok] by (auto simp: dropped_def handles_ok_def dest!: map_le_implies_dom_le intro: finite_subset)
  have live: "b \<noteq> a" if "handles fs' h = Some k" "poFile k = Some b" "nRefCount f = 1" for h k b
  proof
    assume b: "b = a"
    have fa: "files fs a = Some f" using d by (simp add: dropped_def)
    have "refs fs' a = 0" using refs [of a] file_okD(1) [OF ok fa] that(3) by simp
    then have "card (users fs' a) = 0" by (simp add: refs_def)
    moreover have "finite (users fs' a)" using fin by (auto simp: users_def intro: finite_subset [of _ "dom (handles fs')"])
    ultimately show False using that b by (auto simp: users_def)
  qed
  have hok: "handles_ok fs'" unfolding handles_ok_def
  proof (intro conjI allI impI)
    fix h k assume h: "handles fs' h = Some k"
    obtain b g where b: "poFile k = Some b" "files fs b = Some g" "\<not> bIsDirectory g" "0 \<le> nOffset k" "nOffset k < 2 ^ 64"
      by (rule handle_okE [OF ok sub [OF h]])
    then have "\<exists>g. files fs' b = Some g \<and> \<not> bIsDirectory g" using d live [OF h b(1)] by (auto simp: dropped_def split: if_splits)
    then show "\<exists>a f. poFile k = Some a \<and> files fs' a = Some f \<and> \<not> bIsDirectory f" using b(1) by blast
    show "0 \<le> nOffset k" "nOffset k < 2 ^ 64" by fact+
  qed (rule fin)
  have "files_ok fs'" unfolding files_ok_def
  proof (intro allI impI)
    fix b g' assume g': "files fs' b = Some g'"
    obtain g where g: "files fs b = Some g" "file_data g' = file_data g" "nLength g' = nLength g"
      "nAllocLength g' = nAllocLength g" "nRefCount g' = nRefCount g - (if b = a then 1 else 0)" "nRefCount f = 1 \<longrightarrow> b \<noteq> a"
      by (rule dropped_file [OF d g'])
    have "b = a \<Longrightarrow> g = f" using d g(1) by (simp add: dropped_def)
    then have "0 < nRefCount g'" using file_okD(2) [OF ok g(1)] g(5,6) by auto
    then show "nRefCount g' = refs fs' b \<and> 0 < nRefCount g' \<and> buffer_fits fs' g'"
      using file_okD(1,3) [OF ok g(1)] g refs [of b] dropped_buffer [OF ok d g(1,6)] by (simp add: buffer_fits_def)
  qed
  moreover have "unshared fs'" unfolding unshared_def
  proof (intro allI impI)
    fix b b2 g g2 p
    assume h: "files fs' b = Some g" "files fs' b2 = Some g2" "file_data g = Some p" "file_data g2 = Some p"
    show "b = b2" using fs_okD(4) [OF ok] dropped_file [OF d h(1)] dropped_file [OF d h(2)] h(3,4)
      unfolding unshared_def by metis
  qed
  moreover have "ids_fresh fs'" unfolding ids_fresh_def
  proof (intro allI impI)
    fix b assume "b \<ge> next_id fs'"
    then have n: "files fs b = None" "handles fs b = None" "buffers fs b = None"
      using fs_okD(5) [OF ok] d by (auto simp: ids_fresh_def dropped_def)
    then show "files fs' b = None \<and> handles fs' b = None \<and> buffers fs' b = None"
      using d sub [of b] by (cases "handles fs' b") (auto simp: dropped_def freed_def split: if_splits)
  qed
  ultimately show "fs_ok fs'" using dropped_names [OF ok d refs hok] hok by (simp add: fs_ok_def)
  show "file_contents fs' b = file_contents fs b" if some: "files fs' b \<noteq> None"
  proof -
    obtain g' where g': "files fs' b = Some g'" using some by blast
    obtain g where g: "files fs b = Some g" "file_data g' = file_data g" "nLength g' = nLength g" "nRefCount f = 1 \<longrightarrow> b \<noteq> a"
      by (rule dropped_file [OF d g'])
    then show ?thesis using g' dropped_buffer [OF ok d g(1,4)] by (simp add: file_contents_def contents_of_def)
  qed
qed

section \<open>Closing and unlinking\<close>

lemma finite_users: "fs_ok fs \<Longrightarrow> finite (users fs a)"
  using fs_okD(2) by (auto simp: handles_ok_def users_def intro: finite_subset [of _ "dom (handles fs)"])

lemma VSIFCloseL_ok:
  assumes ok: "fs_ok fs" and k: "handles fs h = Some k" "poFile k = Some a" and f: "files fs a = Some f"
  obtains fs' where "VSIFCloseL h fs = Some (0, fs')" "fs_ok fs'" "dropped a f fs fs'"
    "handles fs' = (handles fs)(h := None)" "oFileList fs' = oFileList fs"
    "\<forall>b. files fs' b \<noteq> None \<longrightarrow> file_contents fs' b = file_contents fs b"
proof -
  obtain fs1 where fs1: "release a fs = Some fs1" "dropped a f fs fs1" "handles fs1 = handles fs" "oFileList fs1 = oFileList fs"
    by (rule release_ok [OF ok f])
  let ?fs = "(set_handle h (k\<lparr>poFile := None\<rparr>) fs1)\<lparr>handles := (handles fs)(h := None)\<rparr>"
  have d: "dropped a f fs ?fs" using fs1(2,4) by (auto simp: dropped_def map_le_def)
  have u: "users ?fs b = users fs b - {h}" for b by (auto simp: users_def)
  have "h \<in> users fs a" and not: "\<And>b. b \<noteq> a \<Longrightarrow> h \<notin> users fs b" using k by (auto simp: users_def)
  then have "int (card (users fs a - {h})) = int (card (users fs a)) - 1"
    using finite_users [OF ok, of a] card_Suc_Diff1 [of "users fs a" h] by linarith
  then have refs: "refs ?fs b = refs fs b - (if b = a then 1 else 0)" for b
    using not [of b] u [of b] fs1(4) by (simp add: refs_def listed_def)
  have ok': "fs_ok ?fs" "\<forall>b. files ?fs b \<noteq> None \<longrightarrow> file_contents ?fs b = file_contents fs b"
    using dropped_ok [OF ok d refs] by blast+
  have "VSIFCloseL h fs = Some (0, ?fs)"
    using k fs1(1,3) by (simp add: VSIFCloseL_def VSIMemHandle_Close_def set_handle_def fun_upd_idem)
  then show ?thesis using that [OF _ ok'(1) d _ _ ok'(2)] fs1(4) by simp
qed

lemma listed_erase:
  assumes "distinct (map fst (oFileList fs))" and "map_of (oFileList fs) n = Some a"
    and "oFileList fs' = list_erase n (oFileList fs)"
  shows "int (listed fs' b) = int (listed fs b) - (if b = a then 1 else 0)"
proof -
  have "length (filter (\<lambda>p. snd p = b) xs) = length (filter (\<lambda>p. snd p = b) (list_erase n xs)) + (if b = a then 1 else 0)"
    if "distinct (map fst xs)" "map_of xs n = Some a" for xs
    using that
  proof (induction xs)
    case (Cons p xs)
    show ?case
    proof (cases "fst p = n")
      case True
      then have "n \<notin> fst ` set xs" using Cons.prems(1) by auto
      then have "\<forall>q \<in> set xs. fst q \<noteq> n" by (metis image_eqI)
      then have "list_erase n xs = xs" by (simp add: list_erase_def filter_id_conv)
      then show ?thesis using True Cons.prems(2) by (cases p) (auto simp: list_erase_def)
    next
      case False
      then show ?thesis using Cons by (cases p; cases "b = a") (simp_all add: list_erase_def)
    qed
  qed simp
  then show ?thesis using assms by (simp add: listed_def)
qed

lemma VSIMem_Unlink_ok:
  assumes ok: "fs_ok fs" and n: "map_of (oFileList fs) (NormalizePath name) = Some a" and f: "files fs a = Some f"
  obtains fs' where "VSIMem_Unlink name fs = Some (0, fs')" "fs_ok fs'" "dropped a f fs fs'" "handles fs' = handles fs"
    "oFileList fs' = list_erase (NormalizePath name) (oFileList fs)"
    "\<forall>b. files fs' b \<noteq> None \<longrightarrow> file_contents fs' b = file_contents fs b"
proof -
  obtain fs1 where fs1: "release a fs = Some fs1" "dropped a f fs fs1" "handles fs1 = handles fs" "oFileList fs1 = oFileList fs"
    by (rule release_ok [OF ok f])
  let ?fs = "fs1\<lparr>oFileList := list_erase (NormalizePath name) (oFileList fs)\<rparr>"
  have d: "dropped a f fs ?fs" using fs1(2) by (auto simp: dropped_def list_erase_def)
  have "users ?fs b = users fs b" for b using fs1(3) by (simp add: users_def)
  then have refs: "refs ?fs b = refs fs b - (if b = a then 1 else 0)" for b
    using listed_erase [OF names_distinct [OF ok] n, of ?fs b] by (simp add: refs_def)
  have ok': "fs_ok ?fs" "\<forall>b. files ?fs b \<noteq> None \<longrightarrow> file_contents ?fs b = file_contents fs b"
    using dropped_ok [OF ok d refs] by blast+
  have "VSIMem_Unlink name fs = Some (0, ?fs)" using n fs1(1,4) by (simp add: VSIMem_Unlink_def)
  then show ?thesis using that [OF _ ok'(1) d _ _ ok'(2)] fs1(3) by simp
qed

section \<open>Opening\<close>

definition handle_on :: "nat \<Rightarrow> mem_file \<Rightarrow> cstring \<Rightarrow> mem_handle" where
  "handle_on a f acc =
     \<lparr>poFile = Some a, nOffset = (if CHR ''a'' \<in> set acc then nLength f else 0),
      bUpdate = (CHR ''w'' \<in> set acc \<or> CHR ''+'' \<in> set acc \<or> CHR ''a'' \<in> set acc)\<rparr>"

lemma new_handle_ok:
  assumes ok: "fs_ok fs" and f: "files fs a = Some f" "\<not> bIsDirectory f"
  obtains fs' where "new_handle a acc fs = Some (Some (next_id fs), fs')" "fs_ok fs'"
    "handles fs' = (handles fs)(next_id fs \<mapsto> handle_on a f acc)" "oFileList fs' = oFileList fs" "file_contents fs' = file_contents fs"
    "files fs' = (files fs)(a \<mapsto> f\<lparr>nRefCount := nRefCount f + 1\<rparr>)"
proof -
  let ?k = "handle_on a f acc"
  let ?f = "f\<lparr>nRefCount := nRefCount f + 1\<rparr>"
  let ?fs = "set_handle (next_id fs) ?k ((set_file a ?f fs)\<lparr>next_id := Suc (next_id fs)\<rparr>)"
  have fresh: "handles fs (next_id fs) = None" using fs_okD(5) [OF ok] by (simp add: ids_fresh_def)
  have bts: "bytes_at p ?fs = bytes_at p fs" for p by (rule bytes_at_cong) simp
  have u: "users ?fs b = (if b = a then insert (next_id fs) (users fs b) else users fs b)" for b
    using fresh by (auto simp: users_def handle_on_def)
  have "next_id fs \<notin> users fs b" for b using fresh by (auto simp: users_def)
  then have refs: "refs ?fs b = refs fs b + (if b = a then 1 else 0)" for b
    using card_insert_disjoint [OF finite_users [OF ok], of "next_id fs" b] u [of b]
    by (cases "b = a") (simp_all add: refs_def listed_def)
  have fit: "0 \<le> nLength f" "nLength f < 2 ^ 64" using file_okD(3) [OF ok f(1)] by (simp_all add: buffer_fits_def)
  have "names_ok ?fs" using fs_okD(1) [OF ok] f(1) by (fastforce simp: names_ok_def)
  moreover have "handles_ok ?fs" unfolding handles_ok_def
  proof (intro conjI allI impI)
    fix h2 k2 assume h2: "handles ?fs h2 = Some k2"
    have "\<exists>b g. poFile k2 = Some b \<and> files fs b = Some g \<and> \<not> bIsDirectory g \<and> 0 \<le> nOffset k2 \<and> nOffset k2 < 2 ^ 64"
    proof (cases "h2 = next_id fs")
      case True
      then show ?thesis using h2 f fit by (auto simp: handle_on_def)
    next
      case False
      then show ?thesis using h2 by (auto elim: handle_okE [OF ok])
    qed
    then show "0 \<le> nOffset k2" "nOffset k2 < 2 ^ 64"
      "\<exists>a f. poFile k2 = Some a \<and> files ?fs a = Some f \<and> \<not> bIsDirectory f" using f(1) by auto
  qed (use fs_okD(2) [OF ok] in \<open>simp add: handles_ok_def\<close>)
  moreover have "files_ok ?fs" unfolding files_ok_def
  proof (intro allI impI)
    fix b g assume g: "files ?fs b = Some g"
    obtain g0 where g0: "files fs b = Some g0" "nRefCount g = nRefCount g0 + (if b = a then 1 else 0)"
      "nLength g = nLength g0" "nAllocLength g = nAllocLength g0" "file_data g = file_data g0"
      using g f(1) by (cases "b = a") auto
    then show "nRefCount g = refs ?fs b \<and> 0 < nRefCount g \<and> buffer_fits ?fs g"
      using file_okD(1-3) [OF ok g0(1)] refs [of b] bts by (auto simp: buffer_fits_def)
  qed
  moreover have "unshared ?fs"
    using fs_okD(4) [OF ok] f(1) unfolding unshared_def by (auto split: if_splits)
  moreover have "ids_fresh ?fs" using fs_okD(5) [OF ok] file_okD(4) [OF ok f(1)] by (simp add: ids_fresh_def)
  ultimately have "fs_ok ?fs" by (simp add: fs_ok_def)
  moreover have "file_contents ?fs = file_contents fs"
  proof
    show "file_contents ?fs b = file_contents fs b" for b
      using f(1) bts by (simp add: file_contents_def contents_of_def map_option_case split: option.split)
  qed
  moreover have "new_handle a acc fs = Some (Some (next_id fs), ?fs)"
    using f by (simp add: new_handle_def handle_on_def Let_def)
  ultimately show ?thesis using that by simp
qed

end
