(* ===== verification/Vsi_Mem_Calls.thy ===== *)
theory Vsi_Mem_Calls
  imports Vsi_Mem_Refs
begin

text \<open>
  The operations of the file system in memory as its callers use them: every allowed call returns
  and keeps the invariant, whatever calls came before; names find what was written under them.
\<close>

section \<open>Opening files\<close>

lemma enter_file_ok:
  assumes ok: "fs_ok fs" and n: "map_of (oFileList fs) name = None"
    and g: "nRefCount g = 0" "buffer_fits fs g"
    and own: "\<And>b f p. files fs b = Some f \<Longrightarrow> file_data g = Some p \<Longrightarrow> file_data f \<noteq> Some p"
  obtains fs' where "enter_file name g fs = (next_id fs, fs')" "fs_ok fs'" "handles fs' = handles fs"
    "files fs' = (files fs)(next_id fs \<mapsto> g\<lparr>osFilename := name, nRefCount := 1\<rparr>)"
    "map_of (oFileList fs') = (map_of (oFileList fs))(name \<mapsto> next_id fs)"
    "file_contents fs' = (file_contents fs)(next_id fs \<mapsto> contents_of fs g)"
proof -
  let ?a = "next_id fs"
  let ?g = "g\<lparr>osFilename := name, nRefCount := 1\<rparr>"
  let ?fs = "fs\<lparr>oFileList := list_put name ?a (oFileList fs), files := (files fs)(?a \<mapsto> ?g), next_id := Suc ?a\<rparr>"
  have key: "name \<notin> fst ` set (oFileList fs)" using n by (simp add: map_of_eq_None_iff)
  have sorted: "sorted_wrt str_less (map fst (oFileList fs))" using fs_okD(1) [OF ok] by (simp add: names_ok_def)
  have fresh: "files fs ?a = None" using fs_okD(5) [OF ok] by (simp add: ids_fresh_def)
  have bts: "bytes_at p ?fs = bytes_at p fs" for p by (rule bytes_at_cong) simp
  have u: "users ?fs b = users fs b" for b by (simp add: users_def)
  have refs: "refs ?fs b = refs fs b + (if b = ?a then 1 else 0)" for b
    using u [of b] length_filter_list_put [OF key, of "\<lambda>p. snd p = b" ?a] by (simp add: refs_def listed_def)
  have none: "refs fs ?a = 0"
  proof -
    have "users fs ?a = {}" using fresh by (auto simp: users_def elim!: handle_okE [OF ok])
    moreover have "listed fs ?a = 0"
      using fs_okD(1) [OF ok] fresh by (fastforce simp: listed_def names_ok_def filter_empty_conv)
    ultimately show ?thesis by (simp add: refs_def)
  qed
  have "names_ok ?fs"
    using fs_okD(1) [OF ok] set_list_put [OF key] sorted_list_put [OF sorted] fresh by (fastforce simp: names_ok_def)
  moreover have "handles_ok ?fs" unfolding handles_ok_def
  proof (intro conjI allI impI)
    fix h k assume h: "handles ?fs h = Some k"
    then have h': "handles fs h = Some k" by simp
    obtain b f where b: "poFile k = Some b" "files fs b = Some f" "\<not> bIsDirectory f" "0 \<le> nOffset k" "nOffset k < 2 ^ 64"
      by (rule handle_okE [OF ok h'])
    then show "0 \<le> nOffset k" "nOffset k < 2 ^ 64" "\<exists>a f. poFile k = Some a \<and> files ?fs a = Some f \<and> \<not> bIsDirectory f"
      using fresh by auto
  qed (use fs_okD(2) [OF ok] in \<open>simp add: handles_ok_def\<close>)
  moreover have "files_ok ?fs" unfolding files_ok_def
  proof (intro allI impI)
    fix b f assume f: "files ?fs b = Some f"
    show "nRefCount f = refs ?fs b \<and> 0 < nRefCount f \<and> buffer_fits ?fs f"
    proof (cases "b = ?a")
      case True
      then show ?thesis using f refs [of b] none g bts by (auto simp: buffer_fits_def)
    next
      case False
      then have "files fs b = Some f" using f by simp
      then show ?thesis using file_okD(1-3) [OF ok] False refs [of b] bts by (auto simp: buffer_fits_def)
    qed
  qed
  moreover have "unshared ?fs"
    using fs_okD(4) [OF ok] own unfolding unshared_def by (auto split: if_splits)
  moreover have "ids_fresh ?fs" using fs_okD(5) [OF ok] by (simp add: ids_fresh_def)
  ultimately have "fs_ok ?fs" by (simp add: fs_ok_def)
  moreover have "file_contents ?fs = (file_contents fs)(?a \<mapsto> contents_of fs g)"
    using bts by (intro ext) (simp add: file_contents_def contents_of_def map_option_case split: option.split)
  ultimately show ?thesis
    using that [of ?fs] map_of_list_put [OF sorted] g(1) by (simp add: enter_file_def)
qed

text \<open>Which files are directories.\<close>

definition dir_at :: "mem_fs \<Rightarrow> nat \<Rightarrow> bool option" where
  "dir_at fs a = map_option bIsDirectory (files fs a)"

lemma same_nodes_dirs:
  assumes "same_nodes fs fs'"
  shows "dir_at fs' = dir_at fs"
proof
  fix a
  have "map_option (\<lambda>(n, c, d). d) (map_option node (files fs' a)) = map_option (\<lambda>(n, c, d). d) (map_option node (files fs a))"
    using assms by (simp add: same_nodes_def)
  then show "dir_at fs' a = dir_at fs a" by (simp add: dir_at_def node_def option.map_comp comp_def)
qed

lemma dropped_dirs: "dropped a f fs fs' \<Longrightarrow> files fs' b \<noteq> None \<Longrightarrow> dir_at fs' b = dir_at fs b"
  by (auto simp: dir_at_def elim: dropped_file)

lemma new_file_fits: "buffer_fits fs VSIMemFile_new" "contents_of fs VSIMemFile_new = []"
  by (simp_all add: buffer_fits_def VSIMemFile_new_def bytes_at_def contents_of_def)

lemma truncated:
  assumes ok: "fs_ok fs" and f: "files fs a = Some f"
  obtains fs' where "SetLength r a 0 fs = Some (True, fs')" "fs_ok fs'" "changed a f (f\<lparr>nLength := 0\<rparr>) fs fs'"
    "file_contents fs' = (file_contents fs)(a \<mapsto> [])"
proof -
  let ?fs = "set_file a (f\<lparr>nLength := 0\<rparr>) fs"
  have fit: "buffer_fits fs f" by (rule file_okD [OF ok f])
  have ch: "changed a f (f\<lparr>nLength := 0\<rparr>) fs ?fs" using f fs_okD(5) [OF ok] by (simp add: changed_def ids_fresh_def)
  have "fs_ok ?fs" by (rule changed_ok [OF ok ch]) (use fit in \<open>auto simp: buffer_fits_def\<close>)
  moreover have "file_contents ?fs = (file_contents fs)(a \<mapsto> [])"
    using changed_contents [OF ok ch] by (auto simp: fun_eq_iff contents_of_def)
  ultimately show ?thesis using that [of ?fs] ch f fit by (simp add: SetLength_def buffer_fits_def)
qed

text \<open>Opening for reading or appending.\<close>

lemma Open_existing:
  assumes ok: "fs_ok fs" and n: "map_of (oFileList fs) (NormalizePath name) = Some a" and f: "files fs a = Some f"
    and w: "CHR ''w'' \<notin> set acc"
  shows "bIsDirectory f \<Longrightarrow> VSIMem_Open r name acc fs = Some (None, failed EISDIR fs)"
    and "\<not> bIsDirectory f \<Longrightarrow> \<exists>fs'. VSIMem_Open r name acc fs = Some (Some (next_id fs), fs') \<and> fs_ok fs' \<and>
      handles fs' = (handles fs)(next_id fs \<mapsto> handle_on a f acc) \<and> oFileList fs' = oFileList fs \<and>
      file_contents fs' = file_contents fs \<and> dir_at fs' = dir_at fs"
proof -
  show "VSIMem_Open r name acc fs = Some (None, failed EISDIR fs)" if "bIsDirectory f"
    using that n w f by (simp add: VSIMem_Open_def new_handle_def)
  assume d: "\<not> bIsDirectory f"
  obtain fs' where "new_handle a acc fs = Some (Some (next_id fs), fs')" "fs_ok fs'"
    "handles fs' = (handles fs)(next_id fs \<mapsto> handle_on a f acc)" "oFileList fs' = oFileList fs"
    "file_contents fs' = file_contents fs" "files fs' = (files fs)(a \<mapsto> f\<lparr>nRefCount := nRefCount f + 1\<rparr>)"
    by (rule new_handle_ok [OF ok f d])
  then show "\<exists>fs'. VSIMem_Open r name acc fs = Some (Some (next_id fs), fs') \<and> fs_ok fs' \<and>
      handles fs' = (handles fs)(next_id fs \<mapsto> handle_on a f acc) \<and> oFileList fs' = oFileList fs \<and>
      file_contents fs' = file_contents fs \<and> dir_at fs' = dir_at fs"
    using n w f by (auto simp: VSIMem_Open_def dir_at_def fun_eq_iff)
qed

text \<open>Opening with \<open>w\<close>: the file is there and empty, unless it is a directory.\<close>

lemma Open_w:
  assumes ok: "fs_ok fs" and w: "CHR ''w'' \<in> set acc" "CHR ''a'' \<notin> set acc"
    and dir: "\<And>a f. map_of (oFileList fs) (NormalizePath name) = Some a \<Longrightarrow> files fs a = Some f \<Longrightarrow> \<not> bIsDirectory f"
  obtains h a fs' k where "VSIMem_Open r name acc fs = Some (Some h, fs')" "fs_ok fs'" "handles fs h = None"
    "handles fs' = (handles fs)(h \<mapsto> k)" "poFile k = Some a" "nOffset k = 0" "bUpdate k"
    "map_of (oFileList fs') = (map_of (oFileList fs))(NormalizePath name \<mapsto> a)"
    "file_contents fs' = (file_contents fs)(a \<mapsto> [])" "dir_at fs' = (dir_at fs)(a \<mapsto> False)"
    "\<forall>b. map_of (oFileList fs) (NormalizePath name) = Some b \<longrightarrow> b = a"
proof -
  have no: "handles fs b = None" if "b \<ge> next_id fs" for b using fs_okD(5) [OF ok] that by (simp add: ids_fresh_def)
  show ?thesis
  proof (cases "map_of (oFileList fs) (NormalizePath name)")
    case None
    obtain fs1 where fs1: "enter_file (NormalizePath name) VSIMemFile_new fs = (next_id fs, fs1)" "fs_ok fs1"
      "handles fs1 = handles fs"
      "files fs1 = (files fs)(next_id fs \<mapsto> VSIMemFile_new\<lparr>osFilename := NormalizePath name, nRefCount := 1\<rparr>)"
      "map_of (oFileList fs1) = (map_of (oFileList fs))(NormalizePath name \<mapsto> next_id fs)"
      "file_contents fs1 = (file_contents fs)(next_id fs \<mapsto> contents_of fs VSIMemFile_new)"
      by (rule enter_file_ok [OF ok None, of VSIMemFile_new]) (simp_all add: new_file_fits, simp_all add: VSIMemFile_new_def)
    let ?f = "VSIMemFile_new\<lparr>osFilename := NormalizePath name, nRefCount := 1\<rparr>"
    have f: "files fs1 (next_id fs) = Some ?f" using fs1(4) by simp
    have "\<not> bIsDirectory ?f" by (simp add: VSIMemFile_new_def)
    then obtain fs2 where fs2: "new_handle (next_id fs) acc fs1 = Some (Some (next_id fs1), fs2)" "fs_ok fs2"
      "handles fs2 = (handles fs1)(next_id fs1 \<mapsto> handle_on (next_id fs) ?f acc)" "oFileList fs2 = oFileList fs1"
      "file_contents fs2 = file_contents fs1" "files fs2 = (files fs1)(next_id fs \<mapsto> ?f\<lparr>nRefCount := nRefCount ?f + 1\<rparr>)"
      using new_handle_ok [OF fs1(2) f] by metis
    have "dir_at fs2 = (dir_at fs)(next_id fs \<mapsto> False)"
      using fs1(4) fs2(6) by (auto simp: dir_at_def fun_eq_iff VSIMemFile_new_def)
    moreover have "next_id fs \<le> next_id fs1" using file_okD(4) [OF fs1(2) f] by simp
    ultimately show ?thesis
      using that [OF _ fs2(2) no fs2(3) [unfolded fs1(3)], of "next_id fs"] None w fs1 fs2
      by (simp add: VSIMem_Open_def handle_on_def new_file_fits)
  next
    case (Some a)
    obtain f where f: "files fs a = Some f" by (rule named_file [OF ok Some])
    obtain fs1 where fs1: "SetLength r a 0 fs = Some (True, fs1)" "fs_ok fs1" "changed a f (f\<lparr>nLength := 0\<rparr>) fs fs1"
      "file_contents fs1 = (file_contents fs)(a \<mapsto> [])" by (rule truncated [OF ok f])
    have f1: "files fs1 a = Some (f\<lparr>nLength := 0\<rparr>)" "oFileList fs1 = oFileList fs" "handles fs1 = handles fs" "next_id fs \<le> next_id fs1"
      using fs1(3) by (simp_all add: changed_def)
    have "\<not> bIsDirectory (f\<lparr>nLength := 0\<rparr>)" using dir [OF Some f] by simp
    then obtain fs2 where fs2: "new_handle a acc fs1 = Some (Some (next_id fs1), fs2)" "fs_ok fs2"
      "handles fs2 = (handles fs1)(next_id fs1 \<mapsto> handle_on a (f\<lparr>nLength := 0\<rparr>) acc)" "oFileList fs2 = oFileList fs1"
      "file_contents fs2 = file_contents fs1" "files fs2 = (files fs1)(a \<mapsto> f\<lparr>nLength := 0, nRefCount := nRefCount f + 1\<rparr>)"
      using new_handle_ok [OF fs1(2) f1(1)] by (metis mem_file.select_convs(2) mem_file.surjective mem_file.update_convs(6))
    have "dir_at fs2 = (dir_at fs)(a \<mapsto> False)"
      using fs1(3) fs2(6) dir [OF Some f] by (auto simp: dir_at_def fun_eq_iff changed_def)
    note d = this
    show ?thesis
    proof (rule that [OF _ fs2(2) no fs2(3) [unfolded f1(3)]])
      show "VSIMem_Open r name acc fs = Some (Some (next_id fs1), fs2)"
        using Some w(1) fs1(1) fs2(1) by (simp add: VSIMem_Open_def)
      show "map_of (oFileList fs2) = (map_of (oFileList fs))(NormalizePath name \<mapsto> a)"
        using f1(2) fs2(4) Some by (simp add: fun_upd_idem)
      show "file_contents fs2 = (file_contents fs)(a \<mapsto> [])" using fs1(4) fs2(5) by simp
    qed (use f1(4) w Some d in \<open>simp_all add: handle_on_def\<close>)
  qed
qed

section \<open>Seeking\<close>

definition seek_target :: "mem_handle \<Rightarrow> mem_file \<Rightarrow> int \<Rightarrow> int \<Rightarrow> int" where
  "seek_target k f off wh =
     (if wh = SEEK_CUR then to_u64 (nOffset k + off) else if wh = SEEK_SET then off else to_u64 (nLength f + off))"

lemma VSIMemHandle_Seek_ok:
  assumes ok: "fs_ok fs" and k: "handles fs h = Some k" "poFile k = Some a" and f: "files fs a = Some f"
    and off: "0 \<le> off" "off < 2 ^ 64"
    and r: "seek_target k f off wh \<le> nLength f \<or> \<not> bUpdate k \<or> reallocates r m \<and> room_for m (seek_target k f off wh)"
  obtains res fs' where "VSIMemHandle_Seek r h off wh fs = Some (res, fs')" "fs_ok fs'"
proof -
  let ?n = "seek_target k f off wh"
  have n: "0 \<le> ?n" "?n < 2 ^ 64" using off to_u64_range by (simp_all add: seek_target_def)
  have len: "0 \<le> nLength f" "nLength f < 2 ^ 64" using file_okD(3) [OF ok f] by (simp_all add: buffer_fits_def)
  have moved: "fs_ok (set_handle h (k\<lparr>nOffset := i\<rparr>) fs)" if "0 \<le> i" "i < 2 ^ 64" for i
    using set_handle_ok [OF ok k(1)] that by simp
  have run: "VSIMemHandle_Seek r h off wh fs =
      (if ?n > nLength f then
         (if \<not> bUpdate k then Some (-1, failed EACCES (set_handle h (k\<lparr>nOffset := nLength f\<rparr>) fs))
          else do { (done, fs) \<leftarrow> SetLength r a ?n (set_handle h (k\<lparr>nOffset := ?n\<rparr>) fs); Some (if done then 0 else -1, fs) })
       else Some (0, set_handle h (k\<lparr>nOffset := ?n\<rparr>) fs))"
    if "wh = SEEK_CUR \<or> wh = SEEK_SET \<or> wh = SEEK_END"
    using that k f n by (auto simp: VSIMemHandle_Seek_def seek_target_def Let_def)
  consider (inval) "\<not> (wh = SEEK_CUR \<or> wh = SEEK_SET \<or> wh = SEEK_END)"
    | (inside) "wh = SEEK_CUR \<or> wh = SEEK_SET \<or> wh = SEEK_END" "?n \<le> nLength f"
    | (refused) "wh = SEEK_CUR \<or> wh = SEEK_SET \<or> wh = SEEK_END" "?n > nLength f" "\<not> bUpdate k"
    | (extended) "wh = SEEK_CUR \<or> wh = SEEK_SET \<or> wh = SEEK_END" "?n > nLength f" "bUpdate k"
    by linarith
  then show ?thesis
  proof cases
    case inval
    then show ?thesis using that [of _ "failed EINVAL fs"] ok k(1) by (simp add: VSIMemHandle_Seek_def)
  next
    case inside
    then show ?thesis using that [OF _ moved [OF n]] run by simp
  next
    case refused
    then show ?thesis using that [of _ "failed EACCES (set_handle h (k\<lparr>nOffset := nLength f\<rparr>) fs)"] moved [OF len] run by simp
  next
    case extended
    let ?fs = "set_handle h (k\<lparr>nOffset := ?n\<rparr>) fs"
    have "reallocates r m" "room_for m ?n" using r extended by auto
    then obtain f' fs' where fs': "SetLength r a ?n ?fs = Some (True, fs')" "resized a f ?n f' ?fs fs'"
      using SetLength_ok [OF moved [OF n], of a f r m ?n] f by (metis set_handle_fields(1))
    then have "fs_ok fs'" using changed_ok [OF moved [OF n]] by (auto simp: resized_def)
    then show ?thesis using that extended run fs'(1) by simp
  qed
qed

section \<open>Directories and buffers\<close>

lemma VSIMem_Mkdir_ok:
  assumes ok: "fs_ok fs" and n: "map_of (oFileList fs) (NormalizePath name) = None"
  obtains fs' where "VSIMem_Mkdir name fs = (0, fs')" "fs_ok fs'" "handles fs' = handles fs"
    "map_of (oFileList fs') = (map_of (oFileList fs))(NormalizePath name \<mapsto> next_id fs)"
    "file_contents fs' = (file_contents fs)(next_id fs \<mapsto> [])" "dir_at fs' = (dir_at fs)(next_id fs \<mapsto> True)"
proof -
  let ?d = "VSIMemFile_new\<lparr>bIsDirectory := True\<rparr>"
  have d: "buffer_fits fs ?d" "contents_of fs ?d = []" "nRefCount ?d = 0" "file_data ?d = None"
    by (simp_all add: buffer_fits_def VSIMemFile_new_def bytes_at_def contents_of_def)
  obtain fs1 where "enter_file (NormalizePath name) ?d fs = (next_id fs, fs1)" "fs_ok fs1" "handles fs1 = handles fs"
    "files fs1 = (files fs)(next_id fs \<mapsto> ?d\<lparr>osFilename := NormalizePath name, nRefCount := 1\<rparr>)"
    "map_of (oFileList fs1) = (map_of (oFileList fs))(NormalizePath name \<mapsto> next_id fs)"
    "file_contents fs1 = (file_contents fs)(next_id fs \<mapsto> contents_of fs ?d)"
    by (rule enter_file_ok [OF ok n d(3,1)]) (use d(4) in simp)
  then show ?thesis using that [of fs1] n d(2) by (auto simp: VSIMem_Mkdir_def Let_def dir_at_def fun_eq_iff)
qed

text \<open>A buffer of the caller: allocated by it and not the data of a file.\<close>

definition caller_malloc :: "octets \<Rightarrow> mem_fs \<Rightarrow> nat \<times> mem_fs" where
  "caller_malloc xs fs = (next_id fs, fs\<lparr>buffers := (buffers fs)(next_id fs \<mapsto> xs), next_id := Suc (next_id fs)\<rparr>)"

definition is_data :: "mem_fs \<Rightarrow> nat \<Rightarrow> bool" where
  "is_data fs b = (\<exists>a f. files fs a = Some f \<and> file_data f = Some b)"

lemma data_exists:
  assumes "fs_ok fs" and "files fs a = Some f" and "file_data f = Some b"
  shows "buffers fs b \<noteq> None" and "b < next_id fs"
proof -
  show "buffers fs b \<noteq> None" using file_okD(3) [OF assms(1,2)] assms(3) by (auto simp: buffer_fits_def bytes_at_def)
  then show "b < next_id fs" using fs_okD(5) [OF assms(1)] by (metis ids_fresh_def not_le)
qed

lemma caller_malloc_ok:
  assumes ok: "fs_ok fs"
  shows "fs_ok (snd (caller_malloc xs fs))" and "\<not> is_data fs (fst (caller_malloc xs fs))"
proof -
  let ?fs = "snd (caller_malloc xs fs)"
  have bts: "bytes_at (file_data f) ?fs = bytes_at (file_data f) fs" if "files fs a = Some f" for a f
    using data_exists(2) [OF ok that] by (cases "file_data f") (auto simp: bytes_at_def caller_malloc_def)
  have refs: "refs ?fs a = refs fs a" for a by (rule refs_cong) (simp_all add: caller_malloc_def)
  have "files_ok ?fs" unfolding files_ok_def
  proof (intro allI impI)
    fix a f assume "files ?fs a = Some f"
    then have f: "files fs a = Some f" by (simp add: caller_malloc_def)
    then show "nRefCount f = refs ?fs a \<and> 0 < nRefCount f \<and> buffer_fits ?fs f"
      using file_okD(1-3) [OF ok f] refs bts [OF f] by (simp add: buffer_fits_def)
  qed
  then show "fs_ok ?fs" using fs_okD [OF ok]
    by (simp add: fs_ok_def caller_malloc_def names_ok_def handles_ok_def unshared_def ids_fresh_def)
  show "\<not> is_data fs (fst (caller_malloc xs fs))"
    using data_exists(2) [OF ok] by (auto simp: is_data_def caller_malloc_def)
qed

lemma VSIFileFromMemBuffer_ok:
  assumes ok: "fs_ok fs" and n: "map_of (oFileList fs) name = None" "NormalizePath name = name"
    and b: "buffers fs b = Some xs" "\<not> is_data fs b" "length xs < 2 ^ 64"
  obtains h fs' where "VSIFileFromMemBuffer r name (Some b) (int (length xs)) own fs = Some (Some h, fs')" "fs_ok fs'"
    "file_contents fs' (next_id fs) = Some xs"
    "map_of (oFileList fs') = (map_of (oFileList fs))(name \<mapsto> next_id fs)"
proof -
  let ?g = "VSIMemFile_new\<lparr>bOwnData := own, file_data := Some b, nLength := int (length xs), nAllocLength := int (length xs)\<rparr>"
  have "int (length xs) < 2 ^ 64" using b(3) by (metis of_nat_less_iff of_nat_numeral of_nat_power)
  then have g: "buffer_fits fs ?g" "contents_of fs ?g = xs" "nRefCount ?g = 0" "\<not> bIsDirectory ?g"
    using b(1) by (simp_all add: buffer_fits_def contents_of_def bytes_at_def VSIMemFile_new_def)
  obtain fs1 where fs1: "enter_file name ?g fs = (next_id fs, fs1)" "fs_ok fs1" "handles fs1 = handles fs"
    "files fs1 = (files fs)(next_id fs \<mapsto> ?g\<lparr>osFilename := name, nRefCount := 1\<rparr>)"
    "map_of (oFileList fs1) = (map_of (oFileList fs))(name \<mapsto> next_id fs)"
    "file_contents fs1 = (file_contents fs)(next_id fs \<mapsto> contents_of fs ?g)"
    by (rule enter_file_ok [OF ok n(1) g(3,1)]) (use b(2) in \<open>auto simp: is_data_def\<close>)
  have f: "map_of (oFileList fs1) (NormalizePath name) = Some (next_id fs)"
    "files fs1 (next_id fs) = Some (?g\<lparr>osFilename := name, nRefCount := 1\<rparr>)" using fs1(4,5) n(2) by simp_all
  obtain fs' where "VSIMem_Open r name ''r+'' fs1 = Some (Some (next_id fs1), fs')" "fs_ok fs'"
    "oFileList fs' = oFileList fs1" "file_contents fs' = file_contents fs1"
    using Open_existing(2) [OF fs1(2) f, of "''r+''" r] g(4) by auto
  then show ?thesis using that [of "next_id fs1" fs'] fs1 g(2) by (simp add: VSIFileFromMemBuffer_def Let_def)
qed

lemma VSIGetMemFileBuffer_ok:
  assumes ok: "fs_ok fs" and n: "map_of (oFileList fs) name = Some a" and f: "files fs a = Some f"
    and u: "seize \<Longrightarrow> users fs a = {}"
  obtains fs' where "VSIGetMemFileBuffer name seize fs = Some (Some (file_data f, nLength f), fs')" "fs_ok fs'"
    "buffers fs' = buffers fs" "handles fs' = handles fs"
    "oFileList fs' = (if seize then list_erase name (oFileList fs) else oFileList fs)"
    "files fs' = (if seize then (files fs)(a := None) else files fs)"
proof (cases seize)
  case False
  then show ?thesis using that [of fs] ok n f by (simp add: VSIGetMemFileBuffer_def)
next
  case True
  obtain f2 where f2: "files fs a = Some f2" "osFilename f2 = name" by (rule named_file [OF ok n])
  then have one: "nRefCount f = 1" using listed_iff [OF ok f2(1)] file_okD(1) [OF ok f] f n u [OF True] by (simp add: refs_def)
  let ?fs = "fs\<lparr>oFileList := list_erase name (oFileList fs), files := (files fs)(a := None)\<rparr>"
  have run: "VSIGetMemFileBuffer name seize fs = Some (Some (file_data f, nLength f), ?fs)"
    using True n f by (simp add: VSIGetMemFileBuffer_def delete_file_def set_file_def)
  have "fs_ok ?fs"
  proof -
    let ?g = "f\<lparr>bOwnData := False\<rparr>"
    have "changed a f ?g fs (set_file a ?g fs)" using f fs_okD(5) [OF ok] by (simp add: changed_def ids_fresh_def)
    then have ok1: "fs_ok (set_file a ?g fs)"
      by (rule changed_ok [OF ok]) (use file_okD(3) [OF ok f] in \<open>simp add: buffer_fits_def\<close>)
    have d: "dropped a ?g (set_file a ?g fs) ?fs"
      using one by (auto simp: dropped_def list_erase_def freed_def fun_eq_iff)
    have "users ?fs b = users fs b" for b by (simp add: users_def)
    then have "refs ?fs b = refs (set_file a (f\<lparr>bOwnData := False\<rparr>) fs) b - (if b = a then 1 else 0)" for b
      using listed_erase [OF names_distinct [OF ok] n, of ?fs b] by (simp add: refs_def users_def listed_def)
    then show ?thesis by (rule dropped_ok(1) [OF ok1 d])
  qed
  then show ?thesis using that [OF run] True by simp
qed

end
