(* ===== verification/Vsi_Mem_Runs.thy ===== *)
theory Vsi_Mem_Runs
  imports Vsi_Mem_Calls
begin

text \<open>
  Runs of calls on the file system in memory: from the empty file system every allowed call
  returns and the invariant holds.
\<close>

section \<open>Calls\<close>

datatype vsi_call =
    COpen cstring cstring
  | CStat cstring
  | CUnlink cstring
  | CMkdir cstring
  | CRmdir cstring
  | CReadDir cstring
  | CSeek nat int int
  | CTell nat
  | CRead nat octets int int
  | CWrite nat octets int int
  | CEof nat
  | CClose nat
  | CMalloc octets
  | CFromBuffer cstring nat bool
  | CGetBuffer cstring bool

definition run_call :: "reallocator \<Rightarrow> vsi_call \<Rightarrow> mem_fs \<Rightarrow> mem_fs option" where
  "run_call r c fs =
     (case c of
        COpen name acc \<Rightarrow> map_option snd (VSIMem_Open r name acc fs)
      | CStat name \<Rightarrow> map_option (snd \<circ> snd) (VSIMem_Stat name fs)
      | CUnlink name \<Rightarrow> map_option snd (VSIMem_Unlink name fs)
      | CMkdir name \<Rightarrow> Some (snd (VSIMem_Mkdir name fs))
      | CRmdir name \<Rightarrow> map_option snd (VSIMem_Rmdir name fs)
      | CReadDir name \<Rightarrow> map_option (\<lambda>_. fs) (VSIMem_ReadDir name fs)
      | CSeek h off wh \<Rightarrow> map_option snd (VSIMemHandle_Seek r h off wh fs)
      | CTell h \<Rightarrow> map_option (\<lambda>_. fs) (VSIMemHandle_Tell h fs)
      | CRead h buf sz n \<Rightarrow> map_option (snd \<circ> snd) (VSIMemHandle_Read h buf sz n fs)
      | CWrite h buf sz n \<Rightarrow> map_option snd (VSIMemHandle_Write r h buf sz n fs)
      | CEof h \<Rightarrow> map_option (\<lambda>_. fs) (VSIMemHandle_Eof h fs)
      | CClose h \<Rightarrow> map_option snd (VSIFCloseL h fs)
      | CMalloc xs \<Rightarrow> Some (snd (caller_malloc xs fs))
      | CFromBuffer name b own \<Rightarrow>
          map_option snd (VSIFileFromMemBuffer r name (Some b) (int (length (the (buffers fs b)))) own fs)
      | CGetBuffer name seize \<Rightarrow> map_option snd (VSIGetMemFileBuffer name seize fs))"

text \<open>The calls a careful caller makes, with memory for \<open>m\<close> bytes.  Handles are open; what is read lies behind an
  offset that is not past the end; buffers are as long as announced; a buffer becomes a file under a new
  normalised name, and is taken back when no handle is open on the file.\<close>

definition allowed :: "int \<Rightarrow> vsi_call \<Rightarrow> mem_fs \<Rightarrow> bool" where
  "allowed m c fs =
     (case c of
        CReadDir name \<Rightarrow> name \<noteq> []
      | CSeek h off wh \<Rightarrow> 0 \<le> off \<and> off < 2 ^ 64 \<and>
          (\<exists>k a f. handles fs h = Some k \<and> poFile k = Some a \<and> files fs a = Some f \<and>
             (seek_target k f off wh \<le> nLength f \<or> \<not> bUpdate k \<or> room_for m (seek_target k f off wh)))
      | CTell h \<Rightarrow> handles fs h \<noteq> None
      | CRead h buf sz n \<Rightarrow> 0 < sz \<and> 0 \<le> n \<and> sz * n \<le> int (length buf) \<and>
          (\<exists>k a f. handles fs h = Some k \<and> poFile k = Some a \<and> files fs a = Some f \<and>
             nOffset k \<le> nLength f \<and> sz * n + nOffset k < 2 ^ 64)
      | CWrite h buf sz n \<Rightarrow> 0 \<le> sz \<and> 0 \<le> n \<and> sz * n \<le> int (length buf) \<and>
          (\<exists>k. handles fs h = Some k \<and> (bUpdate k \<longrightarrow> room_for m (nOffset k + sz * n)))
      | CEof h \<Rightarrow> handles fs h \<noteq> None
      | CClose h \<Rightarrow> handles fs h \<noteq> None
      | CFromBuffer name b own \<Rightarrow>
          map_of (oFileList fs) name = None \<and> NormalizePath name = name \<and> \<not> is_data fs b \<and>
          (\<exists>xs. buffers fs b = Some xs \<and> length xs < 2 ^ 64)
      | CGetBuffer name seize \<Rightarrow>
          seize \<longrightarrow> (\<forall>a. map_of (oFileList fs) name = Some a \<longrightarrow> users fs a = {})
      | _ \<Rightarrow> True)"

section \<open>Every allowed call returns\<close>

lemma Open_returns:
  assumes ok: "fs_ok fs"
  shows "\<exists>fs'. map_option snd (VSIMem_Open r name acc fs) = Some fs' \<and> fs_ok fs'"
proof (cases "map_of (oFileList fs) (NormalizePath name)")
  case None
  show ?thesis
  proof (cases "CHR ''w'' \<in> set acc")
    case True
    obtain fs1 where fs1: "enter_file (NormalizePath name) VSIMemFile_new fs = (next_id fs, fs1)" "fs_ok fs1"
      "files fs1 = (files fs)(next_id fs \<mapsto> VSIMemFile_new\<lparr>osFilename := NormalizePath name, nRefCount := 1\<rparr>)"
      by (rule enter_file_ok [OF ok None, of VSIMemFile_new]) (simp_all add: new_file_fits, simp_all add: VSIMemFile_new_def)
    then have "files fs1 (next_id fs) = Some (VSIMemFile_new\<lparr>osFilename := NormalizePath name, nRefCount := 1\<rparr>)" by simp
    then obtain fs' where "new_handle (next_id fs) acc fs1 = Some (Some (next_id fs1), fs')" "fs_ok fs'"
      by (rule new_handle_ok [OF fs1(2)]) (simp add: VSIMemFile_new_def)
    then show ?thesis using None True fs1(1) by (simp add: VSIMem_Open_def)
  qed (use None ok in \<open>simp add: VSIMem_Open_def\<close>)
next
  case (Some a)
  obtain f where f: "files fs a = Some f" by (rule named_file [OF ok Some])
  show ?thesis
  proof (cases "CHR ''w'' \<in> set acc")
    case False
    then show ?thesis using Open_existing [OF ok Some f, of acc r] ok by (cases "bIsDirectory f") auto
  next
    case True
    obtain fs1 where fs1: "SetLength r a 0 fs = Some (True, fs1)" "fs_ok fs1" "changed a f (f\<lparr>nLength := 0\<rparr>) fs fs1"
      by (rule truncated [OF ok f])
    then have f1: "files fs1 a = Some (f\<lparr>nLength := 0\<rparr>)" by (simp add: changed_def)
    show ?thesis
    proof (cases "bIsDirectory f")
      case True
      then show ?thesis using Some \<open>CHR ''w'' \<in> set acc\<close> fs1(1,2) f1 by (simp add: VSIMem_Open_def new_handle_def)
    next
      case False
      obtain fs' where "new_handle a acc fs1 = Some (Some (next_id fs1), fs')" "fs_ok fs'"
        by (rule new_handle_ok [OF fs1(2) f1]) (use False in simp)
      then show ?thesis using Some True fs1(1) by (simp add: VSIMem_Open_def)
    qed
  qed
qed

lemma Unlink_returns:
  assumes ok: "fs_ok fs"
  shows "\<exists>fs'. map_option snd (VSIMem_Unlink name fs) = Some fs' \<and> fs_ok fs'"
proof (cases "map_of (oFileList fs) (NormalizePath name)")
  case None
  then show ?thesis using ok by (simp add: VSIMem_Unlink_def)
next
  case (Some a)
  obtain f where f: "files fs a = Some f" by (rule named_file [OF ok Some])
  obtain fs' where "VSIMem_Unlink name fs = Some (0, fs')" "fs_ok fs'" by (rule VSIMem_Unlink_ok [OF ok Some f])
  then show ?thesis by simp
qed

lemma Stat_returns:
  assumes ok: "fs_ok fs"
  shows "\<exists>fs'. map_option (snd \<circ> snd) (VSIMem_Stat name fs) = Some fs' \<and> fs_ok fs'"
proof (cases "map_of (oFileList fs) (NormalizePath name)")
  case (Some a)
  obtain f where "files fs a = Some f" by (rule named_file [OF ok Some])
  then show ?thesis using ok Some by (simp add: VSIMem_Stat_def)
qed (use ok in \<open>simp add: VSIMem_Stat_def\<close>)

lemma Mkdir_returns:
  assumes ok: "fs_ok fs"
  shows "fs_ok (snd (VSIMem_Mkdir name fs))"
proof (cases "map_of (oFileList fs) (NormalizePath name)")
  case None
  obtain fs' where "VSIMem_Mkdir name fs = (0, fs')" "fs_ok fs'" by (rule VSIMem_Mkdir_ok [OF ok None])
  then show ?thesis by simp
qed (use ok in \<open>simp add: VSIMem_Mkdir_def\<close>)

text \<open>\<open>ReadDir\<close> lists the names that lie directly in the directory, in order, and stays in its array.\<close>

definition entries_in :: "cstring \<Rightarrow> nat \<Rightarrow> cstring list \<Rightarrow> cstring list" where
  "entries_in p n names = map (drop (n + 1)) (filter (in_directory p n) names)"

lemma read_dir_loop_ok:
  assumes "\<forall>(k, a) \<in> set xs. \<exists>f. files fs a = Some f \<and> osFilename f = k"
    and "items \<noteq> [] \<longrightarrow> 1 \<le> alloc \<and> length items \<le> alloc \<and> alloc < room"
  shows "read_dir_loop p n fs (map snd xs) items alloc room =
    Some (if items @ entries_in p n (map fst xs) = [] then None else Some (items @ entries_in p n (map fst xs)))"
  using assms
proof (induction xs arbitrary: items alloc room)
  case (Cons q xs)
  obtain k a where q: "q = (k, a)" by fastforce
  obtain f where f: "files fs a = Some f" "osFilename f = k" using Cons.prems(1) q by auto
  let ?items = "items @ [drop (n + 1) k]"
  have step: "read_dir_loop p n fs (map snd xs) ?items alloc' room' = Some (Some (?items @ entries_in p n (map fst xs)))"
    if "length items + 1 \<le> alloc'" "alloc' < room'" for alloc' room'
    using Cons.IH [of ?items alloc' room'] Cons.prems(1) that by simp
  show ?case
  proof (cases "in_directory p n k")
    case True
    then show ?thesis using f q Cons.prems(2) step by (auto simp: Let_def entries_in_def)
  next
    case False
    then show ?thesis using f q Cons.prems Cons.IH [of items alloc room] by (simp add: entries_in_def)
  qed
qed (simp add: entries_in_def)

lemma VSIMem_ReadDir_ok:
  assumes ok: "fs_ok fs" and p: "path \<noteq> []"
  defines "osPath \<equiv> NormalizePath path"
  defines "names \<equiv> entries_in osPath (if last osPath = CHR ''/'' then length osPath - 1 else length osPath) (map fst (oFileList fs))"
  shows "VSIMem_ReadDir path fs = Some (if names = [] then None else Some names)"
proof -
  have "osPath \<noteq> []" using p by (simp add: osPath_def NormalizePath_def)
  moreover have "\<forall>(k, a) \<in> set (oFileList fs). \<exists>f. files fs a = Some f \<and> osFilename f = k"
    using fs_okD(1) [OF ok] by (simp add: names_ok_def)
  ultimately show ?thesis
    unfolding VSIMem_ReadDir_def Let_def names_def osPath_def [symmetric] by (simp add: read_dir_loop_ok)
qed

lemma Read_returns:
  assumes ok: "fs_ok fs" and k: "handles fs h = Some k" "poFile k = Some a" "files fs a = Some f"
    and n: "0 < sz" "0 \<le> n" "sz * n \<le> int (length buf)" "nOffset k \<le> nLength f" "sz * n + nOffset k < 2 ^ 64"
  shows "\<exists>fs'. map_option (snd \<circ> snd) (VSIMemHandle_Read h buf sz n fs) = Some fs' \<and> fs_ok fs'"
proof -
  have o: "0 \<le> nOffset k" "nOffset k < 2 ^ 64" using ok k(1) by (auto elim: handle_okE)
  have len: "int (length (contents_of fs f)) = nLength f" by (rule length_contents [OF ok k(3)])
  let ?got = "min (nat (sz * n)) (length (contents_of fs f) - nat (nOffset k))"
  have sn: "sz * n = int (nat (sz * n))" using n(1,2) by simp
  have "VSIMemHandle_Read h buf sz n fs = Some (int ?got div sz, take ?got (drop (nat (nOffset k)) (contents_of fs f)) @ drop ?got buf,
      set_handle h (k\<lparr>nOffset := int (nat (nOffset k) + ?got)\<rparr>) fs)"
    by (rule Read_takes [OF ok k(1,2) _ _ _ sn n(1) _ refl]) (use k(3) o len n in \<open>auto simp: file_contents_def\<close>)
  moreover have "int (nat (nOffset k) + ?got) < 2 ^ 64" using o n sn by linarith
  ultimately show ?thesis using set_handle_ok [OF ok k(1)] by simp
qed

lemma Write_returns:
  assumes ok: "fs_ok fs" and k: "handles fs h = Some k" and r: "reallocates r m"
    and n: "0 \<le> sz" "0 \<le> n" "sz * n \<le> int (length buf)" "bUpdate k \<longrightarrow> room_for m (nOffset k + sz * n)"
  shows "\<exists>fs'. map_option snd (VSIMemHandle_Write r h buf sz n fs) = Some fs' \<and> fs_ok fs'"
proof (cases "bUpdate k")
  case False
  then show ?thesis using ok k by (simp add: VSIMemHandle_Write_def)
next
  case True
  obtain a f where a: "poFile k = Some a" "files fs a = Some f" "0 \<le> nOffset k" using ok k by (auto elim: handle_okE)
  have c: "file_contents fs a = Some (contents_of fs f)" using a(2) by (simp add: file_contents_def)
  have o: "nOffset k = int (nat (nOffset k))" and sn: "sz * n = int (nat (sz * n))" using a(3) n(1,2) by simp_all
  have len: "nat (sz * n) \<le> length buf" using n(3) by simp
  have "room_for m (int (nat (nOffset k) + nat (sz * n)))" using n(4) True o sn by simp
  then obtain fs' where "VSIMemHandle_Write r h buf sz n fs = Some (n, fs')" "fs_ok fs'"
    using Write_splices [OF ok k a(1) True c o sn len r] by metis
  then show ?thesis by simp
qed

lemma GetBuffer_returns:
  assumes ok: "fs_ok fs" and u: "seize \<longrightarrow> (\<forall>a. map_of (oFileList fs) name = Some a \<longrightarrow> users fs a = {})"
  shows "\<exists>fs'. map_option snd (VSIGetMemFileBuffer name seize fs) = Some fs' \<and> fs_ok fs'"
proof (cases "map_of (oFileList fs) name")
  case None
  then show ?thesis using ok by (simp add: VSIGetMemFileBuffer_def)
next
  case (Some a)
  obtain f where f: "files fs a = Some f" by (rule named_file [OF ok Some])
  have "seize \<Longrightarrow> users fs a = {}" using u Some by blast
  then obtain fs' where "VSIGetMemFileBuffer name seize fs = Some (Some (file_data f, nLength f), fs')" "fs_ok fs'"
    using VSIGetMemFileBuffer_ok [OF ok Some f] by metis
  then show ?thesis by simp
qed

lemma Close_returns:
  assumes ok: "fs_ok fs" and k: "handles fs h = Some k"
  shows "\<exists>fs'. map_option snd (VSIFCloseL h fs) = Some fs' \<and> fs_ok fs'"
proof -
  obtain a f where a: "poFile k = Some a" "files fs a = Some f" using ok k by (auto elim: handle_okE)
  obtain fs' where "VSIFCloseL h fs = Some (0, fs')" "fs_ok fs'" by (rule VSIFCloseL_ok [OF ok k a])
  then show ?thesis by simp
qed

lemma call_returns:
  assumes ok: "fs_ok fs" and r: "reallocates r m" and c: "allowed m c fs"
  shows "\<exists>fs'. run_call r c fs = Some fs' \<and> fs_ok fs'"
proof (cases c)
  case (CSeek h off wh)
  then obtain k a f where k: "handles fs h = Some k" "poFile k = Some a" "files fs a = Some f" "0 \<le> off" "off < 2 ^ 64"
    "seek_target k f off wh \<le> nLength f \<or> \<not> bUpdate k \<or> reallocates r m \<and> room_for m (seek_target k f off wh)"
    using c r by (auto simp: allowed_def)
  obtain res fs' where "VSIMemHandle_Seek r h off wh fs = Some (res, fs')" "fs_ok fs'"
    by (rule VSIMemHandle_Seek_ok [OF ok k])
  then show ?thesis using CSeek by (simp add: run_call_def)
next
  case (CFromBuffer name b own)
  then obtain xs where xs: "map_of (oFileList fs) name = None" "NormalizePath name = name" "buffers fs b = Some xs"
    "\<not> is_data fs b" "length xs < 2 ^ 64" using c by (auto simp: allowed_def)
  obtain h fs' where "VSIFileFromMemBuffer r name (Some b) (int (length xs)) own fs = Some (Some h, fs')" "fs_ok fs'"
    by (rule VSIFileFromMemBuffer_ok [OF ok xs])
  then show ?thesis using CFromBuffer xs(3) by (simp add: run_call_def)
next
  case (CReadDir name)
  then show ?thesis using c ok VSIMem_ReadDir_ok [OF ok, of name] by (simp add: allowed_def run_call_def)
next
  case (CRead h buf sz n)
  then show ?thesis using c Read_returns [OF ok] by (auto simp: allowed_def run_call_def)
next
  case (CWrite h buf sz n)
  then show ?thesis using c Write_returns [OF ok _ r] by (auto simp: allowed_def run_call_def)
next
  case (CTell h)
  then show ?thesis using c ok by (auto simp: allowed_def run_call_def VSIMemHandle_Tell_def)
next
  case (CEof h)
  then obtain k where k: "handles fs h = Some k" using c by (auto simp: allowed_def)
  obtain a f where "poFile k = Some a" "files fs a = Some f" using ok k by (auto elim: handle_okE)
  then show ?thesis using CEof k ok by (simp add: run_call_def VSIMemHandle_Eof_def)
next
  case (CClose h)
  then show ?thesis using c Close_returns [OF ok] by (auto simp: allowed_def run_call_def)
next
  case (CGetBuffer name seize)
  then show ?thesis using c GetBuffer_returns [OF ok] by (simp add: allowed_def run_call_def)
qed (use ok Open_returns [OF ok] Stat_returns [OF ok] Unlink_returns [OF ok] Mkdir_returns [OF ok] caller_malloc_ok(1) [OF ok]
    in \<open>simp_all add: run_call_def VSIMem_Rmdir_def\<close>)

section \<open>Reachable states\<close>

inductive vsi_reachable :: "reallocator \<Rightarrow> int \<Rightarrow> mem_fs \<Rightarrow> bool" for r :: reallocator and m :: int where
  start: "vsi_reachable r m VSIMemFilesystemHandler_new"
| call: "vsi_reachable r m fs \<Longrightarrow> allowed m c fs \<Longrightarrow> run_call r c fs = Some fs' \<Longrightarrow> vsi_reachable r m fs'"

lemma vsi_reachable_ok:
  assumes "reallocates r m" and "vsi_reachable r m fs"
  shows "fs_ok fs"
  using assms(2)
proof induction
  case start
  show ?case by (rule VSIMemFilesystemHandler_new_ok)
next
  case (call fs c fs')
  then show ?case using call_returns [OF _ assms(1), of fs c] by auto
qed

text \<open>C11.  In every state that a run of allowed calls reaches, every file has exactly the references that the list of
  names and the open handles hold, every name and every open handle leads to a live file with a buffer of its own as
  long as recorded, and no next allowed call uses freed memory, leaves a buffer or fails to return.\<close>

theorem VSIMem_reachable_safe:
  assumes "reallocates r m" and "vsi_reachable r m fs"
  shows "fs_ok fs \<and> (\<forall>c. allowed m c fs \<longrightarrow> (\<exists>fs'. run_call r c fs = Some fs' \<and> vsi_reachable r m fs'))"
  using vsi_reachable_ok [OF assms] call_returns [OF _ assms(1), of fs] assms(2) by (blast intro: vsi_reachable.call)

text \<open>An allocator that fills new memory with zeros.\<close>

definition zero_realloc :: reallocator where
  "zero_realloc xs n = Some (take (nat n) xs @ replicate (nat n - length xs) 0)"

lemma zero_reallocates: "m < 2 ^ 64 \<Longrightarrow> reallocates zero_realloc m"
  by (auto simp: reallocates_def zero_realloc_def min_def)

theorem VSIMem_reachable_safe_witness:
  "let fs = the (run_call zero_realloc (COpen ''/vsimem/a'' ''w+'') VSIMemFilesystemHandler_new) in
   \<exists>fs'. run_call zero_realloc (CWrite 1 [72, 105] 1 2) fs = Some fs' \<and> vsi_reachable zero_realloc 10000 fs'"
proof -
  let ?fs = "the (run_call zero_realloc (COpen ''/vsimem/a'' ''w+'') VSIMemFilesystemHandler_new)"
  have run: "run_call zero_realloc (COpen ''/vsimem/a'' ''w+'') VSIMemFilesystemHandler_new = Some ?fs"
    by (simp add: run_call_def VSIMem_Open_def VSIMemFilesystemHandler_new_def enter_file_def new_handle_def
        NormalizePath_def VSIMemFile_new_def Let_def)
  have "vsi_reachable zero_realloc 10000 ?fs"
    by (rule vsi_reachable.call [OF vsi_reachable.start _ run]) (simp add: allowed_def)
  moreover have "allowed 10000 (CWrite 1 [72, 105] 1 2) ?fs"
    by (simp add: run_call_def VSIMem_Open_def VSIMemFilesystemHandler_new_def enter_file_def new_handle_def
        NormalizePath_def VSIMemFile_new_def Let_def allowed_def set_handle_def set_file_def room_for_def)
  moreover have "reallocates zero_realloc 10000" by (rule zero_reallocates) simp
  ultimately show ?thesis using VSIMem_reachable_safe [of zero_realloc 10000 ?fs] by simp
qed

end
