(* ===== verification/Vsi_Mem_Names.thy ===== *)
theory Vsi_Mem_Names
  imports Vsi_Mem_Runs
begin

text \<open>
  The file system in memory as a map from names to directories and contents: saving, fetching,
  making and unlinking do to the map what they say, whatever handles are open.
\<close>

section \<open>The abstract file system\<close>

definition entry_of :: "mem_fs \<Rightarrow> nat \<Rightarrow> (bool \<times> octets) option" where
  "entry_of fs a =
     (case (dir_at fs a, file_contents fs a) of (Some d, Some c) \<Rightarrow> Some (d, c) | _ \<Rightarrow> None)"

definition view :: "mem_fs \<Rightarrow> cstring \<Rightarrow> (bool \<times> octets) option" where
  "view fs n = Option.bind (map_of (oFileList fs) n) (entry_of fs)"

lemma view_cong:
  assumes "oFileList fs' = oFileList fs" and "dir_at fs' = dir_at fs" and "file_contents fs' = file_contents fs"
  shows "view fs' = view fs"
proof -
  have "entry_of fs' = entry_of fs" using assms(2,3) by (simp add: fun_eq_iff entry_of_def)
  then show ?thesis using assms(1) by (intro ext) (simp add: view_def)
qed

lemma dir_at_set [simp]: "dir_at (set_handle h k fs) = dir_at fs" "dir_at (failed e fs) = dir_at fs"
  by (simp_all add: fun_eq_iff dir_at_def)

lemma view_named:
  assumes "map_of (oFileList fs) n = Some a" and "files fs a = Some f"
  shows "view fs n = Some (bIsDirectory f, contents_of fs f)"
  using assms by (simp add: view_def entry_of_def dir_at_def file_contents_def)

lemma view_None: "map_of (oFileList fs) n = None \<Longrightarrow> view fs n = None"
  by (simp add: view_def)

lemma view_SomeE:
  assumes "view fs n = Some (d, c)"
  obtains a f where "map_of (oFileList fs) n = Some a" "files fs a = Some f" "bIsDirectory f = d" "c = contents_of fs f"
  using assms
  by (auto simp: view_def entry_of_def dir_at_def file_contents_def bind_eq_Some_conv split: option.splits)

lemma one_name:
  assumes "fs_ok fs" and "map_of (oFileList fs) n = Some a" and "map_of (oFileList fs) n' = Some a"
  shows "n' = n"
  using named_file [OF assms(1,2)] named_file [OF assms(1,3)] by (metis option.inject)

lemma view_put:
  assumes ok: "fs_ok fs" and n: "\<And>n'. n' \<noteq> n \<Longrightarrow> map_of (oFileList fs) n' \<noteq> Some a"
    and l: "map_of (oFileList fs') = (map_of (oFileList fs))(n \<mapsto> a)"
    and d: "dir_at fs' = (dir_at fs)(a \<mapsto> d)" and c: "file_contents fs' = (file_contents fs)(a \<mapsto> c)"
  shows "view fs' = (view fs)(n \<mapsto> (d, c))"
proof
  fix n'
  show "view fs' n' = ((view fs)(n \<mapsto> (d, c))) n'"
  proof (cases "n' = n")
    case True
    then show ?thesis using l d c by (simp add: view_def entry_of_def)
  next
    case False
    then show ?thesis using n [OF False] l d c by (cases "map_of (oFileList fs) n'") (auto simp: view_def entry_of_def)
  qed
qed

text \<open>Dropping a reference changes the map by what it does to the list of names.\<close>

lemma view_dropped:
  assumes ok: "fs_ok fs'" and d: "dropped a f fs fs'"
    and c: "\<forall>b. files fs' b \<noteq> None \<longrightarrow> file_contents fs' b = file_contents fs b"
    and l: "map_of (oFileList fs') n = map_of (oFileList fs) n"
  shows "view fs' n = view fs n"
proof (cases "map_of (oFileList fs') n")
  case None
  then show ?thesis using l by (simp add: view_None)
next
  case (Some b)
  obtain g where "files fs' b = Some g" by (rule named_file [OF ok Some])
  then have "dir_at fs' b = dir_at fs b" "file_contents fs' b = file_contents fs b" using dropped_dirs [OF d] c by simp_all
  then show ?thesis using Some l by (simp add: view_def entry_of_def)
qed

section \<open>Saving and fetching files\<close>

definition save_file :: "reallocator \<Rightarrow> cstring \<Rightarrow> octets \<Rightarrow> mem_fs \<Rightarrow> mem_fs option" where
  "save_file r name bs fs = do {
     (h, fs) \<leftarrow> VSIMem_Open r name ''wb'' fs;
     h \<leftarrow> h;
     (n, fs) \<leftarrow> VSIMemHandle_Write r h bs 1 (int (length bs)) fs;
     (res, fs) \<leftarrow> VSIFCloseL h fs;
     Some fs
   }"

definition fetch_file :: "reallocator \<Rightarrow> cstring \<Rightarrow> mem_fs \<Rightarrow> (octets \<times> mem_fs) option" where
  "fetch_file r name fs = do {
     (res, st, fs) \<leftarrow> VSIMem_Stat name fs;
     st \<leftarrow> st;
     (h, fs) \<leftarrow> VSIMem_Open r name ''rb'' fs;
     h \<leftarrow> h;
     (n, buf, fs) \<leftarrow> VSIMemHandle_Read h (replicate (nat (st_size st)) 0) 1 (st_size st) fs;
     (res, fs) \<leftarrow> VSIFCloseL h fs;
     Some (buf, fs)
   }"

definition is_directory :: "mem_fs \<Rightarrow> cstring \<Rightarrow> bool" where
  "is_directory fs name = (case view fs (NormalizePath name) of Some (d, c) \<Rightarrow> d | None \<Rightarrow> False)"

lemma save_file_ok:
  assumes ok: "fs_ok fs" and d: "\<not> is_directory fs name" and r: "reallocates r m" "room_for m (int (length bs))"
  obtains fs' where "save_file r name bs fs = Some fs'" "fs_ok fs'"
    "view fs' = (view fs)(NormalizePath name \<mapsto> (False, bs))"
proof -
  let ?N = "NormalizePath name"
  have dir: "\<not> bIsDirectory f" if "map_of (oFileList fs) ?N = Some a" "files fs a = Some f" for a f
    using d view_named [OF that] by (simp add: is_directory_def)
  have acc: "CHR ''w'' \<in> set ''wb''" "CHR ''a'' \<notin> set ''wb''" by simp_all
  obtain h a fs1 k where o: "VSIMem_Open r name ''wb'' fs = Some (Some h, fs1)" "fs_ok fs1"
    "handles fs1 = (handles fs)(h \<mapsto> k)" "poFile k = Some a" "nOffset k = 0" "bUpdate k"
    "map_of (oFileList fs1) = (map_of (oFileList fs))(?N \<mapsto> a)"
    "file_contents fs1 = (file_contents fs)(a \<mapsto> [])" "dir_at fs1 = (dir_at fs)(a \<mapsto> False)"
    by (rule Open_w [OF ok acc dir])
  have n1: "map_of (oFileList fs1) ?N = Some a" using o(7) by simp
  have un: "map_of (oFileList fs) n \<noteq> Some a" if "n \<noteq> ?N" for n
    using one_name [OF o(2) n1, of n] that o(7) by auto
  have k: "handles fs1 h = Some k" "file_contents fs1 a = Some []" "nOffset k = int 0" using o(3,5,8) by simp_all
  have n: "1 * int (length bs) = int (length bs)" "length bs \<le> length bs" "room_for m (int (0 + length bs))" using r(2) by simp_all
  obtain fs2 gap where w: "VSIMemHandle_Write r h bs 1 (int (length bs)) fs1 = Some (int (length bs), fs2)" "fs_ok fs2"
    "same_nodes fs1 fs2" "handles fs2 = (handles fs1)(h \<mapsto> k\<lparr>nOffset := int (0 + length bs)\<rparr>)"
    "length gap = 0 - length ([] :: octets)"
    "file_contents fs2 a = Some (take 0 ([] @ gap) @ take (length bs) bs @ drop (0 + length bs) [])"
    "\<forall>b. b \<noteq> a \<longrightarrow> file_contents fs2 b = file_contents fs1 b"
    by (rule Write_splices [OF o(2) k(1) o(4,6) k(2,3) n(1,2) r(1) n(3)])
  have l2: "oFileList fs2 = oFileList fs1" using w(3) by (simp add: same_nodes_def)
  have "dir_at fs2 = (dir_at fs)(a \<mapsto> False)" using same_nodes_dirs [OF w(3)] o(9) by simp
  moreover have "file_contents fs2 = (file_contents fs)(a \<mapsto> bs)"
    using w(6,7) o(8) by (auto simp: fun_eq_iff)
  ultimately have v2: "view fs2 = (view fs)(?N \<mapsto> (False, bs))"
    using view_put [OF ok un] o(7) l2 by simp
  obtain f where f: "files fs2 a = Some f" using named_file [OF w(2)] n1 l2 by metis
  have k2: "handles fs2 h = Some (k\<lparr>nOffset := int (0 + length bs)\<rparr>)" "poFile (k\<lparr>nOffset := int (0 + length bs)\<rparr>) = Some a"
    using w(4) o(4) by simp_all
  obtain fs3 where c: "VSIFCloseL h fs2 = Some (0, fs3)" "fs_ok fs3" "dropped a f fs2 fs3"
    "handles fs3 = (handles fs2)(h := None)" "oFileList fs3 = oFileList fs2"
    "\<forall>b. files fs3 b \<noteq> None \<longrightarrow> file_contents fs3 b = file_contents fs2 b"
    by (rule VSIFCloseL_ok [OF w(2) k2 f])
  have "view fs3 n = view fs2 n" for n by (rule view_dropped [OF c(2,3,6)]) (simp_all add: c(5))
  then show ?thesis using that [of fs3] c(1,2) w(1) o(1) v2 by (simp add: save_file_def fun_eq_iff)
qed

lemma fetch_file_ok:
  assumes ok: "fs_ok fs" and v: "view fs (NormalizePath name) = Some (False, bs)"
  obtains fs' where "fetch_file r name fs = Some (bs, fs')" "fs_ok fs'" "view fs' = view fs"
proof -
  obtain a f where f: "map_of (oFileList fs) (NormalizePath name) = Some a" "files fs a = Some f" "\<not> bIsDirectory f"
    "bs = contents_of fs f" using v by (auto elim: view_SomeE)
  have len: "int (length bs) = nLength f" using length_contents [OF ok f(2)] f(4) by simp
  then have lt: "int (length bs) < 2 ^ 64" using file_okD(3) [OF ok f(2)] by (simp add: buffer_fits_def)
  have st: "VSIMem_Stat name fs = Some (0, Some \<lparr>st_size = int (length bs), st_is_dir = False\<rparr>, fs)"
    using f len by (simp add: VSIMem_Stat_def)
  let ?k = "handle_on a f ''rb''" and ?h = "next_id fs"
  have "CHR ''w'' \<notin> set ''rb''" by simp
  then obtain fs1 where o: "VSIMem_Open r name ''rb'' fs = Some (Some ?h, fs1)" "fs_ok fs1"
    "handles fs1 = (handles fs)(?h \<mapsto> ?k)" "oFileList fs1 = oFileList fs" "file_contents fs1 = file_contents fs"
    "dir_at fs1 = dir_at fs"
    using Open_existing(2) [OF ok f(1,2) _ f(3)] by blast
  have k: "handles fs1 ?h = Some ?k" "poFile ?k = Some a" "nOffset ?k = int 0" using o(3) by (simp_all add: handle_on_def)
  have c: "file_contents fs1 a = Some bs" using o(5) f(2,4) by (simp add: file_contents_def)
  let ?fs2 = "set_handle ?h (?k\<lparr>nOffset := int (0 + length bs)\<rparr>) fs1"
  have rd: "VSIMemHandle_Read ?h (replicate (length bs) 0) 1 (int (length bs)) fs1 =
      Some (int (length bs) div 1, take (length bs) (drop 0 bs) @ drop (length bs) (replicate (length bs) 0), ?fs2)"
    by (rule Read_takes [OF o(2) k(1,2) c k(3), of 1 "int (length bs)" "length bs"]) (use lt in \<open>simp_all add: min_def\<close>)
  have ok2: "fs_ok ?fs2" using set_handle_ok [OF o(2) k(1)] lt by simp
  obtain f2 where f2: "files ?fs2 a = Some f2" using named_file [OF ok2] f(1) o(4) by (metis set_handle_fields(4))
  have k2: "handles ?fs2 ?h = Some (?k\<lparr>nOffset := int (0 + length bs)\<rparr>)" "poFile (?k\<lparr>nOffset := int (0 + length bs)\<rparr>) = Some a"
    using k(2) by simp_all
  obtain fs3 where cl: "VSIFCloseL ?h ?fs2 = Some (0, fs3)" "fs_ok fs3" "dropped a f2 ?fs2 fs3"
    "handles fs3 = (handles ?fs2)(?h := None)" "oFileList fs3 = oFileList ?fs2"
    "\<forall>b. files fs3 b \<noteq> None \<longrightarrow> file_contents fs3 b = file_contents ?fs2 b"
    by (rule VSIFCloseL_ok [OF ok2 k2 f2])
  have "view fs3 n = view ?fs2 n" for n by (rule view_dropped [OF cl(2,3,6)]) (simp_all add: cl(5))
  moreover have "view ?fs2 = view fs" by (rule view_cong) (use o(4-6) in simp_all)
  ultimately show ?thesis using that [of fs3] st o(1) rd cl(1,2) by (simp add: fetch_file_def fun_eq_iff)
qed

section \<open>A store of files\<close>

text \<open>What a caller relies on: a name finds what was saved last under it.\<close>

fun save_all :: "('n \<Rightarrow> 'b \<Rightarrow> 's \<Rightarrow> 's option) \<Rightarrow> ('n \<times> 'b) list \<Rightarrow> 's \<Rightarrow> 's option" where
  "save_all save [] s = Some s"
| "save_all save ((n, b) # nbs) s = do { s \<leftarrow> save n b s; save_all save nbs s }"

definition not_dir :: "(bool \<times> 'b) option \<Rightarrow> bool" where
  "not_dir e = (case e of Some (d, b) \<Rightarrow> \<not> d | None \<Rightarrow> True)"

locale file_store =
  fixes ok :: "'s \<Rightarrow> bool" and look :: "'s \<Rightarrow> 'k \<Rightarrow> (bool \<times> 'b) option" and key :: "'n \<Rightarrow> 'k"
    and fits :: "'b \<Rightarrow> bool" and save :: "'n \<Rightarrow> 'b \<Rightarrow> 's \<Rightarrow> 's option" and fetch :: "'n \<Rightarrow> 's \<Rightarrow> ('b \<times> 's) option"
  assumes save_law: "ok s \<Longrightarrow> not_dir (look s (key n)) \<Longrightarrow> fits b \<Longrightarrow>
      \<exists>s'. save n b s = Some s' \<and> ok s' \<and> look s' = (look s)(key n \<mapsto> (False, b))"
    and fetch_law: "ok s \<Longrightarrow> look s (key n) = Some (False, b) \<Longrightarrow>
      \<exists>s'. fetch n s = Some (b, s') \<and> ok s' \<and> look s' = look s"
begin

lemma save_all_ok:
  assumes "ok s" and "\<forall>(n, b) \<in> set nbs. not_dir (look s (key n)) \<and> fits b"
  shows "\<exists>s'. save_all save nbs s = Some s' \<and> ok s' \<and>
    look s' = look s ++ map_of (rev (map (\<lambda>(n, b). (key n, (False, b))) nbs))"
  using assms
proof (induction nbs arbitrary: s)
  case (Cons p nbs)
  obtain n b where p: "p = (n, b)" by fastforce
  obtain s1 where s1: "save n b s = Some s1" "ok s1" "look s1 = (look s)(key n \<mapsto> (False, b))"
    using save_law [OF Cons.prems(1), of n b] Cons.prems(2) p by auto
  have "\<forall>(n, b) \<in> set nbs. not_dir (look s1 (key n)) \<and> fits b"
    using Cons.prems(2) s1(3) by (auto simp: not_dir_def)
  then obtain s2 where s2: "save_all save nbs s1 = Some s2" "ok s2"
    "look s2 = look s1 ++ map_of (rev (map (\<lambda>(n, b). (key n, (False, b))) nbs))"
    using Cons.IH [OF s1(2)] by blast
  have "look s2 = look s ++ map_of (rev (map (\<lambda>(n, b). (key n, (False, b))) (p # nbs)))"
    using s2(3) s1(3) p by (simp add: map_add_def fun_eq_iff split: option.split)
  then show ?case using s1(1) s2(1,2) p by simp
qed simp

lemma saved_is_fetched:
  assumes "ok s" and "\<forall>(n, b) \<in> set nbs. not_dir (look s (key n)) \<and> fits b"
    and last: "map_of (rev (map (\<lambda>(n, b). (key n, (False, b))) nbs)) (key n) = Some (False, b)"
  shows "\<exists>s1 s2. save_all save nbs s = Some s1 \<and> fetch n s1 = Some (b, s2) \<and> look s2 = look s1 \<and>
    (\<forall>k. k \<notin> key ` fst ` set nbs \<longrightarrow> look s2 k = look s k)"
proof -
  obtain s1 where s1: "save_all save nbs s = Some s1" "ok s1"
    "look s1 = look s ++ map_of (rev (map (\<lambda>(n, b). (key n, (False, b))) nbs))"
    using save_all_ok [OF assms(1,2)] by blast
  have "look s1 (key n) = Some (False, b)" using s1(3) last by simp
  then obtain s2 where s2: "fetch n s1 = Some (b, s2)" "look s2 = look s1" using fetch_law [OF s1(2)] by blast
  have "look s1 k = look s k" if "k \<notin> key ` fst ` set nbs" for k
  proof -
    have "map_of (rev (map (\<lambda>(n, b). (key n, (False, b))) nbs)) k = None"
      using that by (auto simp: map_of_eq_None_iff image_iff)
    then show ?thesis using s1(3) by (simp add: map_add_def)
  qed
  then show ?thesis using s1(1) s2 by auto
qed

end

lemma not_dir_view: "not_dir (view fs (NormalizePath name)) = (\<not> is_directory fs name)"
  by (auto simp: not_dir_def is_directory_def split: option.split)

interpretation vsi: file_store "\<lambda>fs. reallocates r m \<and> fs_ok fs" view NormalizePath
    "\<lambda>bs. room_for m (int (length bs))" "save_file r" "fetch_file r" for r m
proof unfold_locales
  fix fs n and bs :: octets
  assume "reallocates r m \<and> fs_ok fs" "not_dir (view fs (NormalizePath n))" "room_for m (int (length bs))"
  then show "\<exists>fs'. save_file r n bs fs = Some fs' \<and> (reallocates r m \<and> fs_ok fs') \<and>
      view fs' = (view fs)(NormalizePath n \<mapsto> (False, bs))"
    using save_file_ok [of fs n r m bs] by (auto simp: not_dir_view)
next
  fix fs n bs
  assume "reallocates r m \<and> fs_ok fs" "view fs (NormalizePath n) = Some (False, bs)"
  then show "\<exists>fs'. fetch_file r n fs = Some (bs, fs') \<and> (reallocates r m \<and> fs_ok fs') \<and> view fs' = view fs"
    using fetch_file_ok [of fs n bs r] by auto
qed

section \<open>Properties\<close>

text \<open>C10.  After any sequence of files has been written, each by \<open>Open\<close>, \<open>Write\<close> and \<open>Close\<close>, a name that is asked for by
  \<open>Stat\<close> and read by \<open>Open\<close>, \<open>Read\<close> and \<open>Close\<close> gives the bytes written last under it, with slashes or backslashes
  alike; names that were not written are as before.\<close>

theorem VSIMem_saved_is_fetched:
  assumes "fs_ok fs" and "reallocates r m"
    and "\<forall>(n, bs) \<in> set nbs. \<not> is_directory fs n \<and> room_for m (int (length bs))"
    and "map_of (rev (map (\<lambda>(n, bs). (NormalizePath n, (False, bs))) nbs)) (NormalizePath name) = Some (False, bs)"
  shows "\<exists>fs1 fs2. save_all (save_file r) nbs fs = Some fs1 \<and> fetch_file r name fs1 = Some (bs, fs2) \<and>
    view fs2 = view fs1 \<and> (\<forall>n. n \<notin> NormalizePath ` fst ` set nbs \<longrightarrow> view fs2 n = view fs n)"
  by (rule vsi.saved_is_fetched [of r m]) (use assms in \<open>simp_all add: not_dir_view\<close>)

theorem VSIMem_saved_is_fetched_witness:
  "\<exists>fs1 fs2. save_all (save_file zero_realloc) [(''/vsimem/a'', [1, 2, 3]), (''/vsimem/b'', [4]), (''/vsimem/a'', [5])]
      VSIMemFilesystemHandler_new = Some fs1 \<and> fetch_file zero_realloc [CHR ''/'', CHR ''v'', CHR ''s'', CHR ''i'', CHR ''m'', CHR ''e'', CHR ''m'', CHR 0x5C, CHR ''a''] fs1 = Some ([5], fs2)"
proof -
  have "reallocates zero_realloc 10000" by (rule zero_reallocates) simp
  moreover have "\<not> is_directory VSIMemFilesystemHandler_new n" for n
    by (simp add: is_directory_def view_def VSIMemFilesystemHandler_new_def)
  ultimately show ?thesis
    using VSIMem_saved_is_fetched [OF VSIMemFilesystemHandler_new_ok, of zero_realloc 10000
        "[(''/vsimem/a'', [1, 2, 3]), (''/vsimem/b'', [4]), (''/vsimem/a'', [5])]"
        "[CHR ''/'', CHR ''v'', CHR ''s'', CHR ''i'', CHR ''m'', CHR ''e'', CHR ''m'', CHR 0x5C, CHR ''a'']" "[5]"]
    by (simp add: room_for_def NormalizePath_def) blast
qed

text \<open>C12.  Seen as a map from names, \<open>Stat\<close> looks a name up, \<open>Mkdir\<close> adds a directory under a new name, and \<open>Unlink\<close>
  removes a name; a file that is unlinked while it is open keeps its contents for its handles.\<close>

theorem VSIMem_refines_map:
  assumes "fs_ok fs"
  shows "VSIMem_Stat name fs = Some (case view fs (NormalizePath name) of
        None \<Rightarrow> (-1, None, failed ENOENT fs)
      | Some (d, c) \<Rightarrow> (0, Some \<lparr>st_size = (if d then 0 else int (length c)), st_is_dir = d\<rparr>, fs)) \<and>
    view (snd (VSIMem_Mkdir name fs)) = (if view fs (NormalizePath name) = None then (view fs)(NormalizePath name \<mapsto> (True, [])) else view fs) \<and>
    (\<exists>fs'. VSIMem_Unlink name fs = Some (if view fs (NormalizePath name) = None then -1 else 0, fs') \<and> fs_ok fs' \<and>
       view fs' = (view fs)(NormalizePath name := None) \<and> handles fs' = handles fs \<and>
       (\<forall>h k a. handles fs h = Some k \<longrightarrow> poFile k = Some a \<longrightarrow> file_contents fs' a = file_contents fs a))"
proof (cases "map_of (oFileList fs) (NormalizePath name)")
  case None
  have ok: "fs_ok fs" by fact
  obtain fs1 where fs1: "VSIMem_Mkdir name fs = (0, fs1)" "map_of (oFileList fs1) = (map_of (oFileList fs))(NormalizePath name \<mapsto> next_id fs)"
    "file_contents fs1 = (file_contents fs)(next_id fs \<mapsto> [])" "dir_at fs1 = (dir_at fs)(next_id fs \<mapsto> True)"
    by (rule VSIMem_Mkdir_ok [OF ok None])
  have "map_of (oFileList fs) n' \<noteq> Some (next_id fs)" for n'
    using fs_okD(5) [OF ok] by (auto simp: ids_fresh_def elim: named_file [OF ok])
  then have "view fs1 = (view fs)(NormalizePath name \<mapsto> (True, []))" using view_put [OF ok _ fs1(2,4,3)] by blast
  moreover have "view (failed ENOENT fs) = view fs" by (rule view_cong) simp_all
  ultimately show ?thesis
    using None fs1(1) ok view_None [OF None] by (simp add: VSIMem_Stat_def VSIMem_Unlink_def fun_upd_idem)
next
  case (Some a)
  have ok: "fs_ok fs" by fact
  obtain f where f: "files fs a = Some f" by (rule named_file [OF ok Some])
  have v: "view fs (NormalizePath name) = Some (bIsDirectory f, contents_of fs f)" by (rule view_named [OF Some f])
  obtain fs' where u: "VSIMem_Unlink name fs = Some (0, fs')" "fs_ok fs'" "dropped a f fs fs'" "handles fs' = handles fs"
    "oFileList fs' = list_erase (NormalizePath name) (oFileList fs)"
    "\<forall>b. files fs' b \<noteq> None \<longrightarrow> file_contents fs' b = file_contents fs b"
    by (rule VSIMem_Unlink_ok [OF ok Some f])
  have "view fs' n' = ((view fs)(NormalizePath name := None)) n'" for n'
    using view_dropped [OF u(2,3)] u(5,6) by (cases "n' = NormalizePath name") (simp_all add: view_None map_of_list_erase)
  moreover have "file_contents fs' b = file_contents fs b" if "handles fs h = Some k" "poFile k = Some b" for h k b
  proof -
    have "files fs' b \<noteq> None" using handle_okE [OF u(2), of h k] that u(4) by auto
    then show ?thesis using u(6) by simp
  qed
  moreover have "VSIMem_Stat name fs = Some (0, Some \<lparr>st_size = (if bIsDirectory f then 0 else int (length (contents_of fs f))),
      st_is_dir = bIsDirectory f\<rparr>, fs)"
    using Some f length_contents [OF ok f] by (simp add: VSIMem_Stat_def)
  moreover have "snd (VSIMem_Mkdir name fs) = failed EEXIST fs" using Some by (simp add: VSIMem_Mkdir_def)
  moreover have "view (failed EEXIST fs) = view fs" by (rule view_cong) simp_all
  ultimately show ?thesis using v u(1,2,4) by (simp add: fun_eq_iff)
qed

text \<open>The state after one file has been saved: it is found with its size, and no longer after it has been unlinked.\<close>

theorem VSIMem_refines_map_witness:
  "\<exists>fs fs'. save_file zero_realloc ''/vsimem/a'' [1, 2] VSIMemFilesystemHandler_new = Some fs \<and>
     VSIMem_Stat ''/vsimem/a'' fs = Some (0, Some \<lparr>st_size = 2, st_is_dir = False\<rparr>, fs) \<and>
     VSIMem_Unlink ''/vsimem/a'' fs = Some (0, fs') \<and> view fs' ''/vsimem/a'' = None"
proof -
  have r: "reallocates zero_realloc 10000" by (rule zero_reallocates) simp
  have d: "\<not> is_directory VSIMemFilesystemHandler_new ''/vsimem/a''"
    by (simp add: is_directory_def view_def VSIMemFilesystemHandler_new_def)
  have n: "NormalizePath ''/vsimem/a'' = ''/vsimem/a''" by (simp add: NormalizePath_def)
  obtain fs where fs: "save_file zero_realloc ''/vsimem/a'' [1, 2] VSIMemFilesystemHandler_new = Some fs" "fs_ok fs"
    "view fs = (view VSIMemFilesystemHandler_new)(NormalizePath ''/vsimem/a'' \<mapsto> (False, [1, 2]))"
    by (rule save_file_ok [OF VSIMemFilesystemHandler_new_ok d r, of "[1, 2]"]) (simp_all add: room_for_def)
  have v: "view fs ''/vsimem/a'' = Some (False, [1, 2])" using fs(3) n by simp
  show ?thesis using VSIMem_refines_map [OF fs(2), of "''/vsimem/a''"] fs(1) v n by auto
qed

section \<open>The end of the file system, and its place in the file manager\<close>

lemma delete_files_ok:
  assumes "distinct as" and "\<forall>a \<in> set as. \<exists>f. files fs a = Some f \<and> bytes_at (file_data f) fs \<noteq> None" and "unshared fs"
  shows "\<exists>fs'. delete_files as fs = Some fs' \<and> files fs' = (\<lambda>b. if b \<in> set as then None else files fs b)"
  using assms
proof (induction as arbitrary: fs)
  case (Cons a as)
  obtain f where f: "files fs a = Some f" "bytes_at (file_data f) fs \<noteq> None" using Cons.prems(2) by auto
  let ?f = "f\<lparr>nRefCount := nRefCount f - 1\<rparr>"
  let ?fs = "(set_file a ?f fs)\<lparr>files := (files fs)(a := None), buffers := freed f (buffers fs)\<rparr>"
  have del: "delete_file a (set_file a ?f fs) = Some ?fs"
    using delete_file_ok [of "set_file a ?f fs" a ?f] f by (simp add: freed_def [abs_def])
  have "\<exists>g. files ?fs b = Some g \<and> bytes_at (file_data g) ?fs \<noteq> None" if b: "b \<in> set as" for b
  proof -
    obtain g where g: "files fs b = Some g" "bytes_at (file_data g) fs \<noteq> None" using Cons.prems(2) b by auto
    have ba: "b \<noteq> a" using b Cons.prems(1) by auto
    have "bytes_at (file_data g) ?fs = bytes_at (file_data g) fs"
      using Cons.prems(3) f(1) g(1) ba by (cases "file_data g") (auto simp: bytes_at_def freed_def unshared_def)
    then show ?thesis using g ba by simp
  qed
  moreover have "unshared ?fs" using Cons.prems(3) unfolding unshared_def by (simp split: if_splits)
  ultimately obtain fs' where fs': "delete_files as ?fs = Some fs'"
    "files fs' = (\<lambda>b. if b \<in> set as then None else files ?fs b)" using Cons.IH [of ?fs] Cons.prems(1) by auto
  have "files fs' = (\<lambda>b. if b \<in> set (a # as) then None else files fs b)" using fs'(2) by (auto simp: fun_eq_iff)
  then show ?case using f(1) del fs'(1) by simp
qed simp

text \<open>When no handle is open the destructor deletes every file there is.\<close>

lemma VSIMemFilesystemHandler_delete_ok:
  assumes ok: "fs_ok fs" and h: "handles fs = (\<lambda>_. None)"
  obtains fs' where "VSIMemFilesystemHandler_delete fs = Some fs'" "files fs' = (\<lambda>_. None)"
proof -
  let ?as = "map snd (oFileList fs)"
  have ids: "a = b \<Longrightarrow> n = n'" if "(n, a) \<in> set (oFileList fs)" "(n', b) \<in> set (oFileList fs)" for n n' a b
    using that one_name [OF ok] names_distinct [OF ok] by (metis map_of_is_SomeI)
  then have "inj_on snd (set (oFileList fs))" by (auto simp: inj_on_def)
  then have "distinct ?as" using names_distinct [OF ok] by (simp add: distinct_map)
  moreover have "\<forall>a \<in> set ?as. \<exists>f. files fs a = Some f \<and> bytes_at (file_data f) fs \<noteq> None"
  proof
    fix a assume "a \<in> set ?as"
    then obtain n where "(n, a) \<in> set (oFileList fs)" by auto
    then obtain f where f: "files fs a = Some f" using fs_okD(1) [OF ok] by (auto simp: names_ok_def)
    then show "\<exists>f. files fs a = Some f \<and> bytes_at (file_data f) fs \<noteq> None"
      using file_okD(3) [OF ok f] by (auto simp: buffer_fits_def)
  qed
  ultimately obtain fs' where fs': "delete_files ?as fs = Some fs'" "files fs' = (\<lambda>b. if b \<in> set ?as then None else files fs b)"
    using delete_files_ok fs_okD(4) [OF ok] by blast
  have "a \<in> set ?as" if f: "files fs a = Some f" for a f
  proof -
    have "refs fs a = int (listed fs a)" using h by (simp add: refs_def users_def)
    then have "listed fs a \<noteq> 0" using file_okD(1,2) [OF ok f] by simp
    then show ?thesis using filter_empty_conv [of "\<lambda>p. snd p = a" "oFileList fs"] by (auto simp: listed_def)
  qed
  then have "files fs' = (\<lambda>_. None)" using fs'(2) by (auto simp: fun_eq_iff) (metis not_None_eq)
  then show ?thesis using that fs'(1) by (simp add: VSIMemFilesystemHandler_delete_def)
qed

text \<open>A path goes to the handler installed for its prefix when no other prefix takes it; a backslash ends the prefix as
  well as a slash.\<close>

lemma GetHandler_installed:
  assumes "key \<noteq> []" and "handles_path path key"
    and "\<forall>k \<in> fst ` set (fst m). k \<noteq> key \<longrightarrow> \<not> handles_path path k"
  shows "GetHandler (fst (InstallHandler key h m)) d path = Some h"
proof -
  have "GetHandler (list_put key h hs) d path = Some h" if "\<forall>k \<in> fst ` set hs. k \<noteq> key \<longrightarrow> \<not> handles_path path k" for hs
    using that assms(2) by (induction hs) auto
  then show ?thesis using assms(1,3) by (simp add: InstallHandler_def)
qed

lemma handles_path_prefix:
  "handles_path (key @ rest) key"
  "rest \<noteq> [] \<Longrightarrow> handles_path (key @ CHR 0x5C # rest) (key @ [CHR ''/''])"
  by (cases rest) (auto simp: handles_path_def nth_append)

section \<open>Writing\<close>

text \<open>
  C36.  \<open>Write\<close> through a handle open for update, on any valid state and while memory lasts, stores all its bytes and
  replaces exactly those of the file from the offset of the handle on: the bytes before and behind them stay, those of a
  gap between the old end of the file and the offset are left to the buffer, the offset moves behind what was written,
  and no other file, handle or name changes.
\<close>

theorem VSIMem_Write_replaces:
  assumes "fs_ok fs" and "handles fs h = Some k" and "poFile k = Some a" and "bUpdate k"
    and "file_contents fs a = Some c" and "nOffset k = int off" and "nSize * nCount = int n" and "n \<le> length pBuffer"
    and "reallocates r m" and "room_for m (int (off + n))"
  shows "\<exists>fs' gap. VSIMemHandle_Write r h pBuffer nSize nCount fs = Some (nCount, fs') \<and> fs_ok fs' \<and>
    handles fs' = (handles fs)(h \<mapsto> k\<lparr>nOffset := int (off + n)\<rparr>) \<and>
    length gap = off - length c \<and>
    file_contents fs' = (file_contents fs)(a \<mapsto> take off (c @ gap) @ take n pBuffer @ drop (off + n) c) \<and>
    oFileList fs' = oFileList fs"
proof -
  obtain fs' gap where w: "VSIMemHandle_Write r h pBuffer nSize nCount fs = Some (nCount, fs')" "fs_ok fs'"
    "same_nodes fs fs'" "handles fs' = (handles fs)(h \<mapsto> k\<lparr>nOffset := int (off + n)\<rparr>)" "length gap = off - length c"
    "file_contents fs' a = Some (take off (c @ gap) @ take n pBuffer @ drop (off + n) c)"
    "\<forall>b. b \<noteq> a \<longrightarrow> file_contents fs' b = file_contents fs b"
    using Write_splices [OF assms] by metis
  then show ?thesis by (intro exI [of _ fs'] exI [of _ gap]) (auto simp: same_nodes_def)
qed

theorem VSIMem_Write_replaces_witness:
  "\<exists>h a fs1 fs2. VSIMem_Open zero_realloc ''/vsimem/a'' ''w'' VSIMemFilesystemHandler_new = Some (Some h, fs1) \<and>
     VSIMemHandle_Write zero_realloc h [1, 2, 3, 4] 1 3 fs1 = Some (3, fs2) \<and> file_contents fs2 a = Some [1, 2, 3]"
proof -
  have r: "reallocates zero_realloc 10000" by (rule zero_reallocates) simp
  have acc: "CHR ''w'' \<in> set ''w''" "CHR ''a'' \<notin> set ''w''" by simp_all
  obtain h a fs1 k where o: "VSIMem_Open zero_realloc ''/vsimem/a'' ''w'' VSIMemFilesystemHandler_new = Some (Some h, fs1)"
    "fs_ok fs1" "handles fs1 h = Some k" "poFile k = Some a" "nOffset k = int 0" "bUpdate k" "file_contents fs1 a = Some []"
    by (rule Open_w [OF VSIMemFilesystemHandler_new_ok acc, where name = "''/vsimem/a''" and r = zero_realloc])
      (simp_all add: VSIMemFilesystemHandler_new_def)
  have n: "1 * 3 = int 3" "3 \<le> length [1, 2, 3, 4 :: 8 word]" "room_for 10000 (int (0 + 3))" by (simp_all add: room_for_def)
  obtain fs2 where "VSIMemHandle_Write zero_realloc h [1, 2, 3, 4] 1 3 fs1 = Some (3, fs2)" "file_contents fs2 a = Some [1, 2, 3]"
    using VSIMem_Write_replaces [OF o(2-4,6,7,5) n(1,2) r n(3)] by (auto simp: numeral_3_eq_3)
  with o(1) show ?thesis by blast
qed

end
