(* ===== verification/Vsi_Mem_Errors.thy ===== *)
theory Vsi_Mem_Errors
  imports Vsi_Mem_Names
begin

text \<open>
  Where the file system in memory leaves its buffers, frees memory that is not its own, or does
  something else than it says.
\<close>

section \<open>Reading past the end\<close>

text \<open>C40.  A handle whose offset lies past the end of its file, which happens when the file is opened again with
  \<open>w\<close>, reads outside the buffer: the number of bytes left is negative and wraps around.\<close>

theorem VSIMem_Read_past_end_faults:
  assumes "fs_ok fs" and "handles fs h = Some k" and "poFile k = Some a" and "files fs a = Some f"
    and "nLength f < nOffset k" and "0 \<le> nSize * nCount" and "nSize * nCount + nOffset k < 2 ^ 64"
  shows "VSIMemHandle_Read h pBuffer nSize nCount fs = None"
proof -
  obtain xs where xs: "bytes_at (file_data f) fs = Some xs" "int (length xs) = nAllocLength f"
    and fit: "0 \<le> nLength f" "nAllocLength f < 2 ^ 64"
    using file_okD(3) [OF assms(1,4)] by (auto simp: buffer_fits_def)
  have "0 \<le> nOffset k" "nOffset k < 2 ^ 64" using assms(1,2) by (auto elim: handle_okE)
  then have "to_u64 (nLength f - nOffset k) = nLength f - nOffset k + 2 ^ 64"
    using assms(5) fit(1) by (intro to_u64_neg) auto
  then have "mem_copy pBuffer 0 xs (nOffset k) (to_u64 (nLength f - nOffset k)) = None"
    using xs(2) fit assms(5) by (simp add: mem_copy_def load_bytes_def)
  moreover have "to_u64 (to_u64 (nSize * nCount) + nOffset k) = nSize * nCount + nOffset k"
    using assms(6,7) \<open>0 \<le> nOffset k\<close> by (simp add: to_u64_id)
  ultimately show ?thesis
    using assms(2-6) xs(1) by (simp add: VSIMemHandle_Read_def Let_def)
qed

text \<open>Three bytes are written through the first handle; then the file is opened for writing once more.\<close>

theorem VSIMem_Read_past_end_faults_witness:
  "\<exists>h fs1 fs2 g fs3. VSIMem_Open zero_realloc ''/vsimem/a'' ''w'' VSIMemFilesystemHandler_new = Some (Some h, fs1) \<and>
     VSIMemHandle_Write zero_realloc h [1, 2, 3] 1 3 fs1 = Some (3, fs2) \<and>
     VSIMem_Open zero_realloc ''/vsimem/a'' ''w'' fs2 = Some (Some g, fs3) \<and>
     VSIMemHandle_Read h [0] 1 1 fs3 = None"
proof -
  let ?N = "NormalizePath ''/vsimem/a''"
  have r: "reallocates zero_realloc 10000" by (rule zero_reallocates) simp
  have acc: "CHR ''w'' \<in> set ''w''" "CHR ''a'' \<notin> set ''w''" by simp_all
  have new: "map_of (oFileList VSIMemFilesystemHandler_new) ?N = None" by (simp add: VSIMemFilesystemHandler_new_def)
  obtain h a fs1 k where o: "VSIMem_Open zero_realloc ''/vsimem/a'' ''w'' VSIMemFilesystemHandler_new = Some (Some h, fs1)"
    "fs_ok fs1" "handles fs1 h = Some k" "poFile k = Some a" "nOffset k = int 0" "bUpdate k"
    "map_of (oFileList fs1) ?N = Some a" "file_contents fs1 a = Some []" "dir_at fs1 a = Some False"
    by (rule Open_w [OF VSIMemFilesystemHandler_new_ok acc, where name = "''/vsimem/a''" and r = zero_realloc]) (use new in auto)
  have n: "1 * 3 = int 3" "3 \<le> length [1, 2, 3 :: 8 word]" "room_for 10000 (int (0 + 3))" by (simp_all add: room_for_def)
  obtain fs2 where w: "VSIMemHandle_Write zero_realloc h [1, 2, 3] 1 3 fs1 = Some (3, fs2)" "fs_ok fs2" "same_nodes fs1 fs2"
    "handles fs2 = (handles fs1)(h \<mapsto> k\<lparr>nOffset := int (0 + 3)\<rparr>)"
    using Write_splices [OF o(2-4,6,8,5) n(1,2) r n(3)] by metis
  have n2: "map_of (oFileList fs2) ?N = Some a" "dir_at fs2 a = Some False"
    using w(3) o(7,9) same_nodes_dirs [OF w(3)] by (simp_all add: same_nodes_def)
  have dir: "\<not> bIsDirectory f" if "map_of (oFileList fs2) ?N = Some b" "files fs2 b = Some f" for b f
    using n2 that by (simp add: dir_at_def)
  obtain g b fs3 k3 where o3: "VSIMem_Open zero_realloc ''/vsimem/a'' ''w'' fs2 = Some (Some g, fs3)" "fs_ok fs3"
    "handles fs2 g = None" "handles fs3 = (handles fs2)(g \<mapsto> k3)" "file_contents fs3 = (file_contents fs2)(b \<mapsto> [])" "b = a"
    by (rule Open_w [OF w(2) acc dir, where r = zero_realloc]) (use n2 in auto)
  have h3: "handles fs3 h = Some (k\<lparr>nOffset := 3\<rparr>)" using o3(3,4) w(4) by auto
  obtain f where f: "files fs3 a = Some f" "contents_of fs3 f = []"
    using o3(5,6) by (auto simp: file_contents_def fun_eq_iff split: if_splits)
  have "nLength f = 0" using length_contents [OF o3(2) f(1)] f(2) by simp
  then have "VSIMemHandle_Read h [0] 1 1 fs3 = None"
    by (intro VSIMem_Read_past_end_faults [OF o3(2) h3 _ f(1)]) (use o(4) in simp_all)
  then show ?thesis using o(1) w(1) o3(1) by blast
qed

section \<open>Sizes that wrap around\<close>

text \<open>The size of the buffer for a length close to 11/10 of the range wraps around: a seek to offset
  16769767339735951560 in an empty file succeeds and allocates 100 bytes.\<close>

lemma SetLength_wraps:
  assumes "files fs a = Some f" and "file_data f = None" and "nAllocLength f = 0" and "r [] 100 = Some ys"
  obtains fs' where "SetLength r a 16769767339735951560 fs = Some (True, fs')"
    and "map_option nLength (files fs' a) = Some 16769767339735951560"
    and "map_option nAllocLength (files fs' a) = Some 100"
  using assms by (simp add: SetLength_def CPLRealloc_def free_buffer_def bytes_at_def to_u64_def)

section \<open>Buffers of the caller\<close>

text \<open>A file that grows gives up its old buffer even when it does not own it.\<close>

lemma SetLength_frees_old:
  assumes "files fs a = Some f" and "file_data f = Some b" and "b < next_id fs" and "nAllocLength f < n"
    and "0 \<le> n" and "n + n div 10 + 5000 < 2 ^ 64" and "SetLength r a n fs = Some (done, fs')"
  shows "buffers fs' b = None"
proof -
  have "0 \<le> n div 10" using assms(5) by (simp add: pos_imp_zdiv_nonneg_iff)
  then have u: "to_u64 (to_u64 (n + n div 10) + 5000) = n + n div 10 + 5000" "n + n div 10 + 5000 \<noteq> 0"
    using assms(5,6) by (simp_all add: to_u64_id)
  show ?thesis using assms(1-4,7) u
    by (auto simp: SetLength_def CPLRealloc_def free_buffer_def bytes_at_def Let_def bind_eq_Some_conv split: if_splits)
qed

text \<open>\<open>VSIFileFromMemBuffer\<close> without transfer of ownership leaves the buffer to the caller, yet a write beyond its
  end frees it: the pointer the caller still owns leads nowhere.\<close>

lemma VSIMem_Write_frees_borrowed:
  assumes "fs_ok fs" and "handles fs h = Some k" and "poFile k = Some a" and "bUpdate k" and "files fs a = Some f"
    and "\<not> bOwnData f" and "file_data f = Some b" and "reallocates r m"
    and "nSize * nCount = int n" and "n \<le> length pBuffer" and "room_for m (nOffset k + int n)"
    and "nAllocLength f < nOffset k + int n"
  shows "\<exists>fs'. VSIMemHandle_Write r h pBuffer nSize nCount fs = Some (nCount, fs') \<and> buffers fs b \<noteq> None \<and> buffers fs' b = None"
proof -
  have o: "0 \<le> nOffset k" using assms(1,2) by (auto elim: handle_okE)
  have b: "buffers fs b \<noteq> None" "b < next_id fs" using data_exists [OF assms(1,5,7)] by simp_all
  let ?n = "nOffset k + int n"
  have len: "nLength f \<le> nAllocLength f" using file_okD(3) [OF assms(1,5)] by (simp add: buffer_fits_def)
  obtain f1 fs1 where s1: "SetLength r a ?n fs = Some (True, fs1)" "resized a f ?n f1 fs fs1"
    by (rule SetLength_ok [OF assms(1,5,8,11)])
  have lt: "?n < 2 ^ 64" "?n + ?n div 10 + 5000 < 2 ^ 64"
    using room_for_lt [OF assms(8,11)] assms(8,11) by (simp_all add: room_for_def reallocates_def)
  have gone: "buffers fs1 b = None"
    by (rule SetLength_frees_old [OF assms(5,7) b(2) assms(12) _ lt(2) s1(1)]) (use o in simp)
  obtain xs where xs: "bytes_at (file_data f1) fs1 = Some xs" "int (length xs) = nAllocLength f1" "?n \<le> nAllocLength f1"
    "changed a f f1 fs fs1" using s1(2) by (auto simp: resized_def buffer_fits_def)
  then have f1: "files fs1 a = Some f1" and ok1: "fs_ok fs1"
    using changed_ok [OF assms(1) xs(4)] s1(2) by (auto simp: changed_def resized_def)
  have c1: "file_data f1 \<noteq> Some b" using xs(1) gone by (auto simp: bytes_at_def)
  have "nat (nOffset k) + n \<le> length xs" using xs(2,3) o by linarith
  then obtain fs2 where s2: "store_data a (int (nat (nOffset k))) pBuffer (int n) fs1 = Some fs2" "changed a f1 f1 fs1 fs2"
    by (rule store_data_ok [OF ok1 f1 xs(1) _ assms(10)])
  have "b < next_id fs1" using b(2) xs(4) by (simp add: changed_def)
  then have "buffers fs2 b = None" using s2(2) c1 gone by (simp add: changed_def)
  moreover have "to_u64 (int n) = int n" "to_u64 (int n + nOffset k) = ?n" using lt(1) o by (simp_all add: to_u64_id)
  ultimately show ?thesis
    using assms(2-5,9,12) s1(1) s2(1) len b(1) o by (auto simp: VSIMemHandle_Write_def Let_def)
qed

section \<open>Names\<close>

text \<open>\<open>VSIFileFromMemBuffer\<close> enters the file under the name as it is given; with a backslash in it no lookup finds
  the file, and the handle returned is NULL.\<close>

lemma VSIFileFromMemBuffer_backslash:
  assumes "CHR 0x5C \<in> set name" and "map_of (oFileList fs) (NormalizePath name) = None"
    and "sorted_wrt str_less (map fst (oFileList fs))"
  obtains fs' where "VSIFileFromMemBuffer r name p n own fs = Some (None, fs')"
    and "map_of (oFileList fs') name = Some (next_id fs)" and "\<And>s. NormalizePath s \<noteq> name"
proof -
  have plain: "CHR 0x5C \<notin> set (NormalizePath s)" for s by (auto simp: NormalizePath_def)
  then have ne: "NormalizePath s \<noteq> name" for s using assms(1) by metis
  show ?thesis
    by (rule that [OF _ _ ne])
      (use assms(2) ne [of name] map_of_list_put [OF assms(3)] in
        \<open>auto simp: VSIFileFromMemBuffer_def enter_file_def VSIMem_Open_def Let_def\<close>)
qed

text \<open>Under a name that is in use, the list forgets the old file without releasing it.\<close>

lemma VSIFileFromMemBuffer_leaks:
  assumes ok: "fs_ok fs" and n: "map_of (oFileList fs) name = Some a" and f: "files fs a = Some f" "a \<noteq> next_id fs"
  shows "files (snd (enter_file name g fs)) a = Some f" and "map_of (oFileList (snd (enter_file name g fs))) name \<noteq> Some a"
  using map_of_list_put [of "oFileList fs" name "next_id fs"] f fs_okD(1) [OF ok]
  by (auto simp: enter_file_def names_ok_def)

text \<open>A file that is seized while it is open is deleted under its handles, whose next use faults.\<close>

lemma VSIGetMemFileBuffer_leaves_dangling:
  assumes "map_of (oFileList fs) name = Some a" and "handles fs h = Some k" and "poFile k = Some a"
    and "VSIGetMemFileBuffer name True fs = Some (res, fs')"
  shows "VSIMemHandle_Read h pBuffer nSize nCount fs' = None" and "VSIFCloseL h fs' = None"
proof -
  have "files fs' a = None" and "handles fs' h = Some k"
    using assms
    by (auto simp: VSIGetMemFileBuffer_def delete_file_def free_buffer_def bind_eq_Some_conv Let_def split: option.splits if_splits)
  then show "VSIMemHandle_Read h pBuffer nSize nCount fs' = None" "VSIFCloseL h fs' = None"
    using assms(3) by (simp_all add: VSIMemHandle_Read_def VSIFCloseL_def VSIMemHandle_Close_def release_def)
qed

text \<open>A file that is truncated and extended within its buffer shows its old bytes, not zeros.\<close>

lemma stale_bytes_return:
  assumes "files fs a = Some f" and "bytes_at (file_data f) fs = Some xs" and "0 \<le> n" and "n \<le> nAllocLength f"
    and "SetLength r a 0 fs = Some (True, fs1)" and "SetLength r a n fs1 = Some (True, fs2)"
  shows "file_contents fs2 a = Some (take (nat n) xs)"
  using assms by (auto simp: SetLength_def file_contents_def contents_of_def)

text \<open>\<open>ReadDir\<close> compares without regard to case, although names are distinguished by case: the files of one directory
  are listed in another.\<close>

lemma in_directory_ignores_case:
  "in_directory ''/vsimem/A'' 9 ''/vsimem/a/x''" and "''/vsimem/A'' \<noteq> ''/vsimem/a''"
  by code_simp+

end
