(* ===== verification/Spec2Isabelle.thy ===== *)
theory Spec2Isabelle
  imports Csl_Facts Cpl_Escape_Facts Csl_Tokenize Mini_Xml_Facts Mini_Xml_Tree Mem_Cache Srs_Node_Facts Multi_Domain_Facts
    Sieve_Regions Raster_Io_Errors Vsi_Mem_Errors
begin

text \<open>
  A verification library for the core of GDAL 1.6.1 as it is kept in this repository under
  \<^verbatim>\<open>src/gdal-1.6.1-tcl_patched\<close> (all paths below are relative to that directory).

  \<^bold>\<open>The program.\<close>  The repository is a raster library with a Tcl viewer on top of it.  The
  portability layer \<^verbatim>\<open>port/\<close> gives everything else its strings, string lists and XML documents;
  \<^verbatim>\<open>gcore/\<close> holds the raster model, whose heart is the cache of raster blocks that all drivers
  share; \<^verbatim>\<open>frmts/\<close> holds the drivers, of which the in-memory one is the reference; \<^verbatim>\<open>ogr/\<close> holds
  the vector side and the spatial reference systems.  A driver is called by the cache to read and
  to write blocks; the driver's options travel in string lists; reference systems and metadata
  travel as text.

  \<^bold>\<open>Theories and what they model.\<close>

  \<^item> \<open>Prelude\<close>: C strings, \<open>EQUAL\<close>, truncating division and the wrap-around of a 32 bit \<^verbatim>\<open>int\<close>
    (\<open>to_i32\<close>), with the facts all components share.
  \<^item> \<open>Csl\<close>, \<open>Name_Value_Store\<close>, \<open>Csl_Facts\<close>: the string lists of \<^verbatim>\<open>port/cpl_string.cpp\<close>, with
    the pointer loops of insertion and removal on arrays of slots.  The locale
    \<open>name_value_store\<close> is the contract of a case-insensitive map; the lists meet it.
  \<^item> \<open>Csl_Tokenize\<close>: \<open>CSLTokenizeString2\<close> with the token buffer and the list of tokens it grows, their
    capacities in an \<^verbatim>\<open>int\<close>.
  \<^item> \<open>Codec\<close>, \<open>Cpl_Escape\<close>, \<open>Cpl_Escape_Facts\<close>: escaping, hexadecimal text and the recognition of
    numbers, with the output buffers of both directions.  The locale \<open>symbol_codec\<close> states that a decoder undoes an encoder character by character;
    every scheme is an interpretation.
  \<^item> \<open>Mini_Xml\<close>, \<open>Mini_Xml_Facts\<close>, \<open>Mini_Xml_Tree\<close>: the XML parser, the serializer with the size
    of its buffer, and the operations on trees, of \<^verbatim>\<open>port/cpl_minixml.cpp\<close>.
  \<^item> \<open>Data_Type\<close>: pixel types, \<^verbatim>\<open>gcore/gdal_misc.cpp\<close>.
  \<^item> \<open>Band_Table\<close>: the block table of a band, in \<^verbatim>\<open>gcore/gdalrasterband.cpp\<close>, with and without
    sub-blocking.
  \<^item> \<open>Block_Lru\<close>: blocks on a heap and the doubly linked list of all blocks in order of their last
    use, \<^verbatim>\<open>gcore/gdalrasterblock.cpp\<close>.
  \<^item> \<open>Block_Cache\<close>: the cache itself, that is eviction, the account of memory, and the access to
    blocks (\<open>GetLockedBlockRef\<close>, \<open>FlushBlock\<close>, \<open>FlushCache\<close>, \<open>Fill\<close>) of both files.
    \<open>Block_Cache_Facts\<close>, \<open>Block_Evict\<close> and \<open>Block_Access\<close> prove what each operation does to the
    list, the tables and the account; \<open>Block_Store\<close> states the contract of a driver as the locale
    \<open>block_store\<close> and proves the cache transparent for every driver that meets it.
  \<^item> \<open>Mem_Driver\<close>, \<open>Mem_Dataset\<close>, \<open>Mem_Cache\<close>: the in-memory driver, \<^verbatim>\<open>frmts/mem/memdataset.cpp\<close>, on
    a memory of bytes; its interpretation of \<open>block_store\<close>; and whole runs through the cache.
  \<^item> \<open>Srs_Node\<close>, \<open>Srs_Node_Facts\<close>: the trees that define spatial reference systems and their text,
    \<^verbatim>\<open>ogr/ogr_srsnode.cpp\<close>.
  \<^item> \<open>Multi_Domain\<close>, \<open>Multi_Domain_Facts\<close>: metadata in domains and their XML form,
    \<^verbatim>\<open>gcore/gdalmultidomainmetadata.cpp\<close>, built on the string lists and the XML trees; they are a
    second interpretation of \<open>name_value_store\<close>.
  \<^item> \<open>Polygon_Enum\<close>, \<open>Polygon_Forest\<close>, \<open>Polygon_Facts\<close>: the enumerator of connected pixels of
    \<^verbatim>\<open>alg/gdalrasterpolygonenumerator.cpp\<close>, a forest of polygon numbers; \<open>Sieve\<close>,
    \<open>Sieve_Facts\<close>, \<open>Sieve_Regions\<close>: the sieve filter of \<^verbatim>\<open>alg/gdalsievefilter.cpp\<close> on top of it.
  \<^item> \<open>Pixel_Copy\<close>, \<open>Pixel_Copy_Facts\<close>: copies of words between buffers with conversion of types,
    \<^verbatim>\<open>gcore/rasterio.cpp\<close>.
  \<^item> \<open>Raster_Io\<close>: input and output of windows through the cache, \<open>RasterIO\<close> of
    \<^verbatim>\<open>gcore/gdalrasterband.cpp\<close> and \<open>IRasterIO\<close> of \<^verbatim>\<open>gcore/rasterio.cpp\<close>.  \<open>Raster_Io_Steps\<close> proves the steps
    it makes on the cache, in the locale \<open>pixel_store\<close> that extends \<open>block_store\<close>; \<open>Raster_Io_Facts\<close> the invariant of
    what has been moved; \<open>Raster_Io_Loops\<close>, \<open>Raster_Io_Cases\<close> and \<open>Raster_Io_Resample\<close> its three loops;
    \<open>Raster_Io_Windows\<close> the whole operation and its run on datasets in memory; \<open>Raster_Io_Errors\<close> where it goes wrong.
  \<^item> \<open>Vsi_Mem\<close>: the file system in memory, \<^verbatim>\<open>port/cpl_vsi_mem.cpp\<close>, with the choice of a handler by
    \<^verbatim>\<open>port/cpl_vsil.cpp\<close>; its state \<open>mem_fs\<close> is the list of names with the heaps of files, handles and buffers.
    \<open>Vsi_Mem_Facts\<close> states its invariant \<open>fs_ok\<close> and proves what reading, writing and new lengths do to the contents of
    files; \<open>Vsi_Mem_Refs\<close> proves the counting of references; \<open>Vsi_Mem_Calls\<close> the remaining operations; \<open>Vsi_Mem_Runs\<close> that
    runs of calls are safe; \<open>Vsi_Mem_Names\<close> that names act as a map, with the contract \<open>file_store\<close> of a caller that saves
    and fetches files; \<open>Vsi_Mem_Errors\<close> where it goes wrong.

  \<^bold>\<open>State and faults.\<close>  A structure of the code is a record or a datatype with the code's names, and an
  operation is a function with the code's name that takes the state and gives the state back.
  A result \<open>None\<close> of type \<open>option\<close> stands for no normal return: an access outside an array or a
  buffer, a NULL that is dereferenced, a loop that does not end.  Theorems that an operation works
  therefore state an equation with \<open>Some\<close>.  Error codes and NULL results of the code are ordinary
  values.  The state of the cache (\<open>gdal\<close>) is the heap of blocks with the ends of the list, the
  counters of memory, the bands with their tables, and the state of the drivers.

  \<^bold>\<open>What the groups of lemmas show.\<close>  For string lists: \<open>CSLSetNameValue\<close>, \<open>CSLMerge\<close> and
  \<open>CSLFetchNameValue\<close> are a map; insertion and removal stay in their arrays and are inverse.  For the
  codecs: round trips, with every store inside the allocated buffers.  For XML and for reference systems: the reader undoes the
  writer, and always returns.  For the block table: it is a map from offsets to blocks.  For the
  list: a list invariant (\<open>lru\<close>) that every pointer operation keeps.  For the cache: one invariant
  (\<open>cache_ok\<close>) that ties list, tables and heap together and that every operation keeps whatever the
  driver answers; eviction in order of use; an account of memory that is exact as long as an \<^verbatim>\<open>int\<close> can hold it; and, for drivers that meet
  the contract, that reading, filling and flushing do what they would do without a cache.  For metadata: setting an
  item changes that item only, and writing to a file and reading back loses nothing as long as values are not
  empty, do not start with a blank, and names need little escaping.  For the
  enumerator: after the last line two pixels have the same final number exactly when they are connected
  through neighbours of equal value.  For the sieve: small regions take the value of a largest neighbour,
  all others stay.  For copies of pixels: values are clamped to the target type and no other byte changes, in every loop but
  the one that repeats a word into consecutive bytes.  For raster
  input and output: exactly the pixels of the window move, whatever the shapes of blocks and buffer, over any driver
  that meets the contract, as long as a resampled write does not come back to a block that the window covers.  For files in memory: references are counted exactly, so that no name or handle leads to
  freed memory; a write replaces the bytes at its offset and no others; and a name gives back what was written last.
  Theorems about errors show where the code departs from its documentation or leaves its buffers.

  \<^bold>\<open>Bounds and fuel.\<close>  Integers are mathematical integers with \<open>to_i32\<close> where the code computes in
  an \<^verbatim>\<open>int\<close> that may overflow, and \<open>to_u64\<close> where it computes in a \<^verbatim>\<open>size_t\<close>.  The lengths of texts are natural
  numbers: those of the output of \<open>CPLSerializeXMLTree\<close> (\<open>GrowBuffer\<close>) and of \<open>exportToWkt\<close> and
  \<open>exportToPrettyWkt\<close> (\<open>in_buffer\<close>), and the offset of the XML parser in its input, do not wrap around as in the
  code, which matters for texts of 2 GiB and more only.  The capacity of the token buffer does wrap around, since it
  is more than twice as large as the token; \<open>max_text\<close> is the length up to which it does not.  The loop of evictions is a
  partial function; \<open>GDALSetCacheMax_obeyed\<close> shows that it returns.  \<open>importFromWkt\<close> has as
  fuel twice the length of its input and one, which \<open>importFromWkt_returns\<close> shows to be enough;
  the XML parser is a partial function whose return is shown for the documents that cannot hang it; the loop over the
  declarations of a DOCTYPE is one too, shown not to return when they are not closed.
  The chains of polygon numbers are followed by partial functions too; that they end is part of the
  invariant of the forest.  The loops of \<open>IRasterIO\<close> over rows and columns of blocks are partial functions that are
  shown to return.  Polygon numbers stay below \<open>id_limit\<close>, beyond which the allocation of their tables overflows.

  \<^bold>\<open>Parameters.\<close>  Drivers other than the in-memory one and the allocator are arguments.  What is assumed of them
  is stated in the theorems: \<open>fresh_alloc\<close> is what \<^verbatim>\<open>calloc\<close> documents, \<open>reallocates\<close> what \<^verbatim>\<open>realloc\<close> documents
  as long as memory lasts.  The sieve takes the lines of its
  bands and the answers of the progress function as arguments; conversions of pixels that pass through a \<^verbatim>\<open>double\<close>, the
  access to overviews, the floating-point coordinates of resampled windows and an \<open>IRasterIO\<close> that a band class has of
  its own are arguments of \<open>GDALRasterBand_RasterIO\<close>; \<open>RasterIO\<close> is the call for a class that inherits it.

  \<^bold>\<open>Not modelled.\<close>  Error reports and debugging output; mutexes, so that operations run one at a time;
  failure of allocations other than those of blocks and of in-memory bands; calls from a driver back
  into the cache.  Of the components that are modelled in part, the manifest says what is missing.  Left
  out altogether are code that computes in floating point (warping, contours, transformers,
  statistics, geometry), drivers that read foreign formats, which depend on libraries and on file
  systems, generated bindings, vendored libraries, and the viewer, which is written in Tcl.

  \<^bold>\<open>Next.\<close>  Polygons from enumerated pixels (\<^verbatim>\<open>alg/polygonize.cpp\<close>), hash sets and linked lists, and
  file names.
\<close>

end
